(* ===== verification/Svm_Prelude.thy ===== *)
theory Svm_Prelude
  imports Main "HOL-Library.Word" "HOL-Library.List_Lexorder" "HOL-Library.Char_ord"
    "HOL-Library.Product_Lexorder"
begin

text \<open>
  Shared vocabulary of the development: machine integers, byte strings, the error values of the
  chain's modules and the result type in which every fallible Go function is written, and the
  ordered key/value store behind every \<open>collections.Map\<close>, \<open>collections.KeySet\<close> and
  \<open>collections.Sequence\<close> of the keepers. The store lemmas are unconditional rewrite rules, so
  the component proofs run by simplification.
\<close>

section \<open>Machine integers and byte strings\<close>

type_synonym u64 = "64 word"
type_synonym u32 = "32 word"

text \<open>A Go string and a Go byte slice are both sequences of bytes; a HOL \<open>char\<close> is one byte.\<close>

type_synonym bytes = string

named_theorems kv_simps \<open>rewrite rules of the ordered stores\<close>
named_theorems res_simps \<open>rewrite rules of the result type\<close>
named_theorems frame_simps \<open>what an operation leaves untouched\<close>

section \<open>Errors\<close>

text \<open>
  The registered sentinel errors of \<open>x/oracle\<close>, \<open>x/oracle/data\<close> and \<open>x/oracle/bridge\<close>
  (their wrapped messages carry no control flow and are dropped), the store's \<open>ErrNotFound\<close>, the
  generic request error, an error handed up by an SDK keeper, a failed address decoding, and a
  run-time panic (which the SDK recovers and turns into a failed transaction).
\<close>

datatype svm_error =
    ErrInvalidSigner
  | ErrBridgeDisabled | ErrBridgeOutDisabled | ErrInvalidGatewayAccount
  | ErrDepositAlreadyMinted | ErrDepositMismatch | ErrNotBondedValidator
  | ErrDuplicateConfirmation | ErrInvalidSteemAccount | ErrInvalidAmount
  | ErrTooManyFreeDeposits | ErrNameServiceDisabled | ErrRegistrationAlreadyResolved
  | ErrRegistrationMismatch | ErrRegistrationNotFound | ErrRegistrationNotAwaiting
  | ErrConfirmerNotDestination | ErrRegistrationBelowMinimum | ErrTooManyFreeConfirmations
  | ErrWithdrawalNotFound | ErrWithdrawalAlreadyProcessed | ErrDuplicateWithdrawalConfirmation
  | ErrWithdrawalPayoutMismatch | ErrWithdrawalAlreadyRefunded | ErrSteemBlockBeforeAnchor
  | ErrExceedsBridgedAmount
  | ErrNoAggregatePrevote | ErrPrevoteNotExpired | ErrHashVerification
  | ErrInvalidExchangeRate | ErrInvalidHash
  | ErrNotFound | ErrInvalidRequest | ErrInvalidAddress | ErrKeeper | ErrUnauthorized | ErrPanic

type_synonym 'a res = "svm_error + 'a"

text \<open>
  \<open>rbind\<close> is Go's \<open>x, err := f(); if err != nil { return err }\<close>. It is shared by the modules of the
  chain (errors of type \<open>svm_error\<close>) and by the off-chain oracle, which has errors of its own.
\<close>

definition rbind :: "'e + 'a \<Rightarrow> ('a \<Rightarrow> 'e + 'b) \<Rightarrow> 'e + 'b" where
  "rbind m f = (case m of Inl e \<Rightarrow> Inl e | Inr x \<Rightarrow> f x)"

definition guard_err :: "bool \<Rightarrow> 'e \<Rightarrow> 'e + unit" where
  "guard_err ok e = (if ok then Inr () else Inl e)"

definition from_option :: "'e \<Rightarrow> 'a option \<Rightarrow> 'e + 'a" where
  "from_option e x = (case x of None \<Rightarrow> Inl e | Some y \<Rightarrow> Inr y)"

lemma rbind_Inl [simp, res_simps]: "rbind (Inl e) f = Inl e"
  by (simp add: rbind_def)

lemma rbind_Inr [simp, res_simps]: "rbind (Inr x) f = f x"
  by (simp add: rbind_def)

lemma rbind_eq_Inr [res_simps]:
  "rbind m f = Inr y \<longleftrightarrow> (\<exists>x. m = Inr x \<and> f x = Inr y)"
  by (auto simp: rbind_def split: sum.splits)

lemma rbind_eq_Inl [res_simps]:
  "rbind m f = Inl e \<longleftrightarrow> m = Inl e \<or> (\<exists>x. m = Inr x \<and> f x = Inl e)"
  by (auto simp: rbind_def split: sum.splits)

lemma guard_err_eq_Inr [simp, res_simps]: "guard_err ok e = Inr u \<longleftrightarrow> ok"
  by (simp add: guard_err_def)

lemma guard_err_eq_Inl [simp, res_simps]: "guard_err ok e = Inl e' \<longleftrightarrow> \<not> ok \<and> e' = e"
  by (auto simp: guard_err_def)

lemma guard_err_True [simp]: "guard_err True e = Inr ()"
  by (simp add: guard_err_def)

lemma guard_err_False [simp]: "guard_err False e = Inl e"
  by (simp add: guard_err_def)

lemma from_option_eq_Inr [simp, res_simps]: "from_option e x = Inr y \<longleftrightarrow> x = Some y"
  by (auto simp: from_option_def split: option.splits)

lemma from_option_eq_Inl [simp, res_simps]: "from_option e x = Inl e' \<longleftrightarrow> x = None \<and> e' = e"
  by (auto simp: from_option_def split: option.splits)

lemma from_option_Some [simp]: "from_option e (Some y) = Inr y"
  by (simp add: from_option_def)

lemma from_option_None [simp]: "from_option e None = Inl e"
  by (simp add: from_option_def)

text \<open>A Go \<open>for range\<close> loop whose body may return an error, threading a state.\<close>

fun rfold :: "('a \<Rightarrow> 's \<Rightarrow> 'e + 's) \<Rightarrow> 'a list \<Rightarrow> 's \<Rightarrow> 'e + 's" where
  "rfold f [] s = Inr s"
| "rfold f (x # xs) s = rbind (f x s) (rfold f xs)"

lemma rfold_invariant:
  assumes "rfold f xs s = Inr t" and "P s"
    and "\<And>x s t. x \<in> set xs \<Longrightarrow> P s \<Longrightarrow> f x s = Inr t \<Longrightarrow> P t"
  shows "P t"
  using assms
proof (induction xs arbitrary: s)
  case (Cons x xs)
  from Cons.prems(1) obtain u where u: "f x s = Inr u" "rfold f xs u = Inr t"
    by (auto simp: rbind_eq_Inr)
  with Cons.prems have "P u" by (meson list.set_intros(1))
  with Cons.IH u(2) Cons.prems(3) show ?case by (meson list.set_intros(2))
qed simp

lemma rfold_append: "rfold f (xs @ ys) s = rbind (rfold f xs s) (rfold f ys)"
proof (induction xs arbitrary: s)
  case (Cons x xs)
  then show ?case by (cases "f x s") auto
qed simp

section \<open>Ordered key/value stores\<close>

text \<open>
  A \<open>collections.Map\<close> iterates in key order. Its model is an association list that
  \<open>kv_set\<close> keeps sorted by key, so \<open>Walk\<close> is the list itself. A \<open>collections.KeySet\<close> is
  the list of its keys.
\<close>

type_synonym ('k, 'v) kv = "('k \<times> 'v) list"
type_synonym 'k kset = "'k list"

definition kv_get :: "('k, 'v) kv \<Rightarrow> 'k \<Rightarrow> 'v option" where
  "kv_get m k = map_of m k"

fun kv_set :: "'k::linorder \<Rightarrow> 'v \<Rightarrow> ('k, 'v) kv \<Rightarrow> ('k, 'v) kv" where
  "kv_set k v [] = [(k, v)]"
| "kv_set k v ((a, b) # m) =
     (if k < a then (k, v) # (a, b) # m
      else if k = a then (k, v) # m
      else (a, b) # kv_set k v m)"

definition kv_remove :: "'k \<Rightarrow> ('k, 'v) kv \<Rightarrow> ('k, 'v) kv" where
  "kv_remove k m = filter (\<lambda>e. fst e \<noteq> k) m"

definition kv_wf :: "('k::linorder, 'v) kv \<Rightarrow> bool" where
  "kv_wf m \<longleftrightarrow> sorted_wrt (<) (map fst m)"

fun ks_set :: "'k::linorder \<Rightarrow> 'k kset \<Rightarrow> 'k kset" where
  "ks_set k [] = [k]"
| "ks_set k (a # s) = (if k < a then k # a # s else if k = a then a # s else a # ks_set k s)"

definition ks_has :: "'k kset \<Rightarrow> 'k \<Rightarrow> bool" where
  "ks_has s k \<longleftrightarrow> k \<in> set s"

definition ks_remove :: "'k \<Rightarrow> 'k kset \<Rightarrow> 'k kset" where
  "ks_remove k s = filter (\<lambda>e. e \<noteq> k) s"

definition ks_wf :: "'k::linorder kset \<Rightarrow> bool" where
  "ks_wf s \<longleftrightarrow> sorted_wrt (<) s"

lemma kv_get_Nil [simp, kv_simps]: "kv_get [] k = None"
  by (simp add: kv_get_def)

lemma kv_get_Cons [kv_simps]: "kv_get ((a, b) # m) k = (if k = a then Some b else kv_get m k)"
  by (simp add: kv_get_def)

lemma kv_get_set [simp, kv_simps]:
  "kv_get (kv_set k v m) k' = (if k' = k then Some v else kv_get m k')"
  by (induction k v m rule: kv_set.induct) (auto simp: kv_get_def)

lemma kv_set_set [simp, kv_simps]: "kv_set k v (kv_set k w m) = kv_set k v m"
  by (induction k v m rule: kv_set.induct) auto

lemma kv_get_remove [simp, kv_simps]:
  "kv_get (kv_remove k m) k' = (if k' = k then None else kv_get m k')"
  by (induction m) (auto simp: kv_get_def kv_remove_def)

lemma ks_has_Nil [simp, kv_simps]: "\<not> ks_has [] k"
  by (simp add: ks_has_def)

lemma ks_has_set [simp, kv_simps]: "ks_has (ks_set k s) k' \<longleftrightarrow> k' = k \<or> ks_has s k'"
  by (induction k s rule: ks_set.induct) (auto simp: ks_has_def)

lemma ks_has_remove [simp, kv_simps]: "ks_has (ks_remove k s) k' \<longleftrightarrow> k' \<noteq> k \<and> ks_has s k'"
  by (auto simp: ks_has_def ks_remove_def)

lemma set_ks_set [simp]: "set (ks_set k s) = insert k (set s)"
  by (induction k s rule: ks_set.induct) auto

lemma set_ks_remove [simp]: "set (ks_remove k s) = set s - {k}"
  by (auto simp: ks_remove_def)

lemma fst_kv_set: "fst ` set (kv_set k v m) = insert k (fst ` set m)"
  by (induction k v m rule: kv_set.induct) auto

lemma kv_wf_Nil [simp]: "kv_wf []"
  by (simp add: kv_wf_def)

lemma kv_wf_set [simp]: "kv_wf m \<Longrightarrow> kv_wf (kv_set k v m)"
proof (induction k v m rule: kv_set.induct)
  case (2 k v a b m)
  then show ?case using fst_kv_set[of k v m]
    by (auto simp: kv_wf_def)
qed (simp add: kv_wf_def)

lemma kv_wf_remove [simp]: "kv_wf m \<Longrightarrow> kv_wf (kv_remove k m)"
  by (induction m) (auto simp: kv_wf_def kv_remove_def)

lemma kv_wf_filter: "kv_wf m \<Longrightarrow> kv_wf (filter P m)"
  by (induction m) (auto simp: kv_wf_def)

lemma ks_wf_Nil [simp]: "ks_wf []"
  by (simp add: ks_wf_def)

lemma ks_wf_set [simp]: "ks_wf s \<Longrightarrow> ks_wf (ks_set k s)"
  by (induction k s rule: ks_set.induct) (auto simp: ks_wf_def)

lemma ks_wf_remove [simp]: "ks_wf s \<Longrightarrow> ks_wf (ks_remove k s)"
  by (induction s) (auto simp: ks_wf_def ks_remove_def)

lemma kv_wf_distinct: "kv_wf m \<Longrightarrow> distinct (map fst m)"
  by (simp add: kv_wf_def strict_sorted_iff)

lemma kv_get_in_set: "kv_get m k = Some v \<Longrightarrow> (k, v) \<in> set m"
  by (simp add: kv_get_def map_of_SomeD)

lemma kv_wf_get_iff: "kv_wf m \<Longrightarrow> kv_get m k = Some v \<longleftrightarrow> (k, v) \<in> set m"
  by (simp add: kv_get_def kv_wf_distinct)

lemma kv_get_None_iff: "kv_get m k = None \<longleftrightarrow> k \<notin> fst ` set m"
  by (simp add: kv_get_def map_of_eq_None_iff)

text \<open>The contract a keeper relies on: what a read returns after a write.\<close>

locale kv_spec =
  fixes get :: "'m \<Rightarrow> 'k \<Rightarrow> 'v option"
    and put :: "'k \<Rightarrow> 'v \<Rightarrow> 'm \<Rightarrow> 'm"
    and del :: "'k \<Rightarrow> 'm \<Rightarrow> 'm"
  assumes get_put: "get (put k v m) k' = (if k' = k then Some v else get m k')"
    and get_del: "get (del k m) k' = (if k' = k then None else get m k')"
begin

lemma get_put_same: "get (put k v m) k = Some v"
  by (simp add: get_put)

lemma put_put_get: "get (put k v (put k w m)) = get (put k v m)"
  by (auto simp: get_put)

lemma del_put_get: "get m k = None \<Longrightarrow> get (del k (put k v m)) = get m"
  by (auto simp: get_put get_del)

lemma puts_get:
  "distinct (map fst es) \<Longrightarrow>
   get (fold (\<lambda>(k, v). put k v) es m) k = (case map_of es k of Some v \<Rightarrow> Some v | None \<Rightarrow> get m k)"
proof (induction es arbitrary: m)
  case (Cons e es)
  obtain a b where e: "e = (a, b)" by force
  have "map_of es a = None" using Cons.prems e by (simp add: map_of_eq_None_iff)
  with Cons e show ?case by (auto simp: get_put split: option.splits)
qed simp

end

interpretation store: kv_spec kv_get kv_set kv_remove
  by unfold_locales simp_all

lemma kv_set_end:
  "\<forall>a \<in> fst ` set m. a < k \<Longrightarrow> kv_set k v m = m @ [(k, v)]"
  by (induction k v m rule: kv_set.induct) auto

text \<open>Rebuilding a store by writing back what a walk of it lists gives the store again.\<close>

lemma kv_rebuild_aux:
  "kv_wf (m @ es) \<Longrightarrow> fold (\<lambda>(k, v). kv_set k v) es m = m @ es"
proof (induction es arbitrary: m)
  case (Cons e es)
  obtain a b where e: "e = (a, b)" by force
  have "\<forall>c \<in> fst ` set m. c < a"
    using Cons.prems e by (auto simp: kv_wf_def sorted_wrt_append)
  then have "kv_set a b m = m @ [(a, b)]" by (rule kv_set_end)
  with Cons.IH[of "m @ [(a, b)]"] Cons.prems e show ?case by simp
qed simp

lemma kv_rebuild: "kv_wf m \<Longrightarrow> fold (\<lambda>(k, v). kv_set k v) m [] = m"
  using kv_rebuild_aux[of "[]" m] by simp

end
