(* ===== verification/Go_Strings.thy ===== *)
theory Go_Strings
  imports Svm_Prelude
begin

text \<open>
  The parts of Go's \<open>strings\<close>, \<open>strconv\<close>, \<open>fmt\<close>, \<open>unicode/utf8\<close> and
  \<open>encoding/hex\<close> packages that the modules call, on byte strings: decimal and hexadecimal
  rendering, splitting, cutting, trimming of Unicode white space, and UTF-8 decoding. The lemmas
  are the round trips and injectivity facts the encoders of the chain rely on.
\<close>

section \<open>Decimal and hexadecimal rendering\<close>

definition digit_char :: "nat \<Rightarrow> char" where
  "digit_char n = (if n < 10 then char_of (48 + n) else char_of (87 + n))"

fun FormatUint :: "nat \<Rightarrow> string" where
  "FormatUint n = (if n < 10 then [digit_char n] else FormatUint (n div 10) @ [digit_char (n mod 10)])"

declare FormatUint.simps [simp del]

definition pad10 :: "nat \<Rightarrow> string" where
  \<comment> \<open>the format verb \<open>%010d\<close>\<close>
  "pad10 n = (let d = FormatUint n in replicate (10 - length d) (CHR ''0'') @ d)"

definition EncodeToString :: "bytes \<Rightarrow> string" where
  "EncodeToString bs = concat (map (\<lambda>b. [digit_char (of_char b div 16), digit_char (of_char b mod 16)]) bs)"

definition is_digit :: "char \<Rightarrow> bool" where
  "is_digit c \<longleftrightarrow> 48 \<le> (of_char c :: nat) \<and> (of_char c :: nat) \<le> 57"

definition is_lower :: "char \<Rightarrow> bool" where
  "is_lower c \<longleftrightarrow> 97 \<le> (of_char c :: nat) \<and> (of_char c :: nat) \<le> 122"

definition is_hex_lower :: "char \<Rightarrow> bool" where
  "is_hex_lower c \<longleftrightarrow> is_digit c \<or> (97 \<le> (of_char c :: nat) \<and> (of_char c :: nat) \<le> 102)"

definition is_hex :: "char \<Rightarrow> bool" where
  "is_hex c \<longleftrightarrow> is_hex_lower c \<or> (65 \<le> (of_char c :: nat) \<and> (of_char c :: nat) \<le> 70)"

fun digits_val :: "nat \<Rightarrow> string \<Rightarrow> nat" where
  "digits_val acc [] = acc"
| "digits_val acc (c # cs) = digits_val (10 * acc + (of_char c - 48)) cs"

lemma digit_char_val: "n < 10 \<Longrightarrow> (of_char (digit_char n) :: nat) = 48 + n"
  by (simp add: digit_char_def)

lemma digits_val_append: "digits_val acc (xs @ ys) = digits_val (digits_val acc xs) ys"
  by (induction acc xs rule: digits_val.induct) auto

lemma digits_val_FormatUint: "digits_val 0 (FormatUint n) = n"
proof (induction n rule: FormatUint.induct)
  case (1 n)
  then show ?case
    by (subst FormatUint.simps) (auto simp: digits_val_append digit_char_val)
qed

lemma FormatUint_inject [simp]: "FormatUint m = FormatUint n \<longleftrightarrow> m = n"
  by (metis digits_val_FormatUint)

lemma FormatUint_digits: "c \<in> set (FormatUint n) \<Longrightarrow> is_digit c"
proof (induction n rule: FormatUint.induct)
  case (1 n)
  from 1(2) show ?case
    by (subst (asm) FormatUint.simps) (use 1(1) in \<open>auto simp: is_digit_def digit_char_val split: if_splits\<close>)
qed

lemma digits_val_zeros: "digits_val 0 (replicate k (CHR ''0'') @ s) = digits_val 0 s"
  by (induction k) auto

lemma pad10_val: "digits_val 0 (pad10 n) = n"
  by (simp add: pad10_def Let_def digits_val_zeros digits_val_FormatUint)

lemma pad10_inject [simp]: "pad10 m = pad10 n \<longleftrightarrow> m = n"
  by (metis pad10_val)

lemma length_FormatUint_le: "n < 10 ^ k \<Longrightarrow> 0 < k \<Longrightarrow> length (FormatUint n) \<le> k"
proof (induction n arbitrary: k rule: FormatUint.induct)
  case (1 n)
  show ?case
  proof (cases "n < 10")
    case False
    with 1(2) obtain j where j: "k = Suc j" "0 < j"
      by (cases k; cases "k - 1") auto
    with 1(2) have "n div 10 < 10 ^ j" by (simp add: less_mult_imp_div_less mult.commute)
    with 1(1)[OF False _ j(2)] have "length (FormatUint (n div 10)) \<le> j" by blast
    with j False show ?thesis by (subst FormatUint.simps) simp
  qed (use 1 in \<open>subst FormatUint.simps, simp\<close>)
qed

lemma length_pad10: "n < 10 ^ 10 \<Longrightarrow> length (pad10 n) = 10"
  using length_FormatUint_le[of n 10] by (simp add: pad10_def Let_def)

section \<open>Splitting, cutting and joining\<close>

fun Split :: "char \<Rightarrow> string \<Rightarrow> string list" where
  "Split c [] = [[]]"
| "Split c (x # xs) =
     (if x = c then [] # Split c xs
      else case Split c xs of [] \<Rightarrow> [[x]] | y # ys \<Rightarrow> (x # y) # ys)"

fun Join :: "char \<Rightarrow> string list \<Rightarrow> string" where
  "Join c [] = []"
| "Join c [s] = s"
| "Join c (s # t # ss) = s @ [c] @ Join c (t # ss)"

text \<open>\<open>strings.Cut\<close> at the first occurrence of a one-byte separator.\<close>

fun Cut :: "char \<Rightarrow> string \<Rightarrow> (string \<times> string) option" where
  "Cut c [] = None"
| "Cut c (x # xs) = (if x = c then Some ([], xs) else map_option (\<lambda>(a, b). (x # a, b)) (Cut c xs))"

text \<open>The text before and after the last occurrence (\<open>strings.LastIndex\<close> and the two slices).\<close>

definition CutLast :: "char \<Rightarrow> string \<Rightarrow> (string \<times> string) option" where
  "CutLast c s = map_option (\<lambda>(a, b). (rev b, rev a)) (Cut c (rev s))"

fun CutPrefix :: "string \<Rightarrow> string \<Rightarrow> string option" where
  "CutPrefix [] s = Some s"
| "CutPrefix (p # ps) [] = None"
| "CutPrefix (p # ps) (x # xs) = (if p = x then CutPrefix ps xs else None)"

lemma Split_ne [simp]: "Split c s \<noteq> []"
  by (induction c s rule: Split.induct) (auto split: list.splits)

lemma Split_no_sep: "c \<notin> set s \<Longrightarrow> Split c s = [s]"
  by (induction c s rule: Split.induct) auto

lemma Split_append_sep: "c \<notin> set s \<Longrightarrow> Split c (s @ [c] @ t) = s # Split c t"
  by (induction s) (auto split: list.splits)

lemma Split_Join: "ss \<noteq> [] \<Longrightarrow> \<forall>s \<in> set ss. c \<notin> set s \<Longrightarrow> Split c (Join c ss) = ss"
proof (induction c ss rule: Join.induct)
  case (3 c s t ss)
  then show ?case using Split_append_sep[of c s "Join c (t # ss)"] by simp
qed (auto simp: Split_no_sep)

lemma Join_Split: "Join c (Split c s) = s"
proof (induction c s rule: Split.induct)
  case (2 c x xs)
  obtain y ys where y: "Split c xs = y # ys" by (cases "Split c xs") auto
  with 2 show ?case by (cases ys) auto
qed simp

lemma Cut_append: "c \<notin> set a \<Longrightarrow> Cut c (a @ c # b) = Some (a, b)"
  by (induction a) auto

lemma CutLast_append: "c \<notin> set b \<Longrightarrow> CutLast c (a @ c # b) = Some (a, b)"
  by (simp add: CutLast_def Cut_append)

lemma CutPrefix_append [simp]: "CutPrefix p (p @ s) = Some s"
  by (induction p) auto

lemma CutPrefix_Some: "CutPrefix p s = Some r \<longleftrightarrow> s = p @ r"
  by (induction p s rule: CutPrefix.induct) auto

section \<open>White space\<close>

text \<open>
  \<open>strings.TrimSpace\<close> removes leading and trailing runes with \<open>unicode.IsSpace\<close>. These are
  their UTF-8 encodings. A lead byte never occurs inside an encoding, so testing for a prefix
  (respectively a suffix) is the same as decoding the first (respectively the last) rune.
\<close>

definition space_encodings :: "string list" where
  "space_encodings =
     map (\<lambda>b. [char_of b]) [9, 10, 11, 12, 13, 32 :: nat] @
     map (\<lambda>b. [char_of (194::nat), char_of b]) [133, 160 :: nat] @
     [map char_of [225, 154, 128 :: nat]] @
     map (\<lambda>b. map char_of [226, 128, b]) [128, 129, 130, 131, 132, 133, 134, 135, 136, 137, 138,
        168, 169, 175 :: nat] @
     [map char_of [226, 129, 159 :: nat], map char_of [227, 128, 128 :: nat]]"

fun cut_any :: "string list \<Rightarrow> string \<Rightarrow> string option" where
  "cut_any [] s = None"
| "cut_any (p # ps) s = (case CutPrefix p s of Some r \<Rightarrow> Some r | None \<Rightarrow> cut_any ps s)"

lemma cut_any_shorter:
  "\<forall>p \<in> set ps. p \<noteq> [] \<Longrightarrow> cut_any ps s = Some r \<Longrightarrow> length r < length s"
  by (induction ps) (auto split: option.splits simp: CutPrefix_Some)

text \<open>The loop of the trim: cut while some encoding is a prefix.\<close>

function trim_with :: "string list \<Rightarrow> string \<Rightarrow> string" where
  "trim_with ps s =
     (if \<forall>p \<in> set ps. p \<noteq> [] then (case cut_any ps s of None \<Rightarrow> s | Some r \<Rightarrow> trim_with ps r) else s)"
  by pat_completeness auto
termination
  by (relation "measure (\<lambda>(ps, s). length s)") (auto dest: cut_any_shorter)

declare trim_with.simps [simp del]

definition TrimSpace :: "string \<Rightarrow> string" where
  "TrimSpace s = rev (trim_with (map rev space_encodings) (rev (trim_with space_encodings s)))"

definition visible :: "char \<Rightarrow> bool" where
  "visible c \<longleftrightarrow> 33 \<le> (of_char c :: nat) \<and> (of_char c :: nat) \<le> 126"

lemma cut_any_None: "\<forall>p \<in> set ps. \<exists>a b. p = a # b \<and> a \<noteq> x \<Longrightarrow> cut_any ps (x # xs) = None"
  by (induction ps) auto

lemma trim_with_keep:
  "\<forall>p \<in> set ps. \<exists>a b. p = a # b \<and> a \<noteq> x \<Longrightarrow> trim_with ps (x # xs) = x # xs"
  by (subst trim_with.simps) (auto simp: cut_any_None)

lemma space_heads: "visible c \<Longrightarrow> \<forall>p \<in> set space_encodings. \<exists>a b. p = a # b \<and> a \<noteq> c"
  unfolding space_encodings_def by (auto simp: visible_def)

lemma space_lasts: "visible c \<Longrightarrow> \<forall>p \<in> set (map rev space_encodings). \<exists>a b. p = a # b \<and> a \<noteq> c"
  unfolding space_encodings_def by (auto simp: visible_def)

lemma TrimSpace_Nil [simp]: "TrimSpace [] = []"
  unfolding TrimSpace_def
  by (simp add: trim_with.simps space_encodings_def)

lemma TrimSpace_visible:
  assumes "s \<noteq> []" and "visible (hd s)" and "visible (last s)"
  shows "TrimSpace s = s"
proof -
  obtain x xs where s: "s = x # xs" using assms(1) by (cases s) auto
  have "trim_with space_encodings s = s"
    unfolding s using assms(2) s by (intro trim_with_keep space_heads) simp
  moreover obtain y ys where r: "rev s = y # ys" using assms(1) by (cases "rev s") auto
  moreover have "visible y" using assms(3) r by (metis hd_rev list.sel(1))
  moreover have "trim_with (map rev space_encodings) (rev s) = rev s"
    unfolding r using \<open>visible y\<close> by (intro trim_with_keep space_lasts)
  ultimately show ?thesis by (simp add: TrimSpace_def)
qed

lemma TrimSpace_all_visible: "\<forall>c \<in> set s. visible c \<Longrightarrow> TrimSpace s = s"
  by (cases "s = []") (auto intro: TrimSpace_visible)

lemma space_encodings_ne: "\<forall>p \<in> set space_encodings. p \<noteq> []"
  by (simp add: space_encodings_def)

text \<open>
  \<open>strings.Fields\<close>: the maximal runs without white space. The first argument holds the run read
  so far, reversed.
\<close>

function fields_loop :: "string \<Rightarrow> string \<Rightarrow> string list" where
  "fields_loop cur s =
     (case cut_any space_encodings s of
        Some r \<Rightarrow> (if cur = [] then fields_loop [] r else rev cur # fields_loop [] r)
      | None \<Rightarrow> (case s of
          [] \<Rightarrow> (if cur = [] then [] else [rev cur])
        | c # cs \<Rightarrow> fields_loop (c # cur) cs))"
  by pat_completeness auto

termination
  by (relation "measure (\<lambda>(cur, s). length s)")
     (auto dest: cut_any_shorter[OF space_encodings_ne])

declare fields_loop.simps [simp del]

definition Fields :: "string \<Rightarrow> string list" where
  "Fields s = fields_loop [] s"

definition HasPrefix :: "string \<Rightarrow> string \<Rightarrow> bool" where
  "HasPrefix s p \<longleftrightarrow> take (length p) s = p"

lemma fields_loop_visible:
  "\<forall>c \<in> set a. visible c \<Longrightarrow> fields_loop cur (a @ s) = fields_loop (rev a @ cur) s"
proof (induction a arbitrary: cur)
  case (Cons c a)
  then have "cut_any space_encodings (c # a @ s) = None"
    by (intro cut_any_None space_heads) simp
  with Cons show ?case by (subst fields_loop.simps) simp
qed simp

lemma ascii_spaces:
  "char_of (9::nat) = CHR 0x09" "char_of (10::nat) = CHR 0x0A" "char_of (11::nat) = CHR 0x0B"
  "char_of (12::nat) = CHR 0x0C" "char_of (13::nat) = CHR 0x0D" "char_of (32::nat) = CHR '' ''"
  by code_simp+

lemma fields_loop_space:
  "fields_loop cur (CHR '' '' # s) = (if cur = [] then fields_loop [] s else rev cur # fields_loop [] s)"
  by (subst fields_loop.simps) (simp add: space_encodings_def ascii_spaces)

lemma fields_loop_Nil: "fields_loop cur [] = (if cur = [] then [] else [rev cur])"
  by (subst fields_loop.simps) (simp add: space_encodings_def)

lemma Fields_two:
  assumes "a \<noteq> []" and "b \<noteq> []" and "\<forall>c \<in> set a. visible c" and "\<forall>c \<in> set b. visible c"
  shows "Fields (a @ CHR '' '' # b) = [a, b]"
  using assms fields_loop_visible[OF assms(3), of "[]" "CHR '' '' # b"]
    fields_loop_visible[OF assms(4), of "[]" "[]"]
  by (simp add: Fields_def fields_loop_space fields_loop_Nil)

section \<open>UTF-8\<close>

definition cont :: "nat \<Rightarrow> bool" where
  "cont b \<longleftrightarrow> 128 \<le> b \<and> b \<le> 191"

text \<open>Decoding of a byte sequence into code points, \<open>None\<close> where \<open>utf8.ValidString\<close> fails.\<close>

fun utf8_decode :: "nat list \<Rightarrow> nat list option" where
  "utf8_decode [] = Some []"
| "utf8_decode (a # s) =
     (if a < 128 then map_option ((#) a) (utf8_decode s)
      else case s of
        b # s2 \<Rightarrow>
          if 194 \<le> a \<and> a \<le> 223 \<and> cont b
          then map_option ((#) ((a - 192) * 64 + (b - 128))) (utf8_decode s2)
          else (case s2 of
            c # s3 \<Rightarrow>
              if 224 \<le> a \<and> a \<le> 239 \<and> cont b \<and> cont c \<and> (a = 224 \<longrightarrow> 160 \<le> b) \<and> (a = 237 \<longrightarrow> b \<le> 159)
              then map_option ((#) (((a - 224) * 64 + (b - 128)) * 64 + (c - 128))) (utf8_decode s3)
              else (case s3 of
                d # s4 \<Rightarrow>
                  if 240 \<le> a \<and> a \<le> 244 \<and> cont b \<and> cont c \<and> cont d \<and>
                     (a = 240 \<longrightarrow> 144 \<le> b) \<and> (a = 244 \<longrightarrow> b \<le> 143)
                  then map_option
                    ((#) ((((a - 240) * 64 + (b - 128)) * 64 + (c - 128)) * 64 + (d - 128))) (utf8_decode s4)
                  else None
              | [] \<Rightarrow> None)
          | [] \<Rightarrow> None)
      | [] \<Rightarrow> None)"

definition utf8_runes :: "string \<Rightarrow> nat list option" where
  "utf8_runes s = utf8_decode (map of_char s)"

definition utf8_ValidString :: "string \<Rightarrow> bool" where
  "utf8_ValidString s \<longleftrightarrow> utf8_runes s \<noteq> None"

definition IsControl :: "nat \<Rightarrow> bool" where
  "IsControl r \<longleftrightarrow> r < 32 \<or> (127 \<le> r \<and> r < 160)"

lemma utf8_ascii: "\<forall>b \<in> set bs. b < 128 \<Longrightarrow> utf8_decode bs = Some bs"
  by (induction bs) auto

end
