(* ===== verification/Svm_Env.thy ===== *)
theory Svm_Env
  imports Go_Strings
begin

text \<open>
  What the modules read from code outside the repository, gathered as the fields of one record that
  every operation takes as an argument: the SDK's address codecs, hashing, the staking keeper's
  view of the validator set, the block context, and the two rounding operations of the SDK's
  fixed-point decimal type. The bank keeper is a record of operations over an abstract ledger.
  What the proofs need of this code is stated as named hypotheses (\<open>dec_round\<close>,
  \<open>bank_keeper\<close>, \<open>staking_ok\<close>, \<open>codec_ok\<close>), each satisfied by a concrete instance here: half-even
  rounding, and the in-memory bank of the repository's keeper tests.
\<close>

section \<open>Fixed-point decimals\<close>

text \<open>
  \<open>math.LegacyDec\<close> is an integer scaled by \<open>10 ^ 18\<close>. Addition, subtraction, comparison,
  conversion from an integer and multiplication by an integer are exact; \<open>Mul\<close> and \<open>Quo\<close>
  round to the nearest representable value.
\<close>

type_synonym dec = int

definition dec_one :: dec where
  "dec_one = 1000000000000000000"

definition LegacyNewDecFromInt :: "int \<Rightarrow> dec" where
  "LegacyNewDecFromInt n = n * dec_one"

text \<open>\<open>math.LegacyNewDec(int64(v))\<close> of an unsigned counter: the conversion reinterprets the sign bit.\<close>

definition dec_of_u64 :: "u64 \<Rightarrow> dec" where
  "dec_of_u64 v = LegacyNewDecFromInt (sint v)"

text \<open>Dereferencing a nil decimal panics.\<close>

definition dec_val :: "dec option \<Rightarrow> dec res" where
  "dec_val d = from_option ErrPanic d"

lemma dec_val_eq_Inr [simp, res_simps]: "dec_val d = Inr x \<longleftrightarrow> d = Some x"
  by (simp add: dec_val_def)

lemma dec_val_Some [simp]: "dec_val (Some x) = Inr x"
  by (simp add: dec_val_def)

lemma dec_one_pos [simp]: "0 < dec_one" "0 \<le> dec_one" "dec_one \<noteq> 0"
  by (simp_all add: dec_one_def)

lemma abs_le_half_unique:
  fixes x y m :: int
  assumes "0 < m" and "2 * \<bar>x * m - y * m\<bar> \<le> m"
  shows "x = y"
proof -
  have "2 * (\<bar>x - y\<bar> * m) \<le> m"
    using assms by (simp add: left_diff_distrib[symmetric] abs_mult)
  then have "2 * \<bar>x - y\<bar> \<le> 1"
    using assms(1) by (simp add: mult.assoc[symmetric])
  then show ?thesis by arith
qed

locale dec_round =
  fixes mul quo :: "dec \<Rightarrow> dec \<Rightarrow> dec"
  assumes mul_round: "2 * \<bar>mul a b * dec_one - a * b\<bar> \<le> dec_one"
    and quo_round: "b \<noteq> 0 \<Longrightarrow> 2 * \<bar>quo a b * b - a * dec_one\<bar> \<le> \<bar>b\<bar>"
begin

lemma quo_bounds:
  "0 < b \<Longrightarrow> 2 * (quo a b * b) - 2 * (a * dec_one) \<le> b"
  "0 < b \<Longrightarrow> 2 * (a * dec_one) - 2 * (quo a b * b) \<le> b"
  using quo_round[of b a] by (auto simp: abs_if split: if_splits)

lemma mul_exact: "a * b = c * dec_one \<Longrightarrow> mul a b = c"
  using mul_round[of a b] by (auto intro: abs_le_half_unique[of dec_one])

lemma quo_exact: "0 < b \<Longrightarrow> a * dec_one = c * b \<Longrightarrow> quo a b = c"
  using quo_round[of b a] by (auto intro: abs_le_half_unique[of b])

lemma mul_one [simp]: "mul a dec_one = a"
  by (simp add: mul_exact)

lemma mul_zero [simp]: "mul a 0 = 0"
  by (simp add: mul_exact)

lemma quo_zero [simp]: "0 < b \<Longrightarrow> quo 0 b = 0"
  by (simp add: quo_exact)

lemma quo_self: "0 < b \<Longrightarrow> quo b b = dec_one"
  by (simp add: quo_exact)

lemma mul_nonneg:
  assumes "0 \<le> a" and "0 \<le> b" shows "0 \<le> mul a b"
proof (rule ccontr)
  assume "\<not> 0 \<le> mul a b"
  then have "mul a b \<le> -1" by simp
  then have "mul a b * dec_one \<le> - dec_one"
    by (metis dec_one_pos(2) mult_minus1 mult_right_mono)
  moreover have "0 \<le> a * b" using assms by simp
  ultimately show False using mul_round[of a b] by (simp add: dec_one_def abs_if split: if_splits)
qed

lemma quo_nonneg:
  assumes "0 \<le> a" and "0 < b" shows "0 \<le> quo a b"
proof (rule ccontr)
  assume "\<not> 0 \<le> quo a b"
  then have "quo a b \<le> -1" by simp
  then have q: "quo a b * b \<le> - b"
    using assms(2) by (metis less_eq_int_code(1) mult_minus1 mult_right_mono order_less_imp_le)
  moreover have "0 \<le> a * dec_one" using assms by simp
  ultimately show False using quo_round[of b a] assms(2) by (simp add: abs_if split: if_splits)
qed

lemma quo_le_one:
  assumes "0 \<le> a" and "a \<le> b" and "0 < b" shows "quo a b \<le> dec_one"
proof (rule ccontr)
  assume "\<not> quo a b \<le> dec_one"
  then have "dec_one + 1 \<le> quo a b" by simp
  then have "(dec_one + 1) * b \<le> quo a b * b" using assms(3) by (intro mult_right_mono) auto
  then have "dec_one * b + b \<le> quo a b * b" by (simp add: distrib_right)
  moreover have "a * dec_one \<le> dec_one * b"
    using assms(2) by (metis dec_one_pos(2) mult.commute mult_right_mono)
  ultimately show False using quo_bounds(1)[OF assms(3), of a] assms(3) by linarith
qed

lemma mul_le_left:
  assumes "0 \<le> a" and "b \<le> dec_one" and "0 \<le> b" shows "mul a b \<le> a"
proof (rule ccontr)
  assume "\<not> mul a b \<le> a"
  then have "a + 1 \<le> mul a b" by simp
  then have "(a + 1) * dec_one \<le> mul a b * dec_one" by (intro mult_right_mono) auto
  then have "a * dec_one + dec_one \<le> mul a b * dec_one" by (simp add: distrib_right)
  moreover have "a * b \<le> a * dec_one" using assms by (intro mult_left_mono) auto
  ultimately show False using mul_round[of a b] by (simp add: dec_one_def abs_if split: if_splits)
qed

text \<open>A quotient that reaches a threshold certifies the exact ratio up to half a unit in the last place.\<close>

lemma quo_ge:
  assumes "0 < b" and "t \<le> quo a b" shows "(2 * t - 1) * b \<le> 2 * a * dec_one"
proof -
  have "t * b \<le> quo a b * b" using assms by (intro mult_right_mono) auto
  with quo_bounds(1)[OF assms(1), of a] show ?thesis
    by (simp only: left_diff_distrib mult.assoc mult_1)
qed

end

text \<open>The documented behaviour of the SDK: round half to even.\<close>

definition round_half_even :: "int \<Rightarrow> int \<Rightarrow> int" where
  "round_half_even n d =
     (let q = n div d; r = n mod d
      in if 2 * r < d then q else if d < 2 * r then q + 1 else if even q then q else q + 1)"

definition half_even_mul :: "dec \<Rightarrow> dec \<Rightarrow> dec" where
  "half_even_mul a b = round_half_even (a * b) dec_one"

definition half_even_quo :: "dec \<Rightarrow> dec \<Rightarrow> dec" where
  "half_even_quo a b = (if b = 0 then 0 else round_half_even (a * dec_one * sgn b) \<bar>b\<bar>)"

lemma round_half_even_near:
  assumes "0 < d" shows "2 * \<bar>round_half_even n d * d - n\<bar> \<le> d"
proof -
  define q r where "q = n div d" and "r = n mod d"
  have n: "n = q * d + r" by (simp add: q_def r_def)
  have r: "0 \<le> r" "r < d" using assms by (simp_all add: r_def)
  have "round_half_even n d \<in> {q, q + 1} \<and> (2 * r < d \<longrightarrow> round_half_even n d = q) \<and>
    (d < 2 * r \<longrightarrow> round_half_even n d = q + 1)"
    by (simp add: round_half_even_def Let_def q_def r_def)
  then show ?thesis using r by (auto simp: n distrib_right)
qed

interpretation half_even: dec_round half_even_mul half_even_quo
proof unfold_locales
  fix a b :: dec
  show "2 * \<bar>half_even_mul a b * dec_one - a * b\<bar> \<le> dec_one"
    by (simp add: half_even_mul_def round_half_even_near)
  assume b: "b \<noteq> 0"
  have "2 * \<bar>half_even_quo a b * \<bar>b\<bar> - a * dec_one * sgn b\<bar> \<le> \<bar>b\<bar>"
    using b round_half_even_near[of "\<bar>b\<bar>"] by (simp add: half_even_quo_def)
  then show "2 * \<bar>half_even_quo a b * b - a * dec_one\<bar> \<le> \<bar>b\<bar>"
    using b by (cases "0 < b") (auto simp: abs_minus_commute)
qed

section \<open>Validators and the block context\<close>

record validator =
  v_operator :: string
  v_bonded :: bool
  v_tokens :: int
  v_moniker :: string
  v_details :: string
  v_cons_addr :: "bytes option"
  v_power :: int

record env =
  StringToBytes :: "string \<Rightarrow> bytes option"
  BytesToString :: "bytes \<Rightarrow> string option"
  AccAddressFromBech32 :: "string \<Rightarrow> bytes option"
  ValAddressFromBech32 :: "string \<Rightarrow> bytes option"
  ValAddressString :: "bytes \<Rightarrow> string"
  ValidatorStringToBytes :: "string \<Rightarrow> bytes option"
  HexToAddress :: "string \<Rightarrow> bytes"
  NewModuleAddress :: "string \<Rightarrow> bytes"
  sha256 :: "bytes \<Rightarrow> bytes"
  base58_Decode :: "string \<Rightarrow> bytes"
  DecFromStr :: "string \<Rightarrow> dec option"
  DecString :: "dec \<Rightarrow> string"
  DecMul :: "dec \<Rightarrow> dec \<Rightarrow> dec"
  DecQuo :: "dec \<Rightarrow> dec \<Rightarrow> dec"
  GetValidator :: "bytes \<Rightarrow> validator option"
  TotalValidatorPower :: "int option"
  GetBondedValidatorsByPower :: "validator list option"
  BlockHeight :: u64
  BlockTime :: int
  TxBytes :: bytes

text \<open>
  The staking keeper's documented guarantees: bonded tokens are not negative, and the bonded pool,
  which \<open>TotalValidatorPower\<close> reports, holds the tokens of every bonded validator.
\<close>

definition is_bonded :: "env \<Rightarrow> bytes \<Rightarrow> bool" where
  "is_bonded E a \<longleftrightarrow> (case GetValidator E a of None \<Rightarrow> False | Some v \<Rightarrow> v_bonded v)"

definition live_tokens :: "env \<Rightarrow> bytes \<Rightarrow> int" where
  "live_tokens E a = (case GetValidator E a of None \<Rightarrow> 0 | Some v \<Rightarrow> if v_bonded v then v_tokens v else 0)"

definition staking_ok :: "env \<Rightarrow> bool" where
  "staking_ok E \<longleftrightarrow>
     (\<forall>a. 0 \<le> live_tokens E a) \<and>
     (\<exists>T. TotalValidatorPower E = Some T \<and>
        (\<forall>as. distinct as \<longrightarrow> sum_list (map (live_tokens E) as) \<le> T))"

text \<open>Operator addresses survive rendering and parsing.\<close>

definition codec_ok :: "env \<Rightarrow> bool" where
  "codec_ok E \<longleftrightarrow> (\<forall>a. ValAddressFromBech32 E (ValAddressString E a) = Some a)"

lemma codec_ok_inject: "codec_ok E \<Longrightarrow> ValAddressString E a = ValAddressString E b \<longleftrightarrow> a = b"
  by (metis codec_ok_def option.inject)

text \<open>
  An environment whose decimal operations round as documented; the lemmas about scores and power
  ratios are proved in this locale.
\<close>

locale dec_env =
  fixes E :: env
  assumes rounding: "dec_round (DecMul E) (DecQuo E)"

sublocale dec_env \<subseteq> d: dec_round "DecMul E" "DecQuo E"
  by (rule rounding)

text \<open>
  A concrete environment for evaluations: addresses are their own rendering, rounding is half to
  even, and the validator set is given by its operators and their tokens.
\<close>

definition pad18 :: "nat \<Rightarrow> string" where
  "pad18 n = replicate (18 - length (FormatUint n)) (CHR ''0'') @ FormatUint n"

definition plain_DecString :: "dec \<Rightarrow> string" where
  "plain_DecString d =
     (if d < 0 then CHR ''-'' # FormatUint (nat (- d) div 10 ^ 18) @ CHR ''.'' # pad18 (nat (- d) mod 10 ^ 18)
      else FormatUint (nat d div 10 ^ 18) @ CHR ''.'' # pad18 (nat d mod 10 ^ 18))"

definition plain_DecFromStr :: "string \<Rightarrow> dec option" where
  "plain_DecFromStr s =
     (case Cut (CHR ''.'') s of
        None \<Rightarrow> None
      | Some (a, b) \<Rightarrow>
          if a \<noteq> '''' \<and> length b = 18 \<and> list_all is_digit (a @ b)
          then Some (int (digits_val 0 a * 10 ^ 18 + digits_val 0 b)) else None)"

definition plain_validator :: "bytes \<Rightarrow> int \<Rightarrow> validator" where
  "plain_validator a t =
     \<lparr>v_operator = a, v_bonded = True, v_tokens = t, v_moniker = a, v_details = '''',
      v_cons_addr = Some a, v_power = t div 1000000\<rparr>"

definition plain_env :: "(bytes \<times> int) list \<Rightarrow> u64 \<Rightarrow> env" where
  "plain_env vals height =
     \<lparr>StringToBytes = Some, BytesToString = Some, AccAddressFromBech32 = Some,
      ValAddressFromBech32 = Some, ValAddressString = (\<lambda>a. a), ValidatorStringToBytes = Some,
      HexToAddress = (\<lambda>a. a), NewModuleAddress = (\<lambda>m. CHR ''@'' # m), sha256 = (\<lambda>x. x),
      base58_Decode = (\<lambda>x. x), DecFromStr = plain_DecFromStr, DecString = plain_DecString, DecMul = half_even_mul,
      DecQuo = half_even_quo,
      GetValidator = (\<lambda>a. map_option (plain_validator a) (map_of vals a)),
      TotalValidatorPower = Some (sum_list (map snd vals)),
      GetBondedValidatorsByPower = Some (map (\<lambda>(a, t). plain_validator a t) vals),
      BlockHeight = height, BlockTime = 0, TxBytes = ''''\<rparr>"

lemma pad18_length: "n < 10 ^ 18 \<Longrightarrow> length (pad18 n) = 18"
  using length_FormatUint_le[of n 18] by (simp add: pad18_def)

lemma plain_DecString_chars: "0 \<le> d \<Longrightarrow> c \<in> set (plain_DecString d) \<Longrightarrow> is_digit c \<or> c = CHR ''.''"
  by (auto simp: plain_DecString_def pad18_def is_digit_def dest!: FormatUint_digits)

lemma plain_Dec_roundtrip: "0 \<le> d \<Longrightarrow> plain_DecFromStr (plain_DecString d) = Some d"
proof -
  assume d: "0 \<le> d"
  have nodot: "CHR ''.'' \<notin> set (FormatUint n)" for n
    by (auto simp: is_digit_def dest!: FormatUint_digits)
  have ne: "FormatUint n \<noteq> ''''" for n by (subst FormatUint.simps) simp
  have dig: "list_all is_digit (FormatUint n)" "list_all is_digit (pad18 n)" for n
    by (auto simp: list_all_iff pad18_def is_digit_def dest!: FormatUint_digits)
  have val: "digits_val 0 (pad18 n) = n" for n
    by (simp add: pad18_def digits_val_zeros digits_val_FormatUint)
  have "int (nat d div 10 ^ 18 * 10 ^ 18 + nat d mod 10 ^ 18) = d"
    using d by (metis div_mult_mod_eq nat_0_le)
  then show ?thesis
    using d by (simp add: plain_DecString_def plain_DecFromStr_def Cut_append[OF nodot] ne dig val
        pad18_length digits_val_FormatUint)
qed

interpretation plain: dec_env "plain_env vals height"
  by unfold_locales (simp_all add: plain_env_def half_even.mul_round half_even.quo_round)

section \<open>The bank keeper\<close>

type_synonym coins = "(string \<times> int) list"

text \<open>\<open>sdk.NewCoins\<close> of one coin drops a zero amount.\<close>

definition NewCoins1 :: "string \<Rightarrow> int \<Rightarrow> coins" where
  "NewCoins1 denom amt = (if amt = 0 then [] else [(denom, amt)])"

definition AmountOf :: "coins \<Rightarrow> string \<Rightarrow> int" where
  "AmountOf cs d = sum_list (map snd (filter (\<lambda>c. fst c = d) cs))"

lemma AmountOf_NewCoins1 [simp]: "AmountOf (NewCoins1 d x) d' = (if d' = d then x else 0)"
  by (simp add: AmountOf_def NewCoins1_def)

lemma AmountOf_Nil [simp]: "AmountOf [] d = 0"
  by (simp add: AmountOf_def)

record 'b bank_ops =
  MintCoins :: "string \<Rightarrow> coins \<Rightarrow> 'b \<Rightarrow> 'b res"
  BurnCoins :: "string \<Rightarrow> coins \<Rightarrow> 'b \<Rightarrow> 'b res"
  SendCoinsFromAccountToModule :: "bytes \<Rightarrow> string \<Rightarrow> coins \<Rightarrow> 'b \<Rightarrow> 'b res"
  SendCoinsFromModuleToAccount :: "string \<Rightarrow> bytes \<Rightarrow> coins \<Rightarrow> 'b \<Rightarrow> 'b res"
  SendCoinsFromModuleToModule :: "string \<Rightarrow> string \<Rightarrow> coins \<Rightarrow> 'b \<Rightarrow> 'b res"
  GetAllBalances :: "bytes \<Rightarrow> 'b \<Rightarrow> coins"
  FundCommunityPool :: "coins \<Rightarrow> bytes \<Rightarrow> 'b \<Rightarrow> 'b res"

definition moved :: "(bytes \<Rightarrow> string \<Rightarrow> int) \<Rightarrow> (bytes \<Rightarrow> string \<Rightarrow> int) \<Rightarrow> bytes \<Rightarrow> bytes \<Rightarrow> coins \<Rightarrow> bool" where
  "moved f g x y cs \<longleftrightarrow>
     (\<forall>a d. g a d = f a d - (if a = x then AmountOf cs d else 0) + (if a = y then AmountOf cs d else 0))"

text \<open>
  The documented effect of each bank operation when it succeeds, in terms of a balance function
  and the total supply; \<open>pool\<close> is the community pool's account. An operation may fail for
  reasons of its own (insufficient funds, a blocked recipient).
\<close>

locale bank_keeper =
  fixes bk :: "'b bank_ops"
    and maddr :: "string \<Rightarrow> bytes"
    and pool :: bytes
    and bal :: "'b \<Rightarrow> bytes \<Rightarrow> string \<Rightarrow> int"
    and supply_of :: "'b \<Rightarrow> string \<Rightarrow> int"
  assumes mint: "MintCoins bk m cs b = Inr b' \<Longrightarrow>
      (\<forall>a d. bal b' a d = bal b a d + (if a = maddr m then AmountOf cs d else 0)) \<and>
      (\<forall>d. supply_of b' d = supply_of b d + AmountOf cs d)"
    and burn: "BurnCoins bk m cs b = Inr b' \<Longrightarrow>
      (\<forall>a d. bal b' a d = bal b a d - (if a = maddr m then AmountOf cs d else 0)) \<and>
      (\<forall>d. supply_of b' d = supply_of b d - AmountOf cs d)"
    and acc_mod: "SendCoinsFromAccountToModule bk a m cs b = Inr b' \<Longrightarrow>
      moved (bal b) (bal b') a (maddr m) cs \<and> supply_of b' = supply_of b"
    and mod_acc: "SendCoinsFromModuleToAccount bk m a cs b = Inr b' \<Longrightarrow>
      moved (bal b) (bal b') (maddr m) a cs \<and> supply_of b' = supply_of b"
    and mod_mod: "SendCoinsFromModuleToModule bk m n cs b = Inr b' \<Longrightarrow>
      moved (bal b) (bal b') (maddr m) (maddr n) cs \<and> supply_of b' = supply_of b"
    and fund: "FundCommunityPool bk cs a b = Inr b' \<Longrightarrow>
      moved (bal b) (bal b') a pool cs \<and> supply_of b' = supply_of b"
    and balances: "AmountOf (GetAllBalances bk a b) d = bal b a d"
    and balances_distinct: "distinct (map fst (GetAllBalances bk a b))"
begin

lemma balances_zero: "(\<forall>d. AmountOf (GetAllBalances bk a b) d = 0) \<Longrightarrow> bal b a d = 0"
  by (metis balances)

end

end
