(* ===== verification/Oracle_Engine.thy ===== *)
theory Oracle_Engine
  imports Svm_Env
begin

text \<open>
  The parent module \<open>x/oracle\<close>: one participation counter per validator and slash window, fed by
  the price module and the bridge, and the evaluation that slashes and jails at the window's end
  (\<open>types/eval.go\<close>, \<open>types/params.go\<close>, \<open>types/genesis.go\<close>, \<open>keeper/tally.go\<close>,
  \<open>keeper/abci.go\<close>, \<open>keeper/msg_server.go\<close>, \<open>keeper/genesis.go\<close>). The lemmas bound the score,
  show that no duty can be masked by the other, that a validator which fulfils every duty is never
  slashed, and that the counters record exactly the reports of the current window.
\<close>

section \<open>The evaluation core\<close>

record duty_tally =
  Opportunities :: u64
  Hits :: u64

definition Active :: "duty_tally \<Rightarrow> bool" where
  "Active d \<longleftrightarrow> Opportunities d > 0"

definition Rate :: "env \<Rightarrow> duty_tally \<Rightarrow> dec" where
  "Rate E d = (if Opportunities d = 0 then 0
     else DecQuo E (dec_of_u64 (Hits d)) (dec_of_u64 (Opportunities d)))"

record window_result =
  Judged :: bool
  Score :: dec
  ShouldSlash :: bool
  Reason :: string

abbreviation (input) ReasonNone :: string where "ReasonNone \<equiv> ''''"
abbreviation (input) ReasonBelowMinValid :: string where "ReasonBelowMinValid \<equiv> ''below_min_valid''"
abbreviation (input) ReasonPriceDutyFloor :: string where "ReasonPriceDutyFloor \<equiv> ''price_duty_floor''"
abbreviation (input) ReasonBridgeDutyFloor :: string where "ReasonBridgeDutyFloor \<equiv> ''bridge_duty_floor''"

definition window_score :: "env \<Rightarrow> duty_tally \<Rightarrow> duty_tally \<Rightarrow> dec \<Rightarrow> dec \<Rightarrow> dec" where
  "window_score E price bridge wPrice wBridge =
     (let weightSum = (if Active price then wPrice else 0) + (if Active bridge then wBridge else 0);
          weighted = (if Active price then DecMul E wPrice (Rate E price) else 0)
                   + (if Active bridge then DecMul E wBridge (Rate E bridge) else 0)
      in if weightSum = 0
         then let n = (if Active price then 1 else 0) + (if Active bridge then 1 else (0::int));
                  sum = (if Active price then Rate E price else 0)
                      + (if Active bridge then Rate E bridge else 0)
              in DecQuo E sum (LegacyNewDecFromInt n)
         else DecQuo E weighted weightSum)"

definition EvaluateValidatorWindow ::
    "env \<Rightarrow> duty_tally \<Rightarrow> duty_tally \<Rightarrow> dec \<Rightarrow> dec \<Rightarrow> dec \<Rightarrow> dec \<Rightarrow> window_result" where
  "EvaluateValidatorWindow E price bridge wPrice wBridge minValidPerWindow dutyFloor =
     (if \<not> Active price \<and> \<not> Active bridge
      then \<lparr>Judged = False, Score = dec_one, ShouldSlash = False, Reason = ReasonNone\<rparr>
      else let score = window_score E price bridge wPrice wBridge;
               result = \<lparr>Judged = True, Score = score, ShouldSlash = False, Reason = ReasonNone\<rparr>
           in if Active price \<and> Rate E price \<le> dutyFloor
              then result\<lparr>ShouldSlash := True, Reason := ReasonPriceDutyFloor\<rparr>
              else if Active bridge \<and> Rate E bridge \<le> dutyFloor
              then result\<lparr>ShouldSlash := True, Reason := ReasonBridgeDutyFloor\<rparr>
              else if score < minValidPerWindow
              then result\<lparr>ShouldSlash := True, Reason := ReasonBelowMinValid\<rparr>
              else result)"

section \<open>Parameters and genesis\<close>

record oracle_params =
  SlashWindow :: u64
  SlashFraction :: "dec option"
  MinValidPerWindow :: "dec option"
  WPrice :: "dec option"
  WBridge :: "dec option"
  DutyFloor :: "dec option"
  RewardDistributionWindow :: u64
  BridgeGraceBlocks :: u64

definition oracle_DefaultParams :: oracle_params where
  "oracle_DefaultParams =
     \<lparr>SlashWindow = 14400, SlashFraction = Some 10000000000000000,
      MinValidPerWindow = Some 500000000000000000, WPrice = Some 500000000000000000,
      WBridge = Some 500000000000000000, DutyFloor = Some 0,
      RewardDistributionWindow = 432000, BridgeGraceBlocks = 100\<rparr>"

definition validateNonNegative :: "dec option \<Rightarrow> unit res" where
  "validateNonNegative v =
     (case v of None \<Rightarrow> Inl ErrInvalidRequest | Some x \<Rightarrow> guard_err (0 \<le> x) ErrInvalidRequest)"

definition oracle_validateFraction :: "dec option \<Rightarrow> bool \<Rightarrow> unit res" where
  "oracle_validateFraction v mustBePositive =
     rbind (validateNonNegative v) (\<lambda>_.
     rbind (dec_val v) (\<lambda>x.
     rbind (guard_err (\<not> (mustBePositive \<and> x = 0)) ErrInvalidRequest) (\<lambda>_.
     guard_err (x \<le> dec_one) ErrInvalidRequest)))"

definition oracle_Validate :: "oracle_params \<Rightarrow> unit res" where
  "oracle_Validate p =
     rbind (guard_err (SlashWindow p \<noteq> 0) ErrInvalidRequest) (\<lambda>_.
     rbind (oracle_validateFraction (SlashFraction p) False) (\<lambda>_.
     rbind (oracle_validateFraction (MinValidPerWindow p) False) (\<lambda>_.
     rbind (oracle_validateFraction (DutyFloor p) False) (\<lambda>_.
     rbind (validateNonNegative (WPrice p)) (\<lambda>_.
     rbind (validateNonNegative (WBridge p)) (\<lambda>_.
     rbind (case (WPrice p, WBridge p) of
              (Some a, Some b) \<Rightarrow> guard_err (a + b \<noteq> 0) ErrInvalidRequest
            | _ \<Rightarrow> Inr ()) (\<lambda>_.
     guard_err (RewardDistributionWindow p \<noteq> 0) ErrInvalidRequest)))))))"

record validator_tally =
  PriceOpportunities :: u64
  PriceHits :: u64
  BridgeOpportunities :: u64
  BridgeHits :: u64

definition zero_tally :: validator_tally where
  "zero_tally = \<lparr>PriceOpportunities = 0, PriceHits = 0, BridgeOpportunities = 0, BridgeHits = 0\<rparr>"

text \<open>The calls \<open>slashAndJail\<close> makes on the staking keeper, in order.\<close>

datatype staking_call =
    SlashCall bytes u64 int dec
  | JailCall bytes

datatype oracle_event =
    OracleParametersUpdated
  | OracleSlash string string dec

record oracle_state =
  o_Params :: "oracle_params option"
  Tally :: "(bytes, validator_tally) kv"
  o_calls :: "staking_call list"
  o_events :: "oracle_event list"

definition oracle_InitGenesis :: "oracle_params \<Rightarrow> oracle_state \<Rightarrow> oracle_state res" where
  "oracle_InitGenesis gen s = Inr (s\<lparr>o_Params := Some gen\<rparr>)"

definition oracle_ExportGenesis :: "oracle_state \<Rightarrow> oracle_params res" where
  "oracle_ExportGenesis s = from_option ErrNotFound (o_Params s)"

definition oracle_UpdateParams ::
    "env \<Rightarrow> bytes \<Rightarrow> string \<Rightarrow> oracle_params \<Rightarrow> oracle_state \<Rightarrow> oracle_state res" where
  "oracle_UpdateParams E k_authority req_Authority req_Params s =
     rbind (from_option ErrInvalidAddress (StringToBytes E req_Authority)) (\<lambda>authority.
     rbind (guard_err (k_authority = authority) ErrInvalidSigner) (\<lambda>_.
     rbind (oracle_Validate req_Params) (\<lambda>_.
     Inr (s\<lparr>o_Params := Some req_Params, o_events := o_events s @ [OracleParametersUpdated]\<rparr>))))"

section \<open>Accrual\<close>

datatype duty = dutyPrice | dutyBridge

definition getTally :: "oracle_state \<Rightarrow> bytes \<Rightarrow> validator_tally" where
  "getTally s valoper = (case kv_get (Tally s) valoper of None \<Rightarrow> zero_tally | Some t \<Rightarrow> t)"

definition accrue :: "duty \<Rightarrow> bool \<Rightarrow> validator_tally \<Rightarrow> validator_tally" where
  "accrue d did t =
     (case d of
        dutyPrice \<Rightarrow> t\<lparr>PriceOpportunities := PriceOpportunities t + 1,
                      PriceHits := (if did then PriceHits t + 1 else PriceHits t)\<rparr>
      | dutyBridge \<Rightarrow> t\<lparr>BridgeOpportunities := BridgeOpportunities t + 1,
                       BridgeHits := (if did then BridgeHits t + 1 else BridgeHits t)\<rparr>)"

definition toSet :: "bytes list \<Rightarrow> bytes set" where
  "toSet addrs = set addrs"

definition recordDuty :: "env \<Rightarrow> bytes list \<Rightarrow> duty \<Rightarrow> oracle_state \<Rightarrow> oracle_state res" where
  "recordDuty E participants d s =
     rbind (from_option ErrKeeper (GetBondedValidatorsByPower E)) (\<lambda>bonded.
     if bonded = [] then Inr s
     else let did = toSet participants in
       rfold (\<lambda>v s.
         rbind (from_option ErrInvalidAddress (ValidatorStringToBytes E (v_operator v))) (\<lambda>valoper.
         Inr (s\<lparr>Tally := kv_set valoper (accrue d (valoper \<in> did) (getTally s valoper)) (Tally s)\<rparr>)))
         bonded s)"

definition RecordPriceParticipation :: "env \<Rightarrow> bytes list \<Rightarrow> oracle_state \<Rightarrow> oracle_state res" where
  "RecordPriceParticipation E voters s = recordDuty E voters dutyPrice s"

definition RecordBridgeEvent :: "env \<Rightarrow> bytes list \<Rightarrow> oracle_state \<Rightarrow> oracle_state res" where
  "RecordBridgeEvent E attesters s = recordDuty E attesters dutyBridge s"

section \<open>The window boundary\<close>

definition price_duty :: "validator_tally \<Rightarrow> duty_tally" where
  "price_duty t = \<lparr>Opportunities = PriceOpportunities t, Hits = PriceHits t\<rparr>"

definition bridge_duty :: "validator_tally \<Rightarrow> duty_tally" where
  "bridge_duty t = \<lparr>Opportunities = BridgeOpportunities t, Hits = BridgeHits t\<rparr>"

text \<open>
  The verdict of one visited tally. The weights and thresholds are stored as they were set, and a
  nil one panics on exactly the branches of \<open>EvaluateValidatorWindow\<close> that read it.
\<close>

definition dec_arg :: "bool \<Rightarrow> dec option \<Rightarrow> dec res" where
  "dec_arg is_read v = (if is_read then dec_val v else Inr 0)"

definition below_floor :: "env \<Rightarrow> duty_tally \<Rightarrow> dec \<Rightarrow> bool" where
  "below_floor E d floor \<longleftrightarrow> Active d \<and> Rate E d \<le> floor"

definition window_verdict :: "env \<Rightarrow> oracle_params \<Rightarrow> validator_tally \<Rightarrow> window_result res" where
  "window_verdict E p t =
     (let price = price_duty t; bridge = bridge_duty t in
      rbind (dec_arg (Active price) (WPrice p)) (\<lambda>wPrice.
      rbind (dec_arg (Active bridge) (WBridge p)) (\<lambda>wBridge.
      rbind (dec_arg (Active price \<or> Active bridge) (DutyFloor p)) (\<lambda>floor.
      rbind (dec_arg ((Active price \<or> Active bridge) \<and> \<not> below_floor E price floor \<and>
                      \<not> below_floor E bridge floor) (MinValidPerWindow p)) (\<lambda>minValid.
      Inr (EvaluateValidatorWindow E price bridge wPrice wBridge minValid floor))))))"

fun gatherSlashes ::
    "env \<Rightarrow> oracle_params \<Rightarrow> (bytes, validator_tally) kv \<Rightarrow> (bytes \<times> window_result) list res" where
  "gatherSlashes E p [] = Inr []"
| "gatherSlashes E p ((valoper, tally) # rest) =
     rbind (window_verdict E p tally) (\<lambda>result.
     rbind (gatherSlashes E p rest) (\<lambda>toSlash.
     Inr (if Judged result \<and> ShouldSlash result then (valoper, result) # toSlash else toSlash)))"

text \<open>
  \<open>slashAndJail\<close> swallows every failure of the staking keeper. \<open>slash_fails\<close> says for which
  consensus addresses its \<open>Slash\<close> returns an error, which ends the handling of that validator; an
  error of \<open>Jail\<close> is logged and the event is emitted all the same.
\<close>

definition slashAndJail ::
    "env \<Rightarrow> (bytes \<Rightarrow> bool) \<Rightarrow> oracle_params \<Rightarrow> bytes \<times> window_result \<Rightarrow>
     oracle_state \<Rightarrow> oracle_state res" where
  "slashAndJail E slash_fails p ps s =
     (case GetValidator E (fst ps) of
        None \<Rightarrow> Inr s
      | Some validator \<Rightarrow>
          (case v_cons_addr validator of
             None \<Rightarrow> Inr s
           | Some consAddr \<Rightarrow>
               rbind (dec_val (SlashFraction p)) (\<lambda>fraction.
               let slash = SlashCall consAddr (BlockHeight E) (v_power validator) fraction in
               if slash_fails consAddr then Inr (s\<lparr>o_calls := o_calls s @ [slash]\<rparr>)
               else let valoperStr = (case BytesToString E (fst ps) of None \<Rightarrow> '''' | Some x \<Rightarrow> x) in
                 Inr (s\<lparr>o_calls := o_calls s @ [slash, JailCall consAddr],
                        o_events := o_events s @
                          [OracleSlash valoperStr (Reason (snd ps)) (Score (snd ps))]\<rparr>))))"

definition evaluateWindow ::
    "env \<Rightarrow> (bytes \<Rightarrow> bool) \<Rightarrow> oracle_params \<Rightarrow> oracle_state \<Rightarrow> oracle_state res" where
  "evaluateWindow E slash_fails p s =
     rbind (gatherSlashes E p (Tally s)) (\<lambda>toSlash.
     rbind (rfold (slashAndJail E slash_fails p) toSlash s) (\<lambda>s.
     Inr (s\<lparr>Tally := []\<rparr>)))"

definition oracle_EndBlock ::
    "env \<Rightarrow> (bytes \<Rightarrow> bool) \<Rightarrow> oracle_state \<Rightarrow> oracle_state res" where
  "oracle_EndBlock E slash_fails s =
     rbind (from_option ErrNotFound (o_Params s)) (\<lambda>p.
     if sint (BlockHeight E) \<le> 0 \<or> SlashWindow p = 0 \<or> BlockHeight E mod SlashWindow p \<noteq> 0
     then Inr s
     else evaluateWindow E slash_fails p s)"


section \<open>Rates and scores\<close>

lemma dec_of_u64_small: "unat w < 2 ^ 63 \<Longrightarrow> dec_of_u64 w = int (unat w) * dec_one"
proof -
  assume "unat w < 2 ^ 63"
  then have "int (unat w) < int (2 ^ 63)" by (simp only: of_nat_less_iff)
  then have "uint w < 2 ^ 63" by simp
  then have "sint w = uint w"
    by (simp add: sint_uint signed_take_bit_int_eq_self order.trans[OF _ uint_ge_0])
  then show ?thesis by (simp add: dec_of_u64_def LegacyNewDecFromInt_def)
qed

definition tally_ok :: "duty_tally \<Rightarrow> bool" where
  "tally_ok d \<longleftrightarrow> Hits d \<le> Opportunities d \<and> unat (Opportunities d) < 2 ^ 63"

lemma tally_ok_dec:
  assumes "tally_ok d"
  shows "0 \<le> dec_of_u64 (Hits d)" "dec_of_u64 (Hits d) \<le> dec_of_u64 (Opportunities d)"
    "Active d \<Longrightarrow> 0 < dec_of_u64 (Opportunities d)"
proof -
  have h: "unat (Hits d) \<le> unat (Opportunities d)" and o: "unat (Opportunities d) < 2 ^ 63"
    using assms by (auto simp: tally_ok_def word_le_nat_alt)
  then have "unat (Hits d) < 2 ^ 63" by linarith
  with o have eq: "dec_of_u64 (Hits d) = int (unat (Hits d)) * dec_one"
    "dec_of_u64 (Opportunities d) = int (unat (Opportunities d)) * dec_one"
    by (simp_all add: dec_of_u64_small)
  show "0 \<le> dec_of_u64 (Hits d)" by (simp add: eq)
  show "dec_of_u64 (Hits d) \<le> dec_of_u64 (Opportunities d)"
    using assms by (simp add: eq mult_right_mono tally_ok_def word_le_def)
  show "0 < dec_of_u64 (Opportunities d)" if "Active d"
    using that by (simp add: eq Active_def word_less_def)
qed

context dec_env
begin

lemma Rate_range: "tally_ok d \<Longrightarrow> 0 \<le> Rate E d \<and> Rate E d \<le> dec_one"
  using tally_ok_dec[of d]
  by (auto simp: Rate_def Active_def word_gt_0 intro: d.quo_nonneg d.quo_le_one)

lemma Rate_full: "tally_ok d \<Longrightarrow> Active d \<Longrightarrow> Hits d = Opportunities d \<Longrightarrow> Rate E d = dec_one"
  using tally_ok_dec(3)[of d] by (auto simp: Rate_def Active_def d.quo_self)

lemma Rate_none: "tally_ok d \<Longrightarrow> Active d \<Longrightarrow> Hits d = 0 \<Longrightarrow> Rate E d = 0"
  using tally_ok_dec(3)[of d]
  by (auto simp: Rate_def Active_def dec_of_u64_def LegacyNewDecFromInt_def)

lemma weighted_range:
  assumes "tally_ok d" "0 \<le> w" shows "0 \<le> DecMul E w (Rate E d)" "DecMul E w (Rate E d) \<le> w"
  using assms Rate_range[of d] by (simp_all add: d.mul_nonneg d.mul_le_left)

lemma window_score_range:
  assumes "tally_ok p" "tally_ok b" "0 \<le> wp" "0 \<le> wb" "Active p \<or> Active b"
  shows "0 \<le> window_score E p b wp wb \<and> window_score E p b wp wb \<le> dec_one"
proof -
  let ?ws = "(if Active p then wp else 0) + (if Active b then wb else 0)"
  let ?wd = "(if Active p then DecMul E wp (Rate E p) else 0)
    + (if Active b then DecMul E wb (Rate E b) else 0)"
  let ?n = "(if Active p then 1 else 0) + (if Active b then 1 else (0::int))"
  let ?sum = "(if Active p then Rate E p else 0) + (if Active b then Rate E b else 0)"
  have wd: "0 \<le> ?wd" "?wd \<le> ?ws"
    using weighted_range[OF assms(1,3)] weighted_range[OF assms(2,4)] by auto
  have sum: "0 \<le> ?sum" "?sum \<le> LegacyNewDecFromInt ?n" "0 < LegacyNewDecFromInt ?n"
    using Rate_range[OF assms(1)] Rate_range[OF assms(2)] assms(5)
    by (auto simp: LegacyNewDecFromInt_def)
  show ?thesis
  proof (cases "?ws = 0")
    case True
    then show ?thesis
      using d.quo_nonneg[OF sum(1,3)] d.quo_le_one[OF sum]
      by (simp add: window_score_def Let_def)
  next
    case False
    with wd have "0 < ?ws" by linarith
    with False show ?thesis
      using d.quo_nonneg[OF wd(1)] d.quo_le_one[OF wd]
      by (simp add: window_score_def Let_def)
  qed
qed

lemma window_score_full:
  assumes "Active p \<or> Active b"
    and "Active p \<Longrightarrow> Rate E p = dec_one" "Active b \<Longrightarrow> Rate E b = dec_one" "0 \<le> wp" "0 \<le> wb"
  shows "window_score E p b wp wb = dec_one"
proof -
  let ?ws = "(if Active p then wp else 0) + (if Active b then wb else 0)"
  have "0 \<le> ?ws" using assms by auto
  then have "?ws = 0 \<or> 0 < ?ws" by linarith
  then show ?thesis
    using assms by (auto simp: window_score_def Let_def LegacyNewDecFromInt_def d.quo_self
        d.quo_exact[of "2 * dec_one" "dec_one + dec_one"] d.quo_exact)
qed

end


section \<open>The verdict\<close>

lemma Evaluate_ShouldSlash_iff:
  "ShouldSlash (EvaluateValidatorWindow E price bridge wp wb minValid floor) \<longleftrightarrow>
     (Active price \<or> Active bridge) \<and>
     (below_floor E price floor \<or> below_floor E bridge floor \<or>
      window_score E price bridge wp wb < minValid)"
  by (auto simp: EvaluateValidatorWindow_def below_floor_def Let_def)

lemma Evaluate_Judged: "Judged (EvaluateValidatorWindow E price bridge wp wb mv fl) \<longleftrightarrow>
    Active price \<or> Active bridge"
  by (simp add: EvaluateValidatorWindow_def Let_def)

lemma Evaluate_Score: "Score (EvaluateValidatorWindow E price bridge wp wb mv fl) =
    (if Active price \<or> Active bridge then window_score E price bridge wp wb else dec_one)"
  by (simp add: EvaluateValidatorWindow_def Let_def)

lemmas Evaluate_simps = Evaluate_ShouldSlash_iff Evaluate_Judged Evaluate_Score

context dec_env
begin

lemma full_duty_above_floor:
  "tally_ok d \<Longrightarrow> Hits d = Opportunities d \<Longrightarrow> fl < dec_one \<Longrightarrow> \<not> below_floor E d fl"
  using Rate_full[of d] by (auto simp: below_floor_def)

lemma no_duty_below_floor:
  "tally_ok d \<Longrightarrow> Active d \<Longrightarrow> Hits d = 0 \<Longrightarrow> 0 \<le> fl \<Longrightarrow> below_floor E d fl"
  using Rate_none[of d] by (auto simp: below_floor_def)

end

text \<open>
  The combined score of a validator's window is a fraction: it lies between 0 and 1 whatever
  the two non-negative weights are, the zero-weight fallback and the not-judged case included.
\<close>

theorem window_score_in_unit_interval:
  assumes "dec_round (DecMul E) (DecQuo E)" "tally_ok price" "tally_ok bridge" "0 \<le> wPrice" "0 \<le> wBridge"
  shows "0 \<le> Score (EvaluateValidatorWindow E price bridge wPrice wBridge minValid floor) \<and>
         Score (EvaluateValidatorWindow E price bridge wPrice wBridge minValid floor) \<le> dec_one"
  using dec_env.window_score_range[OF dec_env.intro[OF assms(1)] assms(2-5)]
  by (simp add: Evaluate_simps)

lemma window_score_in_unit_interval_witness:
  "0 \<le> Score (EvaluateValidatorWindow (plain_env [] 1) \<lparr>Opportunities = 3, Hits = 2\<rparr>
        \<lparr>Opportunities = 1, Hits = 0\<rparr> 1 2 3 0)"
  using window_score_in_unit_interval[OF plain.rounding, of "\<lparr>Opportunities = 3, Hits = 2\<rparr>"
      "\<lparr>Opportunities = 1, Hits = 0\<rparr>" 1 2 "[]" 1 3 0]
  by (simp add: tally_ok_def)

text \<open>
  No duty masks the other: a validator that had at least one opportunity in a duty and
  fulfilled none of them is slashed, however well it did in the other duty and whatever the weights
  and the minimum score are, as long as the duty floor is not negative.
\<close>

theorem missed_duty_is_slashed:
  assumes "dec_round (DecMul E) (DecQuo E)" "0 \<le> floor"
    and "tally_ok price \<and> Active price \<and> Hits price = 0 \<or> tally_ok bridge \<and> Active bridge \<and> Hits bridge = 0"
  shows "Judged (EvaluateValidatorWindow E price bridge wPrice wBridge minValid floor) \<and>
         ShouldSlash (EvaluateValidatorWindow E price bridge wPrice wBridge minValid floor)"
  using assms dec_env.no_duty_below_floor[OF dec_env.intro[OF assms(1)] _ _ _ assms(2)]
  by (auto simp: Evaluate_simps)

lemma missed_duty_is_slashed_witness:
  "ShouldSlash (EvaluateValidatorWindow (plain_env [] 1) \<lparr>Opportunities = 100, Hits = 100\<rparr>
        \<lparr>Opportunities = 1, Hits = 0\<rparr> dec_one 0 0 0)"
  using missed_duty_is_slashed[OF plain.rounding, of 0 "\<lparr>Opportunities = 100, Hits = 100\<rparr>"
      "\<lparr>Opportunities = 1, Hits = 0\<rparr>"]
  by (simp add: tally_ok_def Active_def)

section \<open>Accrual over a window\<close>

lemma getTally_set [simp]:
  "getTally (s\<lparr>Tally := kv_set a t (Tally s)\<rparr>) b = (if b = a then t else getTally s b)"
  by (simp add: getTally_def)

definition bonded_operators :: "env \<Rightarrow> bytes list option" where
  "bonded_operators E = (case GetBondedValidatorsByPower E of None \<Rightarrow> None
     | Some vs \<Rightarrow> those (map (\<lambda>v. ValidatorStringToBytes E (v_operator v)) vs))"

text \<open>
  One report adds one opportunity to every bonded validator and one hit to those that took part;
  a participant that is not bonded is ignored.
\<close>

lemma recordDuty_fold:
  assumes "those (map (\<lambda>v. ValidatorStringToBytes E (v_operator v)) vs) = Some ops" "distinct ops"
  shows "\<exists>s'. rfold (\<lambda>v s.
         rbind (from_option ErrInvalidAddress (ValidatorStringToBytes E (v_operator v))) (\<lambda>valoper.
         Inr (s\<lparr>Tally := kv_set valoper (accrue d (valoper \<in> did) (getTally s valoper)) (Tally s)\<rparr>)))
         vs s = Inr s' \<and>
      (\<forall>a. getTally s' a = (if a \<in> set ops then accrue d (a \<in> did) (getTally s a) else getTally s a)) \<and>
      (kv_wf (Tally s) \<longrightarrow> kv_wf (Tally s')) \<and> fst ` set (Tally s') = fst ` set (Tally s) \<union> set ops \<and>
      o_Params s' = o_Params s \<and> o_calls s' = o_calls s \<and> o_events s' = o_events s"
  using assms
proof (induction vs arbitrary: ops s)
  case Nil
  then show ?case by simp
next
  case (Cons v vs)
  then obtain y zs where yz: "ValidatorStringToBytes E (v_operator v) = Some y"
    "those (map (\<lambda>v. ValidatorStringToBytes E (v_operator v)) vs) = Some zs" "ops = y # zs"
    by (auto split: option.splits)
  let ?s = "s\<lparr>Tally := kv_set y (accrue d (y \<in> did) (getTally s y)) (Tally s)\<rparr>"
  from Cons.IH[OF yz(2), of ?s] Cons.prems yz show ?case
    by (fastforce simp: fst_kv_set)
qed

lemma recordDuty_spec:
  assumes "bonded_operators E = Some ops" "distinct ops"
  shows "\<exists>s'. recordDuty E ps d s = Inr s' \<and>
      (\<forall>a. getTally s' a = (if a \<in> set ops then accrue d (a \<in> set ps) (getTally s a) else getTally s a)) \<and>
      (kv_wf (Tally s) \<longrightarrow> kv_wf (Tally s')) \<and> fst ` set (Tally s') = fst ` set (Tally s) \<union> set ops \<and>
      o_Params s' = o_Params s \<and> o_calls s' = o_calls s \<and> o_events s' = o_events s"
proof -
  from assms obtain vs where vs: "GetBondedValidatorsByPower E = Some vs"
    "those (map (\<lambda>v. ValidatorStringToBytes E (v_operator v)) vs) = Some ops"
    by (auto simp: bonded_operators_def split: option.splits)
  show ?thesis
    using recordDuty_fold[OF vs(2) assms(2), of d "set ps" s] vs
    by (cases "vs = []") (auto simp: recordDuty_def toSet_def)
qed


text \<open>
  A window is the sequence of reports the two duty modules make in it, each in the environment of
  its own block. \<open>opportunities\<close> and \<open>fulfilled\<close> count what they say of one validator.
\<close>

type_synonym report = "env \<times> duty \<times> bytes list"

definition record_all :: "report list \<Rightarrow> oracle_state \<Rightarrow> oracle_state res" where
  "record_all = rfold (\<lambda>(E, d, ps) s. case d of
     dutyPrice \<Rightarrow> RecordPriceParticipation E ps s | dutyBridge \<Rightarrow> RecordBridgeEvent E ps s)"

definition bonds :: "env \<Rightarrow> bytes \<Rightarrow> bool" where
  "bonds E a \<longleftrightarrow> (case bonded_operators E of None \<Rightarrow> False | Some ops \<Rightarrow> a \<in> set ops)"

definition report_ok :: "report \<Rightarrow> bool" where
  "report_ok r \<longleftrightarrow> (case bonded_operators (fst r) of None \<Rightarrow> False | Some ops \<Rightarrow> distinct ops)"

definition opportunities :: "duty \<Rightarrow> bytes \<Rightarrow> report list \<Rightarrow> nat" where
  "opportunities d a rs = length (filter (\<lambda>(E, d', ps). d' = d \<and> bonds E a) rs)"

definition fulfilled :: "duty \<Rightarrow> bytes \<Rightarrow> report list \<Rightarrow> nat" where
  "fulfilled d a rs = length (filter (\<lambda>(E, d', ps). d' = d \<and> bonds E a \<and> a \<in> set ps) rs)"

definition add_tally :: "validator_tally \<Rightarrow> report list \<Rightarrow> bytes \<Rightarrow> validator_tally" where
  "add_tally t rs a =
     \<lparr>PriceOpportunities = PriceOpportunities t + of_nat (opportunities dutyPrice a rs),
      PriceHits = PriceHits t + of_nat (fulfilled dutyPrice a rs),
      BridgeOpportunities = BridgeOpportunities t + of_nat (opportunities dutyBridge a rs),
      BridgeHits = BridgeHits t + of_nat (fulfilled dutyBridge a rs)\<rparr>"

lemma fulfilled_le: "fulfilled d a rs \<le> opportunities d a rs"
  by (induction rs) (auto simp: fulfilled_def opportunities_def)

lemma opportunities_le: "opportunities d a rs \<le> length rs"
  by (simp add: opportunities_def)

lemma record_one:
  assumes "report_ok (E, d, ps)"
  shows "\<exists>s'. (case d of dutyPrice \<Rightarrow> RecordPriceParticipation E ps s
                | dutyBridge \<Rightarrow> RecordBridgeEvent E ps s) = Inr s' \<and>
      (\<forall>a. getTally s' a = (if bonds E a then accrue d (a \<in> set ps) (getTally s a) else getTally s a)) \<and>
      (kv_wf (Tally s) \<longrightarrow> kv_wf (Tally s')) \<and>
      fst ` set (Tally s') = fst ` set (Tally s) \<union> {a. bonds E a} \<and>
      o_Params s' = o_Params s \<and> o_calls s' = o_calls s \<and> o_events s' = o_events s"
proof -
  obtain ops where ops: "bonded_operators E = Some ops" "distinct ops"
    using assms by (auto simp: report_ok_def split: option.splits)
  then have "bonds E = (\<lambda>a. a \<in> set ops)" by (auto simp: bonds_def)
  with recordDuty_spec[OF ops, of ps d s] show ?thesis
    by (cases d) (auto simp: RecordPriceParticipation_def RecordBridgeEvent_def)
qed

lemma add_tally_Cons:
  "add_tally t ((E, d, ps) # rs) a =
   add_tally (if bonds E a then accrue d (a \<in> set ps) t else t) rs a"
  by (cases d) (auto simp: add_tally_def accrue_def opportunities_def fulfilled_def)

lemma record_all_spec:
  assumes "list_all report_ok rs" "kv_wf (Tally s)"
  shows "\<exists>s'. record_all rs s = Inr s' \<and> (\<forall>a. getTally s' a = add_tally (getTally s a) rs a) \<and>
      kv_wf (Tally s') \<and>
      fst ` set (Tally s') = fst ` set (Tally s) \<union> {a. \<exists>r\<in>set rs. bonds (fst r) a} \<and>
      o_Params s' = o_Params s \<and> o_calls s' = o_calls s \<and> o_events s' = o_events s"
  using assms
proof (induction rs arbitrary: s)
  case Nil
  then show ?case by (simp add: record_all_def add_tally_def opportunities_def fulfilled_def)
next
  case (Cons r rs)
  obtain E d ps where r: "r = (E, d, ps)" by (cases r)
  with Cons.prems record_one[of E d ps s] obtain s1 where s1:
    "(case d of dutyPrice \<Rightarrow> RecordPriceParticipation E ps s
        | dutyBridge \<Rightarrow> RecordBridgeEvent E ps s) = Inr s1"
    "\<And>a. getTally s1 a = (if bonds E a then accrue d (a \<in> set ps) (getTally s a) else getTally s a)"
    "kv_wf (Tally s1)" "fst ` set (Tally s1) = fst ` set (Tally s) \<union> {a. bonds E a}"
    "o_Params s1 = o_Params s" "o_calls s1 = o_calls s" "o_events s1 = o_events s"
    by auto
  from Cons.IH[OF _ s1(3)] Cons.prems obtain s2 where s2:
    "record_all rs s1 = Inr s2" "\<And>a. getTally s2 a = add_tally (getTally s1 a) rs a"
    "kv_wf (Tally s2)"
    "fst ` set (Tally s2) = fst ` set (Tally s1) \<union> {a. \<exists>r\<in>set rs. bonds (fst r) a}"
    "o_Params s2 = o_Params s1" "o_calls s2 = o_calls s1" "o_events s2 = o_events s1"
    by auto
  have "record_all (r # rs) s = Inr s2" using s1(1) s2(1) by (simp add: record_all_def r)
  then show ?case using s1 s2 by (auto simp: r add_tally_Cons)
qed

text \<open>
  The counters of a window are exactly the participation history: after any sequence of price
  and bridge reports from an empty tally, every validator's four counters are the number of reports
  of that duty made while it was bonded and the number of those it took part in. No report is lost,
  none is credited to a validator that was not bonded, and accrual never fails.
\<close>

theorem window_accounting:
  assumes "list_all report_ok rs" "Tally s = []"
  shows "\<exists>s'. record_all rs s = Inr s' \<and>
    (\<forall>a. getTally s' a =
       \<lparr>PriceOpportunities = of_nat (opportunities dutyPrice a rs),
        PriceHits = of_nat (fulfilled dutyPrice a rs),
        BridgeOpportunities = of_nat (opportunities dutyBridge a rs),
        BridgeHits = of_nat (fulfilled dutyBridge a rs)\<rparr>)"
proof -
  have "getTally s a = zero_tally" for a using assms(2) by (simp add: getTally_def)
  with record_all_spec[OF assms(1), of s] assms(2) show ?thesis
    by (auto simp: add_tally_def zero_tally_def)
qed

lemma window_accounting_witness:
  "\<exists>s'. record_all [(plain_env [(''a'', 5), (''b'', 7)] 1, dutyPrice, [''b'', ''x'']),
                     (plain_env [(''b'', 7)] 2, dutyBridge, [])]
          \<lparr>o_Params = None, Tally = [], o_calls = [], o_events = []\<rparr> = Inr s' \<and>
     getTally s' ''b'' = \<lparr>PriceOpportunities = 1, PriceHits = 1,
       BridgeOpportunities = 1, BridgeHits = 0\<rparr>"
proof -
  let ?rs = "[(plain_env [(''a'', 5), (''b'', 7)] 1, dutyPrice, [''b'', ''x'']),
               (plain_env [(''b'', 7)] 2, dutyBridge, [])]"
  have "list_all report_ok ?rs"
    by (simp add: report_ok_def bonded_operators_def plain_env_def plain_validator_def)
  from window_accounting[OF this, of "\<lparr>o_Params = None, Tally = [], o_calls = [], o_events = []\<rparr>"]
  obtain s' where "record_all ?rs \<lparr>o_Params = None, Tally = [], o_calls = [], o_events = []\<rparr> = Inr s'"
    "\<forall>a. getTally s' a =
       \<lparr>PriceOpportunities = of_nat (opportunities dutyPrice a ?rs),
        PriceHits = of_nat (fulfilled dutyPrice a ?rs),
        BridgeOpportunities = of_nat (opportunities dutyBridge a ?rs),
        BridgeHits = of_nat (fulfilled dutyBridge a ?rs)\<rparr>"
    by auto
  moreover have "opportunities dutyPrice ''b'' ?rs = 1" "fulfilled dutyPrice ''b'' ?rs = 1"
    "opportunities dutyBridge ''b'' ?rs = 1" "fulfilled dutyBridge ''b'' ?rs = 0"
    by (simp_all add: opportunities_def fulfilled_def bonds_def bonded_operators_def plain_env_def
        plain_validator_def)
  ultimately show ?thesis by auto
qed


section \<open>The window boundary\<close>

lemma oracle_Validate_iff:
  "oracle_Validate p = Inr () \<longleftrightarrow>
     SlashWindow p \<noteq> 0 \<and> RewardDistributionWindow p \<noteq> 0 \<and>
     (\<exists>sf mv fl wp wb. SlashFraction p = Some sf \<and> MinValidPerWindow p = Some mv \<and> DutyFloor p = Some fl \<and>
        WPrice p = Some wp \<and> WBridge p = Some wb \<and> 0 \<le> sf \<and> sf \<le> dec_one \<and> 0 \<le> mv \<and> mv \<le> dec_one \<and>
        0 \<le> fl \<and> fl \<le> dec_one \<and> 0 \<le> wp \<and> 0 \<le> wb \<and> wp + wb \<noteq> 0)"
  by (auto simp: oracle_Validate_def oracle_validateFraction_def validateNonNegative_def rbind_eq_Inr
      split: option.splits)

text \<open>The verdict under parameters that pass validation, and the staking calls it leads to.\<close>

definition fails_window :: "env \<Rightarrow> oracle_params \<Rightarrow> validator_tally \<Rightarrow> bool" where
  "fails_window E p t = (case window_verdict E p t of Inl _ \<Rightarrow> False | Inr r \<Rightarrow> Judged r \<and> ShouldSlash r)"

definition staking_calls ::
    "env \<Rightarrow> (bytes \<Rightarrow> bool) \<Rightarrow> oracle_params \<Rightarrow> bytes \<Rightarrow> staking_call list" where
  "staking_calls E slash_fails p valoper =
     (case GetValidator E valoper of None \<Rightarrow> [] | Some v \<Rightarrow>
       (case (v_cons_addr v, SlashFraction p) of
          (Some c, Some f) \<Rightarrow> SlashCall c (BlockHeight E) (v_power v) f
                              # (if slash_fails c then [] else [JailCall c])
        | _ \<Rightarrow> []))"

lemma window_verdict_valid:
  assumes "MinValidPerWindow p = Some mv" "DutyFloor p = Some fl" "WPrice p = Some wp" "WBridge p = Some wb"
  shows "window_verdict E p t = Inr (EvaluateValidatorWindow E (price_duty t) (bridge_duty t) wp wb mv fl)"
  using assms
  by (cases "Active (price_duty t)"; cases "Active (bridge_duty t)")
    (auto simp: window_verdict_def dec_arg_def Let_def EvaluateValidatorWindow_def window_score_def
      below_floor_def)

lemma fails_window_iff:
  assumes "MinValidPerWindow p = Some mv" "DutyFloor p = Some fl" "WPrice p = Some wp" "WBridge p = Some wb"
  shows "fails_window E p t \<longleftrightarrow> (Active (price_duty t) \<or> Active (bridge_duty t)) \<and>
       (below_floor E (price_duty t) fl \<or> below_floor E (bridge_duty t) fl \<or>
        window_score E (price_duty t) (bridge_duty t) wp wb < mv)"
  by (auto simp: fails_window_def window_verdict_valid[OF assms] Evaluate_simps)

lemma gatherSlashes_valid:
  assumes "MinValidPerWindow p = Some mv" "DutyFloor p = Some fl" "WPrice p = Some wp" "WBridge p = Some wb"
  shows "\<exists>rs. gatherSlashes E p ts = Inr rs \<and> map fst rs = map fst (filter (\<lambda>e. fails_window E p (snd e)) ts)"
proof (induction ts)
  case (Cons e ts)
  obtain a t where "e = (a, t)" by force
  with Cons show ?case
    by (auto simp: window_verdict_valid[OF assms] fails_window_def)
qed simp

lemma slashAndJail_calls:
  assumes "SlashFraction p = Some f"
  shows "\<exists>s'. slashAndJail E sf p ps s = Inr s' \<and>
     o_calls s' = o_calls s @ staking_calls E sf p (fst ps) \<and> Tally s' = Tally s \<and> o_Params s' = o_Params s"
  using assms by (auto simp: slashAndJail_def staking_calls_def Let_def split: option.splits)

lemma slash_all_calls:
  assumes "SlashFraction p = Some f"
  shows "\<exists>s'. rfold (slashAndJail E sf p) rs s = Inr s' \<and>
     o_calls s' = o_calls s @ concat (map (staking_calls E sf p) (map fst rs)) \<and>
     Tally s' = Tally s \<and> o_Params s' = o_Params s"
proof (induction rs arbitrary: s)
  case (Cons r rs)
  obtain s1 where s1: "slashAndJail E sf p r s = Inr s1"
    "o_calls s1 = o_calls s @ staking_calls E sf p (fst r)" "Tally s1 = Tally s" "o_Params s1 = o_Params s"
    using slashAndJail_calls[OF assms] by blast
  with Cons[of s1] show ?case by auto
qed simp

definition window_end :: "env \<Rightarrow> oracle_params \<Rightarrow> bool" where
  "window_end E p \<longleftrightarrow> 0 < sint (BlockHeight E) \<and> SlashWindow p \<noteq> 0 \<and> BlockHeight E mod SlashWindow p = 0"

lemma oracle_EndBlock_spec:
  assumes "o_Params s = Some p" "oracle_Validate p = Inr ()"
  shows "\<exists>s'. oracle_EndBlock E sf s = Inr s' \<and> o_Params s' = Some p \<and>
     (if window_end E p
      then Tally s' = [] \<and> o_calls s' = o_calls s @ concat (map (staking_calls E sf p)
             (map fst (filter (\<lambda>e. fails_window E p (snd e)) (Tally s))))
      else s' = s)"
proof -
  obtain f mv fl wp wb where p: "SlashFraction p = Some f" "MinValidPerWindow p = Some mv"
    "DutyFloor p = Some fl" "WPrice p = Some wp" "WBridge p = Some wb"
    using assms(2) by (auto simp: oracle_Validate_iff)
  obtain rs where rs: "gatherSlashes E p (Tally s) = Inr rs"
    "map fst rs = map fst (filter (\<lambda>e. fails_window E p (snd e)) (Tally s))"
    using gatherSlashes_valid[OF p(2-5), of E "Tally s"] by blast
  obtain s1 where s1: "rfold (slashAndJail E sf p) rs s = Inr s1"
    "o_calls s1 = o_calls s @ concat (map (staking_calls E sf p) (map fst rs))" "o_Params s1 = o_Params s"
    using slash_all_calls[OF p(1)] by blast
  show ?thesis
  proof (cases "window_end E p")
    case True
    then show ?thesis using rs s1 assms(1)
      by (auto simp: oracle_EndBlock_def evaluateWindow_def window_end_def)
  next
    case False
    then have "oracle_EndBlock E sf s = Inr s"
      using assms(1) by (simp add: oracle_EndBlock_def window_end_def not_le) (metis not_le)
    with False assms(1) show ?thesis by simp
  qed
qed


text \<open>
  C15: the end-of-block handler never fails under validated parameters, whatever the staking keeper
  answers. Inside a window it changes nothing; at a boundary it makes, in operator order, exactly
  the staking calls of the validators whose window fails (a slash, followed by a jail when the slash
  succeeded, and nothing for a validator that is gone), and it clears every tally.
\<close>

theorem oracle_EndBlock_slashes_exactly_the_failures:
  assumes "o_Params s = Some p" "oracle_Validate p = Inr ()"
  shows "\<exists>s'. oracle_EndBlock E slash_fails s = Inr s' \<and>
     (if window_end E p
      then Tally s' = [] \<and> o_calls s' = o_calls s @ concat (map (staking_calls E slash_fails p)
             (map fst (filter (\<lambda>e. fails_window E p (snd e)) (Tally s))))
      else s' = s)"
  using oracle_EndBlock_spec[OF assms, of E slash_fails] by blast

lemma oracle_EndBlock_slashes_exactly_the_failures_witness:
  "\<exists>s'. oracle_EndBlock (plain_env [(''a'', 5000000), (''b'', 7000000)] 14400) (\<lambda>c. c = ''b'')
       \<lparr>o_Params = Some oracle_DefaultParams,
        Tally = [(''a'', \<lparr>PriceOpportunities = 4, PriceHits = 4, BridgeOpportunities = 1, BridgeHits = 0\<rparr>),
                 (''b'', \<lparr>PriceOpportunities = 4, PriceHits = 1, BridgeOpportunities = 0, BridgeHits = 0\<rparr>),
                 (''c'', \<lparr>PriceOpportunities = 4, PriceHits = 4, BridgeOpportunities = 1, BridgeHits = 1\<rparr>)],
        o_calls = [], o_events = []\<rparr> = Inr s' \<and>
     Tally s' = [] \<and>
     o_calls s' = [SlashCall ''a'' 14400 5 10000000000000000, JailCall ''a'',
                   SlashCall ''b'' 14400 7 10000000000000000]"
proof -
  let ?E = "plain_env [(''a'', 5000000), (''b'', 7000000)] 14400"
  let ?s = "\<lparr>o_Params = Some oracle_DefaultParams,
        Tally = [(''a'', \<lparr>PriceOpportunities = 4, PriceHits = 4, BridgeOpportunities = 1, BridgeHits = 0\<rparr>),
                 (''b'', \<lparr>PriceOpportunities = 4, PriceHits = 1, BridgeOpportunities = 0, BridgeHits = 0\<rparr>),
                 (''c'', \<lparr>PriceOpportunities = 4, PriceHits = 4, BridgeOpportunities = 1, BridgeHits = 1\<rparr>)],
        o_calls = [], o_events = []\<rparr>"
  have v: "oracle_Validate oracle_DefaultParams = Inr ()"
    by (simp add: oracle_Validate_iff oracle_DefaultParams_def dec_one_def)
  have w: "window_end ?E oracle_DefaultParams"
    by (simp add: window_end_def plain_env_def oracle_DefaultParams_def)
  show ?thesis
    using oracle_EndBlock_slashes_exactly_the_failures[of ?s, OF _ v, of ?E "\<lambda>c. c = ''b''"] w
    by (simp add: fails_window_def window_verdict_def dec_arg_def below_floor_def price_duty_def
        bridge_duty_def Active_def Rate_def EvaluateValidatorWindow_def window_score_def Let_def
        oracle_DefaultParams_def plain_env_def plain_validator_def staking_calls_def dec_of_u64_def
        LegacyNewDecFromInt_def half_even_mul_def half_even_quo_def round_half_even_def dec_one_def)
qed

lemma price_bridge_tally_ok:
  assumes "length rs < 2 ^ 63" "t = add_tally zero_tally rs a"
  shows "tally_ok (price_duty t) \<and> tally_ok (bridge_duty t)"
proof -
  have u: "unat (of_nat n :: u64) = n" if "n \<le> length rs" for n
    using that assms(1) by (simp add: unat_of_nat take_bit_nat_eq_self)
  have "fulfilled d a rs \<le> length rs" for d
    using fulfilled_le opportunities_le le_trans by blast
  then show ?thesis
    using assms u fulfilled_le opportunities_le le_less_trans[OF opportunities_le assms(1)]
    by (simp add: add_tally_def zero_tally_def price_duty_def bridge_duty_def tally_ok_def
        word_le_nat_alt)
qed

lemma staking_calls_addr:
  "SlashCall c h pw f \<in> set (staking_calls E sf p a) \<or> JailCall c \<in> set (staking_calls E sf p a) \<Longrightarrow>
   \<exists>v. GetValidator E a = Some v \<and> v_cons_addr v = Some c"
  by (cases "GetValidator E a"; cases "SlashFraction p")
    (auto simp: staking_calls_def split: option.splits if_splits)

text \<open>
  A whole window: the reports of its blocks from an empty tally, then the handler at its boundary.
\<close>

definition run_window ::
    "env \<Rightarrow> (bytes \<Rightarrow> bool) \<Rightarrow> report list \<Rightarrow> oracle_state \<Rightarrow> oracle_state res" where
  "run_window E slash_fails rs s = rbind (record_all rs s) (oracle_EndBlock E slash_fails)"

lemma run_window_calls:
  assumes "o_Params s = Some p" "oracle_Validate p = Inr ()" "window_end E p" "Tally s = []"
    and "list_all report_ok rs"
  obtains s' ts where "run_window E sf rs s = Inr s'" "kv_wf ts"
    "o_calls s' = o_calls s @ concat (map (staking_calls E sf p)
       (map fst (filter (\<lambda>e. fails_window E p (snd e)) ts)))"
    "\<And>a t. (a, t) \<in> set ts \<longleftrightarrow> (\<exists>r\<in>set rs. bonds (fst r) a) \<and> t = add_tally zero_tally rs a"
proof -
  obtain s1 where s1: "record_all rs s = Inr s1" "kv_wf (Tally s1)" "o_Params s1 = Some p"
    "o_calls s1 = o_calls s" "fst ` set (Tally s1) = {a. \<exists>r\<in>set rs. bonds (fst r) a}"
    "\<And>a. getTally s1 a = add_tally zero_tally rs a"
    using record_all_spec[OF assms(5), of s] assms(1,4) by (auto simp: getTally_def)
  obtain s2 where s2: "oracle_EndBlock E sf s1 = Inr s2"
    "o_calls s2 = o_calls s1 @ concat (map (staking_calls E sf p)
       (map fst (filter (\<lambda>e. fails_window E p (snd e)) (Tally s1))))"
    using oracle_EndBlock_spec[OF s1(3) assms(2), of E sf] assms(3) by auto
  have "(a, t) \<in> set (Tally s1) \<longleftrightarrow> (\<exists>r\<in>set rs. bonds (fst r) a) \<and> t = add_tally zero_tally rs a" for a t
  proof -
    have "(a, t) \<in> set (Tally s1) \<longleftrightarrow> a \<in> fst ` set (Tally s1) \<and> getTally s1 a = t"
      using kv_wf_get_iff[OF s1(2), of a] kv_get_None_iff[of "Tally s1" a]
      by (cases "kv_get (Tally s1) a") (auto simp: getTally_def image_iff)
    then show ?thesis using s1(5,6) by auto
  qed
  with s1 s2 show ?thesis by (intro that[of s2 "Tally s1"]) (simp_all add: run_window_def)
qed

context dec_env
begin

lemma diligent_passes:
  assumes "oracle_Validate p = Inr ()" "DutyFloor p = Some fl" "fl < dec_one"
    and "tally_ok (price_duty t)" "tally_ok (bridge_duty t)"
    and "PriceHits t = PriceOpportunities t" "BridgeHits t = BridgeOpportunities t"
  shows "\<not> fails_window E p t"
proof -
  obtain mv wp wb where p: "MinValidPerWindow p = Some mv" "WPrice p = Some wp" "WBridge p = Some wb"
    and le: "mv \<le> dec_one" "0 \<le> wp" "0 \<le> wb"
    using assms(1) by (auto simp: oracle_Validate_iff)
  have full: "Hits (price_duty t) = Opportunities (price_duty t)"
    "Hits (bridge_duty t) = Opportunities (bridge_duty t)"
    using assms by (simp_all add: price_duty_def bridge_duty_def)
  show ?thesis
    using full_duty_above_floor[OF assms(4) full(1) assms(3)] full_duty_above_floor[OF assms(5) full(2) assms(3)]
      window_score_full[OF _ Rate_full[OF assms(4) _ full(1)] Rate_full[OF assms(5) _ full(2)] le(2,3)] le(1)
    by (auto simp: fails_window_iff[OF p(1) assms(2) p(2,3)])
qed

lemma absent_fails:
  assumes "oracle_Validate p = Inr ()"
    and "tally_ok (price_duty t) \<and> PriceOpportunities t \<noteq> 0 \<and> PriceHits t = 0 \<or>
         tally_ok (bridge_duty t) \<and> BridgeOpportunities t \<noteq> 0 \<and> BridgeHits t = 0"
  shows "fails_window E p t"
proof -
  obtain fl mv wp wb where p: "MinValidPerWindow p = Some mv" "DutyFloor p = Some fl"
    "WPrice p = Some wp" "WBridge p = Some wb" and fl: "0 \<le> fl"
    using assms(1) by (auto simp: oracle_Validate_iff)
  have "below_floor E (price_duty t) fl \<or> below_floor E (bridge_duty t) fl"
    using assms(2) no_duty_below_floor[OF _ _ _ fl]
    by (auto simp: price_duty_def bridge_duty_def Active_def word_gt_0)
  then show ?thesis by (auto simp: fails_window_iff[OF p] below_floor_def)
qed

end

text \<open>A two-validator window in which \<open>a\<close> does both duties and \<open>b\<close> never attests.\<close>

definition demo_vals :: "(bytes \<times> int) list" where
  "demo_vals = [(''a'', 5000000), (''b'', 7000000)]"

definition demo_window :: "report list" where
  "demo_window =
     [(plain_env demo_vals 10, dutyPrice, [''a'', ''b'']), (plain_env demo_vals 11, dutyBridge, [''a''])]"

definition demo_oracle :: oracle_state where
  "demo_oracle = \<lparr>o_Params = Some oracle_DefaultParams, Tally = [], o_calls = [], o_events = []\<rparr>"

lemma demo_facts:
  "oracle_Validate oracle_DefaultParams = Inr ()"
  "window_end (plain_env demo_vals 14400) oracle_DefaultParams"
  "list_all report_ok demo_window" "length demo_window < 2 ^ 63"
  "fulfilled d ''a'' demo_window = opportunities d ''a'' demo_window"
  "opportunities dutyBridge ''b'' demo_window = 1" "fulfilled dutyBridge ''b'' demo_window = 0"
  by (simp_all add: oracle_Validate_iff oracle_DefaultParams_def dec_one_def window_end_def plain_env_def
      demo_window_def report_ok_def bonded_operators_def demo_vals_def plain_validator_def bonds_def
      opportunities_def fulfilled_def)

lemma demo_validators:
  "GetValidator (plain_env vals h) b = Some v \<Longrightarrow> v_cons_addr v = Some c \<Longrightarrow> b = c"
  by (auto simp: plain_env_def plain_validator_def)

text \<open>
  C16: a validator that took part in every report made while it was bonded is neither slashed nor
  jailed at the end of the window, for all validated parameters whose duty floor is below 1.
\<close>

theorem diligent_validator_is_never_slashed:
  assumes "dec_round (DecMul E) (DecQuo E)"
    and "o_Params s = Some p" "oracle_Validate p = Inr ()" "DutyFloor p = Some fl" "fl < dec_one"
    and "window_end E p" "Tally s = []" "o_calls s = []" "list_all report_ok rs" "length rs < 2 ^ 63"
    and "\<And>d. fulfilled d a rs = opportunities d a rs"
    and "\<And>b v. GetValidator E b = Some v \<Longrightarrow> v_cons_addr v = Some c \<Longrightarrow> b = a"
  shows "\<exists>s'. run_window E slash_fails rs s = Inr s' \<and> JailCall c \<notin> set (o_calls s') \<and>
     (\<forall>h pw f. SlashCall c h pw f \<notin> set (o_calls s'))"
proof -
  let ?t = "add_tally zero_tally rs a"
  obtain s' ts where w: "run_window E slash_fails rs s = Inr s'"
    "o_calls s' = concat (map (staking_calls E slash_fails p)
       (map fst (filter (\<lambda>e. fails_window E p (snd e)) ts)))"
    "\<And>a t. (a, t) \<in> set ts \<longleftrightarrow> (\<exists>r\<in>set rs. bonds (fst r) a) \<and> t = add_tally zero_tally rs a"
    using run_window_calls[OF assms(2,3,6,7,9), of slash_fails] assms(8) by (metis append_Nil)
  have "tally_ok (price_duty ?t) \<and> tally_ok (bridge_duty ?t)"
    by (rule price_bridge_tally_ok[OF assms(10)]) simp
  then have pass: "\<not> fails_window E p ?t"
    by (intro dec_env.diligent_passes[OF dec_env.intro[OF assms(1)] assms(3-5)])
      (simp_all add: add_tally_def zero_tally_def assms(11))
  have "\<exists>b v. (b, add_tally zero_tally rs b) \<in> set ts \<and> fails_window E p (add_tally zero_tally rs b) \<and>
      GetValidator E b = Some v \<and> v_cons_addr v = Some c"
    if "JailCall c \<in> set (o_calls s') \<or> SlashCall c h pw f \<in> set (o_calls s')" for h pw f
    using that staking_calls_addr[of c h pw f E slash_fails p] unfolding w(2) by (fastforce simp: w(3))
  with pass assms(12) w(1) show ?thesis by metis
qed

lemma diligent_validator_is_never_slashed_witness:
  "\<exists>s'. run_window (plain_env demo_vals 14400) (\<lambda>_. False) demo_window demo_oracle = Inr s' \<and>
     JailCall ''a'' \<notin> set (o_calls s')"
proof -
  have "\<exists>s'. run_window (plain_env demo_vals 14400) (\<lambda>_. False) demo_window demo_oracle = Inr s' \<and>
     JailCall ''a'' \<notin> set (o_calls s') \<and> (\<forall>h pw f. SlashCall ''a'' h pw f \<notin> set (o_calls s'))"
    by (rule diligent_validator_is_never_slashed[OF plain.rounding _ demo_facts(1) _ _ demo_facts(2) _ _
          demo_facts(3,4,5) demo_validators, where fl = 0])
      (simp_all add: demo_oracle_def oracle_DefaultParams_def)
  then show ?thesis by blast
qed

text \<open>
  A validator that was bonded for at least one report of a duty in the window and took part in
  none of that duty's reports is slashed at the window's end, however it did in the other duty.
\<close>

theorem absent_validator_is_slashed:
  assumes "dec_round (DecMul E) (DecQuo E)"
    and "o_Params s = Some p" "oracle_Validate p = Inr ()" "SlashFraction p = Some f"
    and "window_end E p" "Tally s = []" "o_calls s = []" "list_all report_ok rs" "length rs < 2 ^ 63"
    and "0 < opportunities d a rs" "fulfilled d a rs = 0"
    and "GetValidator E a = Some v" "v_cons_addr v = Some c"
  shows "\<exists>s'. run_window E slash_fails rs s = Inr s' \<and>
     SlashCall c (BlockHeight E) (v_power v) f \<in> set (o_calls s')"
proof -
  let ?t = "add_tally zero_tally rs a"
  obtain s' ts where w: "run_window E slash_fails rs s = Inr s'"
    "o_calls s' = concat (map (staking_calls E slash_fails p)
       (map fst (filter (\<lambda>e. fails_window E p (snd e)) ts)))"
    "\<And>a t. (a, t) \<in> set ts \<longleftrightarrow> (\<exists>r\<in>set rs. bonds (fst r) a) \<and> t = add_tally zero_tally rs a"
    using run_window_calls[OF assms(2,3,5,6,8), of slash_fails] assms(7) by (metis append_Nil)
  have ok: "tally_ok (price_duty ?t) \<and> tally_ok (bridge_duty ?t)"
    by (rule price_bridge_tally_ok[OF assms(9)]) simp
  have nz: "(of_nat (opportunities d a rs) :: u64) \<noteq> 0"
    using assms(9,10) opportunities_le[of d a rs] by (simp add: word_of_nat_eq_0_iff nat_dvd_not_less)
  have "fails_window E p ?t"
    by (rule dec_env.absent_fails[OF dec_env.intro[OF assms(1)] assms(3)])
      (use ok nz assms(11) in \<open>cases d; simp add: add_tally_def zero_tally_def\<close>)
  moreover have "(a, ?t) \<in> set ts"
    using assms(10) by (force simp: w(3) opportunities_def filter_empty_conv)
  moreover have "SlashCall c (BlockHeight E) (v_power v) f \<in> set (staking_calls E slash_fails p a)"
    using assms(4,12,13) by (simp add: staking_calls_def)
  ultimately show ?thesis using w(1,2) by force
qed

lemma absent_validator_is_slashed_witness:
  "\<exists>s'. run_window (plain_env demo_vals 14400) (\<lambda>_. False) demo_window demo_oracle = Inr s' \<and>
     SlashCall ''b'' 14400 7 10000000000000000 \<in> set (o_calls s')"
proof -
  let ?E = "plain_env demo_vals 14400"
  have "\<exists>s'. run_window ?E (\<lambda>_. False) demo_window demo_oracle = Inr s' \<and>
     SlashCall ''b'' (BlockHeight ?E) (v_power (plain_validator ''b'' 7000000)) 10000000000000000
       \<in> set (o_calls s')"
    by (rule absent_validator_is_slashed[OF plain.rounding _ demo_facts(1) _ demo_facts(2) _ _
          demo_facts(3,4), of _ _ dutyBridge "''b''"])
      (simp_all add: demo_facts demo_oracle_def oracle_DefaultParams_def plain_env_def demo_vals_def
        plain_validator_def)
  then show ?thesis by (simp add: plain_env_def plain_validator_def)
qed

end
