(* ===== verification/Price_Feed.thy ===== *)
theory Price_Feed
  imports Oracle_Engine "HOL-Library.Multiset"
begin

text \<open>
  The price module \<open>x/oracle/data\<close>: commit-reveal voting on exchange rates and the
  power-weighted median at the end of each vote period (\<open>keeper/abci.go\<close>,
  \<open>keeper/msg_server_prevote.go\<close>, \<open>keeper/msg_server_vote.go\<close>, \<open>keeper/msg_update_params.go\<close>,
  \<open>keeper/genesis.go\<close>, \<open>types/vote.go\<close>, \<open>types/params.go\<close>, \<open>types/genesis.go\<close>), and the
  off-chain feeder that produces the votes (\<open>oracle/go/relayer/pricefeeder.go\<close>). The lemmas show
  that the published rate is a weighted median no minority can move out of the honest range, that a
  tally writes exactly the pairs with enough voted power, and that a reveal is accepted only
  against a commitment from an earlier period.
\<close>

section \<open>Parameters and genesis\<close>

record price_params =
  VotePeriod :: u64
  VoteThreshold :: "dec option"
  RewardBand :: "dec option"
  MissBand :: "dec option"
  Whitelist :: "string list"

definition price_DefaultParams :: price_params where
  "price_DefaultParams =
     \<lparr>VotePeriod = 600, VoteThreshold = Some 500000000000000000, RewardBand = Some 20000000000000000,
      MissBand = Some 30000000000000000,
      Whitelist = [''STEEM/USD_External'', ''STEEM/SBD_Internal'', ''SBD/USD_External'', ''Price_Feed'']\<rparr>"

definition validateVotePeriod :: "u64 \<Rightarrow> unit res" where
  "validateVotePeriod v = guard_err (v \<noteq> 0) ErrInvalidRequest"

definition price_validateFraction :: "dec option \<Rightarrow> bool \<Rightarrow> unit res" where
  "price_validateFraction v mustBePositive =
     (case v of
        None \<Rightarrow> Inl ErrInvalidRequest
      | Some x \<Rightarrow>
          rbind (guard_err (\<not> x < 0) ErrInvalidRequest) (\<lambda>_.
          rbind (guard_err (\<not> (mustBePositive \<and> x = 0)) ErrInvalidRequest) (\<lambda>_.
          guard_err (\<not> dec_one < x) ErrInvalidRequest)))"

definition validateWhitelist :: "string list \<Rightarrow> unit res" where
  "validateWhitelist whitelist =
     rbind (guard_err (whitelist \<noteq> []) ErrInvalidRequest) (\<lambda>_.
     rbind (rfold (\<lambda>pair seen.
        rbind (guard_err (pair \<noteq> '''') ErrInvalidRequest) (\<lambda>_.
        rbind (guard_err (pair \<notin> set seen) ErrInvalidRequest) (\<lambda>_.
        Inr (pair # seen)))) whitelist []) (\<lambda>_.
     Inr ()))"

definition price_Validate :: "price_params \<Rightarrow> unit res" where
  "price_Validate p =
     rbind (validateVotePeriod (VotePeriod p)) (\<lambda>_.
     rbind (price_validateFraction (VoteThreshold p) True) (\<lambda>_.
     rbind (price_validateFraction (RewardBand p) False) (\<lambda>_.
     rbind (price_validateFraction (MissBand p) False) (\<lambda>_.
     rbind (validateWhitelist (Whitelist p)) (\<lambda>_.
     case (RewardBand p, MissBand p) of
       (Some r, Some m) \<Rightarrow> guard_err (\<not> m < r) ErrInvalidRequest
     | _ \<Rightarrow> Inr ())))))"

record exchange_rate =
  er_Pair :: string
  er_Rate :: "dec option"
  UpdateEpoch :: u64
  UpdateTime :: int

record exchange_rate_tuple =
  t_Pair :: string
  t_Rate :: dec

record prevote =
  pv_Hash :: string
  pv_Voter :: string
  SubmitBlock :: u64

record rate_vote =
  ExchangeRates :: "exchange_rate_tuple list"
  rv_Voter :: string

datatype price_event =
    PriceParametersUpdated
  | AggregatePrevote string string
  | AggregateVote string string
  | ExchangeRateUpdate string dec

record price_state =
  p_Params :: "price_params option"
  ExchangeRate :: "(string, exchange_rate) kv"
  Prevote :: "(bytes, prevote) kv"
  Vote :: "(bytes, rate_vote) kv"
  p_events :: "price_event list"

record price_genesis =
  pg_Params :: price_params
  pg_ExchangeRates :: "exchange_rate list"

definition price_DefaultGenesis :: price_genesis where
  "price_DefaultGenesis = \<lparr>pg_Params = price_DefaultParams, pg_ExchangeRates = []\<rparr>"

definition price_genesis_Validate :: "price_genesis \<Rightarrow> unit res" where
  "price_genesis_Validate gs =
     rbind (rfold (\<lambda>elem seen.
        rbind (guard_err (er_Pair elem \<noteq> '''') ErrInvalidRequest) (\<lambda>_.
        rbind (guard_err (er_Pair elem \<notin> set seen) ErrInvalidRequest) (\<lambda>_.
        rbind (guard_err (case er_Rate elem of None \<Rightarrow> False | Some x \<Rightarrow> \<not> x < 0) ErrInvalidRequest) (\<lambda>_.
        Inr (er_Pair elem # seen))))) (pg_ExchangeRates gs) []) (\<lambda>_.
     price_Validate (pg_Params gs))"

definition price_InitGenesis :: "price_genesis \<Rightarrow> price_state \<Rightarrow> price_state res" where
  "price_InitGenesis gs s =
     (let s = fold (\<lambda>elem s. s\<lparr>ExchangeRate := kv_set (er_Pair elem) elem (ExchangeRate s)\<rparr>)
                   (pg_ExchangeRates gs) s
      in Inr (s\<lparr>p_Params := Some (pg_Params gs)\<rparr>))"

definition price_ExportGenesis :: "price_state \<Rightarrow> price_genesis res" where
  "price_ExportGenesis s =
     rbind (from_option ErrNotFound (p_Params s)) (\<lambda>p.
     Inr (price_DefaultGenesis\<lparr>pg_Params := p,
            pg_ExchangeRates := pg_ExchangeRates price_DefaultGenesis @ map snd (ExchangeRate s)\<rparr>))"

definition price_UpdateParams ::
    "env \<Rightarrow> bytes \<Rightarrow> string \<Rightarrow> price_params \<Rightarrow> price_state \<Rightarrow> price_state res" where
  "price_UpdateParams E k_authority req_Authority req_Params s =
     rbind (from_option ErrInvalidAddress (StringToBytes E req_Authority)) (\<lambda>authority.
     rbind (guard_err (k_authority = authority) ErrInvalidSigner) (\<lambda>_.
     rbind (price_Validate req_Params) (\<lambda>_.
     Inr (s\<lparr>p_Params := Some req_Params, p_events := p_events s @ [PriceParametersUpdated]\<rparr>))))"

definition query_ExchangeRate :: "price_state \<Rightarrow> string \<Rightarrow> exchange_rate res" where
  "query_ExchangeRate s pair = from_option ErrNotFound (kv_get (ExchangeRate s) pair)"

definition query_ExchangeRates :: "price_state \<Rightarrow> exchange_rate list" where
  "query_ExchangeRates s = map snd (ExchangeRate s)"

section \<open>Commit and reveal\<close>

definition GetAggregateVoteHash :: "env \<Rightarrow> string \<Rightarrow> string \<Rightarrow> string \<Rightarrow> string" where
  "GetAggregateVoteHash E salt exchangeRates valStr =
     take 40 (EncodeToString (sha256 E (salt @ '':'' @ exchangeRates @ '':'' @ valStr)))"

definition parse_entry ::
    "env \<Rightarrow> string \<Rightarrow> exchange_rate_tuple list \<Rightarrow> exchange_rate_tuple list res" where
  "parse_entry E entry0 tuples =
     (let entry = TrimSpace entry0 in
      if entry = '''' then Inr tuples
      else case CutLast (CHR '':'') entry of
        None \<Rightarrow> Inl ErrInvalidExchangeRate
      | Some (before, after) \<Rightarrow>
          rbind (guard_err (before \<noteq> '''' \<and> after \<noteq> '''') ErrInvalidExchangeRate) (\<lambda>_.
          let pair = TrimSpace before; rateStr = TrimSpace after in
          rbind (guard_err (pair \<noteq> '''') ErrInvalidExchangeRate) (\<lambda>_.
          rbind (guard_err (pair \<notin> t_Pair ` set tuples) ErrInvalidExchangeRate) (\<lambda>_.
          rbind (from_option ErrInvalidExchangeRate (DecFromStr E rateStr)) (\<lambda>rate.
          rbind (guard_err (\<not> rate < 0) ErrInvalidExchangeRate) (\<lambda>_.
          Inr (tuples @ [\<lparr>t_Pair = pair, t_Rate = rate\<rparr>])))))))"

definition ParseExchangeRateTuples :: "env \<Rightarrow> string \<Rightarrow> exchange_rate_tuple list res" where
  "ParseExchangeRateTuples E exchangeRates =
     (let rates = TrimSpace exchangeRates in
      if rates = '''' then Inr []
      else rfold (parse_entry E) (Split (CHR '','') rates) [])"

record msg_prevote =
  mp_Validator :: string
  mp_Hash :: string

record msg_vote =
  mv_Validator :: string
  mv_Salt :: string
  mv_ExchangeRates :: string

definition AggregateExchangeRatePrevote ::
    "env \<Rightarrow> msg_prevote \<Rightarrow> price_state \<Rightarrow> price_state res" where
  "AggregateExchangeRatePrevote E msg s =
     rbind (guard_err (mp_Hash msg \<noteq> '''') ErrInvalidHash) (\<lambda>_.
     rbind (from_option ErrInvalidAddress (StringToBytes E (mp_Validator msg))) (\<lambda>validatorAddr.
     rbind (guard_err (is_bonded E validatorAddr) ErrNotBondedValidator) (\<lambda>_.
     let pv = \<lparr>pv_Hash = mp_Hash msg, pv_Voter = ValAddressString E validatorAddr,
               SubmitBlock = BlockHeight E\<rparr>
     in Inr (s\<lparr>Prevote := kv_set validatorAddr pv (Prevote s),
               p_events := p_events s @ [AggregatePrevote (pv_Voter pv) (mp_Hash msg)]\<rparr>))))"

definition currentPeriodStart :: "u64 \<Rightarrow> u64 \<Rightarrow> u64" where
  "currentPeriodStart height period = (if period > 0 then height - height mod period else height)"

definition AggregateExchangeRateVote ::
    "env \<Rightarrow> msg_vote \<Rightarrow> price_state \<Rightarrow> price_state res" where
  "AggregateExchangeRateVote E msg s =
     rbind (from_option ErrNotFound (p_Params s)) (\<lambda>params.
     rbind (from_option ErrInvalidAddress (StringToBytes E (mv_Validator msg))) (\<lambda>validatorAddr.
     rbind (guard_err (is_bonded E validatorAddr) ErrNotBondedValidator) (\<lambda>_.
     rbind (from_option ErrNoAggregatePrevote (kv_get (Prevote s) validatorAddr)) (\<lambda>pv.
     rbind (guard_err (SubmitBlock pv < currentPeriodStart (BlockHeight E) (VotePeriod params))
              ErrPrevoteNotExpired) (\<lambda>_.
     rbind (guard_err (GetAggregateVoteHash E (mv_Salt msg) (mv_ExchangeRates msg) (mv_Validator msg)
              = pv_Hash pv) ErrHashVerification) (\<lambda>_.
     rbind (ParseExchangeRateTuples E (mv_ExchangeRates msg)) (\<lambda>tuples.
     let vote = \<lparr>ExchangeRates = tuples, rv_Voter = ValAddressString E validatorAddr\<rparr>
     in Inr (s\<lparr>Vote := kv_set validatorAddr vote (Vote s),
               Prevote := kv_remove validatorAddr (Prevote s),
               p_events := p_events s @ [AggregateVote (rv_Voter vote) (mv_ExchangeRates msg)]\<rparr>))))))))"

section \<open>The tally\<close>

record voter_ballot =
  b_valStr :: string
  b_valoper :: bytes
  b_power :: int
  b_rates :: "string \<Rightarrow> dec option"

record rate_weight =
  rw_rate :: dec
  rw_power :: int

text \<open>
  The revealed votes of the currently bonded validators. A stored vote was parsed by
  \<open>ParseExchangeRateTuples\<close>, so its rates are never nil.
\<close>

fun gatherBallots :: "env \<Rightarrow> (bytes, rate_vote) kv \<Rightarrow> voter_ballot list" where
  "gatherBallots E [] = []"
| "gatherBallots E ((key, vote) # rest) =
     (case GetValidator E key of
        None \<Rightarrow> gatherBallots E rest
      | Some validator \<Rightarrow>
          if \<not> v_bonded validator then gatherBallots E rest
          else \<lparr>b_valStr = ValAddressString E key, b_valoper = key, b_power = v_tokens validator,
                b_rates = map_of (rev (map (\<lambda>t. (t_Pair t, t_Rate t)) (ExchangeRates vote)))\<rparr>
               # gatherBallots E rest)"

fun pairBallots :: "string \<Rightarrow> voter_ballot list \<Rightarrow> rate_weight list" where
  "pairBallots pair [] = []"
| "pairBallots pair (b # bs) =
     (case b_rates b pair of
        None \<Rightarrow> pairBallots pair bs
      | Some rate \<Rightarrow> if \<not> 0 < rate then pairBallots pair bs
                     else \<lparr>rw_rate = rate, rw_power = b_power b\<rparr> # pairBallots pair bs)"

definition votedPower :: "rate_weight list \<Rightarrow> int" where
  "votedPower bs = sum_list (map rw_power bs)"

fun median_scan :: "rate_weight list \<Rightarrow> int \<Rightarrow> int \<Rightarrow> dec \<Rightarrow> dec" where
  "median_scan [] cumulative totalPower median = median"
| "median_scan (b # bs) cumulative totalPower median =
     (let cumulative = cumulative + rw_power b
      in if totalPower \<le> cumulative * 2 then rw_rate b
         else median_scan bs cumulative totalPower median)"

definition weightedMedian :: "rate_weight list \<Rightarrow> int \<Rightarrow> dec" where
  "weightedMedian ballots totalPower = median_scan ballots 0 totalPower (rw_rate (last ballots))"

text \<open>\<open>sort.Slice\<close> is not stable; \<open>sort_key\<close> fixes one order of the ties (see \<open>median_order_irrelevant\<close>).\<close>

definition sort_ballots :: "rate_weight list \<Rightarrow> rate_weight list" where
  "sort_ballots = sort_key rw_rate"

definition requiredPower :: "env \<Rightarrow> price_params \<Rightarrow> int \<Rightarrow> dec res" where
  "requiredPower E p totalBonded =
     (if 0 < totalBonded then rbind (dec_val (VoteThreshold p)) (\<lambda>t. Inr (t * totalBonded)) else Inr 0)"

definition in_band :: "dec \<Rightarrow> dec \<Rightarrow> dec option \<Rightarrow> bool" where
  "in_band lower upper rate = (case rate of None \<Rightarrow> False | Some r \<Rightarrow> \<not> (r < lower \<or> upper < r))"

definition tally_pair ::
    "env \<Rightarrow> price_params \<Rightarrow> voter_ballot list \<Rightarrow> dec \<Rightarrow> u64 \<Rightarrow> string \<Rightarrow>
     price_state \<times> (string \<Rightarrow> bool) \<Rightarrow> (price_state \<times> (string \<Rightarrow> bool)) res" where
  "tally_pair E p ballots required epoch pair st =
     (let pbs = pairBallots pair ballots; voted = votedPower pbs in
      if pbs = [] \<or> LegacyNewDecFromInt voted < required then Inr st
      else let median = weightedMedian (sort_ballots pbs) voted;
               s = (fst st)\<lparr>ExchangeRate := kv_set pair
                     \<lparr>er_Pair = pair, er_Rate = Some median, UpdateEpoch = epoch, UpdateTime = BlockTime E\<rparr>
                     (ExchangeRate (fst st))\<rparr>
           in rbind (dec_val (RewardBand p)) (\<lambda>band.
              let spread = DecMul E median band; lower = median - spread; upper = median + spread;
                  inBand = fold (\<lambda>b m. if in_band lower upper (b_rates b pair) then m
                                        else m(b_valStr b := False)) ballots (snd st)
              in Inr (s\<lparr>p_events := p_events s @ [ExchangeRateUpdate pair median]\<rparr>, inBand)))"

definition clearVotes :: "price_state \<Rightarrow> price_state" where
  "clearVotes s = fold (\<lambda>key s. s\<lparr>Vote := kv_remove key (Vote s)\<rparr>) (map fst (Vote s)) s"

definition expireStalePrevotes :: "u64 \<Rightarrow> u64 \<Rightarrow> price_state \<Rightarrow> price_state" where
  "expireStalePrevotes height votePeriod s =
     (if votePeriod = 0 \<or> height < votePeriod then s
      else let cutoff = height - votePeriod;
               keys = map fst (filter (\<lambda>e. SubmitBlock (snd e) < cutoff) (Prevote s))
           in fold (\<lambda>key s. s\<lparr>Prevote := kv_remove key (Prevote s)\<rparr>) keys s)"

definition TallyExchangeRates :: "env \<Rightarrow> price_state \<Rightarrow> (price_state \<times> bytes list) res" where
  "TallyExchangeRates E s =
     rbind (from_option ErrNotFound (p_Params s)) (\<lambda>params.
     rbind (from_option ErrKeeper (TotalValidatorPower E)) (\<lambda>totalBonded.
     let ballots = gatherBallots E (Vote s);
         inBand = fold (\<lambda>b m. m(b_valStr b := True)) ballots (\<lambda>_. False) in
     rbind (requiredPower E params totalBonded) (\<lambda>required.
     let height = BlockHeight E;
         epoch = (if VotePeriod params > 0 then height div VotePeriod params else height) in
     rbind (rfold (tally_pair E params ballots required epoch) (Whitelist params) (s, inBand)) (\<lambda>st.
     let s = expireStalePrevotes height (VotePeriod params) (clearVotes (fst st))
     in Inr (s, map b_valoper (filter (\<lambda>b. snd st (b_valStr b)) ballots))))))"

text \<open>
  The oracle keeper is absent in a standalone build (\<open>None\<close>); otherwise the period's in-band
  voters are reported to it.
\<close>

definition price_EndBlocker ::
    "env \<Rightarrow> price_state \<Rightarrow> oracle_state option \<Rightarrow> (price_state \<times> oracle_state option) res" where
  "price_EndBlocker E s oracleKeeper =
     rbind (from_option ErrNotFound (p_Params s)) (\<lambda>params.
     if VotePeriod params = 0 then Inr (s, oracleKeeper)
     else if BlockHeight E mod VotePeriod params \<noteq> 0 then Inr (s, oracleKeeper)
     else rbind (TallyExchangeRates E s) (\<lambda>(s, inBandVoters).
          case oracleKeeper of
            None \<Rightarrow> Inr (s, None)
          | Some os \<Rightarrow> rbind (RecordPriceParticipation E inBandVoters os) (\<lambda>os. Inr (s, Some os))))"

section \<open>The weighted median\<close>

definition power_where :: "(dec \<Rightarrow> bool) \<Rightarrow> rate_weight list \<Rightarrow> int" where
  "power_where P bs = sum_list (map rw_power (filter (\<lambda>b. P (rw_rate b)) bs))"

definition powers_ok :: "rate_weight list \<Rightarrow> bool" where
  "powers_ok bs \<longleftrightarrow> (\<forall>b \<in> set bs. 0 \<le> rw_power b)"

lemma power_where_nonneg: "powers_ok bs \<Longrightarrow> 0 \<le> power_where P bs"
  by (auto simp: powers_ok_def power_where_def intro!: sum_list_nonneg)

lemma power_where_Cons: "power_where P (b # bs) = (if P (rw_rate b) then rw_power b else 0) + power_where P bs"
  by (simp add: power_where_def)

lemma power_where_mono:
  "powers_ok bs \<Longrightarrow> (\<And>x. P x \<Longrightarrow> Q x) \<Longrightarrow> power_where P bs \<le> power_where Q bs"
  by (induction bs) (auto simp: power_where_Cons powers_ok_def power_where_def)

lemma power_where_compl: "power_where P bs + power_where (\<lambda>x. \<not> P x) bs = votedPower bs"
  by (induction bs) (auto simp: power_where_Cons votedPower_def power_where_def)

lemma median_scan_spec:
  assumes "sorted (map rw_rate bs)" "powers_ok bs" "2 * c < T" "T \<le> 2 * (c + votedPower bs)"
  shows "\<exists>b \<in> set bs. median_scan bs c T m = rw_rate b \<and>
     T \<le> 2 * (c + power_where (\<lambda>x. x \<le> rw_rate b) bs) \<and>
     2 * (c + power_where (\<lambda>x. x < rw_rate b) bs) < T"
  using assms
proof (induction bs arbitrary: c)
  case Nil
  then show ?case by (simp add: votedPower_def)
next
  case (Cons b bs)
  have pos: "powers_ok bs" "0 \<le> rw_power b" and srt: "sorted (map rw_rate bs)"
    and ge: "\<forall>x \<in> set bs. rw_rate b \<le> rw_rate x"
    using Cons.prems by (auto simp: powers_ok_def)
  show ?case
  proof (cases "T \<le> (c + rw_power b) * 2")
    case True
    have none: "power_where (\<lambda>x. x < rw_rate b) bs = 0"
    proof -
      have "filter (\<lambda>y. rw_rate y < rw_rate b) bs = []" using ge by (auto simp: filter_empty_conv not_less)
      then show ?thesis by (simp add: power_where_def)
    qed
    have "0 \<le> power_where (\<lambda>x. x \<le> rw_rate b) bs" by (rule power_where_nonneg[OF pos(1)])
    with True none Cons.prems(3) show ?thesis
      by (intro bexI[of _ b]) (auto simp: power_where_Cons)
  next
    case False
    with Cons.IH[OF srt pos(1), of "c + rw_power b"] Cons.prems(4)
    obtain x where x: "x \<in> set bs" "median_scan bs (c + rw_power b) T m = rw_rate x"
      "T \<le> 2 * (c + rw_power b + power_where (\<lambda>y. y \<le> rw_rate x) bs)"
      "2 * (c + rw_power b + power_where (\<lambda>y. y < rw_rate x) bs) < T"
      by (auto simp: votedPower_def add.assoc)
    have le: "rw_rate b \<le> rw_rate x" using ge x(1) by blast
    show ?thesis
      using x le pos(2) False by (intro bexI[of _ x]) (auto simp: power_where_Cons add.assoc)
  qed
qed

text \<open>Half of the voted power lies at or below the median, and less than half strictly below it.\<close>

lemma weightedMedian_spec:
  assumes "sorted (map rw_rate bs)" "powers_ok bs" "0 < votedPower bs"
  shows "weightedMedian bs (votedPower bs) \<in> rw_rate ` set bs \<and>
     votedPower bs \<le> 2 * power_where (\<lambda>x. x \<le> weightedMedian bs (votedPower bs)) bs \<and>
     2 * power_where (\<lambda>x. x < weightedMedian bs (votedPower bs)) bs < votedPower bs"
  using median_scan_spec[OF assms(1,2), of 0 "votedPower bs" "rw_rate (last bs)"] assms(3)
  by (auto simp: weightedMedian_def)

text \<open>If every ballot weighs nothing, the scan stops at the first one.\<close>

lemma weightedMedian_zero:
  assumes "bs \<noteq> []" "powers_ok bs" "votedPower bs = 0"
  shows "weightedMedian bs (votedPower bs) = rw_rate (hd bs)"
proof -
  obtain b cs where b: "bs = b # cs" using assms(1) by (cases bs) auto
  then have "0 \<le> rw_power b" using assms(2) by (simp add: powers_ok_def)
  then show ?thesis using assms(3) by (simp add: b weightedMedian_def)
qed

lemma power_where_mset: "mset bs = mset cs \<Longrightarrow> power_where P bs = power_where P cs"
  by (simp add: power_where_def flip: sum_mset_sum_list)

lemma votedPower_mset: "mset bs = mset cs \<Longrightarrow> votedPower bs = votedPower cs"
  by (simp add: votedPower_def flip: sum_mset_sum_list)

lemma powers_ok_mset: "mset bs = mset cs \<Longrightarrow> powers_ok bs = powers_ok cs"
  unfolding powers_ok_def by (metis mset_eq_setD)

lemma median_unique:
  assumes ok: "powers_ok bs"
    and x: "T \<le> 2 * power_where (\<lambda>z. z \<le> x) bs" "2 * power_where (\<lambda>z. z < x) bs < T"
    and y: "T \<le> 2 * power_where (\<lambda>z. z \<le> y) bs" "2 * power_where (\<lambda>z. z < y) bs < T"
  shows "x = y"
proof -
  have "\<not> x < y" using power_where_mono[OF ok, of "\<lambda>z. z \<le> x" "\<lambda>z. z < y"] x y by fastforce
  moreover have "\<not> y < x" using power_where_mono[OF ok, of "\<lambda>z. z \<le> y" "\<lambda>z. z < x"] x y by fastforce
  ultimately show ?thesis by simp
qed

lemma sort_ballots_props [simp]:
  "sorted (map rw_rate (sort_ballots bs))" "mset (sort_ballots bs) = mset bs"
  "set (sort_ballots bs) = set bs" "powers_ok (sort_ballots bs) = powers_ok bs"
  "sort_ballots bs = [] \<longleftrightarrow> bs = []"
  by (simp_all add: sort_ballots_def powers_ok_def) (metis length_0_conv length_sort)

definition published_rate :: "rate_weight list \<Rightarrow> dec" where
  "published_rate bs = weightedMedian (sort_ballots bs) (votedPower bs)"

lemma published_rate_spec:
  assumes "powers_ok bs" "0 < votedPower bs"
  shows "published_rate bs \<in> rw_rate ` set bs"
    "votedPower bs \<le> 2 * power_where (\<lambda>x. x \<le> published_rate bs) bs"
    "2 * power_where (\<lambda>x. x < published_rate bs) bs < votedPower bs"
  using weightedMedian_spec[of "sort_ballots bs"] assms
    votedPower_mset[of "sort_ballots bs" bs] power_where_mset[of "sort_ballots bs" bs]
  by (auto simp: published_rate_def)

lemma published_rate_in_range:
  assumes "powers_ok bs" and maj: "votedPower bs < 2 * power_where (\<lambda>x. a \<le> x \<and> x \<le> b) bs"
  shows "a \<le> published_rate bs \<and> published_rate bs \<le> b"
proof -
  let ?M = "published_rate bs" and ?R = "\<lambda>x. a \<le> x \<and> x \<le> b"
  have "0 \<le> power_where (\<lambda>x. \<not> ?R x) bs" by (rule power_where_nonneg[OF assms(1)])
  with power_where_compl[of ?R bs] maj have "0 < votedPower bs" by linarith
  note M = published_rate_spec[OF assms(1) this]
  have "\<not> ?M < a"
    using power_where_mono[OF assms(1), of "\<lambda>x. x \<le> ?M" "\<lambda>x. \<not> ?R x"] power_where_compl[of ?R bs] M(2) maj
    by fastforce
  moreover have "\<not> b < ?M"
    using power_where_mono[OF assms(1), of ?R "\<lambda>x. x < ?M"] M(3) maj by fastforce
  ultimately show ?thesis by simp
qed

text \<open>
  The published rate does not depend on how the unstable \<open>sort.Slice\<close> orders ballots with
  equal rates: every ordering of the ballots that is sorted by rate has the same weighted median, so
  all nodes agree on it.
\<close>

theorem median_order_irrelevant:
  assumes "powers_ok bs" "bs \<noteq> []" "mset cs = mset bs" "sorted (map rw_rate cs)"
  shows "weightedMedian cs (votedPower bs) = weightedMedian (sort_ballots bs) (votedPower bs)"
proof (cases "0 < votedPower bs")
  case True
  have eq: "votedPower cs = votedPower bs" "powers_ok cs"
    using assms votedPower_mset[OF assms(3)] powers_ok_mset[OF assms(3)] by simp_all
  from weightedMedian_spec[OF assms(4) eq(2)] True
    published_rate_spec[OF assms(1) True] power_where_mset[OF assms(3)] show ?thesis
    unfolding eq(1) published_rate_def by (intro median_unique[OF assms(1)]) auto
next
  case False
  moreover have "0 \<le> votedPower bs" using assms(1) by (auto simp: votedPower_def powers_ok_def intro!: sum_list_nonneg)
  ultimately have z: "votedPower bs = 0" by simp
  have "votedPower cs = 0" "powers_ok cs" "cs \<noteq> []"
    using z votedPower_mset[OF assms(3)] powers_ok_mset[OF assms(3)] assms by auto
  then have "weightedMedian cs (votedPower bs) = rw_rate (hd cs)"
    using weightedMedian_zero[of cs] z by simp
  moreover have "weightedMedian (sort_ballots bs) (votedPower bs) = rw_rate (hd (sort_ballots bs))"
    using weightedMedian_zero[of "sort_ballots bs"] z assms(1,2) votedPower_mset[of "sort_ballots bs" bs] by simp
  moreover have "map rw_rate cs = map rw_rate (sort_ballots bs)"
    using properties_for_sort[of "map rw_rate cs" "map rw_rate bs"]
      properties_for_sort[of "map rw_rate (sort_ballots bs)" "map rw_rate bs"] assms(3,4) by simp
  ultimately show ?thesis
    using \<open>cs \<noteq> []\<close> assms(2) by (metis hd_map sort_ballots_props(5))
qed

lemma median_order_irrelevant_witness:
  "weightedMedian [\<lparr>rw_rate = 2, rw_power = 1\<rparr>, \<lparr>rw_rate = 2, rw_power = 5\<rparr>, \<lparr>rw_rate = 9, rw_power = 3\<rparr>] 9
   = weightedMedian (sort_ballots [\<lparr>rw_rate = 9, rw_power = 3\<rparr>, \<lparr>rw_rate = 2, rw_power = 5\<rparr>, \<lparr>rw_rate = 2, rw_power = 1\<rparr>]) 9"
  using median_order_irrelevant[of
      "[\<lparr>rw_rate = 9, rw_power = 3\<rparr>, \<lparr>rw_rate = 2, rw_power = 5\<rparr>, \<lparr>rw_rate = 2, rw_power = 1\<rparr>]"
      "[\<lparr>rw_rate = 2, rw_power = 1\<rparr>, \<lparr>rw_rate = 2, rw_power = 5\<rparr>, \<lparr>rw_rate = 9, rw_power = 3\<rparr>]"]
  by (simp add: powers_ok_def votedPower_def)

section \<open>What a tally does\<close>

definition finalizes :: "voter_ballot list \<Rightarrow> dec \<Rightarrow> string \<Rightarrow> bool" where
  "finalizes ballots required pair \<longleftrightarrow> pairBallots pair ballots \<noteq> [] \<and>
     required \<le> LegacyNewDecFromInt (votedPower (pairBallots pair ballots))"

definition rate_in_band :: "env \<Rightarrow> dec \<Rightarrow> voter_ballot list \<Rightarrow> string \<Rightarrow> voter_ballot \<Rightarrow> bool" where
  "rate_in_band E band ballots pair b =
     (let m = published_rate (pairBallots pair ballots); spread = DecMul E m band
      in in_band (m - spread) (m + spread) (b_rates b pair))"

lemma fold_in_band:
  "fold (\<lambda>b m. if P b then m else m(b_valStr b := False)) bs m v
   \<longleftrightarrow> m v \<and> (\<forall>b \<in> set bs. b_valStr b = v \<longrightarrow> P b)"
  by (induction bs arbitrary: m) auto

lemma fold_all_in: "fold (\<lambda>b m. m(b_valStr b := True)) bs m v \<longleftrightarrow> m v \<or> (\<exists>b \<in> set bs. b_valStr b = v)"
  by (induction bs arbitrary: m) auto

lemma tally_pair_spec:
  assumes "RewardBand p = Some band"
  shows "\<exists>st'. tally_pair E p ballots required epoch pair st = Inr st' \<and>
     (\<forall>q. kv_get (ExchangeRate (fst st')) q =
        (if q = pair \<and> finalizes ballots required pair
         then Some \<lparr>er_Pair = pair, er_Rate = Some (published_rate (pairBallots pair ballots)),
                    UpdateEpoch = epoch, UpdateTime = BlockTime E\<rparr>
         else kv_get (ExchangeRate (fst st)) q)) \<and>
     (\<forall>v. snd st' v \<longleftrightarrow> snd st v \<and> (finalizes ballots required pair \<longrightarrow>
        (\<forall>b \<in> set ballots. b_valStr b = v \<longrightarrow> rate_in_band E band ballots pair b))) \<and>
     Vote (fst st') = Vote (fst st) \<and> Prevote (fst st') = Prevote (fst st) \<and> p_Params (fst st') = p_Params (fst st)"
  using assms
  by (cases st) (auto simp: tally_pair_def finalizes_def Let_def fold_in_band rate_in_band_def published_rate_def not_less)

lemma tally_pairs_spec:
  assumes "RewardBand p = Some band"
  shows "\<exists>st'. rfold (tally_pair E p ballots required epoch) wl st = Inr st' \<and>
     (\<forall>q. kv_get (ExchangeRate (fst st')) q =
        (if q \<in> set wl \<and> finalizes ballots required q
         then Some \<lparr>er_Pair = q, er_Rate = Some (published_rate (pairBallots q ballots)),
                    UpdateEpoch = epoch, UpdateTime = BlockTime E\<rparr>
         else kv_get (ExchangeRate (fst st)) q)) \<and>
     (\<forall>v. snd st' v \<longleftrightarrow> snd st v \<and> (\<forall>q \<in> set wl. finalizes ballots required q \<longrightarrow>
        (\<forall>b \<in> set ballots. b_valStr b = v \<longrightarrow> rate_in_band E band ballots q b))) \<and>
     Vote (fst st') = Vote (fst st) \<and> Prevote (fst st') = Prevote (fst st) \<and> p_Params (fst st') = p_Params (fst st)"
proof (induction wl arbitrary: st)
  case (Cons q wl)
  obtain s1 where s1: "tally_pair E p ballots required epoch q st = Inr s1"
    "\<And>r. kv_get (ExchangeRate (fst s1)) r =
        (if r = q \<and> finalizes ballots required q
         then Some \<lparr>er_Pair = q, er_Rate = Some (published_rate (pairBallots q ballots)),
                    UpdateEpoch = epoch, UpdateTime = BlockTime E\<rparr>
         else kv_get (ExchangeRate (fst st)) r)"
    "\<And>v. snd s1 v \<longleftrightarrow> snd st v \<and> (finalizes ballots required q \<longrightarrow>
        (\<forall>b \<in> set ballots. b_valStr b = v \<longrightarrow> rate_in_band E band ballots q b))"
    "Vote (fst s1) = Vote (fst st)" "Prevote (fst s1) = Prevote (fst st)" "p_Params (fst s1) = p_Params (fst st)"
    using tally_pair_spec[OF assms, of E ballots required epoch q st] by auto
  from Cons.IH[of s1] s1 show ?case by auto
qed simp

lemma fold_remove_Vote:
  "fold (\<lambda>k s. s\<lparr>Vote := kv_remove k (Vote s)\<rparr>) ks s = s\<lparr>Vote := filter (\<lambda>e. fst e \<notin> set ks) (Vote s)\<rparr>"
  by (induction ks arbitrary: s) (auto simp: kv_remove_def intro!: price_state.equality filter_cong)

lemma fold_remove_Prevote:
  "fold (\<lambda>k s. s\<lparr>Prevote := kv_remove k (Prevote s)\<rparr>) ks s
   = s\<lparr>Prevote := filter (\<lambda>e. fst e \<notin> set ks) (Prevote s)\<rparr>"
  by (induction ks arbitrary: s) (auto simp: kv_remove_def intro!: price_state.equality filter_cong)

lemma clearVotes_spec [simp]: "clearVotes s = s\<lparr>Vote := []\<rparr>"
  by (simp add: clearVotes_def fold_remove_Vote filter_empty_conv)

lemma expire_filter:
  "kv_wf m \<Longrightarrow> filter (\<lambda>e. fst e \<notin> set (map fst (filter P m))) m = filter (\<lambda>e. \<not> P e) m"
  using kv_wf_distinct[of m] by (auto intro!: filter_cong dest: eq_key_imp_eq_value)

lemma expireStalePrevotes_spec:
  assumes "kv_wf (Prevote s)"
  shows "expireStalePrevotes h vp s = s\<lparr>Prevote := filter (\<lambda>e. vp = 0 \<or> h < vp \<or> h - vp \<le> SubmitBlock (snd e)) (Prevote s)\<rparr>"
proof -
  have "filter (\<lambda>e. fst e \<notin> set (map fst (filter (\<lambda>e. SubmitBlock (snd e) < h - vp) (Prevote s)))) (Prevote s)
        = filter (\<lambda>e. h - vp \<le> SubmitBlock (snd e)) (Prevote s)"
    unfolding expire_filter[OF assms] by (simp add: not_less)
  then show ?thesis
    by (auto simp: expireStalePrevotes_def Let_def fold_remove_Prevote intro!: price_state.equality)
qed

lemma validateWhitelist_iff:
  "validateWhitelist wl = Inr () \<longleftrightarrow> wl \<noteq> [] \<and> '''' \<notin> set wl \<and> distinct wl"
proof -
  let ?f = "\<lambda>pair seen. rbind (guard_err (pair \<noteq> '''') ErrInvalidRequest) (\<lambda>_.
        rbind (guard_err (pair \<notin> set seen) ErrInvalidRequest) (\<lambda>_. Inr (pair # seen)))"
  have "(\<exists>r. rfold ?f xs seen = Inr r) \<longleftrightarrow> '''' \<notin> set xs \<and> distinct xs \<and> set xs \<inter> set seen = {}" for xs seen
    by (induction xs arbitrary: seen) (auto simp: rbind_eq_Inr)
  from this[of wl "[]"] show ?thesis by (auto simp: validateWhitelist_def rbind_eq_Inr)
qed

lemma price_Validate_iff:
  "price_Validate p = Inr () \<longleftrightarrow>
     VotePeriod p \<noteq> 0 \<and> Whitelist p \<noteq> [] \<and> '''' \<notin> set (Whitelist p) \<and> distinct (Whitelist p) \<and>
     (\<exists>th rb mb. VoteThreshold p = Some th \<and> RewardBand p = Some rb \<and> MissBand p = Some mb \<and>
        0 < th \<and> th \<le> dec_one \<and> 0 \<le> rb \<and> rb \<le> mb \<and> mb \<le> dec_one)"
  by (cases "VoteThreshold p"; cases "RewardBand p"; cases "MissBand p")
    (auto simp: price_Validate_def price_validateFraction_def validateVotePeriod_def rbind_eq_Inr
      validateWhitelist_iff)

definition required_power :: "dec \<Rightarrow> int \<Rightarrow> dec" where
  "required_power th T = (if 0 < T then th * T else 0)"

text \<open>The bonded ballots, seen per validator.\<close>

definition vote_rates :: "rate_vote \<Rightarrow> string \<Rightarrow> dec option" where
  "vote_rates v = map_of (rev (map (\<lambda>t. (t_Pair t, t_Rate t)) (ExchangeRates v)))"

lemma gatherBallots_eq:
  "gatherBallots E m = map (\<lambda>(k, v). \<lparr>b_valStr = ValAddressString E k, b_valoper = k,
     b_power = live_tokens E k, b_rates = vote_rates v\<rparr>) (filter (\<lambda>e. is_bonded E (fst e)) m)"
proof (induction m)
  case (Cons e m)
  obtain k v where "e = (k, v)" by force
  with Cons show ?case
    by (simp add: is_bonded_def live_tokens_def vote_rates_def split: option.split)
qed simp

lemma TallyExchangeRates_spec:
  assumes "p_Params s = Some p" "price_Validate p = Inr ()" "VoteThreshold p = Some th" "RewardBand p = Some band"
    and "TotalValidatorPower E = Some T" "kv_wf (Prevote s)"
  defines "bs \<equiv> gatherBallots E (Vote s)" and "req \<equiv> required_power th T"
  shows "\<exists>s'. TallyExchangeRates E s = Inr (s', map b_valoper (filter (\<lambda>b. \<forall>q \<in> set (Whitelist p).
            finalizes bs req q \<longrightarrow> (\<forall>c \<in> set bs. b_valStr c = b_valStr b \<longrightarrow> rate_in_band E band bs q c)) bs)) \<and>
     (\<forall>q. kv_get (ExchangeRate s') q =
        (if q \<in> set (Whitelist p) \<and> finalizes bs req q
         then Some \<lparr>er_Pair = q, er_Rate = Some (published_rate (pairBallots q bs)),
                    UpdateEpoch = BlockHeight E div VotePeriod p, UpdateTime = BlockTime E\<rparr>
         else kv_get (ExchangeRate s) q)) \<and>
     Vote s' = [] \<and> p_Params s' = Some p \<and>
     Prevote s' = filter (\<lambda>e. BlockHeight E < VotePeriod p \<or> BlockHeight E - VotePeriod p \<le> SubmitBlock (snd e)) (Prevote s)"
proof -
  have vp: "VotePeriod p \<noteq> 0" "VotePeriod p > 0" using assms(2) by (auto simp: price_Validate_iff word_gt_0)
  have req: "requiredPower E p T = Inr req" using assms(3) by (simp add: requiredPower_def req_def required_power_def)
  let ?m = "fold (\<lambda>b m. m(b_valStr b := True)) bs (\<lambda>_. False)"
  obtain st where st: "rfold (tally_pair E p bs req (BlockHeight E div VotePeriod p)) (Whitelist p) (s, ?m) = Inr st"
    "\<And>q. kv_get (ExchangeRate (fst st)) q =
        (if q \<in> set (Whitelist p) \<and> finalizes bs req q
         then Some \<lparr>er_Pair = q, er_Rate = Some (published_rate (pairBallots q bs)),
                    UpdateEpoch = BlockHeight E div VotePeriod p, UpdateTime = BlockTime E\<rparr>
         else kv_get (ExchangeRate s) q)"
    "\<And>v. snd st v \<longleftrightarrow> ?m v \<and> (\<forall>q \<in> set (Whitelist p). finalizes bs req q \<longrightarrow>
        (\<forall>b \<in> set bs. b_valStr b = v \<longrightarrow> rate_in_band E band bs q b))"
    "Prevote (fst st) = Prevote s" "p_Params (fst st) = p_Params s"
    using tally_pairs_spec[OF assms(4), of E bs req "BlockHeight E div VotePeriod p" "Whitelist p" "(s, ?m)"] by auto
  have "filter (\<lambda>b. snd st (b_valStr b)) bs = filter (\<lambda>b. \<forall>q \<in> set (Whitelist p).
            finalizes bs req q \<longrightarrow> (\<forall>c \<in> set bs. b_valStr c = b_valStr b \<longrightarrow> rate_in_band E band bs q c)) bs"
    by (rule filter_cong) (auto simp: st(3) fold_all_in)
  then show ?thesis
    using assms(1,5,6) vp req st
    by (simp add: TallyExchangeRates_def Let_def expireStalePrevotes_spec flip: bs_def)
qed

definition positive_rate :: "rate_vote \<Rightarrow> string \<Rightarrow> bool" where
  "positive_rate v q = (case vote_rates v q of None \<Rightarrow> False | Some r \<Rightarrow> 0 < r)"

definition voters_for :: "env \<Rightarrow> string \<Rightarrow> (bytes, rate_vote) kv \<Rightarrow> (bytes, rate_vote) kv" where
  "voters_for E q m = filter (\<lambda>e. is_bonded E (fst e) \<and> positive_rate (snd e) q) m"

definition power_of :: "env \<Rightarrow> (bytes, rate_vote) kv \<Rightarrow> int" where
  "power_of E m = sum_list (map (\<lambda>e. live_tokens E (fst e)) m)"

lemma pairBallots_gather:
  "pairBallots q (gatherBallots E m) =
   map (\<lambda>e. \<lparr>rw_rate = the (vote_rates (snd e) q), rw_power = live_tokens E (fst e)\<rparr>) (voters_for E q m)"
proof (induction m)
  case (Cons e m)
  then show ?case
    by (cases "vote_rates (snd e) q")
      (auto simp: gatherBallots_eq voters_for_def positive_rate_def split: prod.splits)
qed (simp add: voters_for_def)

lemma votedPower_gather: "votedPower (pairBallots q (gatherBallots E m)) = power_of E (voters_for E q m)"
  by (simp add: pairBallots_gather votedPower_def power_of_def comp_def)

lemma powers_ok_gather: "\<forall>a. 0 \<le> live_tokens E a \<Longrightarrow> powers_ok (pairBallots q (gatherBallots E m))"
  by (auto simp: pairBallots_gather powers_ok_def)


definition demo_vote :: "int \<Rightarrow> rate_vote" where
  "demo_vote r = \<lparr>ExchangeRates = [\<lparr>t_Pair = ''Price_Feed'', t_Rate = r\<rparr>], rv_Voter = ''''\<rparr>"

definition demo_price :: "(bytes, rate_vote) kv \<Rightarrow> price_state" where
  "demo_price votes = \<lparr>p_Params = Some price_DefaultParams, ExchangeRate = [], Prevote = [], Vote = votes, p_events = []\<rparr>"

lemma price_default_valid: "price_Validate price_DefaultParams = Inr ()"
  by (simp add: price_Validate_iff price_DefaultParams_def dec_one_def)


text \<open>
  C18: no minority of the voting power can move a price: if the bonded voters on a pair whose rates
  lie in an interval hold more than half of the power voting on it, a tally either leaves the rate
  of the pair as it was or publishes one inside that interval.
\<close>

theorem published_rate_is_honest:
  assumes "p_Params s = Some p" "price_Validate p = Inr ()" "TotalValidatorPower E = Some T"
    and "kv_wf (Prevote s)" "\<And>a. 0 \<le> live_tokens E a"
    and "\<And>k v. (k, v) \<in> set honest \<Longrightarrow> \<exists>r. vote_rates v q = Some r \<and> lo \<le> r \<and> r \<le> hi"
    and "honest = filter (\<lambda>e. fst e \<in> H) (voters_for E q (Vote s))"
    and "power_of E (voters_for E q (Vote s)) < 2 * power_of E honest"
  shows "\<exists>s' voters. TallyExchangeRates E s = Inr (s', voters) \<and>
     (kv_get (ExchangeRate s') q = kv_get (ExchangeRate s) q \<or>
      (\<exists>e r. kv_get (ExchangeRate s') q = Some e \<and> er_Rate e = Some r \<and> lo \<le> r \<and> r \<le> hi))"
proof -
  obtain th band where p: "VoteThreshold p = Some th" "RewardBand p = Some band"
    using assms(2) by (auto simp: price_Validate_iff)
  let ?V = "voters_for E q (Vote s)"
  let ?bs = "pairBallots q (gatherBallots E (Vote s))"
  let ?in = "\<lambda>e. lo \<le> the (vote_rates (snd e) q) \<and> the (vote_rates (snd e) q) \<le> hi"
  have "power_of E honest \<le> power_of E (filter ?in ?V)"
  proof -
    have "power_of E (filter (\<lambda>e. fst e \<in> H) m) \<le> power_of E (filter ?in m)"
      if "\<forall>e \<in> set m. fst e \<in> H \<longrightarrow> ?in e" for m
      using that assms(5) by (induction m) (auto simp: power_of_def add_increasing)
    moreover have "\<forall>e \<in> set ?V. fst e \<in> H \<longrightarrow> ?in e"
      using assms(6,7) by fastforce
    ultimately show ?thesis using assms(7) by blast
  qed
  moreover have "power_where (\<lambda>x. lo \<le> x \<and> x \<le> hi) ?bs = power_of E (filter ?in ?V)"
    by (simp add: pairBallots_gather power_where_def power_of_def filter_map comp_def)
  ultimately have "votedPower ?bs < 2 * power_where (\<lambda>x. lo \<le> x \<and> x \<le> hi) ?bs"
    using assms(8) by (simp add: votedPower_gather)
  then have "lo \<le> published_rate ?bs \<and> published_rate ?bs \<le> hi"
    using published_rate_in_range powers_ok_gather assms(5) by blast
  with TallyExchangeRates_spec[OF assms(1,2) p assms(3,4)] show ?thesis
    by (metis (no_types, lifting) exchange_rate.select_convs(2))
qed

lemma published_rate_is_honest_witness:
  "\<exists>s' voters. TallyExchangeRates (plain_env [(''a'', 5), (''b'', 7), (''c'', 9)] 600)
        (demo_price [(''a'', demo_vote 1000), (''b'', demo_vote 3), (''c'', demo_vote 4)]) = Inr (s', voters) \<and>
     (kv_get (ExchangeRate s') ''Price_Feed'' = None \<or>
      (\<exists>e r. kv_get (ExchangeRate s') ''Price_Feed'' = Some e \<and> er_Rate e = Some r \<and> 3 \<le> r \<and> r \<le> 4))"
proof -
  let ?E = "plain_env [(''a'', 5), (''b'', 7), (''c'', 9)] 600"
  let ?m = "[(''a'', demo_vote 1000), (''b'', demo_vote 3), (''c'', demo_vote 4)]"
  have pos: "\<And>a. 0 \<le> live_tokens ?E a"
    by (simp add: live_tokens_def plain_env_def plain_validator_def)
  have v: "voters_for ?E ''Price_Feed'' ?m = ?m"
    by (simp add: voters_for_def is_bonded_def positive_rate_def vote_rates_def demo_vote_def
        plain_env_def plain_validator_def)
  have w: "power_of ?E ?m = 21" "power_of ?E [(''b'', demo_vote 3), (''c'', demo_vote 4)] = 16"
    by (simp_all add: power_of_def live_tokens_def plain_env_def plain_validator_def)
  let ?h = "[(''b'', demo_vote 3), (''c'', demo_vote 4)]"
  have h: "(k, v) \<in> set ?h \<Longrightarrow> \<exists>r. vote_rates v ''Price_Feed'' = Some r \<and> 3 \<le> r \<and> r \<le> 4" for k v
    by (auto simp: demo_vote_def vote_rates_def)
  have p: "p_Params (demo_price ?m) = Some price_DefaultParams" "kv_wf (Prevote (demo_price ?m))"
    "Vote (demo_price ?m) = ?m" "ExchangeRate (demo_price ?m) = []" "TotalValidatorPower ?E = Some 21"
    by (simp_all add: demo_price_def plain_env_def)
  show ?thesis
    using published_rate_is_honest[OF p(1) price_default_valid p(5) p(2) pos h, where H = "{''b'', ''c''}"] p(3,4) v w
    by simp
qed

text \<open>
  The price-duty hits a tally reports are exactly the bonded validators that revealed a vote
  and whose rate, on every pair the tally published, is present and within the reward band of the
  published median.
\<close>

theorem in_band_voters_are_exact:
  assumes "p_Params s = Some p" "price_Validate p = Inr ()" "VoteThreshold p = Some th"
    and "RewardBand p = Some band" "TotalValidatorPower E = Some T" "kv_wf (Prevote s)" "kv_wf (Vote s)" "codec_ok E"
  shows "\<exists>s' voters. TallyExchangeRates E s = Inr (s', voters) \<and>
     (\<forall>a. a \<in> set voters \<longleftrightarrow> (\<exists>v. kv_get (Vote s) a = Some v \<and> is_bonded E a \<and>
        (\<forall>q \<in> set (Whitelist p). finalizes (gatherBallots E (Vote s)) (required_power th T) q \<longrightarrow>
           (\<exists>r. vote_rates v q = Some r \<and>
              (let m = published_rate (pairBallots q (gatherBallots E (Vote s)))
               in m - DecMul E m band \<le> r \<and> r \<le> m + DecMul E m band)))))"
proof -
  let ?bs = "gatherBallots E (Vote s)" and ?req = "required_power th T"
  let ?ok = "\<lambda>q b. rate_in_band E band ?bs q b"
  obtain s' where tally: "TallyExchangeRates E s = Inr (s', map b_valoper (filter (\<lambda>b. \<forall>q \<in> set (Whitelist p).
      finalizes ?bs ?req q \<longrightarrow> (\<forall>c \<in> set ?bs. b_valStr c = b_valStr b \<longrightarrow> ?ok q c)) ?bs))"
    using TallyExchangeRates_spec[OF assms(1-6)] by blast
  have band: "?ok q \<lparr>b_valStr = x, b_valoper = k, b_power = w, b_rates = vote_rates v\<rparr> \<longleftrightarrow>
      (\<exists>r. vote_rates v q = Some r \<and> (let m = published_rate (pairBallots q ?bs)
               in m - DecMul E m band \<le> r \<and> r \<le> m + DecMul E m band))" for q x k w v
    by (auto simp: rate_in_band_def in_band_def Let_def not_less split: option.splits)
  have inset: "b \<in> set ?bs \<longleftrightarrow> (\<exists>k v. kv_get (Vote s) k = Some v \<and> is_bonded E k \<and>
      b = \<lparr>b_valStr = ValAddressString E k, b_valoper = k, b_power = live_tokens E k, b_rates = vote_rates v\<rparr>)" for b
    by (auto simp: gatherBallots_eq kv_wf_get_iff[OF assms(7)])
  have same: "c = b" if "b \<in> set ?bs" "c \<in> set ?bs" "b_valStr c = b_valStr b" for b c
    using that by (auto simp: inset codec_ok_inject[OF assms(8)])
  let ?good = "\<lambda>b. \<forall>q \<in> set (Whitelist p). finalizes ?bs ?req q \<longrightarrow> ?ok q b"
  have "filter (\<lambda>b. \<forall>q \<in> set (Whitelist p).
      finalizes ?bs ?req q \<longrightarrow> (\<forall>c \<in> set ?bs. b_valStr c = b_valStr b \<longrightarrow> ?ok q c)) ?bs = filter ?good ?bs"
    by (rule filter_cong[OF refl]) (use same in blast)
  with tally have tally: "TallyExchangeRates E s = Inr (s', map b_valoper (filter ?good ?bs))" by simp
  have "a \<in> set (map b_valoper (filter ?good ?bs)) \<longleftrightarrow> (\<exists>v. kv_get (Vote s) a = Some v \<and> is_bonded E a \<and>
     ?good \<lparr>b_valStr = ValAddressString E a, b_valoper = a, b_power = live_tokens E a, b_rates = vote_rates v\<rparr>)"
    (is "_ \<longleftrightarrow> (\<exists>v. ?rhs v)") for a
  proof
    assume "\<exists>v. ?rhs v"
    then obtain v where v: "?rhs v" ..
    then have "\<lparr>b_valStr = ValAddressString E a, b_valoper = a, b_power = live_tokens E a, b_rates = vote_rates v\<rparr>
      \<in> set (filter ?good ?bs)" by (simp add: inset)
    then show "a \<in> set (map b_valoper (filter ?good ?bs))" by force
  qed (auto simp: inset)
  then show ?thesis unfolding band tally by blast
qed

lemma demo_vote_rates: "vote_rates (demo_vote r) ''Price_Feed'' = Some r"
  by (simp add: demo_vote_def vote_rates_def)

lemma in_band_voters_are_exact_witness:
  "\<exists>s' voters. TallyExchangeRates (plain_env [(''a'', 5), (''b'', 7), (''c'', 9)] 600)
        (demo_price [(''a'', demo_vote 1000), (''b'', demo_vote 3), (''c'', demo_vote 4)]) = Inr (s', voters) \<and>
     ''c'' \<in> set voters \<and> ''a'' \<notin> set voters"
proof -
  let ?E = "plain_env [(''a'', 5), (''b'', 7), (''c'', 9)] 600"
  let ?m = "[(''a'', demo_vote 1000), (''b'', demo_vote 3), (''c'', demo_vote 4)]"
  have v: "voters_for ?E ''Price_Feed'' ?m = ?m" "q \<noteq> ''Price_Feed'' \<Longrightarrow> voters_for ?E q ?m = []" for q
    by (simp_all add: voters_for_def is_bonded_def positive_rate_def vote_rates_def demo_vote_def
        plain_env_def plain_validator_def)
  have f: "finalizes (gatherBallots ?E ?m) (required_power 500000000000000000 21) q \<longleftrightarrow> q = ''Price_Feed''" for q
    by (cases "q = ''Price_Feed''")
      (simp_all add: finalizes_def pairBallots_gather v votedPower_def required_power_def
        LegacyNewDecFromInt_def dec_one_def live_tokens_def plain_env_def plain_validator_def
        demo_vote_def vote_rates_def)
  have r: "published_rate (pairBallots ''Price_Feed'' (gatherBallots ?E ?m)) = 4"
    by (simp add: pairBallots_gather v published_rate_def votedPower_def weightedMedian_def
        sort_ballots_def live_tokens_def plain_env_def plain_validator_def vote_rates_def demo_vote_def)
  have m: "DecMul ?E 4 20000000000000000 = 0"
    by (simp add: plain_env_def half_even_mul_def round_half_even_def dec_one_def)
  have b: "is_bonded ?E ''a''" "is_bonded ?E ''c''"
    by (simp_all add: is_bonded_def plain_env_def plain_validator_def)
  have p: "p_Params (demo_price ?m) = Some price_DefaultParams" "kv_wf (Prevote (demo_price ?m))"
    "Vote (demo_price ?m) = ?m" "TotalValidatorPower ?E = Some 21" "codec_ok ?E"
    "VoteThreshold price_DefaultParams = Some 500000000000000000" "kv_wf (Vote (demo_price ?m))"
    "RewardBand price_DefaultParams = Some 20000000000000000" "''Price_Feed'' \<in> set (Whitelist price_DefaultParams)"
    by (simp_all add: demo_price_def plain_env_def codec_ok_def price_DefaultParams_def kv_wf_def)
  show ?thesis
    using in_band_voters_are_exact[OF p(1) price_default_valid p(6,8,4,2,7,5)]
    unfolding p(3) f by (auto simp: p(9) r m b kv_get_def Let_def demo_vote_rates simp del: gatherBallots.simps)
qed

section \<open>Commit and reveal over a run\<close>

lemma AggregateExchangeRateVote_iff:
  "AggregateExchangeRateVote E msg s = Inr s' \<longleftrightarrow>
   (\<exists>p a pv tuples. p_Params s = Some p \<and> StringToBytes E (mv_Validator msg) = Some a \<and> is_bonded E a \<and>
      kv_get (Prevote s) a = Some pv \<and> SubmitBlock pv < currentPeriodStart (BlockHeight E) (VotePeriod p) \<and>
      GetAggregateVoteHash E (mv_Salt msg) (mv_ExchangeRates msg) (mv_Validator msg) = pv_Hash pv \<and>
      ParseExchangeRateTuples E (mv_ExchangeRates msg) = Inr tuples \<and>
      s' = s\<lparr>Vote := kv_set a \<lparr>ExchangeRates = tuples, rv_Voter = ValAddressString E a\<rparr> (Vote s),
             Prevote := kv_remove a (Prevote s),
             p_events := p_events s @ [AggregateVote (ValAddressString E a) (mv_ExchangeRates msg)]\<rparr>)"
  by (auto simp: AggregateExchangeRateVote_def rbind_eq_Inr Let_def)

text \<open>
  The operations that change the price module's state, each in its own block environment. A failed
  transaction leaves the state as it was.
\<close>

datatype price_op =
    OpPrevote msg_prevote
  | OpVote msg_vote
  | OpPriceParams bytes string price_params
  | OpPriceEnd

definition price_try :: "price_state res \<Rightarrow> price_state \<Rightarrow> price_state" where
  "price_try r s = (case r of Inl _ \<Rightarrow> s | Inr s' \<Rightarrow> s')"

fun price_exec :: "env \<times> price_op \<Rightarrow> price_state \<Rightarrow> price_state" where
  "price_exec (E, OpPrevote msg) s = price_try (AggregateExchangeRatePrevote E msg s) s"
| "price_exec (E, OpVote msg) s = price_try (AggregateExchangeRateVote E msg s) s"
| "price_exec (E, OpPriceParams auth a p) s = price_try (price_UpdateParams E auth a p s) s"
| "price_exec (E, OpPriceEnd) s = price_try (rbind (price_EndBlocker E s None) (\<lambda>r. Inr (fst r))) s"

definition price_run :: "(env \<times> price_op) list \<Rightarrow> price_state \<Rightarrow> price_state" where
  "price_run tr s = fold price_exec tr s"

definition committed :: "(env \<times> price_op) list \<Rightarrow> bytes \<Rightarrow> prevote \<Rightarrow> bool" where
  "committed tr a pv \<longleftrightarrow> (\<exists>E msg. (E, OpPrevote msg) \<in> set tr \<and> StringToBytes E (mp_Validator msg) = Some a \<and>
     is_bonded E a \<and> pv_Hash pv = mp_Hash msg \<and> SubmitBlock pv = BlockHeight E)"

lemma committed_snoc: "committed tr a pv \<Longrightarrow> committed (tr @ [x]) a pv"
  by (auto simp: committed_def)

lemma Prevote_tally: "tally_pair E p bs r ep q st = Inr st' \<Longrightarrow> Prevote (fst st') = Prevote (fst st)"
  by (auto simp: tally_pair_def Let_def rbind_eq_Inr split: if_splits)

lemma Prevote_expire: "set (Prevote (expireStalePrevotes h vp s)) \<subseteq> set (Prevote s)"
  by (auto simp: expireStalePrevotes_def Let_def fold_remove_Prevote)

lemma Prevote_EndBlocker:
  assumes "price_EndBlocker E s os = Inr (s', os')" shows "set (Prevote s') \<subseteq> set (Prevote s)"
proof -
  have "Prevote (fst st') = Prevote (fst st)" if "rfold (tally_pair E p bs r ep) wl st = Inr st'" for p bs r ep wl st st'
    by (rule rfold_invariant[OF that, where P = "\<lambda>t. Prevote (fst t) = Prevote (fst st)"])
      (auto dest: Prevote_tally)
  then show ?thesis
    using assms Prevote_expire
    by (fastforce simp: price_EndBlocker_def TallyExchangeRates_def rbind_eq_Inr Let_def
        split: if_splits option.splits)
qed

lemma price_run_committed:
  assumes "Prevote s0 = []" "(a, pv) \<in> set (Prevote (price_run tr s0))"
  shows "committed tr a pv"
  using assms(2)
proof (induction tr arbitrary: a pv rule: rev_induct)
  case Nil
  then show ?case using assms(1) by (simp add: price_run_def)
next
  case (snoc x tr)
  let ?s = "price_run tr s0"
  obtain E oper where x: "x = (E, oper)" by force
  have step: "(a, pv) \<in> set (Prevote (price_exec (E, oper) ?s))" using snoc.prems by (simp add: price_run_def x)
  show ?case
  proof (cases "(a, pv) \<in> set (Prevote ?s)")
    case True
    with snoc.IH show ?thesis by (blast intro: committed_snoc)
  next
    case False
    have set_kv: "(a, pv) \<in> set (kv_set b w m) \<Longrightarrow> (a, pv) \<in> set m \<or> (a = b \<and> pv = w)"
      for b w and m :: "(bytes, prevote) kv"
      by (induction b w m rule: kv_set.induct) (auto split: if_splits)
    from False step obtain msg where oper: "oper = OpPrevote msg"
      by (cases oper) (auto simp: price_try_def AggregateExchangeRateVote_iff price_UpdateParams_def
          kv_remove_def rbind_eq_Inr split: sum.splits dest: Prevote_EndBlocker[THEN subsetD])
    with False step have "StringToBytes E (mp_Validator msg) = Some a \<and> is_bonded E a \<and>
        pv_Hash pv = mp_Hash msg \<and> SubmitBlock pv = BlockHeight E"
      by (auto simp: price_try_def AggregateExchangeRatePrevote_def rbind_eq_Inr Let_def
          split: sum.splits dest!: set_kv)
    then show ?thesis by (auto simp: committed_def x oper)
  qed
qed

text \<open>
  C19: commit-reveal. In every run from a state without commitments, a reveal is accepted only if
  the same validator, bonded at the time, committed the hash of exactly the revealed salt, rates and
  name in an earlier transaction of the run, in a block before the current vote period began. The
  accepted reveal stores the parsed rates and uses up the commitment, so that repeating it fails.
\<close>

theorem reveal_needs_an_earlier_commitment:
  assumes "Prevote s0 = []" "s = price_run tr s0" "p_Params s = Some p"
    and "AggregateExchangeRateVote E msg s = Inr s'"
  shows "\<exists>a E0 m0 tuples. StringToBytes E (mv_Validator msg) = Some a \<and> is_bonded E a \<and>
     (E0, OpPrevote m0) \<in> set tr \<and> StringToBytes E0 (mp_Validator m0) = Some a \<and> is_bonded E0 a \<and>
     mp_Hash m0 = GetAggregateVoteHash E (mv_Salt msg) (mv_ExchangeRates msg) (mv_Validator msg) \<and>
     BlockHeight E0 < currentPeriodStart (BlockHeight E) (VotePeriod p) \<and>
     ParseExchangeRateTuples E (mv_ExchangeRates msg) = Inr tuples \<and>
     kv_get (Vote s') a = Some \<lparr>ExchangeRates = tuples, rv_Voter = ValAddressString E a\<rparr> \<and>
     AggregateExchangeRateVote E msg s' = Inl ErrNoAggregatePrevote"
proof -
  obtain a pv tuples where v: "StringToBytes E (mv_Validator msg) = Some a" "is_bonded E a"
    "kv_get (Prevote s) a = Some pv" "SubmitBlock pv < currentPeriodStart (BlockHeight E) (VotePeriod p)"
    "GetAggregateVoteHash E (mv_Salt msg) (mv_ExchangeRates msg) (mv_Validator msg) = pv_Hash pv"
    "ParseExchangeRateTuples E (mv_ExchangeRates msg) = Inr tuples"
    "s' = s\<lparr>Vote := kv_set a \<lparr>ExchangeRates = tuples, rv_Voter = ValAddressString E a\<rparr> (Vote s),
             Prevote := kv_remove a (Prevote s),
             p_events := p_events s @ [AggregateVote (ValAddressString E a) (mv_ExchangeRates msg)]\<rparr>"
    using assms(3,4) by (auto simp: AggregateExchangeRateVote_iff)
  have "committed tr a pv"
    using price_run_committed[OF assms(1)] kv_get_in_set[OF v(3)] assms(2) by blast
  moreover have "AggregateExchangeRateVote E msg s' = Inl ErrNoAggregatePrevote"
    using v assms(3) by (simp add: AggregateExchangeRateVote_def)
  ultimately show ?thesis using v by (force simp: committed_def)
qed

definition demo_commit_run :: "(env \<times> price_op) list" where
  "demo_commit_run = [(plain_env [(''v'', 5)] 599, OpPrevote \<lparr>mp_Validator = ''v'', mp_Hash = ''733a3a76''\<rparr>)]"

definition demo_reveal :: msg_vote where
  "demo_reveal = \<lparr>mv_Validator = ''v'', mv_Salt = ''s'', mv_ExchangeRates = ''''\<rparr>"

lemma reveal_needs_an_earlier_commitment_witness:
  "\<exists>s'. AggregateExchangeRateVote (plain_env [(''v'', 5)] 600) demo_reveal
          (price_run demo_commit_run (demo_price [])) = Inr s' \<and>
     AggregateExchangeRateVote (plain_env [(''v'', 5)] 600) demo_reveal s' = Inl ErrNoAggregatePrevote"
proof -
  let ?E = "plain_env [(''v'', 5)] 600"
  let ?s = "price_run demo_commit_run (demo_price [])"
  have s: "?s = (demo_price [])\<lparr>Prevote := [(''v'', \<lparr>pv_Hash = ''733a3a76'', pv_Voter = ''v'', SubmitBlock = 599\<rparr>)],
      p_events := [AggregatePrevote ''v'' ''733a3a76'']\<rparr>"
    by (simp add: price_run_def demo_commit_run_def price_try_def AggregateExchangeRatePrevote_def
        demo_price_def plain_env_def is_bonded_def plain_validator_def)
  have "GetAggregateVoteHash ?E ''s'' '''' ''v'' = ''733a3a76''"
    by (simp add: GetAggregateVoteHash_def plain_env_def) code_simp
  moreover have p: "p_Params ?s = Some price_DefaultParams"
    and "kv_get (Prevote ?s) ''v'' = Some \<lparr>pv_Hash = ''733a3a76'', pv_Voter = ''v'', SubmitBlock = 599\<rparr>"
    by (simp_all add: s kv_get_def) (simp add: demo_price_def)
  moreover have "StringToBytes ?E ''v'' = Some ''v''" "is_bonded ?E ''v''"
    "599 < currentPeriodStart (BlockHeight ?E) (VotePeriod price_DefaultParams)"
    by (simp_all add: plain_env_def is_bonded_def plain_validator_def currentPeriodStart_def price_DefaultParams_def)
  ultimately obtain s' where ok: "AggregateExchangeRateVote ?E demo_reveal ?s = Inr s'"
    by (simp add: AggregateExchangeRateVote_def demo_reveal_def ParseExchangeRateTuples_def Let_def)
  from reveal_needs_an_earlier_commitment[OF _ refl p ok] ok show ?thesis by (auto simp: demo_price_def)
qed

end
