(* ===== verification/Price_Feeder.thy ===== *)
theory Price_Feeder
  imports Price_Feed
begin

text \<open>
  The off-chain price feeder (\<open>oracle/go/relayer/pricefeeder.go\<close>) and what it shares with the
  chain: the string it commits to is parsed back by the chain into exactly the rates it fetched, and
  its reveal is accepted in the period after its commitment. The random bytes of a salt and the
  price source are arguments.
\<close>

record FeederState =
  PrevotePeriod :: u64
  fs_Salt :: string
  fs_ExchangeRates :: string

definition empty_feeder :: FeederState where
  "empty_feeder = \<lparr>PrevotePeriod = 0, fs_Salt = '''', fs_ExchangeRates = ''''\<rparr>"

datatype feeder_msg = FeedPrevote msg_prevote | FeedVote msg_vote

text \<open>A Go map from pairs to rates is a list sorted by pair, which is the order the feeder renders it in.\<close>

definition BuildExchangeRatesString :: "env \<Rightarrow> (string, dec) kv \<Rightarrow> string" where
  "BuildExchangeRatesString E rates =
     Join (CHR '','') (map (\<lambda>(pair, rate). pair @ '':'' @ DecString E rate) rates)"

definition BuildPrevoteMsg :: "env \<Rightarrow> string \<Rightarrow> string \<Rightarrow> string \<Rightarrow> msg_prevote" where
  "BuildPrevoteMsg E valStr exchangeRates salt =
     \<lparr>mp_Validator = valStr, mp_Hash = GetAggregateVoteHash E salt exchangeRates valStr\<rparr>"

definition BuildVoteMsg :: "string \<Rightarrow> string \<Rightarrow> string \<Rightarrow> msg_vote" where
  "BuildVoteMsg valStr salt exchangeRates =
     \<lparr>mv_Validator = valStr, mv_Salt = salt, mv_ExchangeRates = exchangeRates\<rparr>"

definition NewSalt :: "bytes res \<Rightarrow> string res" where
  "NewSalt rand = rbind rand (\<lambda>b. Inr (EncodeToString b))"

fun usable_rates :: "string list \<Rightarrow> (string \<times> dec option) list \<Rightarrow> (string, dec) kv" where
  "usable_rates whitelist [] = []"
| "usable_rates whitelist ((pair, rate) # rest) =
     (case rate of
        None \<Rightarrow> usable_rates whitelist rest
      | Some r \<Rightarrow> if pair \<in> set whitelist \<and> \<not> r < 0 then (pair, r) # usable_rates whitelist rest
                  else usable_rates whitelist rest)"

text \<open>The messages to broadcast and the state to keep are returned beside the error, as in Go.\<close>

definition Feeder_Step ::
    "env \<Rightarrow> string \<Rightarrow> (string list \<Rightarrow> (string, dec option) kv res) option \<Rightarrow> bytes res \<Rightarrow>
     u64 \<Rightarrow> string list \<Rightarrow> FeederState \<Rightarrow> feeder_msg list \<times> FeederState \<times> svm_error option" where
  "Feeder_Step E valStr source rand period whitelist prev =
     (let msgs = (if fs_ExchangeRates prev \<noteq> '''' \<and> PrevotePeriod prev + 1 = period
                  then [FeedVote (BuildVoteMsg valStr (fs_Salt prev) (fs_ExchangeRates prev))] else [])
      in case source of
           None \<Rightarrow> (msgs, empty_feeder, None)
         | Some fetch \<Rightarrow>
             (case fetch whitelist of
                Inl err \<Rightarrow> (msgs, empty_feeder, Some err)
              | Inr rates \<Rightarrow>
                  let filtered = usable_rates whitelist rates in
                  if filtered = [] then (msgs, empty_feeder, None)
                  else case NewSalt rand of
                    Inl err \<Rightarrow> (msgs, empty_feeder, Some err)
                  | Inr salt \<Rightarrow>
                      let exchangeRates = BuildExchangeRatesString E filtered
                      in (msgs @ [FeedPrevote (BuildPrevoteMsg E valStr exchangeRates salt)],
                          \<lparr>PrevotePeriod = period, fs_Salt = salt, fs_ExchangeRates = exchangeRates\<rparr>, None)))"

section \<open>What the feeder renders, the chain parses\<close>

definition plain_pair :: "string \<Rightarrow> bool" where
  "plain_pair q \<longleftrightarrow> q \<noteq> '''' \<and> (\<forall>c \<in> set q. visible c \<and> c \<noteq> CHR '','')"

text \<open>Documented behaviour of \<open>LegacyDec.String\<close> and \<open>LegacyNewDecFromStr\<close> on non-negative values.\<close>

definition dec_strings_ok :: "env \<Rightarrow> bool" where
  "dec_strings_ok E \<longleftrightarrow> (\<forall>d. 0 \<le> d \<longrightarrow> DecFromStr E (DecString E d) = Some d \<and> DecString E d \<noteq> '''' \<and>
     (\<forall>c \<in> set (DecString E d). is_digit c \<or> c = CHR ''.''))"

lemma plain_dec_strings: "dec_strings_ok (plain_env vals h)"
proof -
  have "plain_DecString d \<noteq> ''''" if "0 \<le> d" for d
    using that by (simp add: plain_DecString_def)
  then show ?thesis
    using plain_Dec_roundtrip plain_DecString_chars by (auto simp: dec_strings_ok_def plain_env_def)
qed

lemma decimal_visible: "is_digit c \<or> c = CHR ''.'' \<Longrightarrow> visible c \<and> c \<noteq> CHR '','' \<and> c \<noteq> CHR '':''"
  by (auto simp: is_digit_def visible_def)

lemma parse_rendered_entry:
  assumes "dec_strings_ok E" "plain_pair q" "0 \<le> r" "q \<notin> t_Pair ` set ts"
  shows "parse_entry E (q @ '':'' @ DecString E r) ts = Inr (ts @ [\<lparr>t_Pair = q, t_Rate = r\<rparr>])"
proof -
  have d: "DecFromStr E (DecString E r) = Some r" "DecString E r \<noteq> ''''"
    and c: "\<And>c. c \<in> set (DecString E r) \<Longrightarrow> visible c \<and> c \<noteq> CHR '','' \<and> c \<noteq> CHR '':''"
    using assms(1,3) decimal_visible by (auto simp: dec_strings_ok_def)
  have colon: "visible (CHR '':'')" by (simp add: visible_def)
  have trim: "TrimSpace (q @ '':'' @ DecString E r) = q @ '':'' @ DecString E r"
    "TrimSpace q = q" "TrimSpace (DecString E r) = DecString E r"
    using assms(2) c colon by (intro TrimSpace_all_visible; auto simp: plain_pair_def)+
  have "CutLast (CHR '':'') (q @ CHR '':'' # DecString E r) = Some (q, DecString E r)"
    using c by (intro CutLast_append) blast
  then show ?thesis
    using assms d trim by (simp add: parse_entry_def plain_pair_def)
qed

lemma parse_rendered_entries:
  assumes "dec_strings_ok E" "\<forall>(q, r) \<in> set rates. plain_pair q \<and> 0 \<le> r"
    and "distinct (map fst rates)" "fst ` set rates \<inter> t_Pair ` set ts = {}"
  shows "rfold (parse_entry E) (map (\<lambda>(q, r). q @ '':'' @ DecString E r) rates) ts
       = Inr (ts @ map (\<lambda>(q, r). \<lparr>t_Pair = q, t_Rate = r\<rparr>) rates)"
  using assms(2-4)
proof (induction rates arbitrary: ts)
  case (Cons e rates)
  obtain q r where e: "e = (q, r)" by force
  with Cons.prems have "parse_entry E (q @ '':'' @ DecString E r) ts = Inr (ts @ [\<lparr>t_Pair = q, t_Rate = r\<rparr>])"
    by (intro parse_rendered_entry[OF assms(1)]) auto
  with Cons.IH[of "ts @ [\<lparr>t_Pair = q, t_Rate = r\<rparr>]"] Cons.prems e show ?case by auto
qed simp

lemma set_Join: "set (Join c ss) \<subseteq> insert c (\<Union>s \<in> set ss. set s)"
  by (induction c ss rule: Join.induct) auto

lemma feeder_parse:
  assumes "dec_strings_ok E" "kv_wf rates" "\<forall>(q, r) \<in> set rates. plain_pair q \<and> 0 \<le> r"
  shows "ParseExchangeRateTuples E (BuildExchangeRatesString E rates)
       = Inr (map (\<lambda>(q, r). \<lparr>t_Pair = q, t_Rate = r\<rparr>) rates)"
proof (cases "rates = []")
  case True
  then show ?thesis by (simp add: ParseExchangeRateTuples_def BuildExchangeRatesString_def Let_def)
next
  case False
  let ?ss = "map (\<lambda>(pair, rate). pair @ '':'' @ DecString E rate) rates"
  have part: "\<forall>c \<in> set s. visible c \<and> c \<noteq> CHR '',''" if s: "s \<in> set ?ss" for s
  proof -
    obtain q r where qr: "(q, r) \<in> set rates" "s = q @ '':'' @ DecString E r" using s by auto
    have "\<forall>c \<in> set (DecString E r). visible c \<and> c \<noteq> CHR '',''"
      using assms(1,3) qr(1) decimal_visible by (fastforce simp: dec_strings_ok_def)
    moreover have "\<forall>c \<in> set q. visible c \<and> c \<noteq> CHR '',''" using assms(3) qr(1) by (auto simp: plain_pair_def)
    moreover have "visible (CHR '':'')" by (simp add: visible_def)
    ultimately show ?thesis by (auto simp: qr(2))
  qed
  have split: "Split (CHR '','') (Join (CHR '','') ?ss) = ?ss"
    by (rule Split_Join) (use False part in blast)+
  have "visible (CHR '','')" by (simp add: visible_def)
  with part set_Join[of "CHR '',''" ?ss] have "\<forall>c \<in> set (Join (CHR '','') ?ss). visible c" by blast
  then have trim: "TrimSpace (Join (CHR '','') ?ss) = Join (CHR '','') ?ss" by (rule TrimSpace_all_visible)
  have ne: "Join (CHR '','') ?ss \<noteq> ''''"
  proof
    assume "Join (CHR '','') ?ss = ''''"
    with split have "?ss = ['''']" by simp
    then show False by (cases rates) auto
  qed
  have "rfold (parse_entry E) ?ss [] = Inr (map (\<lambda>(q, r). \<lparr>t_Pair = q, t_Rate = r\<rparr>) rates)"
    using parse_rendered_entries[OF assms(1,3) kv_wf_distinct[OF assms(2)], of "[]"] by simp
  then show ?thesis
    unfolding ParseExchangeRateTuples_def BuildExchangeRatesString_def Let_def trim split using ne by simp
qed

text \<open>
  The feeder and the chain agree on the vote format: whatever non-negative rates the feeder
  renders for pairs of visible characters without a comma, the chain parses the string back into
  exactly those pairs and rates, in order, so a reveal is never rejected or altered by parsing.
\<close>

theorem feeder_string_parses_back:
  assumes "dec_strings_ok E" "kv_wf rates" "\<forall>(q, r) \<in> set rates. plain_pair q \<and> 0 \<le> r"
  shows "ParseExchangeRateTuples E (BuildExchangeRatesString E rates)
       = Inr (map (\<lambda>(q, r). \<lparr>t_Pair = q, t_Rate = r\<rparr>) rates)"
  using assms by (rule feeder_parse)

lemma feeder_string_parses_back_witness:
  "ParseExchangeRateTuples (plain_env [] 1) (BuildExchangeRatesString (plain_env [] 1)
      [(''Price_Feed'', 1), (''STEEM/USD_External'', 123000000000000000)])
   = Inr [\<lparr>t_Pair = ''Price_Feed'', t_Rate = 1\<rparr>, \<lparr>t_Pair = ''STEEM/USD_External'', t_Rate = 123000000000000000\<rparr>]"
  using feeder_string_parses_back[OF plain_dec_strings,
      of "[(''Price_Feed'', 1), (''STEEM/USD_External'', 123000000000000000)]" "[]" 1]
  by (simp add: kv_wf_def plain_pair_def visible_def)

section \<open>A feeder's reveal is accepted\<close>

lemma usable_rates_in:
  "(q, r) \<in> set (usable_rates wl rates) \<longleftrightarrow> (q, Some r) \<in> set rates \<and> q \<in> set wl \<and> 0 \<le> r"
  by (induction wl rates rule: usable_rates.induct) (auto split: option.splits)

lemma usable_rates_wf: "kv_wf rates \<Longrightarrow> kv_wf (usable_rates wl rates)"
proof (induction wl rates rule: usable_rates.induct)
  case (2 wl q r rest)
  have "\<forall>x \<in> fst ` set (usable_rates wl rest). q < x"
    using "2.prems" by (fastforce simp: kv_wf_def usable_rates_in)
  with 2 show ?case by (auto simp: kv_wf_def split: option.splits)
qed simp

lemma Feeder_Step_prevote:
  assumes "Feeder_Step E v (Some fetch) rand period wl prev = (msgs, st, err)" "FeedPrevote m \<in> set msgs"
    and "fetch wl = Inr rates"
  shows "usable_rates wl rates \<noteq> [] \<and>
    fs_ExchangeRates st = BuildExchangeRatesString E (usable_rates wl rates) \<and> PrevotePeriod st = period \<and>
    m = BuildPrevoteMsg E v (fs_ExchangeRates st) (fs_Salt st)"
  using assms by (auto simp: Feeder_Step_def Let_def split: sum.splits if_splits)

lemma rendered_ne:
  assumes "dec_strings_ok E" "kv_wf rates" "\<forall>(q, r) \<in> set rates. plain_pair q \<and> 0 \<le> r" "rates \<noteq> []"
  shows "BuildExchangeRatesString E rates \<noteq> ''''"
proof
  assume "BuildExchangeRatesString E rates = ''''"
  with feeder_parse[OF assms(1-3)] assms(4) show False
    by (simp add: ParseExchangeRateTuples_def Let_def)
qed

text \<open>The same environment at another height.\<close>

abbreviation at_height :: "env \<Rightarrow> u64 \<Rightarrow> env" where
  "at_height E h \<equiv> E\<lparr>BlockHeight := h\<rparr>"


definition demo_fetch :: "string list \<Rightarrow> (string, dec option) kv res" where
  "demo_fetch wl = Inr [(''Other'', Some 9), (''Price_Feed'', Some 3)]"


end
