(* ===== verification/Bridge_Types.thy ===== *)
theory Bridge_Types
  imports Svm_Env
begin

text \<open>
  The stateless layer of the bridge, \<open>x/oracle/bridge/types\<close>: amounts and the bridge fee
  (\<open>amounts.go\<close>), the memo parser (\<open>memo.go\<close>), the canonical encoding of attested facts
  (\<open>facts.go\<close>), field limits (\<open>field_limits.go\<close>), Steem account names (\<open>steem_account.go\<close>),
  parameters (\<open>params.go\<close>), validator identities (\<open>validator_identity.go\<close>), the stateless checks
  of the messages (\<open>message_*.go\<close>) and the benign-error predicate (\<open>errors.go\<close>). The lemmas show
  that the fee splits an amount without loss even when its product wraps around, that the fact
  encoding and the vote keys are injective, and what exactly the account-name and anchor checks admit.
\<close>

section \<open>Assets and amounts\<close>

text \<open>A protobuf enum is open: any 32-bit value can arrive on the wire.\<close>

type_synonym bridge_asset = u32

definition BRIDGE_ASSET_STEEM :: bridge_asset where "BRIDGE_ASSET_STEEM = 0"
definition BRIDGE_ASSET_SBD :: bridge_asset where "BRIDGE_ASSET_SBD = 1"

definition DenomSBD :: string where "DenomSBD = ''asbd''"
definition DefaultBondDenom :: string where "DefaultBondDenom = ''asteem''"
definition GatewayAccount :: string where "GatewayAccount = ''svm.bank''"
definition BlackHoleModuleName :: string where "BlackHoleModuleName = ''steemblackhole''"
definition BridgeRewardModuleName :: string where "BridgeRewardModuleName = ''bridge_reward''"
definition FeeCollectorName :: string where "FeeCollectorName = ''fee_collector''"

definition MillisteemToAsteemFactor :: int where
  "MillisteemToAsteemFactor = 1000000000000000"

definition MillisteemToAsteem :: "u64 \<Rightarrow> int" where
  "MillisteemToAsteem amountMillisteem = uint amountMillisteem * MillisteemToAsteemFactor"

definition DenomForAsset :: "bridge_asset \<Rightarrow> string" where
  "DenomForAsset asset = (if asset = BRIDGE_ASSET_SBD then DenomSBD else DefaultBondDenom)"

definition ApplyBridgeFee :: "u64 \<Rightarrow> u32 \<Rightarrow> u64 \<times> u64" where
  "ApplyBridgeFee grossMilli feeBps =
     (if feeBps = 0 then (grossMilli, 0)
      else if feeBps \<ge> 10000 then (0, grossMilli)
      else let fee = grossMilli * ucast feeBps div 10000
           in (grossMilli - fee, fee))"

section \<open>Memos\<close>

datatype DestinationType = DESTINATION_TYPE_NONE | DESTINATION_TYPE_COSMOS | DESTINATION_TYPE_EVM

text \<open>\<open>^0x[0-9a-fA-F]{40}$\<close>\<close>

definition hexAddressRegex :: "string \<Rightarrow> bool" where
  "hexAddressRegex s = (case CutPrefix ''0x'' s of None \<Rightarrow> False
     | Some r \<Rightarrow> length r = 40 \<and> list_all is_hex r)"

fun strip_intent :: "string list \<Rightarrow> string \<Rightarrow> string" where
  "strip_intent [] trimmed = trimmed"
| "strip_intent (prefix # ps) trimmed =
     (case CutPrefix prefix trimmed of
        None \<Rightarrow> strip_intent ps trimmed
      | Some rest \<Rightarrow> if rest = '''' \<or> hd rest = CHR '' '' \<or> hd rest = CHR 0x09
                     then TrimSpace rest else trimmed)"

definition DeriveDestination :: "env \<Rightarrow> string \<Rightarrow> (bytes \<times> DestinationType) option" where
  "DeriveDestination E memo =
     (let trimmed = strip_intent [''svm-deposit'', ''svm-register''] (TrimSpace memo)
      in case AccAddressFromBech32 E trimmed of
           Some addr \<Rightarrow> Some (addr, DESTINATION_TYPE_COSMOS)
         | None \<Rightarrow> if hexAddressRegex trimmed then Some (HexToAddress E trimmed, DESTINATION_TYPE_EVM)
                   else None)"

definition parseAddressArg :: "env \<Rightarrow> string \<Rightarrow> bytes res" where
  "parseAddressArg E s0 =
     (let s = TrimSpace s0 in
      if hexAddressRegex s then Inr (HexToAddress E s)
      else case StringToBytes E s of
        Some addr \<Rightarrow> Inr addr
      | None \<Rightarrow> (case ValAddressFromBech32 E s of Some valAddr \<Rightarrow> Inr valAddr | None \<Rightarrow> Inl ErrInvalidAddress))"

section \<open>Fact sets\<close>

text \<open>\<open>binary.BigEndian.PutUint64\<close>\<close>

definition enc_u64 :: "u64 \<Rightarrow> bytes" where
  "enc_u64 v = map (\<lambda>i. char_of (unat v div 256 ^ i)) [7, 6, 5, 4, 3, 2, 1, 0]"

definition enc_str :: "string \<Rightarrow> bytes" where
  "enc_str s = enc_u64 (of_nat (length s)) @ s"

definition facts_sum :: "env \<Rightarrow> bytes \<Rightarrow> string" where
  "facts_sum E buf = EncodeToString (sha256 E buf)"

definition deposit_facts :: "u64 \<Rightarrow> string \<Rightarrow> string \<Rightarrow> string \<Rightarrow> u64 \<Rightarrow> string \<Rightarrow> bridge_asset \<Rightarrow> bytes" where
  "deposit_facts steemBlock steemTimestamp steemSender gatewayAccount amountMillisteem memo asset =
     enc_u64 steemBlock @ enc_str steemTimestamp @ enc_str steemSender @ enc_str gatewayAccount @
     enc_u64 amountMillisteem @ enc_str memo @ enc_u64 (ucast asset)"

definition DepositFactsHash ::
    "env \<Rightarrow> u64 \<Rightarrow> string \<Rightarrow> string \<Rightarrow> string \<Rightarrow> u64 \<Rightarrow> string \<Rightarrow> bridge_asset \<Rightarrow> string" where
  "DepositFactsHash E steemBlock steemTimestamp steemSender gatewayAccount amountMillisteem memo asset =
     facts_sum E (deposit_facts steemBlock steemTimestamp steemSender gatewayAccount amountMillisteem memo asset)"

definition name_facts :: "u64 \<Rightarrow> string \<Rightarrow> string \<Rightarrow> string \<Rightarrow> u64 \<Rightarrow> string \<Rightarrow> bytes" where
  "name_facts steemBlock steemTimestamp steemAccount gatewayAccount amountMillisteem memo =
     enc_u64 steemBlock @ enc_str steemTimestamp @ enc_str steemAccount @ enc_str gatewayAccount @
     enc_u64 amountMillisteem @ enc_str memo"

definition NameFactsHash ::
    "env \<Rightarrow> u64 \<Rightarrow> string \<Rightarrow> string \<Rightarrow> string \<Rightarrow> u64 \<Rightarrow> string \<Rightarrow> string" where
  "NameFactsHash E steemBlock steemTimestamp steemAccount gatewayAccount amountMillisteem memo =
     facts_sum E (name_facts steemBlock steemTimestamp steemAccount gatewayAccount amountMillisteem memo)"

section \<open>Field limits and account names\<close>

definition MaxMemoBytes :: nat where "MaxMemoBytes = 2048"
definition MaxWithdrawalMemoBytes :: nat where "MaxWithdrawalMemoBytes = 256"
definition MaxSteemTimestampBytes :: nat where "MaxSteemTimestampBytes = 64"

definition ValidateMemo :: "string \<Rightarrow> unit res" where
  "ValidateMemo memo =
     rbind (guard_err (length memo \<le> MaxMemoBytes) ErrInvalidRequest) (\<lambda>_.
     guard_err (utf8_ValidString memo) ErrInvalidRequest)"

definition ValidateWithdrawalMemo :: "string \<Rightarrow> unit res" where
  "ValidateWithdrawalMemo memo =
     rbind (ValidateMemo memo) (\<lambda>_.
     rbind (guard_err (length memo \<le> MaxWithdrawalMemoBytes) ErrInvalidRequest) (\<lambda>_.
     guard_err (case utf8_runes memo of None \<Rightarrow> True | Some rs \<Rightarrow> \<not> list_ex IsControl rs)
       ErrInvalidRequest))"

definition ValidateSteemTimestamp :: "string \<Rightarrow> unit res" where
  "ValidateSteemTimestamp ts =
     rbind (guard_err (length ts \<le> MaxSteemTimestampBytes) ErrInvalidRequest) (\<lambda>_.
     guard_err (utf8_ValidString ts) ErrInvalidRequest)"

text \<open>
  \<open>^[a-z][a-z0-9-]*(?:\.[a-z][a-z0-9-]*)*$\<close> as the automaton of the expression: \<open>at_start\<close> says
  that the next character opens a segment.
\<close>

fun name_automaton :: "bool \<Rightarrow> string \<Rightarrow> bool" where
  "name_automaton at_start [] = (\<not> at_start)"
| "name_automaton at_start (c # cs) =
     (if at_start then is_lower c \<and> name_automaton False cs
      else if c = CHR ''.'' then name_automaton True cs
      else (is_lower c \<or> is_digit c \<or> c = CHR ''-'') \<and> name_automaton False cs)"

definition steemAccountNameRegex :: "string \<Rightarrow> bool" where
  "steemAccountNameRegex = name_automaton True"

definition ValidateSteemAccountName :: "string \<Rightarrow> unit res" where
  "ValidateSteemAccountName name =
     rbind (guard_err (\<not> (length name < 3 \<or> length name > 16)) ErrInvalidSteemAccount) (\<lambda>_.
     guard_err (steemAccountNameRegex name) ErrInvalidSteemAccount)"

section \<open>Parameters\<close>

record bridge_params =
  BridgeEnabled :: bool
  BridgeOutEnabled :: bool
  bp_GatewayAccount :: string
  BridgeConfirmationThreshold :: "dec option"
  MinimumBridgeAmount :: u64
  MaximumBridgeAmount :: u64
  DepositTimeoutBlocks :: u64
  NameServiceEnabled :: bool
  NameRegistrationMinMillisteem :: u64
  NamePendingTimeoutBlocks :: u64
  RelayerStartBlock :: u64
  BridgeFeeBps :: u32
  WithdrawalTimeoutBlocks :: u64
  RelayerStartBlockId :: string

definition bridge_DefaultParams :: bridge_params where
  "bridge_DefaultParams =
     \<lparr>BridgeEnabled = False, BridgeOutEnabled = False, bp_GatewayAccount = GatewayAccount,
      BridgeConfirmationThreshold = Some 666666666666666667, MinimumBridgeAmount = 0,
      MaximumBridgeAmount = 0, DepositTimeoutBlocks = 50400, NameServiceEnabled = False,
      NameRegistrationMinMillisteem = 1, NamePendingTimeoutBlocks = 50400, RelayerStartBlock = 0,
      BridgeFeeBps = 25, WithdrawalTimeoutBlocks = 50400, RelayerStartBlockId = ''''\<rparr>"

definition validateGatewayAccount :: "string \<Rightarrow> unit res" where
  "validateGatewayAccount v = (if v = '''' then Inr () else ValidateSteemAccountName v)"

definition validateBridgeConfirmationThreshold :: "dec option \<Rightarrow> unit res" where
  "validateBridgeConfirmationThreshold v =
     (case v of
        None \<Rightarrow> Inl ErrInvalidRequest
      | Some x \<Rightarrow>
          rbind (guard_err (\<not> (x < 0 \<or> x = 0)) ErrInvalidRequest) (\<lambda>_.
          guard_err (\<not> dec_one < x) ErrInvalidRequest))"

definition validateNameRegistrationMinMillisteem :: "u64 \<Rightarrow> unit res" where
  "validateNameRegistrationMinMillisteem v = guard_err (v \<noteq> 0) ErrInvalidRequest"

text \<open>\<open>strconv.ParseUint(s, 16, 32)\<close> of eight lower-case hexadecimal digits never fails.\<close>

definition hex_digit_val :: "char \<Rightarrow> nat" where
  "hex_digit_val c = (if is_digit c then of_char c - 48 else of_char c - 87)"

definition ParseUint16 :: "string \<Rightarrow> nat" where
  "ParseUint16 s = foldl (\<lambda>acc c. acc * 16 + hex_digit_val c) 0 s"

definition validateSteemAnchor :: "u64 \<Rightarrow> string \<Rightarrow> unit res" where
  "validateSteemAnchor block blockId =
     (if blockId = '''' then Inr ()
      else rbind (guard_err (block \<noteq> 0) ErrInvalidRequest) (\<lambda>_.
           rbind (guard_err (length blockId = 40) ErrInvalidRequest) (\<lambda>_.
           rbind (guard_err (list_all is_hex_lower blockId) ErrInvalidRequest) (\<lambda>_.
           guard_err (ParseUint16 (take 8 blockId) = unat block) ErrInvalidRequest))))"

definition bridge_Validate :: "bridge_params \<Rightarrow> unit res" where
  "bridge_Validate p =
     rbind (validateGatewayAccount (bp_GatewayAccount p)) (\<lambda>_.
     rbind (validateBridgeConfirmationThreshold (BridgeConfirmationThreshold p)) (\<lambda>_.
     rbind (validateNameRegistrationMinMillisteem (NameRegistrationMinMillisteem p)) (\<lambda>_.
     rbind (guard_err (\<not> (MaximumBridgeAmount p \<noteq> 0 \<and> MaximumBridgeAmount p < MinimumBridgeAmount p))
              ErrInvalidRequest) (\<lambda>_.
     rbind (guard_err (\<not> (NameServiceEnabled p \<and> NamePendingTimeoutBlocks p = 0)) ErrInvalidRequest) (\<lambda>_.
     rbind (guard_err (\<not> BridgeFeeBps p > 10000) ErrInvalidRequest) (\<lambda>_.
     rbind (guard_err (\<not> (BridgeOutEnabled p \<and> WithdrawalTimeoutBlocks p = 0)) ErrInvalidRequest) (\<lambda>_.
     validateSteemAnchor (RelayerStartBlock p) (RelayerStartBlockId p))))))))"

definition CheckSteemBlock :: "bridge_params \<Rightarrow> u64 \<Rightarrow> unit res" where
  "CheckSteemBlock p steemBlock =
     guard_err (\<not> (RelayerStartBlock p > 0 \<and> steemBlock < RelayerStartBlock p)) ErrSteemBlockBeforeAnchor"

section \<open>Messages and their stateless checks\<close>

record msg_attest_deposit =
  ad_Validator :: string
  ad_Txid :: string
  ad_OpIndex :: u32
  ad_SteemBlock :: u64
  ad_SteemTimestamp :: string
  ad_SteemSender :: string
  ad_GatewayAccount :: string
  ad_AmountMillisteem :: u64
  ad_Memo :: string
  ad_Asset :: bridge_asset

record msg_submit_name =
  sn_Validator :: string
  sn_Txid :: string
  sn_OpIndex :: u32
  sn_SteemBlock :: u64
  sn_SteemTimestamp :: string
  sn_SteemAccount :: string
  sn_GatewayAccount :: string
  sn_AmountMillisteem :: u64
  sn_Memo :: string

record msg_confirm_name =
  cn_Confirmer :: string
  cn_RegistrationId :: u64

record msg_bridge_out =
  bo_Sender :: string
  bo_DestinationSteemAccount :: string
  bo_AmountAsteem :: "int option"
  bo_Asset :: bridge_asset
  bo_Memo :: string

record msg_attest_payout =
  ap_Validator :: string
  ap_WithdrawalId :: u64
  ap_SteemBlock :: u64
  ap_SteemTimestamp :: string
  ap_SteemTxid :: string
  ap_OpIndex :: u32
  ap_AmountMillisteem :: u64
  ap_Asset :: bridge_asset
  ap_DestinationSteemAccount :: string
  ap_Memo :: string

definition steemTxidRegex :: "string \<Rightarrow> bool" where
  "steemTxidRegex s \<longleftrightarrow> length s = 40 \<and> list_all is_hex_lower s"

definition AttestDeposit_ValidateBasic :: "msg_attest_deposit \<Rightarrow> unit res" where
  "AttestDeposit_ValidateBasic msg =
     rbind (guard_err (steemTxidRegex (ad_Txid msg)) ErrInvalidRequest) (\<lambda>_.
     rbind (ValidateSteemAccountName (ad_SteemSender msg)) (\<lambda>_.
     rbind (ValidateSteemAccountName (ad_GatewayAccount msg)) (\<lambda>_.
     rbind (guard_err (ad_AmountMillisteem msg \<noteq> 0) ErrInvalidAmount) (\<lambda>_.
     rbind (ValidateSteemTimestamp (ad_SteemTimestamp msg)) (\<lambda>_.
     ValidateMemo (ad_Memo msg))))))"

definition SubmitNameRegistration_ValidateBasic :: "msg_submit_name \<Rightarrow> unit res" where
  "SubmitNameRegistration_ValidateBasic msg =
     rbind (guard_err (steemTxidRegex (sn_Txid msg)) ErrInvalidRequest) (\<lambda>_.
     rbind (ValidateSteemAccountName (sn_SteemAccount msg)) (\<lambda>_.
     rbind (ValidateSteemAccountName (sn_GatewayAccount msg)) (\<lambda>_.
     rbind (guard_err (sn_AmountMillisteem msg \<noteq> 0) ErrInvalidAmount) (\<lambda>_.
     rbind (ValidateSteemTimestamp (sn_SteemTimestamp msg)) (\<lambda>_.
     ValidateMemo (sn_Memo msg))))))"

definition AttestWithdrawalPayout_ValidateBasic :: "msg_attest_payout \<Rightarrow> unit res" where
  "AttestWithdrawalPayout_ValidateBasic msg =
     rbind (ValidateSteemAccountName (ap_DestinationSteemAccount msg)) (\<lambda>_.
     ValidateMemo (ap_Memo msg))"

definition ConfirmName_ValidateBasic :: "msg_confirm_name \<Rightarrow> unit res" where
  "ConfirmName_ValidateBasic msg = Inr ()"

definition ValidateWithdrawalDestination :: "string \<Rightarrow> unit res" where
  "ValidateWithdrawalDestination account =
     rbind (ValidateSteemAccountName account) (\<lambda>_.
     guard_err (account \<noteq> GatewayAccount) ErrInvalidSteemAccount)"

definition check_amount :: "int option \<Rightarrow> int res" where
  "check_amount amount =
     (case amount of
        None \<Rightarrow> Inl ErrInvalidAmount
      | Some a \<Rightarrow>
          rbind (guard_err (0 < a) ErrInvalidAmount) (\<lambda>_.
          rbind (guard_err (a mod MillisteemToAsteemFactor = 0) ErrInvalidAmount) (\<lambda>_.
          Inr a)))"

definition BridgeOut_ValidateBasic :: "msg_bridge_out \<Rightarrow> unit res" where
  "BridgeOut_ValidateBasic msg =
     rbind (ValidateWithdrawalDestination (bo_DestinationSteemAccount msg)) (\<lambda>_.
     rbind (check_amount (bo_AmountAsteem msg)) (\<lambda>_.
     ValidateWithdrawalMemo (bo_Memo msg)))"

definition IsBenignAttestationError :: "svm_error \<Rightarrow> bool" where
  "IsBenignAttestationError err \<longleftrightarrow>
     err \<in> {ErrDepositAlreadyMinted, ErrRegistrationAlreadyResolved, ErrDuplicateConfirmation,
            ErrWithdrawalAlreadyProcessed, ErrWithdrawalAlreadyRefunded, ErrDuplicateWithdrawalConfirmation}"

section \<open>Validator identities\<close>

record ValidatorIdentity =
  SteemUsername :: string
  OwnerPubkey :: string
  ActivePubkey :: string
  PostingPubkey :: string

definition ValidateSteemPublicKey :: "env \<Rightarrow> string \<Rightarrow> unit res" where
  "ValidateSteemPublicKey E s =
     (case CutPrefix ''STM'' s of
        None \<Rightarrow> Inl ErrInvalidRequest
      | Some body \<Rightarrow> guard_err (length (base58_Decode E body) = 37) ErrInvalidRequest)"

definition identity_Validate :: "env \<Rightarrow> ValidatorIdentity \<Rightarrow> unit res" where
  "identity_Validate E ident =
     rbind (guard_err (SteemUsername ident \<noteq> '''') ErrInvalidRequest) (\<lambda>_.
     rfold (\<lambda>key _.
        rbind (guard_err (key \<noteq> '''') ErrInvalidRequest) (\<lambda>_.
        ValidateSteemPublicKey E key)) [OwnerPubkey ident, ActivePubkey ident, PostingPubkey ident] ())"

definition identity_part ::
    "string \<Rightarrow> ValidatorIdentity \<times> string list \<Rightarrow> (ValidatorIdentity \<times> string list) res" where
  "identity_part part0 st =
     (let part = TrimSpace part0; ident = fst st; seen = snd st in
      if part = '''' then Inr st
      else case Cut (CHR ''='') part of
        None \<Rightarrow> Inl ErrInvalidRequest
      | Some (key0, val0) \<Rightarrow>
          let key = TrimSpace key0; val = TrimSpace val0 in
          rbind (guard_err (key \<notin> set seen) ErrInvalidRequest) (\<lambda>_.
          if key = ''owner'' then Inr (ident\<lparr>OwnerPubkey := val\<rparr>, key # seen)
          else if key = ''active'' then Inr (ident\<lparr>ActivePubkey := val\<rparr>, key # seen)
          else if key = ''posting'' then Inr (ident\<lparr>PostingPubkey := val\<rparr>, key # seen)
          else Inl ErrInvalidRequest))"

definition ParseValidatorIdentity :: "env \<Rightarrow> string \<Rightarrow> string \<Rightarrow> ValidatorIdentity res" where
  "ParseValidatorIdentity E moniker details =
     (let id0 = \<lparr>SteemUsername = TrimSpace moniker, OwnerPubkey = '''', ActivePubkey = '''',
                 PostingPubkey = ''''\<rparr> in
      rbind (rfold identity_part (Split (CHR '';'') details) (id0, [])) (\<lambda>st.
      rbind (identity_Validate E (fst st)) (\<lambda>_.
      Inr (fst st))))"

section \<open>The bridge fee\<close>

lemma fee_no_underflow:
  assumes "b < 10000" shows "(g :: u64) * ucast (b :: u32) div 10000 \<le> g"
proof -
  let ?G = "unat g" and ?B = "unat b"
  have b: "?B < 10000" using assms by (simp add: word_less_nat_alt)
  have ub: "unat (ucast b :: u64) = ?B"
    by (simp add: unsigned_ucast_eq take_bit_nat_eq_self less_trans[OF unsigned_less])
  have prod: "unat (g * ucast b) = ?G * ?B mod 2 ^ 64"
    by (simp add: unat_word_ariths ub)
  have "?G * ?B mod 2 ^ 64 div 10000 \<le> ?G"
  proof (cases "?G * ?B < 2 ^ 64")
    case True
    have "?G * ?B \<le> ?G * 10000" using b by simp
    then have "?G * ?B div 10000 \<le> ?G" using div_le_mono[of "?G * ?B" "?G * 10000" 10000] by simp
    with True show ?thesis by simp
  next
    case False
    moreover have "?G * ?B \<le> ?G * 10000" using b by simp
    ultimately have "2 ^ 64 \<le> ?G * 10000" by linarith
    moreover have "?G * ?B mod 2 ^ 64 < 2 ^ 64" by simp
    ultimately have "?G * ?B mod 2 ^ 64 \<le> ?G * 10000" by linarith
    then show ?thesis using div_le_mono[of _ "?G * 10000" 10000] by fastforce
  qed
  then show ?thesis by (simp add: word_le_nat_alt unat_div prod)
qed

lemma ApplyBridgeFee_sum:
  "unat (fst (ApplyBridgeFee g b)) + unat (snd (ApplyBridgeFee g b)) = unat g"
proof (cases "b < 10000")
  case True
  then have "unat (g * ucast b div 10000) \<le> unat g"
    using fee_no_underflow[of b g] by (simp add: word_le_nat_alt)
  with True show ?thesis
    by (simp add: ApplyBridgeFee_def Let_def unat_sub[OF fee_no_underflow] not_le)
qed (simp add: ApplyBridgeFee_def not_less)

text \<open>
  The bridge fee splits an amount without loss: net plus fee is the gross amount and neither
  exceeds it, for every 64-bit amount and fee rate, also where the product of the two wraps around;
  and where it does not, the fee is the gross amount times the rate over 10000, rounded down.
\<close>

theorem ApplyBridgeFee_splits:
  "unat (fst (ApplyBridgeFee g b)) + unat (snd (ApplyBridgeFee g b)) = unat g \<and>
   (unat g * unat b < 2 ^ 64 \<longrightarrow> b \<le> 10000 \<longrightarrow> unat (snd (ApplyBridgeFee g b)) = unat g * unat b div 10000)"
proof -
  note ApplyBridgeFee_sum
  moreover have "unat (snd (ApplyBridgeFee g b)) = unat g * unat b div 10000"
    if small: "unat g * unat b < 2 ^ 64" and le: "b \<le> 10000"
  proof -
    have ub: "unat (ucast b :: u64) = unat b"
      by (simp add: unsigned_ucast_eq take_bit_nat_eq_self less_trans[OF unsigned_less])
    have "b = 0 \<or> b = 10000 \<or> (b \<noteq> 0 \<and> b < 10000)" using le by (auto simp: order.order_iff_strict)
    then show ?thesis
      using small by (auto simp: ApplyBridgeFee_def Let_def unat_div unat_word_ariths ub not_le)
  qed
  ultimately show ?thesis by blast
qed

lemma ApplyBridgeFee_splits_witness:
  "unat (snd (ApplyBridgeFee 1000001 25)) = 2500"
  using ApplyBridgeFee_splits[of 1000001 25] by simp

text \<open>The two parts in the chain's 18-decimal unit.\<close>

lemma fee_parts_asteem:
  "MillisteemToAsteem (fst (ApplyBridgeFee g b)) + MillisteemToAsteem (snd (ApplyBridgeFee g b)) = MillisteemToAsteem g"
proof -
  have "int (unat (fst (ApplyBridgeFee g b))) + int (unat (snd (ApplyBridgeFee g b))) = int (unat g)"
    using ApplyBridgeFee_sum[of g b] by (metis of_nat_add)
  then show ?thesis by (simp add: MillisteemToAsteem_def flip: distrib_right)
qed

lemma MillisteemToAsteem_nonneg [simp]: "0 \<le> MillisteemToAsteem m"
  by (simp add: MillisteemToAsteem_def MillisteemToAsteemFactor_def)

lemma MillisteemToAsteem_pos: "0 < MillisteemToAsteem m \<longleftrightarrow> m \<noteq> 0"
  by (simp add: MillisteemToAsteem_def MillisteemToAsteemFactor_def zero_less_mult_iff word_less_def uint_0_iff less_le)

section \<open>Injective encodings\<close>

lemma length_enc_u64 [simp]: "length (enc_u64 v) = 8"
  by (simp add: enc_u64_def)

lemma same_digits:
  fixes m n :: nat
  shows "\<forall>i<k. m div 256 ^ i mod 256 = n div 256 ^ i mod 256 \<Longrightarrow> m mod 256 ^ k = n mod 256 ^ k"
proof (induction k)
  case (Suc k)
  then have "m mod 256 ^ k = n mod 256 ^ k" "m div 256 ^ k mod 256 = n div 256 ^ k mod 256" by simp_all
  then show ?case using mod_mult2_eq[of m "256 ^ k" 256] mod_mult2_eq[of n "256 ^ k" 256]
    by (simp add: mult.commute)
qed simp

lemma enc_u64_inject [simp]: "enc_u64 v = enc_u64 w \<longleftrightarrow> v = w"
proof
  assume eq: "enc_u64 v = enc_u64 w"
  have "unat v div 256 ^ i mod 256 = unat w div 256 ^ i mod 256" if "i < 8" for i
  proof -
    have "i \<in> set [7, 6, 5, 4, 3, 2, 1, 0]" using that by auto
    with eq have "(char_of (unat v div 256 ^ i) :: char) = char_of (unat w div 256 ^ i)"
      unfolding enc_u64_def map_eq_conv by blast
    from arg_cong[OF this, of "of_char :: char \<Rightarrow> nat"] show ?thesis by simp
  qed
  then have "unat v mod 256 ^ 8 = unat w mod 256 ^ 8" using same_digits by blast
  moreover have "unat x mod 256 ^ 8 = unat x" for x :: u64 
    using unsigned_less[where w = x and ?'a = nat] by simp
  ultimately show "v = w" by (simp add: word_eq_iff_unsigned[where ?'a = nat])
qed simp

lemma enc_u64_append_inject [simp]: "enc_u64 v @ x = enc_u64 w @ y \<longleftrightarrow> v = w \<and> x = y"
  by (auto simp: append_eq_append_conv)

lemma enc_str_append_inject:
  assumes "length s < 2 ^ 64" "length t < 2 ^ 64"
  shows "enc_str s @ x = enc_str t @ y \<longleftrightarrow> s = t \<and> x = y"
proof -
  have "(of_nat (length s) :: u64) = of_nat (length t) \<longleftrightarrow> length s = length t"
    using assms by (simp add: word_unat_eq_iff unat_of_nat take_bit_nat_eq_self)
  then show ?thesis by (auto simp: enc_str_def append_eq_append_conv)
qed

lemma enc_str_inject:
  "length s < 2 ^ 64 \<Longrightarrow> length t < 2 ^ 64 \<Longrightarrow> enc_str s = enc_str t \<longleftrightarrow> s = t"
  using enc_str_append_inject[of s t "[]" "[]"] by simp

lemma ucast_u32_inject [simp]: "(ucast (a :: u32) :: u64) = ucast b \<longleftrightarrow> a = b"
proof -
  have "unat (ucast w :: u64) = unat w" for w :: u32
    by (simp add: unsigned_ucast_eq take_bit_nat_eq_self less_trans[OF unsigned_less])
  then show ?thesis by (simp add: word_unat_eq_iff)
qed

text \<open>
  The byte encoding under which attestations are tallied is unambiguous: two deposits encode to
  the same bytes only if block, timestamp, sender, gateway, amount, memo and asset all agree, so
  validators that observed different facts never vote for the same candidate before hashing.
\<close>

theorem deposit_facts_injective:
  assumes "\<forall>s \<in> {ts, snd1, gw, memo, ts', snd1', gw', memo'}. length s < 2 ^ 64"
  shows "deposit_facts blk ts snd1 gw amt memo asset = deposit_facts blk' ts' snd1' gw' amt' memo' asset' \<longleftrightarrow>
     blk = blk' \<and> ts = ts' \<and> snd1 = snd1' \<and> gw = gw' \<and> amt = amt' \<and> memo = memo' \<and> asset = asset'"
  using assms by (simp add: deposit_facts_def enc_str_append_inject enc_str_inject)

lemma deposit_facts_injective_witness:
  "deposit_facts 1 ''t'' ''ab'' ''c'' 5 ''m'' 0 \<noteq> deposit_facts 1 ''t'' ''a'' ''bc'' 5 ''m'' 0"
  using deposit_facts_injective[of "''t''" "''ab''" "''c''" "''m''" "''t''" "''a''" "''bc''" "''m''" 1 5 0 1 5 0]
  by simp

lemma name_facts_injective:
  assumes "\<forall>s \<in> {ts, acc, gw, memo, ts', acc', gw', memo'}. length s < 2 ^ 64"
  shows "name_facts blk ts acc gw amt memo = name_facts blk' ts' acc' gw' amt' memo' \<longleftrightarrow>
     blk = blk' \<and> ts = ts' \<and> acc = acc' \<and> gw = gw' \<and> amt = amt' \<and> memo = memo'"
  using assms by (simp add: name_facts_def enc_str_append_inject enc_str_inject)

section \<open>Account names and anchors\<close>

definition name_char :: "char \<Rightarrow> bool" where
  "name_char c \<longleftrightarrow> is_lower c \<or> is_digit c \<or> c = CHR ''-''"

definition name_segment :: "string \<Rightarrow> bool" where
  "name_segment s = (case s of [] \<Rightarrow> False | c # cs \<Rightarrow> is_lower c \<and> list_all name_char cs)"

lemma name_segment_simps [simp]:
  "\<not> name_segment []" "name_segment (c # cs) \<longleftrightarrow> is_lower c \<and> list_all name_char cs"
  by (simp_all add: name_segment_def)

lemma name_automaton_segments:
  "name_automaton True s \<longleftrightarrow> list_all name_segment (Split (CHR ''.'') s)"
  "name_automaton False s \<longleftrightarrow>
     list_all name_char (hd (Split (CHR ''.'') s)) \<and> list_all name_segment (tl (Split (CHR ''.'') s))"
proof (induction s)
  case (Cons c s)
  have nd: "\<not> is_lower (CHR ''.'')" "\<not> name_char (CHR ''.'')"
    by (simp_all add: name_char_def is_lower_def is_digit_def)
  obtain x xs where s: "Split (CHR ''.'') s = x # xs" by (cases "Split (CHR ''.'') s") auto
  show "name_automaton True (c # s) \<longleftrightarrow> list_all name_segment (Split (CHR ''.'') (c # s))"
    using Cons nd s by auto
  show "name_automaton False (c # s) \<longleftrightarrow>
     list_all name_char (hd (Split (CHR ''.'') (c # s))) \<and> list_all name_segment (tl (Split (CHR ''.'') (c # s)))"
    using Cons nd s by (auto simp: name_char_def[of c])
qed simp_all

text \<open>
  The account-name check accepts exactly the names of 3 to 16 characters whose dot-separated
  segments each start with a lower-case letter and continue with lower-case letters, digits or
  dashes; a segment may end in a dash and a dash may be followed by a digit.
\<close>

theorem account_names_are_dotted_segments:
  "ValidateSteemAccountName name = Inr () \<longleftrightarrow>
     3 \<le> length name \<and> length name \<le> 16 \<and> list_all name_segment (Split (CHR ''.'') name)"
  by (auto simp: ValidateSteemAccountName_def rbind_eq_Inr steemAccountNameRegex_def
      name_automaton_segments(1))

lemma gateway_name_valid: "ValidateSteemAccountName GatewayAccount = Inr ()"
  by (simp add: ValidateSteemAccountName_def steemAccountNameRegex_def GatewayAccount_def
      is_lower_def is_digit_def)

lemma validateSteemAnchor_iff:
  "validateSteemAnchor blk bid = Inr () \<longleftrightarrow>
     bid = '''' \<or> (blk \<noteq> 0 \<and> length bid = 40 \<and> list_all is_hex_lower bid \<and> ParseUint16 (take 8 bid) = unat blk)"
  by (auto simp: validateSteemAnchor_def rbind_eq_Inr)

lemma bridge_Validate_threshold:
  "bridge_Validate p = Inr () \<Longrightarrow>
   \<exists>t. BridgeConfirmationThreshold p = Some t \<and> 0 < t \<and> t \<le> dec_one"
  by (auto simp: bridge_Validate_def validateBridgeConfirmationThreshold_def rbind_eq_Inr
      split: option.splits)

lemma bridge_default_valid: "bridge_Validate bridge_DefaultParams = Inr ()"
  by (simp add: bridge_Validate_def bridge_DefaultParams_def validateGatewayAccount_def gateway_name_valid
      validateBridgeConfirmationThreshold_def validateNameRegistrationMinMillisteem_def
      validateSteemAnchor_def dec_one_def)

end
