(* ===== verification/Bridge_State.thy ===== *)
theory Bridge_State
  imports Bridge_Types
begin

text \<open>
  The state of the bridge keeper (\<open>x/oracle/bridge/keeper/keeper.go\<close> and the protobuf records it
  stores), and the operations every handler shares: the live power tally of a candidate
  (\<open>keeper/power.go\<close>), the status index of each table, the single mint path \<open>creditBridged\<close>
  (\<open>keeper/deposit.go\<close>) and the bridge-duty queue (\<open>keeper/oracle_report.go\<close>). The lemmas give the
  meaning of a tally ratio, the one-vote-per-validator argument, and the conservation law of the mint.
\<close>

section \<open>Records\<close>

record confirmation =
  c_ValidatorAddress :: string
  c_Timestamp :: int

datatype DepositStatus =
    DEPOSIT_STATUS_PENDING | DEPOSIT_STATUS_MINTED | DEPOSIT_STATUS_UNCLAIMABLE | DEPOSIT_STATUS_EXPIRED

datatype WithdrawalStatus =
    WITHDRAWAL_STATUS_REQUESTED | WITHDRAWAL_STATUS_PROCESSED | WITHDRAWAL_STATUS_REFUNDED

datatype NameRegistrationStatus =
    NAME_REGISTRATION_STATUS_PENDING | NAME_REGISTRATION_STATUS_AWAITING_CONFIRMATION
  | NAME_REGISTRATION_STATUS_ACTIVE | NAME_REGISTRATION_STATUS_UNCLAIMABLE
  | NAME_REGISTRATION_STATUS_EXPIRED | NAME_REGISTRATION_STATUS_SUPERSEDED

text \<open>The \<open>int32\<close> under which a status is indexed.\<close>

primrec dstat :: "DepositStatus \<Rightarrow> int" where
  "dstat DEPOSIT_STATUS_PENDING = 0"
| "dstat DEPOSIT_STATUS_MINTED = 1"
| "dstat DEPOSIT_STATUS_UNCLAIMABLE = 2"
| "dstat DEPOSIT_STATUS_EXPIRED = 3"

primrec wstat :: "WithdrawalStatus \<Rightarrow> int" where
  "wstat WITHDRAWAL_STATUS_REQUESTED = 0"
| "wstat WITHDRAWAL_STATUS_PROCESSED = 1"
| "wstat WITHDRAWAL_STATUS_REFUNDED = 2"

primrec nstat :: "NameRegistrationStatus \<Rightarrow> int" where
  "nstat NAME_REGISTRATION_STATUS_PENDING = 0"
| "nstat NAME_REGISTRATION_STATUS_AWAITING_CONFIRMATION = 1"
| "nstat NAME_REGISTRATION_STATUS_ACTIVE = 2"
| "nstat NAME_REGISTRATION_STATUS_UNCLAIMABLE = 3"
| "nstat NAME_REGISTRATION_STATUS_EXPIRED = 4"
| "nstat NAME_REGISTRATION_STATUS_SUPERSEDED = 5"

record deposit =
  d_Id :: u64
  d_Txid :: string
  d_OpIndex :: u32
  d_SteemBlock :: u64
  d_SteemTimestamp :: string
  d_SteemSender :: string
  d_GatewayAccount :: string
  d_AmountMillisteem :: u64
  d_Memo :: string
  d_DerivedDestination :: string
  d_DestinationType :: DestinationType
  d_Status :: DepositStatus
  d_Minted :: bool
  d_MintedAt :: u64
  d_MintTxHash :: string
  d_CreatedAt :: u64
  d_ValidatorConfirmations :: "confirmation list"
  d_Asset :: bridge_asset

record withdrawal =
  w_Id :: u64
  w_Sender :: string
  w_DestinationSteemAccount :: string
  w_AmountAsteem :: int
  w_AmountMillisteem :: u64
  w_Memo :: string
  w_BurnTxHash :: string
  w_Status :: WithdrawalStatus
  w_CreatedAt :: u64
  w_Asset :: bridge_asset
  w_FeeMillisteem :: u64
  w_SteemPayoutTxid :: string
  w_PayoutOpIndex :: u32
  w_ProcessedAt :: u64
  w_ValidatorConfirmations :: "confirmation list"
  w_RefundedAt :: u64

record name_registration =
  n_Id :: u64
  n_Txid :: string
  n_OpIndex :: u32
  n_SteemBlock :: u64
  n_SteemTimestamp :: string
  n_SteemAccount :: string
  n_GatewayAccount :: string
  n_AmountMillisteem :: u64
  n_Memo :: string
  n_DerivedDestination :: string
  n_DestinationType :: DestinationType
  n_Status :: NameRegistrationStatus
  n_CreatedAt :: u64
  n_AwaitingSince :: u64
  n_ConfirmedAt :: u64
  n_ConfirmTxHash :: string
  n_ValidatorConfirmations :: "confirmation list"

record name_record =
  nr_SteemAccount :: string
  nr_Address :: string
  nr_RegistrationId :: u64
  nr_LinkedAt :: u64

record bridge_totals =
  TotalMintedAsteem :: int
  TotalBurnedAsteem :: int
  TotalMintedAsbd :: int
  TotalBurnedAsbd :: int

record free_counter =
  fc_Height :: u64
  fc_Count :: u64

datatype bridge_event =
    BridgeParametersUpdated
  | DepositCreated u64 string u32 string
  | DepositConfirmationMismatch u64 deposit msg_attest_deposit
  | DepositConfirmed u64 string dec
  | DepositMinted u64 string int string
  | DepositUnclaimable u64
  | DepositExpired u64 string u32
  | NameRegistrationCreated u64 string string u32
  | NameRegistrationMismatch u64 name_registration msg_submit_name
  | NameRegistrationConfirmed u64 string dec
  | NameRegistrationAwaiting u64 string string DestinationType int
  | NameRegistrationUnclaimable u64 string
  | NameRegistrationExpired u64 string string u32
  | NameSuperseded string u64 string u64
  | NameLinked u64 string string
  | WithdrawalCreated u64 string int string
  | WithdrawalBurned u64 int string
  | WithdrawalConfirmed u64 string string dec
  | WithdrawalProcessed u64 string
  | WithdrawalPayoutAttestedAfterRefund u64 string string
  | WithdrawalPayoutAssetMismatch u64 string withdrawal msg_attest_payout
  | WithdrawalRefunded u64 string int

record 'b bridge_state =
  b_Params :: "bridge_params option"
  DepositSeq :: u64
  Deposit :: "(u64, deposit) kv"
  WithdrawalSeq :: u64
  Withdrawal :: "(u64, withdrawal) kv"
  DepositByTxid :: "(string \<times> u32, u64) kv"
  DepositConfirmedBy :: "(string \<times> u32 \<times> bytes) kset"
  DepositFactsVote :: "(string \<times> string \<times> bytes) kset"
  DepositByStatus :: "(int \<times> u64) kset"
  WithdrawalByStatus :: "(int \<times> u64) kset"
  WithdrawalConfirmedBy :: "(u64 \<times> bytes) kset"
  WithdrawalPayoutVote :: "(u64 \<times> string \<times> bytes) kset"
  Totals :: "bridge_totals option"
  FreeDepositCounter :: "(bytes, free_counter) kv"
  BridgeDutyQueue :: "(int \<times> u64) kset"
  NameRegistrationSeq :: u64
  NameRegistration :: "(u64, name_registration) kv"
  NameRegistrationByTxid :: "(string \<times> u32, u64) kv"
  NameRegistrationConfirmedBy :: "(string \<times> u32 \<times> bytes) kset"
  NameRegistrationFactsVote :: "(string \<times> string \<times> bytes) kset"
  NameRegistrationByStatus :: "(int \<times> u64) kset"
  NameRegistrationByAccount :: "(string \<times> u64) kset"
  NameRegistrationAwaitingByDest :: "(bytes \<times> u64) kset"
  ActiveName :: "(string, name_record) kv"
  ActiveNameByAddress :: "(bytes \<times> string) kset"
  FreeNameConfirmCounter :: "(bytes, free_counter) kv"
  b_events :: "bridge_event list"
  bank :: 'b

definition emit :: "bridge_event \<Rightarrow> 'b bridge_state \<Rightarrow> 'b bridge_state" where
  "emit e s = s\<lparr>b_events := b_events s @ [e]\<rparr>"

section \<open>Tallies\<close>

definition payoutCandidateKey :: "string \<Rightarrow> u32 \<Rightarrow> string" where
  "payoutCandidateKey txid opIndex = txid @ ''/'' @ pad10 (unat opIndex)"

definition dedupKeyString :: "string \<Rightarrow> u32 \<Rightarrow> string" where
  "dedupKeyString txid opIndex = txid @ ''/'' @ pad10 (unat opIndex)"

definition voters :: "('k \<times> 'c \<times> bytes) kset \<Rightarrow> 'k \<Rightarrow> 'c \<Rightarrow> bytes list" where
  "voters votes k c = map (\<lambda>v. snd (snd v)) (filter (\<lambda>v. fst v = k \<and> fst (snd v) = c) votes)"

fun confirmedPower :: "env \<Rightarrow> bytes list \<Rightarrow> int" where
  "confirmedPower E [] = 0"
| "confirmedPower E (a # as) =
     (case GetValidator E a of
        None \<Rightarrow> confirmedPower E as
      | Some confirmer \<Rightarrow> if \<not> v_bonded confirmer then confirmedPower E as
                          else v_tokens confirmer + confirmedPower E as)"

definition power_ratio :: "env \<Rightarrow> int \<Rightarrow> dec res" where
  "power_ratio E confirmed =
     rbind (from_option ErrKeeper (TotalValidatorPower E)) (\<lambda>totalBonded.
     Inr (if 0 < totalBonded
          then DecQuo E (LegacyNewDecFromInt confirmed) (LegacyNewDecFromInt totalBonded) else 0))"

definition factsCandidateRatio ::
    "env \<Rightarrow> (string \<times> string \<times> bytes) kset \<Rightarrow> string \<Rightarrow> string \<Rightarrow> dec res" where
  "factsCandidateRatio E votes dedupKey factsHash =
     power_ratio E (confirmedPower E (voters votes dedupKey factsHash))"

definition candidatePayoutRatio ::
    "env \<Rightarrow> 'b bridge_state \<Rightarrow> u64 \<Rightarrow> string \<Rightarrow> dec res" where
  "candidatePayoutRatio E s withdrawalID candidate =
     power_ratio E (confirmedPower E (voters (WithdrawalPayoutVote s) withdrawalID candidate))"

definition clearFactsVotes ::
    "string \<Rightarrow> (string \<times> string \<times> bytes) kset \<Rightarrow> (string \<times> string \<times> bytes) kset" where
  "clearFactsVotes dedupKey votes = fold ks_remove (filter (\<lambda>v. fst v = dedupKey) votes) votes"

definition clearDepositFactsVotes ::
    "string \<Rightarrow> u32 \<Rightarrow> 'b bridge_state \<Rightarrow> 'b bridge_state" where
  "clearDepositFactsVotes txid opIndex s =
     s\<lparr>DepositFactsVote := clearFactsVotes (dedupKeyString txid opIndex) (DepositFactsVote s)\<rparr>"

definition clearNameFactsVotes ::
    "string \<Rightarrow> u32 \<Rightarrow> 'b bridge_state \<Rightarrow> 'b bridge_state" where
  "clearNameFactsVotes txid opIndex s =
     s\<lparr>NameRegistrationFactsVote := clearFactsVotes (dedupKeyString txid opIndex) (NameRegistrationFactsVote s)\<rparr>"

section \<open>Shared operations\<close>

definition setDepositStatus ::
    "deposit \<Rightarrow> DepositStatus \<Rightarrow> 'b bridge_state \<Rightarrow> deposit \<times> 'b bridge_state" where
  "setDepositStatus d newStatus s =
     (d\<lparr>d_Status := newStatus\<rparr>,
      s\<lparr>DepositByStatus := ks_set (dstat newStatus, d_Id d)
           (ks_remove (dstat (d_Status d), d_Id d) (DepositByStatus s))\<rparr>)"

definition setNameRegistrationStatus ::
    "name_registration \<Rightarrow> NameRegistrationStatus \<Rightarrow> 'b bridge_state \<Rightarrow> name_registration \<times> 'b bridge_state" where
  "setNameRegistrationStatus r newStatus s =
     (r\<lparr>n_Status := newStatus\<rparr>,
      s\<lparr>NameRegistrationByStatus := ks_set (nstat newStatus, n_Id r)
           (ks_remove (nstat (n_Status r), n_Id r) (NameRegistrationByStatus s))\<rparr>)"

definition txHashHex :: "env \<Rightarrow> string" where
  "txHashHex E = EncodeToString (sha256 E (TxBytes E))"

definition add_minted :: "bridge_asset \<Rightarrow> int \<Rightarrow> bridge_totals \<Rightarrow> bridge_totals" where
  "add_minted asset amt t =
     (if asset = BRIDGE_ASSET_SBD then t\<lparr>TotalMintedAsbd := TotalMintedAsbd t + amt\<rparr>
      else t\<lparr>TotalMintedAsteem := TotalMintedAsteem t + amt\<rparr>)"

definition add_burned :: "bridge_asset \<Rightarrow> int \<Rightarrow> bridge_totals \<Rightarrow> bridge_totals" where
  "add_burned asset amt t =
     (if asset = BRIDGE_ASSET_SBD then t\<lparr>TotalBurnedAsbd := TotalBurnedAsbd t + amt\<rparr>
      else t\<lparr>TotalBurnedAsteem := TotalBurnedAsteem t + amt\<rparr>)"

definition send_if_positive :: "('b \<Rightarrow> 'b res) \<Rightarrow> int \<Rightarrow> 'b \<Rightarrow> 'b res" where
  "send_if_positive send amt b = (if 0 < amt then send b else Inr b)"

definition creditBridged ::
    "'b bank_ops \<Rightarrow> bytes \<Rightarrow> bridge_asset \<Rightarrow> u64 \<Rightarrow> u32 \<Rightarrow> 'b bridge_state \<Rightarrow> ('b bridge_state \<times> int) res" where
  "creditBridged bk destAddr asset grossMilli feeBps s =
     (let denom = DenomForAsset asset;
          netMilli = fst (ApplyBridgeFee grossMilli feeBps);
          feeMilli = snd (ApplyBridgeFee grossMilli feeBps);
          grossAmt = MillisteemToAsteem grossMilli;
          netAmt = MillisteemToAsteem netMilli;
          feeAmt = MillisteemToAsteem feeMilli
      in
      rbind (MintCoins bk BlackHoleModuleName (NewCoins1 denom grossAmt) (bank s)) (\<lambda>b1.
      rbind (send_if_positive
        (SendCoinsFromModuleToAccount bk BlackHoleModuleName destAddr (NewCoins1 denom netAmt)) netAmt b1) (\<lambda>b2.
      rbind (send_if_positive
        (SendCoinsFromModuleToModule bk BlackHoleModuleName BridgeRewardModuleName (NewCoins1 denom feeAmt))
        feeAmt b2) (\<lambda>b3.
      rbind (from_option ErrNotFound (Totals s)) (\<lambda>totals.
      Inr (s\<lparr>bank := b3, Totals := Some (add_minted asset grossAmt totals)\<rparr>, netAmt))))))"

definition bridgeDutyKindDeposit :: int where "bridgeDutyKindDeposit = 0"
definition bridgeDutyKindWithdrawal :: int where "bridgeDutyKindWithdrawal = 1"

definition enqueueBridgeDuty :: "int \<Rightarrow> u64 \<Rightarrow> 'b bridge_state \<Rightarrow> 'b bridge_state" where
  "enqueueBridgeDuty kind i s = s\<lparr>BridgeDutyQueue := ks_set (kind, i) (BridgeDutyQueue s)\<rparr>"

section \<open>What a tally means\<close>

lemma emit_simps [simp]:
  "b_Params (emit e s) = b_Params s" "DepositSeq (emit e s) = DepositSeq s" "Deposit (emit e s) = Deposit s"
  "WithdrawalSeq (emit e s) = WithdrawalSeq s" "Withdrawal (emit e s) = Withdrawal s"
  "DepositByTxid (emit e s) = DepositByTxid s" "DepositConfirmedBy (emit e s) = DepositConfirmedBy s"
  "DepositFactsVote (emit e s) = DepositFactsVote s" "DepositByStatus (emit e s) = DepositByStatus s"
  "WithdrawalByStatus (emit e s) = WithdrawalByStatus s" "WithdrawalConfirmedBy (emit e s) = WithdrawalConfirmedBy s"
  "WithdrawalPayoutVote (emit e s) = WithdrawalPayoutVote s" "Totals (emit e s) = Totals s"
  "FreeDepositCounter (emit e s) = FreeDepositCounter s" "BridgeDutyQueue (emit e s) = BridgeDutyQueue s"
  "NameRegistrationSeq (emit e s) = NameRegistrationSeq s" "NameRegistration (emit e s) = NameRegistration s"
  "NameRegistrationByTxid (emit e s) = NameRegistrationByTxid s"
  "NameRegistrationConfirmedBy (emit e s) = NameRegistrationConfirmedBy s"
  "NameRegistrationFactsVote (emit e s) = NameRegistrationFactsVote s"
  "NameRegistrationByStatus (emit e s) = NameRegistrationByStatus s"
  "NameRegistrationByAccount (emit e s) = NameRegistrationByAccount s"
  "NameRegistrationAwaitingByDest (emit e s) = NameRegistrationAwaitingByDest s"
  "ActiveName (emit e s) = ActiveName s" "ActiveNameByAddress (emit e s) = ActiveNameByAddress s"
  "FreeNameConfirmCounter (emit e s) = FreeNameConfirmCounter s" "bank (emit e s) = bank s"
  "b_events (emit e s) = b_events s @ [e]"
  by (simp_all add: emit_def)

lemma dstat_inject [simp]: "dstat a = dstat b \<longleftrightarrow> a = b"
  by (cases a; cases b) auto

lemma wstat_inject [simp]: "wstat a = wstat b \<longleftrightarrow> a = b"
  by (cases a; cases b) auto

lemma nstat_inject [simp]: "nstat a = nstat b \<longleftrightarrow> a = b"
  by (cases a; cases b) auto

lemma confirmedPower_sum: "confirmedPower E as = sum_list (map (live_tokens E) as)"
  by (induction as) (auto simp: live_tokens_def split: option.splits)

lemma set_voters [simp]: "set (voters votes k c) = {a. ks_has votes (k, c, a)}"
  by (force simp: voters_def ks_has_def)

lemma distinct_voters:
  assumes "ks_wf votes" shows "distinct (voters votes k c)"
proof -
  have "distinct votes" using assms by (simp add: ks_wf_def strict_sorted_iff)
  then show ?thesis by (auto simp: voters_def distinct_map inj_on_def)
qed

text \<open>The live bonded power behind a candidate does not depend on the order of its votes.\<close>

lemma confirmedPower_set:
  "distinct as \<Longrightarrow> confirmedPower E as = (\<Sum>a \<in> set as. live_tokens E a)"
  by (simp add: confirmedPower_sum sum_list_distinct_conv_sum_set)

definition attested_power :: "env \<Rightarrow> ('k \<times> 'c \<times> bytes) kset \<Rightarrow> 'k \<Rightarrow> 'c \<Rightarrow> int" where
  "attested_power E votes k c = confirmedPower E (voters votes k c)"

context dec_env
begin

text \<open>
  A candidate whose ratio reaches the threshold \<open>t\<close> (a decimal scaled by \<open>10 ^ 18\<close>) holds at least
  the fraction \<open>t\<close> of the total power, up to half a unit in the eighteenth decimal place.
\<close>

lemma ratio_reaches_threshold:
  assumes "power_ratio E P = Inr r" "TotalValidatorPower E = Some T" "t \<le> r" "0 < t"
  shows "0 < T \<and> (2 * t - 1) * T \<le> 2 * P * dec_one"
proof -
  have pos: "0 < T" using assms by (auto simp: power_ratio_def split: if_splits)
  with assms have "t \<le> DecQuo E (P * dec_one) (T * dec_one)"
    by (simp add: power_ratio_def LegacyNewDecFromInt_def)
  then have "(2 * t - 1) * (T * dec_one) \<le> 2 * (P * dec_one) * dec_one"
    using d.quo_ge[of "T * dec_one" t "P * dec_one"] pos by simp
  then have "((2 * t - 1) * T) * dec_one \<le> (2 * P * dec_one) * dec_one" by (simp only: ac_simps)
  then show ?thesis using pos by simp
qed

end

text \<open>
  Two candidates with disjoint voters cannot both hold more than half of the total power, so two
  fact-sets (or two payouts) never both reach a threshold above one half.
\<close>

lemma two_candidates_exceed:
  assumes "staking_ok E" "TotalValidatorPower E = Some T" "distinct as" "distinct bs" "set as \<inter> set bs = {}"
  shows "confirmedPower E as + confirmedPower E bs \<le> T"
proof -
  have "sum_list (map (live_tokens E) (as @ bs)) \<le> T"
    using assms unfolding staking_ok_def by (metis distinct_append option.inject)
  then show ?thesis by (simp add: confirmedPower_sum)
qed

lemma dedupKeyString_inject [simp]: "dedupKeyString t i = dedupKeyString u j \<longleftrightarrow> t = u \<and> i = j"
proof -
  have len: "length (pad10 (unat x)) = 10" for x :: u32
    using unsigned_less[where w = x and ?'a = nat] by (intro length_pad10) simp
  have "unat i = unat j \<longleftrightarrow> i = j" by (simp add: word_unat_eq_iff)
  then show ?thesis by (auto simp: dedupKeyString_def append_eq_append_conv len)
qed

lemma payoutCandidateKey_inject [simp]: "payoutCandidateKey t i = payoutCandidateKey u j \<longleftrightarrow> t = u \<and> i = j"
  using dedupKeyString_inject[of t i u j] by (simp add: payoutCandidateKey_def dedupKeyString_def)

lemma fold_ks_remove_has [simp]: "ks_has (fold ks_remove ks votes) v \<longleftrightarrow> v \<notin> set ks \<and> ks_has votes v"
  by (induction ks arbitrary: votes) auto

lemma fold_ks_remove_wf [simp]: "ks_wf votes \<Longrightarrow> ks_wf (fold ks_remove ks votes)"
  by (induction ks arbitrary: votes) auto

lemma clearFactsVotes_has [simp]: "ks_has (clearFactsVotes k votes) v \<longleftrightarrow> fst v \<noteq> k \<and> ks_has votes v"
proof -
  have "v \<in> set votes \<longleftrightarrow> ks_has votes v" by (simp add: ks_has_def)
  then show ?thesis unfolding clearFactsVotes_def fold_ks_remove_has by auto
qed

lemma clearFactsVotes_wf [simp]: "ks_wf votes \<Longrightarrow> ks_wf (clearFactsVotes k votes)"
  by (simp add: clearFactsVotes_def)

section \<open>The mint path\<close>

context bank_keeper
begin

lemma send_if_positive_moved:
  assumes "send_if_positive send amt b = Inr b'" "0 \<le> amt"
    and "\<And>b'. send b = Inr b' \<Longrightarrow>
      moved (bal b) (bal b') x y (NewCoins1 denom amt) \<and> supply_of b' = supply_of b"
  shows "moved (bal b) (bal b') x y (NewCoins1 denom amt) \<and> supply_of b' = supply_of b"
proof (cases "0 < amt")
  case False
  with assms(2) have "amt = 0" by simp
  with assms(1) show ?thesis by (simp add: send_if_positive_def moved_def)
qed (use assms in \<open>simp add: send_if_positive_def\<close>)

lemma creditBridged_effect:
  assumes "creditBridged bk dest asset gross bps s = Inr (s', net)"
  defines "fee \<equiv> MillisteemToAsteem (snd (ApplyBridgeFee gross bps))" and "denom \<equiv> DenomForAsset asset"
  shows "net + fee = MillisteemToAsteem gross \<and> 0 \<le> net \<and> 0 \<le> fee"
    and "bal (bank s') a d = bal (bank s) a d + (if d = denom then
           (if a = dest then net else 0) + (if a = maddr BridgeRewardModuleName then fee else 0) else 0)"
    and "supply_of (bank s') d = supply_of (bank s) d + (if d = denom then MillisteemToAsteem gross else 0)"
proof -
  let ?g = "MillisteemToAsteem gross" and ?n = "MillisteemToAsteem (fst (ApplyBridgeFee gross bps))"
  let ?hole = "maddr BlackHoleModuleName" and ?rew = "maddr BridgeRewardModuleName"
  obtain b1 b2 b3 where b: "MintCoins bk BlackHoleModuleName (NewCoins1 denom ?g) (bank s) = Inr b1"
    "send_if_positive (SendCoinsFromModuleToAccount bk BlackHoleModuleName dest (NewCoins1 denom ?n)) ?n b1 = Inr b2"
    "send_if_positive (SendCoinsFromModuleToModule bk BlackHoleModuleName BridgeRewardModuleName
        (NewCoins1 denom fee)) fee b2 = Inr b3" "bank s' = b3" "net = ?n"
    using assms(1) by (auto simp: creditBridged_def Let_def rbind_eq_Inr denom_def fee_def)
  show sum: "net + fee = ?g \<and> 0 \<le> net \<and> 0 \<le> fee"
    using fee_parts_asteem[of gross bps] by (simp add: b(5) fee_def)
  have m: "\<And>a d. bal b1 a d = bal (bank s) a d + (if a = ?hole then AmountOf (NewCoins1 denom ?g) d else 0)"
    "\<And>d. supply_of b1 d = supply_of (bank s) d + AmountOf (NewCoins1 denom ?g) d"
    using mint[OF b(1)] by auto
  have n: "moved (bal b1) (bal b2) ?hole dest (NewCoins1 denom ?n) \<and> supply_of b2 = supply_of b1"
    by (rule send_if_positive_moved[OF b(2)]) (simp_all add: mod_acc)
  have f: "moved (bal b2) (bal b3) ?hole ?rew (NewCoins1 denom fee) \<and> supply_of b3 = supply_of b2"
    by (rule send_if_positive_moved[OF b(3)]) (use sum in \<open>simp_all add: mod_mod\<close>)
  show "bal (bank s') a d = bal (bank s) a d + (if d = denom then
           (if a = dest then net else 0) + (if a = ?rew then fee else 0) else 0)"
    using n f sum by (auto simp: moved_def m(1) b(4,5))
  show "supply_of (bank s') d = supply_of (bank s) d + (if d = denom then ?g else 0)"
    using n f by (simp add: m(2) b(4))
qed

end

lemma creditBridged_frame:
  assumes "creditBridged bk dest asset gross bps s = Inr (s', net)"
  obtains t b where "Totals s = Some t"
    "s' = s\<lparr>bank := b, Totals := Some (add_minted asset (MillisteemToAsteem gross) t)\<rparr>"
    "net = MillisteemToAsteem (fst (ApplyBridgeFee gross bps))"
  using assms by (auto simp: creditBridged_def Let_def rbind_eq_Inr)

section \<open>Indexed tables\<close>

text \<open>
  \<open>table_ok\<close> relates the records, the (transaction, operation) index and the status index: an index
  entry leads to a live record of that key, every live record is the one its key leads to, and the
  status index lists exactly the records by their status. It is stated over the components, and once
  for all record types, so that deposits and name registrations share it.
\<close>

definition table_ok ::
    "('r \<Rightarrow> u64) \<Rightarrow> ('r \<Rightarrow> 'k) \<Rightarrow> ('r \<Rightarrow> int) \<Rightarrow> ('r \<Rightarrow> bool) \<Rightarrow> u64 \<Rightarrow> (u64, 'r) kv \<Rightarrow> ('k, u64) kv \<Rightarrow>
     (int \<times> u64) kset \<Rightarrow> bool" where
  "table_ok rid rkey rstat expired seq recs byKey byStatus \<longleftrightarrow>
     kv_wf recs \<and> ks_wf byStatus \<and>
     (\<forall>i r. kv_get recs i = Some r \<longrightarrow> rid r = i \<and> i < seq \<and>
        (\<not> expired r \<longrightarrow> kv_get byKey (rkey r) = Some i)) \<and>
     (\<forall>k i. kv_get byKey k = Some i \<longrightarrow> (\<exists>r. kv_get recs i = Some r \<and> rkey r = k \<and> \<not> expired r)) \<and>
     (\<forall>n i. ks_has byStatus (n, i) \<longleftrightarrow> (\<exists>r. kv_get recs i = Some r \<and> rstat r = n))"

lemma table_okI:
  assumes "kv_wf recs" "ks_wf byStatus"
    and "\<And>i r. kv_get recs i = Some r \<Longrightarrow> rid r = i" "\<And>i r. kv_get recs i = Some r \<Longrightarrow> i < seq"
    and "\<And>i r. kv_get recs i = Some r \<Longrightarrow> \<not> ex r \<Longrightarrow> kv_get byKey (rkey r) = Some i"
    and "\<And>k i. kv_get byKey k = Some i \<Longrightarrow> \<exists>r. kv_get recs i = Some r \<and> rkey r = k \<and> \<not> ex r"
    and "\<And>n i. ks_has byStatus (n, i) \<longleftrightarrow> (\<exists>r. kv_get recs i = Some r \<and> rstat r = n)"
  shows "table_ok rid rkey rstat ex seq recs byKey byStatus"
  using assms unfolding table_ok_def by blast

lemma table_ok_wf:
  "table_ok rid rkey rstat ex seq recs byKey byStatus \<Longrightarrow> kv_wf recs"
  "table_ok rid rkey rstat ex seq recs byKey byStatus \<Longrightarrow> ks_wf byStatus"
  unfolding table_ok_def by blast+

lemma table_ok_get:
  assumes "table_ok rid rkey rstat ex seq recs byKey byStatus" "kv_get recs i = Some r"
  shows "rid r = i" "i < seq" "\<not> ex r \<Longrightarrow> kv_get byKey (rkey r) = Some i"
  using assms unfolding table_ok_def by blast+

lemma table_ok_byKey:
  "table_ok rid rkey rstat ex seq recs byKey byStatus \<Longrightarrow> kv_get byKey k = Some i \<Longrightarrow>
   \<exists>r. kv_get recs i = Some r \<and> rkey r = k \<and> \<not> ex r"
  unfolding table_ok_def by blast

lemma table_ok_key:
  assumes "table_ok rid rkey rstat ex seq recs byKey byStatus" "kv_get byKey k = Some i" "kv_get recs i = Some r"
  shows "rkey r = k" "\<not> ex r"
  using table_ok_byKey[OF assms(1,2)] assms(3) by auto

lemma table_ok_status:
  "table_ok rid rkey rstat ex seq recs byKey byStatus \<Longrightarrow>
   ks_has byStatus (n, i) \<longleftrightarrow> (\<exists>r. kv_get recs i = Some r \<and> rstat r = n)"
  unfolding table_ok_def by blast

lemma unat_Suc64: "(x :: u64) + 1 \<noteq> 0 \<Longrightarrow> unat (x + 1) = unat x + 1"
proof -
  assume nz: "x + 1 \<noteq> 0"
  have eq: "unat (x + 1) = (unat x + 1) mod 2 ^ 64" by (simp add: unat_word_ariths)
  have lt: "unat x < 2 ^ 64" using unsigned_less[where w = x and ?'a = nat] by simp
  moreover have "unat x + 1 \<noteq> 2 ^ 64"
  proof
    assume "unat x + 1 = 2 ^ 64"
    with eq have "unat (x + 1) = 0" by simp
    with nz show False by (simp add: word_unat_eq_iff)
  qed
  ultimately have "unat x + 1 < 2 ^ 64" by linarith
  with eq show ?thesis by simp
qed

lemma table_ok_insert:
  assumes ok: "table_ok rid rkey rstat ex seq recs byKey byStatus" and "seq + 1 \<noteq> 0"
    and new: "kv_get byKey (rkey r) = None" "rid r = seq" "\<not> ex r"
  shows "table_ok rid rkey rstat ex (seq + 1) (kv_set seq r recs) (kv_set (rkey r) seq byKey)
           (ks_set (rstat r, seq) byStatus)"
proof -
  have up: "i < seq \<Longrightarrow> i < seq + 1" "seq < seq + 1" for i
    using unat_Suc64[OF assms(2)] by (simp_all add: word_less_nat_alt)
  have fresh: "kv_get recs seq = None"
    using table_ok_get(2)[OF ok, of seq] by (cases "kv_get recs seq") auto
  show ?thesis
  proof (rule table_okI)
    show "\<exists>q. kv_get (kv_set seq r recs) i = Some q \<and> rkey q = k \<and> \<not> ex q"
      if "kv_get (kv_set (rkey r) seq byKey) k = Some i" for k i
      using that new table_ok_byKey[OF ok, of k i] fresh by (cases "k = rkey r") auto
    show "ks_has (ks_set (rstat r, seq) byStatus) (n, i) \<longleftrightarrow>
        (\<exists>q. kv_get (kv_set seq r recs) i = Some q \<and> rstat q = n)" for n i
      using fresh by (cases "i = seq") (auto simp: table_ok_status[OF ok])
    show "kv_get (kv_set (rkey r) seq byKey) (rkey q) = Some i"
      if "kv_get (kv_set seq r recs) i = Some q" "\<not> ex q" for i q
      using that new table_ok_get(3)[OF ok, of i q] by (auto split: if_splits)
  qed (use new up table_ok_wf[OF ok] table_ok_get(1,2)[OF ok] in \<open>auto split: if_splits\<close>)
qed

text \<open>A record is rewritten in place, moving between two buckets of the status index.\<close>

lemma table_ok_update:
  assumes ok: "table_ok rid rkey rstat ex seq recs byKey byStatus" and old: "kv_get recs i = Some r"
    and new: "rid r' = i" "rkey r' = rkey r" "\<not> ex r" "\<not> ex r'"
  shows "table_ok rid rkey rstat ex seq (kv_set i r' recs) byKey
           (ks_set (rstat r', i) (ks_remove (rstat r, i) byStatus))"
proof (rule table_okI)
  show "\<exists>q. kv_get (kv_set i r' recs) j = Some q \<and> rkey q = k \<and> \<not> ex q" if "kv_get byKey k = Some j" for k j
    using table_ok_byKey[OF ok that] table_ok_key[OF ok that] old new by (cases "j = i") auto
  show "ks_has (ks_set (rstat r', i) (ks_remove (rstat r, i) byStatus)) (n, j) \<longleftrightarrow>
      (\<exists>q. kv_get (kv_set i r' recs) j = Some q \<and> rstat q = n)" for n j
    using old by (cases "j = i") (auto simp: table_ok_status[OF ok])
  show "kv_get byKey (rkey q) = Some j" if "kv_get (kv_set i r' recs) j = Some q" "\<not> ex q" for j q
    using that new table_ok_get(3)[OF ok, of j q] table_ok_get(3)[OF ok old] by (auto split: if_splits)
qed (use new table_ok_get(2)[OF ok old] table_ok_wf[OF ok] table_ok_get(1,2)[OF ok] in \<open>auto split: if_splits\<close>)

text \<open>A record expires: it moves to another bucket and its key is released.\<close>

lemma table_ok_expire:
  assumes ok: "table_ok rid rkey rstat ex seq recs byKey byStatus" and old: "kv_get recs i = Some r"
    and new: "rid r' = i" "rkey r' = rkey r" "\<not> ex r" "ex r'"
  shows "table_ok rid rkey rstat ex seq (kv_set i r' recs) (kv_remove (rkey r) byKey)
           (ks_set (rstat r', i) (ks_remove (rstat r, i) byStatus))"
proof (rule table_okI)
  have key: "kv_get byKey (rkey r) = Some i" using table_ok_get(3)[OF ok old] new(3) by blast
  show "\<exists>q. kv_get (kv_set i r' recs) j = Some q \<and> rkey q = k \<and> \<not> ex q"
    if "kv_get (kv_remove (rkey r) byKey) k = Some j" for k j
    using that table_ok_byKey[OF ok, of k j] table_ok_key(1)[OF ok, of k j] old
    by (cases "j = i") (auto split: if_splits)
  show "ks_has (ks_set (rstat r', i) (ks_remove (rstat r, i) byStatus)) (n, j) \<longleftrightarrow>
      (\<exists>q. kv_get (kv_set i r' recs) j = Some q \<and> rstat q = n)" for n j
    using old by (cases "j = i") (auto simp: table_ok_status[OF ok])
  show "kv_get (kv_remove (rkey r) byKey) (rkey q) = Some j"
    if "kv_get (kv_set i r' recs) j = Some q" "\<not> ex q" for j q
    using that new key table_ok_get(3)[OF ok, of j q] by (auto split: if_splits)
qed (use new table_ok_get(2)[OF ok old] table_ok_wf[OF ok] table_ok_get(1,2)[OF ok] in \<open>auto split: if_splits\<close>)

lemma table_ok_touch:
  assumes ok: "table_ok rid rkey rstat ex seq recs byKey byStatus" and old: "kv_get recs i = Some r"
    and new: "rid r' = i" "rkey r' = rkey r" "ex r' = ex r" "rstat r' = rstat r"
  shows "table_ok rid rkey rstat ex seq (kv_set i r' recs) byKey byStatus"
proof (rule table_okI)
  show "\<exists>q. kv_get (kv_set i r' recs) j = Some q \<and> rkey q = k \<and> \<not> ex q" if "kv_get byKey k = Some j" for k j
    using table_ok_byKey[OF ok that] table_ok_key[OF ok that] old new by (cases "j = i") auto
  show "ks_has byStatus (n, j) \<longleftrightarrow> (\<exists>q. kv_get (kv_set i r' recs) j = Some q \<and> rstat q = n)" for n j
    using old new by (cases "j = i") (auto simp: table_ok_status[OF ok])
  show "kv_get byKey (rkey q) = Some j" if "kv_get (kv_set i r' recs) j = Some q" "\<not> ex q" for j q
    using that new table_ok_get(3)[OF ok, of j q] table_ok_get(3)[OF ok old] by (auto split: if_splits)
qed (use new table_ok_get(2)[OF ok old] table_ok_wf[OF ok] table_ok_get(1,2)[OF ok] in \<open>auto split: if_splits\<close>)

text \<open>In such a table a key belongs to at most one live record.\<close>

lemma table_ok_unique:
  assumes "table_ok rid rkey rstat ex seq recs byKey byStatus"
    and "kv_get recs i = Some r" "kv_get recs j = Some q" "\<not> ex r" "\<not> ex q" "rkey r = rkey q"
  shows "i = j"
  using table_ok_get(3)[OF assms(1,2)] table_ok_get(3)[OF assms(1,3)] assms(4-6) by simp

section \<open>Votes\<close>

text \<open>
  Every recorded vote belongs to a recorded confirmation of its key, and no validator has two votes
  under one key.
\<close>

definition votes_ok :: "(string \<times> u32 \<times> bytes) kset \<Rightarrow> (string \<times> string \<times> bytes) kset \<Rightarrow> bool" where
  "votes_ok confirmed votes \<longleftrightarrow> ks_wf votes \<and>
     (\<forall>k h v. ks_has votes (k, h, v) \<longrightarrow> (\<exists>t j. k = dedupKeyString t j \<and> ks_has confirmed (t, j, v))) \<and>
     (\<forall>k h h' v. ks_has votes (k, h, v) \<longrightarrow> ks_has votes (k, h', v) \<longrightarrow> h = h')"

lemma votes_ok_record:
  assumes "votes_ok confirmed votes" "\<not> ks_has confirmed (t, j, v)"
  shows "votes_ok (ks_set (t, j, v) confirmed) (ks_set (dedupKeyString t j, h, v) votes)"
proof -
  have "\<not> ks_has votes (dedupKeyString t j, h', v)" for h'
    using assms unfolding votes_ok_def by (metis dedupKeyString_inject)
  with assms(1) show ?thesis unfolding votes_ok_def by auto metis+
qed

lemma votes_ok_clear:
  assumes "votes_ok confirmed votes" "\<And>t' j' v. (t', j') \<noteq> (t, j) \<Longrightarrow> ks_has confirmed (t', j', v) \<Longrightarrow> ks_has confirmed' (t', j', v)"
  shows "votes_ok confirmed' (clearFactsVotes (dedupKeyString t j) votes)"
  using assms unfolding votes_ok_def by (auto simp: clearFactsVotes_wf) metis+

lemma votes_disjoint:
  assumes "votes_ok confirmed votes" "h \<noteq> h'"
  shows "set (voters votes k h) \<inter> set (voters votes k h') = {}"
  using assms by (auto simp: votes_ok_def)

section \<open>Frames\<close>

text \<open>Which of the three tables an operation leaves untouched.\<close>

definition same_deposits :: "'b bridge_state \<Rightarrow> 'b bridge_state \<Rightarrow> bool" where
  "same_deposits s s' \<longleftrightarrow> DepositSeq s' = DepositSeq s \<and> Deposit s' = Deposit s \<and>
     DepositByTxid s' = DepositByTxid s \<and> DepositConfirmedBy s' = DepositConfirmedBy s \<and>
     DepositFactsVote s' = DepositFactsVote s \<and> DepositByStatus s' = DepositByStatus s"

definition same_withdrawals :: "'b bridge_state \<Rightarrow> 'b bridge_state \<Rightarrow> bool" where
  "same_withdrawals s s' \<longleftrightarrow> WithdrawalSeq s' = WithdrawalSeq s \<and> Withdrawal s' = Withdrawal s \<and>
     WithdrawalByStatus s' = WithdrawalByStatus s \<and> WithdrawalConfirmedBy s' = WithdrawalConfirmedBy s \<and>
     WithdrawalPayoutVote s' = WithdrawalPayoutVote s"

definition same_names :: "'b bridge_state \<Rightarrow> 'b bridge_state \<Rightarrow> bool" where
  "same_names s s' \<longleftrightarrow> NameRegistrationSeq s' = NameRegistrationSeq s \<and>
     NameRegistration s' = NameRegistration s \<and> NameRegistrationByTxid s' = NameRegistrationByTxid s \<and>
     NameRegistrationConfirmedBy s' = NameRegistrationConfirmedBy s \<and>
     NameRegistrationFactsVote s' = NameRegistrationFactsVote s \<and>
     NameRegistrationByStatus s' = NameRegistrationByStatus s \<and>
     NameRegistrationByAccount s' = NameRegistrationByAccount s \<and>
     NameRegistrationAwaitingByDest s' = NameRegistrationAwaitingByDest s \<and>
     ActiveName s' = ActiveName s \<and> ActiveNameByAddress s' = ActiveNameByAddress s"

lemmas same_defs = same_deposits_def same_withdrawals_def same_names_def

lemma same_refl [simp]: "same_deposits s s" "same_withdrawals s s" "same_names s s"
  by (simp_all add: same_defs)

lemma same_trans:
  "same_deposits s t \<Longrightarrow> same_deposits t u \<Longrightarrow> same_deposits s u"
  "same_withdrawals s t \<Longrightarrow> same_withdrawals t u \<Longrightarrow> same_withdrawals s u"
  "same_names s t \<Longrightarrow> same_names t u \<Longrightarrow> same_names s u"
  by (simp_all add: same_defs)

section \<open>The initial state\<close>

text \<open>The state a genesis with no records leaves behind, over a given ledger.\<close>

definition zero_totals :: bridge_totals where
  "zero_totals = \<lparr>TotalMintedAsteem = 0, TotalBurnedAsteem = 0, TotalMintedAsbd = 0, TotalBurnedAsbd = 0\<rparr>"

definition start_bridge :: "bridge_params \<Rightarrow> 'b \<Rightarrow> 'b bridge_state" where
  "start_bridge p b =
     \<lparr>b_Params = Some p, DepositSeq = 0, Deposit = [], WithdrawalSeq = 0, Withdrawal = [], DepositByTxid = [],
      DepositConfirmedBy = [], DepositFactsVote = [], DepositByStatus = [], WithdrawalByStatus = [],
      WithdrawalConfirmedBy = [], WithdrawalPayoutVote = [], Totals = Some zero_totals, FreeDepositCounter = [],
      BridgeDutyQueue = [], NameRegistrationSeq = 0, NameRegistration = [], NameRegistrationByTxid = [],
      NameRegistrationConfirmedBy = [], NameRegistrationFactsVote = [], NameRegistrationByStatus = [],
      NameRegistrationByAccount = [], NameRegistrationAwaitingByDest = [], ActiveName = [],
      ActiveNameByAddress = [], FreeNameConfirmCounter = [], b_events = [], bank = b\<rparr>"

lemma start_bridge_simps [simp]:
  "b_Params (start_bridge p b) = Some p" "DepositSeq (start_bridge p b) = 0" "Deposit (start_bridge p b) = []"
  "WithdrawalSeq (start_bridge p b) = 0" "Withdrawal (start_bridge p b) = []" "DepositByTxid (start_bridge p b) = []"
  "DepositConfirmedBy (start_bridge p b) = []" "DepositFactsVote (start_bridge p b) = []"
  "DepositByStatus (start_bridge p b) = []" "WithdrawalByStatus (start_bridge p b) = []"
  "WithdrawalConfirmedBy (start_bridge p b) = []" "WithdrawalPayoutVote (start_bridge p b) = []"
  "Totals (start_bridge p b) = Some zero_totals" "BridgeDutyQueue (start_bridge p b) = []"
  "NameRegistrationSeq (start_bridge p b) = 0" "NameRegistration (start_bridge p b) = []"
  "NameRegistrationByTxid (start_bridge p b) = []" "NameRegistrationConfirmedBy (start_bridge p b) = []"
  "NameRegistrationFactsVote (start_bridge p b) = []" "NameRegistrationByStatus (start_bridge p b) = []"
  "NameRegistrationByAccount (start_bridge p b) = []" "NameRegistrationAwaitingByDest (start_bridge p b) = []"
  "ActiveName (start_bridge p b) = []" "ActiveNameByAddress (start_bridge p b) = []" "bank (start_bridge p b) = b"
  "FreeDepositCounter (start_bridge p b) = []" "FreeNameConfirmCounter (start_bridge p b) = []"
  by (simp_all add: start_bridge_def)

text \<open>Parameters with every service switched on, for the concrete runs.\<close>

definition demo_params :: bridge_params where
  "demo_params = bridge_DefaultParams\<lparr>BridgeEnabled := True, BridgeOutEnabled := True, NameServiceEnabled := True\<rparr>"

definition demo_bridge_env :: env where
  "demo_bridge_env = plain_env [(''v1'', 3), (''v2'', 1)] 10"

lemma start_tables_ok [simp]:
  "table_ok rid rkey rstat ex seq [] [] []" "votes_ok confirmed []"
  by (simp_all add: table_ok_def votes_ok_def)

lemma demo_bridge_dec_env: "dec_env demo_bridge_env"
  unfolding demo_bridge_env_def by (rule plain.dec_env_axioms)

lemma demo_bridge_staking_ok: "staking_ok demo_bridge_env"
proof -
  have live: "live_tokens demo_bridge_env a = (if a = ''v1'' then 3 else if a = ''v2'' then 1 else 0)" for a
    by (simp add: live_tokens_def demo_bridge_env_def plain_env_def plain_validator_def)
  have "sum_list (map (live_tokens demo_bridge_env) as) \<le> 4" if "distinct as" for as
  proof -
    have "sum_list (map (live_tokens demo_bridge_env) as) = (\<Sum>a\<in>set as. live_tokens demo_bridge_env a)"
      using that by (simp add: sum_list_distinct_conv_sum_set)
    also have "\<dots> = (\<Sum>a\<in>set as \<inter> {''v1'', ''v2''}. live_tokens demo_bridge_env a)"
      by (rule sum.mono_neutral_right) (auto simp: live)
    also have "\<dots> \<le> (\<Sum>a\<in>{''v1'', ''v2''}. live_tokens demo_bridge_env a)"
      by (rule sum_mono2) (auto simp: live)
    finally show ?thesis by (simp add: live)
  qed
  then show ?thesis by (simp add: staking_ok_def live) (simp add: demo_bridge_env_def plain_env_def)
qed

end
