(* ===== verification/Test_Bank.thy ===== *)
theory Test_Bank
  imports Svm_Env
begin

text \<open>
  An executable bank: the in-memory ledger the repository's keeper tests run the modules against
  (\<open>fakeBankKeeper\<close> in \<open>x/oracle/bridge/keeper/fakes_test.go\<close>), with the total supply kept beside
  the balances. It interprets the \<open>bank_keeper\<close> contract, so the theorems stated over any bank that
  keeps the contract can be evaluated on concrete runs.
\<close>

record ledger =
  l_bal :: "(bytes \<times> string, int) kv"
  l_supply :: "(string, int) kv"

definition kv_amount :: "('k, int) kv \<Rightarrow> 'k \<Rightarrow> int" where
  "kv_amount m k = (case kv_get m k of None \<Rightarrow> 0 | Some x \<Rightarrow> x)"

definition kv_add :: "'k::linorder \<Rightarrow> int \<Rightarrow> ('k, int) kv \<Rightarrow> ('k, int) kv" where
  "kv_add k x m = kv_set k (kv_amount m k + x) m"

definition l_balance :: "ledger \<Rightarrow> bytes \<Rightarrow> string \<Rightarrow> int" where
  "l_balance b a d = kv_amount (l_bal b) (a, d)"

definition l_total :: "ledger \<Rightarrow> string \<Rightarrow> int" where
  "l_total b d = kv_amount (l_supply b) d"

fun l_credit :: "bytes \<Rightarrow> coins \<Rightarrow> ledger \<Rightarrow> ledger" where
  "l_credit a [] b = b"
| "l_credit a ((d, x) # cs) b = l_credit a cs (b\<lparr>l_bal := kv_add (a, d) x (l_bal b)\<rparr>)"

fun l_issue :: "coins \<Rightarrow> ledger \<Rightarrow> ledger" where
  "l_issue [] b = b"
| "l_issue ((d, x) # cs) b = l_issue cs (b\<lparr>l_supply := kv_add d x (l_supply b)\<rparr>)"

definition neg_coins :: "coins \<Rightarrow> coins" where
  "neg_coins cs = map (\<lambda>(d, x). (d, - x)) cs"

text \<open>\<open>SafeSub\<close>: the debit fails when a balance would become negative.\<close>

definition l_debit :: "bytes \<Rightarrow> coins \<Rightarrow> ledger \<Rightarrow> ledger res" where
  "l_debit a cs b =
     (if list_all (\<lambda>(d, _). AmountOf cs d \<le> l_balance b a d) cs then Inr (l_credit a (neg_coins cs) b)
      else Inl ErrKeeper)"

definition module_key :: "string \<Rightarrow> bytes" where
  "module_key m = CHR ''@'' # m"

definition pool_key :: bytes where
  "pool_key = module_key ''distribution''"

definition l_send :: "bytes \<Rightarrow> bytes \<Rightarrow> coins \<Rightarrow> ledger \<Rightarrow> ledger res" where
  "l_send x y cs b = rbind (l_debit x cs b) (\<lambda>b. Inr (l_credit y cs b))"

definition fakeBank :: "ledger bank_ops" where
  "fakeBank =
     \<lparr>MintCoins = (\<lambda>m cs b. Inr (l_issue cs (l_credit (module_key m) cs b))),
      BurnCoins = (\<lambda>m cs b. rbind (l_debit (module_key m) cs b) (\<lambda>b. Inr (l_issue (neg_coins cs) b))),
      SendCoinsFromAccountToModule = (\<lambda>a m. l_send a (module_key m)),
      SendCoinsFromModuleToAccount = (\<lambda>m a. l_send (module_key m) a),
      SendCoinsFromModuleToModule = (\<lambda>m n. l_send (module_key m) (module_key n)),
      GetAllBalances = (\<lambda>a b. filter (\<lambda>c. snd c \<noteq> 0)
         (map (\<lambda>d. (d, l_balance b a d)) (remdups (map (\<lambda>e. snd (fst e)) (l_bal b))))),
      FundCommunityPool = (\<lambda>cs a. l_send a pool_key cs)\<rparr>"

lemma AmountOf_Cons [simp]: "AmountOf ((d, x) # cs) d' = (if d' = d then x else 0) + AmountOf cs d'"
  by (simp add: AmountOf_def)

lemma AmountOf_neg [simp]: "AmountOf (neg_coins cs) d = - AmountOf cs d"
  by (induction cs) (auto simp: neg_coins_def)

lemma l_credit_bal [simp]:
  "l_balance (l_credit a cs b) a' d = l_balance b a' d + (if a' = a then AmountOf cs d else 0)"
  by (induction a cs b rule: l_credit.induct) (auto simp: l_balance_def kv_add_def kv_amount_def)

lemma l_credit_supply [simp]: "l_total (l_credit a cs b) = l_total b"
  by (induction a cs b rule: l_credit.induct) (auto simp: l_total_def fun_eq_iff)

lemma l_issue_bal [simp]: "l_balance (l_issue cs b) = l_balance b"
  by (induction cs b rule: l_issue.induct) (auto simp: l_balance_def fun_eq_iff)

lemma l_issue_supply [simp]: "l_total (l_issue cs b) d = l_total b d + AmountOf cs d"
  by (induction cs b rule: l_issue.induct) (auto simp: l_total_def kv_add_def kv_amount_def)

lemma l_debit_Inr: "l_debit a cs b = Inr b' \<Longrightarrow> b' = l_credit a (neg_coins cs) b"
  by (auto simp: l_debit_def split: if_splits)

lemma l_send_moved: "l_send x y cs b = Inr b' \<Longrightarrow> moved (l_balance b) (l_balance b') x y cs \<and> l_total b' = l_total b"
  by (auto simp: l_send_def rbind_eq_Inr moved_def dest!: l_debit_Inr)

lemma AmountOf_listed:
  "distinct ds \<Longrightarrow> AmountOf (filter (\<lambda>c. snd c \<noteq> 0) (map (\<lambda>d. (d, f d)) ds)) d = (if d \<in> set ds then f d else 0)"
  by (induction ds) (auto simp: AmountOf_def)

lemma l_balance_listed: "d \<notin> set (map (\<lambda>e. snd (fst e)) (l_bal b)) \<Longrightarrow> l_balance b a d = 0"
  by (force simp: l_balance_def kv_amount_def split: option.splits dest: kv_get_in_set)

interpretation fake: bank_keeper fakeBank module_key pool_key l_balance l_total
proof
  fix m cs b b'
  show "MintCoins fakeBank m cs b = Inr b' \<Longrightarrow>
      (\<forall>a d. l_balance b' a d = l_balance b a d + (if a = module_key m then AmountOf cs d else 0)) \<and>
      (\<forall>d. l_total b' d = l_total b d + AmountOf cs d)"
    by (auto simp: fakeBank_def)
  show "BurnCoins fakeBank m cs b = Inr b' \<Longrightarrow>
      (\<forall>a d. l_balance b' a d = l_balance b a d - (if a = module_key m then AmountOf cs d else 0)) \<and>
      (\<forall>d. l_total b' d = l_total b d - AmountOf cs d)"
    by (auto simp: fakeBank_def rbind_eq_Inr dest!: l_debit_Inr)
next
  fix a b d
  show "AmountOf (GetAllBalances fakeBank a b) d = l_balance b a d"
    using l_balance_listed[of d b a] by (auto simp: fakeBank_def AmountOf_listed)
  show "distinct (map fst (GetAllBalances fakeBank a b))"
    by (auto simp: fakeBank_def distinct_map distinct_filter inj_on_def)
qed (auto simp: fakeBank_def dest: l_send_moved)

end
