(* ===== verification/Bridge_Deposit.thy ===== *)
theory Bridge_Deposit
  imports Bridge_State Test_Bank
begin

text \<open>
  Bridging in: attestation of a Steem deposit by a bonded validator, the tally per fact-set, and the
  resolution that mints or marks the deposit unclaimable (\<open>keeper/deposit.go\<close>,
  \<open>keeper/msg_server_submit_steem_deposit.go\<close>). The lemmas characterise every outcome of
  \<open>AttestDeposit\<close>: when it mints, to whom and how much, that it never resolves a deposit twice, and
  that it agrees with the read-only acceptance check of the ante handler.
\<close>

section \<open>Operations\<close>

definition lookupDepositByTxid ::
    "string \<Rightarrow> u32 \<Rightarrow> 'b bridge_state \<Rightarrow> deposit option res" where
  "lookupDepositByTxid txid opIndex s =
     (case kv_get (DepositByTxid s) (txid, opIndex) of
        None \<Rightarrow> Inr None
      | Some i \<Rightarrow> rbind (from_option ErrNotFound (kv_get (Deposit s) i)) (\<lambda>d. Inr (Some d)))"

definition matchesPending :: "deposit \<Rightarrow> msg_attest_deposit \<Rightarrow> bool" where
  "matchesPending existing msg \<longleftrightarrow>
     d_SteemBlock existing = ad_SteemBlock msg \<and>
     d_SteemTimestamp existing = ad_SteemTimestamp msg \<and>
     d_SteemSender existing = ad_SteemSender msg \<and>
     d_GatewayAccount existing = ad_GatewayAccount msg \<and>
     d_AmountMillisteem existing = ad_AmountMillisteem msg \<and>
     d_Memo existing = ad_Memo msg \<and>
     d_Asset existing = ad_Asset msg"

definition ValidateDepositAcceptance :: "env \<Rightarrow> msg_attest_deposit \<Rightarrow> 'b bridge_state \<Rightarrow> unit res" where
  "ValidateDepositAcceptance E msg s =
     rbind (from_option ErrNotFound (b_Params s)) (\<lambda>params.
     rbind (guard_err (BridgeEnabled params) ErrBridgeDisabled) (\<lambda>_.
     rbind (guard_err (ad_GatewayAccount msg = GatewayAccount) ErrInvalidGatewayAccount) (\<lambda>_.
     rbind (CheckSteemBlock params (ad_SteemBlock msg)) (\<lambda>_.
     rbind (from_option ErrInvalidAddress (StringToBytes E (ad_Validator msg))) (\<lambda>validatorAddr.
     rbind (guard_err (\<not> ks_has (DepositConfirmedBy s) (ad_Txid msg, ad_OpIndex msg, validatorAddr))
              ErrDuplicateConfirmation) (\<lambda>_.
     rbind (lookupDepositByTxid (ad_Txid msg) (ad_OpIndex msg) s) (\<lambda>found.
     case found of
       None \<Rightarrow> Inr ()
     | Some existing \<Rightarrow>
         guard_err (d_Status existing \<notin> {DEPOSIT_STATUS_MINTED, DEPOSIT_STATUS_UNCLAIMABLE})
           ErrDepositAlreadyMinted)))))))"

definition withinRange :: "bridge_params \<Rightarrow> u64 \<Rightarrow> bool" where
  "withinRange params amt \<longleftrightarrow>
     \<not> (MinimumBridgeAmount params \<noteq> 0 \<and> amt < MinimumBridgeAmount params) \<and>
     \<not> (MaximumBridgeAmount params \<noteq> 0 \<and> amt > MaximumBridgeAmount params)"

definition resolveDeposit ::
    "env \<Rightarrow> 'b bank_ops \<Rightarrow> bridge_params \<Rightarrow> deposit \<Rightarrow> 'b bridge_state \<Rightarrow> (deposit \<times> 'b bridge_state) res" where
  "resolveDeposit E bk params d s =
     (let unclaimable = (\<lambda>destType.
        let (d', s') = setDepositStatus (d\<lparr>d_DestinationType := destType\<rparr>) DEPOSIT_STATUS_UNCLAIMABLE s
        in Inr (d', emit (DepositUnclaimable (d_Id d)) s'))
      in case DeriveDestination E (d_Memo d) of
        None \<Rightarrow> unclaimable DESTINATION_TYPE_NONE
      | Some (destAddr, destType) \<Rightarrow>
          if \<not> withinRange params (d_AmountMillisteem d) then unclaimable destType
          else
            rbind (creditBridged bk destAddr (d_Asset d) (d_AmountMillisteem d) (BridgeFeeBps params) s)
              (\<lambda>(s1, mintAmount).
            rbind (from_option ErrInvalidAddress (BytesToString E destAddr)) (\<lambda>destAddrStr.
            let d1 = d\<lparr>d_DerivedDestination := destAddrStr, d_DestinationType := destType, d_Minted := True,
                      d_MintedAt := BlockHeight E, d_MintTxHash := txHashHex E\<rparr>;
                (d2, s2) = setDepositStatus d1 DEPOSIT_STATUS_MINTED s1
            in Inr (d2, emit (DepositMinted (d_Id d) destAddrStr mintAmount (DenomForAsset (d_Asset d))) s2))))"

text \<open>The record and the indexes of a key seen for the first time.\<close>

definition newDeposit :: "env \<Rightarrow> msg_attest_deposit \<Rightarrow> 'b bridge_state \<Rightarrow> deposit \<times> 'b bridge_state" where
  "newDeposit E msg s =
     (let depositID = DepositSeq s;
          d = \<lparr>d_Id = depositID, d_Txid = ad_Txid msg, d_OpIndex = ad_OpIndex msg,
               d_SteemBlock = ad_SteemBlock msg, d_SteemTimestamp = ad_SteemTimestamp msg,
               d_SteemSender = ad_SteemSender msg, d_GatewayAccount = ad_GatewayAccount msg,
               d_AmountMillisteem = ad_AmountMillisteem msg, d_Memo = ad_Memo msg,
               d_DerivedDestination = '''', d_DestinationType = DESTINATION_TYPE_NONE,
               d_Status = DEPOSIT_STATUS_PENDING, d_Minted = False, d_MintedAt = 0, d_MintTxHash = '''',
               d_CreatedAt = BlockHeight E, d_ValidatorConfirmations = [], d_Asset = ad_Asset msg\<rparr>
      in (d, emit (DepositCreated depositID (ad_Txid msg) (ad_OpIndex msg) (DenomForAsset (ad_Asset msg)))
              (s\<lparr>DepositSeq := DepositSeq s + 1,
                 DepositByTxid := kv_set (ad_Txid msg, ad_OpIndex msg) depositID (DepositByTxid s),
                 DepositByStatus := ks_set (dstat DEPOSIT_STATUS_PENDING, depositID) (DepositByStatus s)\<rparr>)))"

definition openDeposit ::
    "env \<Rightarrow> msg_attest_deposit \<Rightarrow> 'b bridge_state \<Rightarrow> (deposit \<times> u64 \<times> 'b bridge_state) res" where
  "openDeposit E msg s =
     (case kv_get (DepositByTxid s) (ad_Txid msg, ad_OpIndex msg) of
        None \<Rightarrow> (case newDeposit E msg s of (d, s') \<Rightarrow> Inr (d, DepositSeq s, s'))
      | Some depositID \<Rightarrow>
          rbind (from_option ErrNotFound (kv_get (Deposit s) depositID)) (\<lambda>d.
          Inr (d, depositID,
            if matchesPending d msg then s else emit (DepositConfirmationMismatch depositID d msg) s)))"

definition adoptFacts :: "msg_attest_deposit \<Rightarrow> deposit \<Rightarrow> deposit" where
  "adoptFacts msg d =
     d\<lparr>d_SteemBlock := ad_SteemBlock msg, d_SteemTimestamp := ad_SteemTimestamp msg,
       d_SteemSender := ad_SteemSender msg, d_GatewayAccount := ad_GatewayAccount msg,
       d_AmountMillisteem := ad_AmountMillisteem msg, d_Memo := ad_Memo msg, d_Asset := ad_Asset msg\<rparr>"

definition msgFactsHash :: "env \<Rightarrow> msg_attest_deposit \<Rightarrow> string" where
  "msgFactsHash E msg = DepositFactsHash E (ad_SteemBlock msg) (ad_SteemTimestamp msg) (ad_SteemSender msg)
     (ad_GatewayAccount msg) (ad_AmountMillisteem msg) (ad_Memo msg) (ad_Asset msg)"

text \<open>What an accepted attestation records before the tally: the confirmation key and the vote.\<close>

definition recordDepositVote :: "env \<Rightarrow> msg_attest_deposit \<Rightarrow> bytes \<Rightarrow> 'b bridge_state \<Rightarrow> 'b bridge_state" where
  "recordDepositVote E msg validatorAddr s =
     s\<lparr>DepositConfirmedBy := ks_set (ad_Txid msg, ad_OpIndex msg, validatorAddr) (DepositConfirmedBy s),
       DepositFactsVote := ks_set (dedupKeyString (ad_Txid msg) (ad_OpIndex msg), msgFactsHash E msg, validatorAddr)
         (DepositFactsVote s)\<rparr>"

definition addConfirmation :: "env \<Rightarrow> bytes \<Rightarrow> deposit \<Rightarrow> deposit" where
  "addConfirmation E validatorAddr d =
     d\<lparr>d_ValidatorConfirmations := d_ValidatorConfirmations d @
        [\<lparr>c_ValidatorAddress = ValAddressString E validatorAddr, c_Timestamp = BlockTime E\<rparr>]\<rparr>"

text \<open>The resolution step: only a pending deposit whose candidate reached the threshold is resolved.\<close>

definition resolveIfReached ::
    "env \<Rightarrow> 'b bank_ops \<Rightarrow> bridge_params \<Rightarrow> msg_attest_deposit \<Rightarrow> dec \<Rightarrow> deposit \<Rightarrow> 'b bridge_state \<Rightarrow>
     (deposit \<times> 'b bridge_state) res" where
  "resolveIfReached E bk params msg ratio d s =
     (if d_Status d = DEPOSIT_STATUS_PENDING
      then rbind (dec_val (BridgeConfirmationThreshold params)) (\<lambda>threshold.
           if threshold \<le> ratio
           then rbind (resolveDeposit E bk params (adoptFacts msg d) s) (\<lambda>ds.
                Inr (fst ds, enqueueBridgeDuty bridgeDutyKindDeposit (d_Id (fst ds)) (snd ds)))
           else Inr (d, s))
      else Inr (d, s))"

definition attestOpened ::
    "env \<Rightarrow> 'b bank_ops \<Rightarrow> bridge_params \<Rightarrow> msg_attest_deposit \<Rightarrow> bytes \<Rightarrow> deposit \<Rightarrow> u64 \<Rightarrow>
     'b bridge_state \<Rightarrow> 'b bridge_state res" where
  "attestOpened E bk params msg validatorAddr d depositID s1 =
     (let s2 = recordDepositVote E msg validatorAddr s1 in
      rbind (factsCandidateRatio E (DepositFactsVote s2)
               (dedupKeyString (ad_Txid msg) (ad_OpIndex msg)) (msgFactsHash E msg)) (\<lambda>ratio.
      rbind (resolveIfReached E bk params msg ratio (addConfirmation E validatorAddr d)
               (emit (DepositConfirmed depositID (ValAddressString E validatorAddr) ratio) s2)) (\<lambda>ds.
      Inr ((snd ds)\<lparr>Deposit := kv_set depositID (fst ds) (Deposit (snd ds))\<rparr>))))"

definition AttestDeposit ::
    "env \<Rightarrow> 'b bank_ops \<Rightarrow> msg_attest_deposit \<Rightarrow> 'b bridge_state \<Rightarrow> 'b bridge_state res" where
  "AttestDeposit E bk msg s =
     rbind (from_option ErrNotFound (b_Params s)) (\<lambda>params.
     rbind (guard_err (BridgeEnabled params) ErrBridgeDisabled) (\<lambda>_.
     rbind (guard_err (ad_GatewayAccount msg = GatewayAccount) ErrInvalidGatewayAccount) (\<lambda>_.
     rbind (CheckSteemBlock params (ad_SteemBlock msg)) (\<lambda>_.
     rbind (from_option ErrInvalidAddress (StringToBytes E (ad_Validator msg))) (\<lambda>validatorAddr.
     rbind (guard_err (is_bonded E validatorAddr) ErrNotBondedValidator) (\<lambda>_.
     if ks_has (DepositConfirmedBy s) (ad_Txid msg, ad_OpIndex msg, validatorAddr) then Inr s
     else rbind (openDeposit E msg s) (\<lambda>(d, depositID, s1).
          attestOpened E bk params msg validatorAddr d depositID s1)))))))"

section \<open>Outcomes of an attestation\<close>

text \<open>What a resolution does to the record and to the rest of the state.\<close>

lemma resolveDeposit_frame:
  assumes "resolveDeposit E bk p d s = Inr (d', s')"
  obtains st b t ev where "st = DEPOSIT_STATUS_MINTED \<or> st = DEPOSIT_STATUS_UNCLAIMABLE"
    "d_Status d' = st" "d_Id d' = d_Id d" "d_Txid d' = d_Txid d" "d_OpIndex d' = d_OpIndex d"
    "d_ValidatorConfirmations d' = d_ValidatorConfirmations d" "d_CreatedAt d' = d_CreatedAt d"
    "matchesPending d' msg = matchesPending d msg"
    "s' = s\<lparr>bank := b, Totals := t, DepositByStatus := ks_set (dstat st, d_Id d)
       (ks_remove (dstat (d_Status d), d_Id d) (DepositByStatus s)), b_events := ev\<rparr>"
proof -
  consider (unclaimable) ty where
      "d' = d\<lparr>d_DestinationType := ty, d_Status := DEPOSIT_STATUS_UNCLAIMABLE\<rparr>"
      "s' = emit (DepositUnclaimable (d_Id d)) (s\<lparr>DepositByStatus := ks_set (dstat DEPOSIT_STATUS_UNCLAIMABLE, d_Id d)
         (ks_remove (dstat (d_Status d), d_Id d) (DepositByStatus s))\<rparr>)"
    | (minted) dest ty s1 amt str where
      "creditBridged bk dest (d_Asset d) (d_AmountMillisteem d) (BridgeFeeBps p) s = Inr (s1, amt)"
      "d' = d\<lparr>d_DerivedDestination := str, d_DestinationType := ty, d_Minted := True, d_MintedAt := BlockHeight E,
              d_MintTxHash := txHashHex E, d_Status := DEPOSIT_STATUS_MINTED\<rparr>"
      "s' = emit (DepositMinted (d_Id d) str amt (DenomForAsset (d_Asset d)))
         (s1\<lparr>DepositByStatus := ks_set (dstat DEPOSIT_STATUS_MINTED, d_Id d)
            (ks_remove (dstat (d_Status d), d_Id d) (DepositByStatus s1))\<rparr>)"
    using assms
    by (auto simp: resolveDeposit_def setDepositStatus_def Let_def rbind_eq_Inr split: option.splits if_splits)
  then show ?thesis
  proof cases
    case unclaimable
    then show ?thesis
      by (intro that[where st = DEPOSIT_STATUS_UNCLAIMABLE and b = "bank s" and t = "Totals s"
            and ev = "b_events s @ [DepositUnclaimable (d_Id d)]"])
        (simp_all add: emit_def matchesPending_def)
  next
    case minted
    from creditBridged_frame[OF minted(1)] obtain t b where
      "s1 = s\<lparr>bank := b, Totals := Some (add_minted (d_Asset d) (MillisteemToAsteem (d_AmountMillisteem d)) t)\<rparr>"
      by metis
    with minted show ?thesis
      by (intro that[where st = DEPOSIT_STATUS_MINTED and b = b
            and t = "Some (add_minted (d_Asset d) (MillisteemToAsteem (d_AmountMillisteem d)) t)"])
        (simp_all add: emit_def matchesPending_def)
  qed
qed

text \<open>
  The three ways in which \<open>AttestDeposit\<close> succeeds: a repeated confirmation changes nothing; an
  attestation is recorded; or it is recorded and resolves the deposit.
\<close>

lemma AttestDeposit_Inr:
  assumes "AttestDeposit E bk msg s = Inr s'"
  obtains (repeated) "s' = s"
  | (recorded) p a d0 i s1 ratio where "b_Params s = Some p" "StringToBytes E (ad_Validator msg) = Some a"
      "is_bonded E a" "\<not> ks_has (DepositConfirmedBy s) (ad_Txid msg, ad_OpIndex msg, a)"
      "openDeposit E msg s = Inr (d0, i, s1)"
      "s' = (emit (DepositConfirmed i (ValAddressString E a) ratio) (recordDepositVote E msg a s1))
         \<lparr>Deposit := kv_set i (addConfirmation E a d0) (Deposit s1)\<rparr>"
  | (resolved) p a d0 i s1 ratio t d2 s4 where "b_Params s = Some p" "StringToBytes E (ad_Validator msg) = Some a"
      "is_bonded E a" "\<not> ks_has (DepositConfirmedBy s) (ad_Txid msg, ad_OpIndex msg, a)"
      "openDeposit E msg s = Inr (d0, i, s1)" "d_Status d0 = DEPOSIT_STATUS_PENDING"
      "factsCandidateRatio E (DepositFactsVote (recordDepositVote E msg a s1))
         (dedupKeyString (ad_Txid msg) (ad_OpIndex msg)) (msgFactsHash E msg) = Inr ratio"
      "BridgeConfirmationThreshold p = Some t" "t \<le> ratio"
      "resolveDeposit E bk p (adoptFacts msg (addConfirmation E a d0))
         (emit (DepositConfirmed i (ValAddressString E a) ratio) (recordDepositVote E msg a s1)) = Inr (d2, s4)"
      "s' = (enqueueBridgeDuty bridgeDutyKindDeposit (d_Id d2) s4)\<lparr>Deposit := kv_set i d2 (Deposit s4)\<rparr>"
proof -
  obtain p a where h: "b_Params s = Some p" "StringToBytes E (ad_Validator msg) = Some a" "is_bonded E a"
    and rest: "(if ks_has (DepositConfirmedBy s) (ad_Txid msg, ad_OpIndex msg, a) then Inr s
       else rbind (openDeposit E msg s) (\<lambda>(d, i, s1). attestOpened E bk p msg a d i s1)) = Inr s'"
    using assms by (auto simp: AttestDeposit_def rbind_eq_Inr)
  show ?thesis
  proof (cases "ks_has (DepositConfirmedBy s) (ad_Txid msg, ad_OpIndex msg, a)")
    case True
    with rest show ?thesis by (intro repeated) simp
  next
    case False
    with rest obtain d0 i s1 where o: "openDeposit E msg s = Inr (d0, i, s1)"
      and at: "attestOpened E bk p msg a d0 i s1 = Inr s'"
      by (auto simp: rbind_eq_Inr)
    from at obtain ratio d3 s5 where r: "factsCandidateRatio E (DepositFactsVote (recordDepositVote E msg a s1))
         (dedupKeyString (ad_Txid msg) (ad_OpIndex msg)) (msgFactsHash E msg) = Inr ratio"
      "resolveIfReached E bk p msg ratio (addConfirmation E a d0)
         (emit (DepositConfirmed i (ValAddressString E a) ratio) (recordDepositVote E msg a s1)) = Inr (d3, s5)"
      "s' = s5\<lparr>Deposit := kv_set i d3 (Deposit s5)\<rparr>"
      by (auto simp: attestOpened_def Let_def rbind_eq_Inr)
    from r(2) consider (plain) "d3 = addConfirmation E a d0"
        "s5 = emit (DepositConfirmed i (ValAddressString E a) ratio) (recordDepositVote E msg a s1)"
      | (res) t d2 s4 where "d_Status d0 = DEPOSIT_STATUS_PENDING" "BridgeConfirmationThreshold p = Some t"
        "t \<le> ratio" "resolveDeposit E bk p (adoptFacts msg (addConfirmation E a d0))
           (emit (DepositConfirmed i (ValAddressString E a) ratio) (recordDepositVote E msg a s1)) = Inr (d2, s4)"
        "d3 = d2" "s5 = enqueueBridgeDuty bridgeDutyKindDeposit (d_Id d2) s4"
      by (auto simp: resolveIfReached_def rbind_eq_Inr addConfirmation_def split: if_splits)
    then show ?thesis
    proof cases
      case plain
      with recorded[OF h False o] r(3) show ?thesis by (simp add: recordDepositVote_def)
    next
      case res
      with resolved[OF h False o res(1) r(1) res(2-4)] r(3) show ?thesis
        by (simp add: enqueueBridgeDuty_def)
    qed
  qed
qed

section \<open>The invariant of the deposit tables\<close>

definition deposit_inv :: "'b bridge_state \<Rightarrow> bool" where
  "deposit_inv s \<longleftrightarrow>
     table_ok d_Id (\<lambda>d. (d_Txid d, d_OpIndex d)) (\<lambda>d. dstat (d_Status d)) (\<lambda>d. d_Status d = DEPOSIT_STATUS_EXPIRED)
       (DepositSeq s) (Deposit s) (DepositByTxid s) (DepositByStatus s) \<and>
     votes_ok (DepositConfirmedBy s) (DepositFactsVote s)"

lemma openDeposit_cases:
  assumes "openDeposit E msg s = Inr (d0, i, s1)"
  obtains (fresh) "kv_get (DepositByTxid s) (ad_Txid msg, ad_OpIndex msg) = None" "i = DepositSeq s"
      "d_Id d0 = i" "d_Txid d0 = ad_Txid msg" "d_OpIndex d0 = ad_OpIndex msg" "d_Status d0 = DEPOSIT_STATUS_PENDING"
      "s1 = emit (DepositCreated i (ad_Txid msg) (ad_OpIndex msg) (DenomForAsset (ad_Asset msg)))
         (s\<lparr>DepositSeq := DepositSeq s + 1,
            DepositByTxid := kv_set (ad_Txid msg, ad_OpIndex msg) i (DepositByTxid s),
            DepositByStatus := ks_set (dstat DEPOSIT_STATUS_PENDING, i) (DepositByStatus s)\<rparr>)"
  | (known) ev where "kv_get (DepositByTxid s) (ad_Txid msg, ad_OpIndex msg) = Some i"
      "kv_get (Deposit s) i = Some d0" "s1 = s\<lparr>b_events := ev\<rparr>"
proof (cases "kv_get (DepositByTxid s) (ad_Txid msg, ad_OpIndex msg)")
  case None
  with assms show ?thesis by (intro fresh) (auto simp: openDeposit_def newDeposit_def Let_def)
next
  case (Some j)
  with assms have "j = i" "kv_get (Deposit s) i = Some d0"
    "s1 = s\<lparr>b_events := (if matchesPending d0 msg then b_events s
         else b_events s @ [DepositConfirmationMismatch i d0 msg])\<rparr>"
    by (auto simp: openDeposit_def rbind_eq_Inr emit_def)
  with Some show ?thesis by (intro known) auto
qed

text \<open>
  What any successful attestation does to the state, whether it resolves or not: the record opened
  under its key becomes \<open>d\<close>, with a status that is either unchanged or terminal, and the vote is
  recorded; the bank and the totals change only together with a resolution.
\<close>

lemma AttestDeposit_effect:
  assumes "AttestDeposit E bk msg s = Inr s'" "s' \<noteq> s"
  obtains a d0 i s1 d where
    "StringToBytes E (ad_Validator msg) = Some a" "is_bonded E a"
    "\<not> ks_has (DepositConfirmedBy s) (ad_Txid msg, ad_OpIndex msg, a)"
    "openDeposit E msg s = Inr (d0, i, s1)"
    "d_Id d = d_Id d0" "d_Txid d = d_Txid d0" "d_OpIndex d = d_OpIndex d0"
    "d_ValidatorConfirmations d = d_ValidatorConfirmations (addConfirmation E a d0)"
    "d_Status d = d_Status d0 \<and> bank s' = bank s \<and> Totals s' = Totals s \<and> BridgeDutyQueue s' = BridgeDutyQueue s \<and>
       DepositByStatus s' = DepositByStatus s1
     \<or> d_Status d0 = DEPOSIT_STATUS_PENDING \<and> d_Status d \<in> {DEPOSIT_STATUS_MINTED, DEPOSIT_STATUS_UNCLAIMABLE} \<and>
       DepositByStatus s' = ks_set (dstat (d_Status d), d_Id d0)
         (ks_remove (dstat (d_Status d0), d_Id d0) (DepositByStatus s1))"
    "Deposit s' = kv_set i d (Deposit s)" "DepositSeq s' = DepositSeq s1" "DepositByTxid s' = DepositByTxid s1"
    "DepositConfirmedBy s' = ks_set (ad_Txid msg, ad_OpIndex msg, a) (DepositConfirmedBy s)"
    "DepositFactsVote s' = ks_set (dedupKeyString (ad_Txid msg) (ad_OpIndex msg), msgFactsHash E msg, a) (DepositFactsVote s)"
    "same_withdrawals s s'" "same_names s s'" "b_Params s' = b_Params s"
    "FreeDepositCounter s' = FreeDepositCounter s" "FreeNameConfirmCounter s' = FreeNameConfirmCounter s"
  using assms(1)
proof (cases rule: AttestDeposit_Inr)
  case repeated
  with assms(2) show ?thesis by simp
next
  case (recorded p a d0 i s1 ratio)
  show ?thesis
    by (rule that[OF recorded(2-5), where d = "addConfirmation E a d0"]; use recorded(5) in
        \<open>cases rule: openDeposit_cases; simp add: recorded(6) addConfirmation_def recordDepositVote_def same_defs\<close>)
next
  case (resolved p a d0 i s1 ratio t d2 s4)
  let ?d = "adoptFacts msg (addConfirmation E a d0)"
  let ?s = "emit (DepositConfirmed i (ValAddressString E a) ratio) (recordDepositVote E msg a s1)"
  obtain st b u ev where r0: "st = DEPOSIT_STATUS_MINTED \<or> st = DEPOSIT_STATUS_UNCLAIMABLE"
    "d_Status d2 = st" "d_Id d2 = d_Id ?d" "d_Txid d2 = d_Txid ?d" "d_OpIndex d2 = d_OpIndex ?d"
    "d_ValidatorConfirmations d2 = d_ValidatorConfirmations ?d"
    "s4 = ?s\<lparr>bank := b, Totals := u, DepositByStatus := ks_set (dstat st, d_Id ?d)
         (ks_remove (dstat (d_Status ?d), d_Id ?d) (DepositByStatus ?s)), b_events := ev\<rparr>"
    by (rule resolveDeposit_frame[OF resolved(10), where msg = msg])
  have q: "d_Id ?d = d_Id d0" "d_Txid ?d = d_Txid d0" "d_OpIndex ?d = d_OpIndex d0" "d_Status ?d = d_Status d0"
    "d_ValidatorConfirmations ?d = d_ValidatorConfirmations (addConfirmation E a d0)"
    "DepositByStatus ?s = DepositByStatus s1"
    by (simp_all add: adoptFacts_def addConfirmation_def recordDepositVote_def)
  note r = r0[unfolded q]
  show ?thesis
    by (rule that[OF resolved(2-5), where d = d2]; use resolved(5) in
        \<open>cases rule: openDeposit_cases; use r(1) in \<open>simp add: resolved(6,11) r(2-7) enqueueBridgeDuty_def
          recordDepositVote_def same_defs\<close>\<close>)
qed

lemma AttestDeposit_inv:
  assumes "deposit_inv s" "AttestDeposit E bk msg s = Inr s'" "DepositSeq s + 1 \<noteq> 0"
  shows "deposit_inv s'"
proof (cases "s' = s")
  case False
  from AttestDeposit_effect[OF assms(2) False] obtain a d0 i s1 d where
    at: "\<not> ks_has (DepositConfirmedBy s) (ad_Txid msg, ad_OpIndex msg, a)"
      "openDeposit E msg s = Inr (d0, i, s1)"
      "d_Id d = d_Id d0" "d_Txid d = d_Txid d0" "d_OpIndex d = d_OpIndex d0"
    and st: "d_Status d = d_Status d0 \<and> DepositByStatus s' = DepositByStatus s1
     \<or> d_Status d0 = DEPOSIT_STATUS_PENDING \<and> d_Status d \<in> {DEPOSIT_STATUS_MINTED, DEPOSIT_STATUS_UNCLAIMABLE} \<and>
       DepositByStatus s' = ks_set (dstat (d_Status d), d_Id d0)
         (ks_remove (dstat (d_Status d0), d_Id d0) (DepositByStatus s1))"
    and eff: "Deposit s' = kv_set i d (Deposit s)" "DepositSeq s' = DepositSeq s1" "DepositByTxid s' = DepositByTxid s1"
      "DepositConfirmedBy s' = ks_set (ad_Txid msg, ad_OpIndex msg, a) (DepositConfirmedBy s)"
      "DepositFactsVote s' = ks_set (dedupKeyString (ad_Txid msg) (ad_OpIndex msg), msgFactsHash E msg, a) (DepositFactsVote s)"
    by (metis (no_types, lifting))
  have votes: "votes_ok (DepositConfirmedBy s') (DepositFactsVote s')"
    using assms(1) at(1) by (simp add: eff deposit_inv_def votes_ok_record)
  let ?tab = "table_ok d_Id (\<lambda>d. (d_Txid d, d_OpIndex d)) (\<lambda>d. dstat (d_Status d)) (\<lambda>d. d_Status d = DEPOSIT_STATUS_EXPIRED)"
  have ok: "?tab (DepositSeq s) (Deposit s) (DepositByTxid s) (DepositByStatus s)"
    using assms(1) by (simp add: deposit_inv_def)
  from at(2) have "?tab (DepositSeq s') (Deposit s') (DepositByTxid s') (DepositByStatus s')"
  proof (cases rule: openDeposit_cases)
    case fresh
    have ins: "?tab (DepositSeq s1) (kv_set i d0 (Deposit s)) (DepositByTxid s1) (DepositByStatus s1)"
      using table_ok_insert[OF ok assms(3), of d0] fresh by simp
    have "kv_get (kv_set i d0 (Deposit s)) i = Some d0" by simp
    from table_ok_touch[OF ins this, of d] table_ok_update[OF ins this, of d] st at(3-5) fresh(3,6)
    show ?thesis by (auto simp: eff(1-3))
  next
    case (known ev)
    have id: "d_Id d0 = i" using table_ok_get(1)[OF ok known(2)] .
    have "d_Status d0 \<noteq> DEPOSIT_STATUS_EXPIRED" using table_ok_key(2)[OF ok known(1,2)] .
    with st show ?thesis
      using table_ok_touch[OF ok known(2), of d] table_ok_update[OF ok known(2), of d] at(3-5) id
      by (auto simp: eff known(3))
  qed
  with votes show ?thesis by (simp add: deposit_inv_def)
qed (use assms in simp)

section \<open>When an attestation mints\<close>

lemma bank_record_updates [simp]:
  "bank (recordDepositVote E msg a s) = bank s" "Totals (recordDepositVote E msg a s) = Totals s"
  "Deposit (recordDepositVote E msg a s) = Deposit s" "b_Params (recordDepositVote E msg a s) = b_Params s"
  "DepositFactsVote (recordDepositVote E msg a s) =
     ks_set (dedupKeyString (ad_Txid msg) (ad_OpIndex msg), msgFactsHash E msg, a) (DepositFactsVote s)"
  by (simp_all add: recordDepositVote_def)

lemma openDeposit_frame:
  assumes "openDeposit E msg s = Inr (d0, i, s1)"
  shows "bank s1 = bank s" "Totals s1 = Totals s" "Deposit s1 = Deposit s" "b_Params s1 = b_Params s"
    "DepositFactsVote s1 = DepositFactsVote s" "DepositConfirmedBy s1 = DepositConfirmedBy s"
    "BridgeDutyQueue s1 = BridgeDutyQueue s"
  using assms by (cases rule: openDeposit_cases; simp)+

text \<open>The ledger changes only when a pending deposit is minted, and then through \<open>creditBridged\<close>.\<close>

lemma resolveDeposit_bank:
  assumes "resolveDeposit E bk p d s = Inr (d', s')" "bank s' \<noteq> bank s"
  obtains dest ty s1 amt str where "DeriveDestination E (d_Memo d) = Some (dest, ty)"
    "withinRange p (d_AmountMillisteem d)" "BytesToString E dest = Some str"
    "creditBridged bk dest (d_Asset d) (d_AmountMillisteem d) (BridgeFeeBps p) s = Inr (s1, amt)"
    "d' = d\<lparr>d_DerivedDestination := str, d_DestinationType := ty, d_Minted := True, d_MintedAt := BlockHeight E,
            d_MintTxHash := txHashHex E, d_Status := DEPOSIT_STATUS_MINTED\<rparr>"
    "bank s' = bank s1" "Totals s' = Totals s1"
  using assms
  by (auto simp: resolveDeposit_def setDepositStatus_def Let_def rbind_eq_Inr split: option.splits if_splits)

lemma AttestDeposit_minted:
  assumes "AttestDeposit E bk msg s = Inr s'" "bank s' \<noteq> bank s"
  obtains p a i s1 d0 ratio t d dest ty s2 s3 amt str where "b_Params s = Some p"
    "StringToBytes E (ad_Validator msg) = Some a" "is_bonded E a"
    "openDeposit E msg s = Inr (d0, i, s1)" "d_Status d0 = DEPOSIT_STATUS_PENDING"
    "power_ratio E (attested_power E (DepositFactsVote s')
       (dedupKeyString (ad_Txid msg) (ad_OpIndex msg)) (msgFactsHash E msg)) = Inr ratio"
    "BridgeConfirmationThreshold p = Some t" "t \<le> ratio"
    "DeriveDestination E (ad_Memo msg) = Some (dest, ty)" "withinRange p (ad_AmountMillisteem msg)"
    "BytesToString E dest = Some str"
    "creditBridged bk dest (ad_Asset msg) (ad_AmountMillisteem msg) (BridgeFeeBps p) s2 = Inr (s3, amt)"
    "bank s2 = bank s" "Totals s2 = Totals s" "bank s' = bank s3" "Totals s' = Totals s3"
    "kv_get (Deposit s') i = Some d" "d_Status d = DEPOSIT_STATUS_MINTED" "d_Minted d" "matchesPending d msg"
    "d_DerivedDestination d = str" "d_Id d = d_Id d0" "d_Txid d = d_Txid d0" "d_OpIndex d = d_OpIndex d0"
  using assms(1)
proof (cases rule: AttestDeposit_Inr)
  case repeated
  with assms(2) show ?thesis by simp
next
  case (recorded p a d0 i s1 ratio)
  with assms(2) openDeposit_frame[OF recorded(5)] show ?thesis by simp
next
  case (resolved p a d0 i s1 ratio t d2 s4)
  let ?d = "adoptFacts msg (addConfirmation E a d0)"
  let ?s = "emit (DepositConfirmed i (ValAddressString E a) ratio) (recordDepositVote E msg a s1)"
  note fr = openDeposit_frame[OF resolved(5)]
  have "bank s4 \<noteq> bank ?s" using assms(2) resolved(11) by (simp add: enqueueBridgeDuty_def fr)
  with resolved(10) obtain dest ty s3 amt str where m: "DeriveDestination E (d_Memo ?d) = Some (dest, ty)"
    "withinRange p (d_AmountMillisteem ?d)" "BytesToString E dest = Some str"
    "creditBridged bk dest (d_Asset ?d) (d_AmountMillisteem ?d) (BridgeFeeBps p) ?s = Inr (s3, amt)"
    "d2 = ?d\<lparr>d_DerivedDestination := str, d_DestinationType := ty, d_Minted := True, d_MintedAt := BlockHeight E,
            d_MintTxHash := txHashHex E, d_Status := DEPOSIT_STATUS_MINTED\<rparr>"
    "bank s4 = bank s3" "Totals s4 = Totals s3"
    by (rule resolveDeposit_bank)
  obtain st b u ev where r: "s4 = ?s\<lparr>bank := b, Totals := u, DepositByStatus := ks_set (dstat st, d_Id ?d)
         (ks_remove (dstat (d_Status ?d), d_Id ?d) (DepositByStatus ?s)), b_events := ev\<rparr>"
    by (rule resolveDeposit_frame[OF resolved(10), where msg = msg])
  have v: "DepositFactsVote s4 = DepositFactsVote (recordDepositVote E msg a s1)"
    using r by simp
  have ratio: "power_ratio E (attested_power E (DepositFactsVote s')
       (dedupKeyString (ad_Txid msg) (ad_OpIndex msg)) (msgFactsHash E msg)) = Inr ratio"
    using resolved(7,11) by (simp add: v attested_power_def factsCandidateRatio_def enqueueBridgeDuty_def)
  show ?thesis
    by (rule that[where d = d2 and i = i and ?s2.0 = ?s, OF resolved(1-3,5,6) ratio resolved(8,9) _ _ m(3)])
      (use m(1,2,4,6,7) resolved(11) in \<open>auto simp: m(5) fr
        enqueueBridgeDuty_def adoptFacts_def addConfirmation_def matchesPending_def\<close>)
qed

definition demo_deposit :: "string \<Rightarrow> msg_attest_deposit" where
  "demo_deposit v = \<lparr>ad_Validator = v, ad_Txid = ''t1'', ad_OpIndex = 0, ad_SteemBlock = 5, ad_SteemTimestamp = '''',
     ad_SteemSender = ''alice'', ad_GatewayAccount = GatewayAccount, ad_AmountMillisteem = 10000,
     ad_Memo = ''bob'', ad_Asset = BRIDGE_ASSET_STEEM\<rparr>"

definition empty_ledger :: ledger where
  "empty_ledger = \<lparr>l_bal = [], l_supply = []\<rparr>"

lemma demo_destination: "DeriveDestination demo_bridge_env ''bob'' = Some (''bob'', DESTINATION_TYPE_COSMOS)"
proof -
  have "TrimSpace ''bob'' = ''bob''" by (rule TrimSpace_all_visible) (simp add: visible_def)
  then show ?thesis by (simp add: DeriveDestination_def demo_bridge_env_def plain_env_def)
qed

lemma demo_env_simps [simp]:
  "StringToBytes demo_bridge_env = Some" "BytesToString demo_bridge_env = Some"
  "GetValidator demo_bridge_env a = map_option (plain_validator a) (map_of [(''v1'', 3), (''v2'', 1)] a)"
  "TotalValidatorPower demo_bridge_env = Some 4" "DecQuo demo_bridge_env = half_even_quo"
  "ValAddressString demo_bridge_env a = a" "BlockHeight demo_bridge_env = 10"
  by (simp_all add: demo_bridge_env_def plain_env_def)

lemma demo_ratio: "half_even_quo (LegacyNewDecFromInt 3) (LegacyNewDecFromInt 4) = 750000000000000000"
  by code_simp

lemmas demo_bank_simps = fakeBank_def l_send_def l_debit_def l_balance_def kv_amount_def kv_add_def
  module_key_def empty_ledger_def NewCoins1_def neg_coins_def AmountOf_def kv_get_def

lemmas demo_name_simps = BRIDGE_ASSET_STEEM_def BRIDGE_ASSET_SBD_def DenomForAsset_def DefaultBondDenom_def
  BlackHoleModuleName_def BridgeRewardModuleName_def

definition demo_ledger :: ledger where
  "demo_ledger = \<lparr>l_bal = [((''@bridge_reward'', ''asteem''), 25000000000000000),
       ((''@steemblackhole'', ''asteem''), 0), ((''bob'', ''asteem''), 9975000000000000000)],
     l_supply = [(''asteem'', 10000000000000000000)]\<rparr>"

lemma demo_credit:
  assumes "bank s = empty_ledger" "Totals s = Some zero_totals"
  shows "creditBridged fakeBank ''bob'' BRIDGE_ASSET_STEEM 10000 25 s =
     Inr (s\<lparr>bank := demo_ledger, Totals := Some (add_minted BRIDGE_ASSET_STEEM 10000000000000000000 zero_totals)\<rparr>,
          9975000000000000000)"
  using assms by (simp add: creditBridged_def Let_def ApplyBridgeFee_def send_if_positive_def MillisteemToAsteem_def
      MillisteemToAsteemFactor_def demo_bank_simps demo_name_simps demo_ledger_def)

lemmas demo_attest_simps = AttestDeposit_def demo_deposit_def demo_params_def bridge_DefaultParams_def
  CheckSteemBlock_def is_bonded_def plain_validator_def openDeposit_def newDeposit_def Let_def attestOpened_def
  factsCandidateRatio_def power_ratio_def recordDepositVote_def voters_def demo_ratio resolveIfReached_def
  addConfirmation_def resolveDeposit_def adoptFacts_def demo_destination withinRange_def
  setDepositStatus_def enqueueBridgeDuty_def demo_credit

lemma demo_deposit_run:
  "\<exists>s. AttestDeposit demo_bridge_env fakeBank (demo_deposit ''v1'') (start_bridge demo_params empty_ledger) = Inr s \<and>
     bank s = demo_ledger"
  by (simp add: demo_attest_simps)

lemma demo_ledger_not_empty: "demo_ledger \<noteq> empty_ledger"
  by (simp add: demo_ledger_def empty_ledger_def)

section \<open>Properties\<close>

text \<open>
  C7: Coins are minted on a deposit attestation only when the validators whose recorded votes back
  exactly the facts of the message hold at least the confirmation threshold \<open>t\<close> of the total bonded
  power (to half a unit in the eighteenth decimal place), on a record that was pending or new; the
  record then carries those facts, is marked minted, and pays the destination derived from its memo.
\<close>

theorem deposit_mint_needs_quorum:
  assumes "dec_env E" "AttestDeposit E bk msg s = Inr s'" "bank s' \<noteq> bank s"
    and "b_Params s = Some p" "BridgeConfirmationThreshold p = Some t" "0 < t" "TotalValidatorPower E = Some T"
  shows "0 < T \<and>
    (2 * t - 1) * T \<le> 2 * attested_power E (DepositFactsVote s')
           (dedupKeyString (ad_Txid msg) (ad_OpIndex msg)) (msgFactsHash E msg) * dec_one \<and>
    (\<exists>d0 i s1 d dest ty. openDeposit E msg s = Inr (d0, i, s1) \<and> d_Status d0 = DEPOSIT_STATUS_PENDING \<and>
           kv_get (Deposit s') i = Some d \<and> d_Status d = DEPOSIT_STATUS_MINTED \<and> matchesPending d msg \<and>
           withinRange p (d_AmountMillisteem d) \<and>
           DeriveDestination E (d_Memo d) = Some (dest, ty) \<and> BytesToString E dest = Some (d_DerivedDestination d))"
proof -
  from assms(2,3) obtain i s1 d0 ratio d dest ty str where m:
    "openDeposit E msg s = Inr (d0, i, s1)" "d_Status d0 = DEPOSIT_STATUS_PENDING"
    "power_ratio E (attested_power E (DepositFactsVote s')
       (dedupKeyString (ad_Txid msg) (ad_OpIndex msg)) (msgFactsHash E msg)) = Inr ratio" "t \<le> ratio"
    "DeriveDestination E (ad_Memo msg) = Some (dest, ty)" "withinRange p (ad_AmountMillisteem msg)"
    "BytesToString E dest = Some str"
    "kv_get (Deposit s') i = Some d" "d_Status d = DEPOSIT_STATUS_MINTED" "matchesPending d msg"
    "d_DerivedDestination d = str"
    by (rule AttestDeposit_minted) (use assms(4,5) in auto)
  have "withinRange p (d_AmountMillisteem d)" "DeriveDestination E (d_Memo d) = Some (dest, ty)"
    using m(5,6,10) by (simp_all add: matchesPending_def)
  with dec_env.ratio_reaches_threshold[OF assms(1) m(3) assms(7) m(4) assms(6)] m show ?thesis by blast
qed

lemma deposit_mint_needs_quorum_witness:
  "\<exists>s'. AttestDeposit demo_bridge_env fakeBank (demo_deposit ''v1'') (start_bridge demo_params empty_ledger) = Inr s' \<and>
     (2 * 666666666666666667 - 1) * 4 \<le> 2 * attested_power demo_bridge_env (DepositFactsVote s')
        (dedupKeyString ''t1'' 0) (msgFactsHash demo_bridge_env (demo_deposit ''v1'')) * dec_one"
proof -
  obtain s' where s': "AttestDeposit demo_bridge_env fakeBank (demo_deposit ''v1'') (start_bridge demo_params empty_ledger) = Inr s'"
    "bank s' = demo_ledger"
    using demo_deposit_run by blast
  show ?thesis
    using deposit_mint_needs_quorum[OF demo_bridge_dec_env s'(1), of demo_params 666666666666666667 4] s'
      demo_ledger_not_empty by (auto simp: demo_params_def bridge_DefaultParams_def demo_deposit_def)
qed

text \<open>
  C8: A mint conserves value. When an attestation changes the ledger, the gross amount is added to the
  supply and to the running minted total of the asset; the destination receives the amount net of the
  fee and the reward account the fee, and no other balance changes.
\<close>

theorem deposit_mint_conserves:
  assumes "bank_keeper bk maddr pool bal supply_of" "AttestDeposit E bk msg s = Inr s'" "bank s' \<noteq> bank s"
    and "b_Params s = Some p" "DeriveDestination E (ad_Memo msg) = Some (dest, ty)"
  defines "gross \<equiv> MillisteemToAsteem (ad_AmountMillisteem msg)"
    and "net \<equiv> MillisteemToAsteem (fst (ApplyBridgeFee (ad_AmountMillisteem msg) (BridgeFeeBps p)))"
    and "fee \<equiv> MillisteemToAsteem (snd (ApplyBridgeFee (ad_AmountMillisteem msg) (BridgeFeeBps p)))"
    and "denom \<equiv> DenomForAsset (ad_Asset msg)"
  shows "net + fee = gross \<and>
    (\<forall>a d. bal (bank s') a d = bal (bank s) a d + (if d = denom then
           (if a = dest then net else 0) + (if a = maddr BridgeRewardModuleName then fee else 0) else 0)) \<and>
    (\<forall>d. supply_of (bank s') d = supply_of (bank s) d + (if d = denom then gross else 0)) \<and>
    (\<exists>t. Totals s = Some t \<and> Totals s' = Some (add_minted (ad_Asset msg) gross t))"
proof -
  from assms(2,3) obtain s2 s3 amt where c:
    "creditBridged bk dest (ad_Asset msg) (ad_AmountMillisteem msg) (BridgeFeeBps p) s2 = Inr (s3, amt)"
    "bank s2 = bank s" "Totals s2 = Totals s" "bank s' = bank s3" "Totals s' = Totals s3"
    by (rule AttestDeposit_minted) (use assms(4,5) in auto)
  from creditBridged_frame[OF c(1)] obtain t b where f: "Totals s2 = Some t"
    "s3 = s2\<lparr>bank := b, Totals := Some (add_minted (ad_Asset msg) gross t)\<rparr>" "amt = net"
    unfolding gross_def net_def by metis
  note e = bank_keeper.creditBridged_effect[OF assms(1) c(1), folded gross_def fee_def denom_def, unfolded f(3)]
  have "bal (bank s') a d = bal (bank s) a d + (if d = denom then
           (if a = dest then net else 0) + (if a = maddr BridgeRewardModuleName then fee else 0) else 0)"
    "supply_of (bank s') d = supply_of (bank s) d + (if d = denom then gross else 0)" for a d
    using e(2,3) by (simp_all add: c(2,4))
  with e(1) show ?thesis using f(1,2) c(3,5) by auto
qed

lemma deposit_mint_conserves_witness:
  "\<exists>s'. AttestDeposit demo_bridge_env fakeBank (demo_deposit ''v1'') (start_bridge demo_params empty_ledger) = Inr s' \<and>
     l_total (bank s') ''asteem'' = l_total empty_ledger ''asteem'' + 10000000000000000000"
proof -
  obtain s' where s': "AttestDeposit demo_bridge_env fakeBank (demo_deposit ''v1'') (start_bridge demo_params empty_ledger) = Inr s'"
    "bank s' = demo_ledger"
    using demo_deposit_run by blast
  have d: "DeriveDestination demo_bridge_env (ad_Memo (demo_deposit ''v1'')) = Some (''bob'', DESTINATION_TYPE_COSMOS)"
    by (simp add: demo_deposit_def demo_destination)
  show ?thesis
    using deposit_mint_conserves[OF fake.bank_keeper_axioms s'(1) _ _ d, of demo_params] s'
      demo_ledger_not_empty
    by (auto simp: demo_deposit_def MillisteemToAsteem_def MillisteemToAsteemFactor_def demo_name_simps)
qed

text \<open>Once the threshold is reached, the memo and the amount alone decide how the record ends.\<close>

lemma resolveDeposit_decides:
  assumes "resolveDeposit E bk p d s = Inr (d', s')"
  shows "d_Status d' = (if DeriveDestination E (d_Memo d) \<noteq> None \<and> withinRange p (d_AmountMillisteem d)
           then DEPOSIT_STATUS_MINTED else DEPOSIT_STATUS_UNCLAIMABLE)"
    and "d_Status d' = DEPOSIT_STATUS_UNCLAIMABLE \<Longrightarrow> bank s' = bank s \<and> Totals s' = Totals s"
  using assms
  by (auto simp: resolveDeposit_def setDepositStatus_def Let_def rbind_eq_Inr split: option.splits if_splits)

lemma attestOpened_settled:
  assumes "d_Status d \<noteq> DEPOSIT_STATUS_PENDING" "TotalValidatorPower E = Some T"
  shows "\<exists>s'. attestOpened E bk p msg a d i s1 = Inr s' \<and> bank s' = bank s1 \<and> Totals s' = Totals s1"
  using assms by (auto simp: attestOpened_def factsCandidateRatio_def power_ratio_def resolveIfReached_def
      addConfirmation_def Let_def)

lemma ValidateDepositAcceptance_cases:
  assumes "StringToBytes E (ad_Validator msg) = Some a" "is_bonded E a"
  obtains (fatal) e where "ValidateDepositAcceptance E msg s = Inl e" "\<not> IsBenignAttestationError e"
      "AttestDeposit E bk msg s = Inl e"
  | (repeated) "ValidateDepositAcceptance E msg s = Inl ErrDuplicateConfirmation" "AttestDeposit E bk msg s = Inr s"
  | (settled) p d i where "ValidateDepositAcceptance E msg s = Inl ErrDepositAlreadyMinted" "b_Params s = Some p"
      "kv_get (DepositByTxid s) (ad_Txid msg, ad_OpIndex msg) = Some i" "kv_get (Deposit s) i = Some d"
      "d_Status d \<in> {DEPOSIT_STATUS_MINTED, DEPOSIT_STATUS_UNCLAIMABLE}"
      "AttestDeposit E bk msg s = rbind (openDeposit E msg s) (\<lambda>(d, i, s1). attestOpened E bk p msg a d i s1)"
  | (fine) "ValidateDepositAcceptance E msg s = Inr ()"
      "\<not> ks_has (DepositConfirmedBy s) (ad_Txid msg, ad_OpIndex msg, a)"
proof (cases "ValidateDepositAcceptance E msg s")
  case (Inr u)
  then show ?thesis using assms by (intro fine) (auto simp: ValidateDepositAcceptance_def rbind_eq_Inr)
next
  case (Inl e)
  note val = Inl[unfolded ValidateDepositAcceptance_def]
  have benign: "IsBenignAttestationError x \<longleftrightarrow> x \<in> {ErrDepositAlreadyMinted, ErrRegistrationAlreadyResolved,
      ErrDuplicateConfirmation, ErrWithdrawalAlreadyProcessed, ErrWithdrawalAlreadyRefunded,
      ErrDuplicateWithdrawalConfirmation}" for x
    by (simp add: IsBenignAttestationError_def)
  show ?thesis
  proof (cases "\<exists>p. b_Params s = Some p \<and> BridgeEnabled p \<and> ad_GatewayAccount msg = GatewayAccount \<and>
      CheckSteemBlock p (ad_SteemBlock msg) = Inr ()")
    case False
    then have "AttestDeposit E bk msg s = Inl e \<and> \<not> IsBenignAttestationError e"
      using val by (auto simp: AttestDeposit_def CheckSteemBlock_def benign rbind_eq_Inl)
    then show ?thesis using Inl fatal by blast
  next
    case True
    then obtain p where p: "b_Params s = Some p" "BridgeEnabled p" "ad_GatewayAccount msg = GatewayAccount"
      "CheckSteemBlock p (ad_SteemBlock msg) = Inr ()" by blast
    note val' = val[unfolded p(1) from_option_Some rbind_Inr p(4) assms(1)]
    have att: "AttestDeposit E bk msg s = (if ks_has (DepositConfirmedBy s) (ad_Txid msg, ad_OpIndex msg, a) then Inr s
       else rbind (openDeposit E msg s) (\<lambda>(d, i, s1). attestOpened E bk p msg a d i s1))"
      using p assms by (simp add: AttestDeposit_def)
    show ?thesis
    proof (cases "ks_has (DepositConfirmedBy s) (ad_Txid msg, ad_OpIndex msg, a)")
      case True
      with val' p(2,3) att Inl repeated show ?thesis by simp
    next
      case fresh: False
      show ?thesis
      proof (cases "kv_get (DepositByTxid s) (ad_Txid msg, ad_OpIndex msg)")
        case None
        with val' p fresh show ?thesis by (simp add: lookupDepositByTxid_def)
      next
        case (Some i)
        show ?thesis
        proof (cases "kv_get (Deposit s) i")
          case None
          with val' p fresh Some have "e = ErrNotFound" by (simp add: lookupDepositByTxid_def)
          with Some None fresh att Inl show ?thesis by (intro fatal) (simp_all add: benign openDeposit_def)
        next
          case (Some d)
          with val' p fresh \<open>kv_get (DepositByTxid s) (ad_Txid msg, ad_OpIndex msg) = Some i\<close>
          have "e = ErrDepositAlreadyMinted" "d_Status d \<in> {DEPOSIT_STATUS_MINTED, DEPOSIT_STATUS_UNCLAIMABLE}"
            by (auto simp: lookupDepositByTxid_def)
          with settled[OF _ p(1) \<open>kv_get (DepositByTxid s) (ad_Txid msg, ad_OpIndex msg) = Some i\<close> Some] fresh att Inl
          show ?thesis by simp
        qed
      qed
    qed
  qed
qed

lemma resolveDeposit_votes:
  assumes "resolveDeposit E bk p d s = Inr ds"
  shows "DepositConfirmedBy (snd ds) = DepositConfirmedBy s \<and> DepositFactsVote (snd ds) = DepositFactsVote s"
proof (cases ds)
  case (Pair d' s')
  then show ?thesis using assms by (auto elim: resolveDeposit_frame)
qed

lemma attestOpened_records:
  assumes "attestOpened E bk p msg a d i s1 = Inr s'"
  shows "DepositConfirmedBy s' = ks_set (ad_Txid msg, ad_OpIndex msg, a) (DepositConfirmedBy s1)"
    and "DepositFactsVote s' = ks_set (dedupKeyString (ad_Txid msg) (ad_OpIndex msg), msgFactsHash E msg, a) (DepositFactsVote s1)"
proof -
  let ?s2 = "recordDepositVote E msg a s1"
  obtain r d' s'' where u: "resolveIfReached E bk p msg r (addConfirmation E a d)
      (emit (DepositConfirmed i (ValAddressString E a) r) ?s2) = Inr (d', s'')"
    "s' = s''\<lparr>Deposit := kv_set i d' (Deposit s'')\<rparr>"
    using assms by (auto simp: attestOpened_def Let_def rbind_eq_Inr)
  have "DepositConfirmedBy s'' = DepositConfirmedBy ?s2 \<and> DepositFactsVote s'' = DepositFactsVote ?s2"
    using u(1) by (auto simp: resolveIfReached_def rbind_eq_Inr enqueueBridgeDuty_def split: if_splits
        dest!: resolveDeposit_votes)
  with u(2) show "DepositConfirmedBy s' = ks_set (ad_Txid msg, ad_OpIndex msg, a) (DepositConfirmedBy s1)"
    and "DepositFactsVote s' = ks_set (dedupKeyString (ad_Txid msg) (ad_OpIndex msg), msgFactsHash E msg, a) (DepositFactsVote s1)"
    by (simp_all add: recordDepositVote_def)
qed

text \<open>
  C11: The free-fee check of the ante handler and the handler agree. For a bonded validator and an
  available power total: a rejection that is not benign is exactly the error the handler returns; on a
  benign rejection (already resolved, or already confirmed by this validator) the handler succeeds
  without moving coins; and when the check accepts, a successful handler has recorded the vote.
\<close>

theorem deposit_acceptance_matches_handler:
  assumes "StringToBytes E (ad_Validator msg) = Some a" "is_bonded E a" "TotalValidatorPower E = Some T"
  shows "case ValidateDepositAcceptance E msg s of
     Inl e \<Rightarrow> if IsBenignAttestationError e
              then (\<exists>s'. AttestDeposit E bk msg s = Inr s' \<and> bank s' = bank s \<and> Totals s' = Totals s)
              else AttestDeposit E bk msg s = Inl e
   | Inr _ \<Rightarrow> \<not> ks_has (DepositConfirmedBy s) (ad_Txid msg, ad_OpIndex msg, a) \<and>
       (\<forall>s'. AttestDeposit E bk msg s = Inr s' \<longrightarrow>
          ks_has (DepositConfirmedBy s') (ad_Txid msg, ad_OpIndex msg, a) \<and>
          ks_has (DepositFactsVote s') (dedupKeyString (ad_Txid msg) (ad_OpIndex msg), msgFactsHash E msg, a))"
  using assms(1,2)
proof (cases rule: ValidateDepositAcceptance_cases[where bk = bk and s = s])
  case fatal
  then show ?thesis by simp
next
  case repeated
  then show ?thesis by (simp add: IsBenignAttestationError_def)
next
  case (settled p d i)
  then obtain s1 where o: "openDeposit E msg s = Inr (d, i, s1)" "d_Status d \<noteq> DEPOSIT_STATUS_PENDING"
    by (auto simp: openDeposit_def)
  obtain s' where "attestOpened E bk p msg a d i s1 = Inr s'" "bank s' = bank s1" "Totals s' = Totals s1"
    using attestOpened_settled[OF o(2) assms(3)] by blast
  with settled(1,6) o(1) openDeposit_frame[OF o(1)] show ?thesis by (simp add: IsBenignAttestationError_def)
next
  case fine
  have "ks_has (DepositConfirmedBy s') (ad_Txid msg, ad_OpIndex msg, a) \<and>
          ks_has (DepositFactsVote s') (dedupKeyString (ad_Txid msg) (ad_OpIndex msg), msgFactsHash E msg, a)"
    if at: "AttestDeposit E bk msg s = Inr s'" for s'
  proof -
    from at fine(2) obtain p d i s1 where "attestOpened E bk p msg a d i s1 = Inr s'"
      using assms by (auto simp: AttestDeposit_def rbind_eq_Inr split: if_splits)
    then show ?thesis by (simp add: attestOpened_records)
  qed
  with fine show ?thesis by simp
qed

lemma deposit_acceptance_matches_handler_witness:
  "ValidateDepositAcceptance demo_bridge_env (demo_deposit ''v1'') (start_bridge demo_params empty_ledger) = Inr () \<and>
   (\<exists>s. AttestDeposit demo_bridge_env fakeBank (demo_deposit ''v1'') (start_bridge demo_params empty_ledger) = Inr s \<and>
      ks_has (DepositConfirmedBy s) (''t1'', 0, ''v1''))"
proof -
  obtain s where s: "AttestDeposit demo_bridge_env fakeBank (demo_deposit ''v1'') (start_bridge demo_params empty_ledger) = Inr s"
    using demo_deposit_run by blast
  have v: "ValidateDepositAcceptance demo_bridge_env (demo_deposit ''v1'') (start_bridge demo_params empty_ledger) = Inr ()"
    by (simp add: ValidateDepositAcceptance_def demo_deposit_def demo_params_def bridge_DefaultParams_def CheckSteemBlock_def
        lookupDepositByTxid_def)
  have "StringToBytes demo_bridge_env (ad_Validator (demo_deposit ''v1'')) = Some ''v1''" "is_bonded demo_bridge_env ''v1''"
    "TotalValidatorPower demo_bridge_env = Some 4"
    by (simp_all add: demo_deposit_def is_bonded_def plain_validator_def)
  from deposit_acceptance_matches_handler[OF this, where s = "start_bridge demo_params empty_ledger" and bk = fakeBank] v s show ?thesis
    by (simp add: demo_deposit_def)
qed

end
