(* ===== verification/Bridge_Name.thy ===== *)
theory Bridge_Name
  imports Bridge_Deposit
begin

text \<open>
  The name service: attestation of a registration transfer by bonded validators, its resolution to a
  destination that still has to consent, and the confirmation that installs the link and supersedes an
  older one (\<open>keeper/name_registration.go\<close>, \<open>keeper/msg_server_submit_name_registration.go\<close>,
  \<open>keeper/msg_server_confirm_name.go\<close>). The lemmas show that the registration tables, the index of
  awaiting destinations and both directions of the active links stay consistent, that only a quorum
  credits a registration fee, and that only the derived destination can activate a link.
\<close>

section \<open>Operations\<close>

definition lookupNameRegistrationByTxid ::
    "string \<Rightarrow> u32 \<Rightarrow> 'b bridge_state \<Rightarrow> name_registration option res" where
  "lookupNameRegistrationByTxid txid opIndex s =
     (case kv_get (NameRegistrationByTxid s) (txid, opIndex) of
        None \<Rightarrow> Inr None
      | Some i \<Rightarrow> rbind (from_option ErrNotFound (kv_get (NameRegistration s) i)) (\<lambda>r. Inr (Some r)))"

definition matchesPendingRegistration :: "name_registration \<Rightarrow> msg_submit_name \<Rightarrow> bool" where
  "matchesPendingRegistration existing msg \<longleftrightarrow>
     n_SteemBlock existing = sn_SteemBlock msg \<and>
     n_SteemTimestamp existing = sn_SteemTimestamp msg \<and>
     n_SteemAccount existing = sn_SteemAccount msg \<and>
     n_GatewayAccount existing = sn_GatewayAccount msg \<and>
     n_AmountMillisteem existing = sn_AmountMillisteem msg \<and>
     n_Memo existing = sn_Memo msg"

definition ValidateNameRegistrationAcceptance :: "env \<Rightarrow> msg_submit_name \<Rightarrow> 'b bridge_state \<Rightarrow> unit res" where
  "ValidateNameRegistrationAcceptance E msg s =
     rbind (from_option ErrNotFound (b_Params s)) (\<lambda>params.
     rbind (guard_err (NameServiceEnabled params) ErrNameServiceDisabled) (\<lambda>_.
     rbind (guard_err (sn_GatewayAccount msg = GatewayAccount) ErrInvalidGatewayAccount) (\<lambda>_.
     rbind (guard_err (\<not> sn_AmountMillisteem msg < NameRegistrationMinMillisteem params) ErrRegistrationBelowMinimum) (\<lambda>_.
     rbind (CheckSteemBlock params (sn_SteemBlock msg)) (\<lambda>_.
     rbind (from_option ErrInvalidAddress (StringToBytes E (sn_Validator msg))) (\<lambda>validatorAddr.
     rbind (guard_err (\<not> ks_has (NameRegistrationConfirmedBy s) (sn_Txid msg, sn_OpIndex msg, validatorAddr))
              ErrDuplicateConfirmation) (\<lambda>_.
     rbind (lookupNameRegistrationByTxid (sn_Txid msg) (sn_OpIndex msg) s) (\<lambda>found.
     case found of
       None \<Rightarrow> Inr ()
     | Some existing \<Rightarrow>
         guard_err (n_Status existing = NAME_REGISTRATION_STATUS_PENDING) ErrRegistrationAlreadyResolved))))))))"

definition ValidateNameConfirmationAcceptance :: "env \<Rightarrow> msg_confirm_name \<Rightarrow> 'b bridge_state \<Rightarrow> unit res" where
  "ValidateNameConfirmationAcceptance E msg s =
     rbind (from_option ErrNotFound (b_Params s)) (\<lambda>params.
     rbind (guard_err (NameServiceEnabled params) ErrNameServiceDisabled) (\<lambda>_.
     rbind (from_option ErrRegistrationNotFound (kv_get (NameRegistration s) (cn_RegistrationId msg))) (\<lambda>registration.
     rbind (guard_err (n_Status registration = NAME_REGISTRATION_STATUS_AWAITING_CONFIRMATION)
              ErrRegistrationNotAwaiting) (\<lambda>_.
     rbind (from_option ErrInvalidAddress (StringToBytes E (cn_Confirmer msg))) (\<lambda>confirmerAddr.
     rbind (from_option ErrInvalidAddress (StringToBytes E (n_DerivedDestination registration))) (\<lambda>destAddr.
     guard_err (confirmerAddr = destAddr) ErrConfirmerNotDestination))))))"

definition resolveNameRegistration ::
    "env \<Rightarrow> 'b bank_ops \<Rightarrow> bridge_params \<Rightarrow> name_registration \<Rightarrow> 'b bridge_state \<Rightarrow>
     (name_registration \<times> 'b bridge_state) res" where
  "resolveNameRegistration E bk params r s =
     (let unclaimable = (\<lambda>destType.
        let (r', s') = setNameRegistrationStatus (r\<lparr>n_DestinationType := destType\<rparr>)
              NAME_REGISTRATION_STATUS_UNCLAIMABLE s
        in Inr (r', emit (NameRegistrationUnclaimable (n_Id r) (n_SteemAccount r)) s'))
      in case DeriveDestination E (n_Memo r) of
        None \<Rightarrow> unclaimable DESTINATION_TYPE_NONE
      | Some (destAddr, destType) \<Rightarrow>
          if n_AmountMillisteem r < NameRegistrationMinMillisteem params then unclaimable destType
          else
            rbind (from_option ErrInvalidAddress (BytesToString E destAddr)) (\<lambda>destAddrStr.
            rbind (creditBridged bk destAddr BRIDGE_ASSET_STEEM (n_AmountMillisteem r) 0 s) (\<lambda>(s1, mintAmount).
            let r1 = r\<lparr>n_DerivedDestination := destAddrStr, n_DestinationType := destType,
                      n_AwaitingSince := BlockHeight E\<rparr>;
                (r2, s2) = setNameRegistrationStatus r1 NAME_REGISTRATION_STATUS_AWAITING_CONFIRMATION s1;
                s3 = s2\<lparr>NameRegistrationAwaitingByDest :=
                       ks_set (destAddr, n_Id r) (NameRegistrationAwaitingByDest s2)\<rparr>
            in Inr (r2, emit (NameRegistrationAwaiting (n_Id r) (n_SteemAccount r) destAddrStr destType mintAmount) s3))))"

text \<open>The record and the indexes of a key seen for the first time.\<close>

definition newRegistration ::
    "env \<Rightarrow> msg_submit_name \<Rightarrow> 'b bridge_state \<Rightarrow> name_registration \<times> 'b bridge_state" where
  "newRegistration E msg s =
     (let registrationID = NameRegistrationSeq s;
          r = \<lparr>n_Id = registrationID, n_Txid = sn_Txid msg, n_OpIndex = sn_OpIndex msg,
               n_SteemBlock = sn_SteemBlock msg, n_SteemTimestamp = sn_SteemTimestamp msg,
               n_SteemAccount = sn_SteemAccount msg, n_GatewayAccount = sn_GatewayAccount msg,
               n_AmountMillisteem = sn_AmountMillisteem msg, n_Memo = sn_Memo msg,
               n_DerivedDestination = '''', n_DestinationType = DESTINATION_TYPE_NONE,
               n_Status = NAME_REGISTRATION_STATUS_PENDING, n_CreatedAt = BlockHeight E, n_AwaitingSince = 0,
               n_ConfirmedAt = 0, n_ConfirmTxHash = '''', n_ValidatorConfirmations = []\<rparr>
      in (r, emit (NameRegistrationCreated registrationID (sn_SteemAccount msg) (sn_Txid msg) (sn_OpIndex msg))
              (s\<lparr>NameRegistrationSeq := NameRegistrationSeq s + 1,
                 NameRegistrationByTxid := kv_set (sn_Txid msg, sn_OpIndex msg) registrationID (NameRegistrationByTxid s),
                 NameRegistrationByStatus :=
                   ks_set (nstat NAME_REGISTRATION_STATUS_PENDING, registrationID) (NameRegistrationByStatus s),
                 NameRegistrationByAccount :=
                   ks_set (sn_SteemAccount msg, registrationID) (NameRegistrationByAccount s)\<rparr>)))"

definition openRegistration ::
    "env \<Rightarrow> msg_submit_name \<Rightarrow> 'b bridge_state \<Rightarrow> (name_registration \<times> u64 \<times> 'b bridge_state) res" where
  "openRegistration E msg s =
     (case kv_get (NameRegistrationByTxid s) (sn_Txid msg, sn_OpIndex msg) of
        None \<Rightarrow> (case newRegistration E msg s of (r, s') \<Rightarrow> Inr (r, NameRegistrationSeq s, s'))
      | Some registrationID \<Rightarrow>
          rbind (from_option ErrNotFound (kv_get (NameRegistration s) registrationID)) (\<lambda>r.
          Inr (r, registrationID,
            if matchesPendingRegistration r msg then s else emit (NameRegistrationMismatch registrationID r msg) s)))"

definition adoptNameFacts :: "msg_submit_name \<Rightarrow> name_registration \<Rightarrow> name_registration" where
  "adoptNameFacts msg r =
     r\<lparr>n_SteemBlock := sn_SteemBlock msg, n_SteemTimestamp := sn_SteemTimestamp msg,
       n_SteemAccount := sn_SteemAccount msg, n_GatewayAccount := sn_GatewayAccount msg,
       n_AmountMillisteem := sn_AmountMillisteem msg, n_Memo := sn_Memo msg\<rparr>"

text \<open>The account index follows the winning fact-set.\<close>

definition moveAccountIndex :: "u64 \<Rightarrow> string \<Rightarrow> string \<Rightarrow> 'b bridge_state \<Rightarrow> 'b bridge_state" where
  "moveAccountIndex registrationID old new s =
     (if old \<noteq> new
      then s\<lparr>NameRegistrationByAccount := ks_set (new, registrationID)
             (ks_remove (old, registrationID) (NameRegistrationByAccount s))\<rparr>
      else s)"

definition nameMsgFactsHash :: "env \<Rightarrow> msg_submit_name \<Rightarrow> string" where
  "nameMsgFactsHash E msg = NameFactsHash E (sn_SteemBlock msg) (sn_SteemTimestamp msg) (sn_SteemAccount msg)
     (sn_GatewayAccount msg) (sn_AmountMillisteem msg) (sn_Memo msg)"

definition recordNameVote :: "env \<Rightarrow> msg_submit_name \<Rightarrow> bytes \<Rightarrow> 'b bridge_state \<Rightarrow> 'b bridge_state" where
  "recordNameVote E msg validatorAddr s =
     s\<lparr>NameRegistrationConfirmedBy :=
         ks_set (sn_Txid msg, sn_OpIndex msg, validatorAddr) (NameRegistrationConfirmedBy s),
       NameRegistrationFactsVote :=
         ks_set (dedupKeyString (sn_Txid msg) (sn_OpIndex msg), nameMsgFactsHash E msg, validatorAddr)
           (NameRegistrationFactsVote s)\<rparr>"

definition addNameConfirmation :: "env \<Rightarrow> bytes \<Rightarrow> name_registration \<Rightarrow> name_registration" where
  "addNameConfirmation E validatorAddr r =
     r\<lparr>n_ValidatorConfirmations := n_ValidatorConfirmations r @
        [\<lparr>c_ValidatorAddress = ValAddressString E validatorAddr, c_Timestamp = BlockTime E\<rparr>]\<rparr>"

definition resolveNameIfReached ::
    "env \<Rightarrow> 'b bank_ops \<Rightarrow> bridge_params \<Rightarrow> msg_submit_name \<Rightarrow> dec \<Rightarrow> u64 \<Rightarrow> name_registration \<Rightarrow>
     'b bridge_state \<Rightarrow> (name_registration \<times> 'b bridge_state) res" where
  "resolveNameIfReached E bk params msg ratio registrationID r s =
     (if n_Status r = NAME_REGISTRATION_STATUS_PENDING
      then rbind (dec_val (BridgeConfirmationThreshold params)) (\<lambda>threshold.
           if threshold \<le> ratio
           then resolveNameRegistration E bk params (adoptNameFacts msg r)
                  (moveAccountIndex registrationID (n_SteemAccount r) (sn_SteemAccount msg) s)
           else Inr (r, s))
      else Inr (r, s))"

definition submitOpened ::
    "env \<Rightarrow> 'b bank_ops \<Rightarrow> bridge_params \<Rightarrow> msg_submit_name \<Rightarrow> bytes \<Rightarrow> name_registration \<Rightarrow> u64 \<Rightarrow>
     'b bridge_state \<Rightarrow> 'b bridge_state res" where
  "submitOpened E bk params msg validatorAddr r registrationID s1 =
     (let s2 = recordNameVote E msg validatorAddr s1 in
      rbind (factsCandidateRatio E (NameRegistrationFactsVote s2)
               (dedupKeyString (sn_Txid msg) (sn_OpIndex msg)) (nameMsgFactsHash E msg)) (\<lambda>ratio.
      rbind (resolveNameIfReached E bk params msg ratio registrationID (addNameConfirmation E validatorAddr r)
               (emit (NameRegistrationConfirmed registrationID (ValAddressString E validatorAddr) ratio) s2)) (\<lambda>rs.
      Inr ((snd rs)\<lparr>NameRegistration := kv_set registrationID (fst rs) (NameRegistration (snd rs))\<rparr>))))"

definition SubmitNameRegistration ::
    "env \<Rightarrow> 'b bank_ops \<Rightarrow> msg_submit_name \<Rightarrow> 'b bridge_state \<Rightarrow> 'b bridge_state res" where
  "SubmitNameRegistration E bk msg s =
     rbind (from_option ErrNotFound (b_Params s)) (\<lambda>params.
     rbind (from_option ErrInvalidAddress (StringToBytes E (sn_Validator msg))) (\<lambda>validatorAddr.
     rbind (guard_err (is_bonded E validatorAddr) ErrNotBondedValidator) (\<lambda>_.
     case ValidateNameRegistrationAcceptance E msg s of
       Inl err \<Rightarrow>
         if err = ErrRegistrationMismatch
         then rbind (openRegistration E msg s) (\<lambda>(r, registrationID, s1).
              submitOpened E bk params msg validatorAddr r registrationID s1)
         else if IsBenignAttestationError err then Inr s else Inl err
     | Inr _ \<Rightarrow>
         rbind (openRegistration E msg s) (\<lambda>(r, registrationID, s1).
         submitOpened E bk params msg validatorAddr r registrationID s1))))"

text \<open>An older active link of the same account is taken down before the new one is installed.\<close>

definition supersedeRegistration :: "u64 \<Rightarrow> 'b bridge_state \<Rightarrow> 'b bridge_state" where
  "supersedeRegistration i s =
     (case kv_get (NameRegistration s) i of
        None \<Rightarrow> s
      | Some old \<Rightarrow>
          if n_Status old = NAME_REGISTRATION_STATUS_ACTIVE
          then (case setNameRegistrationStatus old NAME_REGISTRATION_STATUS_SUPERSEDED s of (old', s') \<Rightarrow>
                  s'\<lparr>NameRegistration := kv_set (n_Id old') old' (NameRegistration s')\<rparr>)
          else s)"

definition supersedeActive ::
    "env \<Rightarrow> name_registration \<Rightarrow> 'b bridge_state \<Rightarrow> 'b bridge_state res" where
  "supersedeActive E registration s =
     (case kv_get (ActiveName s) (n_SteemAccount registration) of
        None \<Rightarrow> Inr s
      | Some existing \<Rightarrow>
          rbind (from_option ErrInvalidAddress (StringToBytes E (nr_Address existing))) (\<lambda>oldAddr.
          Inr (emit (NameSuperseded (n_SteemAccount registration) (nr_RegistrationId existing)
                       (nr_Address existing) (n_Id registration))
                (supersedeRegistration (nr_RegistrationId existing)
                  (s\<lparr>ActiveNameByAddress :=
                     ks_remove (oldAddr, nr_SteemAccount existing) (ActiveNameByAddress s)\<rparr>)))))"

definition installLink ::
    "env \<Rightarrow> name_registration \<Rightarrow> bytes \<Rightarrow> 'b bridge_state \<Rightarrow> 'b bridge_state" where
  "installLink E registration confirmerAddr s =
     (let record = \<lparr>nr_SteemAccount = n_SteemAccount registration, nr_Address = n_DerivedDestination registration,
                    nr_RegistrationId = n_Id registration, nr_LinkedAt = BlockHeight E\<rparr>;
          s1 = s\<lparr>ActiveName := kv_set (n_SteemAccount registration) record (ActiveName s),
                 ActiveNameByAddress := ks_set (confirmerAddr, n_SteemAccount registration) (ActiveNameByAddress s)\<rparr>;
          (r, s2) = setNameRegistrationStatus
            (registration\<lparr>n_ConfirmedAt := BlockHeight E, n_ConfirmTxHash := txHashHex E\<rparr>)
            NAME_REGISTRATION_STATUS_ACTIVE s1
      in emit (NameLinked (n_Id registration) (n_SteemAccount registration) (n_DerivedDestination registration))
           (s2\<lparr>NameRegistrationAwaitingByDest :=
                 ks_remove (confirmerAddr, n_Id registration) (NameRegistrationAwaitingByDest s2),
               NameRegistration := kv_set (n_Id registration) r (NameRegistration s2)\<rparr>))"

definition ConfirmName :: "env \<Rightarrow> msg_confirm_name \<Rightarrow> 'b bridge_state \<Rightarrow> 'b bridge_state res" where
  "ConfirmName E msg s =
     rbind (ValidateNameConfirmationAcceptance E msg s) (\<lambda>_.
     rbind (from_option ErrNotFound (kv_get (NameRegistration s) (cn_RegistrationId msg))) (\<lambda>registration.
     rbind (from_option ErrInvalidAddress (StringToBytes E (cn_Confirmer msg))) (\<lambda>confirmerAddr.
     rbind (supersedeActive E registration s) (\<lambda>s1.
     Inr (installLink E registration confirmerAddr s1)))))"

section \<open>Outcomes of a submission\<close>

lemma resolveNameRegistration_cases:
  assumes "resolveNameRegistration E bk p r s = Inr (r', s')"
  obtains (unclaimable) ty where
      "DeriveDestination E (n_Memo r) = None \<or> n_AmountMillisteem r < NameRegistrationMinMillisteem p"
      "r' = r\<lparr>n_DestinationType := ty, n_Status := NAME_REGISTRATION_STATUS_UNCLAIMABLE\<rparr>"
      "s' = emit (NameRegistrationUnclaimable (n_Id r) (n_SteemAccount r)) (s\<lparr>NameRegistrationByStatus :=
         ks_set (nstat NAME_REGISTRATION_STATUS_UNCLAIMABLE, n_Id r)
         (ks_remove (nstat (n_Status r), n_Id r) (NameRegistrationByStatus s))\<rparr>)"
  | (awaiting) dest ty str s1 amt b t ev where "DeriveDestination E (n_Memo r) = Some (dest, ty)"
      "\<not> n_AmountMillisteem r < NameRegistrationMinMillisteem p" "BytesToString E dest = Some str"
      "creditBridged bk dest BRIDGE_ASSET_STEEM (n_AmountMillisteem r) 0 s = Inr (s1, amt)"
      "r' = r\<lparr>n_DerivedDestination := str, n_DestinationType := ty, n_AwaitingSince := BlockHeight E,
             n_Status := NAME_REGISTRATION_STATUS_AWAITING_CONFIRMATION\<rparr>"
      "s' = s\<lparr>bank := b, Totals := t, NameRegistrationByStatus :=
           ks_set (nstat NAME_REGISTRATION_STATUS_AWAITING_CONFIRMATION, n_Id r)
             (ks_remove (nstat (n_Status r), n_Id r) (NameRegistrationByStatus s)),
         NameRegistrationAwaitingByDest := ks_set (dest, n_Id r) (NameRegistrationAwaitingByDest s), b_events := ev\<rparr>"
      "bank s1 = b" "Totals s1 = t"
proof (cases "DeriveDestination E (n_Memo r)")
  case None
  with assms show ?thesis
    by (intro unclaimable[where ty = DESTINATION_TYPE_NONE])
      (auto simp: resolveNameRegistration_def setNameRegistrationStatus_def Let_def)
next
  case (Some dt)
  obtain dest ty where dt: "dt = (dest, ty)" by force
  show ?thesis
  proof (cases "n_AmountMillisteem r < NameRegistrationMinMillisteem p")
    case True
    with assms Some dt show ?thesis
      by (intro unclaimable[where ty = ty])
        (auto simp: resolveNameRegistration_def setNameRegistrationStatus_def Let_def)
  next
    case False
    with assms Some dt obtain str s1 amt where c: "BytesToString E dest = Some str"
      "creditBridged bk dest BRIDGE_ASSET_STEEM (n_AmountMillisteem r) 0 s = Inr (s1, amt)"
      "r' = r\<lparr>n_DerivedDestination := str, n_DestinationType := ty, n_AwaitingSince := BlockHeight E,
             n_Status := NAME_REGISTRATION_STATUS_AWAITING_CONFIRMATION\<rparr>"
      "s' = emit (NameRegistrationAwaiting (n_Id r) (n_SteemAccount r) str ty amt) (s1\<lparr>NameRegistrationByStatus :=
           ks_set (nstat NAME_REGISTRATION_STATUS_AWAITING_CONFIRMATION, n_Id r)
             (ks_remove (nstat (n_Status r), n_Id r) (NameRegistrationByStatus s1)),
         NameRegistrationAwaitingByDest := ks_set (dest, n_Id r) (NameRegistrationAwaitingByDest s1)\<rparr>)"
      by (auto simp: resolveNameRegistration_def setNameRegistrationStatus_def Let_def rbind_eq_Inr)
    from creditBridged_frame[OF c(2)] obtain t b where
      "s1 = s\<lparr>bank := b, Totals := Some (add_minted BRIDGE_ASSET_STEEM (MillisteemToAsteem (n_AmountMillisteem r)) t)\<rparr>"
      by metis
    with c False Some dt show ?thesis
      by (intro awaiting[OF _ _ c(1,2,3), where b = "bank s1" and t = "Totals s1" and ev = "b_events s'"])
        (auto simp: emit_def)
  qed
qed

lemma acceptance_no_mismatch:
  "ValidateNameRegistrationAcceptance E msg s \<noteq> Inl ErrRegistrationMismatch"
  by (auto simp: ValidateNameRegistrationAcceptance_def rbind_eq_Inl CheckSteemBlock_def
      lookupNameRegistrationByTxid_def split: option.splits)

lemma SubmitNameRegistration_Inr:
  assumes "SubmitNameRegistration E bk msg s = Inr s'"
  obtains (repeated) "s' = s"
  | (recorded) p a r0 i s1 ratio where "b_Params s = Some p" "StringToBytes E (sn_Validator msg) = Some a"
      "is_bonded E a" "ValidateNameRegistrationAcceptance E msg s = Inr ()"
      "openRegistration E msg s = Inr (r0, i, s1)"
      "s' = (emit (NameRegistrationConfirmed i (ValAddressString E a) ratio) (recordNameVote E msg a s1))
         \<lparr>NameRegistration := kv_set i (addNameConfirmation E a r0) (NameRegistration s1)\<rparr>"
  | (resolved) p a r0 i s1 ratio t r2 s4 where "b_Params s = Some p" "StringToBytes E (sn_Validator msg) = Some a"
      "is_bonded E a" "ValidateNameRegistrationAcceptance E msg s = Inr ()"
      "openRegistration E msg s = Inr (r0, i, s1)" "n_Status r0 = NAME_REGISTRATION_STATUS_PENDING"
      "factsCandidateRatio E (NameRegistrationFactsVote (recordNameVote E msg a s1))
         (dedupKeyString (sn_Txid msg) (sn_OpIndex msg)) (nameMsgFactsHash E msg) = Inr ratio"
      "BridgeConfirmationThreshold p = Some t" "t \<le> ratio"
      "resolveNameRegistration E bk p (adoptNameFacts msg (addNameConfirmation E a r0))
         (moveAccountIndex i (n_SteemAccount r0) (sn_SteemAccount msg)
           (emit (NameRegistrationConfirmed i (ValAddressString E a) ratio) (recordNameVote E msg a s1))) = Inr (r2, s4)"
      "s' = s4\<lparr>NameRegistration := kv_set i r2 (NameRegistration s4)\<rparr>"
proof (cases "s' = s")
  case False
  have "ValidateNameRegistrationAcceptance E msg s = Inr ()"
  proof (cases "ValidateNameRegistrationAcceptance E msg s")
    case (Inl e)
    with acceptance_no_mismatch[of E msg s] have "e \<noteq> ErrRegistrationMismatch" by auto
    with Inl assms False show ?thesis by (auto simp: SubmitNameRegistration_def rbind_eq_Inr split: if_splits)
  qed simp
  with assms obtain p a r0 i s1 where h: "b_Params s = Some p" "StringToBytes E (sn_Validator msg) = Some a"
      "is_bonded E a" "ValidateNameRegistrationAcceptance E msg s = Inr ()" "openRegistration E msg s = Inr (r0, i, s1)"
    and sub: "submitOpened E bk p msg a r0 i s1 = Inr s'"
    by (auto simp: SubmitNameRegistration_def rbind_eq_Inr)
  from sub obtain ratio r3 s5 where r: "factsCandidateRatio E (NameRegistrationFactsVote (recordNameVote E msg a s1))
       (dedupKeyString (sn_Txid msg) (sn_OpIndex msg)) (nameMsgFactsHash E msg) = Inr ratio"
    "resolveNameIfReached E bk p msg ratio i (addNameConfirmation E a r0)
       (emit (NameRegistrationConfirmed i (ValAddressString E a) ratio) (recordNameVote E msg a s1)) = Inr (r3, s5)"
    "s' = s5\<lparr>NameRegistration := kv_set i r3 (NameRegistration s5)\<rparr>"
    by (auto simp: submitOpened_def Let_def rbind_eq_Inr)
  have acct: "n_SteemAccount (addNameConfirmation E a r0) = n_SteemAccount r0"
    "n_Status (addNameConfirmation E a r0) = n_Status r0"
    by (simp_all add: addNameConfirmation_def)
  from r(2) consider (plain) "r3 = addNameConfirmation E a r0"
      "s5 = emit (NameRegistrationConfirmed i (ValAddressString E a) ratio) (recordNameVote E msg a s1)"
    | (res) t where "n_Status r0 = NAME_REGISTRATION_STATUS_PENDING" "BridgeConfirmationThreshold p = Some t" "t \<le> ratio"
      "resolveNameRegistration E bk p (adoptNameFacts msg (addNameConfirmation E a r0))
         (moveAccountIndex i (n_SteemAccount r0) (sn_SteemAccount msg)
           (emit (NameRegistrationConfirmed i (ValAddressString E a) ratio) (recordNameVote E msg a s1))) = Inr (r3, s5)"
    unfolding resolveNameIfReached_def acct by (auto simp: rbind_eq_Inr split: if_splits)
  then show ?thesis
  proof cases
    case plain
    with recorded[OF h] r(3) show ?thesis by (simp add: recordNameVote_def)
  next
    case res
    with resolved[OF h res(1) r(1) res(2-4)] r(3) show ?thesis by simp
  qed
qed (rule repeated)

section \<open>The invariant of the name tables\<close>

definition account_index_ok :: "(u64, name_registration) kv \<Rightarrow> (string \<times> u64) kset \<Rightarrow> bool" where
  "account_index_ok recs byAcc \<longleftrightarrow>
     (\<forall>a i. ks_has byAcc (a, i) \<longleftrightarrow> (\<exists>r. kv_get recs i = Some r \<and> n_SteemAccount r = a))"

definition awaiting_ok ::
    "(string \<Rightarrow> bytes option) \<Rightarrow> (u64, name_registration) kv \<Rightarrow> (bytes \<times> u64) kset \<Rightarrow> bool" where
  "awaiting_ok codec recs aw \<longleftrightarrow>
     (\<forall>a i. ks_has aw (a, i) \<longleftrightarrow> (\<exists>r. kv_get recs i = Some r \<and>
        n_Status r = NAME_REGISTRATION_STATUS_AWAITING_CONFIRMATION \<and> codec (n_DerivedDestination r) = Some a))"

definition links_ok ::
    "(string \<Rightarrow> bytes option) \<Rightarrow> (u64, name_registration) kv \<Rightarrow> (string, name_record) kv \<Rightarrow>
     (bytes \<times> string) kset \<Rightarrow> bool" where
  "links_ok codec recs active byAddr \<longleftrightarrow>
     (\<forall>acct rec. kv_get active acct = Some rec \<longrightarrow> nr_SteemAccount rec = acct \<and> codec (nr_Address rec) \<noteq> None \<and>
        (\<exists>r. kv_get recs (nr_RegistrationId rec) = Some r \<and> n_Status r = NAME_REGISTRATION_STATUS_ACTIVE \<and>
           n_SteemAccount r = acct \<and> n_DerivedDestination r = nr_Address rec)) \<and>
     (\<forall>i r. kv_get recs i = Some r \<longrightarrow> n_Status r = NAME_REGISTRATION_STATUS_ACTIVE \<longrightarrow>
        (\<exists>rec. kv_get active (n_SteemAccount r) = Some rec \<and> nr_RegistrationId rec = i)) \<and>
     (\<forall>a acct. ks_has byAddr (a, acct) \<longleftrightarrow>
        (\<exists>rec. kv_get active acct = Some rec \<and> codec (nr_Address rec) = Some a))"

definition name_inv :: "(string \<Rightarrow> bytes option) \<Rightarrow> 'b bridge_state \<Rightarrow> bool" where
  "name_inv codec s \<longleftrightarrow>
     table_ok n_Id (\<lambda>r. (n_Txid r, n_OpIndex r)) (\<lambda>r. nstat (n_Status r))
       (\<lambda>r. n_Status r = NAME_REGISTRATION_STATUS_EXPIRED)
       (NameRegistrationSeq s) (NameRegistration s) (NameRegistrationByTxid s) (NameRegistrationByStatus s) \<and>
     votes_ok (NameRegistrationConfirmedBy s) (NameRegistrationFactsVote s) \<and>
     account_index_ok (NameRegistration s) (NameRegistrationByAccount s) \<and>
     awaiting_ok codec (NameRegistration s) (NameRegistrationAwaitingByDest s) \<and>
     links_ok codec (NameRegistration s) (ActiveName s) (ActiveNameByAddress s)"

lemma name_inv_same:
  "name_inv codec s \<Longrightarrow> same_names s s' \<Longrightarrow> name_inv codec s'"
  by (simp add: name_inv_def same_names_def)

text \<open>How each index follows a write of one record.\<close>

lemma account_index_insert:
  "account_index_ok recs byAcc \<Longrightarrow> kv_get recs i = None \<Longrightarrow>
   account_index_ok (kv_set i r recs) (ks_set (n_SteemAccount r, i) byAcc)"
  by (auto simp: account_index_ok_def)

lemma account_index_move:
  "account_index_ok recs byAcc \<Longrightarrow> kv_get recs i = Some r0 \<Longrightarrow>
   account_index_ok (kv_set i r recs) (if n_SteemAccount r0 \<noteq> n_SteemAccount r
     then ks_set (n_SteemAccount r, i) (ks_remove (n_SteemAccount r0, i) byAcc) else byAcc)"
  by (auto simp: account_index_ok_def)

lemma account_index_touch:
  "account_index_ok recs byAcc \<Longrightarrow> kv_get recs i = Some r0 \<Longrightarrow> n_SteemAccount r = n_SteemAccount r0 \<Longrightarrow>
   account_index_ok (kv_set i r recs) byAcc"
  using account_index_move[of recs byAcc i r0 r] by simp

lemma awaiting_quiet:
  assumes "awaiting_ok codec recs aw"
    and "\<And>r0. kv_get recs i = Some r0 \<Longrightarrow> n_Status r0 \<noteq> NAME_REGISTRATION_STATUS_AWAITING_CONFIRMATION"
    and "n_Status r \<noteq> NAME_REGISTRATION_STATUS_AWAITING_CONFIRMATION"
  shows "awaiting_ok codec (kv_set i r recs) aw"
  using assms unfolding awaiting_ok_def by (auto 4 3)

lemma awaiting_enter:
  assumes "awaiting_ok codec recs aw"
    and "\<And>r0. kv_get recs i = Some r0 \<Longrightarrow> n_Status r0 \<noteq> NAME_REGISTRATION_STATUS_AWAITING_CONFIRMATION"
    and "n_Status r = NAME_REGISTRATION_STATUS_AWAITING_CONFIRMATION" "codec (n_DerivedDestination r) = Some a"
  shows "awaiting_ok codec (kv_set i r recs) (ks_set (a, i) aw)"
  using assms unfolding awaiting_ok_def by (auto 4 3)

lemma awaiting_leave:
  assumes "awaiting_ok codec recs aw" "kv_get recs i = Some r0" "codec (n_DerivedDestination r0) = Some a"
    and "n_Status r \<noteq> NAME_REGISTRATION_STATUS_AWAITING_CONFIRMATION"
  shows "awaiting_ok codec (kv_set i r recs) (ks_remove (a, i) aw)"
  using assms unfolding awaiting_ok_def by auto

lemma links_quiet:
  assumes "links_ok codec recs active byAddr"
    and "\<And>r0. kv_get recs i = Some r0 \<Longrightarrow> n_Status r0 \<noteq> NAME_REGISTRATION_STATUS_ACTIVE"
    and "n_Status r \<noteq> NAME_REGISTRATION_STATUS_ACTIVE"
  shows "links_ok codec (kv_set i r recs) active byAddr"
proof -
  have "nr_RegistrationId rec \<noteq> i" if "kv_get active acct = Some rec" for acct rec
    using assms(1,2) that unfolding links_ok_def by blast
  with assms show ?thesis unfolding links_ok_def by (auto split: if_splits)
qed

lemma openRegistration_cases:
  assumes "openRegistration E msg s = Inr (r0, i, s1)"
  obtains (fresh) "kv_get (NameRegistrationByTxid s) (sn_Txid msg, sn_OpIndex msg) = None" "i = NameRegistrationSeq s"
      "n_Id r0 = i" "n_Txid r0 = sn_Txid msg" "n_OpIndex r0 = sn_OpIndex msg"
      "n_Status r0 = NAME_REGISTRATION_STATUS_PENDING" "n_SteemAccount r0 = sn_SteemAccount msg"
      "s1 = emit (NameRegistrationCreated i (sn_SteemAccount msg) (sn_Txid msg) (sn_OpIndex msg))
         (s\<lparr>NameRegistrationSeq := NameRegistrationSeq s + 1,
            NameRegistrationByTxid := kv_set (sn_Txid msg, sn_OpIndex msg) i (NameRegistrationByTxid s),
            NameRegistrationByStatus := ks_set (nstat NAME_REGISTRATION_STATUS_PENDING, i) (NameRegistrationByStatus s),
            NameRegistrationByAccount := ks_set (sn_SteemAccount msg, i) (NameRegistrationByAccount s)\<rparr>)"
  | (known) ev where "kv_get (NameRegistrationByTxid s) (sn_Txid msg, sn_OpIndex msg) = Some i"
      "kv_get (NameRegistration s) i = Some r0" "s1 = s\<lparr>b_events := ev\<rparr>"
proof (cases "kv_get (NameRegistrationByTxid s) (sn_Txid msg, sn_OpIndex msg)")
  case None
  with assms show ?thesis by (intro fresh) (auto simp: openRegistration_def newRegistration_def Let_def)
next
  case (Some j)
  with assms have "j = i" "kv_get (NameRegistration s) i = Some r0"
    "s1 = s\<lparr>b_events := (if matchesPendingRegistration r0 msg then b_events s
         else b_events s @ [NameRegistrationMismatch i r0 msg])\<rparr>"
    by (auto simp: openRegistration_def rbind_eq_Inr emit_def)
  with Some show ?thesis by (intro known) auto
qed

lemma accepted_pending:
  assumes "ValidateNameRegistrationAcceptance E msg s = Inr ()" "openRegistration E msg s = Inr (r0, i, s1)"
  shows "n_Status r0 = NAME_REGISTRATION_STATUS_PENDING"
  using assms(2)
proof (cases rule: openRegistration_cases)
  case (known ev)
  with assms(1) show ?thesis
    by (auto simp: ValidateNameRegistrationAcceptance_def rbind_eq_Inr lookupNameRegistrationByTxid_def)
qed

lemma accepted_unconfirmed:
  assumes "ValidateNameRegistrationAcceptance E msg s = Inr ()" "StringToBytes E (sn_Validator msg) = Some a"
  shows "\<not> ks_has (NameRegistrationConfirmedBy s) (sn_Txid msg, sn_OpIndex msg, a)"
  using assms by (auto simp: ValidateNameRegistrationAcceptance_def rbind_eq_Inr)

text \<open>
  How a submission leaves the record \<open>r0\<close> it opened: recorded and still pending, or resolved to an
  unclaimable or awaiting record under the winning facts, with each index following.
\<close>

definition submission_outcome ::
    "env \<Rightarrow> msg_submit_name \<Rightarrow> 'b bridge_state \<Rightarrow> 'b bridge_state \<Rightarrow> 'b bridge_state \<Rightarrow> u64 \<Rightarrow>
     name_registration \<Rightarrow> name_registration \<Rightarrow> bool" where
  "submission_outcome E msg s s1 s' i r0 r \<longleftrightarrow>
     n_Status r = NAME_REGISTRATION_STATUS_PENDING \<and> n_SteemAccount r = n_SteemAccount r0 \<and> bank s' = bank s \<and>
       Totals s' = Totals s \<and> NameRegistrationByStatus s' = NameRegistrationByStatus s1 \<and>
       NameRegistrationByAccount s' = NameRegistrationByAccount s1 \<and>
       NameRegistrationAwaitingByDest s' = NameRegistrationAwaitingByDest s
     \<or> n_Status r \<in> {NAME_REGISTRATION_STATUS_UNCLAIMABLE, NAME_REGISTRATION_STATUS_AWAITING_CONFIRMATION} \<and>
       NameRegistrationByStatus s' = ks_set (nstat (n_Status r), n_Id r0)
         (ks_remove (nstat (n_Status r0), n_Id r0) (NameRegistrationByStatus s1)) \<and>
       n_SteemAccount r = sn_SteemAccount msg \<and>
       NameRegistrationByAccount s' = (if n_SteemAccount r0 \<noteq> sn_SteemAccount msg
         then ks_set (sn_SteemAccount msg, i) (ks_remove (n_SteemAccount r0, i) (NameRegistrationByAccount s1))
         else NameRegistrationByAccount s1) \<and>
       (n_Status r = NAME_REGISTRATION_STATUS_UNCLAIMABLE \<and>
          NameRegistrationAwaitingByDest s' = NameRegistrationAwaitingByDest s \<or>
        n_Status r = NAME_REGISTRATION_STATUS_AWAITING_CONFIRMATION \<and>
          (\<exists>dest. BytesToString E dest = Some (n_DerivedDestination r) \<and>
             NameRegistrationAwaitingByDest s' = ks_set (dest, n_Id r0) (NameRegistrationAwaitingByDest s)))"

text \<open>
  What a successful submission does to the name tables: the record opened under its key becomes
  \<open>r\<close>, which is still pending or resolved, and each index follows.
\<close>

lemma SubmitNameRegistration_effect:
  assumes "SubmitNameRegistration E bk msg s = Inr s'" "s' \<noteq> s"
  obtains a r0 i s1 r where
    "StringToBytes E (sn_Validator msg) = Some a" "is_bonded E a"
    "\<not> ks_has (NameRegistrationConfirmedBy s) (sn_Txid msg, sn_OpIndex msg, a)"
    "openRegistration E msg s = Inr (r0, i, s1)" "n_Status r0 = NAME_REGISTRATION_STATUS_PENDING"
    "n_Id r = n_Id r0" "n_Txid r = n_Txid r0" "n_OpIndex r = n_OpIndex r0"
    "submission_outcome E msg s s1 s' i r0 r"
    "NameRegistration s' = kv_set i r (NameRegistration s)" "NameRegistrationSeq s' = NameRegistrationSeq s1"
    "NameRegistrationByTxid s' = NameRegistrationByTxid s1"
    "NameRegistrationConfirmedBy s' = ks_set (sn_Txid msg, sn_OpIndex msg, a) (NameRegistrationConfirmedBy s)"
    "NameRegistrationFactsVote s' =
       ks_set (dedupKeyString (sn_Txid msg) (sn_OpIndex msg), nameMsgFactsHash E msg, a) (NameRegistrationFactsVote s)"
    "ActiveName s' = ActiveName s" "ActiveNameByAddress s' = ActiveNameByAddress s"
    "same_deposits s s'" "same_withdrawals s s'" "b_Params s' = b_Params s" "BridgeDutyQueue s' = BridgeDutyQueue s"
    "FreeDepositCounter s' = FreeDepositCounter s" "FreeNameConfirmCounter s' = FreeNameConfirmCounter s"
  using assms(1)
proof (cases rule: SubmitNameRegistration_Inr)
  case repeated
  with assms(2) show ?thesis by simp
next
  case (recorded p a r0 i s1 ratio)
  note pend = accepted_pending[OF recorded(4,5)] and unconf = accepted_unconfirmed[OF recorded(4,2)]
  show ?thesis
    by (rule that[OF recorded(2,3) unconf recorded(5) pend, where r = "addNameConfirmation E a r0"];
        use recorded(5) pend in \<open>cases rule: openRegistration_cases;
          simp add: submission_outcome_def recorded(6) addNameConfirmation_def recordNameVote_def same_defs\<close>)
next
  case (resolved p a r0 i s1 ratio t r2 s4)
  note unconf = accepted_unconfirmed[OF resolved(4,2)]
  show ?thesis using resolved(10)
  proof (cases rule: resolveNameRegistration_cases)
    case (unclaimable ty)
    show ?thesis
      by (rule that[OF resolved(2,3) unconf resolved(5,6), where r = r2];
        use resolved(5) in \<open>cases rule: openRegistration_cases;
          simp add: submission_outcome_def resolved(6,11) unclaimable(2,3) adoptNameFacts_def addNameConfirmation_def recordNameVote_def
            moveAccountIndex_def same_defs\<close>)
  next
    case (awaiting dest ty str s2 amt b u ev)
    show ?thesis
      by (rule that[OF resolved(2,3) unconf resolved(5,6), where r = r2];
        use resolved(5) in \<open>cases rule: openRegistration_cases;
          use awaiting(3) in \<open>auto simp: submission_outcome_def resolved(6,11) awaiting(5,6) adoptNameFacts_def addNameConfirmation_def
            recordNameVote_def moveAccountIndex_def same_defs\<close>\<close>)
  qed
qed

text \<open>Rendering an account address and decoding it again gives the address back.\<close>

definition account_codec_ok :: "(string \<Rightarrow> bytes option) \<Rightarrow> env \<Rightarrow> bool" where
  "account_codec_ok codec E \<longleftrightarrow> StringToBytes E = codec \<and> (\<forall>a x. BytesToString E a = Some x \<longrightarrow> codec x = Some a)"

abbreviation names_table_ok where
  "names_table_ok \<equiv> table_ok n_Id (\<lambda>r. (n_Txid r, n_OpIndex r)) (\<lambda>r. nstat (n_Status r))
       (\<lambda>r. n_Status r = NAME_REGISTRATION_STATUS_EXPIRED)"

lemma name_invD:
  assumes "name_inv codec s"
  shows "names_table_ok (NameRegistrationSeq s) (NameRegistration s) (NameRegistrationByTxid s) (NameRegistrationByStatus s)"
    and "votes_ok (NameRegistrationConfirmedBy s) (NameRegistrationFactsVote s)"
    and "account_index_ok (NameRegistration s) (NameRegistrationByAccount s)"
    and "awaiting_ok codec (NameRegistration s) (NameRegistrationAwaitingByDest s)"
    and "links_ok codec (NameRegistration s) (ActiveName s) (ActiveNameByAddress s)"
  using assms by (simp_all add: name_inv_def)

lemma submission_tables:
  assumes ok: "names_table_ok (NameRegistrationSeq s) (NameRegistration s) (NameRegistrationByTxid s) (NameRegistrationByStatus s)"
    and acc: "account_index_ok (NameRegistration s) (NameRegistrationByAccount s)"
    and op: "openRegistration E msg s = Inr (r0, i, s1)" "n_Status r0 = NAME_REGISTRATION_STATUS_PENDING"
    and st: "submission_outcome E msg s s1 s' i r0 r"
    and id: "n_Id r = n_Id r0" "n_Txid r = n_Txid r0" "n_OpIndex r = n_OpIndex r0"
    and eff: "NameRegistration s' = kv_set i r (NameRegistration s)" "NameRegistrationSeq s' = NameRegistrationSeq s1"
      "NameRegistrationByTxid s' = NameRegistrationByTxid s1"
    and seq: "NameRegistrationSeq s + 1 \<noteq> 0"
  shows "names_table_ok (NameRegistrationSeq s') (NameRegistration s') (NameRegistrationByTxid s') (NameRegistrationByStatus s') \<and>
     account_index_ok (NameRegistration s') (NameRegistrationByAccount s') \<and> n_Id r0 = i \<and>
     (\<forall>q. kv_get (NameRegistration s) i = Some q \<longrightarrow> n_Status q = NAME_REGISTRATION_STATUS_PENDING)"
  using op(1)
proof (cases rule: openRegistration_cases)
  case fresh
  have none: "kv_get (NameRegistration s) (NameRegistrationSeq s) = None"
    using table_ok_get(2)[OF ok] by (cases "kv_get (NameRegistration s) (NameRegistrationSeq s)") auto
  have ins: "names_table_ok (NameRegistrationSeq s1) (kv_set i r0 (NameRegistration s)) (NameRegistrationByTxid s1)
      (NameRegistrationByStatus s1)"
    using table_ok_insert[OF ok seq, of r0] fresh none by simp
  have get: "kv_get (kv_set i r0 (NameRegistration s)) i = Some r0" by simp
  have "names_table_ok (NameRegistrationSeq s') (NameRegistration s') (NameRegistrationByTxid s') (NameRegistrationByStatus s')"
    using st table_ok_touch[OF ins get, of r] table_ok_update[OF ins get, of r] fresh(3) op(2) id
    by (auto simp: eff submission_outcome_def)
  moreover have "account_index_ok (NameRegistration s') (NameRegistrationByAccount s')"
    using st account_index_insert[OF acc none, of r] fresh(2,7,8) by (auto simp: eff submission_outcome_def)
  ultimately show ?thesis using fresh none by simp
next
  case (known ev)
  have i: "n_Id r0 = i" using table_ok_get(1)[OF ok known(2)] .
  have "names_table_ok (NameRegistrationSeq s') (NameRegistration s') (NameRegistrationByTxid s') (NameRegistrationByStatus s')"
    using st table_ok_touch[OF ok known(2), of r] table_ok_update[OF ok known(2), of r] i id op(2) known(3)
    by (auto simp: eff submission_outcome_def)
  moreover have "account_index_ok (NameRegistration s') (NameRegistrationByAccount s')"
    using st account_index_touch[OF acc known(2), of r] account_index_move[OF acc known(2), of r] known(3)
    by (auto simp: eff submission_outcome_def)
  ultimately show ?thesis using i known(2) op(2) by simp
qed

lemma SubmitNameRegistration_inv:
  assumes inv: "name_inv codec s" and run: "SubmitNameRegistration E bk msg s = Inr s'"
    and codec: "account_codec_ok codec E" and seq: "NameRegistrationSeq s + 1 \<noteq> 0"
  shows "name_inv codec s'"
proof (cases "s' = s")
  case False
  obtain a r0 i s1 r where
    at: "\<not> ks_has (NameRegistrationConfirmedBy s) (sn_Txid msg, sn_OpIndex msg, a)"
      "openRegistration E msg s = Inr (r0, i, s1)" "n_Status r0 = NAME_REGISTRATION_STATUS_PENDING"
      "n_Id r = n_Id r0" "n_Txid r = n_Txid r0" "n_OpIndex r = n_OpIndex r0"
    and st: "submission_outcome E msg s s1 s' i r0 r"
    and eff: "NameRegistration s' = kv_set i r (NameRegistration s)" "NameRegistrationSeq s' = NameRegistrationSeq s1"
      "NameRegistrationByTxid s' = NameRegistrationByTxid s1"
      "NameRegistrationConfirmedBy s' = ks_set (sn_Txid msg, sn_OpIndex msg, a) (NameRegistrationConfirmedBy s)"
      "NameRegistrationFactsVote s' =
         ks_set (dedupKeyString (sn_Txid msg) (sn_OpIndex msg), nameMsgFactsHash E msg, a) (NameRegistrationFactsVote s)"
      "ActiveName s' = ActiveName s" "ActiveNameByAddress s' = ActiveNameByAddress s"
    by (rule SubmitNameRegistration_effect[OF run False]) blast
  note D = name_invD[OF inv]
  have tab: "names_table_ok (NameRegistrationSeq s') (NameRegistration s') (NameRegistrationByTxid s') (NameRegistrationByStatus s')"
    "account_index_ok (NameRegistration s') (NameRegistrationByAccount s')" "n_Id r0 = i"
    and prev: "\<And>q. kv_get (NameRegistration s) i = Some q \<Longrightarrow> n_Status q = NAME_REGISTRATION_STATUS_PENDING"
    using submission_tables[OF D(1,3) at(2,3) st at(4-6) eff(1-3) seq] by blast+
  have "awaiting_ok codec (NameRegistration s') (NameRegistrationAwaitingByDest s')"
    using st awaiting_quiet[OF D(4), of i r] awaiting_enter[OF D(4), of i r] prev tab(3) codec
    unfolding account_codec_ok_def eff(1) submission_outcome_def by auto
  moreover have "links_ok codec (NameRegistration s') (ActiveName s') (ActiveNameByAddress s')"
    using st links_quiet[OF D(5), of i r] prev by (auto simp: eff submission_outcome_def)
  moreover have "votes_ok (NameRegistrationConfirmedBy s') (NameRegistrationFactsVote s')"
    using D(2) at(1) by (simp add: eff votes_ok_record)
  ultimately show ?thesis using tab by (simp add: name_inv_def)
qed (use inv in simp)

lemma links_okI:
  assumes "\<And>acct rec. kv_get active acct = Some rec \<Longrightarrow> nr_SteemAccount rec = acct \<and> codec (nr_Address rec) \<noteq> None \<and>
        (\<exists>r. kv_get recs (nr_RegistrationId rec) = Some r \<and> n_Status r = NAME_REGISTRATION_STATUS_ACTIVE \<and>
           n_SteemAccount r = acct \<and> n_DerivedDestination r = nr_Address rec)"
    and "\<And>i r. kv_get recs i = Some r \<Longrightarrow> n_Status r = NAME_REGISTRATION_STATUS_ACTIVE \<Longrightarrow>
        \<exists>rec. kv_get active (n_SteemAccount r) = Some rec \<and> nr_RegistrationId rec = i"
    and "\<And>a acct. ks_has byAddr (a, acct) \<longleftrightarrow> (\<exists>rec. kv_get active acct = Some rec \<and> codec (nr_Address rec) = Some a)"
  shows "links_ok codec recs active byAddr"
  unfolding links_ok_def using assms by blast

lemma links_okD:
  assumes "links_ok codec recs active byAddr"
  shows "kv_get active acct = Some rec \<Longrightarrow> nr_SteemAccount rec = acct \<and> codec (nr_Address rec) \<noteq> None \<and>
        (\<exists>r. kv_get recs (nr_RegistrationId rec) = Some r \<and> n_Status r = NAME_REGISTRATION_STATUS_ACTIVE \<and>
           n_SteemAccount r = acct \<and> n_DerivedDestination r = nr_Address rec)"
    and "kv_get recs i = Some r \<Longrightarrow> n_Status r = NAME_REGISTRATION_STATUS_ACTIVE \<Longrightarrow>
        \<exists>rec. kv_get active (n_SteemAccount r) = Some rec \<and> nr_RegistrationId rec = i"
    and "ks_has byAddr (a, acct) \<longleftrightarrow> (\<exists>rec. kv_get active acct = Some rec \<and> codec (nr_Address rec) = Some a)"
  using assms unfolding links_ok_def by blast+

text \<open>Taking an account's link down: its registration is no longer active and its reverse entry goes.\<close>

lemma links_takedown:
  assumes ok: "links_ok codec recs active byAddr" and e: "kv_get active acct = Some e" "codec (nr_Address e) = Some b"
    and q: "n_Status q \<noteq> NAME_REGISTRATION_STATUS_ACTIVE"
  shows "links_ok codec (kv_set (nr_RegistrationId e) q recs) (kv_remove acct active) (ks_remove (b, acct) byAddr)"
proof (rule links_okI)
  note D = links_okD[OF ok]
  fix k x assume "kv_get (kv_remove acct active) k = Some x"
  then have x: "kv_get active k = Some x" "k \<noteq> acct" by (auto split: if_splits)
  have "nr_RegistrationId x \<noteq> nr_RegistrationId e" using D(1)[OF x(1)] D(1)[OF e(1)] x(2) by auto
  with D(1)[OF x(1)] show "nr_SteemAccount x = k \<and> codec (nr_Address x) \<noteq> None \<and>
      (\<exists>r. kv_get (kv_set (nr_RegistrationId e) q recs) (nr_RegistrationId x) = Some r \<and>
        n_Status r = NAME_REGISTRATION_STATUS_ACTIVE \<and> n_SteemAccount r = k \<and> n_DerivedDestination r = nr_Address x)"
    by simp
next
  note D = links_okD[OF ok]
  fix i r assume "kv_get (kv_set (nr_RegistrationId e) q recs) i = Some r" "n_Status r = NAME_REGISTRATION_STATUS_ACTIVE"
  then have r: "kv_get recs i = Some r" "i \<noteq> nr_RegistrationId e" "n_Status r = NAME_REGISTRATION_STATUS_ACTIVE"
    using q by (auto split: if_splits)
  with D(2)[OF r(1,3)] e(1) show "\<exists>rec. kv_get (kv_remove acct active) (n_SteemAccount r) = Some rec \<and> nr_RegistrationId rec = i"
    by auto
next
  fix a k show "ks_has (ks_remove (b, acct) byAddr) (a, k) \<longleftrightarrow>
      (\<exists>rec. kv_get (kv_remove acct active) k = Some rec \<and> codec (nr_Address rec) = Some a)"
    using links_okD(3)[OF ok, of a k] e by auto
qed

text \<open>Installing a link for an account that has none.\<close>

lemma links_install:
  assumes ok: "links_ok codec recs active byAddr" and free: "kv_get active acct = None"
    and new: "n_Status r' = NAME_REGISTRATION_STATUS_ACTIVE" "n_SteemAccount r' = acct"
      "nr_SteemAccount rec = acct" "nr_RegistrationId rec = i" "nr_Address rec = n_DerivedDestination r'"
      "codec (nr_Address rec) = Some a"
    and old: "kv_get recs i = Some r" "n_Status r \<noteq> NAME_REGISTRATION_STATUS_ACTIVE"
  shows "links_ok codec (kv_set i r' recs) (kv_set acct rec active) (ks_set (a, acct) byAddr)"
proof (rule links_okI)
  note D = links_okD[OF ok]
  fix k x assume x: "kv_get (kv_set acct rec active) k = Some x"
  show "nr_SteemAccount x = k \<and> codec (nr_Address x) \<noteq> None \<and>
      (\<exists>r. kv_get (kv_set i r' recs) (nr_RegistrationId x) = Some r \<and>
        n_Status r = NAME_REGISTRATION_STATUS_ACTIVE \<and> n_SteemAccount r = k \<and> n_DerivedDestination r = nr_Address x)"
  proof (cases "k = acct")
    case False
    with x have "kv_get active k = Some x" by simp
    from D(1)[OF this] old show ?thesis by auto
  qed (use x new in auto)
next
  note D = links_okD[OF ok]
  fix j q assume "kv_get (kv_set i r' recs) j = Some q" "n_Status q = NAME_REGISTRATION_STATUS_ACTIVE"
  then show "\<exists>rec'. kv_get (kv_set acct rec active) (n_SteemAccount q) = Some rec' \<and> nr_RegistrationId rec' = j"
    using D(2)[of j q] free new by (auto split: if_splits)
next
  fix c k show "ks_has (ks_set (a, acct) byAddr) (c, k) \<longleftrightarrow>
      (\<exists>x. kv_get (kv_set acct rec active) k = Some x \<and> codec (nr_Address x) = Some c)"
    using links_okD(3)[OF ok, of c k] free new(6) by auto
qed


lemma ConfirmName_Inr:
  assumes "ConfirmName E msg s = Inr s'"
  obtains p r a s1 where "b_Params s = Some p" "NameServiceEnabled p"
    "kv_get (NameRegistration s) (cn_RegistrationId msg) = Some r"
    "n_Status r = NAME_REGISTRATION_STATUS_AWAITING_CONFIRMATION" "StringToBytes E (cn_Confirmer msg) = Some a"
    "StringToBytes E (n_DerivedDestination r) = Some a" "supersedeActive E r s = Inr s1" "s' = installLink E r a s1"
  using assms by (auto simp: ConfirmName_def ValidateNameConfirmationAcceptance_def rbind_eq_Inr)

lemma links_replace:
  "links_ok codec recs (kv_set acct rec (kv_remove acct active)) byAddr \<longleftrightarrow> links_ok codec recs (kv_set acct rec active) byAddr"
proof -
  have "kv_get (kv_set acct rec (kv_remove acct active)) = kv_get (kv_set acct rec active)" by auto
  then show ?thesis by (simp add: links_ok_def)
qed

lemma supersedeActive_cases:
  assumes inv: "name_inv codec s" and run: "supersedeActive E r s = Inr s1" and codec: "StringToBytes E = codec"
  obtains (free) "kv_get (ActiveName s) (n_SteemAccount r) = None" "s1 = s"
  | (taken) e b q ev where "kv_get (ActiveName s) (n_SteemAccount r) = Some e" "codec (nr_Address e) = Some b"
      "kv_get (NameRegistration s) (nr_RegistrationId e) = Some q" "n_Status q = NAME_REGISTRATION_STATUS_ACTIVE"
      "n_Id q = nr_RegistrationId e"
      "s1 = s\<lparr>ActiveNameByAddress := ks_remove (b, n_SteemAccount r) (ActiveNameByAddress s),
         NameRegistrationByStatus := ks_set (nstat NAME_REGISTRATION_STATUS_SUPERSEDED, nr_RegistrationId e)
           (ks_remove (nstat (n_Status q), nr_RegistrationId e) (NameRegistrationByStatus s)),
         NameRegistration := kv_set (nr_RegistrationId e) (q\<lparr>n_Status := NAME_REGISTRATION_STATUS_SUPERSEDED\<rparr>)
           (NameRegistration s),
         b_events := ev\<rparr>"
proof (cases "kv_get (ActiveName s) (n_SteemAccount r)")
  case None
  with run have "s1 = s" by (simp add: supersedeActive_def)
  with None show ?thesis by (rule free)
next
  case (Some e)
  note D = name_invD[OF inv]
  obtain q where q: "kv_get (NameRegistration s) (nr_RegistrationId e) = Some q"
    "n_Status q = NAME_REGISTRATION_STATUS_ACTIVE" "nr_SteemAccount e = n_SteemAccount r"
    using links_okD(1)[OF D(5) Some] by blast
  have id: "n_Id q = nr_RegistrationId e" by (rule table_ok_get(1)[OF D(1) q(1)])
  obtain b where b: "codec (nr_Address e) = Some b"
    using run Some codec by (auto simp: supersedeActive_def rbind_eq_Inr)
  have "s1 = emit (NameSuperseded (n_SteemAccount r) (nr_RegistrationId e) (nr_Address e) (n_Id r))
      (supersedeRegistration (nr_RegistrationId e)
        (s\<lparr>ActiveNameByAddress := ks_remove (b, n_SteemAccount r) (ActiveNameByAddress s)\<rparr>))"
    using run by (simp add: supersedeActive_def Some codec b q(3))
  then show ?thesis
    by (intro taken[OF Some b q(1,2) id]) (simp add: supersedeRegistration_def setNameRegistrationStatus_def
        emit_def q(1,2) id)
qed

text \<open>The fields of the name tables after the link of \<open>r\<close> is installed over \<open>s1\<close>.\<close>

definition linkedRegistration :: "env \<Rightarrow> name_registration \<Rightarrow> name_registration" where
  "linkedRegistration E r = r\<lparr>n_ConfirmedAt := BlockHeight E, n_ConfirmTxHash := txHashHex E,
     n_Status := NAME_REGISTRATION_STATUS_ACTIVE\<rparr>"

definition linkRecord :: "env \<Rightarrow> name_registration \<Rightarrow> name_record" where
  "linkRecord E r = \<lparr>nr_SteemAccount = n_SteemAccount r, nr_Address = n_DerivedDestination r,
     nr_RegistrationId = n_Id r, nr_LinkedAt = BlockHeight E\<rparr>"

lemma linked_simps [simp]:
  "n_Id (linkedRegistration E r) = n_Id r" "n_Txid (linkedRegistration E r) = n_Txid r"
  "n_OpIndex (linkedRegistration E r) = n_OpIndex r" "n_SteemAccount (linkedRegistration E r) = n_SteemAccount r"
  "n_Status (linkedRegistration E r) = NAME_REGISTRATION_STATUS_ACTIVE"
  "n_DerivedDestination (linkedRegistration E r) = n_DerivedDestination r"
  "nr_SteemAccount (linkRecord E r) = n_SteemAccount r" "nr_Address (linkRecord E r) = n_DerivedDestination r"
  "nr_RegistrationId (linkRecord E r) = n_Id r"
  by (simp_all add: linkedRegistration_def linkRecord_def)

lemma installLink_fields:
  "NameRegistrationSeq (installLink E r a s1) = NameRegistrationSeq s1"
  "NameRegistrationByTxid (installLink E r a s1) = NameRegistrationByTxid s1"
  "NameRegistrationConfirmedBy (installLink E r a s1) = NameRegistrationConfirmedBy s1"
  "NameRegistrationFactsVote (installLink E r a s1) = NameRegistrationFactsVote s1"
  "NameRegistrationByAccount (installLink E r a s1) = NameRegistrationByAccount s1"
  "NameRegistration (installLink E r a s1) = kv_set (n_Id r) (linkedRegistration E r) (NameRegistration s1)"
  "ActiveName (installLink E r a s1) = kv_set (n_SteemAccount r) (linkRecord E r) (ActiveName s1)"
  "ActiveNameByAddress (installLink E r a s1) = ks_set (a, n_SteemAccount r) (ActiveNameByAddress s1)"
  "NameRegistrationAwaitingByDest (installLink E r a s1) = ks_remove (a, n_Id r) (NameRegistrationAwaitingByDest s1)"
  "NameRegistrationByStatus (installLink E r a s1) = ks_set (nstat NAME_REGISTRATION_STATUS_ACTIVE, n_Id r)
     (ks_remove (nstat (n_Status r), n_Id r) (NameRegistrationByStatus s1))"
  "same_deposits s1 (installLink E r a s1)" "same_withdrawals s1 (installLink E r a s1)"
  "bank (installLink E r a s1) = bank s1" "Totals (installLink E r a s1) = Totals s1"
  "b_Params (installLink E r a s1) = b_Params s1" "BridgeDutyQueue (installLink E r a s1) = BridgeDutyQueue s1"
  "FreeDepositCounter (installLink E r a s1) = FreeDepositCounter s1"
  "FreeNameConfirmCounter (installLink E r a s1) = FreeNameConfirmCounter s1"
  by (simp_all add: installLink_def Let_def setNameRegistrationStatus_def linkedRegistration_def linkRecord_def same_defs)

lemma ConfirmName_inv:
  assumes inv: "name_inv codec s" and run: "ConfirmName E msg s = Inr s'" and codec: "StringToBytes E = codec"
  shows "name_inv codec s'"
proof -
  note D = name_invD[OF inv]
  obtain r a s1 where c: "kv_get (NameRegistration s) (cn_RegistrationId msg) = Some r"
    "n_Status r = NAME_REGISTRATION_STATUS_AWAITING_CONFIRMATION"
    "codec (n_DerivedDestination r) = Some a" "supersedeActive E r s = Inr s1" "s' = installLink E r a s1"
    using ConfirmName_Inr[OF run] codec by metis
  have id: "n_Id r = cn_RegistrationId msg" by (rule table_ok_get(1)[OF D(1) c(1)])
  have get: "kv_get (NameRegistration s) (n_Id r) = Some r" using c(1) id by simp
  let ?r = "linkedRegistration E r"
  from inv c(4) codec show ?thesis
  proof (cases rule: supersedeActive_cases)
    case free
    show ?thesis
      unfolding name_inv_def c(5) installLink_fields free(2)
      using table_ok_update[OF D(1) get, of ?r] account_index_touch[OF D(3) get, of ?r] D(2)
        awaiting_leave[OF D(4) get c(3), of ?r]
        links_install[OF D(5) free(1) _ _ _ _ _ _ get, of ?r "linkRecord E r" a] c(2,3) by simp
  next
    case (taken e b q ev)
    let ?j = "nr_RegistrationId e" and ?q = "q\<lparr>n_Status := NAME_REGISTRATION_STATUS_SUPERSEDED\<rparr>"
    have ne: "n_Id r \<noteq> ?j" using get taken(3,4) c(2) by auto
    have get2: "kv_get (kv_set ?j ?q (NameRegistration s)) (n_Id r) = Some r" using get ne by simp
    have tab: "names_table_ok (NameRegistrationSeq s) (kv_set ?j ?q (NameRegistration s)) (NameRegistrationByTxid s)
       (ks_set (nstat NAME_REGISTRATION_STATUS_SUPERSEDED, ?j) (ks_remove (nstat (n_Status q), ?j) (NameRegistrationByStatus s)))"
      using table_ok_update[OF D(1) taken(3), of ?q] taken(4,5) by simp
    have aw: "awaiting_ok codec (kv_set ?j ?q (NameRegistration s)) (NameRegistrationAwaitingByDest s)"
      by (rule awaiting_quiet[OF D(4)]) (use taken(3,4) in auto)
    have acc: "account_index_ok (kv_set ?j ?q (NameRegistration s)) (NameRegistrationByAccount s)"
      by (rule account_index_touch[OF D(3) taken(3)]) simp
    have li: "links_ok codec (kv_set ?j ?q (NameRegistration s)) (kv_remove (n_SteemAccount r) (ActiveName s))
        (ks_remove (b, n_SteemAccount r) (ActiveNameByAddress s))"
      by (rule links_takedown[OF D(5) taken(1,2)]) simp
    have "links_ok codec (kv_set (n_Id r) ?r (kv_set ?j ?q (NameRegistration s)))
        (kv_set (n_SteemAccount r) (linkRecord E r) (ActiveName s))
        (ks_set (a, n_SteemAccount r) (ks_remove (b, n_SteemAccount r) (ActiveNameByAddress s)))"
      using links_install[OF li _ _ _ _ _ _ _ get2, of "n_SteemAccount r" ?r "linkRecord E r" a] c(2,3)
      by (simp add: links_replace)
    then show ?thesis
      unfolding name_inv_def c(5) installLink_fields taken(6)
      using table_ok_update[OF tab get2, of ?r] account_index_touch[OF acc get2, of ?r] D(2)
        awaiting_leave[OF aw get2 c(3), of ?r] c(2) by simp
  qed
qed

section \<open>Properties\<close>

lemma openRegistration_frame:
  assumes "openRegistration E msg s = Inr (r0, i, s1)"
  shows "bank s1 = bank s" "Totals s1 = Totals s" "NameRegistration s1 = NameRegistration s"
    "NameRegistrationFactsVote s1 = NameRegistrationFactsVote s"
  using assms by (cases rule: openRegistration_cases; simp)+

lemma nameStep_frame [simp]:
  "bank (moveAccountIndex i x y s) = bank s" "Totals (moveAccountIndex i x y s) = Totals s"
  "NameRegistrationFactsVote (moveAccountIndex i x y s) = NameRegistrationFactsVote s"
  "bank (recordNameVote E msg a s) = bank s" "Totals (recordNameVote E msg a s) = Totals s"
  by (simp_all add: moveAccountIndex_def recordNameVote_def)

text \<open>
  A registration fee is credited only on a quorum, and in full. When a submission changes the
  ledger, the validators backing exactly its facts hold at least the threshold \<open>t\<close> of the bonded power;
  the whole amount goes, without a bridge fee, to the destination derived from the memo; and the
  registration is left awaiting that destination's consent.
\<close>

theorem name_credit_needs_quorum:
  assumes "dec_env E" "bank_keeper bk maddr pool bal supply_of" "SubmitNameRegistration E bk msg s = Inr s'"
    and "bank s' \<noteq> bank s" "b_Params s = Some p" "BridgeConfirmationThreshold p = Some t" "0 < t"
    and "TotalValidatorPower E = Some T"
  shows "0 < T \<and>
    (2 * t - 1) * T \<le> 2 * attested_power E (NameRegistrationFactsVote s')
           (dedupKeyString (sn_Txid msg) (sn_OpIndex msg)) (nameMsgFactsHash E msg) * dec_one \<and>
    (\<exists>i r dest ty. kv_get (NameRegistration s') i = Some r \<and> matchesPendingRegistration r msg \<and>
       n_Status r = NAME_REGISTRATION_STATUS_AWAITING_CONFIRMATION \<and>
       DeriveDestination E (n_Memo r) = Some (dest, ty) \<and> BytesToString E dest = Some (n_DerivedDestination r) \<and>
       (\<forall>a d. bal (bank s') a d = bal (bank s) a d +
          (if d = DefaultBondDenom \<and> a = dest then MillisteemToAsteem (n_AmountMillisteem r) else 0)))"
  using assms(3)
proof (cases rule: SubmitNameRegistration_Inr)
  case repeated
  with assms(4) show ?thesis by simp
next
  case (recorded p' a r0 i s1 ratio)
  with assms(4) openRegistration_frame[OF recorded(5)] show ?thesis by simp
next
  case (resolved p' a r0 i s1 ratio t' r2 s4)
  let ?r = "adoptNameFacts msg (addNameConfirmation E a r0)"
  note fr = openRegistration_frame[OF resolved(5)]
  have p: "p' = p" "t' = t" using resolved(1,8) assms(5,6) by auto
  show ?thesis using resolved(10)
  proof (cases rule: resolveNameRegistration_cases)
    case (unclaimable ty)
    with assms(4) resolved(11) fr show ?thesis by simp
  next
    case (awaiting dest ty str s2 amt b u ev)
    have votes: "NameRegistrationFactsVote s' = NameRegistrationFactsVote (recordNameVote E msg a s1)"
      by (simp add: resolved(11) awaiting(6))
    have "power_ratio E (attested_power E (NameRegistrationFactsVote s')
        (dedupKeyString (sn_Txid msg) (sn_OpIndex msg)) (nameMsgFactsHash E msg)) = Inr ratio"
      using resolved(7) by (simp add: votes attested_power_def factsCandidateRatio_def)
    note q = dec_env.ratio_reaches_threshold[OF assms(1) this assms(8) resolved(9)[unfolded p] assms(7)]
    have free: "ApplyBridgeFee m 0 = (m, 0)" for m by (simp add: ApplyBridgeFee_def)
    have credit: "bal (bank s') x d = bal (bank s) x d +
        (if d = DefaultBondDenom \<and> x = dest then MillisteemToAsteem (n_AmountMillisteem r2) else 0)" for x d
    proof -
      have "amt = MillisteemToAsteem (n_AmountMillisteem r2)"
        using creditBridged_frame[OF awaiting(4)] by (auto simp: free awaiting(5))
      then show ?thesis
        using bank_keeper.creditBridged_effect(2)[OF assms(2) awaiting(4), of x d] awaiting(6,7) resolved(11)
        by (auto simp: fr free DenomForAsset_def BRIDGE_ASSET_STEEM_def BRIDGE_ASSET_SBD_def MillisteemToAsteem_def)
    qed
    have "kv_get (NameRegistration s') i = Some r2 \<and> matchesPendingRegistration r2 msg \<and>
       n_Status r2 = NAME_REGISTRATION_STATUS_AWAITING_CONFIRMATION \<and>
       DeriveDestination E (n_Memo r2) = Some (dest, ty) \<and> BytesToString E dest = Some (n_DerivedDestination r2)"
      using awaiting(1,3) by (simp add: resolved(11) awaiting(5) adoptNameFacts_def matchesPendingRegistration_def)
    with q credit show ?thesis by blast
  qed
qed

definition demo_name :: "string \<Rightarrow> msg_submit_name" where
  "demo_name v = \<lparr>sn_Validator = v, sn_Txid = ''t2'', sn_OpIndex = 0, sn_SteemBlock = 5, sn_SteemTimestamp = '''',
     sn_SteemAccount = ''alice'', sn_GatewayAccount = GatewayAccount, sn_AmountMillisteem = 1000, sn_Memo = ''bob''\<rparr>"

definition demo_name_ledger :: ledger where
  "demo_name_ledger = \<lparr>l_bal = [((''@steemblackhole'', ''asteem''), 0), ((''bob'', ''asteem''), 1000000000000000000)],
     l_supply = [(''asteem'', 1000000000000000000)]\<rparr>"

lemma demo_name_credit:
  assumes "bank s = empty_ledger" "Totals s = Some zero_totals"
  shows "creditBridged fakeBank ''bob'' BRIDGE_ASSET_STEEM 1000 0 s =
     Inr (s\<lparr>bank := demo_name_ledger, Totals := Some (add_minted BRIDGE_ASSET_STEEM 1000000000000000000 zero_totals)\<rparr>,
          1000000000000000000)"
  using assms by (simp add: creditBridged_def Let_def ApplyBridgeFee_def send_if_positive_def MillisteemToAsteem_def
      MillisteemToAsteemFactor_def demo_bank_simps demo_name_simps demo_name_ledger_def)

lemma demo_name_run:
  "\<exists>s r. SubmitNameRegistration demo_bridge_env fakeBank (demo_name ''v1'') (start_bridge demo_params empty_ledger) = Inr s \<and>
     bank s = demo_name_ledger \<and> b_Params s = Some demo_params \<and> kv_get (NameRegistration s) 0 = Some r \<and>
     n_Status r = NAME_REGISTRATION_STATUS_AWAITING_CONFIRMATION \<and> n_SteemAccount r = ''alice'' \<and>
     n_DerivedDestination r = ''bob'' \<and> n_Id r = 0"
  by (simp add: SubmitNameRegistration_def demo_name_def demo_params_def bridge_DefaultParams_def is_bonded_def
      plain_validator_def ValidateNameRegistrationAcceptance_def CheckSteemBlock_def lookupNameRegistrationByTxid_def
      openRegistration_def newRegistration_def Let_def submitOpened_def recordNameVote_def factsCandidateRatio_def
      voters_def power_ratio_def demo_ratio resolveNameIfReached_def addNameConfirmation_def moveAccountIndex_def
      adoptNameFacts_def resolveNameRegistration_def demo_destination setNameRegistrationStatus_def demo_name_credit kv_get_Cons)

lemma start_name_inv: "name_inv codec (start_bridge p b)"
  by (simp add: name_inv_def account_index_ok_def awaiting_ok_def links_ok_def)

lemma demo_codec: "account_codec_ok Some demo_bridge_env"
  by (simp add: account_codec_ok_def)

lemma name_credit_needs_quorum_witness:
  "\<exists>s'. SubmitNameRegistration demo_bridge_env fakeBank (demo_name ''v1'') (start_bridge demo_params empty_ledger) = Inr s' \<and>
     (2 * 666666666666666667 - 1) * 4 \<le> 2 * attested_power demo_bridge_env (NameRegistrationFactsVote s')
        (dedupKeyString ''t2'' 0) (nameMsgFactsHash demo_bridge_env (demo_name ''v1'')) * dec_one"
proof -
  obtain s' where s': "SubmitNameRegistration demo_bridge_env fakeBank (demo_name ''v1'')
      (start_bridge demo_params empty_ledger) = Inr s'" "bank s' = demo_name_ledger"
    using demo_name_run by blast
  have "bank s' \<noteq> bank (start_bridge demo_params empty_ledger)"
    by (simp add: s'(2) demo_name_ledger_def empty_ledger_def)
  from name_credit_needs_quorum[OF demo_bridge_dec_env fake.bank_keeper_axioms s'(1) this,
      of demo_params 666666666666666667 4] s'(1)
  show ?thesis by (simp add: demo_params_def bridge_DefaultParams_def demo_name_def)
qed

text \<open>
  A registration can be confirmed by exactly one account. In a state whose name tables are
  consistent, \<open>ConfirmName\<close> succeeds if and only if the name service is enabled, the registration exists
  and awaits confirmation, and the confirmer's address is the destination derived from the attested
  memo; in every other case it fails and changes nothing.
\<close>

theorem only_the_destination_confirms:
  assumes "name_inv (StringToBytes E) s"
  shows "(\<exists>s'. ConfirmName E msg s = Inr s') \<longleftrightarrow>
    (\<exists>p r a. b_Params s = Some p \<and> NameServiceEnabled p \<and>
       kv_get (NameRegistration s) (cn_RegistrationId msg) = Some r \<and>
       n_Status r = NAME_REGISTRATION_STATUS_AWAITING_CONFIRMATION \<and>
       StringToBytes E (cn_Confirmer msg) = Some a \<and> StringToBytes E (n_DerivedDestination r) = Some a)"
    (is "_ \<longleftrightarrow> ?ok")
proof
  assume "\<exists>s'. ConfirmName E msg s = Inr s'"
  then obtain s' where "ConfirmName E msg s = Inr s'" by blast
  from ConfirmName_Inr[OF this] show ?ok by metis
next
  assume ?ok
  then obtain p r a where h: "b_Params s = Some p" "NameServiceEnabled p"
    "kv_get (NameRegistration s) (cn_RegistrationId msg) = Some r"
    "n_Status r = NAME_REGISTRATION_STATUS_AWAITING_CONFIRMATION"
    "StringToBytes E (cn_Confirmer msg) = Some a" "StringToBytes E (n_DerivedDestination r) = Some a"
    by blast
  have "\<exists>s1. supersedeActive E r s = Inr s1"
    using links_okD(1)[OF name_invD(5)[OF assms], of "n_SteemAccount r"]
    by (auto simp: supersedeActive_def split: option.splits)
  with h show "\<exists>s'. ConfirmName E msg s = Inr s'"
    by (auto simp: ConfirmName_def ValidateNameConfirmationAcceptance_def)
qed

text \<open>The demonstration registration, resolved and awaiting its destination.\<close>

lemma demo_awaiting:
  "\<exists>(s :: ledger bridge_state) r. name_inv (StringToBytes demo_bridge_env) s \<and> b_Params s = Some demo_params \<and> kv_get (NameRegistration s) 0 = Some r \<and>
     n_Status r = NAME_REGISTRATION_STATUS_AWAITING_CONFIRMATION \<and> n_SteemAccount r = ''alice'' \<and>
     n_DerivedDestination r = ''bob'' \<and> n_Id r = 0"
proof -
  obtain s r where s: "SubmitNameRegistration demo_bridge_env fakeBank (demo_name ''v1'')
      (start_bridge demo_params empty_ledger) = Inr s" "b_Params s = Some demo_params"
    "kv_get (NameRegistration s) 0 = Some r" "n_Status r = NAME_REGISTRATION_STATUS_AWAITING_CONFIRMATION"
    "n_SteemAccount r = ''alice''" "n_DerivedDestination r = ''bob''" "n_Id r = 0"
    using demo_name_run by blast
  have "name_inv Some s"
    by (rule SubmitNameRegistration_inv[OF start_name_inv s(1) demo_codec]) simp
  with s show ?thesis by auto
qed

lemma only_the_destination_confirms_witness:
  "\<exists>s :: ledger bridge_state. name_inv (StringToBytes demo_bridge_env) s \<and>
     (\<exists>s'. ConfirmName demo_bridge_env \<lparr>cn_Confirmer = ''bob'', cn_RegistrationId = 0\<rparr> s = Inr s') \<and>
     \<not> (\<exists>s'. ConfirmName demo_bridge_env \<lparr>cn_Confirmer = ''eve'', cn_RegistrationId = 0\<rparr> s = Inr s')"
proof -
  obtain s :: "ledger bridge_state" and r where s: "name_inv (StringToBytes demo_bridge_env) s" "b_Params s = Some demo_params"
    "kv_get (NameRegistration s) 0 = Some r" "n_Status r = NAME_REGISTRATION_STATUS_AWAITING_CONFIRMATION"
    "n_DerivedDestination r = ''bob''"
    using demo_awaiting by blast
  note iff = only_the_destination_confirms[OF s(1)]
  show ?thesis
    by (rule exI[where x = s], unfold iff) (use s in \<open>simp add: demo_params_def\<close>)
qed

text \<open>What a confirmation leaves alone.\<close>

lemma supersedeActive_frame:
  assumes "supersedeActive E r s = Inr s1"
  shows "ActiveName s1 = ActiveName s" "bank s1 = bank s" "Totals s1 = Totals s" "same_deposits s s1"
    "same_withdrawals s s1" "b_Params s1 = b_Params s" "BridgeDutyQueue s1 = BridgeDutyQueue s"
    "FreeDepositCounter s1 = FreeDepositCounter s" "FreeNameConfirmCounter s1 = FreeNameConfirmCounter s"
    "NameRegistrationSeq s1 = NameRegistrationSeq s"
  using assms by (auto simp: supersedeActive_def supersedeRegistration_def setNameRegistrationStatus_def rbind_eq_Inr
      same_defs split: option.splits)

lemma ConfirmName_frame:
  assumes "ConfirmName E msg s = Inr s'"
  shows "bank s' = bank s" "Totals s' = Totals s" "same_deposits s s'" "same_withdrawals s s'" "b_Params s' = b_Params s"
    "BridgeDutyQueue s' = BridgeDutyQueue s" "FreeDepositCounter s' = FreeDepositCounter s"
    "FreeNameConfirmCounter s' = FreeNameConfirmCounter s" "NameRegistrationSeq s' = NameRegistrationSeq s"
  using assms by (rule ConfirmName_Inr, auto simp: installLink_fields supersedeActive_frame
      intro: same_trans(1)[OF supersedeActive_frame(4)] same_trans(2)[OF supersedeActive_frame(5)])+

text \<open>
  C12: A successful confirmation leaves one link per account. Afterwards the registration's Steem account
  resolves to the confirmed destination, the confirmer's address is the only one listed for it, that
  registration is its only active one, the links of all other accounts are untouched, and no coins move.
\<close>

theorem confirmation_replaces_the_link:
  assumes "name_inv (StringToBytes E) s" "ConfirmName E msg s = Inr s'"
  shows "\<exists>r a rec. kv_get (NameRegistration s) (cn_RegistrationId msg) = Some r \<and>
    StringToBytes E (cn_Confirmer msg) = Some a \<and>
    kv_get (ActiveName s') (n_SteemAccount r) = Some rec \<and> StringToBytes E (nr_Address rec) = Some a \<and>
    nr_RegistrationId rec = cn_RegistrationId msg \<and>
    (\<forall>b. ks_has (ActiveNameByAddress s') (b, n_SteemAccount r) \<longleftrightarrow> b = a) \<and>
    (\<forall>i q. kv_get (NameRegistration s') i = Some q \<longrightarrow> n_SteemAccount q = n_SteemAccount r \<longrightarrow>
       (n_Status q = NAME_REGISTRATION_STATUS_ACTIVE \<longleftrightarrow> i = cn_RegistrationId msg)) \<and>
    (\<forall>acct. acct \<noteq> n_SteemAccount r \<longrightarrow> kv_get (ActiveName s') acct = kv_get (ActiveName s) acct) \<and>
    bank s' = bank s"
proof -
  obtain r a s1 where c: "kv_get (NameRegistration s) (cn_RegistrationId msg) = Some r"
    "StringToBytes E (cn_Confirmer msg) = Some a" "StringToBytes E (n_DerivedDestination r) = Some a"
    "supersedeActive E r s = Inr s1" "s' = installLink E r a s1"
    using ConfirmName_Inr[OF assms(2)] by metis
  have id: "n_Id r = cn_RegistrationId msg" by (rule table_ok_get(1)[OF name_invD(1)[OF assms(1)] c(1)])
  note L = links_okD[OF name_invD(5)[OF ConfirmName_inv[OF assms refl]]]
  have act: "kv_get (ActiveName s') (n_SteemAccount r) = Some (linkRecord E r)"
    by (simp add: c(5) installLink_fields)
  have own: "kv_get (NameRegistration s') (cn_RegistrationId msg) = Some (linkedRegistration E r)"
    by (simp add: c(5) installLink_fields id)
  have "n_Status q = NAME_REGISTRATION_STATUS_ACTIVE \<longleftrightarrow> i = cn_RegistrationId msg"
    if "kv_get (NameRegistration s') i = Some q" "n_SteemAccount q = n_SteemAccount r" for i q
    using L(2)[OF that(1)] that own act id by auto
  moreover have "kv_get (ActiveName s') acct = kv_get (ActiveName s) acct" if "acct \<noteq> n_SteemAccount r" for acct
    using that supersedeActive_frame(1)[OF c(4)] by (simp add: c(5) installLink_fields)
  moreover have "ks_has (ActiveNameByAddress s') (b, n_SteemAccount r) \<longleftrightarrow> b = a" for b
    using L(3)[of b "n_SteemAccount r"] act c(3) by auto
  ultimately show ?thesis using c(1-3) act id ConfirmName_frame(1)[OF assms(2)] by auto
qed

lemma confirmation_replaces_the_link_witness:
  "\<exists>s s' :: ledger bridge_state. ConfirmName demo_bridge_env \<lparr>cn_Confirmer = ''bob'', cn_RegistrationId = 0\<rparr> s = Inr s' \<and>
     (\<exists>r. kv_get (NameRegistration s) 0 = Some r \<and> ks_has (ActiveNameByAddress s') (''bob'', n_SteemAccount r))"
proof -
  obtain s :: "ledger bridge_state" and r where s: "name_inv (StringToBytes demo_bridge_env) s" "b_Params s = Some demo_params"
    "kv_get (NameRegistration s) 0 = Some r" "n_Status r = NAME_REGISTRATION_STATUS_AWAITING_CONFIRMATION"
    "n_DerivedDestination r = ''bob''"
    using demo_awaiting by blast
  have ok: "ValidateNameConfirmationAcceptance demo_bridge_env \<lparr>cn_Confirmer = ''bob'', cn_RegistrationId = 0\<rparr> s = Inr ()"
    using s by (simp add: ValidateNameConfirmationAcceptance_def demo_params_def)
  obtain s1 where "supersedeActive demo_bridge_env r s = Inr s1"
    by (cases "kv_get (ActiveName s) (n_SteemAccount r)") (auto simp: supersedeActive_def)
  with ok s obtain s' where s': "ConfirmName demo_bridge_env \<lparr>cn_Confirmer = ''bob'', cn_RegistrationId = 0\<rparr> s = Inr s'"
    by (auto simp: ConfirmName_def)
  from confirmation_replaces_the_link[OF s(1) s'] s' show ?thesis by auto
qed

end
