(* ===== verification/Bridge_Withdrawal.thy ===== *)
theory Bridge_Withdrawal
  imports Bridge_Name
begin

text \<open>
  Bridging out: the handler that takes the coins and opens a withdrawal
  (\<open>keeper/msg_server_bridge_out.go\<close>), and the attestation of its payout on Steem
  (\<open>keeper/msg_server_attest_withdrawal_payout.go\<close>). The lemmas show that the bridge never owes more
  than came in, that what leaves the sender is what the record owes plus the fee, that a withdrawal is
  marked paid only by a quorum for one payout that matches the record, and that the handler agrees with
  the acceptance check of the ante handler.
\<close>

section \<open>Operations\<close>

text \<open>\<open>Int.IsUint64\<close> and \<open>Int.Uint64\<close>\<close>

definition IsUint64 :: "int \<Rightarrow> bool" where
  "IsUint64 x \<longleftrightarrow> 0 \<le> x \<and> x < 2 ^ 64"

definition outstanding :: "bridge_asset \<Rightarrow> bridge_totals \<Rightarrow> int \<times> int" where
  "outstanding asset totals =
     (if asset = BRIDGE_ASSET_SBD then (TotalMintedAsbd totals, TotalBurnedAsbd totals)
      else (TotalMintedAsteem totals, TotalBurnedAsteem totals))"

text \<open>The record a bridge-out opens, its indexes and events.\<close>

definition newWithdrawal ::
    "env \<Rightarrow> msg_bridge_out \<Rightarrow> u64 \<Rightarrow> int \<Rightarrow> u64 \<Rightarrow> u64 \<Rightarrow> withdrawal" where
  "newWithdrawal E msg withdrawalID amount netMilli feeMilli =
     \<lparr>w_Id = withdrawalID, w_Sender = bo_Sender msg,
      w_DestinationSteemAccount = bo_DestinationSteemAccount msg, w_AmountAsteem = amount,
      w_AmountMillisteem = netMilli, w_Memo = bo_Memo msg, w_BurnTxHash = txHashHex E,
      w_Status = WITHDRAWAL_STATUS_REQUESTED, w_CreatedAt = BlockHeight E, w_Asset = bo_Asset msg,
      w_FeeMillisteem = feeMilli, w_SteemPayoutTxid = '''', w_PayoutOpIndex = 0, w_ProcessedAt = 0,
      w_ValidatorConfirmations = [], w_RefundedAt = 0\<rparr>"

definition openWithdrawal ::
    "env \<Rightarrow> msg_bridge_out \<Rightarrow> int \<Rightarrow> u64 \<Rightarrow> u64 \<Rightarrow> 'b bridge_state \<Rightarrow> 'b bridge_state" where
  "openWithdrawal E msg amount netMilli feeMilli s =
     (let withdrawalID = WithdrawalSeq s;
          w = newWithdrawal E msg withdrawalID amount netMilli feeMilli;
          netAsteem = MillisteemToAsteem netMilli;
          denom = DenomForAsset (bo_Asset msg)
      in emit (WithdrawalBurned withdrawalID netAsteem denom)
           (emit (WithdrawalCreated withdrawalID (bo_DestinationSteemAccount msg) netAsteem denom)
             (s\<lparr>WithdrawalSeq := WithdrawalSeq s + 1,
                Withdrawal := kv_set withdrawalID w (Withdrawal s),
                WithdrawalByStatus := ks_set (wstat WITHDRAWAL_STATUS_REQUESTED, withdrawalID) (WithdrawalByStatus s)\<rparr>)))"

text \<open>The two transfers that take the coins from the sender.\<close>

definition takeCoins ::
    "'b bank_ops \<Rightarrow> bytes \<Rightarrow> string \<Rightarrow> int \<Rightarrow> int \<Rightarrow> 'b \<Rightarrow> 'b res" where
  "takeCoins bk senderAddr denom netAsteem feeAsteem b =
     rbind (send_if_positive
       (SendCoinsFromAccountToModule bk senderAddr BlackHoleModuleName (NewCoins1 denom netAsteem)) netAsteem b) (\<lambda>b1.
     send_if_positive
       (SendCoinsFromAccountToModule bk senderAddr BridgeRewardModuleName (NewCoins1 denom feeAsteem)) feeAsteem b1)"

definition BridgeOut ::
    "env \<Rightarrow> 'b bank_ops \<Rightarrow> msg_bridge_out \<Rightarrow> 'b bridge_state \<Rightarrow> 'b bridge_state res" where
  "BridgeOut E bk msg s =
     rbind (from_option ErrInvalidAddress (StringToBytes E (bo_Sender msg))) (\<lambda>senderAddr.
     rbind (from_option ErrNotFound (b_Params s)) (\<lambda>params.
     rbind (guard_err (BridgeOutEnabled params) ErrBridgeOutDisabled) (\<lambda>_.
     rbind (ValidateWithdrawalDestination (bo_DestinationSteemAccount msg)) (\<lambda>_.
     rbind (ValidateWithdrawalMemo (bo_Memo msg)) (\<lambda>_.
     rbind (check_amount (bo_AmountAsteem msg)) (\<lambda>amount.
     let denom = DenomForAsset (bo_Asset msg);
         grossMilliInt = amount div MillisteemToAsteemFactor in
     rbind (guard_err (IsUint64 grossMilliInt) ErrInvalidAmount) (\<lambda>_.
     let grossMilli = (word_of_int grossMilliInt :: u64) in
     rbind (guard_err (\<not> (MinimumBridgeAmount params \<noteq> 0 \<and> grossMilli < MinimumBridgeAmount params))
              ErrInvalidAmount) (\<lambda>_.
     let netMilli = fst (ApplyBridgeFee grossMilli (BridgeFeeBps params));
         feeMilli = snd (ApplyBridgeFee grossMilli (BridgeFeeBps params));
         netAsteem = MillisteemToAsteem netMilli;
         feeAsteem = MillisteemToAsteem feeMilli in
     rbind (from_option ErrNotFound (Totals s)) (\<lambda>totals.
     rbind (guard_err (\<not> snd (outstanding (bo_Asset msg) totals) + netAsteem > fst (outstanding (bo_Asset msg) totals))
              ErrExceedsBridgedAmount) (\<lambda>_.
     rbind (takeCoins bk senderAddr denom netAsteem feeAsteem (bank s)) (\<lambda>b.
     Inr (openWithdrawal E msg amount netMilli feeMilli
            (s\<lparr>bank := b, Totals := Some (add_burned (bo_Asset msg) netAsteem totals)\<rparr>)))))))))))))"

definition payoutMatches :: "withdrawal \<Rightarrow> msg_attest_payout \<Rightarrow> bool" where
  "payoutMatches w msg \<longleftrightarrow>
     w_AmountMillisteem w = ap_AmountMillisteem msg \<and>
     w_Asset w = ap_Asset msg \<and>
     w_DestinationSteemAccount w = ap_DestinationSteemAccount msg \<and>
     w_Memo w = ap_Memo msg"

text \<open>The vote for an observed payout, the tally of that payout, and the flip to paid.\<close>

definition recordPayoutVote :: "msg_attest_payout \<Rightarrow> bytes \<Rightarrow> 'b bridge_state \<Rightarrow> 'b bridge_state" where
  "recordPayoutVote msg validatorAddr s =
     s\<lparr>WithdrawalConfirmedBy := ks_set (ap_WithdrawalId msg, validatorAddr) (WithdrawalConfirmedBy s),
       WithdrawalPayoutVote :=
         ks_set (ap_WithdrawalId msg, payoutCandidateKey (ap_SteemTxid msg) (ap_OpIndex msg), validatorAddr)
           (WithdrawalPayoutVote s)\<rparr>"

definition addPayoutConfirmation :: "env \<Rightarrow> bytes \<Rightarrow> withdrawal \<Rightarrow> withdrawal" where
  "addPayoutConfirmation E validatorAddr w =
     w\<lparr>w_ValidatorConfirmations := w_ValidatorConfirmations w @
        [\<lparr>c_ValidatorAddress = ValAddressString E validatorAddr, c_Timestamp = BlockTime E\<rparr>]\<rparr>"

definition markProcessed ::
    "env \<Rightarrow> msg_attest_payout \<Rightarrow> withdrawal \<Rightarrow> 'b bridge_state \<Rightarrow> withdrawal \<times> 'b bridge_state" where
  "markProcessed E msg w s =
     (w\<lparr>w_SteemPayoutTxid := ap_SteemTxid msg, w_PayoutOpIndex := ap_OpIndex msg,
        w_Status := WITHDRAWAL_STATUS_PROCESSED, w_ProcessedAt := BlockHeight E\<rparr>,
      enqueueBridgeDuty bridgeDutyKindWithdrawal (w_Id w)
        (emit (WithdrawalProcessed (ap_WithdrawalId msg) (ap_SteemTxid msg))
          (s\<lparr>WithdrawalByStatus := ks_set (wstat WITHDRAWAL_STATUS_PROCESSED, ap_WithdrawalId msg)
               (ks_remove (wstat WITHDRAWAL_STATUS_REQUESTED, ap_WithdrawalId msg) (WithdrawalByStatus s))\<rparr>)))"

definition processIfReached ::
    "env \<Rightarrow> bridge_params \<Rightarrow> msg_attest_payout \<Rightarrow> dec \<Rightarrow> withdrawal \<Rightarrow> 'b bridge_state \<Rightarrow>
     (withdrawal \<times> 'b bridge_state) res" where
  "processIfReached E params msg ratio w s =
     (if w_Status w = WITHDRAWAL_STATUS_REQUESTED
      then rbind (dec_val (BridgeConfirmationThreshold params)) (\<lambda>threshold.
           if threshold \<le> ratio then Inr (markProcessed E msg w s) else Inr (w, s))
      else Inr (w, s))"

definition attestPayout ::
    "env \<Rightarrow> bridge_params \<Rightarrow> msg_attest_payout \<Rightarrow> bytes \<Rightarrow> withdrawal \<Rightarrow> 'b bridge_state \<Rightarrow> 'b bridge_state res" where
  "attestPayout E params msg validatorAddr w s =
     (let s1 = recordPayoutVote msg validatorAddr s in
      rbind (candidatePayoutRatio E s1 (ap_WithdrawalId msg) (payoutCandidateKey (ap_SteemTxid msg) (ap_OpIndex msg)))
        (\<lambda>ratio.
      rbind (processIfReached E params msg ratio (addPayoutConfirmation E validatorAddr w)
               (emit (WithdrawalConfirmed (ap_WithdrawalId msg) (ValAddressString E validatorAddr) (ap_SteemTxid msg) ratio) s1))
        (\<lambda>ws.
      Inr ((snd ws)\<lparr>Withdrawal := kv_set (ap_WithdrawalId msg) (fst ws) (Withdrawal (snd ws))\<rparr>))))"

definition AttestWithdrawalPayout ::
    "env \<Rightarrow> msg_attest_payout \<Rightarrow> 'b bridge_state \<Rightarrow> 'b bridge_state res" where
  "AttestWithdrawalPayout E msg s =
     rbind (from_option ErrNotFound (b_Params s)) (\<lambda>params.
     rbind (guard_err (BridgeOutEnabled params) ErrBridgeOutDisabled) (\<lambda>_.
     rbind (CheckSteemBlock params (ap_SteemBlock msg)) (\<lambda>_.
     rbind (from_option ErrInvalidAddress (StringToBytes E (ap_Validator msg))) (\<lambda>validatorAddr.
     rbind (guard_err (is_bonded E validatorAddr) ErrNotBondedValidator) (\<lambda>_.
     rbind (from_option ErrWithdrawalNotFound (kv_get (Withdrawal s) (ap_WithdrawalId msg))) (\<lambda>w.
     if w_Status w = WITHDRAWAL_STATUS_PROCESSED then Inr s
     else if w_Status w = WITHDRAWAL_STATUS_REFUNDED
     then Inr (emit (WithdrawalPayoutAttestedAfterRefund (ap_WithdrawalId msg) (ap_Validator msg) (ap_SteemTxid msg)) s)
     else if \<not> payoutMatches w msg
     then Inr (emit (WithdrawalPayoutAssetMismatch (ap_WithdrawalId msg) (ap_Validator msg) w msg) s)
     else if ks_has (WithdrawalConfirmedBy s) (ap_WithdrawalId msg, validatorAddr) then Inr s
     else attestPayout E params msg validatorAddr w s))))))"

definition ValidateWithdrawalProcessedAcceptance ::
    "env \<Rightarrow> msg_attest_payout \<Rightarrow> 'b bridge_state \<Rightarrow> unit res" where
  "ValidateWithdrawalProcessedAcceptance E msg s =
     rbind (from_option ErrNotFound (b_Params s)) (\<lambda>params.
     rbind (guard_err (BridgeOutEnabled params) ErrBridgeOutDisabled) (\<lambda>_.
     rbind (CheckSteemBlock params (ap_SteemBlock msg)) (\<lambda>_.
     rbind (from_option ErrInvalidAddress (StringToBytes E (ap_Validator msg))) (\<lambda>validatorAddr.
     rbind (from_option ErrWithdrawalNotFound (kv_get (Withdrawal s) (ap_WithdrawalId msg))) (\<lambda>w.
     rbind (guard_err (w_Status w \<noteq> WITHDRAWAL_STATUS_PROCESSED) ErrWithdrawalAlreadyProcessed) (\<lambda>_.
     rbind (guard_err (w_Status w \<noteq> WITHDRAWAL_STATUS_REFUNDED) ErrWithdrawalAlreadyRefunded) (\<lambda>_.
     rbind (guard_err (\<not> ks_has (WithdrawalConfirmedBy s) (ap_WithdrawalId msg, validatorAddr))
              ErrDuplicateWithdrawalConfirmation) (\<lambda>_.
     guard_err (payoutMatches w msg) ErrWithdrawalPayoutMismatch))))))))"

section \<open>The invariant of the withdrawal tables\<close>

definition rows_ok :: "('r \<Rightarrow> u64) \<Rightarrow> ('r \<Rightarrow> int) \<Rightarrow> u64 \<Rightarrow> (u64, 'r) kv \<Rightarrow> (int \<times> u64) kset \<Rightarrow> bool" where
  "rows_ok rid rstat seq recs byStatus \<longleftrightarrow>
     kv_wf recs \<and> ks_wf byStatus \<and>
     (\<forall>i r. kv_get recs i = Some r \<longrightarrow> rid r = i \<and> i < seq) \<and>
     (\<forall>n i. ks_has byStatus (n, i) \<longleftrightarrow> (\<exists>r. kv_get recs i = Some r \<and> rstat r = n))"

lemma rows_ok_get:
  assumes "rows_ok rid rstat seq recs byStatus" "kv_get recs i = Some r"
  shows "rid r = i" "i < seq"
  using assms unfolding rows_ok_def by blast+

lemma rows_ok_status:
  "rows_ok rid rstat seq recs byStatus \<Longrightarrow> ks_has byStatus (n, i) \<longleftrightarrow> (\<exists>r. kv_get recs i = Some r \<and> rstat r = n)"
  unfolding rows_ok_def by blast

lemma rows_ok_fresh: "rows_ok rid rstat seq recs byStatus \<Longrightarrow> kv_get recs seq = None"
  using rows_ok_get(2)[of rid rstat seq recs byStatus seq] by (cases "kv_get recs seq") auto

lemma rows_ok_insert:
  assumes ok: "rows_ok rid rstat seq recs byStatus" and "seq + 1 \<noteq> 0" "rid r = seq"
  shows "rows_ok rid rstat (seq + 1) (kv_set seq r recs) (ks_set (rstat r, seq) byStatus)"
proof -
  have up: "i < seq \<Longrightarrow> i < seq + 1" "seq < seq + 1" for i
    using unat_Suc64[OF assms(2)] by (simp_all add: word_less_nat_alt)
  have "ks_has (ks_set (rstat r, seq) byStatus) (n, i) \<longleftrightarrow> (\<exists>q. kv_get (kv_set seq r recs) i = Some q \<and> rstat q = n)" for n i
    using rows_ok_fresh[OF ok] by (cases "i = seq") (auto simp: rows_ok_status[OF ok])
  moreover have "kv_wf recs" "ks_wf byStatus" using ok by (simp_all add: rows_ok_def)
  ultimately show ?thesis
    unfolding rows_ok_def using assms(3) up rows_ok_get[OF ok] by (auto split: if_splits)
qed

lemma rows_ok_update:
  assumes ok: "rows_ok rid rstat seq recs byStatus" and old: "kv_get recs i = Some r" and new: "rid r' = i"
  shows "rows_ok rid rstat seq (kv_set i r' recs) (ks_set (rstat r', i) (ks_remove (rstat r, i) byStatus))"
proof -
  have "ks_has (ks_set (rstat r', i) (ks_remove (rstat r, i) byStatus)) (n, j) \<longleftrightarrow>
      (\<exists>q. kv_get (kv_set i r' recs) j = Some q \<and> rstat q = n)" for n j
    using old by (cases "j = i") (auto simp: rows_ok_status[OF ok])
  moreover have "kv_wf recs" "ks_wf byStatus" using ok by (simp_all add: rows_ok_def)
  ultimately show ?thesis
    unfolding rows_ok_def using new rows_ok_get[OF ok] rows_ok_get(2)[OF ok old] by (auto split: if_splits)
qed

lemma rows_ok_touch:
  assumes ok: "rows_ok rid rstat seq recs byStatus" and old: "kv_get recs i = Some r"
    and new: "rid r' = i" "rstat r' = rstat r"
  shows "rows_ok rid rstat seq (kv_set i r' recs) byStatus"
proof -
  have "ks_has byStatus (n, j) \<longleftrightarrow> (\<exists>q. kv_get (kv_set i r' recs) j = Some q \<and> rstat q = n)" for n j
    using old new(2) by (cases "j = i") (auto simp: rows_ok_status[OF ok])
  moreover have "kv_wf recs" "ks_wf byStatus" using ok by (simp_all add: rows_ok_def)
  ultimately show ?thesis
    unfolding rows_ok_def using new rows_ok_get[OF ok] rows_ok_get(2)[OF ok old] by (auto split: if_splits)
qed

text \<open>Every payout vote belongs to a recorded confirmation, one vote per validator and withdrawal.\<close>

definition payout_votes_ok :: "(u64 \<times> bytes) kset \<Rightarrow> (u64 \<times> string \<times> bytes) kset \<Rightarrow> bool" where
  "payout_votes_ok confirmed votes \<longleftrightarrow> ks_wf votes \<and>
     (\<forall>i c v. ks_has votes (i, c, v) \<longrightarrow> ks_has confirmed (i, v)) \<and>
     (\<forall>i c c' v. ks_has votes (i, c, v) \<longrightarrow> ks_has votes (i, c', v) \<longrightarrow> c = c')"

lemma payout_votes_record:
  "payout_votes_ok confirmed votes \<Longrightarrow> \<not> ks_has confirmed (i, v) \<Longrightarrow>
   payout_votes_ok (ks_set (i, v) confirmed) (ks_set (i, c, v) votes)"
  unfolding payout_votes_ok_def by auto

lemma payout_votes_disjoint:
  assumes "payout_votes_ok confirmed votes" "c \<noteq> c'"
  shows "set (voters votes i c) \<inter> set (voters votes i c') = {}"
  using assms by (auto simp: payout_votes_ok_def)

definition withdrawal_inv :: "'b bridge_state \<Rightarrow> bool" where
  "withdrawal_inv s \<longleftrightarrow>
     rows_ok w_Id (\<lambda>w. wstat (w_Status w)) (WithdrawalSeq s) (Withdrawal s) (WithdrawalByStatus s) \<and>
     payout_votes_ok (WithdrawalConfirmedBy s) (WithdrawalPayoutVote s)"

lemma withdrawal_inv_same: "withdrawal_inv s \<Longrightarrow> same_withdrawals s s' \<Longrightarrow> withdrawal_inv s'"
  by (simp add: withdrawal_inv_def same_withdrawals_def)

section \<open>Outcomes\<close>

lemma BridgeOut_Inr:
  assumes "BridgeOut E bk msg s = Inr s'"
  obtains a p amount gross net fee t b where "StringToBytes E (bo_Sender msg) = Some a" "b_Params s = Some p"
    "BridgeOutEnabled p" "ValidateWithdrawalDestination (bo_DestinationSteemAccount msg) = Inr ()"
    "ValidateWithdrawalMemo (bo_Memo msg) = Inr ()"
    "bo_AmountAsteem msg = Some amount" "0 < amount" "amount = MillisteemToAsteem gross"
    "MinimumBridgeAmount p = 0 \<or> MinimumBridgeAmount p \<le> gross" "ApplyBridgeFee gross (BridgeFeeBps p) = (net, fee)"
    "Totals s = Some t"
    "snd (outstanding (bo_Asset msg) t) + MillisteemToAsteem net \<le> fst (outstanding (bo_Asset msg) t)"
    "takeCoins bk a (DenomForAsset (bo_Asset msg)) (MillisteemToAsteem net) (MillisteemToAsteem fee) (bank s) = Inr b"
    "s' = openWithdrawal E msg amount net fee
       (s\<lparr>bank := b, Totals := Some (add_burned (bo_Asset msg) (MillisteemToAsteem net) t)\<rparr>)"
proof -
  let ?g = "\<lambda>amount. word_of_int (amount div MillisteemToAsteemFactor) :: u64"
  obtain a p amount t b where h: "StringToBytes E (bo_Sender msg) = Some a" "b_Params s = Some p"
    "BridgeOutEnabled p" "ValidateWithdrawalDestination (bo_DestinationSteemAccount msg) = Inr ()"
    "ValidateWithdrawalMemo (bo_Memo msg) = Inr ()"
    "check_amount (bo_AmountAsteem msg) = Inr amount" "IsUint64 (amount div MillisteemToAsteemFactor)"
    "\<not> (MinimumBridgeAmount p \<noteq> 0 \<and> ?g amount < MinimumBridgeAmount p)" "Totals s = Some t"
    "\<not> snd (outstanding (bo_Asset msg) t) + MillisteemToAsteem (fst (ApplyBridgeFee (?g amount) (BridgeFeeBps p)))
        > fst (outstanding (bo_Asset msg) t)"
    "takeCoins bk a (DenomForAsset (bo_Asset msg)) (MillisteemToAsteem (fst (ApplyBridgeFee (?g amount) (BridgeFeeBps p))))
       (MillisteemToAsteem (snd (ApplyBridgeFee (?g amount) (BridgeFeeBps p)))) (bank s) = Inr b"
    "s' = openWithdrawal E msg amount (fst (ApplyBridgeFee (?g amount) (BridgeFeeBps p)))
       (snd (ApplyBridgeFee (?g amount) (BridgeFeeBps p))) (s\<lparr>bank := b, Totals := Some (add_burned (bo_Asset msg)
          (MillisteemToAsteem (fst (ApplyBridgeFee (?g amount) (BridgeFeeBps p)))) t)\<rparr>)"
    using assms unfolding BridgeOut_def Let_def
    by (auto simp: rbind_eq_Inr)
  have am: "bo_AmountAsteem msg = Some amount" "0 < amount" "amount mod MillisteemToAsteemFactor = 0"
    using h(6) by (auto simp: check_amount_def rbind_eq_Inr split: option.splits)
  have "uint (?g amount) = amount div MillisteemToAsteemFactor"
    using h(7) by (simp add: IsUint64_def uint_word_of_int take_bit_int_eq_self)
  then have "amount = MillisteemToAsteem (?g amount)"
    using am(3) by (simp add: MillisteemToAsteem_def) (metis div_mult_mod_eq add.right_neutral)
  from that[OF h(1-5) am(1,2) this _ _ h(9) _ h(11,12)] h(8,10) show ?thesis
    by (auto simp: not_less)
qed

lemma openWithdrawal_fields [simp]:
  "bank (openWithdrawal E msg amount net fee s) = bank s" "Totals (openWithdrawal E msg amount net fee s) = Totals s"
  "b_Params (openWithdrawal E msg amount net fee s) = b_Params s"
  "WithdrawalSeq (openWithdrawal E msg amount net fee s) = WithdrawalSeq s + 1"
  "WithdrawalConfirmedBy (openWithdrawal E msg amount net fee s) = WithdrawalConfirmedBy s"
  "WithdrawalPayoutVote (openWithdrawal E msg amount net fee s) = WithdrawalPayoutVote s"
  "WithdrawalByStatus (openWithdrawal E msg amount net fee s) =
     ks_set (wstat WITHDRAWAL_STATUS_REQUESTED, WithdrawalSeq s) (WithdrawalByStatus s)"
  "same_deposits s (openWithdrawal E msg amount net fee s)" "same_names s (openWithdrawal E msg amount net fee s)"
  "BridgeDutyQueue (openWithdrawal E msg amount net fee s) = BridgeDutyQueue s"
  "FreeDepositCounter (openWithdrawal E msg amount net fee s) = FreeDepositCounter s"
  "FreeNameConfirmCounter (openWithdrawal E msg amount net fee s) = FreeNameConfirmCounter s"
  by (simp_all add: openWithdrawal_def Let_def same_defs)

lemma openWithdrawal_record [simp]:
  "Withdrawal (openWithdrawal E msg amount net fee s) =
     kv_set (WithdrawalSeq s) (newWithdrawal E msg (WithdrawalSeq s) amount net fee) (Withdrawal s)"
  by (simp add: openWithdrawal_def Let_def)

lemma newWithdrawal_simps [simp]:
  "w_Id (newWithdrawal E msg i amount net fee) = i"
  "w_Status (newWithdrawal E msg i amount net fee) = WITHDRAWAL_STATUS_REQUESTED"
  "w_AmountMillisteem (newWithdrawal E msg i amount net fee) = net"
  "w_FeeMillisteem (newWithdrawal E msg i amount net fee) = fee"
  "w_AmountAsteem (newWithdrawal E msg i amount net fee) = amount"
  "w_Asset (newWithdrawal E msg i amount net fee) = bo_Asset msg"
  "w_Sender (newWithdrawal E msg i amount net fee) = bo_Sender msg"
  "w_DestinationSteemAccount (newWithdrawal E msg i amount net fee) = bo_DestinationSteemAccount msg"
  "w_Memo (newWithdrawal E msg i amount net fee) = bo_Memo msg"
  "w_CreatedAt (newWithdrawal E msg i amount net fee) = BlockHeight E"
  by (simp_all add: newWithdrawal_def)

lemma BridgeOut_inv:
  assumes "withdrawal_inv s" "BridgeOut E bk msg s = Inr s'" "WithdrawalSeq s + 1 \<noteq> 0"
  shows "withdrawal_inv s'"
proof -
  obtain amount net fee t b where s': "s' = openWithdrawal E msg amount net fee
       (s\<lparr>bank := b, Totals := Some (add_burned (bo_Asset msg) (MillisteemToAsteem net) t)\<rparr>)"
    using BridgeOut_Inr[OF assms(2)] by metis
  let ?w = "newWithdrawal E msg (WithdrawalSeq s) amount net fee"
  show ?thesis
    using assms(1) rows_ok_insert[of w_Id "\<lambda>w. wstat (w_Status w)" "WithdrawalSeq s" "Withdrawal s" "WithdrawalByStatus s" ?w] assms(3)
    by (simp add: withdrawal_inv_def s')
qed

text \<open>The early returns of the payout handler leave the state as it is, but for an event.\<close>

lemma payout_early_returns:
  assumes "(if w_Status w = WITHDRAWAL_STATUS_PROCESSED then Inr s
     else if w_Status w = WITHDRAWAL_STATUS_REFUNDED then Inr e1
     else if \<not> matches then Inr e2
     else if repeated then Inr s else other) = Inr s'"
    and "\<not> (w_Status w = WITHDRAWAL_STATUS_REQUESTED \<and> matches \<and> \<not> repeated)"
  shows "s' = s \<or> s' = e1 \<or> s' = e2"
  using assms by (cases "w_Status w") (simp_all split: if_splits)

lemma AttestWithdrawalPayout_Inr:
  assumes "AttestWithdrawalPayout E msg s = Inr s'"
  obtains (ignored) ev where "s' = s\<lparr>b_events := ev\<rparr>"
  | (recorded) p a w ratio where "b_Params s = Some p" "StringToBytes E (ap_Validator msg) = Some a" "is_bonded E a"
      "kv_get (Withdrawal s) (ap_WithdrawalId msg) = Some w" "w_Status w = WITHDRAWAL_STATUS_REQUESTED"
      "payoutMatches w msg" "\<not> ks_has (WithdrawalConfirmedBy s) (ap_WithdrawalId msg, a)"
      "s' = (emit (WithdrawalConfirmed (ap_WithdrawalId msg) (ValAddressString E a) (ap_SteemTxid msg) ratio)
               (recordPayoutVote msg a s))
         \<lparr>Withdrawal := kv_set (ap_WithdrawalId msg) (addPayoutConfirmation E a w) (Withdrawal s)\<rparr>"
  | (processed) p a w ratio t where "b_Params s = Some p" "StringToBytes E (ap_Validator msg) = Some a" "is_bonded E a"
      "kv_get (Withdrawal s) (ap_WithdrawalId msg) = Some w" "w_Status w = WITHDRAWAL_STATUS_REQUESTED"
      "payoutMatches w msg" "\<not> ks_has (WithdrawalConfirmedBy s) (ap_WithdrawalId msg, a)"
      "candidatePayoutRatio E (recordPayoutVote msg a s) (ap_WithdrawalId msg)
         (payoutCandidateKey (ap_SteemTxid msg) (ap_OpIndex msg)) = Inr ratio"
      "BridgeConfirmationThreshold p = Some t" "t \<le> ratio"
      "s' = (snd (markProcessed E msg (addPayoutConfirmation E a w)
               (emit (WithdrawalConfirmed (ap_WithdrawalId msg) (ValAddressString E a) (ap_SteemTxid msg) ratio)
                 (recordPayoutVote msg a s))))
         \<lparr>Withdrawal := kv_set (ap_WithdrawalId msg) (fst (markProcessed E msg (addPayoutConfirmation E a w) s)) (Withdrawal s)\<rparr>"
proof -
  obtain p a w where h: "b_Params s = Some p" "StringToBytes E (ap_Validator msg) = Some a" "is_bonded E a"
      "kv_get (Withdrawal s) (ap_WithdrawalId msg) = Some w"
    and run: "(if w_Status w = WITHDRAWAL_STATUS_PROCESSED then Inr s
     else if w_Status w = WITHDRAWAL_STATUS_REFUNDED
     then Inr (emit (WithdrawalPayoutAttestedAfterRefund (ap_WithdrawalId msg) (ap_Validator msg) (ap_SteemTxid msg)) s)
     else if \<not> payoutMatches w msg
     then Inr (emit (WithdrawalPayoutAssetMismatch (ap_WithdrawalId msg) (ap_Validator msg) w msg) s)
     else if ks_has (WithdrawalConfirmedBy s) (ap_WithdrawalId msg, a) then Inr s
     else attestPayout E p msg a w s) = Inr s'"
    using assms by (auto simp: AttestWithdrawalPayout_def rbind_eq_Inr)
  show ?thesis
  proof (cases "w_Status w = WITHDRAWAL_STATUS_REQUESTED \<and> payoutMatches w msg \<and>
      \<not> ks_has (WithdrawalConfirmedBy s) (ap_WithdrawalId msg, a)")
    case False
    let ?e1 = "emit (WithdrawalPayoutAttestedAfterRefund (ap_WithdrawalId msg) (ap_Validator msg) (ap_SteemTxid msg)) s"
    let ?e2 = "emit (WithdrawalPayoutAssetMismatch (ap_WithdrawalId msg) (ap_Validator msg) w msg) s"
    have "s' = s \<or> s' = ?e1 \<or> s' = ?e2"
      by (rule payout_early_returns[OF run False])
    then have "s' = s\<lparr>b_events := b_events s'\<rparr>" by (elim disjE) (simp_all add: emit_def)
    then show ?thesis by (rule ignored)
  next
    case True
    let ?s1 = "\<lambda>ratio. emit (WithdrawalConfirmed (ap_WithdrawalId msg) (ValAddressString E a) (ap_SteemTxid msg) ratio)
        (recordPayoutVote msg a s)"
    have st: "w_Status w = WITHDRAWAL_STATUS_REQUESTED" "payoutMatches w msg"
      "\<not> ks_has (WithdrawalConfirmedBy s) (ap_WithdrawalId msg, a)" using True by simp_all
    from run st have "attestPayout E p msg a w s = Inr s'" by simp
    then obtain ratio w1 s2 where r: "candidatePayoutRatio E (recordPayoutVote msg a s) (ap_WithdrawalId msg)
         (payoutCandidateKey (ap_SteemTxid msg) (ap_OpIndex msg)) = Inr ratio"
      "processIfReached E p msg ratio (addPayoutConfirmation E a w) (?s1 ratio) = Inr (w1, s2)"
      "s' = s2\<lparr>Withdrawal := kv_set (ap_WithdrawalId msg) w1 (Withdrawal s2)\<rparr>"
      by (auto simp: attestPayout_def Let_def rbind_eq_Inr)
    have q: "w_Status (addPayoutConfirmation E a w) = WITHDRAWAL_STATUS_REQUESTED"
      using st(1) by (simp add: addPayoutConfirmation_def)
    from r(2) q obtain t where t: "BridgeConfirmationThreshold p = Some t"
      and out: "(if t \<le> ratio then markProcessed E msg (addPayoutConfirmation E a w) (?s1 ratio)
         else (addPayoutConfirmation E a w, ?s1 ratio)) = (w1, s2)"
      by (auto simp: processIfReached_def rbind_eq_Inr split: if_splits)
    show ?thesis
    proof (cases "t \<le> ratio")
      case True
      then have "s' = (snd (markProcessed E msg (addPayoutConfirmation E a w) (?s1 ratio)))
         \<lparr>Withdrawal := kv_set (ap_WithdrawalId msg) (fst (markProcessed E msg (addPayoutConfirmation E a w) s)) (Withdrawal s)\<rparr>"
        using out r(3) by (auto simp: recordPayoutVote_def markProcessed_def enqueueBridgeDuty_def)
      then show ?thesis by (rule processed[OF h st r(1) t True])
    next
      case False
      then have "s' = (?s1 ratio)\<lparr>Withdrawal := kv_set (ap_WithdrawalId msg) (addPayoutConfirmation E a w) (Withdrawal s)\<rparr>"
        using out r(3) by (auto simp: recordPayoutVote_def)
      then show ?thesis by (rule recorded[OF h st])
    qed
  qed
qed

lemma recordPayoutVote_simps [simp]:
  "Withdrawal (recordPayoutVote msg a s) = Withdrawal s" "bank (recordPayoutVote msg a s) = bank s"
  "Totals (recordPayoutVote msg a s) = Totals s" "WithdrawalSeq (recordPayoutVote msg a s) = WithdrawalSeq s"
  "WithdrawalByStatus (recordPayoutVote msg a s) = WithdrawalByStatus s"
  "b_Params (recordPayoutVote msg a s) = b_Params s"
  by (simp_all add: recordPayoutVote_def)

text \<open>
  What a successful payout attestation does: nothing but an event, or one vote and one confirmation on a
  requested withdrawal, which stays requested or becomes paid.
\<close>

lemma AttestWithdrawalPayout_effect:
  assumes "AttestWithdrawalPayout E msg s = Inr s'"
  shows "bank s' = bank s \<and> Totals s' = Totals s \<and> b_Params s' = b_Params s \<and> same_deposits s s' \<and> same_names s s' \<and>
     FreeDepositCounter s' = FreeDepositCounter s \<and> FreeNameConfirmCounter s' = FreeNameConfirmCounter s \<and>
     WithdrawalSeq s' = WithdrawalSeq s \<and>
     (same_withdrawals s s' \<and> BridgeDutyQueue s' = BridgeDutyQueue s \<or>
      (\<exists>a w w'. StringToBytes E (ap_Validator msg) = Some a \<and> is_bonded E a \<and>
         kv_get (Withdrawal s) (ap_WithdrawalId msg) = Some w \<and> w_Status w = WITHDRAWAL_STATUS_REQUESTED \<and>
         payoutMatches w msg \<and> \<not> ks_has (WithdrawalConfirmedBy s) (ap_WithdrawalId msg, a) \<and>
         Withdrawal s' = kv_set (ap_WithdrawalId msg) w' (Withdrawal s) \<and>
         WithdrawalConfirmedBy s' = ks_set (ap_WithdrawalId msg, a) (WithdrawalConfirmedBy s) \<and>
         WithdrawalPayoutVote s' = ks_set (ap_WithdrawalId msg, payoutCandidateKey (ap_SteemTxid msg) (ap_OpIndex msg), a)
           (WithdrawalPayoutVote s) \<and>
         w_Id w' = w_Id w \<and> w_AmountMillisteem w' = w_AmountMillisteem w \<and> w_Asset w' = w_Asset w \<and> w_Sender w' = w_Sender w \<and>
         payoutMatches w' msg \<and>
         w_ValidatorConfirmations w' = w_ValidatorConfirmations w @
           [\<lparr>c_ValidatorAddress = ValAddressString E a, c_Timestamp = BlockTime E\<rparr>] \<and>
         (w_Status w' = WITHDRAWAL_STATUS_REQUESTED \<and> WithdrawalByStatus s' = WithdrawalByStatus s \<and>
            BridgeDutyQueue s' = BridgeDutyQueue s \<or>
          w_Status w' = WITHDRAWAL_STATUS_PROCESSED \<and>
            WithdrawalByStatus s' = ks_set (wstat WITHDRAWAL_STATUS_PROCESSED, ap_WithdrawalId msg)
              (ks_remove (wstat WITHDRAWAL_STATUS_REQUESTED, ap_WithdrawalId msg) (WithdrawalByStatus s)) \<and>
            BridgeDutyQueue s' = ks_set (bridgeDutyKindWithdrawal, w_Id w) (BridgeDutyQueue s))))"
  using assms
proof (cases rule: AttestWithdrawalPayout_Inr)
  case (ignored ev)
  then show ?thesis by (simp add: same_defs)
next
  case (recorded p a w ratio)
  then show ?thesis by (auto simp: recordPayoutVote_def addPayoutConfirmation_def payoutMatches_def same_defs)
next
  case (processed p a w ratio t)
  then show ?thesis
    by (auto simp: recordPayoutVote_def addPayoutConfirmation_def markProcessed_def enqueueBridgeDuty_def payoutMatches_def same_defs)
qed

lemma AttestWithdrawalPayout_inv:
  assumes inv: "withdrawal_inv s" and run: "AttestWithdrawalPayout E msg s = Inr s'"
  shows "withdrawal_inv s'"
proof (cases "same_withdrawals s s'")
  case True
  with inv show ?thesis by (rule withdrawal_inv_same)
next
  case False
  have rows: "rows_ok w_Id (\<lambda>w. wstat (w_Status w)) (WithdrawalSeq s) (Withdrawal s) (WithdrawalByStatus s)"
    and votes: "payout_votes_ok (WithdrawalConfirmedBy s) (WithdrawalPayoutVote s)"
    using inv by (simp_all add: withdrawal_inv_def)
  from False AttestWithdrawalPayout_effect[OF run] obtain a w w' where e: "WithdrawalSeq s' = WithdrawalSeq s"
    "kv_get (Withdrawal s) (ap_WithdrawalId msg) = Some w" "w_Status w = WITHDRAWAL_STATUS_REQUESTED"
    "\<not> ks_has (WithdrawalConfirmedBy s) (ap_WithdrawalId msg, a)"
    "Withdrawal s' = kv_set (ap_WithdrawalId msg) w' (Withdrawal s)"
    "WithdrawalConfirmedBy s' = ks_set (ap_WithdrawalId msg, a) (WithdrawalConfirmedBy s)"
    "WithdrawalPayoutVote s' = ks_set (ap_WithdrawalId msg, payoutCandidateKey (ap_SteemTxid msg) (ap_OpIndex msg), a)
           (WithdrawalPayoutVote s)" "w_Id w' = w_Id w"
    "w_Status w' = WITHDRAWAL_STATUS_REQUESTED \<and> WithdrawalByStatus s' = WithdrawalByStatus s \<or>
     w_Status w' = WITHDRAWAL_STATUS_PROCESSED \<and>
       WithdrawalByStatus s' = ks_set (wstat WITHDRAWAL_STATUS_PROCESSED, ap_WithdrawalId msg)
         (ks_remove (wstat WITHDRAWAL_STATUS_REQUESTED, ap_WithdrawalId msg) (WithdrawalByStatus s))"
    by blast
  have id: "w_Id w' = ap_WithdrawalId msg" using rows_ok_get(1)[OF rows e(2)] e(8) by simp
  have "rows_ok w_Id (\<lambda>w. wstat (w_Status w)) (WithdrawalSeq s') (Withdrawal s') (WithdrawalByStatus s')"
    using e(9) rows_ok_touch[OF rows e(2) id] rows_ok_update[OF rows e(2) id] e(3) by (auto simp: e(1,5))
  with payout_votes_record[OF votes e(4)] show ?thesis by (simp add: withdrawal_inv_def e(6,7))
qed

section \<open>Properties\<close>

context bank_keeper
begin

lemma takeCoins_effect:
  assumes "takeCoins bk a denom net fee b = Inr b'" "0 \<le> net" "0 \<le> fee"
  shows "bal b' x d = bal b x d + (if d = denom then
      (if x = maddr BlackHoleModuleName then net else 0) + (if x = maddr BridgeRewardModuleName then fee else 0) -
      (if x = a then net + fee else 0) else 0)"
    and "supply_of b' = supply_of b"
proof -
  obtain b1 where b: "send_if_positive (SendCoinsFromAccountToModule bk a BlackHoleModuleName (NewCoins1 denom net)) net b = Inr b1"
    "send_if_positive (SendCoinsFromAccountToModule bk a BridgeRewardModuleName (NewCoins1 denom fee)) fee b1 = Inr b'"
    using assms(1) by (auto simp: takeCoins_def rbind_eq_Inr)
  have n: "moved (bal b) (bal b1) a (maddr BlackHoleModuleName) (NewCoins1 denom net) \<and> supply_of b1 = supply_of b"
    by (rule send_if_positive_moved[OF b(1) assms(2)]) (simp_all add: acc_mod)
  have f: "moved (bal b1) (bal b') a (maddr BridgeRewardModuleName) (NewCoins1 denom fee) \<and> supply_of b' = supply_of b1"
    by (rule send_if_positive_moved[OF b(2) assms(3)]) (simp_all add: acc_mod)
  show "bal b' x d = bal b x d + (if d = denom then
      (if x = maddr BlackHoleModuleName then net else 0) + (if x = maddr BridgeRewardModuleName then fee else 0) -
      (if x = a then net + fee else 0) else 0)"
    using n f by (auto simp: moved_def)
  show "supply_of b' = supply_of b" using n f by simp
qed

end

text \<open>
  C10: What a bridge-out takes is what it owes. On success the sender loses exactly the requested amount:
  the net part goes to the account that is burned at the end of the block, the fee to the reward account,
  the supply does not change yet; the new record requests the net amount for the requested account; and
  the running burned total grows by the net amount without passing the minted total of the asset.
\<close>

theorem bridge_out_takes_what_it_owes:
  assumes "bank_keeper bk maddr pool bal supply_of" "BridgeOut E bk msg s = Inr s'"
  shows "\<exists>a amount w t. StringToBytes E (bo_Sender msg) = Some a \<and> bo_AmountAsteem msg = Some amount \<and>
    kv_get (Withdrawal s') (WithdrawalSeq s) = Some w \<and> w_Status w = WITHDRAWAL_STATUS_REQUESTED \<and>
    w_DestinationSteemAccount w = bo_DestinationSteemAccount msg \<and> w_Asset w = bo_Asset msg \<and>
    amount = MillisteemToAsteem (w_AmountMillisteem w) + MillisteemToAsteem (w_FeeMillisteem w) \<and>
    (\<forall>x d. bal (bank s') x d = bal (bank s) x d + (if d = DenomForAsset (bo_Asset msg) then
       (if x = maddr BlackHoleModuleName then MillisteemToAsteem (w_AmountMillisteem w) else 0) +
       (if x = maddr BridgeRewardModuleName then MillisteemToAsteem (w_FeeMillisteem w) else 0) -
       (if x = a then amount else 0) else 0)) \<and>
    supply_of (bank s') = supply_of (bank s) \<and>
    Totals s = Some t \<and> Totals s' = Some (add_burned (bo_Asset msg) (MillisteemToAsteem (w_AmountMillisteem w)) t) \<and>
    snd (outstanding (bo_Asset msg) (the (Totals s'))) \<le> fst (outstanding (bo_Asset msg) (the (Totals s')))"
  using assms(2)
proof (cases rule: BridgeOut_Inr)
  case (1 a p amount gross net fee t b)
  have sum: "amount = MillisteemToAsteem net + MillisteemToAsteem fee"
    using fee_parts_asteem[of gross "BridgeFeeBps p"] 1(8,10) by simp
  note e = bank_keeper.takeCoins_effect[OF assms(1) 1(13) MillisteemToAsteem_nonneg MillisteemToAsteem_nonneg]
  have tot: "snd (outstanding (bo_Asset msg) (add_burned (bo_Asset msg) (MillisteemToAsteem net) t)) \<le>
      fst (outstanding (bo_Asset msg) (add_burned (bo_Asset msg) (MillisteemToAsteem net) t))"
    using 1(12) by (auto simp: outstanding_def add_burned_def)
  have bal: "\<forall>x d. bal b x d = bal (bank s) x d + (if d = DenomForAsset (bo_Asset msg) then
       (if x = maddr BlackHoleModuleName then MillisteemToAsteem net else 0) +
       (if x = maddr BridgeRewardModuleName then MillisteemToAsteem fee else 0) - (if x = a then amount else 0) else 0)"
    using e(1) sum by simp
  show ?thesis
    by (rule exI[where x = a], rule exI[where x = amount],
        rule exI[where x = "newWithdrawal E msg (WithdrawalSeq s) amount net fee"], rule exI[where x = t])
      (use 1(1,6,11) sum bal e(2) tot in \<open>simp add: 1(14)\<close>)
qed

definition demo_funded :: "ledger bridge_state" where
  "demo_funded = (start_bridge demo_params demo_ledger)
     \<lparr>Totals := Some (add_minted BRIDGE_ASSET_STEEM 10000000000000000000 zero_totals)\<rparr>"

definition demo_out :: msg_bridge_out where
  "demo_out = \<lparr>bo_Sender = ''bob'', bo_DestinationSteemAccount = ''carol'', bo_AmountAsteem = Some 1000000000000000000,
     bo_Asset = BRIDGE_ASSET_STEEM, bo_Memo = ''''\<rparr>"

lemma demo_carol: "ValidateWithdrawalDestination ''carol'' = Inr ()"
  by (simp add: ValidateWithdrawalDestination_def ValidateSteemAccountName_def steemAccountNameRegex_def is_lower_def
      GatewayAccount_def)

lemma demo_out_run:
  "\<exists>s. BridgeOut demo_bridge_env fakeBank demo_out demo_funded = Inr s"
  by (simp add: BridgeOut_def demo_out_def demo_funded_def demo_params_def bridge_DefaultParams_def demo_carol
      ValidateWithdrawalMemo_def ValidateMemo_def MaxMemoBytes_def MaxWithdrawalMemoBytes_def utf8_ValidString_def
      utf8_runes_def check_amount_def MillisteemToAsteemFactor_def MillisteemToAsteem_def Let_def IsUint64_def
      ApplyBridgeFee_def outstanding_def add_minted_def add_burned_def zero_totals_def takeCoins_def send_if_positive_def
      demo_bank_simps demo_ledger_def demo_name_simps)

lemma bridge_out_takes_what_it_owes_witness:
  "\<exists>s w. BridgeOut demo_bridge_env fakeBank demo_out demo_funded = Inr s \<and> kv_get (Withdrawal s) 0 = Some w \<and>
     1000000000000000000 = MillisteemToAsteem (w_AmountMillisteem w) + MillisteemToAsteem (w_FeeMillisteem w)"
proof -
  obtain s where s: "BridgeOut demo_bridge_env fakeBank demo_out demo_funded = Inr s"
    using demo_out_run by blast
  from bridge_out_takes_what_it_owes[OF fake.bank_keeper_axioms s] s show ?thesis
    by (auto simp: demo_out_def demo_funded_def)
qed

text \<open>
  C9: A withdrawal is marked paid only by a quorum for one payout that matches it. When an attestation
  turns a withdrawal that was not paid into a paid one, that withdrawal was requested, the attested
  transfer has its amount, asset, recipient and memo, the record now names the attested transaction, and
  the validators voting for exactly that transaction hold at least the threshold of the bonded power.
\<close>

theorem payout_needs_quorum_and_match:
  assumes "dec_env E" "AttestWithdrawalPayout E msg s = Inr s'"
    and "kv_get (Withdrawal s) i = Some w" "w_Status w \<noteq> WITHDRAWAL_STATUS_PROCESSED"
    and "kv_get (Withdrawal s') i = Some w'" "w_Status w' = WITHDRAWAL_STATUS_PROCESSED"
    and "b_Params s = Some p" "BridgeConfirmationThreshold p = Some t" "0 < t" "TotalValidatorPower E = Some T"
  shows "i = ap_WithdrawalId msg \<and> w_Status w = WITHDRAWAL_STATUS_REQUESTED \<and> payoutMatches w msg \<and>
    w_SteemPayoutTxid w' = ap_SteemTxid msg \<and> w_PayoutOpIndex w' = ap_OpIndex msg \<and> 0 < T \<and>
    (2 * t - 1) * T \<le> 2 * attested_power E (WithdrawalPayoutVote s') i
      (payoutCandidateKey (ap_SteemTxid msg) (ap_OpIndex msg)) * dec_one"
  using assms(2)
proof (cases rule: AttestWithdrawalPayout_Inr)
  case (ignored ev)
  with assms(3-6) show ?thesis by simp
next
  case (recorded p' a w0 ratio)
  then have "w_Status w' = w_Status w \<or> w_Status w' = WITHDRAWAL_STATUS_REQUESTED"
    using assms(3,5) by (auto simp: addPayoutConfirmation_def split: if_splits)
  with assms(4,6) show ?thesis by auto
next
  case (processed p' a w0 ratio t')
  have p: "p' = p" "t' = t" using processed(1,9) assms(7,8) by auto
  have i: "i = ap_WithdrawalId msg"
    using processed(11) assms(3-6) by (auto split: if_splits)
  have w: "w0 = w" using processed(4) assms(3) i by simp
  have w': "w' = fst (markProcessed E msg (addPayoutConfirmation E a w) s)"
    using processed(11) assms(5) by (simp add: i w)
  have "power_ratio E (attested_power E (WithdrawalPayoutVote s') i
      (payoutCandidateKey (ap_SteemTxid msg) (ap_OpIndex msg))) = Inr ratio"
    using processed(8) by (simp add: processed(11) markProcessed_def enqueueBridgeDuty_def candidatePayoutRatio_def attested_power_def i)
  from dec_env.ratio_reaches_threshold[OF assms(1) this assms(10) processed(10)[unfolded p] assms(9)] processed(5,6)
  show ?thesis by (simp add: i w w' markProcessed_def)
qed

definition demo_payout :: "string \<Rightarrow> msg_attest_payout" where
  "demo_payout v = \<lparr>ap_Validator = v, ap_WithdrawalId = 0, ap_SteemBlock = 9, ap_SteemTimestamp = '''', ap_SteemTxid = ''p1'', ap_OpIndex = 0,
     ap_AmountMillisteem = 998, ap_Asset = BRIDGE_ASSET_STEEM, ap_DestinationSteemAccount = ''carol'', ap_Memo = ''''\<rparr>"

lemma demo_payout_run:
  "\<exists>(s :: ledger bridge_state) s' w w'. AttestWithdrawalPayout demo_bridge_env (demo_payout ''v1'') s = Inr s' \<and>
     b_Params s = Some demo_params \<and> kv_get (Withdrawal s) 0 = Some w \<and> w_Status w = WITHDRAWAL_STATUS_REQUESTED \<and>
     kv_get (Withdrawal s') 0 = Some w' \<and> w_Status w' = WITHDRAWAL_STATUS_PROCESSED"
proof -
  let ?s = "openWithdrawal demo_bridge_env demo_out 1000000000000000000 998 2 demo_funded"
  have "\<exists>s' w'. AttestWithdrawalPayout demo_bridge_env (demo_payout ''v1'') ?s = Inr s' \<and>
     kv_get (Withdrawal s') 0 = Some w' \<and> w_Status w' = WITHDRAWAL_STATUS_PROCESSED"
    by (simp add: AttestWithdrawalPayout_def demo_payout_def demo_funded_def demo_params_def bridge_DefaultParams_def
        CheckSteemBlock_def is_bonded_def plain_validator_def payoutMatches_def demo_out_def attestPayout_def Let_def
        candidatePayoutRatio_def power_ratio_def voters_def recordPayoutVote_def demo_ratio processIfReached_def
        addPayoutConfirmation_def markProcessed_def enqueueBridgeDuty_def kv_get_Cons)
  moreover have "b_Params ?s = Some demo_params" "kv_get (Withdrawal ?s) 0 = Some (newWithdrawal demo_bridge_env demo_out 0 1000000000000000000 998 2)"
    by (simp_all add: demo_funded_def kv_get_Cons)
  ultimately show ?thesis by (metis newWithdrawal_simps(2))
qed

lemma payout_needs_quorum_and_match_witness:
  "\<exists>(s :: ledger bridge_state) s'. AttestWithdrawalPayout demo_bridge_env (demo_payout ''v1'') s = Inr s' \<and>
     (2 * 666666666666666667 - 1) * 4 \<le> 2 * attested_power demo_bridge_env (WithdrawalPayoutVote s') 0
        (payoutCandidateKey ''p1'' 0) * dec_one"
proof -
  obtain s :: "ledger bridge_state" and s' w w' where s: "AttestWithdrawalPayout demo_bridge_env (demo_payout ''v1'') s = Inr s'"
    "b_Params s = Some demo_params" "kv_get (Withdrawal s) 0 = Some w" "w_Status w = WITHDRAWAL_STATUS_REQUESTED"
    "kv_get (Withdrawal s') 0 = Some w'" "w_Status w' = WITHDRAWAL_STATUS_PROCESSED"
    using demo_payout_run by metis
  from payout_needs_quorum_and_match[OF demo_bridge_dec_env s(1,3) _ s(5,6,2), of 666666666666666667 4] s(1,4)
  show ?thesis by (auto simp: demo_params_def bridge_DefaultParams_def demo_payout_def)
qed

text \<open>
  The free-fee check for payout attestations agrees with the handler. For a bonded validator, an
  available power total and a configured threshold: acceptance means the handler succeeds and records
  the vote; a benign rejection, and a payout that does not match the withdrawal, mean it succeeds and
  changes neither a withdrawal nor a vote nor the ledger; any other rejection is the handler's error.
\<close>

theorem payout_acceptance_matches_handler:
  assumes "StringToBytes E (ap_Validator msg) = Some a" "is_bonded E a" "TotalValidatorPower E = Some T"
    and "\<And>p. b_Params s = Some p \<Longrightarrow> BridgeConfirmationThreshold p \<noteq> None"
  shows "case ValidateWithdrawalProcessedAcceptance E msg s of
     Inl e \<Rightarrow> if IsBenignAttestationError e \<or> e = ErrWithdrawalPayoutMismatch
              then (\<exists>s'. AttestWithdrawalPayout E msg s = Inr s' \<and> same_withdrawals s s' \<and> bank s' = bank s)
              else AttestWithdrawalPayout E msg s = Inl e
   | Inr _ \<Rightarrow> \<exists>s'. AttestWithdrawalPayout E msg s = Inr s' \<and>
       ks_has (WithdrawalPayoutVote s') (ap_WithdrawalId msg, payoutCandidateKey (ap_SteemTxid msg) (ap_OpIndex msg), a)"
proof (cases "\<exists>p w. b_Params s = Some p \<and> BridgeOutEnabled p \<and> CheckSteemBlock p (ap_SteemBlock msg) = Inr () \<and>
    kv_get (Withdrawal s) (ap_WithdrawalId msg) = Some w")
  case False
  show ?thesis
  proof (cases "b_Params s")
    case (Some p)
    with False assms show ?thesis
      by (cases "CheckSteemBlock p (ap_SteemBlock msg)"; cases "kv_get (Withdrawal s) (ap_WithdrawalId msg)"; cases "BridgeOutEnabled p")
        (auto simp: ValidateWithdrawalProcessedAcceptance_def AttestWithdrawalPayout_def IsBenignAttestationError_def
          CheckSteemBlock_def guard_err_def split: if_splits)
  qed (simp add: ValidateWithdrawalProcessedAcceptance_def AttestWithdrawalPayout_def IsBenignAttestationError_def)
next
  case True
  then obtain p w where p: "b_Params s = Some p" "BridgeOutEnabled p" "CheckSteemBlock p (ap_SteemBlock msg) = Inr ()"
    "kv_get (Withdrawal s) (ap_WithdrawalId msg) = Some w" by blast
  obtain t where t: "BridgeConfirmationThreshold p = Some t" using assms(4)[OF p(1)] by blast
  show ?thesis
  proof (cases "w_Status w = WITHDRAWAL_STATUS_REQUESTED \<and> payoutMatches w msg \<and>
      \<not> ks_has (WithdrawalConfirmedBy s) (ap_WithdrawalId msg, a)")
    case True
    have "\<exists>s'. attestPayout E p msg a w s = Inr s' \<and> ks_has (WithdrawalPayoutVote s')
        (ap_WithdrawalId msg, payoutCandidateKey (ap_SteemTxid msg) (ap_OpIndex msg), a)"
      using assms(3) t by (simp add: attestPayout_def Let_def candidatePayoutRatio_def power_ratio_def processIfReached_def
          recordPayoutVote_def markProcessed_def enqueueBridgeDuty_def)
    with True p assms(1,2) show ?thesis
      by (simp add: ValidateWithdrawalProcessedAcceptance_def AttestWithdrawalPayout_def)
  next
    case False
    with p assms(1,2) show ?thesis
      by (cases "w_Status w"; cases "payoutMatches w msg"; cases "ks_has (WithdrawalConfirmedBy s) (ap_WithdrawalId msg, a)")
        (simp_all add: ValidateWithdrawalProcessedAcceptance_def AttestWithdrawalPayout_def IsBenignAttestationError_def
          same_withdrawals_def)
  qed
qed

lemma payout_acceptance_matches_handler_witness:
  "AttestWithdrawalPayout demo_bridge_env (demo_payout ''v1'') demo_funded = Inl ErrWithdrawalNotFound"
proof -
  have "ValidateWithdrawalProcessedAcceptance demo_bridge_env (demo_payout ''v1'') demo_funded = Inl ErrWithdrawalNotFound"
    by (simp add: ValidateWithdrawalProcessedAcceptance_def demo_payout_def demo_funded_def demo_params_def
        bridge_DefaultParams_def CheckSteemBlock_def)
  moreover have "StringToBytes demo_bridge_env (ap_Validator (demo_payout ''v1'')) = Some ''v1''"
    "is_bonded demo_bridge_env ''v1''" "TotalValidatorPower demo_bridge_env = Some 4"
    by (simp_all add: demo_payout_def is_bonded_def plain_validator_def)
  moreover have "\<And>p. b_Params demo_funded = Some p \<Longrightarrow> BridgeConfirmationThreshold p \<noteq> None"
    by (simp add: demo_funded_def demo_params_def bridge_DefaultParams_def)
  ultimately show ?thesis
    using payout_acceptance_matches_handler[of demo_bridge_env "demo_payout ''v1''" "''v1''" 4 demo_funded]
    by (simp add: IsBenignAttestationError_def)
qed

end
