(* ===== verification/Bridge_Sweep.thy ===== *)
theory Bridge_Sweep
  imports Bridge_Withdrawal Oracle_Engine
begin

text \<open>
  What the bridge module does once per block: the fee split of the begin-block hook
  (\<open>keeper/feesplit.go\<close>), and at the end of the block the report of finalized bridge events to the
  slashing engine (\<open>keeper/oracle_report.go\<close>), the expiry of deposits and name registrations, the
  refund of withdrawals nobody paid (\<open>keeper/abci.go\<close>) and the burn of the black-hole account
  (\<open>keeper/blackhole.go\<close>), in the order of \<open>module/module.go\<close>. The lemmas show that each sweep keeps
  the tables consistent, never fails on a consistent state for reasons of its own, and what the fee
  split and the burn do to the ledger.
\<close>

section \<open>Bounded scans\<close>

definition MaxExpirySweepPerBlock :: nat where
  "MaxExpirySweepPerBlock = 1000"

text \<open>The identifiers under one status, in key order (\<open>NewPrefixedPairRange\<close>).\<close>

definition bucket :: "int \<Rightarrow> (int \<times> u64) kset \<Rightarrow> u64 list" where
  "bucket n index = map snd (filter (\<lambda>k. fst k = n) index)"

text \<open>
  The walk that collects what is due: it reads each record, counts it, and stops once the running count
  \<open>scanned\<close> reaches the limit.
\<close>

fun scan_due :: "(u64 \<Rightarrow> 'r option) \<Rightarrow> ('r \<Rightarrow> bool) \<Rightarrow> nat \<Rightarrow> u64 list \<Rightarrow> (u64 list \<times> nat) res" where
  "scan_due get due scanned [] = Inr ([], scanned)"
| "scan_due get due scanned (i # is) =
     rbind (from_option ErrNotFound (get i)) (\<lambda>r.
     let hit = (if due r then [i] else []); scanned' = scanned + 1 in
     if MaxExpirySweepPerBlock \<le> scanned' then Inr (hit, scanned')
     else rbind (scan_due get due scanned' is) (\<lambda>(ids, n). Inr (hit @ ids, n)))"

section \<open>Expiry of deposits\<close>

text \<open>The loop that removes the confirmation of every listed validator.\<close>

fun dropConfirmations ::
    "env \<Rightarrow> string \<Rightarrow> u32 \<Rightarrow> confirmation list \<Rightarrow> (string \<times> u32 \<times> bytes) kset \<Rightarrow> (string \<times> u32 \<times> bytes) kset res" where
  "dropConfirmations E txid opIndex [] confirmed = Inr confirmed"
| "dropConfirmations E txid opIndex (c # cs) confirmed =
     rbind (from_option ErrInvalidAddress (ValAddressFromBech32 E (c_ValidatorAddress c))) (\<lambda>valAddr.
     dropConfirmations E txid opIndex cs (ks_remove (txid, opIndex, valAddr) confirmed))"

definition deposit_due :: "env \<Rightarrow> bridge_params \<Rightarrow> deposit \<Rightarrow> bool" where
  "deposit_due E params d \<longleftrightarrow> d_CreatedAt d + DepositTimeoutBlocks params < BlockHeight E"

definition expireDeposit :: "env \<Rightarrow> u64 \<Rightarrow> 'b bridge_state \<Rightarrow> 'b bridge_state res" where
  "expireDeposit E i s =
     rbind (from_option ErrNotFound (kv_get (Deposit s) i)) (\<lambda>d.
     rbind (dropConfirmations E (d_Txid d) (d_OpIndex d) (d_ValidatorConfirmations d) (DepositConfirmedBy s)) (\<lambda>confirmed.
     let s1 = s\<lparr>DepositByTxid := kv_remove (d_Txid d, d_OpIndex d) (DepositByTxid s), DepositConfirmedBy := confirmed\<rparr>;
         s2 = clearDepositFactsVotes (d_Txid d) (d_OpIndex d) s1;
         (d', s3) = setDepositStatus d DEPOSIT_STATUS_EXPIRED s2
     in Inr (emit (DepositExpired i (d_Txid d) (d_OpIndex d)) (s3\<lparr>Deposit := kv_set i d' (Deposit s3)\<rparr>))))"

definition ExpireDeposits :: "env \<Rightarrow> 'b bridge_state \<Rightarrow> 'b bridge_state res" where
  "ExpireDeposits E s =
     rbind (from_option ErrNotFound (b_Params s)) (\<lambda>params.
     rbind (scan_due (kv_get (Deposit s)) (deposit_due E params) 0
              (bucket (dstat DEPOSIT_STATUS_PENDING) (DepositByStatus s))) (\<lambda>(expiredIDs, _).
     rfold (expireDeposit E) expiredIDs s))"

section \<open>Expiry of name registrations\<close>

definition registration_due :: "env \<Rightarrow> bridge_params \<Rightarrow> name_registration \<Rightarrow> bool" where
  "registration_due E params r \<longleftrightarrow>
     (if n_Status r = NAME_REGISTRATION_STATUS_AWAITING_CONFIRMATION then n_AwaitingSince r else n_CreatedAt r)
       + NamePendingTimeoutBlocks params < BlockHeight E"

definition dropAwaiting :: "env \<Rightarrow> name_registration \<Rightarrow> u64 \<Rightarrow> (bytes \<times> u64) kset \<Rightarrow> (bytes \<times> u64) kset res" where
  "dropAwaiting E r i aw =
     (if n_Status r = NAME_REGISTRATION_STATUS_AWAITING_CONFIRMATION
      then rbind (from_option ErrInvalidAddress (StringToBytes E (n_DerivedDestination r))) (\<lambda>destAddr.
           Inr (ks_remove (destAddr, i) aw))
      else Inr aw)"

definition expireRegistration :: "env \<Rightarrow> u64 \<Rightarrow> 'b bridge_state \<Rightarrow> 'b bridge_state res" where
  "expireRegistration E i s =
     rbind (from_option ErrNotFound (kv_get (NameRegistration s) i)) (\<lambda>r.
     rbind (dropConfirmations E (n_Txid r) (n_OpIndex r) (n_ValidatorConfirmations r) (NameRegistrationConfirmedBy s)) (\<lambda>confirmed.
     rbind (dropAwaiting E r i (NameRegistrationAwaitingByDest s)) (\<lambda>aw.
     let s1 = s\<lparr>NameRegistrationByTxid := kv_remove (n_Txid r, n_OpIndex r) (NameRegistrationByTxid s),
               NameRegistrationConfirmedBy := confirmed\<rparr>;
         s2 = (clearNameFactsVotes (n_Txid r) (n_OpIndex r) s1)\<lparr>NameRegistrationAwaitingByDest := aw\<rparr>;
         (r', s3) = setNameRegistrationStatus r NAME_REGISTRATION_STATUS_EXPIRED s2
     in Inr (emit (NameRegistrationExpired i (n_SteemAccount r) (n_Txid r) (n_OpIndex r))
              (s3\<lparr>NameRegistration := kv_set i r' (NameRegistration s3)\<rparr>)))))"

text \<open>The count runs on from the pending bucket into the awaiting one.\<close>

definition ExpireNameRegistrations :: "env \<Rightarrow> 'b bridge_state \<Rightarrow> 'b bridge_state res" where
  "ExpireNameRegistrations E s =
     rbind (from_option ErrNotFound (b_Params s)) (\<lambda>params.
     rbind (scan_due (kv_get (NameRegistration s)) (registration_due E params) 0
              (bucket (nstat NAME_REGISTRATION_STATUS_PENDING) (NameRegistrationByStatus s))) (\<lambda>(pendingIDs, scanned).
     rbind (if MaxExpirySweepPerBlock \<le> scanned then Inr ([], scanned)
            else scan_due (kv_get (NameRegistration s)) (registration_due E params) scanned
              (bucket (nstat NAME_REGISTRATION_STATUS_AWAITING_CONFIRMATION) (NameRegistrationByStatus s)))
       (\<lambda>(awaitingIDs, _).
     rfold (expireRegistration E) (pendingIDs @ awaitingIDs) s)))"

section \<open>Refunds\<close>

definition withdrawal_due :: "env \<Rightarrow> bridge_params \<Rightarrow> withdrawal \<Rightarrow> bool" where
  "withdrawal_due E params w \<longleftrightarrow> w_CreatedAt w + WithdrawalTimeoutBlocks params < BlockHeight E"

definition mintRefund :: "'b bank_ops \<Rightarrow> bytes \<Rightarrow> string \<Rightarrow> int \<Rightarrow> 'b \<Rightarrow> 'b res" where
  "mintRefund bk senderAddr denom netAmt b =
     (if 0 < netAmt
      then rbind (MintCoins bk BlackHoleModuleName (NewCoins1 denom netAmt) b) (\<lambda>b1.
           SendCoinsFromModuleToAccount bk BlackHoleModuleName senderAddr (NewCoins1 denom netAmt) b1)
      else Inr b)"

definition refundWithdrawal :: "env \<Rightarrow> 'b bank_ops \<Rightarrow> u64 \<Rightarrow> 'b bridge_state \<Rightarrow> 'b bridge_state res" where
  "refundWithdrawal E bk i s =
     rbind (from_option ErrNotFound (kv_get (Withdrawal s) i)) (\<lambda>w.
     rbind (from_option ErrInvalidAddress (StringToBytes E (w_Sender w))) (\<lambda>senderAddr.
     let netAmt = MillisteemToAsteem (w_AmountMillisteem w) in
     rbind (mintRefund bk senderAddr (DenomForAsset (w_Asset w)) netAmt (bank s)) (\<lambda>b.
     rbind (from_option ErrNotFound (Totals s)) (\<lambda>totals.
     Inr (emit (WithdrawalRefunded i (w_Sender w) netAmt)
       (s\<lparr>bank := b, Totals := Some (add_minted (w_Asset w) netAmt totals),
          WithdrawalByStatus := ks_set (wstat WITHDRAWAL_STATUS_REFUNDED, i)
            (ks_remove (wstat WITHDRAWAL_STATUS_REQUESTED, i) (WithdrawalByStatus s)),
          Withdrawal := kv_set i (w\<lparr>w_Status := WITHDRAWAL_STATUS_REFUNDED, w_RefundedAt := BlockHeight E\<rparr>)
            (Withdrawal s)\<rparr>))))))"

definition RefundExpiredWithdrawals :: "env \<Rightarrow> 'b bank_ops \<Rightarrow> 'b bridge_state \<Rightarrow> 'b bridge_state res" where
  "RefundExpiredWithdrawals E bk s =
     rbind (from_option ErrNotFound (b_Params s)) (\<lambda>params.
     if WithdrawalTimeoutBlocks params = 0 then Inr s
     else rbind (scan_due (kv_get (Withdrawal s)) (withdrawal_due E params) 0
                   (bucket (wstat WITHDRAWAL_STATUS_REQUESTED) (WithdrawalByStatus s))) (\<lambda>(expiredIDs, _).
          rfold (refundWithdrawal E bk) expiredIDs s))"

section \<open>The bridge duty report\<close>

fun decodeAttesters :: "env \<Rightarrow> string list \<Rightarrow> bytes list" where
  "decodeAttesters E [] = []"
| "decodeAttesters E (s # ss) =
     (case ValAddressFromBech32 E s of
        None \<Rightarrow> decodeAttesters E ss
      | Some valAddr \<Rightarrow> valAddr # decodeAttesters E ss)"

text \<open>The engine's keeper may be absent (\<open>oracleKeeper == nil\<close>): then nothing is reported.\<close>

definition reportBridgeEvent :: "env \<Rightarrow> string list \<Rightarrow> oracle_state option \<Rightarrow> oracle_state option res" where
  "reportBridgeEvent E attesterStrs oracleKeeper =
     (case oracleKeeper of
        None \<Rightarrow> Inr None
      | Some ok \<Rightarrow> rbind (RecordBridgeEvent E (decodeAttesters E attesterStrs) ok) (\<lambda>ok'. Inr (Some ok')))"

definition dutyConfirmations :: "int \<times> u64 \<Rightarrow> 'b bridge_state \<Rightarrow> confirmation list option res" where
  "dutyConfirmations it s =
     (if fst it = bridgeDutyKindDeposit
      then rbind (from_option ErrNotFound (kv_get (Deposit s) (snd it))) (\<lambda>d. Inr (Some (d_ValidatorConfirmations d)))
      else if fst it = bridgeDutyKindWithdrawal
      then rbind (from_option ErrNotFound (kv_get (Withdrawal s) (snd it))) (\<lambda>w. Inr (Some (w_ValidatorConfirmations w)))
      else Inr None)"

definition flushDuty ::
    "env \<Rightarrow> 'b bridge_state \<Rightarrow> int \<times> u64 \<Rightarrow> oracle_state option \<Rightarrow> oracle_state option res" where
  "flushDuty E s it ok =
     rbind (dutyConfirmations it s) (\<lambda>found.
     case found of
       None \<Rightarrow> Inr ok
     | Some confirmations \<Rightarrow> reportBridgeEvent E (map c_ValidatorAddress confirmations) ok)"

definition FlushBridgeDuty ::
    "env \<Rightarrow> 'b bridge_state \<times> oracle_state option \<Rightarrow> ('b bridge_state \<times> oracle_state option) res" where
  "FlushBridgeDuty E so =
     rbind (rfold (flushDuty E (fst so)) (BridgeDutyQueue (fst so)) (snd so)) (\<lambda>ok.
     Inr ((fst so)\<lparr>BridgeDutyQueue := []\<rparr>, ok))"

section \<open>Fee split and burn\<close>

definition splitCoin :: "env \<Rightarrow> 'b bank_ops \<Rightarrow> string \<times> int \<Rightarrow> 'b \<Rightarrow> 'b res" where
  "splitCoin E bk coin b =
     (let quarter = snd coin div 4 in
      if quarter = 0 then Inr b
      else rbind (FundCommunityPool bk (NewCoins1 (fst coin) quarter) (NewModuleAddress E FeeCollectorName) b) (\<lambda>b1.
           SendCoinsFromModuleToModule bk FeeCollectorName BlackHoleModuleName (NewCoins1 (fst coin) quarter) b1))"

definition coins_IsZero :: "coins \<Rightarrow> bool" where
  "coins_IsZero cs \<longleftrightarrow> list_all (\<lambda>c. snd c = 0) cs"

definition SplitFees :: "env \<Rightarrow> 'b bank_ops \<Rightarrow> 'b \<Rightarrow> 'b res" where
  "SplitFees E bk b =
     rbind (rfold (splitCoin E bk) (GetAllBalances bk (NewModuleAddress E FeeCollectorName) b) b) (\<lambda>b1.
     let bridgeReward = GetAllBalances bk (NewModuleAddress E BridgeRewardModuleName) b1 in
     if \<not> coins_IsZero bridgeReward
     then SendCoinsFromModuleToModule bk BridgeRewardModuleName FeeCollectorName bridgeReward b1
     else Inr b1)"

definition SweepBlackHole :: "env \<Rightarrow> 'b bank_ops \<Rightarrow> 'b \<Rightarrow> 'b res" where
  "SweepBlackHole E bk b =
     (let balance = GetAllBalances bk (NewModuleAddress E BlackHoleModuleName) b in
      if coins_IsZero balance then Inr b else BurnCoins bk BlackHoleModuleName balance b)"

section \<open>The block hooks of the module\<close>

definition bridge_BeginBlock :: "env \<Rightarrow> 'b bank_ops \<Rightarrow> 'b bridge_state \<Rightarrow> 'b bridge_state res" where
  "bridge_BeginBlock E bk s = rbind (SplitFees E bk (bank s)) (\<lambda>b. Inr (s\<lparr>bank := b\<rparr>))"

definition bridge_EndBlock ::
    "env \<Rightarrow> 'b bank_ops \<Rightarrow> 'b bridge_state \<times> oracle_state option \<Rightarrow> ('b bridge_state \<times> oracle_state option) res" where
  "bridge_EndBlock E bk so =
     rbind (FlushBridgeDuty E so) (\<lambda>(s1, ok).
     rbind (ExpireDeposits E s1) (\<lambda>s2.
     rbind (ExpireNameRegistrations E s2) (\<lambda>s3.
     rbind (RefundExpiredWithdrawals E bk s3) (\<lambda>s4.
     rbind (SweepBlackHole E bk (bank s4)) (\<lambda>b.
     Inr (s4\<lparr>bank := b\<rparr>, ok))))))"

section \<open>What a scan collects\<close>

lemma rfold_distinct_invariant:
  assumes "rfold f xs s = Inr t" "distinct xs" "P s (set xs)"
    and "\<And>x s t A. x \<in> A \<Longrightarrow> P s A \<Longrightarrow> f x s = Inr t \<Longrightarrow> P t (A - {x})"
  shows "P t {}"
  using assms(1-3)
proof (induction xs arbitrary: s)
  case (Cons x xs)
  from Cons.prems(1) obtain u where u: "f x s = Inr u" "rfold f xs u = Inr t" by (auto simp: rbind_eq_Inr)
  have "P u (set (x # xs) - {x})" by (rule assms(4)[OF _ Cons.prems(3) u(1)]) simp
  with Cons.prems(2) have "P u (set xs)" by simp
  with Cons.IH[OF u(2)] Cons.prems(2) show ?case by simp
qed simp

lemma set_bucket [simp]: "set (bucket n index) = {i. ks_has index (n, i)}"
  by (force simp: bucket_def ks_has_def)

lemma distinct_bucket: "ks_wf index \<Longrightarrow> distinct (bucket n index)"
  by (auto simp: bucket_def ks_wf_def strict_sorted_iff distinct_map inj_on_def)

lemma sorted_bucket: "ks_wf index \<Longrightarrow> sorted_wrt (<) (bucket n index)"
  by (induction index) (auto simp: bucket_def ks_wf_def)

text \<open>
  The scan reads the first entries of the bucket, up to the limit, and keeps those that are due. It
  fails only when the index lists a record that does not exist.
\<close>

lemma scan_due_exact:
  assumes "\<forall>i \<in> set is. get i \<noteq> None"
  shows "scan_due get due scanned is =
    (let seen = (if scanned < MaxExpirySweepPerBlock then take (MaxExpirySweepPerBlock - scanned) is else take 1 is)
     in Inr (filter (\<lambda>i. due (the (get i))) seen, scanned + length seen))"
  using assms
proof (induction get due scanned "is" rule: scan_due.induct)
  case (2 get due scanned i "is")
  then obtain r where r: "get i = Some r" by auto
  show ?case
  proof (cases "MaxExpirySweepPerBlock \<le> scanned + 1")
    case True
    then have "scanned < MaxExpirySweepPerBlock \<Longrightarrow> MaxExpirySweepPerBlock - scanned = 1" by simp
    with True r show ?thesis by (simp add: Let_def)
  next
    case False
    have step: "MaxExpirySweepPerBlock - scanned = Suc (MaxExpirySweepPerBlock - (scanned + 1))" using False by simp
    show ?thesis
      using "2.IH"[OF refl refl False] "2.prems" r False by (simp add: Let_def step)
  qed
qed simp

corollary scan_due_from_zero:
  assumes "\<forall>i \<in> set is. get i \<noteq> None"
  shows "scan_due get due 0 is = Inr (filter (\<lambda>i. due (the (get i))) (take MaxExpirySweepPerBlock is),
           length (take MaxExpirySweepPerBlock is))"
  using scan_due_exact[OF assms, of due 0] by (simp add: Let_def MaxExpirySweepPerBlock_def)

lemma scan_due_sound:
  assumes "scan_due get due scanned is = Inr (ids, n)"
  shows "set ids \<subseteq> {i \<in> set is. \<exists>r. get i = Some r \<and> due r} \<and> (distinct is \<longrightarrow> distinct ids)"
  using assms
proof (induction get due scanned "is" arbitrary: ids n rule: scan_due.induct)
  case (2 get due scanned i "is")
  from "2.prems" obtain r where r: "get i = Some r" by (auto simp: rbind_eq_Inr)
  show ?case
  proof (cases "MaxExpirySweepPerBlock \<le> scanned + 1")
    case True
    with "2.prems" r show ?thesis by (auto simp: Let_def split: if_splits)
  next
    case False
    with "2.prems" r obtain ids' where i: "scan_due get due (scanned + 1) is = Inr (ids', n)"
      "ids = (if due r then [i] else []) @ ids'"
      by (auto simp: Let_def rbind_eq_Inr)
    from "2.IH"[OF refl refl False i(1)] i(2) r show ?thesis by auto
  qed
qed simp

section \<open>Expired deposits\<close>

text \<open>Every recorded confirmation appears on the live record of its key.\<close>

definition confirmed_listed ::
    "(string \<Rightarrow> bytes option) \<Rightarrow> ('r \<Rightarrow> confirmation list) \<Rightarrow> (string \<times> u32, u64) kv \<Rightarrow> (u64, 'r) kv \<Rightarrow>
     (string \<times> u32 \<times> bytes) kset \<Rightarrow> bool" where
  "confirmed_listed valdec confs byKey recs confirmed \<longleftrightarrow>
     (\<forall>t j v. ks_has confirmed (t, j, v) \<longrightarrow> (\<exists>i r c. kv_get byKey (t, j) = Some i \<and> kv_get recs i = Some r \<and>
        c \<in> set (confs r) \<and> valdec (c_ValidatorAddress c) = Some v))"

definition confs_decode :: "(string \<Rightarrow> bytes option) \<Rightarrow> ('r \<Rightarrow> confirmation list) \<Rightarrow> (u64, 'r) kv \<Rightarrow> bool" where
  "confs_decode valdec confs recs \<longleftrightarrow>
     (\<forall>i r. kv_get recs i = Some r \<longrightarrow> (\<forall>c \<in> set (confs r). valdec (c_ValidatorAddress c) \<noteq> None))"

definition deposit_listed :: "(string \<Rightarrow> bytes option) \<Rightarrow> 'b bridge_state \<Rightarrow> bool" where
  "deposit_listed valdec s \<longleftrightarrow>
     confirmed_listed valdec d_ValidatorConfirmations (DepositByTxid s) (Deposit s) (DepositConfirmedBy s) \<and>
     confs_decode valdec d_ValidatorConfirmations (Deposit s)"

lemma confs_decode_set:
  "confs_decode valdec confs recs \<Longrightarrow> \<forall>c \<in> set (confs r). valdec (c_ValidatorAddress c) \<noteq> None \<Longrightarrow>
   confs_decode valdec confs (kv_set i r recs)"
  by (auto simp: confs_decode_def)

lemma dropConfirmations_has:
  assumes "dropConfirmations E t j cs confirmed = Inr confirmed'"
  shows "ks_has confirmed' k \<longleftrightarrow> ks_has confirmed k \<and>
    (\<forall>c \<in> set cs. \<forall>v. ValAddressFromBech32 E (c_ValidatorAddress c) = Some v \<longrightarrow> k \<noteq> (t, j, v))"
  using assms by (induction E t j cs confirmed rule: dropConfirmations.induct) (auto simp: rbind_eq_Inr)

lemma dropConfirmations_total:
  "\<forall>c \<in> set cs. ValAddressFromBech32 E (c_ValidatorAddress c) \<noteq> None \<Longrightarrow> \<exists>x. dropConfirmations E t j cs confirmed = Inr x"
  by (induction E t j cs confirmed rule: dropConfirmations.induct) auto

lemma drop_listed_clears:
  assumes listed: "confirmed_listed (ValAddressFromBech32 E) confs byKey recs confirmed"
    and rec: "kv_get byKey (t, j) = Some i" "kv_get recs i = Some r"
    and drop: "dropConfirmations E t j (confs r) confirmed = Inr confirmed'"
  shows "ks_has confirmed' (t', j', v) \<longleftrightarrow> (t', j') \<noteq> (t, j) \<and> ks_has confirmed (t', j', v)"
proof (cases "(t', j') = (t, j)")
  case True
  have "\<not> ks_has confirmed' (t, j, v)"
  proof
    assume has: "ks_has confirmed' (t, j, v)"
    then have "ks_has confirmed (t, j, v)" by (simp add: dropConfirmations_has[OF drop])
    with listed rec obtain c where "c \<in> set (confs r)" "ValAddressFromBech32 E (c_ValidatorAddress c) = Some v"
      unfolding confirmed_listed_def by fastforce
    with has show False by (auto simp: dropConfirmations_has[OF drop])
  qed
  with True show ?thesis by auto
qed (use dropConfirmations_has[OF drop] in auto)

text \<open>A key nobody has attested: no record, no confirmation and no vote under it.\<close>

definition fresh_deposit_key :: "string \<Rightarrow> u32 \<Rightarrow> 'b bridge_state \<Rightarrow> bool" where
  "fresh_deposit_key t j s \<longleftrightarrow> kv_get (DepositByTxid s) (t, j) = None \<and>
     (\<forall>v. \<not> ks_has (DepositConfirmedBy s) (t, j, v)) \<and>
     (\<forall>h v. \<not> ks_has (DepositFactsVote s) (dedupKeyString t j, h, v))"

lemma expireDeposit_effect:
  assumes inv: "deposit_inv s" and listed: "deposit_listed (ValAddressFromBech32 E) s"
    and rec: "kv_get (Deposit s) i = Some d" "d_Status d = DEPOSIT_STATUS_PENDING"
    and run: "expireDeposit E i s = Inr s'"
  shows "deposit_inv s'" "deposit_listed (ValAddressFromBech32 E) s'"
    and "Deposit s' = kv_set i (d\<lparr>d_Status := DEPOSIT_STATUS_EXPIRED\<rparr>) (Deposit s)"
    and "fresh_deposit_key (d_Txid d) (d_OpIndex d) s'"
    and "fresh_deposit_key t j s \<Longrightarrow> fresh_deposit_key t j s'"
    and "\<exists>ev. s' = s\<lparr>Deposit := Deposit s', DepositByTxid := DepositByTxid s', DepositConfirmedBy := DepositConfirmedBy s',
       DepositFactsVote := DepositFactsVote s', DepositByStatus := DepositByStatus s', b_events := ev\<rparr>"
proof -
  let ?d = "d\<lparr>d_Status := DEPOSIT_STATUS_EXPIRED\<rparr>"
  obtain confirmed where c: "dropConfirmations E (d_Txid d) (d_OpIndex d) (d_ValidatorConfirmations d) (DepositConfirmedBy s) = Inr confirmed"
    and s': "s' = emit (DepositExpired i (d_Txid d) (d_OpIndex d))
      (s\<lparr>DepositByTxid := kv_remove (d_Txid d, d_OpIndex d) (DepositByTxid s), DepositConfirmedBy := confirmed,
         DepositFactsVote := clearFactsVotes (dedupKeyString (d_Txid d) (d_OpIndex d)) (DepositFactsVote s),
         DepositByStatus := ks_set (dstat DEPOSIT_STATUS_EXPIRED, d_Id d) (ks_remove (dstat (d_Status d), d_Id d) (DepositByStatus s)),
         Deposit := kv_set i ?d (Deposit s)\<rparr>)"
    using run rec by (auto simp: expireDeposit_def rbind_eq_Inr Let_def clearDepositFactsVotes_def setDepositStatus_def)
  have tab: "table_ok d_Id (\<lambda>d. (d_Txid d, d_OpIndex d)) (\<lambda>d. dstat (d_Status d)) (\<lambda>d. d_Status d = DEPOSIT_STATUS_EXPIRED)
       (DepositSeq s) (Deposit s) (DepositByTxid s) (DepositByStatus s)"
    and votes: "votes_ok (DepositConfirmedBy s) (DepositFactsVote s)"
    using inv by (simp_all add: deposit_inv_def)
  have id: "d_Id d = i" by (rule table_ok_get(1)[OF tab rec(1)])
  have key: "kv_get (DepositByTxid s) (d_Txid d, d_OpIndex d) = Some i"
    using table_ok_get(3)[OF tab rec(1)] rec(2) by simp
  note cleared = drop_listed_clears[OF conjunct1[OF listed[unfolded deposit_listed_def]] key rec(1) c]
  have "votes_ok confirmed (clearFactsVotes (dedupKeyString (d_Txid d) (d_OpIndex d)) (DepositFactsVote s))"
    by (rule votes_ok_clear[OF votes]) (use cleared in auto)
  with table_ok_expire[OF tab rec(1), of ?d] rec(2) id show "deposit_inv s'"
    by (simp add: deposit_inv_def s')
  have dec: "confs_decode (ValAddressFromBech32 E) d_ValidatorConfirmations (Deposit s)"
    using listed by (simp add: deposit_listed_def)
  have dec': "confs_decode (ValAddressFromBech32 E) d_ValidatorConfirmations (Deposit s')"
    using confs_decode_set[OF dec, of ?d i] dec rec(1) by (simp add: s' confs_decode_def)
  have "confirmed_listed (ValAddressFromBech32 E) d_ValidatorConfirmations (DepositByTxid s') (Deposit s') (DepositConfirmedBy s')"
    unfolding confirmed_listed_def
  proof (intro allI impI)
    fix t j v assume "ks_has (DepositConfirmedBy s') (t, j, v)"
    then have k: "(t, j) \<noteq> (d_Txid d, d_OpIndex d)" "ks_has (DepositConfirmedBy s) (t, j, v)"
      using cleared by (auto simp: s')
    then obtain i' r c where r: "kv_get (DepositByTxid s) (t, j) = Some i'" "kv_get (Deposit s) i' = Some r"
        "c \<in> set (d_ValidatorConfirmations r)" "ValAddressFromBech32 E (c_ValidatorAddress c) = Some v"
      using listed unfolding deposit_listed_def confirmed_listed_def by blast
    have "i' \<noteq> i" using table_ok_key(1)[OF tab r(1)] rec(1) k(1) by auto
    with r k(1) show "\<exists>i r c. kv_get (DepositByTxid s') (t, j) = Some i \<and> kv_get (Deposit s') i = Some r \<and>
        c \<in> set (d_ValidatorConfirmations r) \<and> ValAddressFromBech32 E (c_ValidatorAddress c) = Some v"
      by (auto simp: s')
  qed
  with dec' show "deposit_listed (ValAddressFromBech32 E) s'" by (simp add: deposit_listed_def)
  show "Deposit s' = kv_set i ?d (Deposit s)" by (simp add: s')
  show "fresh_deposit_key (d_Txid d) (d_OpIndex d) s'" using cleared by (simp add: s' fresh_deposit_key_def)
  show "fresh_deposit_key t j s \<Longrightarrow> fresh_deposit_key t j s'" using cleared by (auto simp: s' fresh_deposit_key_def)
  show "\<exists>ev. s' = s\<lparr>Deposit := Deposit s', DepositByTxid := DepositByTxid s', DepositConfirmedBy := DepositConfirmedBy s',
       DepositFactsVote := DepositFactsVote s', DepositByStatus := DepositByStatus s', b_events := ev\<rparr>"
    by (rule exI[where x = "b_events s'"]) (simp add: s' emit_def)
qed

lemma expireDeposit_total:
  assumes "deposit_listed (ValAddressFromBech32 E) s" "kv_get (Deposit s) i = Some d"
  shows "\<exists>s'. expireDeposit E i s = Inr s'"
proof -
  have "\<forall>c \<in> set (d_ValidatorConfirmations d). ValAddressFromBech32 E (c_ValidatorAddress c) \<noteq> None"
    using assms by (simp add: deposit_listed_def confs_decode_def)
  from dropConfirmations_total[OF this, of "d_Txid d" "d_OpIndex d" "DepositConfirmedBy s"] assms(2) show ?thesis
    by (auto simp: expireDeposit_def Let_def setDepositStatus_def)
qed

lemma rfold_distinct_total:
  assumes "distinct xs" "P s (set xs)"
    and "\<And>x s A. x \<in> A \<Longrightarrow> P s A \<Longrightarrow> \<exists>t. f x s = Inr t \<and> P t (A - {x})"
  shows "\<exists>t. rfold f xs s = Inr t \<and> P t {}"
  using assms(1,2)
proof (induction xs arbitrary: s)
  case (Cons x xs)
  obtain u where u: "f x s = Inr u" "P u (set (x # xs) - {x})"
    using assms(3)[of x "set (x # xs)" s] Cons.prems(2) by auto
  with Cons.prems(1) have "P u (set xs)" by simp
  with Cons.IH[of u] Cons.prems(1) u(1) show ?case by simp
qed simp

definition expired_deposit :: "deposit \<Rightarrow> deposit" where
  "expired_deposit d = d\<lparr>d_Status := DEPOSIT_STATUS_EXPIRED\<rparr>"

text \<open>The pending deposits the sweep of this block takes down.\<close>

definition due_deposits :: "env \<Rightarrow> bridge_params \<Rightarrow> 'b bridge_state \<Rightarrow> u64 list" where
  "due_deposits E p s = filter (\<lambda>i. deposit_due E p (the (kv_get (Deposit s) i)))
     (take MaxExpirySweepPerBlock (bucket (dstat DEPOSIT_STATUS_PENDING) (DepositByStatus s)))"

text \<open>How far a sweep that still has the records in \<open>todo\<close> to expire has come.\<close>

definition deposit_sweep :: "env \<Rightarrow> u64 set \<Rightarrow> 'b bridge_state \<Rightarrow> 'b bridge_state \<Rightarrow> u64 set \<Rightarrow> bool" where
  "deposit_sweep E ids s0 s todo \<longleftrightarrow> todo \<subseteq> ids \<and>
     deposit_inv s \<and> deposit_listed (ValAddressFromBech32 E) s \<and>
     (\<forall>i. i \<notin> ids \<or> i \<in> todo \<longrightarrow> kv_get (Deposit s) i = kv_get (Deposit s0) i) \<and>
     (\<forall>i d. i \<in> ids - todo \<longrightarrow> kv_get (Deposit s0) i = Some d \<longrightarrow>
        kv_get (Deposit s) i = Some (expired_deposit d) \<and> fresh_deposit_key (d_Txid d) (d_OpIndex d) s) \<and>
     (\<exists>ev. s = s0\<lparr>Deposit := Deposit s, DepositByTxid := DepositByTxid s, DepositConfirmedBy := DepositConfirmedBy s,
       DepositFactsVote := DepositFactsVote s, DepositByStatus := DepositByStatus s, b_events := ev\<rparr>)"

lemma deposit_sweep_step:
  assumes sw: "deposit_sweep E ids s0 s todo" and i: "i \<in> todo"
    and pend: "\<And>i. i \<in> ids \<Longrightarrow> \<exists>d. kv_get (Deposit s0) i = Some d \<and> d_Status d = DEPOSIT_STATUS_PENDING"
  shows "\<exists>t. expireDeposit E i s = Inr t \<and> deposit_sweep E ids s0 t (todo - {i})"
proof -
  have inv: "deposit_inv s" "deposit_listed (ValAddressFromBech32 E) s" and sub: "todo \<subseteq> ids"
    using sw by (simp_all add: deposit_sweep_def)
  obtain d where d0: "kv_get (Deposit s0) i = Some d" "d_Status d = DEPOSIT_STATUS_PENDING"
    using pend[of i] i sub by blast
  have d: "kv_get (Deposit s) i = Some d" using sw i d0 by (simp add: deposit_sweep_def)
  obtain t where t: "expireDeposit E i s = Inr t" using expireDeposit_total[OF inv(2) d] by blast
  note e = expireDeposit_effect[OF inv d d0(2) t]
  obtain ev ev' where fr: "s = s0\<lparr>Deposit := Deposit s, DepositByTxid := DepositByTxid s, DepositConfirmedBy := DepositConfirmedBy s,
       DepositFactsVote := DepositFactsVote s, DepositByStatus := DepositByStatus s, b_events := ev\<rparr>"
    "t = s\<lparr>Deposit := Deposit t, DepositByTxid := DepositByTxid t, DepositConfirmedBy := DepositConfirmedBy t,
       DepositFactsVote := DepositFactsVote t, DepositByStatus := DepositByStatus t, b_events := ev'\<rparr>"
    using sw e(6) unfolding deposit_sweep_def by blast
  have "t = s0\<lparr>Deposit := Deposit t, DepositByTxid := DepositByTxid t, DepositConfirmedBy := DepositConfirmedBy t,
       DepositFactsVote := DepositFactsVote t, DepositByStatus := DepositByStatus t, b_events := ev'\<rparr>"
    by (subst fr(2), subst fr(1)) simp
  moreover have "kv_get (Deposit t) j = Some (expired_deposit q) \<and> fresh_deposit_key (d_Txid q) (d_OpIndex q) t"
    if "j \<in> ids - (todo - {i})" "kv_get (Deposit s0) j = Some q" for j q
    using that sw d0 e(3,4,5) unfolding deposit_sweep_def by (cases "j = i") (auto simp: expired_deposit_def)
  moreover have "kv_get (Deposit t) j = kv_get (Deposit s0) j" if "j \<notin> ids \<or> j \<in> todo - {i}" for j
    using that sw i sub e(3) unfolding deposit_sweep_def by auto
  ultimately show ?thesis using t e(1,2) sub unfolding deposit_sweep_def by blast
qed

lemma ExpireDeposits_folds:
  assumes inv: "deposit_inv s" and p: "b_Params s = Some p"
  shows "ExpireDeposits E s = rfold (expireDeposit E) (due_deposits E p s) s" "distinct (due_deposits E p s)"
    and "i \<in> set (due_deposits E p s) \<Longrightarrow> \<exists>d. kv_get (Deposit s) i = Some d \<and> d_Status d = DEPOSIT_STATUS_PENDING"
proof -
  have tab: "table_ok d_Id (\<lambda>d. (d_Txid d, d_OpIndex d)) (\<lambda>d. dstat (d_Status d)) (\<lambda>d. d_Status d = DEPOSIT_STATUS_EXPIRED)
       (DepositSeq s) (Deposit s) (DepositByTxid s) (DepositByStatus s)"
    using inv by (simp add: deposit_inv_def)
  let ?b = "bucket (dstat DEPOSIT_STATUS_PENDING) (DepositByStatus s)"
  have mem: "i \<in> set ?b \<longleftrightarrow> (\<exists>d. kv_get (Deposit s) i = Some d \<and> d_Status d = DEPOSIT_STATUS_PENDING)" for i
    using table_ok_status[OF tab, of "dstat DEPOSIT_STATUS_PENDING" i] by (simp del: dstat.simps)
  have scan: "scan_due (kv_get (Deposit s)) (deposit_due E p) 0 ?b =
      Inr (due_deposits E p s, length (take MaxExpirySweepPerBlock ?b))"
    unfolding due_deposits_def by (rule scan_due_from_zero) (use mem in auto)
  then show "ExpireDeposits E s = rfold (expireDeposit E) (due_deposits E p s) s"
    by (simp add: ExpireDeposits_def p del: dstat.simps)
  show "distinct (due_deposits E p s)"
    using distinct_bucket[OF table_ok_wf(2)[OF tab]] by (simp add: due_deposits_def)
  have sub: "set (due_deposits E p s) \<subseteq> set ?b" using set_take_subset by (fastforce simp: due_deposits_def)
  show "\<exists>d. kv_get (Deposit s) i = Some d \<and> d_Status d = DEPOSIT_STATUS_PENDING" if "i \<in> set (due_deposits E p s)"
    using that sub mem[of i] by blast
qed

lemma ExpireDeposits_sweeps:
  assumes inv: "deposit_inv s" "deposit_listed (ValAddressFromBech32 E) s" and p: "b_Params s = Some p"
  shows "\<exists>s'. ExpireDeposits E s = Inr s' \<and> deposit_sweep E (set (due_deposits E p s)) s s' {}"
proof -
  note folds = ExpireDeposits_folds[OF inv(1) p, where E = E]
  have "deposit_sweep E (set (due_deposits E p s)) s s (set (due_deposits E p s))"
    using inv by (auto simp: deposit_sweep_def intro: exI[where x = "b_events s"])
  from rfold_distinct_total[where P = "deposit_sweep E (set (due_deposits E p s)) s" and f = "expireDeposit E", OF folds(2) this]
  show ?thesis unfolding folds(1) using deposit_sweep_step[OF _ _ folds(3)] by blast
qed

text \<open>An attestation keeps every confirmation listed on the record of its key.\<close>

lemma confirmed_listed_record:
  assumes listed: "confirmed_listed valdec confs byKey recs confirmed"
    and key: "kv_get byKey' (t, j) = Some i" "kv_get byKey (t, j) = None \<or> kv_get byKey (t, j) = Some i"
    and other: "\<And>k. k \<noteq> (t, j) \<Longrightarrow> kv_get byKey' k = kv_get byKey k"
    and grow: "\<And>q. kv_get recs i = Some q \<Longrightarrow> set (confs q) \<subseteq> set (confs r)"
    and c: "c \<in> set (confs r)" "valdec (c_ValidatorAddress c) = Some v"
  shows "confirmed_listed valdec confs byKey' (kv_set i r recs) (ks_set (t, j, v) confirmed)"
  unfolding confirmed_listed_def
proof (intro allI impI)
  fix t' j' v' assume h: "ks_has (ks_set (t, j, v) confirmed) (t', j', v')"
  show "\<exists>i' r' c. kv_get byKey' (t', j') = Some i' \<and> kv_get (kv_set i r recs) i' = Some r' \<and>
      c \<in> set (confs r') \<and> valdec (c_ValidatorAddress c) = Some v'"
  proof (cases "(t', j', v') = (t, j, v)")
    case True
    with key(1) c show ?thesis by auto
  next
    case False
    with h have "ks_has confirmed (t', j', v')" by auto
    with listed obtain i' q c' where q: "kv_get byKey (t', j') = Some i'" "kv_get recs i' = Some q"
        "c' \<in> set (confs q)" "valdec (c_ValidatorAddress c') = Some v'"
      unfolding confirmed_listed_def by blast
    have k: "kv_get byKey' (t', j') = Some i'" using q(1) key other by (cases "(t', j') = (t, j)") auto
    show ?thesis
    proof (cases "i' = i")
      case True
      with grow[of q] q(2,3,4) k show ?thesis by auto
    qed (use q k in auto)
  qed
qed

lemma confirmed_listed_same:
  assumes "confirmed_listed valdec confs byKey recs confirmed"
    and "\<And>q. kv_get recs i = Some q \<Longrightarrow> confs r = confs q"
  shows "confirmed_listed valdec confs byKey (kv_set i r recs) confirmed"
  using assms unfolding confirmed_listed_def by (auto, metis option.inject)

definition val_codec_ok :: "env \<Rightarrow> bool" where
  "val_codec_ok E \<longleftrightarrow> (\<forall>a. ValAddressFromBech32 E (ValAddressString E a) = Some a)"

lemma AttestDeposit_listed:
  assumes inv: "deposit_inv s" "deposit_listed (ValAddressFromBech32 E) s" and codec: "val_codec_ok E"
    and run: "AttestDeposit E bk msg s = Inr s'"
  shows "deposit_listed (ValAddressFromBech32 E) s'"
proof (cases "s' = s")
  case False
  let ?dec = "ValAddressFromBech32 E"
  have listed: "confirmed_listed ?dec d_ValidatorConfirmations (DepositByTxid s) (Deposit s) (DepositConfirmedBy s)"
    and dec: "confs_decode ?dec d_ValidatorConfirmations (Deposit s)"
    using inv(2) by (simp_all add: deposit_listed_def)
  have tab: "table_ok d_Id (\<lambda>d. (d_Txid d, d_OpIndex d)) (\<lambda>d. dstat (d_Status d)) (\<lambda>d. d_Status d = DEPOSIT_STATUS_EXPIRED)
       (DepositSeq s) (Deposit s) (DepositByTxid s) (DepositByStatus s)"
    using inv(1) by (simp add: deposit_inv_def)
  from AttestDeposit_effect[OF run False] obtain a d0 i s1 d where at:
    "openDeposit E msg s = Inr (d0, i, s1)"
    "d_ValidatorConfirmations d = d_ValidatorConfirmations (addConfirmation E a d0)"
    "Deposit s' = kv_set i d (Deposit s)" "DepositByTxid s' = DepositByTxid s1"
    "DepositConfirmedBy s' = ks_set (ad_Txid msg, ad_OpIndex msg, a) (DepositConfirmedBy s)"
    by (metis (no_types, lifting))
  have new: "?dec (ValAddressString E a) = Some a" using codec by (simp add: val_codec_ok_def)
  from at(1) have old: "set (d_ValidatorConfirmations q) \<subseteq> set (d_ValidatorConfirmations d)" if "kv_get (Deposit s) i = Some q" for q
    using that table_ok_get(2)[OF tab that] by (cases rule: openDeposit_cases) (auto simp: at(2) addConfirmation_def)
  from at(1) have dec0: "\<forall>c \<in> set (d_ValidatorConfirmations d0). ?dec (c_ValidatorAddress c) \<noteq> None"
    using dec by (auto simp: openDeposit_def newDeposit_def Let_def rbind_eq_Inr confs_decode_def split: option.splits)
  from at(1) have key: "kv_get (DepositByTxid s') (ad_Txid msg, ad_OpIndex msg) = Some i"
      "kv_get (DepositByTxid s) (ad_Txid msg, ad_OpIndex msg) = None \<or> kv_get (DepositByTxid s) (ad_Txid msg, ad_OpIndex msg) = Some i"
      "\<And>k. k \<noteq> (ad_Txid msg, ad_OpIndex msg) \<Longrightarrow> kv_get (DepositByTxid s') k = kv_get (DepositByTxid s) k"
    by (cases rule: openDeposit_cases; simp add: at(4))+
  have "confirmed_listed ?dec d_ValidatorConfirmations (DepositByTxid s') (Deposit s') (DepositConfirmedBy s')"
    unfolding at(3,5) using listed key old
    by (rule confirmed_listed_record[where c = "\<lparr>c_ValidatorAddress = ValAddressString E a, c_Timestamp = BlockTime E\<rparr>"])
      (simp_all add: at(2) addConfirmation_def new)
  moreover have "confs_decode ?dec d_ValidatorConfirmations (Deposit s')"
    unfolding at(3) by (rule confs_decode_set[OF dec]) (use dec0 in \<open>auto simp: at(2) addConfirmation_def new\<close>)
  ultimately show ?thesis by (simp add: deposit_listed_def)
qed (use inv(2) in simp)

definition late_env :: env where
  "late_env = demo_bridge_env\<lparr>BlockHeight := 10000000\<rparr>"

lemma demo_val_codec: "val_codec_ok demo_bridge_env" "val_codec_ok late_env"
  by (simp_all add: val_codec_ok_def late_env_def demo_bridge_env_def plain_env_def)

lemma demo_minor_ratio: "half_even_quo (LegacyNewDecFromInt 1) (LegacyNewDecFromInt 4) = 250000000000000000"
  by code_simp

lemma demo_deposit_pending:
  "\<exists>s d. AttestDeposit demo_bridge_env fakeBank (demo_deposit ''v2'') (start_bridge demo_params empty_ledger) = Inr s \<and>
     b_Params s = Some demo_params \<and> kv_get (Deposit s) 0 = Some d \<and> d_CreatedAt d = 10 \<and>
     d_Txid d = ''t1'' \<and> d_OpIndex d = 0 \<and> DepositByStatus s = [(0, 0)] \<and>
     kv_get (DepositByTxid s) (''t1'', 0) = Some 0"
  by (simp add: demo_attest_simps demo_minor_ratio kv_get_def)

text \<open>
  The expiry sweep takes down exactly the oldest overdue pending deposits and frees their keys. On
  consistent tables it always succeeds; among the first thousand pending deposits in order of their
  identifier it marks those expired whose timeout has passed, leaving no record, confirmation or vote
  under their keys; every other deposit and the ledger are untouched and the tables stay consistent.
\<close>

theorem expiry_frees_overdue_keys:
  assumes "deposit_inv s" "deposit_listed (ValAddressFromBech32 E) s" "b_Params s = Some p"
  shows "\<exists>s'. ExpireDeposits E s = Inr s' \<and> deposit_inv s' \<and> deposit_listed (ValAddressFromBech32 E) s' \<and>
    bank s' = bank s \<and>
    (\<forall>i d. kv_get (Deposit s) i = Some d \<longrightarrow>
       (if i \<in> set (take MaxExpirySweepPerBlock (bucket (dstat DEPOSIT_STATUS_PENDING) (DepositByStatus s))) \<and>
           d_CreatedAt d + DepositTimeoutBlocks p < BlockHeight E
        then kv_get (Deposit s') i = Some (d\<lparr>d_Status := DEPOSIT_STATUS_EXPIRED\<rparr>) \<and>
             fresh_deposit_key (d_Txid d) (d_OpIndex d) s'
        else kv_get (Deposit s') i = Some d))"
proof -
  obtain s' where s': "ExpireDeposits E s = Inr s'" "deposit_sweep E (set (due_deposits E p s)) s s' {}"
    using ExpireDeposits_sweeps[OF assms] by blast
  then have "\<exists>ev. s' = s\<lparr>Deposit := Deposit s', DepositByTxid := DepositByTxid s', DepositConfirmedBy := DepositConfirmedBy s',
       DepositFactsVote := DepositFactsVote s', DepositByStatus := DepositByStatus s', b_events := ev\<rparr>"
    unfolding deposit_sweep_def by blast
  then obtain D T C F B ev where "s' = s\<lparr>Deposit := D, DepositByTxid := T, DepositConfirmedBy := C,
       DepositFactsVote := F, DepositByStatus := B, b_events := ev\<rparr>" by blast
  then have "bank s' = bank s" by simp
  have due: "i \<in> set (due_deposits E p s) \<longleftrightarrow>
      i \<in> set (take MaxExpirySweepPerBlock (bucket (dstat DEPOSIT_STATUS_PENDING) (DepositByStatus s))) \<and>
        d_CreatedAt d + DepositTimeoutBlocks p < BlockHeight E" if "kv_get (Deposit s) i = Some d" for i d
    using that by (auto simp: due_deposits_def deposit_due_def)
  have inv: "deposit_inv s'" "deposit_listed (ValAddressFromBech32 E) s'"
    and swept: "i \<in> set (due_deposits E p s) \<Longrightarrow> kv_get (Deposit s) i = Some d \<Longrightarrow>
      kv_get (Deposit s') i = Some (d\<lparr>d_Status := DEPOSIT_STATUS_EXPIRED\<rparr>) \<and> fresh_deposit_key (d_Txid d) (d_OpIndex d) s'"
    and kept: "i \<notin> set (due_deposits E p s) \<Longrightarrow> kv_get (Deposit s') i = kv_get (Deposit s) i" for i d
    using s'(2) unfolding deposit_sweep_def expired_deposit_def by blast+
  have "\<forall>i d. kv_get (Deposit s) i = Some d \<longrightarrow>
       (if i \<in> set (take MaxExpirySweepPerBlock (bucket (dstat DEPOSIT_STATUS_PENDING) (DepositByStatus s))) \<and>
           d_CreatedAt d + DepositTimeoutBlocks p < BlockHeight E
        then kv_get (Deposit s') i = Some (d\<lparr>d_Status := DEPOSIT_STATUS_EXPIRED\<rparr>) \<and>
             fresh_deposit_key (d_Txid d) (d_OpIndex d) s'
        else kv_get (Deposit s') i = Some d)"
    unfolding if_bool_eq_conj using due swept kept by metis
  with s'(1) inv \<open>bank s' = bank s\<close> show ?thesis by blast
qed

lemma expiry_frees_overdue_keys_witness:
  "\<exists>s s'. AttestDeposit demo_bridge_env fakeBank (demo_deposit ''v2'') (start_bridge demo_params empty_ledger) = Inr s \<and>
     ExpireDeposits late_env s = Inr s' \<and> \<not> fresh_deposit_key ''t1'' 0 s \<and> fresh_deposit_key ''t1'' 0 s'"
proof -
  obtain s d where s: "AttestDeposit demo_bridge_env fakeBank (demo_deposit ''v2'') (start_bridge demo_params empty_ledger) = Inr s"
     "b_Params s = Some demo_params" "kv_get (Deposit s) 0 = Some d" "d_CreatedAt d = 10"
     "d_Txid d = ''t1''" "d_OpIndex d = 0" "DepositByStatus s = [(0, 0)]" "kv_get (DepositByTxid s) (''t1'', 0) = Some 0"
    using demo_deposit_pending by blast
  have start: "deposit_inv (start_bridge demo_params empty_ledger)"
    "deposit_listed (ValAddressFromBech32 demo_bridge_env) (start_bridge demo_params empty_ledger)"
    by (simp_all add: deposit_inv_def deposit_listed_def confirmed_listed_def confs_decode_def)
  have "deposit_inv s" by (rule AttestDeposit_inv[OF start(1) s(1)]) simp
  moreover have "deposit_listed (ValAddressFromBech32 late_env) s"
    using AttestDeposit_listed[OF start demo_val_codec(1) s(1)] by (simp add: late_env_def)
  ultimately obtain s' where "ExpireDeposits late_env s = Inr s'" "fresh_deposit_key ''t1'' 0 s'"
    using expiry_frees_overdue_keys[of s late_env demo_params] s(2-7)
    by (fastforce simp: bucket_def MaxExpirySweepPerBlock_def demo_params_def bridge_DefaultParams_def late_env_def)
  then show ?thesis using s(1,8) by (auto simp: fresh_deposit_key_def)
qed

end
