(* ===== verification/Bridge_Settle.thy ===== *)
theory Bridge_Settle
  imports Bridge_Sweep
begin

text \<open>
  What the end of a block settles (\<open>x/oracle/bridge/keeper/abci.go\<close>, \<open>feesplit.go\<close>, \<open>blackhole.go\<close>,
  \<open>oracle_report.go\<close>): the refunds of overdue withdrawals, the expiry of name registrations, the split
  of the collected fees, the burn of the black-hole account and the report of the queued attestation
  events to the duty engine. The definitions are those of \<open>Bridge_Sweep\<close>.
\<close>

section \<open>Refunds\<close>

definition refunded :: "env \<Rightarrow> withdrawal \<Rightarrow> withdrawal" where
  "refunded E w = w\<lparr>w_Status := WITHDRAWAL_STATUS_REFUNDED, w_RefundedAt := BlockHeight E\<rparr>"

lemma refundWithdrawal_effect:
  assumes inv: "withdrawal_inv s" and rec: "kv_get (Withdrawal s) i = Some w" "w_Status w = WITHDRAWAL_STATUS_REQUESTED"
    and run: "refundWithdrawal E bk i s = Inr s'"
  shows "withdrawal_inv s'" "Withdrawal s' = kv_set i (refunded E w) (Withdrawal s)"
    and "\<exists>a b t ev. StringToBytes E (w_Sender w) = Some a \<and> Totals s = Some t \<and>
      mintRefund bk a (DenomForAsset (w_Asset w)) (MillisteemToAsteem (w_AmountMillisteem w)) (bank s) = Inr b \<and>
      s' = s\<lparr>bank := b, Totals := Some (add_minted (w_Asset w) (MillisteemToAsteem (w_AmountMillisteem w)) t),
        WithdrawalByStatus := WithdrawalByStatus s', Withdrawal := Withdrawal s', b_events := ev\<rparr>"
proof -
  obtain a b t where e: "StringToBytes E (w_Sender w) = Some a"
    "mintRefund bk a (DenomForAsset (w_Asset w)) (MillisteemToAsteem (w_AmountMillisteem w)) (bank s) = Inr b"
    "Totals s = Some t" and s': "s' = emit (WithdrawalRefunded i (w_Sender w) (MillisteemToAsteem (w_AmountMillisteem w)))
       (s\<lparr>bank := b, Totals := Some (add_minted (w_Asset w) (MillisteemToAsteem (w_AmountMillisteem w)) t),
          WithdrawalByStatus := ks_set (wstat WITHDRAWAL_STATUS_REFUNDED, i)
            (ks_remove (wstat WITHDRAWAL_STATUS_REQUESTED, i) (WithdrawalByStatus s)),
          Withdrawal := kv_set i (refunded E w) (Withdrawal s)\<rparr>)"
    using run rec(1) by (auto simp: refundWithdrawal_def rbind_eq_Inr Let_def refunded_def)
  have rows: "rows_ok w_Id (\<lambda>w. wstat (w_Status w)) (WithdrawalSeq s) (Withdrawal s) (WithdrawalByStatus s)"
    using inv by (simp add: withdrawal_inv_def)
  have "w_Id (refunded E w) = i" using rows_ok_get(1)[OF rows rec(1)] by (simp add: refunded_def)
  from rows_ok_update[OF rows rec(1) this] inv rec(2) show "withdrawal_inv s'"
    by (simp add: withdrawal_inv_def s' refunded_def)
  show "Withdrawal s' = kv_set i (refunded E w) (Withdrawal s)" by (simp add: s')
  show "\<exists>a b t ev. StringToBytes E (w_Sender w) = Some a \<and> Totals s = Some t \<and>
      mintRefund bk a (DenomForAsset (w_Asset w)) (MillisteemToAsteem (w_AmountMillisteem w)) (bank s) = Inr b \<and>
      s' = s\<lparr>bank := b, Totals := Some (add_minted (w_Asset w) (MillisteemToAsteem (w_AmountMillisteem w)) t),
        WithdrawalByStatus := WithdrawalByStatus s', Withdrawal := Withdrawal s', b_events := ev\<rparr>"
    by (intro exI[where x = a] exI[where x = b] exI[where x = t] exI[where x = "b_events s'"])
      (simp add: e s' emit_def)
qed

text \<open>What one refund is worth to an account, per denomination.\<close>

definition refund_of :: "env \<Rightarrow> 'b bridge_state \<Rightarrow> bytes \<Rightarrow> string \<Rightarrow> u64 \<Rightarrow> int" where
  "refund_of E s x d i = (case kv_get (Withdrawal s) i of
      None \<Rightarrow> 0
    | Some w \<Rightarrow> if StringToBytes E (w_Sender w) = Some x \<and> DenomForAsset (w_Asset w) = d
                then MillisteemToAsteem (w_AmountMillisteem w) else 0)"

definition refund_worth :: "'b bridge_state \<Rightarrow> string \<Rightarrow> u64 \<Rightarrow> int" where
  "refund_worth s d i = (case kv_get (Withdrawal s) i of
      None \<Rightarrow> 0
    | Some w \<Rightarrow> if DenomForAsset (w_Asset w) = d then MillisteemToAsteem (w_AmountMillisteem w) else 0)"

context bank_keeper
begin

lemma mintRefund_effect:
  assumes "mintRefund bk a denom net b = Inr b'" "0 \<le> net"
  shows "bal b' x d = bal b x d + (if x = a \<and> d = denom then net else 0)"
    and "supply_of b' d = supply_of b d + (if d = denom then net else 0)"
proof -
  have "bal b' x d = bal b x d + (if x = a \<and> d = denom then net else 0) \<and>
    supply_of b' d = supply_of b d + (if d = denom then net else 0)"
  proof (cases "0 < net")
    case True
    then obtain b1 where b1: "MintCoins bk BlackHoleModuleName (NewCoins1 denom net) b = Inr b1"
      "SendCoinsFromModuleToAccount bk BlackHoleModuleName a (NewCoins1 denom net) b1 = Inr b'"
      using assms(1) by (auto simp: mintRefund_def rbind_eq_Inr)
    from mint[OF b1(1)] mod_acc[OF b1(2)] show ?thesis by (auto simp: moved_def)
  qed (use assms in \<open>auto simp: mintRefund_def\<close>)
  then show "bal b' x d = bal b x d + (if x = a \<and> d = denom then net else 0)"
    and "supply_of b' d = supply_of b d + (if d = denom then net else 0)" by blast+
qed

end

lemma outstanding_add:
  "fst (outstanding A (add_minted B n t)) = fst (outstanding A t) + (if DenomForAsset B = DenomForAsset A then n else 0)"
  "snd (outstanding A (add_minted B n t)) = snd (outstanding A t)"
  "fst (outstanding A (add_burned B n t)) = fst (outstanding A t)"
  "snd (outstanding A (add_burned B n t)) = snd (outstanding A t) + (if DenomForAsset B = DenomForAsset A then n else 0)"
  by (auto simp: outstanding_def add_minted_def add_burned_def DenomForAsset_def DefaultBondDenom_def DenomSBD_def)

text \<open>The withdrawals the sweep of this block refunds.\<close>

definition due_withdrawals :: "env \<Rightarrow> bridge_params \<Rightarrow> 'b bridge_state \<Rightarrow> u64 list" where
  "due_withdrawals E p s = (if WithdrawalTimeoutBlocks p = 0 then []
     else filter (\<lambda>i. withdrawal_due E p (the (kv_get (Withdrawal s) i)))
       (take MaxExpirySweepPerBlock (bucket (wstat WITHDRAWAL_STATUS_REQUESTED) (WithdrawalByStatus s))))"

lemma due_withdrawals_requested:
  assumes "withdrawal_inv s" "i \<in> set (due_withdrawals E p s)"
  shows "\<exists>w. kv_get (Withdrawal s) i = Some w \<and> w_Status w = WITHDRAWAL_STATUS_REQUESTED"
proof -
  have rows: "rows_ok w_Id (\<lambda>w. wstat (w_Status w)) (WithdrawalSeq s) (Withdrawal s) (WithdrawalByStatus s)"
    using assms(1) by (simp add: withdrawal_inv_def)
  have "i \<in> set (bucket (wstat WITHDRAWAL_STATUS_REQUESTED) (WithdrawalByStatus s))"
    using assms(2) unfolding due_withdrawals_def by (auto split: if_splits dest: in_set_takeD simp del: set_bucket)
  then show ?thesis
    using rows_ok_status[OF rows, of "wstat WITHDRAWAL_STATUS_REQUESTED" i] by (simp del: wstat.simps)
qed

lemma RefundExpiredWithdrawals_folds:
  assumes "withdrawal_inv s" "b_Params s = Some p"
  shows "RefundExpiredWithdrawals E bk s = rfold (refundWithdrawal E bk) (due_withdrawals E p s) s"
    and "distinct (due_withdrawals E p s)"
proof -
  have rows: "rows_ok w_Id (\<lambda>w. wstat (w_Status w)) (WithdrawalSeq s) (Withdrawal s) (WithdrawalByStatus s)"
    using assms(1) by (simp add: withdrawal_inv_def)
  let ?b = "bucket (wstat WITHDRAWAL_STATUS_REQUESTED) (WithdrawalByStatus s)"
  have "\<forall>i \<in> set ?b. kv_get (Withdrawal s) i \<noteq> None"
    using rows_ok_status[OF rows, of "wstat WITHDRAWAL_STATUS_REQUESTED"] by (auto simp del: wstat.simps)
  from scan_due_from_zero[OF this, of "withdrawal_due E p"]
  show "RefundExpiredWithdrawals E bk s = rfold (refundWithdrawal E bk) (due_withdrawals E p s) s"
    by (simp add: RefundExpiredWithdrawals_def due_withdrawals_def assms(2) del: wstat.simps)
  show "distinct (due_withdrawals E p s)"
    using distinct_bucket[of "WithdrawalByStatus s" "wstat WITHDRAWAL_STATUS_REQUESTED"] rows
    by (auto simp: due_withdrawals_def rows_ok_def simp del: wstat.simps)
qed

text \<open>How far a sweep that still has the withdrawals in \<open>todo\<close> to refund has come.\<close>

definition refund_sweep ::
    "('b \<Rightarrow> bytes \<Rightarrow> string \<Rightarrow> int) \<Rightarrow> ('b \<Rightarrow> string \<Rightarrow> int) \<Rightarrow> env \<Rightarrow> u64 set \<Rightarrow> 'b bridge_state \<Rightarrow> 'b bridge_state \<Rightarrow>
     u64 set \<Rightarrow> bool" where
  "refund_sweep bal supply_of E ids s0 s todo \<longleftrightarrow> todo \<subseteq> ids \<and> withdrawal_inv s \<and>
     (\<forall>i. i \<notin> ids \<or> i \<in> todo \<longrightarrow> kv_get (Withdrawal s) i = kv_get (Withdrawal s0) i) \<and>
     (\<forall>i w. i \<in> ids - todo \<longrightarrow> kv_get (Withdrawal s0) i = Some w \<longrightarrow> kv_get (Withdrawal s) i = Some (refunded E w)) \<and>
     (\<forall>x d. bal (bank s) x d = bal (bank s0) x d + (\<Sum>i \<in> ids - todo. refund_of E s0 x d i)) \<and>
     (\<forall>d. supply_of (bank s) d = supply_of (bank s0) d + (\<Sum>i \<in> ids - todo. refund_worth s0 d i)) \<and>
     (\<forall>t0 A. Totals s0 = Some t0 \<longrightarrow> (\<exists>t. Totals s = Some t \<and> snd (outstanding A t) = snd (outstanding A t0) \<and>
        fst (outstanding A t) = fst (outstanding A t0) + (\<Sum>i \<in> ids - todo. refund_worth s0 (DenomForAsset A) i)))"

lemma refund_sweep_step:
  assumes bank: "bank_keeper bk maddr pool bal supply_of" and fin: "finite ids"
    and sw: "refund_sweep bal supply_of E ids s0 s todo" and i: "i \<in> todo" and run: "refundWithdrawal E bk i s = Inr s'"
    and req: "\<And>i. i \<in> ids \<Longrightarrow> \<exists>w. kv_get (Withdrawal s0) i = Some w \<and> w_Status w = WITHDRAWAL_STATUS_REQUESTED"
  shows "refund_sweep bal supply_of E ids s0 s' (todo - {i})"
proof -
  have sub: "todo \<subseteq> ids" and inv: "withdrawal_inv s" using sw by (simp_all add: refund_sweep_def)
  obtain w where w0: "kv_get (Withdrawal s0) i = Some w" "w_Status w = WITHDRAWAL_STATUS_REQUESTED"
    using req i sub by blast
  have w: "kv_get (Withdrawal s) i = Some w" using sw i w0 by (simp add: refund_sweep_def)
  let ?n = "MillisteemToAsteem (w_AmountMillisteem w)"
  note e = refundWithdrawal_effect[OF inv w w0(2) run]
  from e(3) obtain a b t B W ev where r: "StringToBytes E (w_Sender w) = Some a" "Totals s = Some t"
      "mintRefund bk a (DenomForAsset (w_Asset w)) ?n (bank s) = Inr b"
      and s': "s' = s\<lparr>bank := b, Totals := Some (add_minted (w_Asset w) ?n t),
        WithdrawalByStatus := B, Withdrawal := W, b_events := ev\<rparr>" by blast
  note be = bank_keeper.mintRefund_effect[OF bank r(3) MillisteemToAsteem_nonneg]
  have split: "ids - (todo - {i}) = insert i (ids - todo)" "i \<notin> ids - todo" using i sub by auto
  have sum: "(\<Sum>k \<in> ids - (todo - {i}). f k) = f i + (\<Sum>k \<in> ids - todo. f k)" for f :: "u64 \<Rightarrow> int"
    using fin split by simp
  have "bal (bank s') x d = bal (bank s0) x d + (\<Sum>i \<in> ids - (todo - {i}). refund_of E s0 x d i)" for x d
    using sw be(1)[of x d] r(1) w0(1) unfolding sum by (simp add: refund_sweep_def s' refund_of_def)
  moreover have "supply_of (bank s') d = supply_of (bank s0) d + (\<Sum>i \<in> ids - (todo - {i}). refund_worth s0 d i)" for d
    using sw be(2)[of d] w0(1) unfolding sum by (simp add: refund_sweep_def s' refund_worth_def)
  moreover have "\<exists>t. Totals s' = Some t \<and> snd (outstanding A t) = snd (outstanding A t0) \<and>
        fst (outstanding A t) = fst (outstanding A t0) + (\<Sum>i \<in> ids - (todo - {i}). refund_worth s0 (DenomForAsset A) i)"
    if "Totals s0 = Some t0" for t0 A
    using sw that r(2) w0(1) unfolding sum by (auto simp: refund_sweep_def s' refund_worth_def outstanding_add)
  moreover have "kv_get (Withdrawal s') k = kv_get (Withdrawal s0) k" if "k \<notin> ids \<or> k \<in> todo - {i}" for k
    using that sw i sub e(2) unfolding refund_sweep_def by auto
  moreover have "kv_get (Withdrawal s') k = Some (refunded E q)"
    if "k \<in> ids - (todo - {i})" "kv_get (Withdrawal s0) k = Some q" for k q
    using that sw w0 e(2) unfolding refund_sweep_def by (cases "k = i") auto
  ultimately show ?thesis using e(1) sub unfolding refund_sweep_def by blast
qed

text \<open>
  A refund gives back exactly the net amount that was taken, once. The sweep refunds the overdue ones
  among the first thousand requested withdrawals (none when the timeout is zero): each was requested and
  is now refunded, no other withdrawal changes; every sender's balance, and the supply, grow by exactly
  the net amounts of the refunded withdrawals of that denomination; and the minted total of each asset
  grows by the same amount while the burned total stays.
\<close>

theorem refunds_return_the_net_amount:
  assumes "bank_keeper bk maddr pool bal supply_of" "withdrawal_inv s" "b_Params s = Some p" "Totals s = Some t"
    and "RefundExpiredWithdrawals E bk s = Inr s'"
  shows "withdrawal_inv s' \<and>
    (\<forall>i \<in> set (due_withdrawals E p s). \<exists>w. kv_get (Withdrawal s) i = Some w \<and> w_Status w = WITHDRAWAL_STATUS_REQUESTED) \<and>
    (\<forall>i w. kv_get (Withdrawal s) i = Some w \<longrightarrow>
       kv_get (Withdrawal s') i = Some (if i \<in> set (due_withdrawals E p s) then refunded E w else w)) \<and>
    (\<forall>x d. bal (bank s') x d = bal (bank s) x d + (\<Sum>i \<in> set (due_withdrawals E p s). refund_of E s x d i)) \<and>
    (\<forall>d. supply_of (bank s') d = supply_of (bank s) d + (\<Sum>i \<in> set (due_withdrawals E p s). refund_worth s d i)) \<and>
    (\<forall>A. \<exists>t'. Totals s' = Some t' \<and> snd (outstanding A t') = snd (outstanding A t) \<and>
       fst (outstanding A t') = fst (outstanding A t) +
         (\<Sum>i \<in> set (due_withdrawals E p s). refund_worth s (DenomForAsset A) i))"
proof -
  let ?ids = "set (due_withdrawals E p s)"
  note req = due_withdrawals_requested[OF assms(2)]
  have run: "rfold (refundWithdrawal E bk) (due_withdrawals E p s) s = Inr s'"
    using RefundExpiredWithdrawals_folds(1)[OF assms(2,3), of E bk] assms(5) by simp
  have "refund_sweep bal supply_of E ?ids s s ?ids" using assms(2) by (simp add: refund_sweep_def)
  then have "refund_sweep bal supply_of E ?ids s s' {}"
    by (rule rfold_distinct_invariant[OF run RefundExpiredWithdrawals_folds(2)[OF assms(2,3)]])
      (rule refund_sweep_step[OF assms(1) finite_set _ _ _ req])
  then show ?thesis using req assms(4) unfolding refund_sweep_def by auto
qed

lemmas demo_out_simps = BridgeOut_def demo_out_def demo_funded_def demo_params_def bridge_DefaultParams_def demo_carol
  ValidateWithdrawalMemo_def ValidateMemo_def MaxMemoBytes_def MaxWithdrawalMemoBytes_def utf8_ValidString_def
  utf8_runes_def check_amount_def MillisteemToAsteemFactor_def MillisteemToAsteem_def Let_def IsUint64_def
  ApplyBridgeFee_def outstanding_def add_minted_def add_burned_def zero_totals_def takeCoins_def send_if_positive_def
  demo_bank_simps demo_ledger_def demo_name_simps

lemma demo_refund_run:
  "\<exists>s s' t w. BridgeOut demo_bridge_env fakeBank demo_out demo_funded = Inr s \<and> b_Params s = Some demo_params \<and>
     Totals s = Some t \<and> RefundExpiredWithdrawals late_env fakeBank s = Inr s' \<and>
     kv_get (Withdrawal s) 0 = Some w \<and> w_Sender w = ''bob'' \<and> w_Asset w = BRIDGE_ASSET_STEEM \<and>
     due_withdrawals late_env demo_params s = [0]"
  by (simp add: demo_out_simps openWithdrawal_def newWithdrawal_def RefundExpiredWithdrawals_def due_withdrawals_def
      bucket_def MaxExpirySweepPerBlock_def withdrawal_due_def late_env_def refundWithdrawal_def mintRefund_def)

lemma refunds_return_the_net_amount_witness:
  "\<exists>s s' w. BridgeOut demo_bridge_env fakeBank demo_out demo_funded = Inr s \<and>
     RefundExpiredWithdrawals late_env fakeBank s = Inr s' \<and> kv_get (Withdrawal s) 0 = Some w \<and>
     l_balance (bank s') ''bob'' ''asteem'' = l_balance (bank s) ''bob'' ''asteem'' + MillisteemToAsteem (w_AmountMillisteem w)"
proof -
  obtain s s' t w where r: "BridgeOut demo_bridge_env fakeBank demo_out demo_funded = Inr s" "b_Params s = Some demo_params"
     "Totals s = Some t" "RefundExpiredWithdrawals late_env fakeBank s = Inr s'"
     "kv_get (Withdrawal s) 0 = Some w" "w_Sender w = ''bob''" "w_Asset w = BRIDGE_ASSET_STEEM"
     "due_withdrawals late_env demo_params s = [0]"
    using demo_refund_run by blast
  have "withdrawal_inv demo_funded"
    by (simp add: withdrawal_inv_def demo_funded_def rows_ok_def payout_votes_ok_def)
  then have inv: "withdrawal_inv s" by (rule BridgeOut_inv[OF _ r(1)]) (simp add: demo_funded_def)
  from refunds_return_the_net_amount[OF fake.bank_keeper_axioms inv r(2,3,4)] r show ?thesis
    by (auto simp: refund_of_def late_env_def demo_name_simps)
qed

section \<open>Fee split and burn\<close>

lemma AmountOf_notin: "d \<notin> set (map fst cs) \<Longrightarrow> AmountOf cs d = 0"
  by (induction cs) (auto simp: AmountOf_def)

lemma coins_IsZero_amount: "coins_IsZero cs \<Longrightarrow> AmountOf cs d = 0"
  by (induction cs) (auto simp: AmountOf_def coins_IsZero_def)

context bank_keeper
begin

lemma splitCoin_effect:
  assumes "splitCoin E bk c b = Inr b'" "NewModuleAddress E = maddr"
  shows "bal b' x d = bal b x d + (if d = fst c then snd c div 4 else 0) *
      ((if x = pool then 1 else 0) + (if x = maddr BlackHoleModuleName then 1 else 0) -
       (if x = maddr FeeCollectorName then 2 else 0)) \<and> supply_of b' = supply_of b"
proof (cases "snd c div 4 = 0")
  case True
  with assms show ?thesis by (simp add: splitCoin_def)
next
  case False
  then obtain b1 where "FundCommunityPool bk (NewCoins1 (fst c) (snd c div 4)) (maddr FeeCollectorName) b = Inr b1"
    "SendCoinsFromModuleToModule bk FeeCollectorName BlackHoleModuleName (NewCoins1 (fst c) (snd c div 4)) b1 = Inr b'"
    using assms by (auto simp: splitCoin_def Let_def rbind_eq_Inr)
  from fund[OF this(1)] mod_mod[OF this(2)] show ?thesis by (simp add: moved_def)
qed

lemma splitCoins_effect:
  assumes "rfold (splitCoin E bk) cs b = Inr b'" "distinct (map fst cs)" "NewModuleAddress E = maddr"
  shows "bal b' x d = bal b x d + (AmountOf cs d div 4) *
      ((if x = pool then 1 else 0) + (if x = maddr BlackHoleModuleName then 1 else 0) -
       (if x = maddr FeeCollectorName then 2 else 0)) \<and> supply_of b' = supply_of b"
  using assms
proof (induction cs arbitrary: b)
  case Nil
  then show ?case by (simp add: AmountOf_def)
next
  case (Cons c cs)
  from Cons.prems(1) obtain b1 where b1: "splitCoin E bk c b = Inr b1" "rfold (splitCoin E bk) cs b1 = Inr b'"
    by (auto simp: rbind_eq_Inr)
  have amt: "AmountOf (c # cs) d = (if d = fst c then snd c else AmountOf cs d)"
    using AmountOf_notin[of "fst c" cs] Cons.prems(2) by (cases c) auto
  show ?case
    using splitCoin_effect[OF b1(1) assms(3), of x d] Cons.IH[OF b1(2)] Cons.prems(2,3) AmountOf_notin[of "fst c" cs]
    unfolding amt by auto
qed

lemma SweepBlackHole_effect:
  assumes "SweepBlackHole E bk b = Inr b'" "NewModuleAddress E = maddr"
  shows "bal b' x d = (if x = maddr BlackHoleModuleName then 0 else bal b x d) \<and>
    supply_of b' d = supply_of b d - bal b (maddr BlackHoleModuleName) d"
proof (cases "coins_IsZero (GetAllBalances bk (maddr BlackHoleModuleName) b)")
  case True
  then have "bal b (maddr BlackHoleModuleName) d = 0"
    using coins_IsZero_amount balances by metis
  with True assms show ?thesis by (auto simp: SweepBlackHole_def)
next
  case False
  with assms have "BurnCoins bk BlackHoleModuleName (GetAllBalances bk (maddr BlackHoleModuleName) b) b = Inr b'"
    by (simp add: SweepBlackHole_def)
  from burn[OF this] show ?thesis by (auto simp: balances)
qed

end

text \<open>
  At the start of a block the collected fees of every denomination are divided: a quarter (rounded
  down) goes to the community pool, a quarter to the account that is burned, the rest stays for the
  validators, and the bridge's reward account is emptied into the fee collector so that it is shared out
  with the fees. No coin is created or lost.
\<close>

theorem fees_are_split:
  assumes "bank_keeper bk maddr pool bal supply_of" "SplitFees E bk b = Inr b'" "NewModuleAddress E = maddr"
    and "distinct [maddr FeeCollectorName, maddr BlackHoleModuleName, maddr BridgeRewardModuleName, pool]"
  shows "let q = bal b (maddr FeeCollectorName) d div 4; r = bal b (maddr BridgeRewardModuleName) d in
    bal b' pool d = bal b pool d + q \<and>
    bal b' (maddr BlackHoleModuleName) d = bal b (maddr BlackHoleModuleName) d + q \<and>
    bal b' (maddr FeeCollectorName) d = bal b (maddr FeeCollectorName) d - 2 * q + r \<and>
    bal b' (maddr BridgeRewardModuleName) d = 0 \<and>
    (\<forall>x. x \<notin> {maddr FeeCollectorName, maddr BlackHoleModuleName, maddr BridgeRewardModuleName, pool} \<longrightarrow>
       bal b' x d = bal b x d) \<and> supply_of b' d = supply_of b d"
proof -
  let ?fees = "GetAllBalances bk (maddr FeeCollectorName) b"
  obtain b1 where b1: "rfold (splitCoin E bk) ?fees b = Inr b1"
    and rest: "(let r = GetAllBalances bk (maddr BridgeRewardModuleName) b1 in
       if \<not> coins_IsZero r then SendCoinsFromModuleToModule bk BridgeRewardModuleName FeeCollectorName r b1 else Inr b1) = Inr b'"
    using assms(2,3) by (auto simp: SplitFees_def rbind_eq_Inr)
  note split = bank_keeper.splitCoins_effect[OF assms(1) b1 bank_keeper.balances_distinct[OF assms(1)] assms(3)]
  have amt: "AmountOf (GetAllBalances bk a c) d = bal c a d" for a c by (rule bank_keeper.balances[OF assms(1)])
  have r: "bal b1 (maddr BridgeRewardModuleName) d = bal b (maddr BridgeRewardModuleName) d"
    using split[of "maddr BridgeRewardModuleName" d] assms(4) by auto
  have "bal b' x d = bal b1 x d - (if x = maddr BridgeRewardModuleName then bal b (maddr BridgeRewardModuleName) d else 0)
      + (if x = maddr FeeCollectorName then bal b (maddr BridgeRewardModuleName) d else 0) \<and> supply_of b' = supply_of b1" for x
  proof (cases "coins_IsZero (GetAllBalances bk (maddr BridgeRewardModuleName) b1)")
    case True
    then have "bal b (maddr BridgeRewardModuleName) d = 0" using coins_IsZero_amount[OF True, of d] by (simp add: amt r)
    with True rest show ?thesis by (simp add: Let_def)
  next
    case False
    with rest have "SendCoinsFromModuleToModule bk BridgeRewardModuleName FeeCollectorName
      (GetAllBalances bk (maddr BridgeRewardModuleName) b1) b1 = Inr b'" by (simp add: Let_def)
    from bank_keeper.mod_mod[OF assms(1) this] show ?thesis by (simp add: moved_def amt r)
  qed
  with split[of _ d] assms(4) show ?thesis by (auto simp: Let_def amt)
qed
lemma fees_are_split_witness:
  "\<exists>b'. SplitFees demo_bridge_env fakeBank \<lparr>l_bal = [((module_key FeeCollectorName, ''asteem''), 10)], l_supply = []\<rparr> = Inr b' \<and>
     l_balance b' pool_key ''asteem'' = 2 \<and> l_balance b' (module_key FeeCollectorName) ''asteem'' = 6"
proof -
  let ?b = "\<lparr>l_bal = [((module_key FeeCollectorName, ''asteem''), 10)], l_supply = []\<rparr>"
  have names: "FeeCollectorName = ''fee_collector''" "BlackHoleModuleName = ''steemblackhole''" "BridgeRewardModuleName = ''bridge_reward''"
    by (simp_all add: FeeCollectorName_def BlackHoleModuleName_def BridgeRewardModuleName_def)
  have m: "NewModuleAddress demo_bridge_env = module_key"
    by (simp add: demo_bridge_env_def plain_env_def module_key_def fun_eq_iff)
  have d: "distinct [module_key FeeCollectorName, module_key BlackHoleModuleName, module_key BridgeRewardModuleName, pool_key]"
    by (simp add: names module_key_def pool_key_def)
  obtain b' where "SplitFees demo_bridge_env fakeBank ?b = Inr b'"
    by (simp add: SplitFees_def splitCoin_def m names demo_bank_simps pool_key_def coins_IsZero_def)
  moreover from fees_are_split[OF fake.bank_keeper_axioms this m d, of "''asteem''"] show ?thesis
    using calculation by (auto simp: Let_def l_balance_def kv_amount_def names module_key_def pool_key_def kv_get_def)
qed

text \<open>
  Everything sent to the black-hole account by the end of a block is destroyed: afterwards the account
  holds nothing of any denomination, the supply has shrunk by exactly what it held, and no other account
  has changed.
\<close>

theorem black_hole_is_burned:
  assumes "bank_keeper bk maddr pool bal supply_of" "SweepBlackHole E bk b = Inr b'" "NewModuleAddress E = maddr"
  shows "(\<forall>x d. bal b' x d = (if x = maddr BlackHoleModuleName then 0 else bal b x d)) \<and>
    (\<forall>d. supply_of b' d = supply_of b d - bal b (maddr BlackHoleModuleName) d)"
  using bank_keeper.SweepBlackHole_effect[OF assms] by blast

lemma black_hole_is_burned_witness:
  "\<exists>b'. SweepBlackHole demo_bridge_env fakeBank
      \<lparr>l_bal = [((module_key BlackHoleModuleName, ''asteem''), 10)], l_supply = [(''asteem'', 30)]\<rparr> = Inr b' \<and>
     l_total b' ''asteem'' = 20"
proof -
  let ?b = "\<lparr>l_bal = [((module_key BlackHoleModuleName, ''asteem''), 10)], l_supply = [(''asteem'', 30)]\<rparr>"
  have m: "NewModuleAddress demo_bridge_env = module_key"
    by (simp add: demo_bridge_env_def plain_env_def module_key_def fun_eq_iff)
  obtain b' where "SweepBlackHole demo_bridge_env fakeBank ?b = Inr b'"
    by (simp add: SweepBlackHole_def m demo_bank_simps coins_IsZero_def)
  moreover from black_hole_is_burned[OF fake.bank_keeper_axioms this m] show ?thesis
    using calculation by (auto simp: l_total_def l_balance_def kv_amount_def kv_get_def)
qed

section \<open>The duty report\<close>

text \<open>
  Seen from the duty engine, the flush of the queue is a sequence of bridge reports, one for each queued
  event, whose participants are the validators listed on the resolved record.
\<close>

definition duty_confs :: "int \<times> u64 \<Rightarrow> 'b bridge_state \<Rightarrow> confirmation list" where
  "duty_confs it s = (if fst it = bridgeDutyKindDeposit then d_ValidatorConfirmations (the (kv_get (Deposit s) (snd it)))
     else w_ValidatorConfirmations (the (kv_get (Withdrawal s) (snd it))))"

definition duty_queue_ok :: "'b bridge_state \<Rightarrow> bool" where
  "duty_queue_ok s \<longleftrightarrow> ks_wf (BridgeDutyQueue s) \<and> (\<forall>k i. ks_has (BridgeDutyQueue s) (k, i) \<longrightarrow>
     k = bridgeDutyKindDeposit \<and> kv_get (Deposit s) i \<noteq> None \<or>
     k = bridgeDutyKindWithdrawal \<and> kv_get (Withdrawal s) i \<noteq> None)"

definition attesters_of :: "env \<Rightarrow> 'b bridge_state \<Rightarrow> int \<times> u64 \<Rightarrow> bytes list" where
  "attesters_of E s it = decodeAttesters E (map c_ValidatorAddress (duty_confs it s))"

definition bridge_reports :: "env \<Rightarrow> 'b bridge_state \<Rightarrow> report list" where
  "bridge_reports E s = map (\<lambda>it. (E, dutyBridge, attesters_of E s it)) (BridgeDutyQueue s)"

lemma set_decodeAttesters: "set (decodeAttesters E ss) = {v. \<exists>s \<in> set ss. ValAddressFromBech32 E s = Some v}"
  by (induction E ss rule: decodeAttesters.induct) (auto split: option.splits)

lemma flushDuty_reports:
  assumes "duty_queue_ok s" "it \<in> set (BridgeDutyQueue s)"
  shows "flushDuty E s it (Some ok) = rbind (RecordBridgeEvent E (attesters_of E s it) ok) (\<lambda>ok'. Inr (Some ok'))"
proof -
  obtain k i where it: "it = (k, i)" by (cases it)
  with assms have "k = bridgeDutyKindDeposit \<and> kv_get (Deposit s) i \<noteq> None \<or>
     k = bridgeDutyKindWithdrawal \<and> kv_get (Withdrawal s) i \<noteq> None"
    by (auto simp: duty_queue_ok_def ks_has_def)
  then show ?thesis
    by (auto simp: it flushDuty_def dutyConfirmations_def reportBridgeEvent_def attesters_of_def duty_confs_def
        bridgeDutyKindDeposit_def bridgeDutyKindWithdrawal_def)
qed

lemma flush_is_record_all:
  assumes "duty_queue_ok s"
  shows "FlushBridgeDuty E (s, Some ok) =
    rbind (record_all (bridge_reports E s) ok) (\<lambda>ok'. Inr (s\<lparr>BridgeDutyQueue := []\<rparr>, Some ok'))"
proof -
  have "rfold (flushDuty E s) its (Some ok) =
      rbind (record_all (map (\<lambda>it. (E, dutyBridge, attesters_of E s it)) its) ok) (\<lambda>ok'. Inr (Some ok'))"
    if "set its \<subseteq> set (BridgeDutyQueue s)" for its ok
    using that
  proof (induction its arbitrary: ok)
    case Nil
    show ?case by (simp add: record_all_def)
  next
    case (Cons it its)
    have f: "flushDuty E s it (Some ok) = rbind (RecordBridgeEvent E (attesters_of E s it) ok) (\<lambda>ok'. Inr (Some ok'))"
      by (rule flushDuty_reports[OF assms]) (use Cons.prems in simp)
    show ?case
      using Cons.IH Cons.prems by (cases "RecordBridgeEvent E (attesters_of E s it) ok") (simp_all add: f record_all_def)
  qed
  from this[of "BridgeDutyQueue s" ok] show ?thesis
    by (cases "record_all (bridge_reports E s) ok") (simp_all add: FlushBridgeDuty_def bridge_reports_def)
qed

text \<open>
  C14: Every resolved bridge event is accounted for exactly once in the duty engine. At the end of the
  block the flush succeeds and empties the queue; each bonded validator has gained one bridge opportunity
  per queued event and one hit per event whose record lists it among its confirmations, and no price
  counter and no counter of a validator that is not bonded has changed.
\<close>

theorem flush_credits_the_attesters:
  assumes "duty_queue_ok s" "kv_wf (Tally ok)" "bonded_operators E = Some ops" "distinct ops"
  shows "\<exists>ok'. FlushBridgeDuty E (s, Some ok) = Inr (s\<lparr>BridgeDutyQueue := []\<rparr>, Some ok') \<and>
    (\<forall>a. getTally ok' a = (if a \<notin> set ops then getTally ok a else (getTally ok a)
       \<lparr>BridgeOpportunities := BridgeOpportunities (getTally ok a) + of_nat (length (BridgeDutyQueue s)),
        BridgeHits := BridgeHits (getTally ok a) + of_nat (length (filter (\<lambda>it.
          \<exists>c \<in> set (duty_confs it s). ValAddressFromBech32 E (c_ValidatorAddress c) = Some a) (BridgeDutyQueue s)))\<rparr>))"
proof -
  have "list_all report_ok (bridge_reports E s)"
    using assms(3,4) by (auto simp: bridge_reports_def list_all_iff report_ok_def)
  from record_all_spec[OF this assms(2)] obtain ok' where ok': "record_all (bridge_reports E s) ok = Inr ok'"
    "\<And>a. getTally ok' a = add_tally (getTally ok a) (bridge_reports E s) a" by blast
  have bonds: "bonds E = (\<lambda>a. a \<in> set ops)" using assms(3) by (auto simp: bonds_def)
  have "opportunities dutyPrice a (bridge_reports E s) = 0" "fulfilled dutyPrice a (bridge_reports E s) = 0"
    "opportunities dutyBridge a (bridge_reports E s) = (if a \<in> set ops then length (BridgeDutyQueue s) else 0)"
    "fulfilled dutyBridge a (bridge_reports E s) = (if a \<in> set ops then length (filter (\<lambda>it.
          \<exists>c \<in> set (duty_confs it s). ValAddressFromBech32 E (c_ValidatorAddress c) = Some a) (BridgeDutyQueue s)) else 0)" for a
    by (auto simp: opportunities_def fulfilled_def bridge_reports_def bonds filter_map o_def attesters_of_def set_decodeAttesters)
  then have "getTally ok' a = (if a \<notin> set ops then getTally ok a else (getTally ok a)
       \<lparr>BridgeOpportunities := BridgeOpportunities (getTally ok a) + of_nat (length (BridgeDutyQueue s)),
        BridgeHits := BridgeHits (getTally ok a) + of_nat (length (filter (\<lambda>it.
          \<exists>c \<in> set (duty_confs it s). ValAddressFromBech32 E (c_ValidatorAddress c) = Some a) (BridgeDutyQueue s)))\<rparr>)" for a
    by (simp add: ok'(2) add_tally_def)
  with flush_is_record_all[OF assms(1), of E ok] ok'(1) show ?thesis by simp
qed
lemma demo_minted_queue:
  "\<exists>s d. AttestDeposit demo_bridge_env fakeBank (demo_deposit ''v1'') (start_bridge demo_params empty_ledger) = Inr s \<and>
     BridgeDutyQueue s = [(0, 0)] \<and> kv_get (Deposit s) 0 = Some d \<and> map c_ValidatorAddress (d_ValidatorConfirmations d) = [''v1'']"
  by (simp add: demo_attest_simps bridgeDutyKindDeposit_def kv_get_def)

lemma flush_credits_the_attesters_witness:
  "\<exists>s ok'. AttestDeposit demo_bridge_env fakeBank (demo_deposit ''v1'') (start_bridge demo_params empty_ledger) = Inr s \<and>
     FlushBridgeDuty demo_bridge_env (s, Some \<lparr>o_Params = None, Tally = [], o_calls = [], o_events = []\<rparr>) =
       Inr (s\<lparr>BridgeDutyQueue := []\<rparr>, Some ok') \<and>
     BridgeHits (getTally ok' ''v1'') = 1 \<and> BridgeHits (getTally ok' ''v2'') = 0 \<and> BridgeOpportunities (getTally ok' ''v2'') = 1"
proof -
  let ?o = "\<lparr>o_Params = None, Tally = [], o_calls = [], o_events = []\<rparr>"
  obtain s d where s: "AttestDeposit demo_bridge_env fakeBank (demo_deposit ''v1'') (start_bridge demo_params empty_ledger) = Inr s"
    "BridgeDutyQueue s = [(0, 0)]" "kv_get (Deposit s) 0 = Some d" "map c_ValidatorAddress (d_ValidatorConfirmations d) = [''v1'']"
    using demo_minted_queue by (elim exE conjE)
  have "set (duty_confs (0, 0) s) = set (d_ValidatorConfirmations d)"
    using s(3) by (simp add: duty_confs_def bridgeDutyKindDeposit_def)
  then have confs: "(\<exists>c \<in> set (duty_confs (0, 0) s). ValAddressFromBech32 demo_bridge_env (c_ValidatorAddress c) = Some a) \<longleftrightarrow> a = ''v1''" for a
    using s(4) by (auto simp: demo_bridge_env_def plain_env_def)
  have "duty_queue_ok s" using s(2,3) by (simp add: duty_queue_ok_def ks_has_def ks_wf_def bridgeDutyKindDeposit_def)
  from flush_credits_the_attesters[OF this, of ?o demo_bridge_env "[''v1'', ''v2'']"] s(1,2) confs show ?thesis
    by (fastforce simp: bonded_operators_def demo_bridge_env_def plain_env_def plain_validator_def getTally_def zero_tally_def)
qed

end
