(* ===== verification/Bridge_NameExpiry.thy ===== *)
theory Bridge_NameExpiry
  imports Bridge_Settle
begin

text \<open>
  The expiry of name registrations (\<open>ExpireNameRegistrations\<close> in \<open>x/oracle/bridge/keeper/abci.go\<close>,
  defined in \<open>Bridge_Sweep\<close>): what the sweep does to the name tables, that it always succeeds, and that
  submissions and confirmations keep what it relies on.
\<close>

section \<open>What the sweep relies on\<close>

text \<open>
  Every recorded confirmation is listed on the live record of its key, every listed validator address
  decodes, and so does the destination of every awaiting registration.
\<close>

definition name_listed :: "(string \<Rightarrow> bytes option) \<Rightarrow> (string \<Rightarrow> bytes option) \<Rightarrow> 'b bridge_state \<Rightarrow> bool" where
  "name_listed codec valdec s \<longleftrightarrow>
     confirmed_listed valdec n_ValidatorConfirmations (NameRegistrationByTxid s) (NameRegistration s)
       (NameRegistrationConfirmedBy s) \<and>
     confs_decode valdec n_ValidatorConfirmations (NameRegistration s) \<and>
     (\<forall>i r. kv_get (NameRegistration s) i = Some r \<longrightarrow> n_Status r = NAME_REGISTRATION_STATUS_AWAITING_CONFIRMATION \<longrightarrow>
        codec (n_DerivedDestination r) \<noteq> None)"

lemma name_listedD:
  assumes "name_listed codec valdec s"
  shows "confirmed_listed valdec n_ValidatorConfirmations (NameRegistrationByTxid s) (NameRegistration s)
       (NameRegistrationConfirmedBy s)"
    and "confs_decode valdec n_ValidatorConfirmations (NameRegistration s)"
    and "kv_get (NameRegistration s) i = Some r \<Longrightarrow> n_Status r = NAME_REGISTRATION_STATUS_AWAITING_CONFIRMATION \<Longrightarrow>
        codec (n_DerivedDestination r) \<noteq> None"
  using assms unfolding name_listed_def by blast+

lemma name_listed_same: "name_listed codec valdec s \<Longrightarrow> same_names s s' \<Longrightarrow> name_listed codec valdec s'"
  by (simp add: name_listed_def same_names_def)

text \<open>
  The ledger view of a submission: the record it writes carries one more confirmation; it stays
  uncredited, or it is now awaiting, has a destination, and its amount was added to the minted total.
\<close>

lemma SubmitNameRegistration_book:
  assumes "SubmitNameRegistration E bk msg s = Inr s'" "s' \<noteq> s"
  obtains a r0 i s1 r where "StringToBytes E (sn_Validator msg) = Some a"
    "openRegistration E msg s = Inr (r0, i, s1)" "n_Status r0 = NAME_REGISTRATION_STATUS_PENDING"
    "NameRegistration s' = kv_set i r (NameRegistration s)" "NameRegistrationByTxid s' = NameRegistrationByTxid s1"
    "NameRegistrationConfirmedBy s' = ks_set (sn_Txid msg, sn_OpIndex msg, a) (NameRegistrationConfirmedBy s)"
    "n_ValidatorConfirmations r = n_ValidatorConfirmations (addNameConfirmation E a r0)"
    "n_Status r \<in> {NAME_REGISTRATION_STATUS_PENDING, NAME_REGISTRATION_STATUS_UNCLAIMABLE} \<and> Totals s' = Totals s \<and>
       n_DerivedDestination r = n_DerivedDestination r0
     \<or> n_Status r = NAME_REGISTRATION_STATUS_AWAITING_CONFIRMATION \<and>
       (\<exists>dest t. BytesToString E dest = Some (n_DerivedDestination r) \<and> Totals s = Some t \<and>
          Totals s' = Some (add_minted BRIDGE_ASSET_STEEM (MillisteemToAsteem (n_AmountMillisteem r)) t))"
  using assms(1)
proof (cases rule: SubmitNameRegistration_Inr)
  case repeated
  with assms(2) show ?thesis by simp
next
  case (recorded p a r0 i s1 ratio)
  note pend = accepted_pending[OF recorded(4,5)]
  show ?thesis
    by (rule that[OF recorded(2,5) pend, where r = "addNameConfirmation E a r0"];
        use recorded(5) pend in \<open>cases rule: openRegistration_cases;
          simp add: recorded(6) addNameConfirmation_def recordNameVote_def\<close>)
next
  case (resolved p a r0 i s1 ratio t r2 s4)
  show ?thesis using resolved(10)
  proof (cases rule: resolveNameRegistration_cases)
    case (unclaimable ty)
    show ?thesis
      by (rule that[OF resolved(2,5,6), where r = r2];
        use resolved(5) in \<open>cases rule: openRegistration_cases;
          simp add: resolved(11) unclaimable(2,3) adoptNameFacts_def addNameConfirmation_def recordNameVote_def moveAccountIndex_def\<close>)
  next
    case (awaiting dest ty str s2 amt b u ev)
    from awaiting(4) obtain w where w: "Totals s1 = Some w"
      "u = Some (add_minted BRIDGE_ASSET_STEEM (MillisteemToAsteem (n_AmountMillisteem (adoptNameFacts msg (addNameConfirmation E a r0)))) w)"
      using awaiting(8) by (auto simp: creditBridged_def Let_def rbind_eq_Inr recordNameVote_def moveAccountIndex_def split: if_splits)
    have "Totals s1 = Totals s" using resolved(5) by (cases rule: openRegistration_cases) simp_all
    with w(1) have "Totals s = Some w" by simp
    with w(2) awaiting(3) have tot: "\<exists>dest t. BytesToString E dest = Some (n_DerivedDestination r2) \<and> Totals s = Some t \<and>
        Totals s' = Some (add_minted BRIDGE_ASSET_STEEM (MillisteemToAsteem (n_AmountMillisteem r2)) t)"
      by (auto simp: resolved(11) awaiting(5,6))
    show ?thesis
      by (rule that[OF resolved(2,5,6), where r = r2];
        use resolved(5) tot in \<open>cases rule: openRegistration_cases;
          simp add: resolved(11) awaiting(5,6) adoptNameFacts_def addNameConfirmation_def recordNameVote_def moveAccountIndex_def\<close>)
  qed
qed

lemma SubmitNameRegistration_listed:
  assumes inv: "name_inv codec s" "name_listed codec (ValAddressFromBech32 E) s"
    and codec: "val_codec_ok E" "account_codec_ok codec E"
    and run: "SubmitNameRegistration E bk msg s = Inr s'"
  shows "name_listed codec (ValAddressFromBech32 E) s'"
proof (cases "s' = s")
  case False
  let ?dec = "ValAddressFromBech32 E"
  note L = name_listedD[OF inv(2)] and tab = name_invD(1)[OF inv(1)]
  obtain a r0 i s1 r where at: "openRegistration E msg s = Inr (r0, i, s1)"
    "NameRegistration s' = kv_set i r (NameRegistration s)" "NameRegistrationByTxid s' = NameRegistrationByTxid s1"
    "NameRegistrationConfirmedBy s' = ks_set (sn_Txid msg, sn_OpIndex msg, a) (NameRegistrationConfirmedBy s)"
    "n_ValidatorConfirmations r = n_ValidatorConfirmations (addNameConfirmation E a r0)"
    and st: "n_Status r \<in> {NAME_REGISTRATION_STATUS_PENDING, NAME_REGISTRATION_STATUS_UNCLAIMABLE} \<and> Totals s' = Totals s \<and>
       n_DerivedDestination r = n_DerivedDestination r0
     \<or> n_Status r = NAME_REGISTRATION_STATUS_AWAITING_CONFIRMATION \<and>
       (\<exists>dest t. BytesToString E dest = Some (n_DerivedDestination r) \<and> Totals s = Some t \<and>
          Totals s' = Some (add_minted BRIDGE_ASSET_STEEM (MillisteemToAsteem (n_AmountMillisteem r)) t))"
    by (rule SubmitNameRegistration_book[OF run False])
  have aw: "\<exists>dest. BytesToString E dest = Some (n_DerivedDestination r)"
    if "n_Status r = NAME_REGISTRATION_STATUS_AWAITING_CONFIRMATION" using st that by auto
  have new: "?dec (ValAddressString E a) = Some a" using codec(1) by (simp add: val_codec_ok_def)
  from at(1) have old: "set (n_ValidatorConfirmations q) \<subseteq> set (n_ValidatorConfirmations r)"
    if "kv_get (NameRegistration s) i = Some q" for q
    using that table_ok_get(2)[OF tab that] by (cases rule: openRegistration_cases) (auto simp: at(5) addNameConfirmation_def)
  from at(1) have dec0: "\<forall>c \<in> set (n_ValidatorConfirmations r0). ?dec (c_ValidatorAddress c) \<noteq> None"
    using L(2) by (auto simp: openRegistration_def newRegistration_def Let_def rbind_eq_Inr confs_decode_def split: option.splits)
  from at(1) have key: "kv_get (NameRegistrationByTxid s') (sn_Txid msg, sn_OpIndex msg) = Some i"
      "kv_get (NameRegistrationByTxid s) (sn_Txid msg, sn_OpIndex msg) = None \<or>
       kv_get (NameRegistrationByTxid s) (sn_Txid msg, sn_OpIndex msg) = Some i"
      "\<And>k. k \<noteq> (sn_Txid msg, sn_OpIndex msg) \<Longrightarrow> kv_get (NameRegistrationByTxid s') k = kv_get (NameRegistrationByTxid s) k"
    by (cases rule: openRegistration_cases; simp add: at(3))+
  have "confirmed_listed ?dec n_ValidatorConfirmations (NameRegistrationByTxid s') (NameRegistration s') (NameRegistrationConfirmedBy s')"
    unfolding at(2,4) using L(1) key old
    by (rule confirmed_listed_record[where c = "\<lparr>c_ValidatorAddress = ValAddressString E a, c_Timestamp = BlockTime E\<rparr>"])
      (simp_all add: at(5) addNameConfirmation_def new)
  moreover have "confs_decode ?dec n_ValidatorConfirmations (NameRegistration s')"
    unfolding at(2) by (rule confs_decode_set[OF L(2)]) (use dec0 in \<open>auto simp: at(5) addNameConfirmation_def new\<close>)
  moreover have "codec (n_DerivedDestination q) \<noteq> None"
    if "kv_get (NameRegistration s') j = Some q" "n_Status q = NAME_REGISTRATION_STATUS_AWAITING_CONFIRMATION" for j q
    using that L(3)[of j q] aw codec(2) by (auto simp: at(2) account_codec_ok_def split: if_splits)
  ultimately show ?thesis by (simp add: name_listed_def)
qed (use inv(2) in simp)

text \<open>
  A confirmation rewrites two records at most, the confirmed one and the one whose link it replaces, and
  keeps everything of them but the status and the confirmation stamp.
\<close>

definition kept :: "name_registration \<Rightarrow> name_registration \<Rightarrow> bool" where
  "kept r r' \<longleftrightarrow> n_Id r' = n_Id r \<and> n_Txid r' = n_Txid r \<and> n_OpIndex r' = n_OpIndex r \<and>
     n_AmountMillisteem r' = n_AmountMillisteem r \<and> n_DerivedDestination r' = n_DerivedDestination r \<and>
     n_ValidatorConfirmations r' = n_ValidatorConfirmations r"

lemma ConfirmName_records:
  assumes inv: "name_inv codec s" and run: "ConfirmName E msg s = Inr s'" and codec: "StringToBytes E = codec"
  obtains (link) i r r' where "NameRegistration s' = kv_set i r' (NameRegistration s)" "kv_get (NameRegistration s) i = Some r"
      "kept r r'" "n_Status r = NAME_REGISTRATION_STATUS_AWAITING_CONFIRMATION" "n_Status r' = NAME_REGISTRATION_STATUS_ACTIVE"
      "NameRegistrationByTxid s' = NameRegistrationByTxid s" "NameRegistrationConfirmedBy s' = NameRegistrationConfirmedBy s"
  | (replace) i r r' j q q' where "NameRegistration s' = kv_set i r' (kv_set j q' (NameRegistration s))"
      "kv_get (NameRegistration s) i = Some r" "kept r r'" "kv_get (NameRegistration s) j = Some q" "kept q q'" "i \<noteq> j"
      "n_Status r = NAME_REGISTRATION_STATUS_AWAITING_CONFIRMATION" "n_Status r' = NAME_REGISTRATION_STATUS_ACTIVE"
      "n_Status q = NAME_REGISTRATION_STATUS_ACTIVE" "n_Status q' = NAME_REGISTRATION_STATUS_SUPERSEDED"
      "NameRegistrationByTxid s' = NameRegistrationByTxid s" "NameRegistrationConfirmedBy s' = NameRegistrationConfirmedBy s"
proof -
  note D = name_invD[OF inv]
  obtain r a s1 where c: "kv_get (NameRegistration s) (cn_RegistrationId msg) = Some r"
    "n_Status r = NAME_REGISTRATION_STATUS_AWAITING_CONFIRMATION"
    "supersedeActive E r s = Inr s1" "s' = installLink E r a s1"
    using ConfirmName_Inr[OF run] codec by metis
  have get: "kv_get (NameRegistration s) (n_Id r) = Some r" using c(1) table_ok_get(1)[OF D(1) c(1)] by simp
  have k: "kept r (linkedRegistration E r)" by (simp add: kept_def linkedRegistration_def)
  from inv c(3) codec show ?thesis
  proof (cases rule: supersedeActive_cases)
    case free
    show ?thesis
      by (rule link[OF _ get k c(2)]) (simp_all add: c(4) installLink_fields free(2))
  next
    case (taken e b q ev)
    have ne: "n_Id r \<noteq> nr_RegistrationId e" using get taken(3,4) c(2) by auto
    show ?thesis
      by (rule replace[OF _ get k taken(3) _ ne c(2), where q' = "q\<lparr>n_Status := NAME_REGISTRATION_STATUS_SUPERSEDED\<rparr>"])
        (simp_all add: c(4) installLink_fields taken(4,6) kept_def)
  qed
qed

lemma ConfirmName_listed:
  assumes inv: "name_inv codec s" "name_listed codec valdec s" and run: "ConfirmName E msg s = Inr s'" "StringToBytes E = codec"
  shows "name_listed codec valdec s'"
proof -
  note L = name_listedD[OF inv(2)]
  have one: "confirmed_listed valdec n_ValidatorConfirmations byKey (kv_set i r' recs) confirmed \<and>
      confs_decode valdec n_ValidatorConfirmations (kv_set i r' recs)"
    if "confirmed_listed valdec n_ValidatorConfirmations byKey recs confirmed" "confs_decode valdec n_ValidatorConfirmations recs"
      "kv_get recs i = Some r" "kept r r'" for byKey recs confirmed i r r'
    using confirmed_listed_same[OF that(1), of i r'] confs_decode_set[OF that(2), of r' i] that(2-4)
    by (auto simp: kept_def confs_decode_def)
  from inv(1) run show ?thesis
  proof (cases rule: ConfirmName_records)
    case (link i r r')
    from one[OF L(1,2) link(2,3)] L(3) link show ?thesis by (auto simp: name_listed_def split: if_splits)
  next
    case (replace i r r' j q q')
    have g: "kv_get (kv_set j q' (NameRegistration s)) i = Some r" using replace(2,6) by simp
    from one[OF L(1,2) replace(4,5)] one[OF _ _ g replace(3)] L(3) replace show ?thesis
      by (auto simp: name_listed_def split: if_splits)
  qed
qed

section \<open>One expiry\<close>

definition expired_registration :: "name_registration \<Rightarrow> name_registration" where
  "expired_registration r = r\<lparr>n_Status := NAME_REGISTRATION_STATUS_EXPIRED\<rparr>"

definition fresh_name_key :: "string \<Rightarrow> u32 \<Rightarrow> 'b bridge_state \<Rightarrow> bool" where
  "fresh_name_key t j s \<longleftrightarrow> kv_get (NameRegistrationByTxid s) (t, j) = None \<and>
     (\<forall>v. \<not> ks_has (NameRegistrationConfirmedBy s) (t, j, v)) \<and>
     (\<forall>h v. \<not> ks_has (NameRegistrationFactsVote s) (dedupKeyString t j, h, v))"

text \<open>The registrations a sweep may take down.\<close>

definition open_registration :: "name_registration \<Rightarrow> bool" where
  "open_registration r \<longleftrightarrow>
     n_Status r \<in> {NAME_REGISTRATION_STATUS_PENDING, NAME_REGISTRATION_STATUS_AWAITING_CONFIRMATION}"

lemma dropAwaiting_keeps:
  assumes "awaiting_ok codec recs aw" "kv_get recs i = Some r" "StringToBytes E = codec" "dropAwaiting E r i aw = Inr aw'"
  shows "awaiting_ok codec (kv_set i (expired_registration r) recs) aw'"
proof (cases "n_Status r = NAME_REGISTRATION_STATUS_AWAITING_CONFIRMATION")
  case True
  with assms(3,4) obtain a where "codec (n_DerivedDestination r) = Some a" "aw' = ks_remove (a, i) aw"
    by (auto simp: dropAwaiting_def rbind_eq_Inr)
  with awaiting_leave[OF assms(1,2), of a "expired_registration r"] show ?thesis by (simp add: expired_registration_def)
next
  case False
  with assms(4) have "aw' = aw" by (simp add: dropAwaiting_def)
  with awaiting_quiet[OF assms(1), of i "expired_registration r"] assms(2) False show ?thesis
    by (simp add: expired_registration_def)
qed

lemma expireRegistration_unfold:
  assumes "kv_get (NameRegistration s) i = Some r" "expireRegistration E i s = Inr s'"
  obtains confirmed aw ev where
    "dropConfirmations E (n_Txid r) (n_OpIndex r) (n_ValidatorConfirmations r) (NameRegistrationConfirmedBy s) = Inr confirmed"
    "dropAwaiting E r i (NameRegistrationAwaitingByDest s) = Inr aw"
    "s' = s\<lparr>NameRegistrationByTxid := kv_remove (n_Txid r, n_OpIndex r) (NameRegistrationByTxid s),
         NameRegistrationConfirmedBy := confirmed,
         NameRegistrationFactsVote := clearFactsVotes (dedupKeyString (n_Txid r) (n_OpIndex r)) (NameRegistrationFactsVote s),
         NameRegistrationAwaitingByDest := aw,
         NameRegistrationByStatus := ks_set (nstat NAME_REGISTRATION_STATUS_EXPIRED, n_Id r)
           (ks_remove (nstat (n_Status r), n_Id r) (NameRegistrationByStatus s)),
         NameRegistration := kv_set i (expired_registration r) (NameRegistration s), b_events := ev\<rparr>"
proof -
  obtain confirmed aw where c:
    "dropConfirmations E (n_Txid r) (n_OpIndex r) (n_ValidatorConfirmations r) (NameRegistrationConfirmedBy s) = Inr confirmed"
    "dropAwaiting E r i (NameRegistrationAwaitingByDest s) = Inr aw"
    using assms by (auto simp: expireRegistration_def rbind_eq_Inr)
  with assms show ?thesis
    by (intro that[OF c, where ev = "b_events s @ [NameRegistrationExpired i (n_SteemAccount r) (n_Txid r) (n_OpIndex r)]"])
      (simp add: expireRegistration_def Let_def clearNameFactsVotes_def setNameRegistrationStatus_def
        expired_registration_def emit_def)
qed

lemma expireRegistration_effect:
  assumes inv: "name_inv codec s" "name_listed codec (ValAddressFromBech32 E) s" "StringToBytes E = codec"
    and rec: "kv_get (NameRegistration s) i = Some r" "open_registration r"
    and run: "expireRegistration E i s = Inr s'"
  shows "name_inv codec s'" "name_listed codec (ValAddressFromBech32 E) s'"
    and "NameRegistration s' = kv_set i (expired_registration r) (NameRegistration s)"
    and "fresh_name_key (n_Txid r) (n_OpIndex r) s'"
    and "fresh_name_key t j s \<Longrightarrow> fresh_name_key t j s'"
    and "same_deposits s s'" "same_withdrawals s s'" "bank s' = bank s" "Totals s' = Totals s" "b_Params s' = b_Params s"
      "BridgeDutyQueue s' = BridgeDutyQueue s" "NameRegistrationSeq s' = NameRegistrationSeq s"
      "ActiveName s' = ActiveName s" "ActiveNameByAddress s' = ActiveNameByAddress s"
proof -
  let ?r = "expired_registration r" and ?dec = "ValAddressFromBech32 E"
  note D = name_invD[OF inv(1)] and L = name_listedD[OF inv(2)]
  obtain confirmed aw ev where c: "dropConfirmations E (n_Txid r) (n_OpIndex r) (n_ValidatorConfirmations r)
      (NameRegistrationConfirmedBy s) = Inr confirmed" "dropAwaiting E r i (NameRegistrationAwaitingByDest s) = Inr aw"
    and s': "s' = s\<lparr>NameRegistrationByTxid := kv_remove (n_Txid r, n_OpIndex r) (NameRegistrationByTxid s),
         NameRegistrationConfirmedBy := confirmed,
         NameRegistrationFactsVote := clearFactsVotes (dedupKeyString (n_Txid r) (n_OpIndex r)) (NameRegistrationFactsVote s),
         NameRegistrationAwaitingByDest := aw,
         NameRegistrationByStatus := ks_set (nstat NAME_REGISTRATION_STATUS_EXPIRED, n_Id r)
           (ks_remove (nstat (n_Status r), n_Id r) (NameRegistrationByStatus s)),
         NameRegistration := kv_set i ?r (NameRegistration s), b_events := ev\<rparr>"
    by (rule expireRegistration_unfold[OF rec(1) run])
  have r': "n_Id ?r = n_Id r" "n_Txid ?r = n_Txid r" "n_OpIndex ?r = n_OpIndex r" "n_SteemAccount ?r = n_SteemAccount r"
    "n_ValidatorConfirmations ?r = n_ValidatorConfirmations r" "n_Status ?r = NAME_REGISTRATION_STATUS_EXPIRED"
    by (simp_all add: expired_registration_def)
  have live: "n_Status r \<noteq> NAME_REGISTRATION_STATUS_EXPIRED" "n_Status r \<noteq> NAME_REGISTRATION_STATUS_ACTIVE"
    using rec(2) by (auto simp: open_registration_def)
  have id: "n_Id r = i" by (rule table_ok_get(1)[OF D(1) rec(1)])
  have key: "kv_get (NameRegistrationByTxid s) (n_Txid r, n_OpIndex r) = Some i"
    using table_ok_get(3)[OF D(1) rec(1)] live(1) by simp
  note cleared = drop_listed_clears[OF L(1) key rec(1) c(1)]
  have "votes_ok confirmed (clearFactsVotes (dedupKeyString (n_Txid r) (n_OpIndex r)) (NameRegistrationFactsVote s))"
    by (rule votes_ok_clear[OF D(2)]) (use cleared in auto)
  moreover have "links_ok codec (kv_set i ?r (NameRegistration s)) (ActiveName s) (ActiveNameByAddress s)"
    by (rule links_quiet[OF D(5)]) (use rec(1) live r'(6) in auto)
  ultimately show "name_inv codec s'"
    using table_ok_expire[OF D(1) rec(1), of ?r] account_index_touch[OF D(3) rec(1), of ?r] r' id live(1)
      dropAwaiting_keeps[OF D(4) rec(1) inv(3) c(2)]
    by (simp add: name_inv_def s')
  have "confirmed_listed ?dec n_ValidatorConfirmations (NameRegistrationByTxid s') (NameRegistration s') (NameRegistrationConfirmedBy s')"
    unfolding confirmed_listed_def
  proof (intro allI impI)
    fix t j v assume "ks_has (NameRegistrationConfirmedBy s') (t, j, v)"
    then have k: "(t, j) \<noteq> (n_Txid r, n_OpIndex r)" "ks_has (NameRegistrationConfirmedBy s) (t, j, v)"
      using cleared by (auto simp: s')
    then obtain i' q c where q: "kv_get (NameRegistrationByTxid s) (t, j) = Some i'" "kv_get (NameRegistration s) i' = Some q"
        "c \<in> set (n_ValidatorConfirmations q)" "?dec (c_ValidatorAddress c) = Some v"
      using L(1) unfolding confirmed_listed_def by blast
    have "i' \<noteq> i" using table_ok_key(1)[OF D(1) q(1)] rec(1) k(1) by auto
    with q k(1) show "\<exists>i r c. kv_get (NameRegistrationByTxid s') (t, j) = Some i \<and> kv_get (NameRegistration s') i = Some r \<and>
        c \<in> set (n_ValidatorConfirmations r) \<and> ?dec (c_ValidatorAddress c) = Some v"
      by (auto simp: s')
  qed
  moreover have "confs_decode ?dec n_ValidatorConfirmations (NameRegistration s')"
    using confs_decode_set[OF L(2), of ?r i] L(2) rec(1) by (simp add: s' confs_decode_def r')
  ultimately show "name_listed codec ?dec s'" using L(3) r'(6) by (simp add: name_listed_def s')
  show "fresh_name_key (n_Txid r) (n_OpIndex r) s'" using cleared by (simp add: s' fresh_name_key_def)
  show "fresh_name_key t j s \<Longrightarrow> fresh_name_key t j s'" using cleared by (auto simp: s' fresh_name_key_def)
qed (rule expireRegistration_unfold[OF rec(1) run], simp add: same_defs)+

lemma expireRegistration_total:
  assumes "name_listed codec (ValAddressFromBech32 E) s" "StringToBytes E = codec" "kv_get (NameRegistration s) i = Some r"
  shows "\<exists>s'. expireRegistration E i s = Inr s'"
proof -
  note L = name_listedD[OF assms(1)]
  have "\<forall>c \<in> set (n_ValidatorConfirmations r). ValAddressFromBech32 E (c_ValidatorAddress c) \<noteq> None"
    using L(2) assms(3) by (simp add: confs_decode_def)
  from dropConfirmations_total[OF this, of "n_Txid r" "n_OpIndex r" "NameRegistrationConfirmedBy s"] L(3)[OF assms(3)] assms(2,3)
  show ?thesis by (auto simp: expireRegistration_def Let_def setNameRegistrationStatus_def dropAwaiting_def)
qed

section \<open>The sweep\<close>

text \<open>The pending registrations come first, then the awaiting ones, a thousand of both together.\<close>

definition due_registrations :: "env \<Rightarrow> bridge_params \<Rightarrow> 'b bridge_state \<Rightarrow> u64 list" where
  "due_registrations E p s = filter (\<lambda>i. registration_due E p (the (kv_get (NameRegistration s) i)))
     (take MaxExpirySweepPerBlock
       (bucket (nstat NAME_REGISTRATION_STATUS_PENDING) (NameRegistrationByStatus s) @
        bucket (nstat NAME_REGISTRATION_STATUS_AWAITING_CONFIRMATION) (NameRegistrationByStatus s)))"

lemma registration_bucket:
  assumes "name_inv codec s"
  shows "i \<in> set (bucket (nstat st) (NameRegistrationByStatus s)) \<longleftrightarrow>
    (\<exists>r. kv_get (NameRegistration s) i = Some r \<and> n_Status r = st)"
proof -
  have "nstat a = nstat b \<longleftrightarrow> a = b" for a b by (cases a; cases b) simp_all
  with table_ok_status[OF name_invD(1)[OF assms], of "nstat st" i] show ?thesis by auto
qed

lemma due_registrations_open:
  assumes "name_inv codec s" "i \<in> set (due_registrations E p s)"
  shows "\<exists>r. kv_get (NameRegistration s) i = Some r \<and> open_registration r \<and> registration_due E p r"
proof -
  have "i \<in> set (bucket (nstat NAME_REGISTRATION_STATUS_PENDING) (NameRegistrationByStatus s) @
        bucket (nstat NAME_REGISTRATION_STATUS_AWAITING_CONFIRMATION) (NameRegistrationByStatus s))"
    and due: "registration_due E p (the (kv_get (NameRegistration s) i))"
    using assms(2) unfolding due_registrations_def by (auto dest: in_set_takeD simp del: set_bucket nstat.simps)
  then show ?thesis
    using registration_bucket[OF assms(1), of i] by (auto simp: open_registration_def simp del: set_bucket nstat.simps)
qed

lemma distinct_due_registrations:
  assumes "name_inv codec s"
  shows "distinct (due_registrations E p s)"
proof -
  have "ks_wf (NameRegistrationByStatus s)" by (rule table_ok_wf(2)[OF name_invD(1)[OF assms]])
  from distinct_bucket[OF this] registration_bucket[OF assms] show ?thesis
    unfolding due_registrations_def
    by (intro distinct_filter distinct_take) (auto simp del: set_bucket nstat.simps)
qed

lemma ExpireNameRegistrations_folds:
  assumes inv: "name_inv codec s" and p: "b_Params s = Some p"
  shows "ExpireNameRegistrations E s = rfold (expireRegistration E) (due_registrations E p s) s"
proof -
  let ?P = "bucket (nstat NAME_REGISTRATION_STATUS_PENDING) (NameRegistrationByStatus s)"
  let ?A = "bucket (nstat NAME_REGISTRATION_STATUS_AWAITING_CONFIRMATION) (NameRegistrationByStatus s)"
  have get: "\<forall>i \<in> set ?P. kv_get (NameRegistration s) i \<noteq> None" "\<forall>i \<in> set ?A. kv_get (NameRegistration s) i \<noteq> None"
    using registration_bucket[OF inv] by (auto simp del: set_bucket nstat.simps)
  note scan = scan_due_from_zero[OF get(1), of "registration_due E p"]
  show ?thesis
  proof (cases "MaxExpirySweepPerBlock \<le> length ?P")
    case True
    then show ?thesis
      by (simp add: ExpireNameRegistrations_def due_registrations_def p scan del: nstat.simps)
  next
    case False
    with scan_due_exact[OF get(2), of "registration_due E p" "length ?P"] show ?thesis
      by (simp add: ExpireNameRegistrations_def due_registrations_def p scan Let_def del: nstat.simps)
  qed
qed

definition name_sweep ::
    "(string \<Rightarrow> bytes option) \<Rightarrow> env \<Rightarrow> u64 set \<Rightarrow> 'b bridge_state \<Rightarrow> 'b bridge_state \<Rightarrow> u64 set \<Rightarrow> bool" where
  "name_sweep codec E ids s0 s todo \<longleftrightarrow> todo \<subseteq> ids \<and>
     name_inv codec s \<and> name_listed codec (ValAddressFromBech32 E) s \<and>
     (\<forall>i. i \<notin> ids \<or> i \<in> todo \<longrightarrow> kv_get (NameRegistration s) i = kv_get (NameRegistration s0) i) \<and>
     (\<forall>i r. i \<in> ids - todo \<longrightarrow> kv_get (NameRegistration s0) i = Some r \<longrightarrow>
        kv_get (NameRegistration s) i = Some (expired_registration r) \<and> fresh_name_key (n_Txid r) (n_OpIndex r) s) \<and>
     same_deposits s0 s \<and> same_withdrawals s0 s \<and> bank s = bank s0 \<and> Totals s = Totals s0 \<and>
     ActiveName s = ActiveName s0 \<and> ActiveNameByAddress s = ActiveNameByAddress s0"

lemma name_sweep_step:
  assumes sw: "name_sweep codec E ids s0 s todo" and i: "i \<in> todo" and codec: "StringToBytes E = codec"
    and op: "\<And>i. i \<in> ids \<Longrightarrow> \<exists>r. kv_get (NameRegistration s0) i = Some r \<and> open_registration r"
  shows "\<exists>t. expireRegistration E i s = Inr t \<and> name_sweep codec E ids s0 t (todo - {i})"
proof -
  have inv: "name_inv codec s" "name_listed codec (ValAddressFromBech32 E) s" and sub: "todo \<subseteq> ids"
    using sw by (simp_all add: name_sweep_def)
  obtain r where r0: "kv_get (NameRegistration s0) i = Some r" "open_registration r" using op i sub by blast
  have r: "kv_get (NameRegistration s) i = Some r" using sw i r0 by (simp add: name_sweep_def)
  obtain t where t: "expireRegistration E i s = Inr t" using expireRegistration_total[OF inv(2) codec r] by blast
  note e = expireRegistration_effect[OF inv codec r r0(2) t]
  have "kv_get (NameRegistration t) j = Some (expired_registration q) \<and> fresh_name_key (n_Txid q) (n_OpIndex q) t"
    if "j \<in> ids - (todo - {i})" "kv_get (NameRegistration s0) j = Some q" for j q
    using that sw r0 e(3,4,5) unfolding name_sweep_def by (cases "j = i") auto
  moreover have "kv_get (NameRegistration t) j = kv_get (NameRegistration s0) j" if "j \<notin> ids \<or> j \<in> todo - {i}" for j
    using that sw i sub e(3) unfolding name_sweep_def by auto
  moreover have "same_deposits s0 t" "same_withdrawals s0 t"
    using same_trans(1)[OF _ e(6)] same_trans(2)[OF _ e(7)] sw by (simp_all add: name_sweep_def)
  moreover have "bank t = bank s0" "Totals t = Totals s0" "ActiveName t = ActiveName s0"
      "ActiveNameByAddress t = ActiveNameByAddress s0"
    using e(8,9,13,14) sw by (simp_all add: name_sweep_def)
  moreover have "todo - {i} \<subseteq> ids" using sub by blast
  ultimately show ?thesis
    unfolding name_sweep_def using t e(1,2) by (intro exI[where x = t] conjI allI impI) simp_all
qed

lemma ExpireNameRegistrations_sweeps:
  assumes inv: "name_inv codec s" "name_listed codec (ValAddressFromBech32 E) s"
    and p: "b_Params s = Some p" and codec: "StringToBytes E = codec"
  shows "\<exists>s'. ExpireNameRegistrations E s = Inr s' \<and> name_sweep codec E (set (due_registrations E p s)) s s' {}"
proof -
  let ?ids = "set (due_registrations E p s)"
  have op: "\<And>i. i \<in> ?ids \<Longrightarrow> \<exists>r. kv_get (NameRegistration s) i = Some r \<and> open_registration r"
    using due_registrations_open[OF inv(1)] by blast
  have "name_sweep codec E ?ids s s ?ids" using inv by (simp add: name_sweep_def)
  from rfold_distinct_total[where P = "name_sweep codec E ?ids s" and f = "expireRegistration E",
      OF distinct_due_registrations[OF inv(1)] this]
  show ?thesis unfolding ExpireNameRegistrations_folds[OF inv(1) p] using name_sweep_step[OF _ _ codec op] by blast
qed

section \<open>Properties\<close>

text \<open>
  The name sweep always succeeds on consistent tables and takes down exactly the overdue open
  registrations. Among the first thousand pending and awaiting registrations, those whose phase has
  outlived the timeout become expired and their keys are free again; every other registration, every
  active link and every balance is untouched, and the tables stay consistent.
\<close>

theorem name_expiry_spares_active_links:
  assumes "name_inv codec s" "name_listed codec (ValAddressFromBech32 E) s" "StringToBytes E = codec" "b_Params s = Some p"
  shows "\<exists>s'. ExpireNameRegistrations E s = Inr s' \<and> name_inv codec s' \<and> name_listed codec (ValAddressFromBech32 E) s' \<and>
    bank s' = bank s \<and> Totals s' = Totals s \<and> ActiveName s' = ActiveName s \<and> ActiveNameByAddress s' = ActiveNameByAddress s \<and>
    (\<forall>i r. kv_get (NameRegistration s) i = Some r \<longrightarrow>
       (if i \<in> set (due_registrations E p s)
        then open_registration r \<and> registration_due E p r \<and>
             kv_get (NameRegistration s') i = Some (r\<lparr>n_Status := NAME_REGISTRATION_STATUS_EXPIRED\<rparr>) \<and>
             fresh_name_key (n_Txid r) (n_OpIndex r) s'
        else kv_get (NameRegistration s') i = Some r))"
proof -
  obtain s' where s': "ExpireNameRegistrations E s = Inr s'" "name_sweep codec E (set (due_registrations E p s)) s s' {}"
    using ExpireNameRegistrations_sweeps[OF assms(1,2,4,3)] by blast
  have "open_registration r \<and> registration_due E p r"
    if "kv_get (NameRegistration s) i = Some r" "i \<in> set (due_registrations E p s)" for i r
    using due_registrations_open[OF assms(1) that(2)] that(1) by auto
  then have rec: "\<forall>i r. kv_get (NameRegistration s) i = Some r \<longrightarrow>
       (if i \<in> set (due_registrations E p s)
        then open_registration r \<and> registration_due E p r \<and>
             kv_get (NameRegistration s') i = Some (r\<lparr>n_Status := NAME_REGISTRATION_STATUS_EXPIRED\<rparr>) \<and>
             fresh_name_key (n_Txid r) (n_OpIndex r) s'
        else kv_get (NameRegistration s') i = Some r)"
    using s'(2) by (simp add: name_sweep_def expired_registration_def)
  show ?thesis
    by (rule exI[where x = s'], intro conjI rec s'(1); use s'(2) in \<open>simp add: name_sweep_def\<close>)
qed

lemmas demo_submit_simps = SubmitNameRegistration_def demo_name_def demo_params_def bridge_DefaultParams_def is_bonded_def
  plain_validator_def ValidateNameRegistrationAcceptance_def CheckSteemBlock_def lookupNameRegistrationByTxid_def
  openRegistration_def newRegistration_def Let_def submitOpened_def recordNameVote_def factsCandidateRatio_def
  voters_def power_ratio_def demo_ratio resolveNameIfReached_def addNameConfirmation_def moveAccountIndex_def
  adoptNameFacts_def resolveNameRegistration_def demo_destination setNameRegistrationStatus_def

lemma late_env_simps [simp]:
  "StringToBytes late_env = Some" "BytesToString late_env = Some"
  "GetValidator late_env a = map_option (plain_validator a) (map_of [(''v1'', 3), (''v2'', 1)] a)"
  "TotalValidatorPower late_env = Some 4" "DecQuo late_env = half_even_quo"
  "ValAddressString late_env a = a" "ValAddressFromBech32 late_env = Some" "BlockHeight late_env = 10000000"
  "DeriveDestination late_env = DeriveDestination demo_bridge_env"
  by (simp_all add: late_env_def demo_bridge_env_def plain_env_def DeriveDestination_def fun_eq_iff)

lemma demo_name_overdue:
  "\<exists>s r. SubmitNameRegistration demo_bridge_env fakeBank (demo_name ''v1'') (start_bridge demo_params empty_ledger) = Inr s \<and>
     b_Params s = Some demo_params \<and> kv_get (NameRegistration s) 0 = Some r \<and> n_Txid r = ''t2'' \<and> n_OpIndex r = 0 \<and>
     due_registrations late_env demo_params s = [0] \<and> kv_get (NameRegistrationByTxid s) (''t2'', 0) = Some 0"
  by (simp add: demo_submit_simps demo_name_credit kv_get_Cons due_registrations_def bucket_def MaxExpirySweepPerBlock_def
      registration_due_def ks_remove_def)

lemma name_expiry_spares_active_links_witness:
  "\<exists>s s'. SubmitNameRegistration demo_bridge_env fakeBank (demo_name ''v1'') (start_bridge demo_params empty_ledger) = Inr s \<and>
     ExpireNameRegistrations late_env s = Inr s' \<and> \<not> fresh_name_key ''t2'' 0 s \<and> fresh_name_key ''t2'' 0 s' \<and> bank s' = bank s"
proof -
  obtain s r where s: "SubmitNameRegistration demo_bridge_env fakeBank (demo_name ''v1'') (start_bridge demo_params empty_ledger) = Inr s"
    "b_Params s = Some demo_params" "kv_get (NameRegistration s) 0 = Some r" "n_Txid r = ''t2''" "n_OpIndex r = 0"
    "due_registrations late_env demo_params s = [0]" "kv_get (NameRegistrationByTxid s) (''t2'', 0) = Some 0"
    using demo_name_overdue by (elim exE conjE)
  have start: "name_inv Some (start_bridge demo_params empty_ledger)"
    "name_listed Some (ValAddressFromBech32 demo_bridge_env) (start_bridge demo_params empty_ledger)"
    by (simp_all add: start_name_inv name_listed_def confirmed_listed_def confs_decode_def)
  have "name_inv Some s" by (rule SubmitNameRegistration_inv[OF start(1) s(1) demo_codec]) simp
  moreover have "name_listed Some (ValAddressFromBech32 late_env) s"
    using SubmitNameRegistration_listed[OF start demo_val_codec(1) demo_codec s(1)] by (simp add: late_env_def demo_bridge_env_def plain_env_def)
  ultimately obtain s' where "ExpireNameRegistrations late_env s = Inr s'" "fresh_name_key ''t2'' 0 s'" "bank s' = bank s"
    using name_expiry_spares_active_links[of Some s late_env demo_params] s(2-6) by fastforce
  then show ?thesis using s(1,7) by (auto simp: fresh_name_key_def)
qed

definition demo_twice_ledger :: ledger where
  "demo_twice_ledger = \<lparr>l_bal = [((''@steemblackhole'', ''asteem''), 0), ((''bob'', ''asteem''), 2000000000000000000)],
     l_supply = [(''asteem'', 2000000000000000000)]\<rparr>"

lemma demo_second_credit:
  assumes "bank s = demo_name_ledger" "Totals s = Some t"
  shows "creditBridged fakeBank ''bob'' BRIDGE_ASSET_STEEM 1000 0 s =
     Inr (s\<lparr>bank := demo_twice_ledger, Totals := Some (add_minted BRIDGE_ASSET_STEEM 1000000000000000000 t)\<rparr>,
          1000000000000000000)"
  using assms by (simp add: creditBridged_def Let_def ApplyBridgeFee_def send_if_positive_def MillisteemToAsteem_def
      MillisteemToAsteemFactor_def demo_bank_simps demo_name_simps demo_name_ledger_def demo_twice_ledger_def)


end
