(* ===== verification/Bridge_Books.thy ===== *)
theory Bridge_Books
  imports Bridge_NameExpiry
begin

text \<open>
  The books of the bridge. The keeper keeps two running totals per asset, what it has minted and what it
  has burned (\<open>BridgeTotals\<close>); this theory ties them to the records: the minted total is the value of
  the minted deposits, of the credited name registrations and of the refunded withdrawals, the burned
  total is the value of all withdrawals. Every operation keeps the books balanced.
\<close>

section \<open>Sums over a table\<close>

definition kv_sum :: "('r \<Rightarrow> int) \<Rightarrow> ('k, 'r) kv \<Rightarrow> int" where
  "kv_sum f m = sum_list (map (\<lambda>e. f (snd e)) m)"

definition old_value :: "('r \<Rightarrow> int) \<Rightarrow> 'r option \<Rightarrow> int" where
  "old_value f x = (case x of None \<Rightarrow> 0 | Some r \<Rightarrow> f r)"

lemma old_value_simps [simp]: "old_value f None = 0" "old_value f (Some r) = f r"
  by (simp_all add: old_value_def)

lemma kv_sum_Nil [simp]: "kv_sum f [] = 0"
  by (simp add: kv_sum_def)

lemma kv_sum_set: "kv_wf m \<Longrightarrow> kv_sum f (kv_set k v m) = kv_sum f m - old_value f (kv_get m k) + f v"
proof (induction k v m rule: kv_set.induct)
  case (2 k v a b m)
  have wf: "kv_wf m" "\<forall>e \<in> set m. a < fst e" using "2.prems" by (auto simp: kv_wf_def)
  have "k \<le> a \<Longrightarrow> kv_get m k = None" using wf(2) by (force simp: kv_get_None_iff)
  with "2.IH" wf(1) show ?case by (auto simp: kv_sum_def kv_get_Cons)
qed (simp add: kv_sum_def)

lemma kv_sum_nonneg: "(\<And>r. 0 \<le> f r) \<Longrightarrow> 0 \<le> kv_sum f m"
  by (induction m) (auto simp: kv_sum_def)

lemma kv_sum_mono: "(\<And>r. f r \<le> g r) \<Longrightarrow> kv_sum f m \<le> kv_sum g m"
  by (induction m) (auto simp: kv_sum_def add_mono)

lemma kv_sum_add: "kv_sum f m + kv_sum g m = kv_sum (\<lambda>r. f r + g r) m"
  by (induction m) (auto simp: kv_sum_def)

section \<open>The value of the records\<close>

definition deposit_value :: "bridge_asset \<Rightarrow> deposit \<Rightarrow> int" where
  "deposit_value A d = (if d_Status d = DEPOSIT_STATUS_MINTED \<and> DenomForAsset (d_Asset d) = DenomForAsset A
     then MillisteemToAsteem (d_AmountMillisteem d) else 0)"

text \<open>A registration has been credited once it has a destination; it is always in STEEM.\<close>

definition credited_value :: "bridge_asset \<Rightarrow> name_registration \<Rightarrow> int" where
  "credited_value A r = (if n_DerivedDestination r \<noteq> '''' \<and> DenomForAsset BRIDGE_ASSET_STEEM = DenomForAsset A
     then MillisteemToAsteem (n_AmountMillisteem r) else 0)"

definition withdrawn_value :: "bridge_asset \<Rightarrow> withdrawal \<Rightarrow> int" where
  "withdrawn_value A w = (if DenomForAsset (w_Asset w) = DenomForAsset A then MillisteemToAsteem (w_AmountMillisteem w) else 0)"

definition refunded_value :: "bridge_asset \<Rightarrow> withdrawal \<Rightarrow> int" where
  "refunded_value A w = (if w_Status w = WITHDRAWAL_STATUS_REFUNDED then withdrawn_value A w else 0)"

text \<open>What came in from Steem, what was minted in all, and what the withdrawals add up to.\<close>

definition received :: "bridge_asset \<Rightarrow> 'b bridge_state \<Rightarrow> int" where
  "received A s = kv_sum (deposit_value A) (Deposit s) + kv_sum (credited_value A) (NameRegistration s)"

definition booked :: "bridge_asset \<Rightarrow> 'b bridge_state \<Rightarrow> int" where
  "booked A s = received A s + kv_sum (refunded_value A) (Withdrawal s)"

definition withdrawn :: "bridge_asset \<Rightarrow> 'b bridge_state \<Rightarrow> int" where
  "withdrawn A s = kv_sum (withdrawn_value A) (Withdrawal s)"

definition books :: "'b bridge_state \<Rightarrow> bool" where
  "books s \<longleftrightarrow> (\<exists>t. Totals s = Some t \<and>
     (\<forall>A. outstanding A t = (booked A s, withdrawn A s) \<and> withdrawn A s \<le> booked A s))"

definition uncredited_ok :: "'b bridge_state \<Rightarrow> bool" where
  "uncredited_ok s \<longleftrightarrow> (\<forall>i r. kv_get (NameRegistration s) i = Some r \<longrightarrow>
     n_Status r \<in> {NAME_REGISTRATION_STATUS_PENDING, NAME_REGISTRATION_STATUS_UNCLAIMABLE} \<longrightarrow> n_DerivedDestination r = '''')"

lemma value_nonneg [simp]: "0 \<le> deposit_value A d" "0 \<le> credited_value A r" "0 \<le> withdrawn_value A w" "0 \<le> refunded_value A w"
  by (simp_all add: deposit_value_def credited_value_def withdrawn_value_def refunded_value_def MillisteemToAsteem_nonneg)

section \<open>Each operation keeps the books\<close>

lemma books_same:
  "books s \<Longrightarrow> Totals s' = Totals s \<Longrightarrow> same_deposits s s' \<Longrightarrow> same_withdrawals s s' \<Longrightarrow> same_names s s' \<Longrightarrow> books s'"
  by (simp add: books_def booked_def withdrawn_def received_def same_defs)

lemma booksD:
  assumes "books s"
  obtains t where "Totals s = Some t" "\<And>A. outstanding A t = (booked A s, withdrawn A s)" "\<And>A. withdrawn A s \<le> booked A s"
  using assms unfolding books_def by blast

lemma books_step:
  assumes "books s" "Totals s = Some t" "Totals s' = Some t'"
    and "\<And>A. fst (outstanding A t') = fst (outstanding A t) + (booked A s' - booked A s)"
    and "\<And>A. snd (outstanding A t') = snd (outstanding A t) + (withdrawn A s' - withdrawn A s)"
    and "\<And>A. withdrawn A s' - withdrawn A s \<le> booked A s' - booked A s \<or> withdrawn A s' \<le> booked A s'"
  shows "books s'"
proof -
  have t: "outstanding A t = (booked A s, withdrawn A s)" "withdrawn A s \<le> booked A s" for A
    using assms(1,2) unfolding books_def by auto
  have "outstanding A t' = (booked A s', withdrawn A s')" for A
    using assms(4,5)[of A] t(1)[of A] by (simp add: prod_eq_iff)
  moreover have "withdrawn A s' \<le> booked A s'" for A using assms(6)[of A] t(2)[of A] by linarith
  ultimately show ?thesis using assms(3) unfolding books_def by blast
qed

text \<open>The ledger view of a deposit attestation.\<close>

lemma resolveDeposit_totals:
  assumes "resolveDeposit E bk p d s = Inr (d', s')" "d_Status d = DEPOSIT_STATUS_PENDING"
  shows "d_Status d' = DEPOSIT_STATUS_UNCLAIMABLE \<and> Totals s' = Totals s \<or>
    d_Status d' = DEPOSIT_STATUS_MINTED \<and> (\<exists>t. Totals s = Some t \<and>
      Totals s' = Some (add_minted (d_Asset d') (MillisteemToAsteem (d_AmountMillisteem d')) t))"
  using assms by (auto simp: resolveDeposit_def setDepositStatus_def Let_def rbind_eq_Inr creditBridged_def
      split: option.splits if_splits)

lemma AttestDeposit_book:
  assumes inv: "deposit_inv s" and run: "AttestDeposit E bk msg s = Inr s'" "s' \<noteq> s" and t: "Totals s = Some t"
  obtains i d t' where "Deposit s' = kv_set i d (Deposit s)" "Totals s' = Some t'"
    "BridgeDutyQueue s' \<in> {BridgeDutyQueue s, ks_set (bridgeDutyKindDeposit, i) (BridgeDutyQueue s)}"
    "\<forall>A. snd (outstanding A t') = snd (outstanding A t)"
    "\<forall>A. fst (outstanding A t') = fst (outstanding A t) + deposit_value A d - old_value (deposit_value A) (kv_get (Deposit s) i)"
    "\<forall>A. old_value (deposit_value A) (kv_get (Deposit s) i) \<le> deposit_value A d"
proof -
  have tab: "table_ok d_Id (\<lambda>d. (d_Txid d, d_OpIndex d)) (\<lambda>d. dstat (d_Status d)) (\<lambda>d. d_Status d = DEPOSIT_STATUS_EXPIRED)
       (DepositSeq s) (Deposit s) (DepositByTxid s) (DepositByStatus s)"
    using inv by (simp add: deposit_inv_def)
  have old: "kv_get (Deposit s) i = None \<and> d_Id d0 = i \<and> d_Status d0 = DEPOSIT_STATUS_PENDING \<or> kv_get (Deposit s) i = Some d0 \<and> d_Id d0 = i"
    if "openDeposit E msg s = Inr (d0, i, s1)" for d0 i s1
    using that by (cases rule: openDeposit_cases)
      (use table_ok_get(1,2)[OF tab, of i] in \<open>cases "kv_get (Deposit s) i"; auto\<close>)+
  have frame: "Totals s1 = Totals s \<and> Deposit s1 = Deposit s \<and> BridgeDutyQueue s1 = BridgeDutyQueue s"
    if "openDeposit E msg s = Inr (d0, i, s1)" for d0 i s1
    using that by (cases rule: openDeposit_cases) simp_all
  from run(1) show ?thesis
  proof (cases rule: AttestDeposit_Inr)
    case repeated
    with run(2) show ?thesis by simp
  next
    case (recorded p a d0 i s1 ratio)
    have "old_value (deposit_value A) (kv_get (Deposit s) i) = deposit_value A (addConfirmation E a d0)" for A
      using old[OF recorded(5)] by (auto simp: deposit_value_def addConfirmation_def)
    with frame[OF recorded(5)] t show ?thesis
      by (intro that[where i = i and d = "addConfirmation E a d0" and t' = t]) (simp_all add: recorded(6) recordDepositVote_def)
  next
    case (resolved p a d0 i s1 ratio th d2 s4)
    let ?d = "adoptFacts msg (addConfirmation E a d0)"
    let ?s = "emit (DepositConfirmed i (ValAddressString E a) ratio) (recordDepositVote E msg a s1)"
    obtain st b u ev where r: "d_Id d2 = d_Id ?d"
      "s4 = ?s\<lparr>bank := b, Totals := u, DepositByStatus := ks_set (dstat st, d_Id ?d)
         (ks_remove (dstat (d_Status ?d), d_Id ?d) (DepositByStatus ?s)), b_events := ev\<rparr>"
      by (rule resolveDeposit_frame[OF resolved(10), where msg = msg])
    have "d_Status ?d = DEPOSIT_STATUS_PENDING" using resolved(6) by (simp add: adoptFacts_def addConfirmation_def)
    note tot = resolveDeposit_totals[OF resolved(10) this]
    have ts: "Totals ?s = Some t" using frame[OF resolved(5)] t by (simp add: recordDepositVote_def)
    have s4: "BridgeDutyQueue s4 = BridgeDutyQueue s" "Deposit s4 = Deposit s" "d_Id d2 = i"
      using frame[OF resolved(5)] old[OF resolved(5)] by (auto simp: r recordDepositVote_def adoptFacts_def addConfirmation_def)
    have zero: "old_value (deposit_value A) (kv_get (Deposit s) i) = 0" for A
      using old[OF resolved(5)] resolved(6) by (auto simp: deposit_value_def)
    from tot show ?thesis unfolding ts
    proof (elim disjE conjE exE)
      assume "d_Status d2 = DEPOSIT_STATUS_UNCLAIMABLE" "Totals s4 = Some t"
      with zero show ?thesis
        by (intro that[where i = i and d = d2 and t' = t]) (simp_all add: resolved(11) s4 enqueueBridgeDuty_def deposit_value_def)
    next
      fix w assume "d_Status d2 = DEPOSIT_STATUS_MINTED" "Some t = Some w"
        "Totals s4 = Some (add_minted (d_Asset d2) (MillisteemToAsteem (d_AmountMillisteem d2)) w)"
      with zero show ?thesis
        by (intro that[where i = i and d = d2 and t' = "add_minted (d_Asset d2) (MillisteemToAsteem (d_AmountMillisteem d2)) t"])
          (simp_all add: resolved(11) s4 enqueueBridgeDuty_def deposit_value_def outstanding_add)
    qed
  qed
qed

lemma AttestDeposit_books:
  assumes inv: "deposit_inv s" and books: "books s" and run: "AttestDeposit E bk msg s = Inr s'"
  shows "books s'"
proof (cases "s' = s")
  case False
  have wf: "kv_wf (Deposit s)" using inv by (auto simp: deposit_inv_def dest: table_ok_wf)
  have fr: "same_withdrawals s s'" "same_names s s'"
    by (rule AttestDeposit_effect[OF run False], assumption)+
  obtain t where t: "Totals s = Some t" using books by (rule booksD)
  obtain i d t' where b: "Deposit s' = kv_set i d (Deposit s)" "Totals s' = Some t'"
    "BridgeDutyQueue s' \<in> {BridgeDutyQueue s, ks_set (bridgeDutyKindDeposit, i) (BridgeDutyQueue s)}"
    "\<forall>A. snd (outstanding A t') = snd (outstanding A t)"
    "\<forall>A. fst (outstanding A t') = fst (outstanding A t) + deposit_value A d - old_value (deposit_value A) (kv_get (Deposit s) i)"
    "\<forall>A. old_value (deposit_value A) (kv_get (Deposit s) i) \<le> deposit_value A d"
    by (rule AttestDeposit_book[OF inv run False t])
  have "booked A s' = booked A s + deposit_value A d - old_value (deposit_value A) (kv_get (Deposit s) i)"
    "withdrawn A s' = withdrawn A s" for A
    using fr by (simp_all add: booked_def withdrawn_def received_def b(1) kv_sum_set[OF wf] same_names_def same_withdrawals_def)
  with b(4-6) show ?thesis by (intro books_step[OF books t b(2)]) simp_all
qed (use books in simp)

lemma SubmitNameRegistration_books:
  assumes inv: "name_inv codec s" and books: "books s" "uncredited_ok s" and run: "SubmitNameRegistration E bk msg s = Inr s'"
    and codec: "account_codec_ok codec E" "codec '''' = None"
  shows "books s'" "uncredited_ok s'"
proof -
  have "books s' \<and> uncredited_ok s'"
  proof (cases "s' = s")
    case False
    note tab = name_invD(1)[OF inv]
    have wf: "kv_wf (NameRegistration s)" by (rule table_ok_wf(1)[OF tab])
    have fr: "same_deposits s s'" "same_withdrawals s s'"
      by (rule SubmitNameRegistration_effect[OF run False], assumption)+
    obtain t where t: "Totals s = Some t" using books(1) by (rule booksD)
    obtain a r0 i s1 r where b: "openRegistration E msg s = Inr (r0, i, s1)" "n_Status r0 = NAME_REGISTRATION_STATUS_PENDING"
      "NameRegistration s' = kv_set i r (NameRegistration s)"
      and st: "n_Status r \<in> {NAME_REGISTRATION_STATUS_PENDING, NAME_REGISTRATION_STATUS_UNCLAIMABLE} \<and> Totals s' = Totals s \<and>
         n_DerivedDestination r = n_DerivedDestination r0
       \<or> n_Status r = NAME_REGISTRATION_STATUS_AWAITING_CONFIRMATION \<and>
         (\<exists>dest t. BytesToString E dest = Some (n_DerivedDestination r) \<and> Totals s = Some t \<and>
            Totals s' = Some (add_minted BRIDGE_ASSET_STEEM (MillisteemToAsteem (n_AmountMillisteem r)) t))"
      by (rule SubmitNameRegistration_book[OF run False])
    have empty: "n_DerivedDestination r0 = ''''" "\<And>q. kv_get (NameRegistration s) i = Some q \<Longrightarrow> n_DerivedDestination q = ''''"
      using b(1,2) books(2) table_ok_get(2)[OF tab, of i] unfolding uncredited_ok_def
      by (auto simp: openRegistration_def newRegistration_def Let_def rbind_eq_Inr split: option.splits)
    have delta: "booked A s' = booked A s + credited_value A r" "withdrawn A s' = withdrawn A s" for A
      using fr empty(2) by (cases "kv_get (NameRegistration s) i"; simp add: booked_def withdrawn_def received_def b(3)
          kv_sum_set[OF wf] credited_value_def same_defs)+
    from st have "books s'"
    proof (elim disjE conjE exE)
      assume "Totals s' = Totals s" "n_DerivedDestination r = n_DerivedDestination r0"
      with delta empty(1) t show ?thesis by (intro books_step[OF books(1) t]) (simp_all add: credited_value_def)
    next
      fix dest u assume c: "BytesToString E dest = Some (n_DerivedDestination r)" "Totals s = Some u"
        "Totals s' = Some (add_minted BRIDGE_ASSET_STEEM (MillisteemToAsteem (n_AmountMillisteem r)) u)"
      have "n_DerivedDestination r \<noteq> ''''" using c(1) codec by (auto simp: account_codec_ok_def)
      with delta show ?thesis
        by (intro books_step[OF books(1) c(2,3)]) (simp_all add: credited_value_def outstanding_add MillisteemToAsteem_nonneg)
    qed
    moreover have "uncredited_ok s'"
      using books(2) st empty(1) unfolding uncredited_ok_def b(3) by (auto split: if_splits)
    ultimately show ?thesis ..
  qed (use books in simp)
  then show "books s'" "uncredited_ok s'" by blast+
qed

lemma kept_value: "kept r r' \<Longrightarrow> credited_value A r' = credited_value A r"
  by (simp add: kept_def credited_value_def)

lemma ConfirmName_books:
  assumes inv: "name_inv codec s" and books: "books s" "uncredited_ok s" and run: "ConfirmName E msg s = Inr s'" "StringToBytes E = codec"
  shows "books s'" "uncredited_ok s'"
proof -
  have wf: "kv_wf (NameRegistration s)" by (rule table_ok_wf(1)[OF name_invD(1)[OF inv]])
  note fr = ConfirmName_frame[OF run(1)]
  obtain t where t: "Totals s = Some t" using books(1) by (rule booksD)
  have "kv_sum (credited_value A) (NameRegistration s') = kv_sum (credited_value A) (NameRegistration s)" for A
    using inv run by (cases rule: ConfirmName_records) (simp_all add: kv_sum_set wf kept_value)
  then have "booked A s' = booked A s" "withdrawn A s' = withdrawn A s" for A
    using fr(3,4) by (simp_all add: booked_def withdrawn_def received_def same_defs)
  with fr(2) t show "books s'" by (intro books_step[OF books(1) t, of s' t]) simp_all
  from inv run show "uncredited_ok s'"
    using books(2) unfolding uncredited_ok_def by (cases rule: ConfirmName_records) (auto split: if_splits)
qed

lemma BridgeOut_books:
  assumes inv: "withdrawal_inv s" and books: "books s" and run: "BridgeOut E bk msg s = Inr s'"
  shows "books s'"
proof -
  have rows: "rows_ok w_Id (\<lambda>w. wstat (w_Status w)) (WithdrawalSeq s) (Withdrawal s) (WithdrawalByStatus s)"
    using inv by (simp add: withdrawal_inv_def)
  have wf: "kv_wf (Withdrawal s)" using rows by (simp add: rows_ok_def)
  obtain amount net fee t b where o: "Totals s = Some t"
    "snd (outstanding (bo_Asset msg) t) + MillisteemToAsteem net \<le> fst (outstanding (bo_Asset msg) t)"
    "s' = openWithdrawal E msg amount net fee
       (s\<lparr>bank := b, Totals := Some (add_burned (bo_Asset msg) (MillisteemToAsteem net) t)\<rparr>)"
    by (rule BridgeOut_Inr[OF run])
  let ?v = "\<lambda>A. if DenomForAsset (bo_Asset msg) = DenomForAsset A then MillisteemToAsteem net else 0"
  have same: "same_deposits s s'" "same_names s s'"
    using openWithdrawal_fields(8,9)[of "s\<lparr>bank := b, Totals := Some (add_burned (bo_Asset msg) (MillisteemToAsteem net) t)\<rparr>"]
    by (simp_all add: o(3) same_deposits_def same_names_def)
  have delta: "booked A s' = booked A s" "withdrawn A s' = withdrawn A s + ?v A" for A
    using same rows_ok_fresh[OF rows] by (simp_all add: booked_def withdrawn_def received_def same_deposits_def same_names_def
        o(3) kv_sum_set[OF wf] withdrawn_value_def refunded_value_def)
  have out: "outstanding A t = (booked A s, withdrawn A s)" for A using books o(1) unfolding books_def by auto
  have same_denom: "outstanding A t = outstanding (bo_Asset msg) t" if "DenomForAsset (bo_Asset msg) = DenomForAsset A" for A
    using that by (auto simp: outstanding_def DenomForAsset_def DefaultBondDenom_def DenomSBD_def split: if_splits)
  have le: "withdrawn A s' - withdrawn A s \<le> booked A s' - booked A s \<or> withdrawn A s' \<le> booked A s'" for A
    using o(2) same_denom[of A] out[of A] out[of "bo_Asset msg"] unfolding delta by (cases "DenomForAsset (bo_Asset msg) = DenomForAsset A") auto
  show ?thesis
    by (rule books_step[OF books o(1), where t' = "add_burned (bo_Asset msg) (MillisteemToAsteem net) t"])
      (rule le | simp add: delta outstanding_add | simp add: o(3))+
qed

lemma AttestWithdrawalPayout_books:
  assumes inv: "withdrawal_inv s" and books: "books s" and run: "AttestWithdrawalPayout E msg s = Inr s'"
  shows "books s'"
proof -
  have wf: "kv_wf (Withdrawal s)" using inv by (simp add: withdrawal_inv_def rows_ok_def)
  obtain t where t: "Totals s = Some t" using books by (rule booksD)
  note eff = AttestWithdrawalPayout_effect[OF run]
  have "kv_sum (withdrawn_value A) (Withdrawal s') = kv_sum (withdrawn_value A) (Withdrawal s) \<and>
      kv_sum (refunded_value A) (Withdrawal s') = kv_sum (refunded_value A) (Withdrawal s)" for A
    using eff by (auto simp: same_withdrawals_def kv_sum_set[OF wf] withdrawn_value_def refunded_value_def)
  then have "booked A s' = booked A s" "withdrawn A s' = withdrawn A s" for A
    using eff by (simp_all add: booked_def withdrawn_def received_def same_deposits_def same_names_def)
  with eff t show ?thesis by (intro books_step[OF books t, of s' t]) simp_all
qed

lemma refundWithdrawal_books:
  assumes inv: "withdrawal_inv s" and rec: "kv_get (Withdrawal s) i = Some w" "w_Status w = WITHDRAWAL_STATUS_REQUESTED"
    and books: "books s" and run: "refundWithdrawal E bk i s = Inr s'"
  shows "books s'"
proof -
  have wf: "kv_wf (Withdrawal s)" using inv by (simp add: withdrawal_inv_def rows_ok_def)
  let ?n = "MillisteemToAsteem (w_AmountMillisteem w)"
  note e = refundWithdrawal_effect[OF inv rec run]
  from e(3) obtain b t B W ev where r: "Totals s = Some t"
    and s': "s' = s\<lparr>bank := b, Totals := Some (add_minted (w_Asset w) ?n t), WithdrawalByStatus := B, Withdrawal := W, b_events := ev\<rparr>"
    by blast
  have "kv_sum (withdrawn_value A) (Withdrawal s') = kv_sum (withdrawn_value A) (Withdrawal s)"
    "kv_sum (refunded_value A) (Withdrawal s') = kv_sum (refunded_value A) (Withdrawal s) +
       (if DenomForAsset (w_Asset w) = DenomForAsset A then ?n else 0)" for A
    by (simp_all add: e(2) kv_sum_set[OF wf] rec withdrawn_value_def refunded_value_def refunded_def)
  then have "booked A s' = booked A s + (if DenomForAsset (w_Asset w) = DenomForAsset A then ?n else 0)"
    "withdrawn A s' = withdrawn A s" for A
    by (simp_all add: booked_def withdrawn_def received_def s')
  then show ?thesis
    by (intro books_step[OF books r, of s' "add_minted (w_Asset w) ?n t"])
      (simp_all add: s' outstanding_add MillisteemToAsteem_nonneg)
qed

lemma expireDeposit_books:
  assumes inv: "deposit_inv s" "deposit_listed (ValAddressFromBech32 E) s"
    and rec: "kv_get (Deposit s) i = Some d" "d_Status d = DEPOSIT_STATUS_PENDING"
    and books: "books s" and run: "expireDeposit E i s = Inr s'"
  shows "books s'"
proof -
  have wf: "kv_wf (Deposit s)" using inv(1) by (auto simp: deposit_inv_def dest: table_ok_wf)
  obtain t where t: "Totals s = Some t" using books by (rule booksD)
  note e = expireDeposit_effect[OF inv rec run]
  from e(6) obtain D T C F B ev where s': "s' = s\<lparr>Deposit := D, DepositByTxid := T, DepositConfirmedBy := C,
       DepositFactsVote := F, DepositByStatus := B, b_events := ev\<rparr>" by blast
  have "kv_sum (deposit_value A) (Deposit s') = kv_sum (deposit_value A) (Deposit s)" for A
    by (simp add: e(3) kv_sum_set[OF wf] rec deposit_value_def)
  then have "booked A s' = booked A s" "withdrawn A s' = withdrawn A s" for A
    by (simp_all add: booked_def withdrawn_def received_def s')
  with t show ?thesis by (intro books_step[OF books t, of s' t]) (simp_all add: s')
qed

lemma expireRegistration_books:
  assumes inv: "name_inv codec s" "name_listed codec (ValAddressFromBech32 E) s" "StringToBytes E = codec"
    and rec: "kv_get (NameRegistration s) i = Some r" "open_registration r"
    and books: "books s" "uncredited_ok s" and run: "expireRegistration E i s = Inr s'"
  shows "books s'" "uncredited_ok s'"
proof -
  have wf: "kv_wf (NameRegistration s)" by (rule table_ok_wf(1)[OF name_invD(1)[OF inv(1)]])
  obtain t where t: "Totals s = Some t" using books(1) by (rule booksD)
  note e = expireRegistration_effect[OF inv rec run]
  have "kv_sum (credited_value A) (NameRegistration s') = kv_sum (credited_value A) (NameRegistration s)" for A
    by (simp add: e(3) kv_sum_set[OF wf] rec credited_value_def expired_registration_def)
  then have "booked A s' = booked A s" "withdrawn A s' = withdrawn A s" for A
    using e(6,7) by (simp_all add: booked_def withdrawn_def received_def same_defs)
  with t e(9) show "books s'" by (intro books_step[OF books(1) t, of s' t]) simp_all
  show "uncredited_ok s'" using books(2) unfolding uncredited_ok_def e(3) by (auto simp: expired_registration_def)
qed

end
