(* ===== verification/Bridge_Machine.thy ===== *)
theory Bridge_Machine
  imports Bridge_Books
begin

text \<open>
  The bridge module as a state machine: the messages of its server (\<open>x/oracle/bridge/keeper/msg_server*.go\<close>,
  \<open>msg_update_params.go\<close>), its block hooks (\<open>module/module.go\<close>) and, as one more step, whatever the other
  modules of the application do to the bank. A message that fails is rolled back and is no step. The
  invariants of the components are proved once for every reachable state, and the properties that span
  components rest on them.
\<close>

section \<open>Parameter updates\<close>

definition bridge_UpdateParams ::
    "env \<Rightarrow> bytes \<Rightarrow> string \<Rightarrow> bridge_params \<Rightarrow> 'b bridge_state \<Rightarrow> 'b bridge_state res" where
  "bridge_UpdateParams E k_authority req_Authority req_Params s =
     rbind (from_option ErrInvalidAddress (StringToBytes E req_Authority)) (\<lambda>authority.
     rbind (guard_err (k_authority = authority) ErrInvalidSigner) (\<lambda>_.
     rbind (bridge_Validate req_Params) (\<lambda>_.
     Inr (emit BridgeParametersUpdated (s\<lparr>b_Params := Some req_Params\<rparr>)))))"

section \<open>Steps\<close>

datatype 'b bridge_op =
    OpAttestDeposit msg_attest_deposit
  | OpSubmitName msg_submit_name
  | OpConfirmName msg_confirm_name
  | OpBridgeOut msg_bridge_out
  | OpAttestPayout msg_attest_payout
  | OpUpdateParams bytes string bridge_params
  | OpBeginBlock
  | OpEndBlock
  | OpOtherModules 'b "oracle_state option"

type_synonym 'b bridge_chain = "'b bridge_state \<times> oracle_state option"

fun bridge_exec :: "env \<Rightarrow> 'b bank_ops \<Rightarrow> 'b bridge_op \<Rightarrow> 'b bridge_chain \<Rightarrow> 'b bridge_chain res" where
  "bridge_exec E bk (OpAttestDeposit msg) (s, ok) = rbind (AttestDeposit E bk msg s) (\<lambda>s'. Inr (s', ok))"
| "bridge_exec E bk (OpSubmitName msg) (s, ok) = rbind (SubmitNameRegistration E bk msg s) (\<lambda>s'. Inr (s', ok))"
| "bridge_exec E bk (OpConfirmName msg) (s, ok) = rbind (ConfirmName E msg s) (\<lambda>s'. Inr (s', ok))"
| "bridge_exec E bk (OpBridgeOut msg) (s, ok) = rbind (BridgeOut E bk msg s) (\<lambda>s'. Inr (s', ok))"
| "bridge_exec E bk (OpAttestPayout msg) (s, ok) = rbind (AttestWithdrawalPayout E msg s) (\<lambda>s'. Inr (s', ok))"
| "bridge_exec E bk (OpUpdateParams auth a p) (s, ok) = rbind (bridge_UpdateParams E auth a p s) (\<lambda>s'. Inr (s', ok))"
| "bridge_exec E bk OpBeginBlock (s, ok) = rbind (bridge_BeginBlock E bk s) (\<lambda>s'. Inr (s', ok))"
| "bridge_exec E bk OpEndBlock (s, ok) = bridge_EndBlock E bk (s, ok)"
| "bridge_exec E bk (OpOtherModules b ok') (s, ok) = Inr (s\<lparr>bank := b\<rparr>, ok')"

text \<open>
  What stays the same from block to block: the address codecs of the chain. An address is a rendering of
  its bytes, and the empty string is not an address.
\<close>

definition bridge_env_ok :: "(string \<Rightarrow> bytes option) \<Rightarrow> (string \<Rightarrow> bytes option) \<Rightarrow> env \<Rightarrow> bool" where
  "bridge_env_ok codec valdec E \<longleftrightarrow> account_codec_ok codec E \<and> codec '''' = None \<and>
     ValAddressFromBech32 E = valdec \<and> val_codec_ok E"

text \<open>The states reached by \<open>n\<close> successful steps from a genesis without records.\<close>

inductive bridge_reaches ::
    "'b bank_ops \<Rightarrow> (env \<Rightarrow> bool) \<Rightarrow> nat \<Rightarrow> 'b bridge_chain \<Rightarrow> bool" for bk good where
  start: "bridge_Validate p = Inr () \<Longrightarrow> bridge_reaches bk good 0 (start_bridge p b, ok)"
| step: "bridge_reaches bk good n c \<Longrightarrow> good E \<Longrightarrow> bridge_exec E bk oper c = Inr c' \<Longrightarrow> bridge_reaches bk good (Suc n) c'"

inductive_cases bridge_reaches_SucE: "bridge_reaches bk good (Suc n) c"

section \<open>The invariant\<close>

text \<open>The sender of every withdrawal is an address, so that it can be refunded.\<close>

definition senders_ok :: "(string \<Rightarrow> bytes option) \<Rightarrow> 'b bridge_state \<Rightarrow> bool" where
  "senders_ok codec s \<longleftrightarrow> (\<forall>i w. kv_get (Withdrawal s) i = Some w \<longrightarrow> codec (w_Sender w) \<noteq> None)"

lemma senders_same: "same_withdrawals s s' \<Longrightarrow> senders_ok codec s \<Longrightarrow> senders_ok codec s'"
  by (simp add: same_withdrawals_def senders_ok_def)

lemma senders_set:
  "senders_ok codec s \<Longrightarrow> Withdrawal s' = kv_set i w (Withdrawal s) \<Longrightarrow> codec (w_Sender w) \<noteq> None \<Longrightarrow> senders_ok codec s'"
  by (auto simp: senders_ok_def split: if_splits)

definition bridge_ok :: "(string \<Rightarrow> bytes option) \<Rightarrow> (string \<Rightarrow> bytes option) \<Rightarrow> 'b bridge_state \<Rightarrow> bool" where
  "bridge_ok codec valdec s \<longleftrightarrow>
     deposit_inv s \<and> deposit_listed valdec s \<and> name_inv codec s \<and> name_listed codec valdec s \<and> withdrawal_inv s \<and>
     duty_queue_ok s \<and> books s \<and> uncredited_ok s \<and> (\<exists>p. b_Params s = Some p \<and> bridge_Validate p = Inr ()) \<and>
     senders_ok codec s"

definition seqs_below :: "nat \<Rightarrow> 'b bridge_state \<Rightarrow> bool" where
  "seqs_below n s \<longleftrightarrow> unat (DepositSeq s) \<le> n \<and> unat (WithdrawalSeq s) \<le> n \<and> unat (NameRegistrationSeq s) \<le> n"

lemma bridge_okD:
  assumes "bridge_ok codec valdec s"
  shows "deposit_inv s" "deposit_listed valdec s" "name_inv codec s" "name_listed codec valdec s" "withdrawal_inv s"
    "duty_queue_ok s" "books s" "uncredited_ok s" "\<exists>p. b_Params s = Some p \<and> bridge_Validate p = Inr ()" "senders_ok codec s"
  using assms unfolding bridge_ok_def by blast+

lemma bridge_okI:
  assumes "deposit_inv s" "deposit_listed valdec s" "name_inv codec s" "name_listed codec valdec s" "withdrawal_inv s"
    "duty_queue_ok s" "books s" "uncredited_ok s" "\<exists>p. b_Params s = Some p \<and> bridge_Validate p = Inr ()" "senders_ok codec s"
  shows "bridge_ok codec valdec s"
  using assms unfolding bridge_ok_def by blast

lemma deposits_same: "same_deposits s s' \<Longrightarrow> deposit_inv s \<Longrightarrow> deposit_inv s'"
  "same_deposits s s' \<Longrightarrow> deposit_listed valdec s \<Longrightarrow> deposit_listed valdec s'"
  by (simp_all add: same_deposits_def deposit_inv_def deposit_listed_def)

lemma uncredited_same: "same_names s s' \<Longrightarrow> uncredited_ok s \<Longrightarrow> uncredited_ok s'"
  by (simp add: same_names_def uncredited_ok_def)

text \<open>Records are never removed, so a queued event keeps its record.\<close>

lemma duty_queue_grows:
  assumes "duty_queue_ok s" "\<And>i. kv_get (Deposit s) i \<noteq> None \<Longrightarrow> kv_get (Deposit s') i \<noteq> None"
    and "\<And>i. kv_get (Withdrawal s) i \<noteq> None \<Longrightarrow> kv_get (Withdrawal s') i \<noteq> None"
    and "BridgeDutyQueue s' = BridgeDutyQueue s \<or>
      (\<exists>i. BridgeDutyQueue s' = ks_set (bridgeDutyKindDeposit, i) (BridgeDutyQueue s) \<and> kv_get (Deposit s') i \<noteq> None) \<or>
      (\<exists>i. BridgeDutyQueue s' = ks_set (bridgeDutyKindWithdrawal, i) (BridgeDutyQueue s) \<and> kv_get (Withdrawal s') i \<noteq> None)"
  shows "duty_queue_ok s'"
proof -
  have old: "k = bridgeDutyKindDeposit \<and> kv_get (Deposit s') i \<noteq> None \<or> k = bridgeDutyKindWithdrawal \<and> kv_get (Withdrawal s') i \<noteq> None"
    if "ks_has (BridgeDutyQueue s) (k, i)" for k i
    using assms(1-3) that unfolding duty_queue_ok_def by blast
  have "ks_wf (BridgeDutyQueue s)" using assms(1) by (simp add: duty_queue_ok_def)
  with assms(4) have wf: "ks_wf (BridgeDutyQueue s')" by auto
  have "k = bridgeDutyKindDeposit \<and> kv_get (Deposit s') i \<noteq> None \<or> k = bridgeDutyKindWithdrawal \<and> kv_get (Withdrawal s') i \<noteq> None"
    if "ks_has (BridgeDutyQueue s') (k, i)" for k i
    using assms(4) that old[of k i] by (auto simp: ks_has_set)
  with wf show ?thesis unfolding duty_queue_ok_def by blast
qed

section \<open>Every step keeps the invariant\<close>

lemma unat_step:
  "unat (x :: u64) \<le> n \<Longrightarrow> Suc n < 2 ^ 64 \<Longrightarrow> x + 1 \<noteq> 0"
  "unat (x :: u64) \<le> n \<Longrightarrow> Suc n < 2 ^ 64 \<Longrightarrow> unat (x + 1) \<le> Suc n"
proof -
  assume x: "unat x \<le> n" "Suc n < 2 ^ 64"
  then have "unat (x + 1) = unat x + 1" by (simp add: unat_word_ariths)
  with x show "x + 1 \<noteq> 0" "unat (x + 1) \<le> Suc n" by auto
qed

lemma AttestDeposit_ok:
  assumes env: "bridge_env_ok codec valdec E" and ok: "bridge_ok codec valdec s" "seqs_below n s" "Suc n < 2 ^ 64"
    and run: "AttestDeposit E bk msg s = Inr s'"
  shows "bridge_ok codec valdec s' \<and> seqs_below (Suc n) s'"
proof (cases "s' = s")
  case True
  with ok show ?thesis by (auto simp: seqs_below_def)
next
  case False
  note I = bridge_okD[OF ok(1)]
  have E: "ValAddressFromBech32 E = valdec" "val_codec_ok E" using env by (simp_all add: bridge_env_ok_def)
  have fr: "same_withdrawals s s'" "same_names s s'" "b_Params s' = b_Params s"
    by (rule AttestDeposit_effect[OF run False], assumption)+
  obtain t where t: "Totals s = Some t" using I(7) by (rule booksD)
  obtain i d t' where b: "Deposit s' = kv_set i d (Deposit s)"
    "BridgeDutyQueue s' \<in> {BridgeDutyQueue s, ks_set (bridgeDutyKindDeposit, i) (BridgeDutyQueue s)}"
    by (rule AttestDeposit_book[OF I(1) run False t])
  have seq: "DepositSeq s' = DepositSeq s \<or> DepositSeq s' = DepositSeq s + 1"
  proof -
    obtain d0 i s1 where o: "openDeposit E msg s = Inr (d0, i, s1)" "DepositSeq s' = DepositSeq s1"
      by (rule AttestDeposit_effect[OF run False])
    from o(1) show ?thesis by (cases rule: openDeposit_cases) (simp_all add: o(2))
  qed
  have step: "DepositSeq s + 1 \<noteq> 0" "unat (DepositSeq s + 1) \<le> Suc n"
    using unat_step[of "DepositSeq s" n] ok(2,3) by (simp_all add: seqs_below_def)
  have "seqs_below (Suc n) s'"
    using seq step(2) ok(2) fr(1,2) by (auto simp: seqs_below_def same_withdrawals_def same_names_def)
  moreover have "bridge_ok codec valdec s'"
  proof (rule bridge_okI)
    show "deposit_inv s'" by (rule AttestDeposit_inv[OF I(1) run step(1)])
    show "deposit_listed valdec s'" using AttestDeposit_listed[OF I(1) _ E(2) run] I(2) E(1) by simp
    show "duty_queue_ok s'"
      by (rule duty_queue_grows[OF I(6)]) (use b fr(1) in \<open>auto simp: same_withdrawals_def\<close>)
    show "books s'" by (rule AttestDeposit_books[OF I(1,7) run])
  qed (rule name_inv_same[OF I(3) fr(2)] name_listed_same[OF I(4) fr(2)] withdrawal_inv_same[OF I(5) fr(1)]
      uncredited_same[OF fr(2) I(8)] I(9)[folded fr(3)] senders_same[OF fr(1) I(10)])+
  ultimately show ?thesis by blast
qed

lemma SubmitNameRegistration_ok:
  assumes env: "bridge_env_ok codec valdec E" and ok: "bridge_ok codec valdec s" "seqs_below n s" "Suc n < 2 ^ 64"
    and run: "SubmitNameRegistration E bk msg s = Inr s'"
  shows "bridge_ok codec valdec s' \<and> seqs_below (Suc n) s'"
proof (cases "s' = s")
  case True
  with ok show ?thesis by (auto simp: seqs_below_def)
next
  case False
  note I = bridge_okD[OF ok(1)]
  have E: "ValAddressFromBech32 E = valdec" "val_codec_ok E" "account_codec_ok codec E" "codec [] = None"
    using env by (simp_all add: bridge_env_ok_def)
  have fr: "same_deposits s s'" "same_withdrawals s s'" "b_Params s' = b_Params s" "BridgeDutyQueue s' = BridgeDutyQueue s"
    by (rule SubmitNameRegistration_effect[OF run False], assumption)+
  have seq: "NameRegistrationSeq s' = NameRegistrationSeq s \<or> NameRegistrationSeq s' = NameRegistrationSeq s + 1"
  proof -
    obtain r0 i s1 where o: "openRegistration E msg s = Inr (r0, i, s1)" "NameRegistrationSeq s' = NameRegistrationSeq s1"
      by (rule SubmitNameRegistration_effect[OF run False])
    from o(1) show ?thesis by (cases rule: openRegistration_cases) (simp_all add: o(2))
  qed
  have step: "NameRegistrationSeq s + 1 \<noteq> 0" "unat (NameRegistrationSeq s + 1) \<le> Suc n"
    using unat_step[of "NameRegistrationSeq s" n] ok(2,3) by (simp_all add: seqs_below_def)
  have "seqs_below (Suc n) s'"
    using seq step(2) ok(2) fr(1,2) by (auto simp: seqs_below_def same_withdrawals_def same_deposits_def)
  moreover have "bridge_ok codec valdec s'"
  proof (rule bridge_okI)
    show "name_inv codec s'" by (rule SubmitNameRegistration_inv[OF I(3) run E(3) step(1)])
    show "name_listed codec valdec s'" using SubmitNameRegistration_listed[OF I(3) _ E(2,3) run] I(4) E(1) by simp
    show "books s'" "uncredited_ok s'" by (rule SubmitNameRegistration_books[OF I(3,7,8) run E(3,4)])+
    show "duty_queue_ok s'"
      by (rule duty_queue_grows[OF I(6)]) (use fr(1,2,4) in \<open>simp_all add: same_deposits_def same_withdrawals_def\<close>)
  qed (rule deposits_same(1)[OF fr(1) I(1)] deposits_same(2)[OF fr(1) I(2)] withdrawal_inv_same[OF I(5) fr(2)]
      I(9)[folded fr(3)] senders_same[OF fr(2) I(10)])+
  ultimately show ?thesis by blast
qed

lemma ConfirmName_ok:
  assumes env: "bridge_env_ok codec valdec E" and ok: "bridge_ok codec valdec s" "seqs_below n s"
    and run: "ConfirmName E msg s = Inr s'"
  shows "bridge_ok codec valdec s' \<and> seqs_below (Suc n) s'"
proof -
  note I = bridge_okD[OF ok(1)] and fr = ConfirmName_frame[OF run]
  have E: "StringToBytes E = codec" using env by (simp add: bridge_env_ok_def account_codec_ok_def)
  have "seqs_below (Suc n) s'"
    using ok(2) fr(3,4,9) by (simp add: seqs_below_def same_withdrawals_def same_deposits_def)
  moreover have "bridge_ok codec valdec s'"
  proof (rule bridge_okI)
    show "name_inv codec s'" by (rule ConfirmName_inv[OF I(3) run E])
    show "name_listed codec valdec s'" by (rule ConfirmName_listed[OF I(3,4) run E])
    show "books s'" "uncredited_ok s'" by (rule ConfirmName_books[OF I(3,7,8) run E])+
    show "duty_queue_ok s'"
      by (rule duty_queue_grows[OF I(6)]) (use fr(3,4,6) in \<open>simp_all add: same_deposits_def same_withdrawals_def\<close>)
  qed (rule deposits_same(1)[OF fr(3) I(1)] deposits_same(2)[OF fr(3) I(2)] withdrawal_inv_same[OF I(5) fr(4)]
      I(9)[folded fr(5)] senders_same[OF fr(4) I(10)])+
  ultimately show ?thesis by blast
qed

lemma BridgeOut_ok:
  assumes env: "bridge_env_ok codec valdec E" and ok: "bridge_ok codec valdec s" "seqs_below n s" "Suc n < 2 ^ 64"
    and run: "BridgeOut E bk msg s = Inr s'"
  shows "bridge_ok codec valdec s' \<and> seqs_below (Suc n) s'"
proof -
  note I = bridge_okD[OF ok(1)]
  obtain a amount net fee t b where a: "StringToBytes E (bo_Sender msg) = Some a" and s': "s' = openWithdrawal E msg amount net fee
       (s\<lparr>bank := b, Totals := Some (add_burned (bo_Asset msg) (MillisteemToAsteem net) t)\<rparr>)"
    by (rule BridgeOut_Inr[OF run])
  let ?s = "s\<lparr>bank := b, Totals := Some (add_burned (bo_Asset msg) (MillisteemToAsteem net) t)\<rparr>"
  have fr: "same_deposits s s'" "same_names s s'" "b_Params s' = b_Params s" "BridgeDutyQueue s' = BridgeDutyQueue s"
    "WithdrawalSeq s' = WithdrawalSeq s + 1"
    using openWithdrawal_fields(8,9)[of ?s E msg amount net fee] by (simp_all add: s' same_deposits_def same_names_def)
  have step: "WithdrawalSeq s + 1 \<noteq> 0" "unat (WithdrawalSeq s + 1) \<le> Suc n"
    using unat_step[of "WithdrawalSeq s" n] ok(2,3) by (simp_all add: seqs_below_def)
  have "seqs_below (Suc n) s'" using step(2) ok(2) fr(1,2,5) by (simp add: seqs_below_def same_deposits_def same_names_def)
  moreover have "bridge_ok codec valdec s'"
  proof (rule bridge_okI)
    show "withdrawal_inv s'" by (rule BridgeOut_inv[OF I(5) run step(1)])
    have "codec (bo_Sender msg) \<noteq> None" using a env by (simp add: bridge_env_ok_def account_codec_ok_def)
    then show "senders_ok codec s'"
      by (intro senders_set[OF I(10), of s' "WithdrawalSeq s" "newWithdrawal E msg (WithdrawalSeq s) amount net fee"])
        (simp_all add: s' newWithdrawal_def)
    show "books s'" by (rule BridgeOut_books[OF I(5,7) run])
    show "duty_queue_ok s'"
      by (rule duty_queue_grows[OF I(6)]) (use fr(1,4) in \<open>simp_all add: same_deposits_def s'\<close>)
  qed (rule deposits_same(1)[OF fr(1) I(1)] deposits_same(2)[OF fr(1) I(2)] name_inv_same[OF I(3) fr(2)]
      name_listed_same[OF I(4) fr(2)] uncredited_same[OF fr(2) I(8)] I(9)[folded fr(3)])+
  ultimately show ?thesis by blast
qed

lemma AttestWithdrawalPayout_ok:
  assumes ok: "bridge_ok codec valdec s" "seqs_below n s" and run: "AttestWithdrawalPayout E msg s = Inr s'"
  shows "bridge_ok codec valdec s' \<and> seqs_below (Suc n) s'"
proof -
  note I = bridge_okD[OF ok(1)] and eff = AttestWithdrawalPayout_effect[OF run]
  have fr: "same_deposits s s'" "same_names s s'" "b_Params s' = b_Params s" "WithdrawalSeq s' = WithdrawalSeq s"
    using eff by blast+
  have rows: "rows_ok w_Id (\<lambda>w. wstat (w_Status w)) (WithdrawalSeq s) (Withdrawal s) (WithdrawalByStatus s)"
    using I(5) by (simp add: withdrawal_inv_def)
  have q: "(kv_get (Withdrawal s) i \<noteq> None \<longrightarrow> kv_get (Withdrawal s') i \<noteq> None) \<and> (BridgeDutyQueue s' = BridgeDutyQueue s \<or>
      (\<exists>i. BridgeDutyQueue s' = ks_set (bridgeDutyKindWithdrawal, i) (BridgeDutyQueue s) \<and> kv_get (Withdrawal s') i \<noteq> None))" for i
    using eff rows_ok_get(1)[OF rows] by (auto simp: same_withdrawals_def)
  have "seqs_below (Suc n) s'" using ok(2) fr(1,2,4) by (simp add: seqs_below_def same_deposits_def same_names_def)
  moreover have "bridge_ok codec valdec s'"
  proof (rule bridge_okI)
    show "withdrawal_inv s'" by (rule AttestWithdrawalPayout_inv[OF I(5) run])
    show "senders_ok codec s'" using eff I(10) by (auto simp: same_withdrawals_def senders_ok_def split: if_splits)
    show "books s'" by (rule AttestWithdrawalPayout_books[OF I(5,7) run])
    show "duty_queue_ok s'"
      by (rule duty_queue_grows[OF I(6)]) (use fr(1) q in \<open>auto simp: same_deposits_def\<close>)
  qed (rule deposits_same(1)[OF fr(1) I(1)] deposits_same(2)[OF fr(1) I(2)] name_inv_same[OF I(3) fr(2)]
      name_listed_same[OF I(4) fr(2)] uncredited_same[OF fr(2) I(8)] I(9)[folded fr(3)])+
  ultimately show ?thesis by blast
qed

section \<open>The block hooks keep the invariant\<close>

definition pending_deposit :: "u64 \<Rightarrow> 'b bridge_state \<Rightarrow> bool" where
  "pending_deposit i s \<longleftrightarrow> (\<exists>d. kv_get (Deposit s) i = Some d \<and> d_Status d = DEPOSIT_STATUS_PENDING)"

definition open_name :: "u64 \<Rightarrow> 'b bridge_state \<Rightarrow> bool" where
  "open_name i s \<longleftrightarrow> (\<exists>r. kv_get (NameRegistration s) i = Some r \<and> open_registration r)"

definition requested :: "u64 \<Rightarrow> 'b bridge_state \<Rightarrow> bool" where
  "requested i s \<longleftrightarrow> (\<exists>w. kv_get (Withdrawal s) i = Some w \<and> w_Status w = WITHDRAWAL_STATUS_REQUESTED)"

lemma sweep_keeps:
  assumes run: "rfold f ids s = Inr t" and dist: "distinct ids" and start: "Q s" "\<And>i. i \<in> set ids \<Longrightarrow> ready i s"
    and step: "\<And>i s t. Q s \<Longrightarrow> ready i s \<Longrightarrow> f i s = Inr t \<Longrightarrow> Q t \<and> (\<forall>j. j \<noteq> i \<longrightarrow> ready j s \<longrightarrow> ready j t)"
  shows "Q t"
proof -
  have "Q t \<and> (\<forall>i \<in> {}. ready i t)"
  proof (rule rfold_distinct_invariant[where P = "\<lambda>s A. Q s \<and> (\<forall>i \<in> A. ready i s)", OF run dist])
    show "Q s \<and> (\<forall>i \<in> set ids. ready i s)" using start by blast
    show "Q t \<and> (\<forall>i \<in> A - {x}. ready i t)" if "x \<in> A" "Q s \<and> (\<forall>i \<in> A. ready i s)" "f x s = Inr t" for x s t A
      using step[of s x t] that by blast
  qed
  then show ?thesis ..
qed

lemma expireDeposit_ok:
  assumes ok: "bridge_ok codec valdec s \<and> seqs_below n s" and E: "ValAddressFromBech32 E = valdec"
    and rec: "pending_deposit i s" and run: "expireDeposit E i s = Inr s'"
  shows "(bridge_ok codec valdec s' \<and> seqs_below n s') \<and> (\<forall>j. j \<noteq> i \<longrightarrow> pending_deposit j s \<longrightarrow> pending_deposit j s')"
proof -
  note I = bridge_okD[OF conjunct1[OF ok]]
  obtain d where d: "kv_get (Deposit s) i = Some d" "d_Status d = DEPOSIT_STATUS_PENDING"
    using rec by (auto simp: pending_deposit_def)
  have L: "deposit_listed (ValAddressFromBech32 E) s" using I(2) E by simp
  note e = expireDeposit_effect[OF I(1) L d run]
  from e(6) obtain D T C F B ev where s': "s' = s\<lparr>Deposit := D, DepositByTxid := T, DepositConfirmedBy := C,
       DepositFactsVote := F, DepositByStatus := B, b_events := ev\<rparr>" by blast
  have fr: "same_withdrawals s s'" "same_names s s'" "b_Params s' = b_Params s" "BridgeDutyQueue s' = BridgeDutyQueue s"
    "DepositSeq s' = DepositSeq s"
    by (simp_all add: s' same_withdrawals_def same_names_def)
  have "bridge_ok codec valdec s'"
  proof (rule bridge_okI)
    show "deposit_listed valdec s'" using e(2) E by simp
    show "books s'" by (rule expireDeposit_books[OF I(1) L d I(7) run])
    show "duty_queue_ok s'"
      by (rule duty_queue_grows[OF I(6)]) (use fr(1,4) in \<open>simp_all add: e(3) same_withdrawals_def\<close>)
  qed (rule e(1) name_inv_same[OF I(3) fr(2)] name_listed_same[OF I(4) fr(2)] withdrawal_inv_same[OF I(5) fr(1)]
      uncredited_same[OF fr(2) I(8)] I(9)[folded fr(3)] senders_same[OF fr(1) I(10)])+
  moreover have "seqs_below n s'" using ok fr(1,2,5) by (simp add: seqs_below_def same_withdrawals_def same_names_def)
  ultimately show ?thesis by (auto simp: pending_deposit_def e(3))
qed

lemma expireRegistration_ok:
  assumes ok: "bridge_ok codec valdec s \<and> seqs_below n s" and E: "bridge_env_ok codec valdec E"
    and rec: "open_name i s" and run: "expireRegistration E i s = Inr s'"
  shows "(bridge_ok codec valdec s' \<and> seqs_below n s') \<and> (\<forall>j. j \<noteq> i \<longrightarrow> open_name j s \<longrightarrow> open_name j s')"
proof -
  note I = bridge_okD[OF conjunct1[OF ok]]
  obtain r where r: "kv_get (NameRegistration s) i = Some r" "open_registration r" using rec by (auto simp: open_name_def)
  have codec: "ValAddressFromBech32 E = valdec" "StringToBytes E = codec"
    using E by (simp_all add: bridge_env_ok_def account_codec_ok_def)
  have L: "name_listed codec (ValAddressFromBech32 E) s" using I(4) codec(1) by simp
  note e = expireRegistration_effect[OF I(3) L codec(2) r run]
  have "bridge_ok codec valdec s'"
  proof (rule bridge_okI)
    show "name_listed codec valdec s'" using e(2) codec(1) by simp
    show "books s'" "uncredited_ok s'" by (rule expireRegistration_books[OF I(3) L codec(2) r I(7,8) run])+
    show "duty_queue_ok s'"
      by (rule duty_queue_grows[OF I(6)]) (use e(6,7,11) in \<open>simp_all add: same_deposits_def same_withdrawals_def\<close>)
  qed (rule e(1) deposits_same(1)[OF e(6) I(1)] deposits_same(2)[OF e(6) I(2)] withdrawal_inv_same[OF I(5) e(7)]
      I(9)[folded e(10)] senders_same[OF e(7) I(10)])+
  moreover have "seqs_below n s'" using ok e(6,7,12) by (simp add: seqs_below_def same_withdrawals_def same_deposits_def)
  ultimately show ?thesis by (auto simp: open_name_def e(3))
qed

lemma refundWithdrawal_ok:
  assumes ok: "bridge_ok codec valdec s \<and> seqs_below n s"
    and rec: "requested i s" and run: "refundWithdrawal E bk i s = Inr s'"
  shows "(bridge_ok codec valdec s' \<and> seqs_below n s') \<and> (\<forall>j. j \<noteq> i \<longrightarrow> requested j s \<longrightarrow> requested j s')"
proof -
  note I = bridge_okD[OF conjunct1[OF ok]]
  obtain w where w: "kv_get (Withdrawal s) i = Some w" "w_Status w = WITHDRAWAL_STATUS_REQUESTED"
    using rec by (auto simp: requested_def)
  note e = refundWithdrawal_effect[OF I(5) w run]
  from e(3) obtain b t B W ev where s': "s' = s\<lparr>bank := b, Totals := t, WithdrawalByStatus := B, Withdrawal := W, b_events := ev\<rparr>"
    by blast
  have fr: "same_deposits s s'" "same_names s s'" "b_Params s' = b_Params s" "BridgeDutyQueue s' = BridgeDutyQueue s"
    "WithdrawalSeq s' = WithdrawalSeq s"
    by (simp_all add: s' same_deposits_def same_names_def)
  have "bridge_ok codec valdec s'"
  proof (rule bridge_okI)
    show "books s'" by (rule refundWithdrawal_books[OF I(5) w I(7) run])
    show "senders_ok codec s'"
      by (rule senders_set[OF I(10) e(2)]) (use I(10) w(1) in \<open>auto simp: senders_ok_def refunded_def\<close>)
    show "duty_queue_ok s'"
      by (rule duty_queue_grows[OF I(6)]) (use fr(1,4) in \<open>simp_all add: e(2) same_deposits_def\<close>)
  qed (rule e(1) deposits_same(1)[OF fr(1) I(1)] deposits_same(2)[OF fr(1) I(2)] name_inv_same[OF I(3) fr(2)]
      name_listed_same[OF I(4) fr(2)] uncredited_same[OF fr(2) I(8)] I(9)[folded fr(3)])+
  moreover have "seqs_below n s'" using ok fr(1,2,5) by (simp add: seqs_below_def same_deposits_def same_names_def)
  ultimately show ?thesis by (auto simp: requested_def e(2))
qed

lemma bridge_ok_bank [simp]: "bridge_ok codec valdec (s\<lparr>bank := b\<rparr>) = bridge_ok codec valdec s"
  by (simp add: bridge_ok_def deposit_inv_def deposit_listed_def name_inv_def name_listed_def withdrawal_inv_def
      duty_queue_ok_def books_def booked_def withdrawn_def received_def uncredited_ok_def senders_ok_def)

lemma bridge_ok_flushed: "bridge_ok codec valdec s \<Longrightarrow> bridge_ok codec valdec (s\<lparr>BridgeDutyQueue := []\<rparr>)"
  by (simp add: bridge_ok_def deposit_inv_def deposit_listed_def name_inv_def name_listed_def withdrawal_inv_def
      duty_queue_ok_def books_def booked_def withdrawn_def received_def uncredited_ok_def senders_ok_def ks_wf_def ks_has_def)

lemma FlushBridgeDuty_state: "FlushBridgeDuty E (s, ok) = Inr (s', ok') \<Longrightarrow> s' = s\<lparr>BridgeDutyQueue := []\<rparr>"
  by (auto simp: FlushBridgeDuty_def rbind_eq_Inr)

lemma bridge_EndBlock_Inr:
  assumes "bridge_EndBlock E bk (s, ok) = Inr (s', ok')"
  obtains s2 s3 s4 b where "FlushBridgeDuty E (s, ok) = Inr (s\<lparr>BridgeDutyQueue := []\<rparr>, ok')"
    "ExpireDeposits E (s\<lparr>BridgeDutyQueue := []\<rparr>) = Inr s2" "ExpireNameRegistrations E s2 = Inr s3"
    "RefundExpiredWithdrawals E bk s3 = Inr s4" "SweepBlackHole E bk (bank s4) = Inr b" "s' = s4\<lparr>bank := b\<rparr>"
proof -
  from assms obtain s1 s2 s3 s4 b where r: "FlushBridgeDuty E (s, ok) = Inr (s1, ok')" "ExpireDeposits E s1 = Inr s2"
    "ExpireNameRegistrations E s2 = Inr s3" "RefundExpiredWithdrawals E bk s3 = Inr s4"
    "SweepBlackHole E bk (bank s4) = Inr b" "s' = s4\<lparr>bank := b\<rparr>"
    by (auto simp: bridge_EndBlock_def rbind_eq_Inr)
  from that[OF r(1,2)[unfolded FlushBridgeDuty_state[OF r(1)]] r(3-6)] show ?thesis .
qed

lemma ExpireDeposits_ok:
  assumes ok: "bridge_ok codec valdec s \<and> seqs_below n s" and env: "bridge_env_ok codec valdec E"
    and run: "ExpireDeposits E s = Inr s'"
  shows "bridge_ok codec valdec s' \<and> seqs_below n s'"
proof -
  note I = bridge_okD[OF conjunct1[OF ok]]
  from I(9) obtain p where p: "b_Params s = Some p" by blast
  note folds = ExpireDeposits_folds[OF I(1) p, where E = E]
  have dec: "ValAddressFromBech32 E = valdec" using env by (simp add: bridge_env_ok_def)
  show ?thesis
  proof (rule sweep_keeps[where Q = "\<lambda>s. bridge_ok codec valdec s \<and> seqs_below n s" and f = "expireDeposit E" and ready = pending_deposit, OF _ folds(2) ok])
    show "rfold (expireDeposit E) (due_deposits E p s) s = Inr s'" using run folds(1) by simp
    show "pending_deposit i s" if "i \<in> set (due_deposits E p s)" for i using folds(3)[OF that] by (simp add: pending_deposit_def)
  qed (rule expireDeposit_ok[OF _ dec])
qed

lemma ExpireNameRegistrations_ok:
  assumes ok: "bridge_ok codec valdec s \<and> seqs_below n s" and env: "bridge_env_ok codec valdec E"
    and run: "ExpireNameRegistrations E s = Inr s'"
  shows "bridge_ok codec valdec s' \<and> seqs_below n s'"
proof -
  note I = bridge_okD[OF conjunct1[OF ok]]
  from I(9) obtain p where p: "b_Params s = Some p" by blast
  show ?thesis
  proof (rule sweep_keeps[where Q = "\<lambda>s. bridge_ok codec valdec s \<and> seqs_below n s" and f = "expireRegistration E" and ready = open_name, OF _ distinct_due_registrations[OF I(3)] ok])
    show "rfold (expireRegistration E) (due_registrations E p s) s = Inr s'"
      using run ExpireNameRegistrations_folds[OF I(3) p] by simp
    show "open_name i s" if "i \<in> set (due_registrations E p s)" for i
      using due_registrations_open[OF I(3) that] by (auto simp: open_name_def)
  qed (rule expireRegistration_ok[OF _ env])
qed

lemma RefundExpiredWithdrawals_ok:
  assumes ok: "bridge_ok codec valdec s \<and> seqs_below n s" and run: "RefundExpiredWithdrawals E bk s = Inr s'"
  shows "bridge_ok codec valdec s' \<and> seqs_below n s'"
proof -
  note I = bridge_okD[OF conjunct1[OF ok]]
  from I(9) obtain p where p: "b_Params s = Some p" by blast
  note folds = RefundExpiredWithdrawals_folds[OF I(5) p, where E = E]
  show ?thesis
  proof (rule sweep_keeps[where Q = "\<lambda>s. bridge_ok codec valdec s \<and> seqs_below n s" and f = "refundWithdrawal E bk" and ready = requested, OF _ folds(2) ok])
    show "rfold (refundWithdrawal E bk) (due_withdrawals E p s) s = Inr s'" using run folds(1) by simp
    show "requested i s" if "i \<in> set (due_withdrawals E p s)" for i
      using due_withdrawals_requested[OF I(5) that] by (auto simp: requested_def)
  qed (rule refundWithdrawal_ok)
qed

lemma seqs_below_simps [simp]:
  "seqs_below n (s\<lparr>bank := b\<rparr>) = seqs_below n s" "seqs_below n (s\<lparr>BridgeDutyQueue := q\<rparr>) = seqs_below n s"
  by (simp_all add: seqs_below_def)

lemma bridge_EndBlock_ok:
  assumes env: "bridge_env_ok codec valdec E" and ok: "bridge_ok codec valdec s" "seqs_below n s"
    and run: "bridge_EndBlock E bk (s, ok) = Inr (s', ok')"
  shows "bridge_ok codec valdec s' \<and> seqs_below n s'"
proof -
  obtain s2 s3 s4 b where r: "ExpireDeposits E (s\<lparr>BridgeDutyQueue := []\<rparr>) = Inr s2" "ExpireNameRegistrations E s2 = Inr s3"
    "RefundExpiredWithdrawals E bk s3 = Inr s4" "s' = s4\<lparr>bank := b\<rparr>"
    by (rule bridge_EndBlock_Inr[OF run])
  have "bridge_ok codec valdec (s\<lparr>BridgeDutyQueue := []\<rparr>) \<and> seqs_below n (s\<lparr>BridgeDutyQueue := []\<rparr>)"
    using bridge_ok_flushed[OF ok(1)] ok(2) by simp
  from RefundExpiredWithdrawals_ok[OF ExpireNameRegistrations_ok[OF ExpireDeposits_ok[OF this env r(1)] env r(2)] r(3)]
  show ?thesis by (simp add: r(4))
qed

lemma bridge_UpdateParams_ok:
  assumes ok: "bridge_ok codec valdec s" "seqs_below n s" and run: "bridge_UpdateParams E auth a p s = Inr s'"
  shows "bridge_ok codec valdec s' \<and> seqs_below n s'"
proof -
  have s': "bridge_Validate p = Inr ()" "s' = emit BridgeParametersUpdated (s\<lparr>b_Params := Some p\<rparr>)"
    using run by (auto simp: bridge_UpdateParams_def rbind_eq_Inr)
  then show ?thesis
    using ok by (simp add: bridge_ok_def deposit_inv_def deposit_listed_def name_inv_def name_listed_def withdrawal_inv_def
      duty_queue_ok_def books_def booked_def withdrawn_def received_def uncredited_ok_def senders_ok_def seqs_below_def)
qed

lemma seqs_below_Suc: "seqs_below n s \<Longrightarrow> seqs_below (Suc n) s"
  by (auto simp: seqs_below_def)

lemma bridge_exec_ok:
  assumes "bridge_env_ok codec valdec E" "bridge_ok codec valdec (fst c)" "seqs_below n (fst c)" "Suc n < 2 ^ 64"
    and "bridge_exec E bk oper c = Inr c'"
  shows "bridge_ok codec valdec (fst c') \<and> seqs_below (Suc n) (fst c')"
proof -
  obtain s ok s' ok' where c: "c = (s, ok)" "c' = (s', ok')" by (cases c, cases c')
  note a = assms(2,3)[unfolded c fst_conv]
  have "bridge_ok codec valdec s' \<and> seqs_below (Suc n) s'"
  proof (cases oper)
    case (OpAttestDeposit m)
    with AttestDeposit_ok[OF assms(1) a assms(4)] assms(5) show ?thesis by (auto simp: c rbind_eq_Inr)
  next
    case (OpSubmitName m)
    with SubmitNameRegistration_ok[OF assms(1) a assms(4)] assms(5) show ?thesis by (auto simp: c rbind_eq_Inr)
  next
    case (OpConfirmName m)
    with ConfirmName_ok[OF assms(1) a] assms(5) show ?thesis by (auto simp: c rbind_eq_Inr)
  next
    case (OpBridgeOut m)
    with BridgeOut_ok[OF assms(1) a assms(4)] assms(5) show ?thesis by (auto simp: c rbind_eq_Inr)
  next
    case (OpAttestPayout m)
    with AttestWithdrawalPayout_ok[OF a] assms(5) show ?thesis by (auto simp: c rbind_eq_Inr)
  next
    case (OpUpdateParams k m p)
    with bridge_UpdateParams_ok[OF a] assms(5) seqs_below_Suc show ?thesis by (fastforce simp: c rbind_eq_Inr)
  next
    case OpBeginBlock
    with a assms(5) seqs_below_Suc show ?thesis by (auto simp: c rbind_eq_Inr bridge_BeginBlock_def)
  next
    case OpEndBlock
    with bridge_EndBlock_ok[OF assms(1) a, of bk ok s' ok'] assms(5) seqs_below_Suc[of n s'] show ?thesis by (simp add: c)
  next
    case (OpOtherModules b k)
    with a assms(5) seqs_below_Suc show ?thesis by (auto simp: c)
  qed
  then show ?thesis by (simp add: c)
qed

lemma start_bridge_ok:
  assumes "bridge_Validate p = Inr ()"
  shows "bridge_ok codec valdec (start_bridge p b) \<and> seqs_below 0 (start_bridge p b)"
proof -
  have "outstanding A zero_totals = (0, 0)" for A by (simp add: outstanding_def zero_totals_def)
  then have "books (start_bridge p b)" by (simp add: books_def booked_def withdrawn_def received_def)
  with assms show ?thesis
    by (simp add: bridge_ok_def deposit_inv_def deposit_listed_def confirmed_listed_def confs_decode_def start_name_inv
        name_listed_def withdrawal_inv_def rows_ok_def payout_votes_ok_def duty_queue_ok_def uncredited_ok_def senders_ok_def seqs_below_def ks_wf_def ks_has_def)
qed

text \<open>Rule induction over the reachable states.\<close>

lemma reachable_ok:
  assumes "bridge_reaches bk (bridge_env_ok codec valdec) n c" "n < 2 ^ 64"
  shows "bridge_ok codec valdec (fst c) \<and> seqs_below n (fst c)"
  using assms
proof (induction rule: bridge_reaches.induct)
  case (start p b ok)
  then show ?case using start_bridge_ok by simp
next
  case (step n c E oper c')
  with bridge_exec_ok[of codec valdec E c n bk oper c'] show ?case by simp
qed


section \<open>Solvency\<close>

text \<open>What the bridge has paid out on Steem or still owes there.\<close>

definition liability_value :: "bridge_asset \<Rightarrow> withdrawal \<Rightarrow> int" where
  "liability_value A w = (if w_Status w = WITHDRAWAL_STATUS_REFUNDED then 0 else withdrawn_value A w)"

definition liabilities :: "bridge_asset \<Rightarrow> 'b bridge_state \<Rightarrow> int" where
  "liabilities A s = kv_sum (liability_value A) (Withdrawal s)"

lemma withdrawn_splits: "withdrawn A s = liabilities A s + kv_sum (refunded_value A) (Withdrawal s)"
  unfolding withdrawn_def liabilities_def kv_sum_add
  by (rule arg_cong[where f = "\<lambda>f. kv_sum f (Withdrawal s)"]) (auto simp: liability_value_def refunded_value_def)

lemma books_solvent:
  assumes "books s"
  shows "liabilities A s \<le> received A s"
proof -
  have "withdrawn A s \<le> booked A s" using assms by (auto simp: books_def)
  then show ?thesis by (simp add: withdrawn_splits booked_def)
qed


text \<open>
  C2: The running totals are a faithful summary of the records. In every reachable state, for each asset,
  the minted total is what was received from Steem plus what was refunded, the burned total is the value
  of all withdrawals ever requested, and the first is never less than the second.
\<close>

theorem totals_summarise_the_records:
  assumes "bridge_reaches bk (bridge_env_ok codec valdec) n (s, ok)" "n < 2 ^ 64"
  shows "\<exists>t. Totals s = Some t \<and>
    outstanding A t = (received A s + kv_sum (refunded_value A) (Withdrawal s), kv_sum (withdrawn_value A) (Withdrawal s)) \<and>
    snd (outstanding A t) \<le> fst (outstanding A t)"
proof -
  have "books s" using reachable_ok[OF assms] by (auto dest: bridge_okD(7))
  then show ?thesis by (auto simp: books_def booked_def withdrawn_def)
qed

text \<open>
  C3: No Steem transfer is minted twice as a deposit: in every reachable state two minted deposit records
  with the same transaction and operation are one record, and more generally at most one live (not
  expired) deposit record and at most one live registration record exists for each transfer.
\<close>

theorem one_live_record_per_transfer:
  assumes "bridge_reaches bk (bridge_env_ok codec valdec) n (s, ok)" "n < 2 ^ 64"
  shows "(\<forall>i j d e. kv_get (Deposit s) i = Some d \<longrightarrow> kv_get (Deposit s) j = Some e \<longrightarrow>
      d_Txid d = d_Txid e \<longrightarrow> d_OpIndex d = d_OpIndex e \<longrightarrow>
      d_Status d \<noteq> DEPOSIT_STATUS_EXPIRED \<longrightarrow> d_Status e \<noteq> DEPOSIT_STATUS_EXPIRED \<longrightarrow> i = j) \<and>
    (\<forall>i j q r. kv_get (NameRegistration s) i = Some q \<longrightarrow> kv_get (NameRegistration s) j = Some r \<longrightarrow>
      n_Txid q = n_Txid r \<longrightarrow> n_OpIndex q = n_OpIndex r \<longrightarrow>
      n_Status q \<noteq> NAME_REGISTRATION_STATUS_EXPIRED \<longrightarrow> n_Status r \<noteq> NAME_REGISTRATION_STATUS_EXPIRED \<longrightarrow> i = j)"
proof -
  have inv: "deposit_inv s" "name_inv codec s" using reachable_ok[OF assms] by (auto dest: bridge_okD)
  have "table_ok d_Id (\<lambda>d. (d_Txid d, d_OpIndex d)) (\<lambda>d. dstat (d_Status d)) (\<lambda>d. d_Status d = DEPOSIT_STATUS_EXPIRED)
       (DepositSeq s) (Deposit s) (DepositByTxid s) (DepositByStatus s)"
    using inv(1) by (simp add: deposit_inv_def)
  from table_ok_unique[OF this] table_ok_unique[OF name_invD(1)[OF inv(2)]] show ?thesis by simp
qed

section \<open>A concrete run\<close>

text \<open>A deposit of ten STEEM by a validator with a quorum, then a bridge-out of one.\<close>

definition strict_codec :: "string \<Rightarrow> bytes option" where
  "strict_codec x = (if x = '''' then None else Some x)"

definition strict_env :: env where
  "strict_env = demo_bridge_env\<lparr>StringToBytes := strict_codec, BytesToString := strict_codec\<rparr>"

lemma strict_env_simps [simp]:
  "StringToBytes strict_env = strict_codec" "BytesToString strict_env = strict_codec"
  "GetValidator strict_env a = map_option (plain_validator a) (map_of [(''v1'', 3), (''v2'', 1)] a)"
  "TotalValidatorPower strict_env = Some 4" "DecQuo strict_env = half_even_quo"
  "ValAddressString strict_env a = a" "BlockHeight strict_env = 10" "ValAddressFromBech32 strict_env = Some"
  by (simp_all add: strict_env_def demo_bridge_env_def plain_env_def)

lemma strict_destination [simp]: "DeriveDestination strict_env ''bob'' = Some (''bob'', DESTINATION_TYPE_COSMOS)"
  using demo_destination by (simp add: DeriveDestination_def strict_env_def demo_bridge_env_def plain_env_def)

lemma strict_env_ok: "bridge_env_ok strict_codec Some strict_env"
  by (auto simp: bridge_env_ok_def account_codec_ok_def strict_codec_def val_codec_ok_def split: if_splits)

lemma demo_params_valid: "bridge_Validate demo_params = Inr ()"
  using bridge_default_valid by (simp add: bridge_Validate_def demo_params_def bridge_DefaultParams_def rbind_eq_Inr)

lemma demo_strict_deposit:
  "\<exists>s. AttestDeposit strict_env fakeBank (demo_deposit ''v1'') (start_bridge demo_params empty_ledger) = Inr s \<and>
     bank s = demo_ledger \<and> Totals s = Some (add_minted BRIDGE_ASSET_STEEM 10000000000000000000 zero_totals) \<and>
     b_Params s = Some demo_params \<and> kv_get (Deposit s) 0 \<noteq> None"
  by (simp add: demo_attest_simps strict_codec_def kv_get_Cons)

lemma demo_strict_out:
  assumes "bank s = demo_ledger" "Totals s = Some (add_minted BRIDGE_ASSET_STEEM 10000000000000000000 zero_totals)"
    "b_Params s = Some demo_params"
  shows "\<exists>s'. BridgeOut strict_env fakeBank demo_out s = Inr s'"
  using assms by (simp add: strict_codec_def demo_out_simps)

lemma BridgeOut_records:
  assumes "BridgeOut E bk msg s = Inr s'"
  shows "kv_get (Withdrawal s') (WithdrawalSeq s) \<noteq> None" "Deposit s' = Deposit s"
proof -
  obtain amount net fee b t where s': "s' = openWithdrawal E msg amount net fee (s\<lparr>bank := b, Totals := t\<rparr>)"
    by (rule BridgeOut_Inr[OF assms])
  then show "kv_get (Withdrawal s') (WithdrawalSeq s) \<noteq> None" "Deposit s' = Deposit s"
    by (simp, simp add: openWithdrawal_def Let_def)
qed

lemma demo_reaches:
  "\<exists>s i. bridge_reaches fakeBank (bridge_env_ok strict_codec Some) 2 (s, None) \<and>
     kv_get (Deposit s) 0 \<noteq> None \<and> kv_get (Withdrawal s) i \<noteq> None"
proof -
  let ?R = "bridge_reaches fakeBank (bridge_env_ok strict_codec Some)"
  obtain s1 where r1: "AttestDeposit strict_env fakeBank (demo_deposit ''v1'') (start_bridge demo_params empty_ledger) = Inr s1"
    "bank s1 = demo_ledger" "Totals s1 = Some (add_minted BRIDGE_ASSET_STEEM 10000000000000000000 zero_totals)"
    "b_Params s1 = Some demo_params" "kv_get (Deposit s1) 0 \<noteq> None"
    using demo_strict_deposit by blast
  obtain s2 where r2: "BridgeOut strict_env fakeBank demo_out s1 = Inr s2" using demo_strict_out[OF r1(2-4)] by blast
  have "?R 0 (start_bridge demo_params empty_ledger, None)" by (rule bridge_reaches.start[OF demo_params_valid])
  then have "?R (Suc 0) (s1, None)"
    by (rule bridge_reaches.step[where good = "bridge_env_ok strict_codec Some", OF _ strict_env_ok, where oper = "OpAttestDeposit (demo_deposit ''v1'')"]) (simp add: r1(1))
  then have "?R (Suc (Suc 0)) (s2, None)"
    by (rule bridge_reaches.step[where good = "bridge_env_ok strict_codec Some", OF _ strict_env_ok, where oper = "OpBridgeOut demo_out"]) (simp add: r2)
  with r1(5) BridgeOut_records[OF r2] show ?thesis
    by (intro exI[where x = s2] exI[where x = "WithdrawalSeq s1"]) (simp add: numeral_2_eq_2)
qed



lemma totals_summarise_the_records_witness:
  "\<exists>s t. bridge_reaches fakeBank (bridge_env_ok strict_codec Some) 2 (s, None) \<and> Totals s = Some t \<and>
     snd (outstanding BRIDGE_ASSET_STEEM t) \<le> fst (outstanding BRIDGE_ASSET_STEEM t)"
proof -
  obtain s i where s: "bridge_reaches fakeBank (bridge_env_ok strict_codec Some) 2 (s, None)" "kv_get (Withdrawal s) i \<noteq> None"
    using demo_reaches by blast
  from totals_summarise_the_records[OF s(1), of BRIDGE_ASSET_STEEM] s(1) show ?thesis by auto
qed

lemma one_live_record_per_transfer_witness:
  "\<exists>s. bridge_reaches fakeBank (bridge_env_ok strict_codec Some) 2 (s, None) \<and> kv_get (Deposit s) 0 \<noteq> None \<and>
     (\<forall>i j d e. kv_get (Deposit s) i = Some d \<and> kv_get (Deposit s) j = Some e \<and>
      d_Txid d = d_Txid e \<and> d_OpIndex d = d_OpIndex e \<and>
      d_Status d \<noteq> DEPOSIT_STATUS_EXPIRED \<and> d_Status e \<noteq> DEPOSIT_STATUS_EXPIRED \<longrightarrow> i = j)"
proof -
  obtain s i where s: "bridge_reaches fakeBank (bridge_env_ok strict_codec Some) 2 (s, None)" "kv_get (Deposit s) 0 \<noteq> None"
    using demo_reaches by blast
  from conjunct1[OF one_live_record_per_transfer[OF s(1)]] s show ?thesis by (intro exI[where x = s]) simp
qed

end
