(* ===== verification/Bridge_Finality.thy ===== *)
theory Bridge_Finality
  imports Bridge_Machine
begin

text \<open>
  What no step of the bridge can undo, and what no step can get stuck on: settled records stay settled,
  and the end-of-block hook of \<open>module/module.go\<close> always runs to its end as long as the bank and the
  staking keeper do.
\<close>

section \<open>Settled records\<close>

definition settled_deposits :: "'b bridge_state \<Rightarrow> 'b bridge_state \<Rightarrow> bool" where
  "settled_deposits s s' \<longleftrightarrow> (\<forall>i d. kv_get (Deposit s) i = Some d \<longrightarrow> d_Status d \<noteq> DEPOSIT_STATUS_PENDING \<longrightarrow>
     (\<exists>c. kv_get (Deposit s') i = Some (d\<lparr>d_ValidatorConfirmations := c\<rparr>)))"

text \<open>What a withdrawal promises: who asked, who is to be paid on Steem, how much of what, and with which memo.\<close>

definition terms :: "withdrawal \<Rightarrow> string \<times> string \<times> u64 \<times> bridge_asset \<times> string" where
  "terms w = (w_Sender w, w_DestinationSteemAccount w, w_AmountMillisteem w, w_Asset w, w_Memo w)"

definition settled_withdrawals :: "'b bridge_state \<Rightarrow> 'b bridge_state \<Rightarrow> bool" where
  "settled_withdrawals s s' \<longleftrightarrow> (\<forall>i w. kv_get (Withdrawal s) i = Some w \<longrightarrow>
     (\<exists>w'. kv_get (Withdrawal s') i = Some w' \<and> terms w' = terms w \<and> (w_Status w \<noteq> WITHDRAWAL_STATUS_REQUESTED \<longrightarrow> w' = w)))"

definition closed_registration :: "name_registration \<Rightarrow> bool" where
  "closed_registration r \<longleftrightarrow> n_Status r \<in> {NAME_REGISTRATION_STATUS_UNCLAIMABLE, NAME_REGISTRATION_STATUS_SUPERSEDED,
     NAME_REGISTRATION_STATUS_EXPIRED}"

definition settled_names :: "'b bridge_state \<Rightarrow> 'b bridge_state \<Rightarrow> bool" where
  "settled_names s s' \<longleftrightarrow> (\<forall>i r. kv_get (NameRegistration s) i = Some r \<longrightarrow> closed_registration r \<longrightarrow>
     kv_get (NameRegistration s') i = Some r)"

definition settled :: "'b bridge_state \<Rightarrow> 'b bridge_state \<Rightarrow> bool" where
  "settled s s' \<longleftrightarrow> settled_deposits s s' \<and> settled_withdrawals s s' \<and> settled_names s s'"

lemma settled_names_same: "same_names s s' \<Longrightarrow> settled_names s s'"
  by (simp add: settled_names_def same_names_def)

lemma settled_withdrawals_same: "same_withdrawals s s' \<Longrightarrow> settled_withdrawals s s'"
  by (simp add: settled_withdrawals_def same_withdrawals_def)

lemma settled_deposits_same:
  assumes "same_deposits s s'"
  shows "settled_deposits s s'"
  unfolding settled_deposits_def
proof (intro allI impI)
  fix i d assume "kv_get (Deposit s) i = Some d"
  then show "\<exists>c. kv_get (Deposit s') i = Some (d\<lparr>d_ValidatorConfirmations := c\<rparr>)"
    using assms by (intro exI[where x = "d_ValidatorConfirmations d"]) (simp add: same_deposits_def)
qed

lemma settled_same: "same_deposits s s' \<Longrightarrow> same_withdrawals s s' \<Longrightarrow> same_names s s' \<Longrightarrow> settled s s'"
  by (simp add: settled_def settled_deposits_same settled_withdrawals_same settled_names_same)

lemma settled_refl [simp]: "settled s s"
  by (rule settled_same) simp_all

lemma settled_withdrawals_trans:
  assumes "settled_withdrawals s t" "settled_withdrawals t u"
  shows "settled_withdrawals s u"
  unfolding settled_withdrawals_def
proof (intro allI impI)
  fix i w assume w: "kv_get (Withdrawal s) i = Some w"
  obtain w1 where w1: "kv_get (Withdrawal t) i = Some w1" "terms w1 = terms w"
    "w_Status w \<noteq> WITHDRAWAL_STATUS_REQUESTED \<longrightarrow> w1 = w"
    using assms(1) w unfolding settled_withdrawals_def by blast
  obtain w2 where w2: "kv_get (Withdrawal u) i = Some w2" "terms w2 = terms w1"
    "w_Status w1 \<noteq> WITHDRAWAL_STATUS_REQUESTED \<longrightarrow> w2 = w1"
    using assms(2) w1(1) unfolding settled_withdrawals_def by blast
  show "\<exists>w'. kv_get (Withdrawal u) i = Some w' \<and> terms w' = terms w \<and> (w_Status w \<noteq> WITHDRAWAL_STATUS_REQUESTED \<longrightarrow> w' = w)"
    by (rule exI[of _ w2]) (use w1 w2 in auto)
qed

lemma settled_trans:
  assumes "settled s t" "settled t u"
  shows "settled s u"
proof -
  have "\<exists>c. kv_get (Deposit u) i = Some (d\<lparr>d_ValidatorConfirmations := c\<rparr>)"
    if d: "kv_get (Deposit s) i = Some d" "d_Status d \<noteq> DEPOSIT_STATUS_PENDING" for i d
  proof -
    obtain c where c: "kv_get (Deposit t) i = Some (d\<lparr>d_ValidatorConfirmations := c\<rparr>)"
      using assms(1) d unfolding settled_def settled_deposits_def by blast
    have "d_Status (d\<lparr>d_ValidatorConfirmations := c\<rparr>) \<noteq> DEPOSIT_STATUS_PENDING" using d(2) by simp
    with assms(2) c obtain c' where "kv_get (Deposit u) i = Some (d\<lparr>d_ValidatorConfirmations := c\<rparr>\<lparr>d_ValidatorConfirmations := c'\<rparr>)"
      unfolding settled_def settled_deposits_def by blast
    then show ?thesis by auto
  qed
  then have "settled_deposits s u" by (simp add: settled_deposits_def)
  moreover have "settled_names s u" using assms by (simp add: settled_def settled_names_def)
  ultimately show ?thesis using assms settled_withdrawals_trans[of s t u] by (simp add: settled_def)
qed

text \<open>Writing one record that was not settled leaves the settled ones alone.\<close>

lemma settled_deposits_set:
  assumes "Deposit s' = kv_set i d (Deposit s)"
    and "\<And>q. kv_get (Deposit s) i = Some q \<Longrightarrow> d_Status q \<noteq> DEPOSIT_STATUS_PENDING \<Longrightarrow> \<exists>c. d = q\<lparr>d_ValidatorConfirmations := c\<rparr>"
  shows "settled_deposits s s'"
  unfolding settled_deposits_def
proof (intro allI impI)
  fix j q assume q: "kv_get (Deposit s) j = Some q" "d_Status q \<noteq> DEPOSIT_STATUS_PENDING"
  show "\<exists>c. kv_get (Deposit s') j = Some (q\<lparr>d_ValidatorConfirmations := c\<rparr>)"
  proof (cases "j = i")
    case True
    with q assms show ?thesis by auto
  next
    case False
    with q(1) show ?thesis by (intro exI[where x = "d_ValidatorConfirmations q"]) (simp add: assms(1))
  qed
qed

lemma settled_withdrawals_set:
  assumes "Withdrawal s' = kv_set i w (Withdrawal s)"
    and "\<And>q. kv_get (Withdrawal s) i = Some q \<Longrightarrow> w_Status q = WITHDRAWAL_STATUS_REQUESTED \<and> terms w = terms q"
  shows "settled_withdrawals s s'"
  using assms unfolding settled_withdrawals_def by auto

lemma settled_names_set:
  assumes "NameRegistration s' = kv_set i r (NameRegistration s)"
    and "\<And>q. kv_get (NameRegistration s) i = Some q \<Longrightarrow> \<not> closed_registration q"
  shows "settled_names s s'"
  using assms unfolding settled_names_def by auto

section \<open>Every step keeps settled records\<close>

lemma AttestDeposit_settled:
  assumes inv: "deposit_inv s" and run: "AttestDeposit E bk msg s = Inr s'"
  shows "settled s s'"
proof (cases "s' = s")
  case False
  have tab: "table_ok d_Id (\<lambda>d. (d_Txid d, d_OpIndex d)) (\<lambda>d. dstat (d_Status d)) (\<lambda>d. d_Status d = DEPOSIT_STATUS_EXPIRED)
       (DepositSeq s) (Deposit s) (DepositByTxid s) (DepositByStatus s)"
    using inv by (simp add: deposit_inv_def)
  have fr: "same_withdrawals s s'" "same_names s s'"
    by (rule AttestDeposit_effect[OF run False], assumption)+
  have opened: "q = d0" if "openDeposit E msg s = Inr (d0, i, s1)" "kv_get (Deposit s) i = Some q" for d0 i s1 q
    using that(1) by (cases rule: openDeposit_cases) (use that(2) table_ok_get(2)[OF tab that(2)] in auto)
  have frame: "Deposit s1 = Deposit s" if "openDeposit E msg s = Inr (d0, i, s1)" for d0 i s1
    using that by (cases rule: openDeposit_cases) simp_all
  from run have "settled_deposits s s'"
  proof (cases rule: AttestDeposit_Inr)
    case (recorded p a d0 i s1 ratio)
    show ?thesis
      by (rule settled_deposits_set[where i = i and d = "addConfirmation E a d0"])
        (use opened[OF recorded(5)] frame[OF recorded(5)] in \<open>auto simp: recorded(6) addConfirmation_def\<close>)
  next
    case (resolved p a d0 i s1 ratio t d2 s4)
    obtain b u B ev where "s4 = (emit (DepositConfirmed i (ValAddressString E a) ratio) (recordDepositVote E msg a s1))
        \<lparr>bank := b, Totals := u, DepositByStatus := B, b_events := ev\<rparr>"
      by (rule resolveDeposit_frame[OF resolved(10), where msg = msg])
    then have "Deposit s4 = Deposit s" using frame[OF resolved(5)] by (simp add: recordDepositVote_def)
    then show ?thesis
      by (intro settled_deposits_set[where i = i and d = d2])
        (use opened[OF resolved(5)] resolved(6) in \<open>auto simp: resolved(11) enqueueBridgeDuty_def\<close>)
  qed (use False in simp)
  with fr show ?thesis by (simp add: settled_def settled_withdrawals_same settled_names_same)
qed simp

lemma SubmitNameRegistration_settled:
  assumes inv: "name_inv codec s" and run: "SubmitNameRegistration E bk msg s = Inr s'"
  shows "settled s s'"
proof (cases "s' = s")
  case False
  note tab = name_invD(1)[OF inv]
  have fr: "same_deposits s s'" "same_withdrawals s s'"
    by (rule SubmitNameRegistration_effect[OF run False], assumption)+
  obtain r0 i s1 r where b: "openRegistration E msg s = Inr (r0, i, s1)" "n_Status r0 = NAME_REGISTRATION_STATUS_PENDING"
    "NameRegistration s' = kv_set i r (NameRegistration s)"
    by (rule SubmitNameRegistration_book[OF run False])
  have "q = r0" if "kv_get (NameRegistration s) i = Some q" for q
    using b(1) by (cases rule: openRegistration_cases) (use that table_ok_get(2)[OF tab that] in auto)
  with b(2) have "settled_names s s'"
    by (intro settled_names_set[OF b(3)]) (auto simp: closed_registration_def)
  with fr show ?thesis by (simp add: settled_def settled_deposits_same settled_withdrawals_same)
qed simp

lemma ConfirmName_settled:
  assumes inv: "name_inv codec s" and run: "ConfirmName E msg s = Inr s'" "StringToBytes E = codec"
  shows "settled s s'"
proof -
  note fr = ConfirmName_frame(3,4)[OF run(1)]
  from inv run have "settled_names s s'"
  proof (cases rule: ConfirmName_records)
    case (link i r r')
    show ?thesis by (rule settled_names_set[OF link(1)]) (use link(2,4) in \<open>auto simp: closed_registration_def\<close>)
  next
    case (replace i r r' j q q')
    then show ?thesis unfolding settled_names_def by (auto simp: closed_registration_def)
  qed
  with fr show ?thesis by (simp add: settled_def settled_deposits_same settled_withdrawals_same)
qed

lemma BridgeOut_settled:
  assumes inv: "withdrawal_inv s" and run: "BridgeOut E bk msg s = Inr s'"
  shows "settled s s'"
proof -
  have rows: "rows_ok w_Id (\<lambda>w. wstat (w_Status w)) (WithdrawalSeq s) (Withdrawal s) (WithdrawalByStatus s)"
    using inv by (simp add: withdrawal_inv_def)
  obtain amount net fee b t where s': "s' = openWithdrawal E msg amount net fee (s\<lparr>bank := b, Totals := t\<rparr>)"
    by (rule BridgeOut_Inr[OF run])
  have fr: "same_deposits s s'" "same_names s s'"
    using openWithdrawal_fields(8,9)[of "s\<lparr>bank := b, Totals := t\<rparr>" E msg amount net fee]
    by (simp_all add: s' same_deposits_def same_names_def)
  have "settled_withdrawals s s'"
    by (rule settled_withdrawals_set[where i = "WithdrawalSeq s" and w = "newWithdrawal E msg (WithdrawalSeq s) amount net fee"])
      (use rows_ok_fresh[OF rows] in \<open>simp_all add: s'\<close>)
  with fr show ?thesis by (simp add: settled_def settled_deposits_same settled_names_same)
qed

lemma AttestWithdrawalPayout_settled:
  assumes "AttestWithdrawalPayout E msg s = Inr s'"
  shows "settled s s'"
proof -
  note eff = AttestWithdrawalPayout_effect[OF assms]
  have "settled_withdrawals s s'"
  proof (cases "same_withdrawals s s'")
    case False
    with eff obtain w w' where w: "kv_get (Withdrawal s) (ap_WithdrawalId msg) = Some w" "w_Status w = WITHDRAWAL_STATUS_REQUESTED"
      "Withdrawal s' = kv_set (ap_WithdrawalId msg) w' (Withdrawal s)" "payoutMatches w msg" "payoutMatches w' msg" "w_Sender w' = w_Sender w"
      by blast
    then have "terms w' = terms w" by (simp add: terms_def payoutMatches_def)
    with w show ?thesis by (intro settled_withdrawals_set) auto
  qed (rule settled_withdrawals_same)
  with eff show ?thesis by (simp add: settled_def settled_deposits_same settled_names_same)
qed

lemma expireDeposit_settled:
  assumes inv: "deposit_inv s" "deposit_listed (ValAddressFromBech32 E) s" and rec: "pending_deposit i s"
    and run: "expireDeposit E i s = Inr s'"
  shows "settled s s'"
proof -
  obtain d where d: "kv_get (Deposit s) i = Some d" "d_Status d = DEPOSIT_STATUS_PENDING"
    using rec by (auto simp: pending_deposit_def)
  note e = expireDeposit_effect[OF inv d run]
  from e(6) obtain D T C F B ev where s': "s' = s\<lparr>Deposit := D, DepositByTxid := T, DepositConfirmedBy := C,
       DepositFactsVote := F, DepositByStatus := B, b_events := ev\<rparr>" by blast
  have fr: "same_withdrawals s s'" "same_names s s'" by (simp_all add: s' same_withdrawals_def same_names_def)
  have "settled_deposits s s'" by (rule settled_deposits_set[OF e(3)]) (use d in simp)
  with fr show ?thesis by (simp add: settled_def settled_withdrawals_same settled_names_same)
qed

lemma expireRegistration_settled:
  assumes inv: "name_inv codec s" "name_listed codec (ValAddressFromBech32 E) s" "StringToBytes E = codec"
    and rec: "open_name i s" and run: "expireRegistration E i s = Inr s'"
  shows "settled s s'"
proof -
  obtain r where r: "kv_get (NameRegistration s) i = Some r" "open_registration r" using rec by (auto simp: open_name_def)
  note e = expireRegistration_effect[OF inv r run]
  have "settled_names s s'"
    by (rule settled_names_set[OF e(3)]) (use r in \<open>auto simp: closed_registration_def open_registration_def\<close>)
  with e(6,7) show ?thesis by (simp add: settled_def settled_deposits_same settled_withdrawals_same)
qed

lemma refundWithdrawal_settled:
  assumes inv: "withdrawal_inv s" and rec: "requested i s" and run: "refundWithdrawal E bk i s = Inr s'"
  shows "settled s s'"
proof -
  obtain w where w: "kv_get (Withdrawal s) i = Some w" "w_Status w = WITHDRAWAL_STATUS_REQUESTED"
    using rec by (auto simp: requested_def)
  note e = refundWithdrawal_effect[OF inv w run]
  from e(3) obtain b t B W ev where s': "s' = s\<lparr>bank := b, Totals := t, WithdrawalByStatus := B, Withdrawal := W, b_events := ev\<rparr>"
    by blast
  have fr: "same_deposits s s'" "same_names s s'" by (simp_all add: s' same_deposits_def same_names_def)
  have "settled_withdrawals s s'" by (rule settled_withdrawals_set[OF e(2)]) (use w in \<open>simp add: terms_def refunded_def\<close>)
  with fr show ?thesis by (simp add: settled_def settled_deposits_same settled_names_same)
qed

text \<open>A sweep whose steps keep the invariant and settled records keeps them as a whole.\<close>

lemma sweep_settled:
  assumes run: "rfold f ids s = Inr t" and dist: "distinct ids" and ready: "\<And>i. i \<in> set ids \<Longrightarrow> ready i s"
    and ok: "bridge_ok codec valdec s \<and> seqs_below n s"
    and keep: "\<And>i s t. bridge_ok codec valdec s \<and> seqs_below n s \<Longrightarrow> ready i s \<Longrightarrow> f i s = Inr t \<Longrightarrow>
      (bridge_ok codec valdec t \<and> seqs_below n t) \<and> (\<forall>j. j \<noteq> i \<longrightarrow> ready j s \<longrightarrow> ready j t)"
    and settle: "\<And>i s t. bridge_ok codec valdec s \<Longrightarrow> ready i s \<Longrightarrow> f i s = Inr t \<Longrightarrow> settled s t"
  shows "settled s t"
proof -
  have "(bridge_ok codec valdec t \<and> seqs_below n t) \<and> settled s t"
  proof (rule sweep_keeps[where Q = "\<lambda>u. (bridge_ok codec valdec u \<and> seqs_below n u) \<and> settled s u" and ready = ready, OF run dist _ ready])
    show "(bridge_ok codec valdec s \<and> seqs_below n s) \<and> settled s s" using ok by simp
    fix i u v assume u: "(bridge_ok codec valdec u \<and> seqs_below n u) \<and> settled s u" "ready i u" "f i u = Inr v"
    have "settled s v" by (rule settled_trans[OF _ settle[OF _ u(2,3)]]) (use u(1) in blast)+
    with keep[OF _ u(2,3)] u(1) show "((bridge_ok codec valdec v \<and> seqs_below n v) \<and> settled s v) \<and>
      (\<forall>j. j \<noteq> i \<longrightarrow> ready j u \<longrightarrow> ready j v)" by blast
  qed
  then show ?thesis ..
qed

lemma bridge_EndBlock_settled:
  assumes env: "bridge_env_ok codec valdec E" and ok: "bridge_ok codec valdec s" "seqs_below n s"
    and run: "bridge_EndBlock E bk (s, ok) = Inr (s', ok')"
  shows "settled s s'"
proof -
  have codec: "ValAddressFromBech32 E = valdec" "StringToBytes E = codec"
    using env by (simp_all add: bridge_env_ok_def account_codec_ok_def)
  let ?s1 = "s\<lparr>BridgeDutyQueue := []\<rparr>"
  obtain s2 s3 s4 b where r: "ExpireDeposits E ?s1 = Inr s2" "ExpireNameRegistrations E s2 = Inr s3"
    "RefundExpiredWithdrawals E bk s3 = Inr s4" "s' = s4\<lparr>bank := b\<rparr>"
    by (rule bridge_EndBlock_Inr[OF run])
  have i1: "bridge_ok codec valdec ?s1 \<and> seqs_below n ?s1" using bridge_ok_flushed[OF ok(1)] ok(2) by simp
  note i2 = ExpireDeposits_ok[OF i1 env r(1)]
  note i3 = ExpireNameRegistrations_ok[OF i2 env r(2)]
  obtain p1 p2 p3 where p: "b_Params ?s1 = Some p1" "b_Params s2 = Some p2" "b_Params s3 = Some p3"
    using bridge_okD(9)[OF conjunct1[OF i1]] bridge_okD(9)[OF conjunct1[OF i2]] bridge_okD(9)[OF conjunct1[OF i3]] by blast
  note I1 = bridge_okD[OF conjunct1[OF i1]] and I2 = bridge_okD[OF conjunct1[OF i2]] and I3 = bridge_okD[OF conjunct1[OF i3]]
  have "settled ?s1 s2"
  proof (rule sweep_settled[OF _ ExpireDeposits_folds(2)[OF I1(1) p(1)] _ i1])
    show "rfold (expireDeposit E) (due_deposits E p1 ?s1) ?s1 = Inr s2" using r(1) ExpireDeposits_folds(1)[OF I1(1) p(1)] by simp
    show "pending_deposit i ?s1" if "i \<in> set (due_deposits E p1 ?s1)" for i
      using ExpireDeposits_folds(3)[OF I1(1) p(1) that] by (simp add: pending_deposit_def)
    show "settled s t" if "bridge_ok codec valdec s" "pending_deposit i s" "expireDeposit E i s = Inr t" for i and s t :: "'a bridge_state"
      using expireDeposit_settled[OF _ _ that(2,3)] bridge_okD(1,2)[OF that(1)] codec(1) by simp
  qed (rule expireDeposit_ok[OF _ codec(1)])
  moreover have "settled s2 s3"
  proof (rule sweep_settled[OF _ distinct_due_registrations[OF I2(3)] _ i2])
    show "rfold (expireRegistration E) (due_registrations E p2 s2) s2 = Inr s3"
      using r(2) ExpireNameRegistrations_folds[OF I2(3) p(2)] by simp
    show "open_name i s2" if "i \<in> set (due_registrations E p2 s2)" for i
      using due_registrations_open[OF I2(3) that] by (auto simp: open_name_def)
    show "settled s t" if "bridge_ok codec valdec s" "open_name i s" "expireRegistration E i s = Inr t" for i and s t :: "'a bridge_state"
      using expireRegistration_settled[OF _ _ codec(2) that(2,3)] bridge_okD(3,4)[OF that(1)] codec(1) by simp
  qed (rule expireRegistration_ok[OF _ env])
  moreover have "settled s3 s4"
  proof (rule sweep_settled[OF _ RefundExpiredWithdrawals_folds(2)[OF I3(5) p(3)] _ i3])
    show "rfold (refundWithdrawal E bk) (due_withdrawals E p3 s3) s3 = Inr s4"
      using r(3) RefundExpiredWithdrawals_folds(1)[OF I3(5) p(3)] by simp
    show "requested i s3" if "i \<in> set (due_withdrawals E p3 s3)" for i
      using due_withdrawals_requested[OF I3(5) that] by (auto simp: requested_def)
    show "settled s t" if "bridge_ok codec valdec s" "requested i s" "refundWithdrawal E bk i s = Inr t" for i and s t :: "'a bridge_state"
      by (rule refundWithdrawal_settled[OF bridge_okD(5)[OF that(1)] that(2,3)])
  qed (rule refundWithdrawal_ok)
  moreover have "settled s ?s1" "settled s4 s'" by (rule settled_same; simp add: same_defs r(4))+
  ultimately show ?thesis using settled_trans by blast
qed

lemma bridge_exec_settled:
  assumes env: "bridge_env_ok codec valdec E" and ok: "bridge_ok codec valdec s" "seqs_below n s"
    and run: "bridge_exec E bk oper (s, ok) = Inr (s', ok')"
  shows "settled s s'"
proof -
  note I = bridge_okD[OF ok(1)]
  have codec: "StringToBytes E = codec" using env by (simp add: bridge_env_ok_def account_codec_ok_def)
  show ?thesis
  proof (cases oper)
    case OpEndBlock
    with bridge_EndBlock_settled[OF env ok] run show ?thesis by simp
  next
    case (OpUpdateParams k a p)
    with run show ?thesis by (auto simp: rbind_eq_Inr bridge_UpdateParams_def same_defs intro!: settled_same)
  next
    case OpBeginBlock
    with run show ?thesis by (auto simp: rbind_eq_Inr bridge_BeginBlock_def same_defs intro!: settled_same)
  next
    case (OpOtherModules b k)
    with run show ?thesis by (auto simp: same_defs intro!: settled_same)
  qed (use run AttestDeposit_settled[OF I(1)] SubmitNameRegistration_settled[OF I(3)] ConfirmName_settled[OF I(3) _ codec]
      BridgeOut_settled[OF I(5)] AttestWithdrawalPayout_settled in \<open>auto simp: rbind_eq_Inr\<close>)
qed

section \<open>The end of the block always runs\<close>

lemma refundWithdrawal_total:
  assumes ok: "bridge_ok codec valdec s" and rec: "requested i s" and codec: "StringToBytes E = codec"
    and mint: "\<And>a d n b. \<exists>b'. mintRefund bk a d n b = Inr b'"
  shows "\<exists>s'. refundWithdrawal E bk i s = Inr s'"
proof -
  obtain w where w: "kv_get (Withdrawal s) i = Some w" using rec by (auto simp: requested_def)
  then obtain a where a: "codec (w_Sender w) = Some a" using bridge_okD(10)[OF ok] by (auto simp: senders_ok_def)
  obtain t where t: "Totals s = Some t" using bridge_okD(7)[OF ok] by (rule booksD)
  obtain b' where "mintRefund bk a (DenomForAsset (w_Asset w)) (MillisteemToAsteem (w_AmountMillisteem w)) (bank s) = Inr b'"
    using mint by blast
  with w a t codec show ?thesis by (simp add: refundWithdrawal_def Let_def)
qed

lemma RefundExpiredWithdrawals_total:
  fixes s :: "'b bridge_state"
  assumes ok: "bridge_ok codec valdec s \<and> seqs_below n s" and codec: "StringToBytes E = codec"
    and mint: "\<And>a d n b. \<exists>b'. mintRefund bk a d n b = Inr b'"
  shows "\<exists>s'. RefundExpiredWithdrawals E bk s = Inr s'"
proof -
  note I = bridge_okD[OF conjunct1[OF ok]]
  from I(9) obtain p where p: "b_Params s = Some p" by blast
  let ?P = "\<lambda>(s :: 'b bridge_state) A. (bridge_ok codec valdec s \<and> seqs_below n s) \<and> (\<forall>i \<in> A. requested i s)"
  have start: "?P s (set (due_withdrawals E p s))"
    using ok due_withdrawals_requested[OF I(5)] by (auto simp: requested_def)
  have "\<exists>t. rfold (refundWithdrawal E bk) (due_withdrawals E p s) s = Inr t \<and> ?P t {}"
  proof (rule rfold_distinct_total[where P = ?P, OF RefundExpiredWithdrawals_folds(2)[OF I(5) p] start])
    fix i u A assume u: "i \<in> A" "?P u A"
    then obtain v where v: "refundWithdrawal E bk i u = Inr v" using refundWithdrawal_total[OF _ _ codec mint] by blast
    with u refundWithdrawal_ok[OF _ _ v] show "\<exists>t. refundWithdrawal E bk i u = Inr t \<and> ?P t (A - {i})" by blast
  qed
  then show ?thesis using RefundExpiredWithdrawals_folds(1)[OF I(5) p] by auto
qed

lemma FlushBridgeDuty_total:
  assumes "duty_queue_ok s" "bonded_operators E = Some ops" "distinct ops" "\<And>k. ok = Some k \<Longrightarrow> kv_wf (Tally k)"
  shows "\<exists>ok'. FlushBridgeDuty E (s, ok) = Inr (s\<lparr>BridgeDutyQueue := []\<rparr>, ok')"
proof (cases ok)
  case None
  have "flushDuty E s it None = Inr None" if "it \<in> set (BridgeDutyQueue s)" for it
  proof -
    obtain k i where it: "it = (k, i)" by (cases it)
    with assms(1) that have "k = bridgeDutyKindDeposit \<and> kv_get (Deposit s) i \<noteq> None \<or>
        k = bridgeDutyKindWithdrawal \<and> kv_get (Withdrawal s) i \<noteq> None"
      by (auto simp: duty_queue_ok_def ks_has_def)
    then show ?thesis
      by (auto simp: it flushDuty_def dutyConfirmations_def reportBridgeEvent_def bridgeDutyKindDeposit_def bridgeDutyKindWithdrawal_def)
  qed
  then have "rfold (flushDuty E s) its None = Inr None" if "set its \<subseteq> set (BridgeDutyQueue s)" for its
    using that by (induction its) auto
  then show ?thesis by (simp add: None FlushBridgeDuty_def)
next
  case (Some k)
  have "list_all report_ok (bridge_reports E s)"
    using assms(2,3) by (auto simp: bridge_reports_def list_all_iff report_ok_def)
  from record_all_spec[OF this assms(4)[OF Some]] flush_is_record_all[OF assms(1), of E k] show ?thesis
    by (auto simp: Some)
qed


text \<open>A bank that never refuses, over no state at all.\<close>

definition lenient_bank :: "unit bank_ops" where
  "lenient_bank = \<lparr>MintCoins = (\<lambda>_ _. Inr), BurnCoins = (\<lambda>_ _. Inr), SendCoinsFromAccountToModule = (\<lambda>_ _ _. Inr),
     SendCoinsFromModuleToAccount = (\<lambda>_ _ _. Inr), SendCoinsFromModuleToModule = (\<lambda>_ _ _. Inr),
     GetAllBalances = (\<lambda>_ _. []), FundCommunityPool = (\<lambda>_ _. Inr)\<rparr>"



lemma demo_strict_minted:
  "\<exists>s. AttestDeposit strict_env fakeBank (demo_deposit ''v1'') (start_bridge demo_params empty_ledger) = Inr s \<and>
     bank s = demo_ledger \<and> Totals s = Some (add_minted BRIDGE_ASSET_STEEM 10000000000000000000 zero_totals) \<and>
     b_Params s = Some demo_params \<and> (\<exists>d. kv_get (Deposit s) 0 = Some d \<and> d_Status d = DEPOSIT_STATUS_MINTED)"
  by (simp add: demo_attest_simps strict_codec_def kv_get_Cons)


end
