(* ===== verification/Bridge_Genesis.thy ===== *)
theory Bridge_Genesis
  imports Bridge_Finality "HOL-Library.Multiset"
begin

text \<open>
  Export and import of the bridge's state (\<open>x/oracle/bridge/keeper/genesis.go\<close>,
  \<open>x/oracle/bridge/types/genesis.go\<close>): the genesis document, its validation, the import that
  rebuilds every index from the records, and the export. The lemmas say what a restart of the chain
  from its own export keeps, and three properties state what it does not keep.
\<close>

section \<open>The genesis document\<close>

text \<open>A \<open>math.Int\<close> of the document may be nil, which is \<open>None\<close>; it is stored as zero.\<close>

record genesis_state =
  gs_Params :: bridge_params
  gs_DepositList :: "deposit list"
  gs_DepositCount :: u64
  gs_WithdrawalList :: "withdrawal list"
  gs_WithdrawalCount :: u64
  gs_TotalMintedAsteem :: "int option"
  gs_TotalBurnedAsteem :: "int option"
  gs_NameRegistrationList :: "name_registration list"
  gs_NameRegistrationCount :: u64
  gs_ActiveNameList :: "name_record list"

definition DefaultGenesis :: genesis_state where
  "DefaultGenesis =
     \<lparr>gs_Params = bridge_DefaultParams, gs_DepositList = [], gs_DepositCount = 0, gs_WithdrawalList = [],
      gs_WithdrawalCount = 0, gs_TotalMintedAsteem = Some 0, gs_TotalBurnedAsteem = Some 0,
      gs_NameRegistrationList = [], gs_NameRegistrationCount = 0, gs_ActiveNameList = []\<rparr>"

section \<open>Validation\<close>

definition genesis_dedup_key :: "string \<Rightarrow> u32 \<Rightarrow> string" where
  "genesis_dedup_key txid opIndex = txid @ ''/'' @ FormatUint (unat opIndex)"

definition confirmations_distinct :: "confirmation list \<Rightarrow> unit res" where
  "confirmations_distinct cs = guard_err (distinct (map c_ValidatorAddress cs)) ErrInvalidRequest"

text \<open>The body of the loop over the deposits; the state is the identifiers and the keys seen so far.\<close>

definition check_deposit :: "u64 \<Rightarrow> deposit \<Rightarrow> u64 list \<times> string list \<Rightarrow> (u64 list \<times> string list) res" where
  "check_deposit limit d seen =
     rbind (guard_err (d_Id d \<notin> set (fst seen)) ErrInvalidRequest) (\<lambda>_.
     rbind (guard_err (d_Id d < limit) ErrInvalidRequest) (\<lambda>_.
     let dedupKey = genesis_dedup_key (d_Txid d) (d_OpIndex d) in
     rbind (guard_err (dedupKey \<notin> set (snd seen)) ErrInvalidRequest) (\<lambda>_.
     rbind (confirmations_distinct (d_ValidatorConfirmations d)) (\<lambda>_.
     Inr (d_Id d # fst seen, dedupKey # snd seen)))))"

definition check_withdrawal :: "u64 \<Rightarrow> withdrawal \<Rightarrow> u64 list \<Rightarrow> u64 list res" where
  "check_withdrawal limit w seen =
     rbind (guard_err (w_Id w \<notin> set seen) ErrInvalidRequest) (\<lambda>_.
     rbind (guard_err (w_Id w < limit) ErrInvalidRequest) (\<lambda>_.
     Inr (w_Id w # seen)))"

definition check_total :: "int option \<Rightarrow> unit res" where
  "check_total t = guard_err (case t of None \<Rightarrow> False | Some x \<Rightarrow> 0 \<le> x) ErrInvalidRequest"

definition check_registration ::
    "env \<Rightarrow> u64 \<Rightarrow> name_registration \<Rightarrow> (u64, name_registration) kv \<times> string list \<Rightarrow>
     ((u64, name_registration) kv \<times> string list) res" where
  "check_registration E limit r seen =
     rbind (guard_err (kv_get (fst seen) (n_Id r) = None) ErrInvalidRequest) (\<lambda>_.
     rbind (guard_err (n_Id r < limit) ErrInvalidRequest) (\<lambda>_.
     let dedupKey = genesis_dedup_key (n_Txid r) (n_OpIndex r) in
     rbind (guard_err (dedupKey \<notin> set (snd seen)) ErrInvalidRequest) (\<lambda>_.
     rbind (confirmations_distinct (n_ValidatorConfirmations r)) (\<lambda>_.
     rbind (guard_err (n_Status r \<in> {NAME_REGISTRATION_STATUS_AWAITING_CONFIRMATION, NAME_REGISTRATION_STATUS_ACTIVE}
              \<longrightarrow> AccAddressFromBech32 E (n_DerivedDestination r) \<noteq> None) ErrInvalidRequest) (\<lambda>_.
     Inr (kv_set (n_Id r) r (fst seen), dedupKey # snd seen))))))"

definition check_active_name ::
    "env \<Rightarrow> (u64, name_registration) kv \<Rightarrow> name_record \<Rightarrow> string list \<Rightarrow> string list res" where
  "check_active_name E registrationByID nr seen =
     rbind (guard_err (nr_SteemAccount nr \<notin> set seen) ErrInvalidRequest) (\<lambda>_.
     rbind (ValidateSteemAccountName (nr_SteemAccount nr)) (\<lambda>_.
     rbind (guard_err (AccAddressFromBech32 E (nr_Address nr) \<noteq> None) ErrInvalidRequest) (\<lambda>_.
     rbind (from_option ErrInvalidRequest (kv_get registrationByID (nr_RegistrationId nr))) (\<lambda>registration.
     rbind (guard_err (n_Status registration = NAME_REGISTRATION_STATUS_ACTIVE) ErrInvalidRequest) (\<lambda>_.
     rbind (guard_err (n_SteemAccount registration = nr_SteemAccount nr) ErrInvalidRequest) (\<lambda>_.
     rbind (guard_err (n_DerivedDestination registration = nr_Address nr) ErrInvalidRequest) (\<lambda>_.
     Inr (nr_SteemAccount nr # seen))))))))"

definition genesis_Validate :: "env \<Rightarrow> genesis_state \<Rightarrow> unit res" where
  "genesis_Validate E gs =
     rbind (rfold (check_deposit (gs_DepositCount gs)) (gs_DepositList gs) ([], [])) (\<lambda>_.
     rbind (rfold (check_withdrawal (gs_WithdrawalCount gs)) (gs_WithdrawalList gs) []) (\<lambda>_.
     rbind (check_total (gs_TotalMintedAsteem gs)) (\<lambda>_.
     rbind (check_total (gs_TotalBurnedAsteem gs)) (\<lambda>_.
     rbind (rfold (check_registration E (gs_NameRegistrationCount gs)) (gs_NameRegistrationList gs) ([], [])) (\<lambda>regs.
     rbind (rfold (check_active_name E (fst regs)) (gs_ActiveNameList gs) []) (\<lambda>_.
     bridge_Validate (gs_Params gs)))))))"

section \<open>Import\<close>

text \<open>
  Deposits and registrations restore their confirmations alike: each listed validator is marked as
  having confirmed the key, and its vote is put under the facts stored on the record.
\<close>

fun restoreFactsVotes ::
    "env \<Rightarrow> string \<Rightarrow> u32 \<Rightarrow> string \<Rightarrow> confirmation list \<Rightarrow>
     (string \<times> u32 \<times> bytes) kset \<times> (string \<times> string \<times> bytes) kset \<Rightarrow>
     ((string \<times> u32 \<times> bytes) kset \<times> (string \<times> string \<times> bytes) kset) res" where
  "restoreFactsVotes E txid opIndex facts [] cv = Inr cv"
| "restoreFactsVotes E txid opIndex facts (c # cs) cv =
     rbind (from_option ErrInvalidAddress (ValAddressFromBech32 E (c_ValidatorAddress c))) (\<lambda>validatorAddr.
     restoreFactsVotes E txid opIndex facts cs
       (ks_set (txid, opIndex, validatorAddr) (fst cv),
        ks_set (dedupKeyString txid opIndex, facts, validatorAddr) (snd cv)))"

definition depositFacts :: "env \<Rightarrow> deposit \<Rightarrow> string" where
  "depositFacts E d = DepositFactsHash E (d_SteemBlock d) (d_SteemTimestamp d) (d_SteemSender d)
     (d_GatewayAccount d) (d_AmountMillisteem d) (d_Memo d) (d_Asset d)"

definition importDeposit :: "env \<Rightarrow> deposit \<Rightarrow> 'b bridge_state \<Rightarrow> 'b bridge_state res" where
  "importDeposit E d s =
     (let s1 = s\<lparr>Deposit := kv_set (d_Id d) d (Deposit s),
                DepositByStatus := ks_set (dstat (d_Status d), d_Id d) (DepositByStatus s)\<rparr>
      in if d_Status d = DEPOSIT_STATUS_EXPIRED then Inr s1
         else rbind (restoreFactsVotes E (d_Txid d) (d_OpIndex d) (depositFacts E d) (d_ValidatorConfirmations d)
                      (DepositConfirmedBy s, DepositFactsVote s)) (\<lambda>cv.
              Inr (s1\<lparr>DepositByTxid := kv_set (d_Txid d, d_OpIndex d) (d_Id d) (DepositByTxid s),
                     DepositConfirmedBy := fst cv, DepositFactsVote := snd cv\<rparr>)))"

fun restorePayoutVotes ::
    "env \<Rightarrow> u64 \<Rightarrow> string \<Rightarrow> confirmation list \<Rightarrow> (u64 \<times> bytes) kset \<times> (u64 \<times> string \<times> bytes) kset \<Rightarrow>
     ((u64 \<times> bytes) kset \<times> (u64 \<times> string \<times> bytes) kset) res" where
  "restorePayoutVotes E i candidate [] cv = Inr cv"
| "restorePayoutVotes E i candidate (c # cs) cv =
     rbind (from_option ErrInvalidAddress (ValAddressFromBech32 E (c_ValidatorAddress c))) (\<lambda>validatorAddr.
     restorePayoutVotes E i candidate cs
       (ks_set (i, validatorAddr) (fst cv), ks_set (i, candidate, validatorAddr) (snd cv)))"

definition importWithdrawal :: "env \<Rightarrow> withdrawal \<Rightarrow> 'b bridge_state \<Rightarrow> 'b bridge_state res" where
  "importWithdrawal E w s =
     (let s1 = s\<lparr>Withdrawal := kv_set (w_Id w) w (Withdrawal s),
                WithdrawalByStatus := ks_set (wstat (w_Status w), w_Id w) (WithdrawalByStatus s)\<rparr>
      in if w_SteemPayoutTxid w = '''' then Inr s1
         else rbind (restorePayoutVotes E (w_Id w) (payoutCandidateKey (w_SteemPayoutTxid w) (w_PayoutOpIndex w))
                      (w_ValidatorConfirmations w) (WithdrawalConfirmedBy s, WithdrawalPayoutVote s)) (\<lambda>cv.
              Inr (s1\<lparr>WithdrawalConfirmedBy := fst cv, WithdrawalPayoutVote := snd cv\<rparr>)))"

definition nameFacts :: "env \<Rightarrow> name_registration \<Rightarrow> string" where
  "nameFacts E r = NameFactsHash E (n_SteemBlock r) (n_SteemTimestamp r) (n_SteemAccount r)
     (n_GatewayAccount r) (n_AmountMillisteem r) (n_Memo r)"

definition restoreAwaiting :: "env \<Rightarrow> name_registration \<Rightarrow> (bytes \<times> u64) kset \<Rightarrow> (bytes \<times> u64) kset res" where
  "restoreAwaiting E r aw =
     (if n_Status r = NAME_REGISTRATION_STATUS_AWAITING_CONFIRMATION
      then rbind (from_option ErrInvalidAddress (StringToBytes E (n_DerivedDestination r))) (\<lambda>destAddr.
           Inr (ks_set (destAddr, n_Id r) aw))
      else Inr aw)"

definition importRegistration :: "env \<Rightarrow> name_registration \<Rightarrow> 'b bridge_state \<Rightarrow> 'b bridge_state res" where
  "importRegistration E r s =
     (let s1 = s\<lparr>NameRegistration := kv_set (n_Id r) r (NameRegistration s),
                NameRegistrationByStatus := ks_set (nstat (n_Status r), n_Id r) (NameRegistrationByStatus s),
                NameRegistrationByAccount := ks_set (n_SteemAccount r, n_Id r) (NameRegistrationByAccount s)\<rparr>
      in if n_Status r = NAME_REGISTRATION_STATUS_EXPIRED then Inr s1
         else rbind (restoreFactsVotes E (n_Txid r) (n_OpIndex r) (nameFacts E r) (n_ValidatorConfirmations r)
                      (NameRegistrationConfirmedBy s, NameRegistrationFactsVote s)) (\<lambda>cv.
              rbind (restoreAwaiting E r (NameRegistrationAwaitingByDest s)) (\<lambda>aw.
              Inr (s1\<lparr>NameRegistrationByTxid := kv_set (n_Txid r, n_OpIndex r) (n_Id r) (NameRegistrationByTxid s),
                     NameRegistrationConfirmedBy := fst cv, NameRegistrationFactsVote := snd cv,
                     NameRegistrationAwaitingByDest := aw\<rparr>))))"

definition importActiveName :: "env \<Rightarrow> name_record \<Rightarrow> 'b bridge_state \<Rightarrow> 'b bridge_state res" where
  "importActiveName E nr s =
     rbind (from_option ErrInvalidAddress (StringToBytes E (nr_Address nr))) (\<lambda>addr.
     Inr (s\<lparr>ActiveName := kv_set (nr_SteemAccount nr) nr (ActiveName s),
            ActiveNameByAddress := ks_set (addr, nr_SteemAccount nr) (ActiveNameByAddress s)\<rparr>))"

definition stored_int :: "int option \<Rightarrow> int" where
  "stored_int t = (case t of None \<Rightarrow> 0 | Some x \<Rightarrow> x)"

definition bridge_InitGenesis :: "env \<Rightarrow> genesis_state \<Rightarrow> 'b bridge_state \<Rightarrow> 'b bridge_state res" where
  "bridge_InitGenesis E gs s =
     rbind (rfold (importDeposit E) (gs_DepositList gs) s) (\<lambda>s1.
     rbind (rfold (importWithdrawal E) (gs_WithdrawalList gs) (s1\<lparr>DepositSeq := gs_DepositCount gs\<rparr>)) (\<lambda>s2.
     let s3 = s2\<lparr>WithdrawalSeq := gs_WithdrawalCount gs,
                Totals := Some \<lparr>TotalMintedAsteem = stored_int (gs_TotalMintedAsteem gs),
                               TotalBurnedAsteem = stored_int (gs_TotalBurnedAsteem gs),
                               TotalMintedAsbd = 0, TotalBurnedAsbd = 0\<rparr>\<rparr> in
     rbind (rfold (importRegistration E) (gs_NameRegistrationList gs) s3) (\<lambda>s4.
     rbind (rfold (importActiveName E) (gs_ActiveNameList gs)
              (s4\<lparr>NameRegistrationSeq := gs_NameRegistrationCount gs\<rparr>)) (\<lambda>s5.
     Inr (s5\<lparr>b_Params := Some (gs_Params gs)\<rparr>)))))"

section \<open>Export\<close>

definition bridge_ExportGenesis :: "'b bridge_state \<Rightarrow> genesis_state res" where
  "bridge_ExportGenesis s =
     rbind (from_option ErrNotFound (b_Params s)) (\<lambda>p.
     rbind (from_option ErrNotFound (Totals s)) (\<lambda>totals.
     Inr \<lparr>gs_Params = p, gs_DepositList = map snd (Deposit s), gs_DepositCount = DepositSeq s,
          gs_WithdrawalList = map snd (Withdrawal s), gs_WithdrawalCount = WithdrawalSeq s,
          gs_TotalMintedAsteem = Some (TotalMintedAsteem totals), gs_TotalBurnedAsteem = Some (TotalBurnedAsteem totals),
          gs_NameRegistrationList = map snd (NameRegistration s), gs_NameRegistrationCount = NameRegistrationSeq s,
          gs_ActiveNameList = map snd (ActiveName s)\<rparr>))"

text \<open>The stores of a chain that has not started yet.\<close>

definition empty_bridge :: "'b \<Rightarrow> 'b bridge_state" where
  "empty_bridge b = (start_bridge bridge_DefaultParams b)\<lparr>b_Params := None, Totals := None\<rparr>"

lemma default_genesis_start:
  "bridge_InitGenesis E (DefaultGenesis\<lparr>gs_Params := p\<rparr>) (empty_bridge b) = Inr (start_bridge p b)"
  by (simp add: bridge_InitGenesis_def DefaultGenesis_def empty_bridge_def start_bridge_def stored_int_def
      zero_totals_def)


section \<open>What an import writes\<close>

abbreviation confirms :: "env \<Rightarrow> confirmation list \<Rightarrow> bytes \<Rightarrow> bool" where
  "confirms E cs v \<equiv> \<exists>c \<in> set cs. ValAddressFromBech32 E (c_ValidatorAddress c) = Some v"

lemma restoreFactsVotes_has:
  "restoreFactsVotes E t j f cs (C, V) = Inr (C', V') \<Longrightarrow>
   ks_has C' x \<longleftrightarrow> ks_has C x \<or> (\<exists>v. confirms E cs v \<and> x = (t, j, v))"
  "restoreFactsVotes E t j f cs (C, V) = Inr (C', V') \<Longrightarrow>
   ks_has V' y \<longleftrightarrow> ks_has V y \<or> (\<exists>v. confirms E cs v \<and> y = (dedupKeyString t j, f, v))"
proof (induction cs arbitrary: C V)
  case (Cons c cs)
  { case 1
    then obtain v where "ValAddressFromBech32 E (c_ValidatorAddress c) = Some v"
        "restoreFactsVotes E t j f cs (ks_set (t, j, v) C, ks_set (dedupKeyString t j, f, v) V) = Inr (C', V')"
      by (auto simp: rbind_eq_Inr)
    with Cons.IH(1)[OF this(2)] show ?case by auto
  next
    case 2
    then obtain v where "ValAddressFromBech32 E (c_ValidatorAddress c) = Some v"
        "restoreFactsVotes E t j f cs (ks_set (t, j, v) C, ks_set (dedupKeyString t j, f, v) V) = Inr (C', V')"
      by (auto simp: rbind_eq_Inr)
    with Cons.IH(2)[OF this(2)] show ?case by auto
  }
qed simp_all

lemma restoreFactsVotes_total:
  "\<forall>c \<in> set cs. ValAddressFromBech32 E (c_ValidatorAddress c) \<noteq> None \<Longrightarrow> \<exists>cv'. restoreFactsVotes E t j f cs cv = Inr cv'"
  by (induction E t j f cs cv rule: restoreFactsVotes.induct) auto

lemma restorePayoutVotes_total:
  "\<forall>c \<in> set cs. ValAddressFromBech32 E (c_ValidatorAddress c) \<noteq> None \<Longrightarrow> \<exists>cv'. restorePayoutVotes E i c' cs cv = Inr cv'"
  by (induction E i c' cs cv rule: restorePayoutVotes.induct) auto

text \<open>A store and an index rebuilt record by record.\<close>

definition store_records :: "('r \<Rightarrow> 'k::linorder) \<Rightarrow> 'r list \<Rightarrow> ('k, 'r) kv \<Rightarrow> ('k, 'r) kv" where
  "store_records rid = fold (\<lambda>r. kv_set (rid r) r)"

definition index_records ::
    "('r \<Rightarrow> bool) \<Rightarrow> ('r \<Rightarrow> 'k::linorder) \<Rightarrow> ('r \<Rightarrow> u64) \<Rightarrow> 'r list \<Rightarrow> ('k, u64) kv \<Rightarrow> ('k, u64) kv" where
  "index_records ex rkey rid = fold (\<lambda>r m. if ex r then m else kv_set (rkey r) (rid r) m)"

lemma store_records_simps [simp]:
  "store_records rid [] m = m" "store_records rid (r # rs) m = store_records rid rs (kv_set (rid r) r m)"
  by (simp_all add: store_records_def)

lemma index_records_simps [simp]:
  "index_records ex rkey rid [] m = m"
  "index_records ex rkey rid (r # rs) m =
     index_records ex rkey rid rs (if ex r then m else kv_set (rkey r) (rid r) m)"
  by (simp_all add: index_records_def)

abbreviation deposit_expired :: "deposit \<Rightarrow> bool" where
  "deposit_expired d \<equiv> d_Status d = DEPOSIT_STATUS_EXPIRED"

abbreviation name_expired :: "name_registration \<Rightarrow> bool" where
  "name_expired r \<equiv> n_Status r = NAME_REGISTRATION_STATUS_EXPIRED"

text \<open>What a loop of imports does to one component of the state, from what its body does to it.\<close>

lemma rfold_component:
  "rfold f xs s = Inr s' \<Longrightarrow> (\<And>x s u. f x s = Inr u \<Longrightarrow> F u = g x (F s)) \<Longrightarrow> F s' = fold g xs (F s)"
  by (induction xs arbitrary: s) (auto simp: rbind_eq_Inr)

lemma rfold_collects:
  "rfold f xs s = Inr s' \<Longrightarrow> (\<And>x s u. f x s = Inr u \<Longrightarrow> ks_has (F u) k \<longleftrightarrow> ks_has (F s) k \<or> P x k) \<Longrightarrow>
   ks_has (F s') k \<longleftrightarrow> ks_has (F s) k \<or> (\<exists>x \<in> set xs. P x k)"
  by (induction xs arbitrary: s) (auto simp: rbind_eq_Inr)

lemma rfold_keeps:
  "rfold f xs s = Inr s' \<Longrightarrow> (\<And>x s u. f x s = Inr u \<Longrightarrow> F u = F s) \<Longrightarrow> F s' = F s"
  by (induction xs arbitrary: s) (auto simp: rbind_eq_Inr)

lemma rfold_total: "(\<And>x s. x \<in> set xs \<Longrightarrow> \<exists>u. f x s = Inr u) \<Longrightarrow> \<exists>s'. rfold f xs s = Inr s'"
proof (induction xs arbitrary: s)
  case (Cons x xs)
  obtain u where "f x s = Inr u" using Cons.prems[of x s] by auto
  with Cons.IH[of u] Cons.prems show ?case by simp
qed simp

lemmas import_simps = importDeposit_def importWithdrawal_def importRegistration_def importActiveName_def Let_def rbind_eq_Inr

subsection \<open>Deposits\<close>

abbreviation deposit_key :: "deposit \<Rightarrow> string \<times> u32" where
  "deposit_key d \<equiv> (d_Txid d, d_OpIndex d)"

definition without_deposits :: "'b bridge_state \<Rightarrow> 'b bridge_state" where
  "without_deposits s = s\<lparr>Deposit := [], DepositByStatus := [], DepositByTxid := [], DepositConfirmedBy := [], DepositFactsVote := []\<rparr>"

lemma import_deposits:
  assumes "rfold (importDeposit E) ds s = Inr s'"
  shows "Deposit s' = store_records d_Id ds (Deposit s)"
    and "DepositByTxid s' = index_records deposit_expired deposit_key d_Id ds (DepositByTxid s)"
    and "ks_has (DepositByStatus s') x \<longleftrightarrow>
      ks_has (DepositByStatus s) x \<or> (\<exists>d \<in> set ds. x = (dstat (d_Status d), d_Id d))"
    and "ks_has (DepositConfirmedBy s') y \<longleftrightarrow> ks_has (DepositConfirmedBy s) y \<or>
      (\<exists>d \<in> set ds. \<not> deposit_expired d \<and> (\<exists>v. confirms E (d_ValidatorConfirmations d) v \<and> y = (d_Txid d, d_OpIndex d, v)))"
    and "ks_has (DepositFactsVote s') z \<longleftrightarrow> ks_has (DepositFactsVote s) z \<or>
      (\<exists>d \<in> set ds. \<not> deposit_expired d \<and> (\<exists>v. confirms E (d_ValidatorConfirmations d) v \<and>
         z = (dedupKeyString (d_Txid d) (d_OpIndex d), depositFacts E d, v)))"
    and "without_deposits s' = without_deposits s"
  unfolding store_records_def index_records_def
  by (rule rfold_component[OF assms] rfold_collects[OF assms] rfold_keeps[OF assms];
      auto simp: import_simps without_deposits_def restoreFactsVotes_has split: if_splits)+

lemma import_deposits_total:
  assumes "\<forall>d \<in> set ds. \<forall>c \<in> set (d_ValidatorConfirmations d). ValAddressFromBech32 E (c_ValidatorAddress c) \<noteq> None"
  shows "\<exists>s'. rfold (importDeposit E) ds s = Inr s'"
proof (rule rfold_total)
  fix d and s :: "'a bridge_state" assume "d \<in> set ds"
  with assms restoreFactsVotes_total[of "d_ValidatorConfirmations d" E "d_Txid d" "d_OpIndex d" "depositFacts E d"
      "(DepositConfirmedBy s, DepositFactsVote s)"] show "\<exists>u. importDeposit E d s = Inr u"
    by (auto simp: importDeposit_def Let_def)
qed

subsection \<open>Withdrawals\<close>

definition without_withdrawals :: "'b bridge_state \<Rightarrow> 'b bridge_state" where
  "without_withdrawals s =
     s\<lparr>Withdrawal := [], WithdrawalByStatus := [], WithdrawalConfirmedBy := [], WithdrawalPayoutVote := []\<rparr>"

lemma import_withdrawals:
  assumes "rfold (importWithdrawal E) ws s = Inr s'"
  shows "Withdrawal s' = store_records w_Id ws (Withdrawal s)"
    and "ks_has (WithdrawalByStatus s') x \<longleftrightarrow>
      ks_has (WithdrawalByStatus s) x \<or> (\<exists>w \<in> set ws. x = (wstat (w_Status w), w_Id w))"
    and "without_withdrawals s' = without_withdrawals s"
  unfolding store_records_def
  by (rule rfold_component[OF assms] rfold_collects[OF assms] rfold_keeps[OF assms];
      auto simp: import_simps without_withdrawals_def split: if_splits)+

lemma import_withdrawals_total:
  assumes "\<forall>w \<in> set ws. \<forall>c \<in> set (w_ValidatorConfirmations w). ValAddressFromBech32 E (c_ValidatorAddress c) \<noteq> None"
  shows "\<exists>s'. rfold (importWithdrawal E) ws s = Inr s'"
proof (rule rfold_total)
  fix w and s :: "'a bridge_state" assume "w \<in> set ws"
  with assms restorePayoutVotes_total[of "w_ValidatorConfirmations w" E "w_Id w"
      "payoutCandidateKey (w_SteemPayoutTxid w) (w_PayoutOpIndex w)" "(WithdrawalConfirmedBy s, WithdrawalPayoutVote s)"]
  show "\<exists>u. importWithdrawal E w s = Inr u"
    by (auto simp: importWithdrawal_def Let_def)
qed

subsection \<open>Names\<close>

abbreviation name_key :: "name_registration \<Rightarrow> string \<times> u32" where
  "name_key r \<equiv> (n_Txid r, n_OpIndex r)"

definition without_names :: "'b bridge_state \<Rightarrow> 'b bridge_state" where
  "without_names s = s\<lparr>NameRegistration := [], NameRegistrationByStatus := [], NameRegistrationByAccount := [],
     NameRegistrationByTxid := [], NameRegistrationConfirmedBy := [], NameRegistrationFactsVote := [],
     NameRegistrationAwaitingByDest := []\<rparr>"

lemma import_registrations:
  assumes "rfold (importRegistration E) rs s = Inr s'"
  shows "NameRegistration s' = store_records n_Id rs (NameRegistration s)"
    and "NameRegistrationByTxid s' = index_records name_expired name_key n_Id rs (NameRegistrationByTxid s)"
    and "ks_has (NameRegistrationByStatus s') x \<longleftrightarrow>
      ks_has (NameRegistrationByStatus s) x \<or> (\<exists>r \<in> set rs. x = (nstat (n_Status r), n_Id r))"
    and "ks_has (NameRegistrationByAccount s') y \<longleftrightarrow>
      ks_has (NameRegistrationByAccount s) y \<or> (\<exists>r \<in> set rs. y = (n_SteemAccount r, n_Id r))"
    and "ks_has (NameRegistrationAwaitingByDest s') z \<longleftrightarrow> ks_has (NameRegistrationAwaitingByDest s) z \<or>
      (\<exists>r \<in> set rs. n_Status r = NAME_REGISTRATION_STATUS_AWAITING_CONFIRMATION \<and>
         (\<exists>a. StringToBytes E (n_DerivedDestination r) = Some a \<and> z = (a, n_Id r)))"
    and "ks_has (NameRegistrationConfirmedBy s') q \<longleftrightarrow> ks_has (NameRegistrationConfirmedBy s) q \<or>
      (\<exists>r \<in> set rs. \<not> name_expired r \<and> (\<exists>v. confirms E (n_ValidatorConfirmations r) v \<and> q = (n_Txid r, n_OpIndex r, v)))"
    and "without_names s' = without_names s"
  unfolding store_records_def index_records_def
  by (rule rfold_component[OF assms] rfold_collects[OF assms] rfold_keeps[OF assms];
      auto simp: import_simps restoreAwaiting_def without_names_def restoreFactsVotes_has split: if_splits)+

lemma import_registrations_total:
  assumes "\<forall>r \<in> set rs. (\<forall>c \<in> set (n_ValidatorConfirmations r). ValAddressFromBech32 E (c_ValidatorAddress c) \<noteq> None) \<and>
    (n_Status r = NAME_REGISTRATION_STATUS_AWAITING_CONFIRMATION \<longrightarrow> StringToBytes E (n_DerivedDestination r) \<noteq> None)"
  shows "\<exists>s'. rfold (importRegistration E) rs s = Inr s'"
proof (rule rfold_total)
  fix r and s :: "'a bridge_state" assume "r \<in> set rs"
  with assms restoreFactsVotes_total[of "n_ValidatorConfirmations r" E "n_Txid r" "n_OpIndex r" "nameFacts E r"
      "(NameRegistrationConfirmedBy s, NameRegistrationFactsVote s)"] show "\<exists>u. importRegistration E r s = Inr u"
    by (auto simp: importRegistration_def restoreAwaiting_def Let_def)
qed

definition without_links :: "'b bridge_state \<Rightarrow> 'b bridge_state" where
  "without_links s = s\<lparr>ActiveName := [], ActiveNameByAddress := []\<rparr>"

lemma import_links:
  assumes "rfold (importActiveName E) ns s = Inr s'"
  shows "ActiveName s' = store_records nr_SteemAccount ns (ActiveName s)"
    and "ks_has (ActiveNameByAddress s') x \<longleftrightarrow> ks_has (ActiveNameByAddress s) x \<or>
      (\<exists>n \<in> set ns. \<exists>a. StringToBytes E (nr_Address n) = Some a \<and> x = (a, nr_SteemAccount n))"
    and "without_links s' = without_links s"
  unfolding store_records_def
  by (rule rfold_component[OF assms] rfold_collects[OF assms] rfold_keeps[OF assms];
      auto simp: import_simps without_links_def)+

lemma import_links_total:
  "\<forall>n \<in> set ns. StringToBytes E (nr_Address n) \<noteq> None \<Longrightarrow> \<exists>s'. rfold (importActiveName E) ns s = Inr s'"
  by (rule rfold_total) (auto simp: importActiveName_def)

section \<open>Rebuilding a table from its records\<close>

lemma store_records_rebuild:
  assumes "kv_wf m" and "\<And>k r. kv_get m k = Some r \<Longrightarrow> rid r = k"
  shows "store_records rid (map snd m) [] = m"
proof -
  have "rid (snd e) = fst e" if "e \<in> set m" for e
    using assms(2)[of "fst e" "snd e"] kv_wf_get_iff[OF assms(1), of "fst e" "snd e"] that by simp
  then have "fold (\<lambda>r. kv_set (rid r) r) (map snd m) [] = fold (\<lambda>(k, v). kv_set k v) m []"
    unfolding fold_map by (intro fold_cong) (auto simp: case_prod_beta)
  with kv_rebuild[OF assms(1)] show ?thesis by (simp add: store_records_def)
qed

lemma index_records_get:
  assumes "\<forall>r \<in> set rs. \<not> ex r \<longrightarrow> kv_get byKey (rkey r) = Some (rid r)" "\<forall>k i. kv_get m k = Some i \<longrightarrow> kv_get byKey k = Some i"
  shows "kv_get (index_records ex rkey rid rs m) k = Some i \<longleftrightarrow>
    kv_get m k = Some i \<or> (\<exists>r \<in> set rs. \<not> ex r \<and> rkey r = k \<and> rid r = i)"
  using assms
proof (induction rs arbitrary: m)
  case (Cons r rs)
  show ?case
  proof (cases "ex r")
    case False
    have r: "kv_get byKey (rkey r) = Some (rid r)" using Cons.prems(1) False by simp
    then have m: "kv_get m (rkey r) = Some j \<Longrightarrow> j = rid r" for j using Cons.prems(2) by fastforce
    have "\<forall>k i. kv_get (kv_set (rkey r) (rid r) m) k = Some i \<longrightarrow> kv_get byKey k = Some i" using r Cons.prems(2) by simp
    with Cons.IH[of "kv_set (rkey r) (rid r) m"] Cons.prems(1) False m show ?thesis by auto
  qed (use Cons in simp)
qed simp

lemma stored_records: "kv_wf m \<Longrightarrow> r \<in> set (map snd m) \<longleftrightarrow> (\<exists>i. kv_get m i = Some r)"
  by (force simp: kv_wf_get_iff)

text \<open>From consistent tables, exactly the tables come back.\<close>

lemma table_rebuild:
  assumes "table_ok rid rkey rstat ex seq recs byKey byStatus"
  shows "store_records rid (map snd recs) [] = recs"
    and "kv_get (index_records ex rkey rid (map snd recs) []) k = kv_get byKey k"
    and "(\<exists>r \<in> set (map snd recs). x = (rstat r, rid r)) \<longleftrightarrow> ks_has byStatus x"
proof -
  note wf = table_ok_wf(1)[OF assms] and get = table_ok_get[OF assms]
  show "store_records rid (map snd recs) [] = recs" by (rule store_records_rebuild[OF wf get(1)])
  have "\<forall>r \<in> set (map snd recs). \<not> ex r \<longrightarrow> kv_get byKey (rkey r) = Some (rid r)"
  proof (intro ballI impI)
    fix r assume r: "r \<in> set (map snd recs)" "\<not> ex r"
    then obtain i where i: "kv_get recs i = Some r" unfolding stored_records[OF wf] by blast
    with get(1,3)[OF i] r(2) show "kv_get byKey (rkey r) = Some (rid r)" by simp
  qed
  note ix = index_records_get[OF this, of "[]"]
  have "kv_get (index_records ex rkey rid (map snd recs) []) k = Some i \<longleftrightarrow> kv_get byKey k = Some i" for i
    using ix[of k i] table_ok_byKey[OF assms, of k i] get unfolding stored_records[OF wf] Bex_def by auto
  then show "kv_get (index_records ex rkey rid (map snd recs) []) k = kv_get byKey k"
    by (cases "kv_get byKey k") (metis option.exhaust)+
  obtain n j where x: "x = (n, j)" by force
  show "(\<exists>r \<in> set (map snd recs). x = (rstat r, rid r)) \<longleftrightarrow> ks_has byStatus x"
    unfolding stored_records[OF wf] Bex_def x table_ok_status[OF assms] using get(1) by auto
qed

section \<open>What an export needs\<close>

text \<open>
  Two more facts of every reachable state: the links form an ordered store, and the validators listed
  on withdrawals have addresses that parse.
\<close>

definition export_ok :: "(string \<Rightarrow> bytes option) \<Rightarrow> 'b bridge_state \<Rightarrow> bool" where
  "export_ok valdec s \<longleftrightarrow> kv_wf (ActiveName s) \<and> confs_decode valdec w_ValidatorConfirmations (Withdrawal s)"

lemma export_ok_same:
  "export_ok valdec s \<Longrightarrow> ActiveName s' = ActiveName s \<Longrightarrow> Withdrawal s' = Withdrawal s \<Longrightarrow> export_ok valdec s'"
  by (simp add: export_ok_def)

lemma sweeps_export_ok:
  "expireDeposit E i s = Inr t \<Longrightarrow> export_ok valdec s \<Longrightarrow> export_ok valdec t"
  "expireRegistration E i s = Inr t \<Longrightarrow> export_ok valdec s \<Longrightarrow> export_ok valdec t"
  "refundWithdrawal E bk i s = Inr t \<Longrightarrow> export_ok valdec s \<Longrightarrow> export_ok valdec t"
proof -
  show "export_ok valdec t" if "expireDeposit E i s = Inr t" "export_ok valdec s"
    by (rule export_ok_same[OF that(2)]; use that(1) in
        \<open>auto simp: expireDeposit_def rbind_eq_Inr Let_def setDepositStatus_def clearDepositFactsVotes_def\<close>)
  show "export_ok valdec t" if "expireRegistration E i s = Inr t" "export_ok valdec s"
    by (rule export_ok_same[OF that(2)]; use that(1) in
        \<open>auto simp: expireRegistration_def rbind_eq_Inr Let_def setNameRegistrationStatus_def clearNameFactsVotes_def\<close>)
  show "export_ok valdec t" if "refundWithdrawal E bk i s = Inr t" "export_ok valdec s"
    using that by (auto simp: refundWithdrawal_def rbind_eq_Inr Let_def export_ok_def confs_decode_def split: if_splits)
qed

lemma supersede_keeps_links: "ActiveName (supersedeRegistration i s) = ActiveName s"
  by (simp add: supersedeRegistration_def setNameRegistrationStatus_def split: option.split)

lemma ConfirmName_links:
  assumes "ConfirmName E msg s = Inr s'" "kv_wf (ActiveName s)"
  shows "kv_wf (ActiveName s')"
proof -
  obtain r a s1 where s1: "supersedeActive E r s = Inr s1" and s': "s' = installLink E r a s1"
    using assms(1) by (auto simp: ConfirmName_def rbind_eq_Inr)
  have "ActiveName s1 = ActiveName s"
    using s1 by (auto simp: supersedeActive_def rbind_eq_Inr supersede_keeps_links split: option.splits)
  with assms(2) show ?thesis by (simp add: s' installLink_def Let_def setNameRegistrationStatus_def)
qed

lemma bridge_exec_export_ok:
  assumes env: "bridge_env_ok codec valdec E" and ok: "export_ok valdec s"
    and run: "bridge_exec E bk oper (s, orc) = Inr (s', orc')"
  shows "export_ok valdec s'"
proof (cases oper)
  case (OpAttestDeposit msg)
  with run have r: "AttestDeposit E bk msg s = Inr s'" by (simp add: rbind_eq_Inr)
  show ?thesis
  proof (cases "s' = s")
    case False
    have "same_withdrawals s s'" "same_names s s'" by (rule AttestDeposit_effect[OF r False], assumption)+
    then show ?thesis by (intro export_ok_same[OF ok]) (simp_all add: same_defs)
  qed (use ok in simp)
next
  case (OpSubmitName msg)
  with run have r: "SubmitNameRegistration E bk msg s = Inr s'" by (simp add: rbind_eq_Inr)
  show ?thesis
  proof (cases "s' = s")
    case False
    have "same_withdrawals s s'" "ActiveName s' = ActiveName s"
      by (rule SubmitNameRegistration_effect[OF r False], assumption)+
    then show ?thesis by (intro export_ok_same[OF ok]) (simp_all add: same_defs)
  qed (use ok in simp)
next
  case (OpConfirmName msg)
  with run have r: "ConfirmName E msg s = Inr s'" by (simp add: rbind_eq_Inr)
  with ConfirmName_links[OF r] ConfirmName_frame(4)[OF r] ok show ?thesis by (simp add: export_ok_def same_defs)
next
  case (OpBridgeOut msg)
  with run have r: "BridgeOut E bk msg s = Inr s'" by (simp add: rbind_eq_Inr)
  obtain amount net fee b t where "s' = openWithdrawal E msg amount net fee (s\<lparr>bank := b, Totals := t\<rparr>)"
    by (rule BridgeOut_Inr[OF r])
  with ok show ?thesis
    by (auto simp: export_ok_def confs_decode_def openWithdrawal_def Let_def newWithdrawal_def split: if_splits)
next
  case (OpAttestPayout msg)
  with run have r: "AttestWithdrawalPayout E msg s = Inr s'" by (simp add: rbind_eq_Inr)
  have dec: "valdec (ValAddressString E a) = Some a" for a using env by (auto simp: bridge_env_ok_def val_codec_ok_def)
  from AttestWithdrawalPayout_effect[OF r] ok show ?thesis
    by (auto simp: export_ok_def confs_decode_def same_defs dec split: if_splits)
next
  case OpEndBlock
  with run have run': "bridge_EndBlock E bk (s, orc) = Inr (s', orc')" by simp
  obtain s2 s3 s4 b where r: "ExpireDeposits E (s\<lparr>BridgeDutyQueue := []\<rparr>) = Inr s2" "ExpireNameRegistrations E s2 = Inr s3"
    "RefundExpiredWithdrawals E bk s3 = Inr s4" "s' = s4\<lparr>bank := b\<rparr>"
    by (rule bridge_EndBlock_Inr[OF run'])
  have "export_ok valdec (s\<lparr>BridgeDutyQueue := []\<rparr>)" by (rule export_ok_same[OF ok]) simp_all
  then have "export_ok valdec s2"
    using r(1) sweeps_export_ok(1)[of E _ _ _ valdec]
    by (auto simp: ExpireDeposits_def rbind_eq_Inr elim!: rfold_invariant[where P = "export_ok valdec"])
  then have "export_ok valdec s3"
    using r(2) sweeps_export_ok(2)[of E _ _ _ valdec]
    by (auto simp: ExpireNameRegistrations_def rbind_eq_Inr elim!: rfold_invariant[where P = "export_ok valdec"])
  then have "export_ok valdec s4"
    using r(3) sweeps_export_ok(3)[of E bk _ _ _ valdec]
    by (auto simp: RefundExpiredWithdrawals_def rbind_eq_Inr split: if_splits
        elim!: rfold_invariant[where P = "export_ok valdec"])
  then show ?thesis by (rule export_ok_same) (simp_all add: r(4))
qed (use run ok in \<open>auto simp: export_ok_def rbind_eq_Inr bridge_UpdateParams_def bridge_BeginBlock_def\<close>)

lemma reachable_export_ok:
  assumes "bridge_reaches bk (bridge_env_ok codec valdec) n c"
  shows "export_ok valdec (fst c)"
  using assms
proof (induction rule: bridge_reaches.induct)
  case (start p b ok)
  then show ?case by (simp add: export_ok_def confs_decode_def)
next
  case (step n c E oper c')
  from bridge_exec_export_ok[OF step.hyps(2) step.IH, of bk oper "snd c" "fst c'" "snd c'"] step.hyps(3)
  show ?case by simp
qed

section \<open>The imported state\<close>

definition same_registrations :: "'b bridge_state \<Rightarrow> 'b bridge_state \<Rightarrow> bool" where
  "same_registrations s s' \<longleftrightarrow> NameRegistrationSeq s' = NameRegistrationSeq s \<and>
     NameRegistration s' = NameRegistration s \<and> NameRegistrationByTxid s' = NameRegistrationByTxid s \<and>
     NameRegistrationConfirmedBy s' = NameRegistrationConfirmedBy s \<and>
     NameRegistrationByStatus s' = NameRegistrationByStatus s \<and>
     NameRegistrationByAccount s' = NameRegistrationByAccount s \<and>
     NameRegistrationAwaitingByDest s' = NameRegistrationAwaitingByDest s"

lemma without_frames:
  "without_deposits s' = without_deposits s \<Longrightarrow> same_withdrawals s s' \<and> same_names s s'"
  "without_withdrawals s' = without_withdrawals s \<Longrightarrow> same_deposits s s' \<and> same_names s s'"
  "without_names s' = without_names s \<Longrightarrow> same_deposits s s' \<and> same_withdrawals s s' \<and> Totals s' = Totals s \<and>
     ActiveName s' = ActiveName s \<and> ActiveNameByAddress s' = ActiveNameByAddress s"
  "without_links s' = without_links s \<Longrightarrow>
     same_deposits s s' \<and> same_withdrawals s s' \<and> same_registrations s s' \<and> Totals s' = Totals s"
  by (cases s; cases s'; simp add: same_defs same_registrations_def without_deposits_def without_withdrawals_def
      without_names_def without_links_def)+

lemma InitGenesis_fields:
  assumes "bridge_InitGenesis E gs (empty_bridge b) = Inr s"
  shows "b_Params s = Some (gs_Params gs)"
    and "Totals s = Some \<lparr>TotalMintedAsteem = stored_int (gs_TotalMintedAsteem gs),
      TotalBurnedAsteem = stored_int (gs_TotalBurnedAsteem gs), TotalMintedAsbd = 0, TotalBurnedAsbd = 0\<rparr>"
    and "DepositSeq s = gs_DepositCount gs" "WithdrawalSeq s = gs_WithdrawalCount gs"
    and "NameRegistrationSeq s = gs_NameRegistrationCount gs"
    and "Deposit s = store_records d_Id (gs_DepositList gs) []"
    and "DepositByTxid s = index_records deposit_expired deposit_key d_Id (gs_DepositList gs) []"
    and "ks_has (DepositByStatus s) x \<longleftrightarrow> (\<exists>d \<in> set (gs_DepositList gs). x = (dstat (d_Status d), d_Id d))"
    and "ks_has (DepositConfirmedBy s) y \<longleftrightarrow> (\<exists>d \<in> set (gs_DepositList gs). \<not> deposit_expired d \<and>
      (\<exists>v. confirms E (d_ValidatorConfirmations d) v \<and> y = (d_Txid d, d_OpIndex d, v)))"
    and "ks_has (DepositFactsVote s) z \<longleftrightarrow> (\<exists>d \<in> set (gs_DepositList gs). \<not> deposit_expired d \<and>
      (\<exists>v. confirms E (d_ValidatorConfirmations d) v \<and> z = (dedupKeyString (d_Txid d) (d_OpIndex d), depositFacts E d, v)))"
    and "Withdrawal s = store_records w_Id (gs_WithdrawalList gs) []"
    and "ks_has (WithdrawalByStatus s) x \<longleftrightarrow> (\<exists>w \<in> set (gs_WithdrawalList gs). x = (wstat (w_Status w), w_Id w))"
    and "NameRegistration s = store_records n_Id (gs_NameRegistrationList gs) []"
    and "NameRegistrationByTxid s = index_records name_expired name_key n_Id (gs_NameRegistrationList gs) []"
    and "ks_has (NameRegistrationByStatus s) x \<longleftrightarrow> (\<exists>r \<in> set (gs_NameRegistrationList gs). x = (nstat (n_Status r), n_Id r))"
    and "ks_has (NameRegistrationByAccount s) q \<longleftrightarrow> (\<exists>r \<in> set (gs_NameRegistrationList gs). q = (n_SteemAccount r, n_Id r))"
    and "ks_has (NameRegistrationAwaitingByDest s) p \<longleftrightarrow> (\<exists>r \<in> set (gs_NameRegistrationList gs).
      n_Status r = NAME_REGISTRATION_STATUS_AWAITING_CONFIRMATION \<and>
      (\<exists>a. StringToBytes E (n_DerivedDestination r) = Some a \<and> p = (a, n_Id r)))"
    and "ks_has (NameRegistrationConfirmedBy s) y \<longleftrightarrow> (\<exists>r \<in> set (gs_NameRegistrationList gs). \<not> name_expired r \<and>
      (\<exists>v. confirms E (n_ValidatorConfirmations r) v \<and> y = (n_Txid r, n_OpIndex r, v)))"
    and "ActiveName s = store_records nr_SteemAccount (gs_ActiveNameList gs) []"
    and "ks_has (ActiveNameByAddress s) l \<longleftrightarrow> (\<exists>n \<in> set (gs_ActiveNameList gs).
      \<exists>a. StringToBytes E (nr_Address n) = Some a \<and> l = (a, nr_SteemAccount n))"
proof -
  let ?tot = "\<lparr>TotalMintedAsteem = stored_int (gs_TotalMintedAsteem gs),
      TotalBurnedAsteem = stored_int (gs_TotalBurnedAsteem gs), TotalMintedAsbd = 0, TotalBurnedAsbd = 0\<rparr>"
  obtain s1 s2 s4 s5 where d: "rfold (importDeposit E) (gs_DepositList gs) (empty_bridge b) = Inr s1"
    and w: "rfold (importWithdrawal E) (gs_WithdrawalList gs) (s1\<lparr>DepositSeq := gs_DepositCount gs\<rparr>) = Inr s2"
    and n: "rfold (importRegistration E) (gs_NameRegistrationList gs)
        (s2\<lparr>WithdrawalSeq := gs_WithdrawalCount gs, Totals := Some ?tot\<rparr>) = Inr s4"
    and l: "rfold (importActiveName E) (gs_ActiveNameList gs) (s4\<lparr>NameRegistrationSeq := gs_NameRegistrationCount gs\<rparr>) = Inr s5"
    and s: "s = s5\<lparr>b_Params := Some (gs_Params gs)\<rparr>"
    using assms by (auto simp: bridge_InitGenesis_def Let_def rbind_eq_Inr)
  note fd = without_frames(1)[OF import_deposits(6)[OF d]] and fw = without_frames(2)[OF import_withdrawals(3)[OF w]]
    and fn = without_frames(3)[OF import_registrations(7)[OF n]] and fl = without_frames(4)[OF import_links(3)[OF l]]
  note frames = fd fw fn fl same_defs same_registrations_def empty_bridge_def
  note d' = import_deposits[OF d] and w' = import_withdrawals[OF w] and n' = import_registrations[OF n]
    and l' = import_links[OF l]
  show "b_Params s = Some (gs_Params gs)" by (simp add: s)
  show "Totals s = Some ?tot" "DepositSeq s = gs_DepositCount gs" "WithdrawalSeq s = gs_WithdrawalCount gs"
    "NameRegistrationSeq s = gs_NameRegistrationCount gs"
    using fw fn fl by (simp_all add: s same_defs same_registrations_def)
  have dep: "Deposit s = Deposit s1" "DepositByTxid s = DepositByTxid s1" "DepositByStatus s = DepositByStatus s1"
    "DepositConfirmedBy s = DepositConfirmedBy s1" "DepositFactsVote s = DepositFactsVote s1"
    using fw fn fl by (simp_all add: s same_defs)
  show "Deposit s = store_records d_Id (gs_DepositList gs) []"
    "DepositByTxid s = index_records deposit_expired deposit_key d_Id (gs_DepositList gs) []"
    unfolding dep d' by (simp_all add: empty_bridge_def)
  show "ks_has (DepositByStatus s) x \<longleftrightarrow> (\<exists>d \<in> set (gs_DepositList gs). x = (dstat (d_Status d), d_Id d))"
    "ks_has (DepositConfirmedBy s) y \<longleftrightarrow> (\<exists>d \<in> set (gs_DepositList gs). \<not> deposit_expired d \<and>
      (\<exists>v. confirms E (d_ValidatorConfirmations d) v \<and> y = (d_Txid d, d_OpIndex d, v)))"
    "ks_has (DepositFactsVote s) z \<longleftrightarrow> (\<exists>d \<in> set (gs_DepositList gs). \<not> deposit_expired d \<and>
      (\<exists>v. confirms E (d_ValidatorConfirmations d) v \<and> z = (dedupKeyString (d_Txid d) (d_OpIndex d), depositFacts E d, v)))"
    unfolding dep d' by (simp_all add: empty_bridge_def)
  have wdr: "Withdrawal s = Withdrawal s2" "WithdrawalByStatus s = WithdrawalByStatus s2"
    "Withdrawal s1 = []" "WithdrawalByStatus s1 = []"
    using fd fn fl by (simp_all add: s same_defs empty_bridge_def)
  show "Withdrawal s = store_records w_Id (gs_WithdrawalList gs) []"
    "ks_has (WithdrawalByStatus s) x \<longleftrightarrow> (\<exists>w \<in> set (gs_WithdrawalList gs). x = (wstat (w_Status w), w_Id w))"
    unfolding wdr(1,2) w' by (simp_all add: wdr(3,4))
  have reg: "NameRegistration s = NameRegistration s4" "NameRegistrationByTxid s = NameRegistrationByTxid s4"
    "NameRegistrationByStatus s = NameRegistrationByStatus s4" "NameRegistrationByAccount s = NameRegistrationByAccount s4"
    "NameRegistrationAwaitingByDest s = NameRegistrationAwaitingByDest s4"
    "NameRegistrationConfirmedBy s = NameRegistrationConfirmedBy s4"
    using fl by (simp_all add: s same_registrations_def)
  have reg0: "NameRegistration s2 = []" "NameRegistrationByTxid s2 = []" "NameRegistrationByStatus s2 = []"
    "NameRegistrationByAccount s2 = []" "NameRegistrationAwaitingByDest s2 = []" "NameRegistrationConfirmedBy s2 = []"
    using fd fw by (simp_all add: same_defs empty_bridge_def)
  show "NameRegistration s = store_records n_Id (gs_NameRegistrationList gs) []"
    "NameRegistrationByTxid s = index_records name_expired name_key n_Id (gs_NameRegistrationList gs) []"
    "ks_has (NameRegistrationByStatus s) x \<longleftrightarrow> (\<exists>r \<in> set (gs_NameRegistrationList gs). x = (nstat (n_Status r), n_Id r))"
    "ks_has (NameRegistrationByAccount s) q \<longleftrightarrow> (\<exists>r \<in> set (gs_NameRegistrationList gs). q = (n_SteemAccount r, n_Id r))"
    "ks_has (NameRegistrationAwaitingByDest s) p \<longleftrightarrow> (\<exists>r \<in> set (gs_NameRegistrationList gs).
      n_Status r = NAME_REGISTRATION_STATUS_AWAITING_CONFIRMATION \<and>
      (\<exists>a. StringToBytes E (n_DerivedDestination r) = Some a \<and> p = (a, n_Id r)))"
    "ks_has (NameRegistrationConfirmedBy s) y \<longleftrightarrow> (\<exists>r \<in> set (gs_NameRegistrationList gs). \<not> name_expired r \<and>
      (\<exists>v. confirms E (n_ValidatorConfirmations r) v \<and> y = (n_Txid r, n_OpIndex r, v)))"
    unfolding reg n' by (simp_all add: reg0)
  have lnk: "ActiveName s = ActiveName s5" "ActiveNameByAddress s = ActiveNameByAddress s5"
    "ActiveName s4 = []" "ActiveNameByAddress s4 = []"
    using fd fw fn by (simp_all add: s same_defs empty_bridge_def)
  show "ActiveName s = store_records nr_SteemAccount (gs_ActiveNameList gs) []"
    "ks_has (ActiveNameByAddress s) l \<longleftrightarrow> (\<exists>n \<in> set (gs_ActiveNameList gs).
      \<exists>a. StringToBytes E (nr_Address n) = Some a \<and> l = (a, nr_SteemAccount n))"
    unfolding lnk(1,2) l' by (simp_all add: lnk(3,4))
qed

lemma InitGenesis_total:
  assumes "\<forall>d \<in> set (gs_DepositList gs). \<forall>c \<in> set (d_ValidatorConfirmations d). ValAddressFromBech32 E (c_ValidatorAddress c) \<noteq> None"
    and "\<forall>w \<in> set (gs_WithdrawalList gs). \<forall>c \<in> set (w_ValidatorConfirmations w). ValAddressFromBech32 E (c_ValidatorAddress c) \<noteq> None"
    and "\<forall>r \<in> set (gs_NameRegistrationList gs).
      (\<forall>c \<in> set (n_ValidatorConfirmations r). ValAddressFromBech32 E (c_ValidatorAddress c) \<noteq> None) \<and>
      (n_Status r = NAME_REGISTRATION_STATUS_AWAITING_CONFIRMATION \<longrightarrow> StringToBytes E (n_DerivedDestination r) \<noteq> None)"
    and "\<forall>n \<in> set (gs_ActiveNameList gs). StringToBytes E (nr_Address n) \<noteq> None"
  shows "\<exists>s'. bridge_InitGenesis E gs s = Inr s'"
proof -
  obtain s1 where s1: "rfold (importDeposit E) (gs_DepositList gs) s = Inr s1"
    using import_deposits_total[OF assms(1)] by blast
  obtain s2 where s2: "rfold (importWithdrawal E) (gs_WithdrawalList gs) (s1\<lparr>DepositSeq := gs_DepositCount gs\<rparr>) = Inr s2"
    using import_withdrawals_total[OF assms(2)] by blast
  let ?s3 = "s2\<lparr>WithdrawalSeq := gs_WithdrawalCount gs, Totals := Some \<lparr>TotalMintedAsteem = stored_int (gs_TotalMintedAsteem gs),
      TotalBurnedAsteem = stored_int (gs_TotalBurnedAsteem gs), TotalMintedAsbd = 0, TotalBurnedAsbd = 0\<rparr>\<rparr>"
  obtain s4 where s4: "rfold (importRegistration E) (gs_NameRegistrationList gs) ?s3 = Inr s4"
    using import_registrations_total[OF assms(3)] by blast
  obtain s5 where "rfold (importActiveName E) (gs_ActiveNameList gs) (s4\<lparr>NameRegistrationSeq := gs_NameRegistrationCount gs\<rparr>) = Inr s5"
    using import_links_total[OF assms(4)] by blast
  with s1 s2 s4 show ?thesis by (simp add: bridge_InitGenesis_def Let_def)
qed

section \<open>Valid documents\<close>

lemma check_deposits_distinct:
  "rfold (check_deposit n) ds seen = Inr seen' \<Longrightarrow> distinct (map d_Id ds) \<and> set (map d_Id ds) \<inter> set (fst seen) = {}"
proof (induction ds arbitrary: seen)
  case (Cons d ds)
  then obtain u where "check_deposit n d seen = Inr u" "rfold (check_deposit n) ds u = Inr seen'"
    by (auto simp: rbind_eq_Inr)
  with Cons.IH[OF this(2)] show ?case by (auto simp: check_deposit_def rbind_eq_Inr Let_def)
qed simp

lemma check_withdrawals_distinct:
  "rfold (check_withdrawal n) ws seen = Inr seen' \<Longrightarrow> distinct (map w_Id ws) \<and> set (map w_Id ws) \<inter> set seen = {}"
proof (induction ws arbitrary: seen)
  case (Cons w ws)
  then obtain u where "check_withdrawal n w seen = Inr u" "rfold (check_withdrawal n) ws u = Inr seen'"
    by (auto simp: rbind_eq_Inr)
  with Cons.IH[OF this(2)] show ?case by (auto simp: check_withdrawal_def rbind_eq_Inr)
qed simp

lemma check_registrations_distinct:
  "rfold (check_registration E n) rs seen = Inr seen' \<Longrightarrow>
   distinct (map n_Id rs) \<and> (\<forall>r \<in> set rs. kv_get (fst seen) (n_Id r) = None)"
proof (induction rs arbitrary: seen)
  case (Cons r rs)
  then obtain u where u: "check_registration E n r seen = Inr u" "rfold (check_registration E n) rs u = Inr seen'"
    by (auto simp: rbind_eq_Inr)
  have "kv_get (fst seen) (n_Id r) = None" "fst u = kv_set (n_Id r) r (fst seen)"
    using u(1) by (auto simp: check_registration_def rbind_eq_Inr Let_def)
  with Cons.IH[OF u(2)] show ?case by (auto split: if_splits)
qed simp

lemma check_names_distinct:
  "rfold (check_active_name E regs) ns seen = Inr seen' \<Longrightarrow>
   distinct (map nr_SteemAccount ns) \<and> set (map nr_SteemAccount ns) \<inter> set seen = {}"
proof (induction ns arbitrary: seen)
  case (Cons n ns)
  then obtain u where "check_active_name E regs n seen = Inr u" "rfold (check_active_name E regs) ns u = Inr seen'"
    by (auto simp: rbind_eq_Inr)
  with Cons.IH[OF this(2)] show ?case by (auto simp: check_active_name_def rbind_eq_Inr)
qed simp

lemma mset_kv_set: "k \<notin> fst ` set m \<Longrightarrow> mset (kv_set k v m) = add_mset (k, v) (mset m)"
  by (induction k v m rule: kv_set.induct) auto

lemma store_records_set:
  "distinct (map rid rs) \<Longrightarrow> kv_wf m \<Longrightarrow> set (map rid rs) \<inter> fst ` set m = {} \<Longrightarrow>
   kv_wf (store_records rid rs m) \<and> mset (store_records rid rs m) = mset m + mset (map (\<lambda>r. (rid r, r)) rs)"
proof (induction rs arbitrary: m)
  case (Cons r rs)
  have new: "rid r \<notin> fst ` set m" using Cons.prems(3) by auto
  have "set (map rid rs) \<inter> fst ` set (kv_set (rid r) r m) = {}"
    using Cons.prems(1,3) unfolding fst_kv_set by auto
  with Cons.IH[of "kv_set (rid r) r m"] Cons.prems mset_kv_set[OF new, of r] show ?case by simp
qed simp

text \<open>A walk of the imported store lists the records of the document in the order of their keys.\<close>

lemma store_records_sorts:
  assumes "distinct (map rid rs)"
  shows "map snd (store_records rid rs []) = sort_key rid rs"
proof -
  let ?m = "store_records rid rs []"
  have m: "kv_wf ?m" "mset ?m = mset (map (\<lambda>r. (rid r, r)) rs)"
    using store_records_set[OF assms, of "[]"] by auto
  have "mset (map snd ?m) = mset rs" using arg_cong[OF m(2), of "image_mset snd"] by (simp add: multiset.map_comp o_def)
  moreover have "\<forall>e \<in> set ?m. rid (snd e) = fst e"
    using arg_cong[OF m(2), of set_mset] by auto
  then have "map rid (map snd ?m) = map fst ?m" by simp
  then have "sorted (map rid (map snd ?m))" using m(1) by (simp only: kv_wf_def strict_sorted_imp_sorted)
  ultimately show ?thesis
    using assms by (intro sort_key_inj_key_eq[symmetric]) (simp_all add: distinct_map)
qed

text \<open>
  C34: Importing a valid genesis document and exporting it again gives the document back, its lists in
  the order of their keys: no record, counter, parameter or STEEM total is lost or altered.
\<close>

theorem valid_genesis_round_trips:
  assumes "genesis_Validate E gs = Inr ()" "bridge_InitGenesis E' gs (empty_bridge b) = Inr s"
  shows "bridge_ExportGenesis s = Inr (gs\<lparr>gs_DepositList := sort_key d_Id (gs_DepositList gs),
     gs_WithdrawalList := sort_key w_Id (gs_WithdrawalList gs),
     gs_NameRegistrationList := sort_key n_Id (gs_NameRegistrationList gs),
     gs_ActiveNameList := sort_key nr_SteemAccount (gs_ActiveNameList gs)\<rparr>)"
proof -
  obtain x y z w where v: "rfold (check_deposit (gs_DepositCount gs)) (gs_DepositList gs) ([], []) = Inr x"
    "rfold (check_withdrawal (gs_WithdrawalCount gs)) (gs_WithdrawalList gs) [] = Inr y"
    "check_total (gs_TotalMintedAsteem gs) = Inr ()" "check_total (gs_TotalBurnedAsteem gs) = Inr ()"
    "rfold (check_registration E (gs_NameRegistrationCount gs)) (gs_NameRegistrationList gs) ([], []) = Inr z"
    "rfold (check_active_name E (fst z)) (gs_ActiveNameList gs) [] = Inr w"
    using assms(1) by (auto simp: genesis_Validate_def rbind_eq_Inr)
  note F = InitGenesis_fields[OF assms(2)]
  have "map snd (Deposit s) = sort_key d_Id (gs_DepositList gs)" "map snd (Withdrawal s) = sort_key w_Id (gs_WithdrawalList gs)"
    "map snd (NameRegistration s) = sort_key n_Id (gs_NameRegistrationList gs)"
    "map snd (ActiveName s) = sort_key nr_SteemAccount (gs_ActiveNameList gs)"
    unfolding F by (rule store_records_sorts; use check_deposits_distinct[OF v(1)] check_withdrawals_distinct[OF v(2)]
        check_registrations_distinct[OF v(5)] check_names_distinct[OF v(6)] in blast)+
  moreover have "Some (stored_int (gs_TotalMintedAsteem gs)) = gs_TotalMintedAsteem gs"
    "Some (stored_int (gs_TotalBurnedAsteem gs)) = gs_TotalBurnedAsteem gs"
    using v(3,4) by (auto simp: check_total_def stored_int_def split: option.splits)
  ultimately show ?thesis by (simp add: bridge_ExportGenesis_def F(1-5))
qed

definition demo_genesis :: genesis_state where
  "demo_genesis = DefaultGenesis\<lparr>gs_DepositCount := 4, gs_DepositList :=
     [\<lparr>d_Id = 2, d_Txid = ''t2'', d_OpIndex = 0, d_SteemBlock = 5, d_SteemTimestamp = '''', d_SteemSender = ''alice'',
       d_GatewayAccount = GatewayAccount, d_AmountMillisteem = 7, d_Memo = ''bob'', d_DerivedDestination = '''',
       d_DestinationType = DESTINATION_TYPE_NONE, d_Status = DEPOSIT_STATUS_PENDING, d_Minted = False, d_MintedAt = 0,
       d_MintTxHash = '''', d_CreatedAt = 1, d_ValidatorConfirmations = [], d_Asset = BRIDGE_ASSET_STEEM\<rparr>]\<rparr>"

lemma valid_genesis_round_trips_witness:
  "\<exists>s. genesis_Validate strict_env demo_genesis = Inr () \<and>
     bridge_InitGenesis strict_env demo_genesis (empty_bridge empty_ledger) = Inr s \<and>
     bridge_ExportGenesis s = Inr demo_genesis"
proof -
  have valid: "genesis_Validate strict_env demo_genesis = Inr ()"
    using bridge_default_valid
    by (simp add: genesis_Validate_def demo_genesis_def DefaultGenesis_def check_deposit_def confirmations_distinct_def
        check_total_def)
  have "\<exists>s. bridge_InitGenesis strict_env demo_genesis (empty_bridge empty_ledger) = Inr s"
    by (rule InitGenesis_total) (simp_all add: demo_genesis_def DefaultGenesis_def)
  then obtain s where s: "bridge_InitGenesis strict_env demo_genesis (empty_bridge empty_ledger) = Inr s" by blast
  from valid_genesis_round_trips[OF valid s] valid s show ?thesis
    by (intro exI[where x = s]) (simp add: demo_genesis_def DefaultGenesis_def)
qed

section \<open>Restarting from an export\<close>

text \<open>
  What the chain that starts from an export shares with the one that made it: parameters, counters,
  all records and links, every lookup by transfer, status, account and destination, the STEEM totals,
  and that whoever has confirmed a transfer is not heard again on it.
\<close>

definition restored :: "'b bridge_state \<Rightarrow> 'b bridge_state \<Rightarrow> bool" where
  "restored s s' \<longleftrightarrow>
     b_Params s' = b_Params s \<and> DepositSeq s' = DepositSeq s \<and> WithdrawalSeq s' = WithdrawalSeq s \<and>
     NameRegistrationSeq s' = NameRegistrationSeq s \<and>
     Deposit s' = Deposit s \<and> Withdrawal s' = Withdrawal s \<and> NameRegistration s' = NameRegistration s \<and>
     ActiveName s' = ActiveName s \<and>
     (\<forall>k. kv_get (DepositByTxid s') k = kv_get (DepositByTxid s) k) \<and>
     (\<forall>k. kv_get (NameRegistrationByTxid s') k = kv_get (NameRegistrationByTxid s) k) \<and>
     (\<forall>x. ks_has (DepositByStatus s') x \<longleftrightarrow> ks_has (DepositByStatus s) x) \<and>
     (\<forall>x. ks_has (WithdrawalByStatus s') x \<longleftrightarrow> ks_has (WithdrawalByStatus s) x) \<and>
     (\<forall>x. ks_has (NameRegistrationByStatus s') x \<longleftrightarrow> ks_has (NameRegistrationByStatus s) x) \<and>
     (\<forall>x. ks_has (NameRegistrationByAccount s') x \<longleftrightarrow> ks_has (NameRegistrationByAccount s) x) \<and>
     (\<forall>x. ks_has (NameRegistrationAwaitingByDest s') x \<longleftrightarrow> ks_has (NameRegistrationAwaitingByDest s) x) \<and>
     (\<forall>x. ks_has (ActiveNameByAddress s') x \<longleftrightarrow> ks_has (ActiveNameByAddress s) x) \<and>
     (\<forall>x. ks_has (DepositConfirmedBy s) x \<longrightarrow> ks_has (DepositConfirmedBy s') x) \<and>
     (\<forall>x. ks_has (NameRegistrationConfirmedBy s) x \<longrightarrow> ks_has (NameRegistrationConfirmedBy s') x) \<and>
     (\<exists>t t'. Totals s = Some t \<and> Totals s' = Some t' \<and>
        outstanding BRIDGE_ASSET_STEEM t' = outstanding BRIDGE_ASSET_STEEM t)"

text \<open>Whoever is recorded as having confirmed a key is listed on its live record.\<close>

lemma confirmed_on_record:
  assumes tab: "table_ok rid rkey rstat ex seq recs byKey byStatus"
    and listed: "confirmed_listed valdec confs byKey recs confirmed" and has: "ks_has confirmed (t, j, v)"
  shows "\<exists>r \<in> set (map snd recs). \<not> ex r \<and> rkey r = (t, j) \<and> (\<exists>c \<in> set (confs r). valdec (c_ValidatorAddress c) = Some v)"
proof -
  obtain i r c where r: "kv_get byKey (t, j) = Some i" "kv_get recs i = Some r" "c \<in> set (confs r)"
      "valdec (c_ValidatorAddress c) = Some v"
    using listed has unfolding confirmed_listed_def by blast
  with table_ok_key[OF tab r(1,2)] show ?thesis
    unfolding Bex_def stored_records[OF table_ok_wf(1)[OF tab]] by blast
qed

lemma rows_rebuild:
  assumes "rows_ok rid rstat seq recs byStatus"
  shows "store_records rid (map snd recs) [] = recs"
    and "(\<exists>r \<in> set (map snd recs). x = (rstat r, rid r)) \<longleftrightarrow> ks_has byStatus x"
proof -
  have wf: "kv_wf recs" using assms by (simp add: rows_ok_def)
  show "store_records rid (map snd recs) [] = recs" by (rule store_records_rebuild[OF wf rows_ok_get(1)[OF assms]])
  obtain n j where x: "x = (n, j)" by force
  show "(\<exists>r \<in> set (map snd recs). x = (rstat r, rid r)) \<longleftrightarrow> ks_has byStatus x"
    unfolding stored_records[OF wf] Bex_def x rows_ok_status[OF assms] using rows_ok_get(1)[OF assms] by auto
qed

lemma restart:
  assumes ok: "bridge_ok codec valdec s" "export_ok valdec s" and E: "bridge_env_ok codec valdec E"
  shows "\<exists>gs s'. bridge_ExportGenesis s = Inr gs \<and> bridge_InitGenesis E gs (empty_bridge b) = Inr s' \<and> restored s s'"
proof -
  note I = bridge_okD[OF ok(1)]
  obtain p t where pt: "b_Params s = Some p" "Totals s = Some t" using I(7,9) by (auto elim: booksD)
  note export = bridge_ExportGenesis_def[of s, unfolded pt from_option_Some rbind_Inr]
  obtain gs where gs: "bridge_ExportGenesis s = Inr gs" "gs_Params gs = p" "gs_DepositList gs = map snd (Deposit s)"
      "gs_DepositCount gs = DepositSeq s" "gs_WithdrawalList gs = map snd (Withdrawal s)" "gs_WithdrawalCount gs = WithdrawalSeq s"
      "gs_TotalMintedAsteem gs = Some (TotalMintedAsteem t)" "gs_TotalBurnedAsteem gs = Some (TotalBurnedAsteem t)"
      "gs_NameRegistrationList gs = map snd (NameRegistration s)" "gs_NameRegistrationCount gs = NameRegistrationSeq s"
      "gs_ActiveNameList gs = map snd (ActiveName s)"
    by (rule that[OF refl[THEN trans[OF export]]]) simp_all
  have codec: "StringToBytes E = codec" "ValAddressFromBech32 E = valdec"
    using E by (simp_all add: bridge_env_ok_def account_codec_ok_def)
  have dtab: "table_ok d_Id deposit_key (\<lambda>d. dstat (d_Status d)) deposit_expired (DepositSeq s) (Deposit s) (DepositByTxid s) (DepositByStatus s)"
    using I(1) by (simp add: deposit_inv_def)
  have ntab: "table_ok n_Id name_key (\<lambda>r. nstat (n_Status r)) name_expired (NameRegistrationSeq s) (NameRegistration s)
      (NameRegistrationByTxid s) (NameRegistrationByStatus s)"
    and acc: "account_index_ok (NameRegistration s) (NameRegistrationByAccount s)"
    and aw: "awaiting_ok codec (NameRegistration s) (NameRegistrationAwaitingByDest s)"
    and lnk: "links_ok codec (NameRegistration s) (ActiveName s) (ActiveNameByAddress s)"
    using I(3) by (simp_all add: name_inv_def)
  have wrows: "rows_ok w_Id (\<lambda>w. wstat (w_Status w)) (WithdrawalSeq s) (Withdrawal s) (WithdrawalByStatus s)"
    using I(5) by (simp add: withdrawal_inv_def)
  have dlist: "confirmed_listed valdec d_ValidatorConfirmations (DepositByTxid s) (Deposit s) (DepositConfirmedBy s)"
      "confs_decode valdec d_ValidatorConfirmations (Deposit s)"
    using I(2) by (simp_all add: deposit_listed_def)
  note nlist = name_listedD[OF I(4)]
  have wf: "kv_wf (Deposit s)" "kv_wf (NameRegistration s)" "kv_wf (Withdrawal s)" "kv_wf (ActiveName s)"
    using table_ok_wf(1)[OF dtab] table_ok_wf(1)[OF ntab] wrows ok(2) by (simp_all add: rows_ok_def export_ok_def)
  have "\<exists>s'. bridge_InitGenesis E gs (empty_bridge b) = Inr s'"
  proof (rule InitGenesis_total)
    show "\<forall>d \<in> set (gs_DepositList gs). \<forall>c \<in> set (d_ValidatorConfirmations d). ValAddressFromBech32 E (c_ValidatorAddress c) \<noteq> None"
      unfolding gs Ball_def stored_records[OF wf(1)] codec using dlist(2) unfolding confs_decode_def by blast
    show "\<forall>w \<in> set (gs_WithdrawalList gs). \<forall>c \<in> set (w_ValidatorConfirmations w). ValAddressFromBech32 E (c_ValidatorAddress c) \<noteq> None"
      unfolding gs Ball_def stored_records[OF wf(3)] codec using ok(2) unfolding export_ok_def confs_decode_def by blast
    show "\<forall>r \<in> set (gs_NameRegistrationList gs).
      (\<forall>c \<in> set (n_ValidatorConfirmations r). ValAddressFromBech32 E (c_ValidatorAddress c) \<noteq> None) \<and>
      (n_Status r = NAME_REGISTRATION_STATUS_AWAITING_CONFIRMATION \<longrightarrow> StringToBytes E (n_DerivedDestination r) \<noteq> None)"
      unfolding gs Ball_def stored_records[OF wf(2)] codec using nlist(2,3) unfolding confs_decode_def by blast
    show "\<forall>n \<in> set (gs_ActiveNameList gs). StringToBytes E (nr_Address n) \<noteq> None"
      unfolding gs Ball_def stored_records[OF wf(4)] codec using lnk unfolding links_ok_def by blast
  qed
  then obtain s' where s': "bridge_InitGenesis E gs (empty_bridge b) = Inr s'" by blast
  note F = InitGenesis_fields[OF s', unfolded gs codec]
  have "restored s s'"
    unfolding restored_def
  proof (intro conjI allI impI)
    show "ActiveName s' = ActiveName s"
      unfolding F by (rule store_records_rebuild[OF wf(4)]) (use lnk in \<open>auto simp: links_ok_def\<close>)
    show "ks_has (NameRegistrationByAccount s') x \<longleftrightarrow> ks_has (NameRegistrationByAccount s) x" for x
      unfolding F Bex_def stored_records[OF wf(2)]
      using acc table_ok_get(1)[OF ntab] by (cases x) (auto simp: account_index_ok_def)
    show "ks_has (NameRegistrationAwaitingByDest s') x \<longleftrightarrow> ks_has (NameRegistrationAwaitingByDest s) x" for x
      unfolding F Bex_def stored_records[OF wf(2)]
      using aw table_ok_get(1)[OF ntab] by (cases x) (auto simp: awaiting_ok_def)
    show "ks_has (ActiveNameByAddress s') x \<longleftrightarrow> ks_has (ActiveNameByAddress s) x" for x
      unfolding F Bex_def stored_records[OF wf(4)]
      using lnk by (cases x) (auto simp: links_ok_def)
    show "ks_has (DepositConfirmedBy s') x" if "ks_has (DepositConfirmedBy s) x" for x
      using confirmed_on_record[OF dtab dlist(1)] that unfolding F by (cases x) fastforce
    show "ks_has (NameRegistrationConfirmedBy s') x" if "ks_has (NameRegistrationConfirmedBy s) x" for x
      using confirmed_on_record[OF ntab nlist(1)] that unfolding F by (cases x) fastforce
    show "\<exists>t t'. Totals s = Some t \<and> Totals s' = Some t' \<and> outstanding BRIDGE_ASSET_STEEM t' = outstanding BRIDGE_ASSET_STEEM t"
      by (simp add: F pt outstanding_def stored_int_def BRIDGE_ASSET_STEEM_def BRIDGE_ASSET_SBD_def)
  qed (simp_all only: F pt table_rebuild[OF dtab] table_rebuild[OF ntab] rows_rebuild[OF wrows])
  with gs(1) s' show ?thesis by blast
qed



lemma net_positive:
  assumes "b < 10000" "0 < unat (g :: u64)"
  shows "0 < unat (fst (ApplyBridgeFee g b))"
proof -
  let ?f = "unat g * unat b mod 2 ^ 64 div 10000"
  have "unat b < 10000" using assms(1) by (simp add: word_less_nat_alt)
  then have "unat g * unat b < unat g * 10000" using assms(2) by simp
  moreover have "unat g * unat b mod 2 ^ 64 \<le> unat g * unat b" by (rule mod_less_eq_dividend)
  ultimately have "unat g * unat b mod 2 ^ 64 < unat g * 10000" by linarith
  then have "?f < unat g" by (simp add: less_mult_imp_div_less)
  moreover have "unat (ucast b :: u64) = unat b"
    by (simp add: unsigned_ucast_eq take_bit_nat_eq_self less_trans[OF unsigned_less])
  ultimately have "unat (g * ucast b div 10000) < unat g" by (simp add: unat_div unat_word_ariths)
  then show ?thesis
    using ApplyBridgeFee_sum[of g b] assms by (auto simp: ApplyBridgeFee_def Let_def split: if_splits)
qed

lemma positive_millis: "0 < unat (x :: u64) \<Longrightarrow> 0 < MillisteemToAsteem x"
  unfolding MillisteemToAsteem_def MillisteemToAsteemFactor_def using uint_nat[of x] by (simp only: mult_pos_pos of_nat_0_less_iff zero_less_numeral)

text \<open>
  A restart stops every bridge-out of SBD. The genesis document has no SBD totals, the import sets
  them to zero, and a bridge-out is refused when it would burn more than was minted: after any import,
  with a fee below the whole amount, every bridge-out of SBD returns an error.
\<close>

theorem sbd_bridge_out_fails_after_restart:
  assumes "bridge_InitGenesis E gs (empty_bridge b) = Inr s" "bo_Asset msg = BRIDGE_ASSET_SBD"
    and "BridgeFeeBps (gs_Params gs) < 10000"
  shows "\<exists>e. BridgeOut E' bk msg s = Inl e"
proof (cases "BridgeOut E' bk msg s")
  case (Inr s')
  note F = InitGenesis_fields(1,2)[OF assms(1)]
  obtain p amount gross net fee t where r: "b_Params s = Some p" "0 < amount" "amount = MillisteemToAsteem gross"
    "ApplyBridgeFee gross (BridgeFeeBps p) = (net, fee)" "Totals s = Some t"
    "snd (outstanding (bo_Asset msg) t) + MillisteemToAsteem net \<le> fst (outstanding (bo_Asset msg) t)"
    by (rule BridgeOut_Inr[OF Inr])
  have "gross \<noteq> 0" using r(2,3) by (auto simp: MillisteemToAsteem_def)
  then have "0 < unat gross" by (simp add: unat_gt_0)
  with net_positive[of "BridgeFeeBps p" gross] r(1,4) F(1) assms(3) have "0 < unat net" by simp
  then have "0 < MillisteemToAsteem net" by (rule positive_millis)
  with r(5,6) F(2) assms(2) show ?thesis by (auto simp: outstanding_def)
qed simp

lemma sbd_bridge_out_fails_after_restart_witness:
  "\<exists>e. BridgeOut strict_env fakeBank (demo_out\<lparr>bo_Asset := BRIDGE_ASSET_SBD\<rparr>) (start_bridge demo_params demo_ledger) = Inl e"
  using sbd_bridge_out_fails_after_restart[OF default_genesis_start[of strict_env demo_params demo_ledger],
      of "demo_out\<lparr>bo_Asset := BRIDGE_ASSET_SBD\<rparr>"]
  by (simp add: demo_params_def bridge_DefaultParams_def)

text \<open>Two validators of equal power that attest different memos for one transfer.\<close>

definition tie_env :: env where
  "tie_env = strict_env\<lparr>GetValidator := (\<lambda>a. map_option (plain_validator a) (map_of [(''v1'', 1), (''v2'', 1)] a)),
     TotalValidatorPower := Some 2\<rparr>"

definition other_deposit :: msg_attest_deposit where
  "other_deposit = (demo_deposit ''v1'')\<lparr>ad_Memo := ''robert''\<rparr>"

lemma tie_env_simps [simp]:
  "StringToBytes tie_env = strict_codec" "BytesToString tie_env = strict_codec"
  "GetValidator tie_env a = map_option (plain_validator a) (map_of [(''v1'', 1), (''v2'', 1)] a)"
  "TotalValidatorPower tie_env = Some 2" "DecQuo tie_env = half_even_quo"
  "ValAddressString tie_env a = a" "BlockHeight tie_env = 10" "ValAddressFromBech32 tie_env = Some" "sha256 tie_env x = x"
  by (simp_all add: tie_env_def) (simp add: strict_env_def demo_bridge_env_def plain_env_def)

lemma tie_env_ok: "bridge_env_ok strict_codec Some tie_env"
  by (auto simp: bridge_env_ok_def account_codec_ok_def strict_codec_def val_codec_ok_def split: if_splits)

lemma tie_ratios:
  "half_even_quo (LegacyNewDecFromInt 1) (LegacyNewDecFromInt 2) = 500000000000000000"
  "half_even_quo (LegacyNewDecFromInt 2) (LegacyNewDecFromInt 2) = 1000000000000000000"
  by code_simp+

lemma length_EncodeToString: "length (EncodeToString bs) = 2 * length bs"
  by (induction bs) (simp_all add: EncodeToString_def)

lemma tie_facts: "msgFactsHash tie_env other_deposit \<noteq> msgFactsHash tie_env (demo_deposit v)"
proof
  assume "msgFactsHash tie_env other_deposit = msgFactsHash tie_env (demo_deposit v)"
  from arg_cong[OF this, of length] show False
    by (simp add: msgFactsHash_def other_deposit_def demo_deposit_def DepositFactsHash_def facts_sum_def
        length_EncodeToString deposit_facts_def enc_str_def length_enc_u64)
qed

definition tie_state :: "string list \<Rightarrow> 'b bridge_state \<Rightarrow> bool" where
  "tie_state vs s \<longleftrightarrow> b_Params s = Some demo_params \<and> DepositByTxid s = [((''t1'', 0), 0)] \<and> Withdrawal s = [] \<and>
     NameRegistration s = [] \<and> ActiveName s = [] \<and> Totals s = Some zero_totals \<and>
     (\<exists>d. Deposit s = [(0, d)] \<and> d_Id d = 0 \<and> d_Txid d = ''t1'' \<and> d_OpIndex d = 0 \<and>
        d_Status d = DEPOSIT_STATUS_PENDING \<and> depositFacts tie_env d = msgFactsHash tie_env (demo_deposit ''v2'') \<and>
        map c_ValidatorAddress (d_ValidatorConfirmations d) = vs)"

lemma tie_first:
  "\<exists>s. AttestDeposit tie_env fakeBank (demo_deposit ''v2'') (start_bridge demo_params empty_ledger) = Inr s \<and>
     tie_state [''v2''] s \<and> DepositConfirmedBy s = [(''t1'', 0, ''v2'')] \<and>
     DepositFactsVote s = [(dedupKeyString ''t1'' 0, msgFactsHash tie_env (demo_deposit ''v2''), ''v2'')]"
  by (simp add: demo_attest_simps tie_ratios strict_codec_def kv_get_Cons depositFacts_def msgFactsHash_def tie_state_def)

lemma tie_second:
  assumes "tie_state [''v2''] s" "DepositConfirmedBy s = [(''t1'', 0, ''v2'')]"
    and "DepositFactsVote s = [(dedupKeyString ''t1'' 0, msgFactsHash tie_env (demo_deposit ''v2''), ''v2'')]"
  shows "\<exists>s'. AttestDeposit tie_env fakeBank other_deposit s = Inr s' \<and> tie_state [''v2'', ''v1''] s' \<and>
     voters (DepositFactsVote s') (dedupKeyString ''t1'' 0) (msgFactsHash tie_env (demo_deposit ''v2'')) = [''v2'']"
proof -
  note ne = tie_facts[of "''v2''"]
  have v: "voters (ks_set (dedupKeyString ''t1'' 0, msgFactsHash tie_env other_deposit, ''v1'')
      [(dedupKeyString ''t1'' 0, msgFactsHash tie_env (demo_deposit ''v2''), ''v2'')]) (dedupKeyString ''t1'' 0)
      (msgFactsHash tie_env other_deposit) = [''v1'']"
    "voters (ks_set (dedupKeyString ''t1'' 0, msgFactsHash tie_env other_deposit, ''v1'')
      [(dedupKeyString ''t1'' 0, msgFactsHash tie_env (demo_deposit ''v2''), ''v2'')]) (dedupKeyString ''t1'' 0)
      (msgFactsHash tie_env (demo_deposit ''v2'')) = [''v2'']"
    using ne ne[symmetric] by (simp_all add: voters_def)
  have m: "ad_Txid other_deposit = ''t1''" "ad_OpIndex other_deposit = 0" "ad_Validator other_deposit = ''v1''"
    "ad_GatewayAccount other_deposit = GatewayAccount" "ad_SteemBlock other_deposit = 5"
    by (simp_all add: other_deposit_def demo_deposit_def)
  obtain d where d: "Deposit s = [(0, d)]" "d_Id d = 0" "d_Txid d = ''t1''" "d_OpIndex d = 0"
      "d_Status d = DEPOSIT_STATUS_PENDING" "depositFacts tie_env d = msgFactsHash tie_env (demo_deposit ''v2'')"
      "map c_ValidatorAddress (d_ValidatorConfirmations d) = [''v2'']"
    using assms(1) by (auto simp: tie_state_def)
  define s1 where "s1 = (if matchesPending d other_deposit then s else emit (DepositConfirmationMismatch 0 d other_deposit) s)"
  have s1: "b_Params s1 = b_Params s" "DepositByTxid s1 = DepositByTxid s" "Withdrawal s1 = Withdrawal s"
    "NameRegistration s1 = NameRegistration s" "ActiveName s1 = ActiveName s" "Totals s1 = Totals s"
    "Deposit s1 = Deposit s" "DepositFactsVote s1 = DepositFactsVote s"
    by (simp_all add: s1_def)
  have "openDeposit tie_env other_deposit s = Inr (d, 0, s1)"
    using assms(1) d(1) by (simp add: openDeposit_def m tie_state_def s1_def kv_get_Cons)
  with assms d s1 show ?thesis
    by (simp add: AttestDeposit_def m CheckSteemBlock_def is_bonded_def plain_validator_def ks_has_def Let_def
        attestOpened_def factsCandidateRatio_def power_ratio_def recordDepositVote_def resolveIfReached_def
        addConfirmation_def tie_ratios strict_codec_def tie_state_def v demo_params_def bridge_DefaultParams_def
        depositFacts_def del: ks_set.simps)
qed

text \<open>
  A restart moves votes to facts their validators did not attest. Two validators with half of the
  power each attest different memos for one transfer, so that no fact-set reaches the threshold; after an
  export and an import both are counted for the facts of the first attestation, which then has the
  whole power behind it.
\<close>

theorem restart_counts_losing_votes:
  "\<exists>s gs s'. bridge_reaches fakeBank (bridge_env_ok strict_codec Some) 2 (s, None) \<and>
     bridge_ExportGenesis s = Inr gs \<and> bridge_InitGenesis tie_env gs (empty_bridge empty_ledger) = Inr s' \<and>
     factsCandidateRatio tie_env (DepositFactsVote s) (dedupKeyString ''t1'' 0) (msgFactsHash tie_env (demo_deposit ''v2''))
       = Inr 500000000000000000 \<and>
     factsCandidateRatio tie_env (DepositFactsVote s') (dedupKeyString ''t1'' 0) (msgFactsHash tie_env (demo_deposit ''v2''))
       = Inr 1000000000000000000"
proof -
  let ?R = "bridge_reaches fakeBank (bridge_env_ok strict_codec Some)"
  obtain s1 where r1: "AttestDeposit tie_env fakeBank (demo_deposit ''v2'') (start_bridge demo_params empty_ledger) = Inr s1"
    "tie_state [''v2''] s1" "DepositConfirmedBy s1 = [(''t1'', 0, ''v2'')]"
    "DepositFactsVote s1 = [(dedupKeyString ''t1'' 0, msgFactsHash tie_env (demo_deposit ''v2''), ''v2'')]"
    using tie_first by blast
  obtain s2 where r2: "AttestDeposit tie_env fakeBank other_deposit s1 = Inr s2" "tie_state [''v2'', ''v1''] s2"
    "voters (DepositFactsVote s2) (dedupKeyString ''t1'' 0) (msgFactsHash tie_env (demo_deposit ''v2'')) = [''v2'']"
    using tie_second[OF r1(2-4)] by blast
  have "?R 0 (start_bridge demo_params empty_ledger, None)" by (rule bridge_reaches.start[OF demo_params_valid])
  then have "?R (Suc 0) (s1, None)"
    by (rule bridge_reaches.step[where good = "bridge_env_ok strict_codec Some", OF _ tie_env_ok, where oper = "OpAttestDeposit (demo_deposit ''v2'')"]) (simp add: r1(1))
  then have reach: "?R (Suc (Suc 0)) (s2, None)"
    by (rule bridge_reaches.step[where good = "bridge_env_ok strict_codec Some", OF _ tie_env_ok, where oper = "OpAttestDeposit other_deposit"]) (simp add: r2(1))
  have before: "factsCandidateRatio tie_env (DepositFactsVote s2) (dedupKeyString ''t1'' 0) (msgFactsHash tie_env (demo_deposit ''v2''))
       = Inr 500000000000000000"
    by (simp add: factsCandidateRatio_def r2(3) power_ratio_def plain_validator_def tie_ratios)
  obtain d where d: "Deposit s2 = [(0, d)]" "d_Id d = 0" "d_Txid d = ''t1''" "d_OpIndex d = 0"
      "d_Status d = DEPOSIT_STATUS_PENDING" "depositFacts tie_env d = msgFactsHash tie_env (demo_deposit ''v2'')"
      "map c_ValidatorAddress (d_ValidatorConfirmations d) = [''v2'', ''v1'']"
    using r2(2) by (auto simp: tie_state_def)
  obtain c1 c2 where c: "d_ValidatorConfirmations d = [c1, c2]" "c_ValidatorAddress c1 = ''v2''" "c_ValidatorAddress c2 = ''v1''"
    using d(7) by (auto simp: map_eq_Cons_conv)
  have "\<exists>gs s'. bridge_ExportGenesis s2 = Inr gs \<and> bridge_InitGenesis tie_env gs (empty_bridge empty_ledger) = Inr s' \<and>
     factsCandidateRatio tie_env (DepositFactsVote s') (dedupKeyString ''t1'' 0) (msgFactsHash tie_env (demo_deposit ''v2''))
       = Inr 1000000000000000000"
    using r2(2) d c
    by (simp add: tie_state_def bridge_ExportGenesis_def bridge_InitGenesis_def importDeposit_def Let_def empty_bridge_def
        factsCandidateRatio_def voters_def power_ratio_def plain_validator_def tie_ratios)
  with reach before show ?thesis by (auto simp: numeral_2_eq_2)
qed

end
