(* ===== verification/Bridge_Ante.thy ===== *)
theory Bridge_Ante
  imports Bridge_Genesis
begin

text \<open>
  What stands between a transaction and the bridge's handlers: the fee exemption of the ante handler
  (\<open>app/ante_steembridge.go\<close>) with its per-block quotas (\<open>x/oracle/bridge/keeper/ante.go\<close>), and the
  identity gate in front of the staking module (\<open>app/stakinggate/gate.go\<close>,
  \<open>x/oracle/bridge/keeper/validator_identity.go\<close>). The other decorators of the chain and the staking
  message server are parameters.
\<close>

section \<open>Messages of a transaction\<close>

datatype bridge_msg =
    MsgAttestDeposit msg_attest_deposit
  | MsgAttestWithdrawalPayout msg_attest_payout
  | MsgSubmitNameRegistration msg_submit_name
  | MsgConfirmName msg_confirm_name
  | MsgBridgeOut msg_bridge_out
  | MsgOther

section \<open>Quotas\<close>

definition MaxFreeDepositsPerValidatorPerBlock :: u64 where "MaxFreeDepositsPerValidatorPerBlock = 100"
definition MaxFreeNameConfirmationsPerAddressPerBlock :: u64 where "MaxFreeNameConfirmationsPerAddressPerBlock = 10"

definition consumeFreeQuota ::
    "env \<Rightarrow> (bytes, free_counter) kv \<Rightarrow> bytes \<Rightarrow> u64 \<Rightarrow> bool \<times> (bytes, free_counter) kv" where
  "consumeFreeQuota E counters addr quota =
     (let height = BlockHeight E;
          counter0 = (case kv_get counters addr of None \<Rightarrow> \<lparr>fc_Height = 0, fc_Count = 0\<rparr> | Some c \<Rightarrow> c);
          counter = (if fc_Height counter0 \<noteq> height then \<lparr>fc_Height = height, fc_Count = 0\<rparr> else counter0)
      in if quota \<le> fc_Count counter then (False, counters)
         else (True, kv_set addr (counter\<lparr>fc_Count := fc_Count counter + 1\<rparr>) counters))"

definition ConsumeFreeDepositQuota :: "env \<Rightarrow> bytes \<Rightarrow> 'b bridge_state \<Rightarrow> bool \<times> 'b bridge_state" where
  "ConsumeFreeDepositQuota E validatorAddr s =
     (let (ok, m) = consumeFreeQuota E (FreeDepositCounter s) validatorAddr MaxFreeDepositsPerValidatorPerBlock
      in (ok, s\<lparr>FreeDepositCounter := m\<rparr>))"

definition ConsumeFreeNameConfirmQuota :: "env \<Rightarrow> bytes \<Rightarrow> 'b bridge_state \<Rightarrow> bool \<times> 'b bridge_state" where
  "ConsumeFreeNameConfirmQuota E confirmerAddr s =
     (let (ok, m) = consumeFreeQuota E (FreeNameConfirmCounter s) confirmerAddr MaxFreeNameConfirmationsPerAddressPerBlock
      in (ok, s\<lparr>FreeNameConfirmCounter := m\<rparr>))"

section \<open>The fee exemption\<close>

definition qualifiesAsValidatorAttestation ::
    "env \<Rightarrow> string \<Rightarrow> unit res \<Rightarrow> 'b bridge_state \<Rightarrow> bool \<times> 'b bridge_state" where
  "qualifiesAsValidatorAttestation E validator acceptance s =
     (case AccAddressFromBech32 E validator of
        None \<Rightarrow> (False, s)
      | Some validatorAddr \<Rightarrow>
          if \<not> is_bonded E validatorAddr then (False, s)
          else if (case acceptance of Inl e \<Rightarrow> \<not> IsBenignAttestationError e | Inr _ \<Rightarrow> False) then (False, s)
          else ConsumeFreeDepositQuota E validatorAddr s)"

definition qualifiesAsConfirmation :: "env \<Rightarrow> msg_confirm_name \<Rightarrow> 'b bridge_state \<Rightarrow> bool \<times> 'b bridge_state" where
  "qualifiesAsConfirmation E m s =
     (case AccAddressFromBech32 E (cn_Confirmer m) of
        None \<Rightarrow> (False, s)
      | Some confirmerAddr \<Rightarrow>
          (case ValidateNameConfirmationAcceptance E m s of
             Inl e \<Rightarrow> (False, s)
           | Inr _ \<Rightarrow> ConsumeFreeNameConfirmQuota E confirmerAddr s))"

text \<open>The loop over the messages; the list holds the registrations confirmed earlier in the transaction.\<close>

fun qualifying_messages :: "env \<Rightarrow> u64 list \<Rightarrow> bridge_msg list \<Rightarrow> 'b bridge_state \<Rightarrow> bool \<times> 'b bridge_state" where
  "qualifying_messages E seen [] s = (True, s)"
| "qualifying_messages E seen (MsgAttestDeposit m # msgs) s =
     (case qualifiesAsValidatorAttestation E (ad_Validator m) (ValidateDepositAcceptance E m s) s of
        (ok, s') \<Rightarrow> if ok then qualifying_messages E seen msgs s' else (False, s'))"
| "qualifying_messages E seen (MsgAttestWithdrawalPayout m # msgs) s =
     (case qualifiesAsValidatorAttestation E (ap_Validator m) (ValidateWithdrawalProcessedAcceptance E m s) s of
        (ok, s') \<Rightarrow> if ok then qualifying_messages E seen msgs s' else (False, s'))"
| "qualifying_messages E seen (MsgSubmitNameRegistration m # msgs) s =
     (case qualifiesAsValidatorAttestation E (sn_Validator m) (ValidateNameRegistrationAcceptance E m s) s of
        (ok, s') \<Rightarrow> if ok then qualifying_messages E seen msgs s' else (False, s'))"
| "qualifying_messages E seen (MsgConfirmName m # msgs) s =
     (if cn_RegistrationId m \<in> set seen then (False, s)
      else case qualifiesAsConfirmation E m s of
        (ok, s') \<Rightarrow> if ok then qualifying_messages E (cn_RegistrationId m # seen) msgs s' else (False, s'))"
| "qualifying_messages E seen (MsgBridgeOut m # msgs) s = (False, s)"
| "qualifying_messages E seen (MsgOther # msgs) s = (False, s)"

definition qualifiesForFeeExemption :: "env \<Rightarrow> bridge_msg list \<Rightarrow> 'b bridge_state \<Rightarrow> bool \<times> 'b bridge_state" where
  "qualifiesForFeeExemption E msgs s = (if msgs = [] then (False, s) else qualifying_messages E [] msgs s)"

text \<open>
  The decorator: \<open>next\<close> is the rest of the chain, and the three wrapped decorators are parameters.
  The context is the bridge state and whatever else the decorators work on.
\<close>

type_synonym 'c ante = "'c \<Rightarrow> 'c res"

definition fee_exemption_AnteHandle ::
    "env \<Rightarrow> (('b bridge_state \<times> 'c) ante \<Rightarrow> ('b bridge_state \<times> 'c) ante) \<Rightarrow>
     (('b bridge_state \<times> 'c) ante \<Rightarrow> ('b bridge_state \<times> 'c) ante) \<Rightarrow>
     (('b bridge_state \<times> 'c) ante \<Rightarrow> ('b bridge_state \<times> 'c) ante) \<Rightarrow>
     bridge_msg list \<Rightarrow> ('b bridge_state \<times> 'c) ante \<Rightarrow> ('b bridge_state \<times> 'c) ante" where
  "fee_exemption_AnteHandle E minGasPrice consumeGasForTxSize deductFee msgs next0 ctx =
     (let (free, s1) = qualifiesForFeeExemption E msgs (fst ctx) in
      if free then next0 (s1, snd ctx)
      else minGasPrice (consumeGasForTxSize (deductFee next0)) (s1, snd ctx))"

section \<open>The identity gate\<close>

definition DoNotModifyDesc :: string where "DoNotModifyDesc = ''[do-not-modify]''"

definition ValidateValidatorCreationEligibility ::
    "env \<Rightarrow> 'b bridge_state \<Rightarrow> bytes \<Rightarrow> string \<Rightarrow> string \<Rightarrow> unit res" where
  "ValidateValidatorCreationEligibility E s operatorValBytes moniker details =
     (case b_Params s of
        None \<Rightarrow> Inr ()
      | Some params \<Rightarrow>
          if \<not> NameServiceEnabled params then Inr ()
          else
            rbind (ParseValidatorIdentity E moniker details) (\<lambda>ident.
            rbind (from_option ErrInvalidRequest (kv_get (ActiveName s) (SteemUsername ident))) (\<lambda>nr.
            rbind (from_option ErrInvalidAddress (StringToBytes E (nr_Address nr))) (\<lambda>linkedBytes.
            guard_err (linkedBytes = operatorValBytes) ErrInvalidRequest))))"

definition ValidateValidatorEdit ::
    "env \<Rightarrow> 'b bridge_state \<Rightarrow> bytes \<Rightarrow> string \<Rightarrow> string \<Rightarrow> unit res" where
  "ValidateValidatorEdit E s operatorValBytes editMoniker editDetails =
     (if editMoniker = DoNotModifyDesc \<and> editDetails = DoNotModifyDesc then Inr ()
      else if editMoniker = DoNotModifyDesc \<or> editDetails = DoNotModifyDesc
      then rbind (from_option ErrKeeper (GetValidator E operatorValBytes)) (\<lambda>cur.
           ValidateValidatorCreationEligibility E s operatorValBytes
             (if editMoniker = DoNotModifyDesc then v_moniker cur else editMoniker)
             (if editDetails = DoNotModifyDesc then v_details cur else editDetails))
      else ValidateValidatorCreationEligibility E s operatorValBytes editMoniker editDetails)"

definition GetValidatorIdentity :: "env \<Rightarrow> bytes \<Rightarrow> ValidatorIdentity res" where
  "GetValidatorIdentity E valAddr =
     rbind (from_option ErrKeeper (GetValidator E valAddr)) (\<lambda>v. ParseValidatorIdentity E (v_moniker v) (v_details v))"

record validator_msg =
  vm_ValidatorAddress :: string
  vm_Moniker :: string
  vm_Details :: string

text \<open>
  The gate: \<open>bound\<close> says whether the identity checker has been set. A failed check is wrapped as
  \<open>ErrUnauthorized\<close>.
\<close>

definition unauthorized :: "unit res \<Rightarrow> unit res" where
  "unauthorized r = (case r of Inl e \<Rightarrow> Inl ErrUnauthorized | Inr _ \<Rightarrow> Inr ())"

definition checkCreate :: "env \<Rightarrow> bool \<Rightarrow> 'b bridge_state \<Rightarrow> validator_msg \<Rightarrow> unit res" where
  "checkCreate E bound s msg =
     rbind (guard_err bound ErrInvalidRequest) (\<lambda>_.
     rbind (from_option ErrInvalidAddress (ValAddressFromBech32 E (vm_ValidatorAddress msg))) (\<lambda>valAddr.
     unauthorized (ValidateValidatorCreationEligibility E s valAddr (vm_Moniker msg) (vm_Details msg))))"

definition checkEdit :: "env \<Rightarrow> bool \<Rightarrow> 'b bridge_state \<Rightarrow> validator_msg \<Rightarrow> unit res" where
  "checkEdit E bound s msg =
     rbind (guard_err bound ErrInvalidRequest) (\<lambda>_.
     rbind (from_option ErrInvalidAddress (ValAddressFromBech32 E (vm_ValidatorAddress msg))) (\<lambda>valAddr.
     unauthorized (ValidateValidatorEdit E s valAddr (vm_Moniker msg) (vm_Details msg))))"

text \<open>The gated message server; \<open>inner\<close> is the staking module's own.\<close>

definition gated_CreateValidator ::
    "env \<Rightarrow> bool \<Rightarrow> 'b bridge_state \<Rightarrow> (validator_msg \<Rightarrow> 'v \<Rightarrow> 'v res) \<Rightarrow> validator_msg \<Rightarrow> 'v \<Rightarrow> 'v res" where
  "gated_CreateValidator E bound s inner msg st = rbind (checkCreate E bound s msg) (\<lambda>_. inner msg st)"

definition gated_EditValidator ::
    "env \<Rightarrow> bool \<Rightarrow> 'b bridge_state \<Rightarrow> (validator_msg \<Rightarrow> 'v \<Rightarrow> 'v res) \<Rightarrow> validator_msg \<Rightarrow> 'v \<Rightarrow> 'v res" where
  "gated_EditValidator E bound s inner msg st = rbind (checkEdit E bound s msg) (\<lambda>_. inner msg st)"

section \<open>Quotas over a block\<close>

text \<open>How much of the quota of the current height an address has used.\<close>

definition used_quota :: "env \<Rightarrow> (bytes, free_counter) kv \<Rightarrow> bytes \<Rightarrow> nat" where
  "used_quota E m a =
     (case kv_get m a of None \<Rightarrow> 0 | Some c \<Rightarrow> if fc_Height c = BlockHeight E then unat (fc_Count c) else 0)"

lemma consume_cases:
  assumes "consumeFreeQuota E m a q = (ok, m')"
  obtains c where "fc_Height c = BlockHeight E" "used_quota E m a = unat (fc_Count c)"
    "(ok, m') = (if q \<le> fc_Count c then (False, m) else (True, kv_set a (c\<lparr>fc_Count := fc_Count c + 1\<rparr>) m))"
proof -
  let ?c0 = "case kv_get m a of None \<Rightarrow> \<lparr>fc_Height = 0, fc_Count = 0\<rparr> | Some c \<Rightarrow> c"
  let ?c = "if fc_Height ?c0 \<noteq> BlockHeight E then \<lparr>fc_Height = BlockHeight E, fc_Count = 0\<rparr> else ?c0"
  show ?thesis
  proof (rule that[of ?c])
    show "fc_Height ?c = BlockHeight E" by simp
    show "used_quota E m a = unat (fc_Count ?c)" by (simp add: used_quota_def split: option.split)
    show "(ok, m') = (if q \<le> fc_Count ?c then (False, m) else (True, kv_set a (?c\<lparr>fc_Count := fc_Count ?c + 1\<rparr>) m))"
      unfolding assms[symmetric] consumeFreeQuota_def Let_def ..
  qed
qed

lemma consume_used:
  assumes "consumeFreeQuota E m a q = (ok, m')"
  shows "ok \<longleftrightarrow> used_quota E m a < unat q"
    and "used_quota E m' b = used_quota E m b + (if ok \<and> b = a then 1 else 0)"
proof -
  obtain c where c: "fc_Height c = BlockHeight E" "used_quota E m a = unat (fc_Count c)"
    "(ok, m') = (if q \<le> fc_Count c then (False, m) else (True, kv_set a (c\<lparr>fc_Count := fc_Count c + 1\<rparr>) m))"
    by (rule consume_cases[OF assms])
  have "used_quota E m' b = used_quota E m b + (if ok \<and> b = a then 1 else 0) \<and> (ok \<longleftrightarrow> used_quota E m a < unat q)"
  proof (cases "q \<le> fc_Count c")
    case True
    then have "\<not> unat (fc_Count c) < unat q" by (simp add: word_le_nat_alt)
    with True c show ?thesis by simp
  next
    case False
    then have lt: "unat (fc_Count c) < unat q" by (simp add: word_le_nat_alt)
    moreover have "unat q < 2 ^ 64" using unsigned_less[where w = q and ?'a = nat] by simp
    ultimately have "unat (fc_Count c + 1) = unat (fc_Count c) + 1" by (simp add: unat_word_ariths)
    with False c lt show ?thesis by (simp add: used_quota_def)
  qed
  then show "ok \<longleftrightarrow> used_quota E m a < unat q"
    "used_quota E m' b = used_quota E m b + (if ok \<and> b = a then 1 else 0)" by blast+
qed

section \<open>Which transactions are free\<close>

text \<open>
  The account a message draws its quota from, and whether it deserves the exemption on its own: it is
  signed by a bonded validator and would be accepted, or be a harmless repetition, or it confirms a
  registration that waits for its signer.
\<close>

fun attester :: "env \<Rightarrow> bridge_msg \<Rightarrow> bytes option" where
  "attester E (MsgAttestDeposit m) = AccAddressFromBech32 E (ad_Validator m)"
| "attester E (MsgAttestWithdrawalPayout m) = AccAddressFromBech32 E (ap_Validator m)"
| "attester E (MsgSubmitNameRegistration m) = AccAddressFromBech32 E (sn_Validator m)"
| "attester E _ = None"

fun confirmer :: "env \<Rightarrow> bridge_msg \<Rightarrow> bytes option" where
  "confirmer E (MsgConfirmName m) = AccAddressFromBech32 E (cn_Confirmer m)"
| "confirmer E _ = None"

fun confirmed_ids :: "bridge_msg list \<Rightarrow> u64 list" where
  "confirmed_ids [] = []"
| "confirmed_ids (MsgConfirmName m # msgs) = cn_RegistrationId m # confirmed_ids msgs"
| "confirmed_ids (_ # msgs) = confirmed_ids msgs"

definition tolerable :: "unit res \<Rightarrow> bool" where
  "tolerable r \<longleftrightarrow> (case r of Inl e \<Rightarrow> IsBenignAttestationError e | Inr _ \<Rightarrow> True)"

definition bonded_attester :: "env \<Rightarrow> bridge_msg \<Rightarrow> bool" where
  "bonded_attester E m \<longleftrightarrow> (case attester E m of None \<Rightarrow> False | Some a \<Rightarrow> is_bonded E a)"

fun deserves_exemption :: "env \<Rightarrow> 'b bridge_state \<Rightarrow> bridge_msg \<Rightarrow> bool" where
  "deserves_exemption E s (MsgAttestDeposit m) \<longleftrightarrow>
     bonded_attester E (MsgAttestDeposit m) \<and> tolerable (ValidateDepositAcceptance E m s)"
| "deserves_exemption E s (MsgAttestWithdrawalPayout m) \<longleftrightarrow>
     bonded_attester E (MsgAttestWithdrawalPayout m) \<and> tolerable (ValidateWithdrawalProcessedAcceptance E m s)"
| "deserves_exemption E s (MsgSubmitNameRegistration m) \<longleftrightarrow>
     bonded_attester E (MsgSubmitNameRegistration m) \<and> tolerable (ValidateNameRegistrationAcceptance E m s)"
| "deserves_exemption E s (MsgConfirmName m) \<longleftrightarrow>
     confirmer E (MsgConfirmName m) \<noteq> None \<and> ValidateNameConfirmationAcceptance E m s = Inr ()"
| "deserves_exemption E s _ \<longleftrightarrow> False"

definition attestations :: "env \<Rightarrow> bytes \<Rightarrow> bridge_msg list \<Rightarrow> nat" where
  "attestations E a msgs = length (filter (\<lambda>m. attester E m = Some a) msgs)"

definition confirmations :: "env \<Rightarrow> bytes \<Rightarrow> bridge_msg list \<Rightarrow> nat" where
  "confirmations E a msgs = length (filter (\<lambda>m. confirmer E m = Some a) msgs)"

lemma message_counts [simp]:
  "attestations E a [] = 0" "confirmations E a [] = 0"
  "attestations E a (m # msgs) = (if attester E m = Some a then 1 else 0) + attestations E a msgs"
  "confirmations E a (m # msgs) = (if confirmer E m = Some a then 1 else 0) + confirmations E a msgs"
  "attestations E a (xs @ ys) = attestations E a xs + attestations E a ys"
  "confirmations E a (xs @ ys) = confirmations E a xs + confirmations E a ys"
  by (simp_all add: attestations_def confirmations_def)

abbreviation deposit_used :: "env \<Rightarrow> 'b bridge_state \<Rightarrow> bytes \<Rightarrow> nat" where
  "deposit_used E s \<equiv> used_quota E (FreeDepositCounter s)"

abbreviation confirm_used :: "env \<Rightarrow> 'b bridge_state \<Rightarrow> bytes \<Rightarrow> nat" where
  "confirm_used E s \<equiv> used_quota E (FreeNameConfirmCounter s)"

text \<open>Taking quota changes nothing but the counters.\<close>

definition counted :: "'b bridge_state \<Rightarrow> 'b bridge_state \<Rightarrow> bool" where
  "counted s s' \<longleftrightarrow> s' = s\<lparr>FreeDepositCounter := FreeDepositCounter s', FreeNameConfirmCounter := FreeNameConfirmCounter s'\<rparr>"


lemma counted_refl [simp]: "counted s s"
  by (simp add: counted_def)

lemma counted_trans: "counted s t \<Longrightarrow> counted t u \<Longrightarrow> counted s u"
  by (cases s; cases t; cases u; simp add: counted_def)

lemma counted_acceptance:
  assumes "counted s s'"
  shows "ValidateDepositAcceptance E m1 s' = ValidateDepositAcceptance E m1 s"
    "ValidateWithdrawalProcessedAcceptance E m2 s' = ValidateWithdrawalProcessedAcceptance E m2 s"
    "ValidateNameRegistrationAcceptance E m3 s' = ValidateNameRegistrationAcceptance E m3 s"
    "ValidateNameConfirmationAcceptance E m4 s' = ValidateNameConfirmationAcceptance E m4 s"
proof -
  obtain m n where s': "s' = s\<lparr>FreeDepositCounter := m, FreeNameConfirmCounter := n\<rparr>"
    using assms unfolding counted_def by blast
  show "ValidateDepositAcceptance E m1 s' = ValidateDepositAcceptance E m1 s"
    "ValidateWithdrawalProcessedAcceptance E m2 s' = ValidateWithdrawalProcessedAcceptance E m2 s"
    "ValidateNameRegistrationAcceptance E m3 s' = ValidateNameRegistrationAcceptance E m3 s"
    "ValidateNameConfirmationAcceptance E m4 s' = ValidateNameConfirmationAcceptance E m4 s"
    by (simp_all add: s' ValidateDepositAcceptance_def lookupDepositByTxid_def
        ValidateWithdrawalProcessedAcceptance_def ValidateNameRegistrationAcceptance_def lookupNameRegistrationByTxid_def
        ValidateNameConfirmationAcceptance_def cong: option.case_cong)
qed

lemma counted_deserves: "counted s s' \<Longrightarrow> deserves_exemption E s' m \<longleftrightarrow> deserves_exemption E s m"
  by (cases m) (simp_all add: counted_acceptance)

lemma attestation_step:
  assumes "qualifiesAsValidatorAttestation E v r s = (ok, s')"
  shows "ok \<longleftrightarrow> (\<exists>a. AccAddressFromBech32 E v = Some a \<and> is_bonded E a \<and> tolerable r \<and> deposit_used E s a < 100)"
    and "counted s s'" "FreeNameConfirmCounter s' = FreeNameConfirmCounter s"
    and "deposit_used E s' b = deposit_used E s b + (if ok \<and> AccAddressFromBech32 E v = Some b then 1 else 0)"
proof -
  have q: "unat MaxFreeDepositsPerValidatorPerBlock = 100" by (simp add: MaxFreeDepositsPerValidatorPerBlock_def)
  have "(ok \<longleftrightarrow> (\<exists>a. AccAddressFromBech32 E v = Some a \<and> is_bonded E a \<and> tolerable r \<and> deposit_used E s a < 100)) \<and>
    counted s s' \<and> FreeNameConfirmCounter s' = FreeNameConfirmCounter s \<and>
    deposit_used E s' b = deposit_used E s b + (if ok \<and> AccAddressFromBech32 E v = Some b then 1 else 0)"
  proof (cases "\<exists>a. AccAddressFromBech32 E v = Some a \<and> is_bonded E a \<and> tolerable r")
    case True
    then obtain a where a: "AccAddressFromBech32 E v = Some a" "is_bonded E a" "tolerable r" by blast
    obtain ok' m where m: "consumeFreeQuota E (FreeDepositCounter s) a MaxFreeDepositsPerValidatorPerBlock = (ok', m)" by force
    have "(ok, s') = (ok', s\<lparr>FreeDepositCounter := m\<rparr>)"
      using assms a m
      by (auto simp: qualifiesAsValidatorAttestation_def ConsumeFreeDepositQuota_def tolerable_def split: sum.splits)
    with consume_used[OF m] a show ?thesis by (auto simp: q counted_def)
  next
    case False
    then have "(ok, s') = (False, s)"
      using assms by (auto simp: qualifiesAsValidatorAttestation_def tolerable_def split: option.splits if_splits sum.splits)
    with False show ?thesis by auto
  qed
  then show "ok \<longleftrightarrow> (\<exists>a. AccAddressFromBech32 E v = Some a \<and> is_bonded E a \<and> tolerable r \<and> deposit_used E s a < 100)"
    "counted s s'" "FreeNameConfirmCounter s' = FreeNameConfirmCounter s"
    "deposit_used E s' b = deposit_used E s b + (if ok \<and> AccAddressFromBech32 E v = Some b then 1 else 0)" by blast+
qed

lemma confirmation_step:
  assumes "qualifiesAsConfirmation E m s = (ok, s')"
  shows "ok \<longleftrightarrow> (\<exists>a. AccAddressFromBech32 E (cn_Confirmer m) = Some a \<and>
      ValidateNameConfirmationAcceptance E m s = Inr () \<and> confirm_used E s a < 10)"
    and "counted s s'" "FreeDepositCounter s' = FreeDepositCounter s"
    and "confirm_used E s' b = confirm_used E s b + (if ok \<and> AccAddressFromBech32 E (cn_Confirmer m) = Some b then 1 else 0)"
proof -
  have q: "unat MaxFreeNameConfirmationsPerAddressPerBlock = 10" by (simp add: MaxFreeNameConfirmationsPerAddressPerBlock_def)
  have "(ok \<longleftrightarrow> (\<exists>a. AccAddressFromBech32 E (cn_Confirmer m) = Some a \<and>
      ValidateNameConfirmationAcceptance E m s = Inr () \<and> confirm_used E s a < 10)) \<and>
    counted s s' \<and> FreeDepositCounter s' = FreeDepositCounter s \<and>
    confirm_used E s' b = confirm_used E s b + (if ok \<and> AccAddressFromBech32 E (cn_Confirmer m) = Some b then 1 else 0)"
  proof (cases "\<exists>a. AccAddressFromBech32 E (cn_Confirmer m) = Some a \<and> ValidateNameConfirmationAcceptance E m s = Inr ()")
    case True
    then obtain a where a: "AccAddressFromBech32 E (cn_Confirmer m) = Some a" "ValidateNameConfirmationAcceptance E m s = Inr ()"
      by blast
    obtain ok' n where n: "consumeFreeQuota E (FreeNameConfirmCounter s) a MaxFreeNameConfirmationsPerAddressPerBlock = (ok', n)"
      by force
    have "(ok, s') = (ok', s\<lparr>FreeNameConfirmCounter := n\<rparr>)"
      using assms a n by (simp add: qualifiesAsConfirmation_def ConsumeFreeNameConfirmQuota_def)
    with consume_used[OF n] a show ?thesis by (auto simp: q counted_def)
  next
    case False
    then have "(ok, s') = (False, s)"
      using assms by (auto simp: qualifiesAsConfirmation_def split: option.splits sum.splits)
    with False show ?thesis by auto
  qed
  then show "ok \<longleftrightarrow> (\<exists>a. AccAddressFromBech32 E (cn_Confirmer m) = Some a \<and>
      ValidateNameConfirmationAcceptance E m s = Inr () \<and> confirm_used E s a < 10)"
    "counted s s'" "FreeDepositCounter s' = FreeDepositCounter s"
    "confirm_used E s' b = confirm_used E s b + (if ok \<and> AccAddressFromBech32 E (cn_Confirmer m) = Some b then 1 else 0)"
    by blast+
qed

text \<open>One message: when the loop goes on after it, and what it has cost.\<close>

definition quota_left :: "env \<Rightarrow> 'b bridge_state \<Rightarrow> bridge_msg \<Rightarrow> bool" where
  "quota_left E s m \<longleftrightarrow> (\<forall>a. attester E m = Some a \<longrightarrow> deposit_used E s a < 100) \<and>
     (\<forall>a. confirmer E m = Some a \<longrightarrow> confirm_used E s a < 10)"

lemma message_step:
  obtains (go) s' where "deserves_exemption E s m" "quota_left E s m" "set (confirmed_ids [m]) \<inter> set seen = {}"
      "qualifying_messages E seen (m # msgs) s = qualifying_messages E (confirmed_ids [m] @ seen) msgs s'"
      "counted s s'"
      "\<And>a. deposit_used E s' a = deposit_used E s a + attestations E a [m]"
      "\<And>a. confirm_used E s' a = confirm_used E s a + confirmations E a [m]"
  | (stop) s' where "\<not> (deserves_exemption E s m \<and> quota_left E s m \<and> set (confirmed_ids [m]) \<inter> set seen = {})"
      "qualifying_messages E seen (m # msgs) s = (False, s')" "counted s s'"
      "\<And>a. deposit_used E s' a = deposit_used E s a" "\<And>a. confirm_used E s' a = confirm_used E s a"
proof -
  have att: thesis
    if q: "\<And>ok s'. qualifiesAsValidatorAttestation E v r s = (ok, s') \<Longrightarrow> qualifying_messages E seen (m # msgs) s =
        (if ok then qualifying_messages E seen msgs s' else (False, s'))"
      and m: "attester E m = AccAddressFromBech32 E v" "confirmer E m = None" "confirmed_ids [m] = []"
        "deserves_exemption E s m \<longleftrightarrow> bonded_attester E m \<and> tolerable r" for v r
  proof -
    obtain ok s' where ok: "qualifiesAsValidatorAttestation E v r s = (ok, s')" by force
    note st = attestation_step[OF ok]
    show thesis
    proof (cases ok)
      case True
      with st(1) m have "deserves_exemption E s m" "quota_left E s m" by (auto simp: quota_left_def bonded_attester_def)
      with True q[OF ok] st(2-4) m show thesis by (intro go[of s']) simp_all
    next
      case False
      with st(1) m have "\<not> (deserves_exemption E s m \<and> quota_left E s m)"
        by (cases "AccAddressFromBech32 E v") (simp_all add: quota_left_def bonded_attester_def)
      with False q[OF ok] st(2-4) show thesis by (intro stop[of s']) auto
    qed
  qed
  show thesis
  proof (cases m)
    case (MsgConfirmName d)
    show thesis
    proof (cases "cn_RegistrationId d \<in> set seen")
      case True
      then show thesis by (intro stop[of s]) (simp_all add: MsgConfirmName)
    next
      case False
      obtain ok s' where ok: "qualifiesAsConfirmation E d s = (ok, s')" by force
      note st = confirmation_step[OF ok]
      show thesis
      proof (cases ok)
        case True
        with st(1) have "deserves_exemption E s m" "quota_left E s m" by (auto simp: quota_left_def MsgConfirmName)
        with True False ok st(2-4) show thesis by (intro go[of s']) (simp_all add: MsgConfirmName)
      next
        case nok: False
        with st(1) have "\<not> (deserves_exemption E s m \<and> quota_left E s m)" by (auto simp: quota_left_def MsgConfirmName)
        with nok False ok st(2-4) show thesis by (intro stop[of s']) (auto simp: MsgConfirmName)
      qed
    qed
  next
    case (MsgAttestDeposit d)
    show thesis by (rule att[of "ad_Validator d" "ValidateDepositAcceptance E d s"]) (simp_all add: MsgAttestDeposit)
  next
    case (MsgAttestWithdrawalPayout d)
    show thesis
      by (rule att[of "ap_Validator d" "ValidateWithdrawalProcessedAcceptance E d s"]) (simp_all add: MsgAttestWithdrawalPayout)
  next
    case (MsgSubmitNameRegistration d)
    show thesis
      by (rule att[of "sn_Validator d" "ValidateNameRegistrationAcceptance E d s"]) (simp_all add: MsgSubmitNameRegistration)
  qed (rule stop[of s]; simp)+
qed

text \<open>
  What the loop decides: every message deserves its exemption, no registration is confirmed twice and the
  quotas hold the whole transaction.
\<close>

definition within_quota :: "env \<Rightarrow> bridge_msg list \<Rightarrow> 'b bridge_state \<Rightarrow> bool" where
  "within_quota E msgs s \<longleftrightarrow>
     (\<forall>a. attestations E a msgs \<noteq> 0 \<longrightarrow> deposit_used E s a + attestations E a msgs \<le> 100) \<and>
     (\<forall>a. confirmations E a msgs \<noteq> 0 \<longrightarrow> confirm_used E s a + confirmations E a msgs \<le> 10)"

definition fits :: "nat \<Rightarrow> ('a \<Rightarrow> nat) \<Rightarrow> ('a \<Rightarrow> nat) \<Rightarrow> bool" where
  "fits q used need \<longleftrightarrow> (\<forall>a. need a \<noteq> 0 \<longrightarrow> used a + need a \<le> q)"

lemma fits_step:
  "fits q used (\<lambda>a. (if x = Some a then 1 else 0) + need a) \<longleftrightarrow>
     (\<forall>a. x = Some a \<longrightarrow> used a < q) \<and> fits q (\<lambda>a. used a + (if x = Some a then 1 else 0)) need"
  unfolding fits_def by (cases x) (auto simp: less_eq_Suc_le not_less_eq_eq)

lemma within_quota_fits:
  "within_quota E msgs s \<longleftrightarrow> fits 100 (deposit_used E s) (\<lambda>a. attestations E a msgs) \<and>
     fits 10 (confirm_used E s) (\<lambda>a. confirmations E a msgs)"
  by (simp add: within_quota_def fits_def)

lemma within_quota_step:
  assumes "\<And>a. deposit_used E s' a = deposit_used E s a + attestations E a [m]"
    and "\<And>a. confirm_used E s' a = confirm_used E s a + confirmations E a [m]"
  shows "within_quota E (m # msgs) s \<longleftrightarrow> quota_left E s m \<and> within_quota E msgs s'"
proof -
  have "deposit_used E s' = (\<lambda>a. deposit_used E s a + (if attester E m = Some a then 1 else 0))"
    "confirm_used E s' = (\<lambda>a. confirm_used E s a + (if confirmer E m = Some a then 1 else 0))"
    using assms by (simp_all add: fun_eq_iff)
  then show ?thesis by (simp only: within_quota_fits message_counts fits_step quota_left_def) blast
qed

lemma qualifying_messages_spec:
  assumes "qualifying_messages E seen msgs s = (ok, s')"
  shows "(ok \<longleftrightarrow> (\<forall>m\<in>set msgs. deserves_exemption E s m) \<and> distinct (confirmed_ids msgs) \<and>
      set (confirmed_ids msgs) \<inter> set seen = {} \<and> within_quota E msgs s) \<and> counted s s' \<and>
    (ok \<longrightarrow> (\<forall>a. deposit_used E s' a = deposit_used E s a + attestations E a msgs \<and>
                confirm_used E s' a = confirm_used E s a + confirmations E a msgs))"
  using assms
proof (induction msgs arbitrary: seen s)
  case Nil
  then show ?case by (simp add: within_quota_def)
next
  case (Cons m msgs)
  have ids: "confirmed_ids (m # msgs) = confirmed_ids [m] @ confirmed_ids msgs" by (cases m) simp_all
  show ?case
  proof (cases rule: message_step[of E s m seen msgs])
    case (go t)
    have IH: "(ok \<longleftrightarrow> (\<forall>m\<in>set msgs. deserves_exemption E t m) \<and> distinct (confirmed_ids msgs) \<and>
        set (confirmed_ids msgs) \<inter> set (confirmed_ids [m] @ seen) = {} \<and> within_quota E msgs t) \<and> counted t s' \<and>
      (ok \<longrightarrow> (\<forall>a. deposit_used E s' a = deposit_used E t a + attestations E a msgs \<and>
                confirm_used E s' a = confirm_used E t a + confirmations E a msgs))"
      using Cons.prems go(4) by (intro Cons.IH) simp
    have d: "distinct (confirmed_ids [m])" by (cases m) simp_all
    have "within_quota E (m # msgs) s \<longleftrightarrow> within_quota E msgs t"
      using within_quota_step[OF go(6,7)] go(2) by simp
    with IH go(1,3) d counted_deserves[OF go(5)] counted_trans[OF go(5)] go(6,7)
    show ?thesis unfolding ids by (auto simp del: confirmed_ids.simps)
  next
    case (stop t)
    then have "ok = False" "s' = t" using Cons.prems by simp_all
    moreover have "within_quota E (m # msgs) s \<Longrightarrow> quota_left E s m"
      by (auto simp: within_quota_fits fits_step quota_left_def)
    ultimately show ?thesis using stop(1,3) unfolding ids by (auto simp del: confirmed_ids.simps)
  qed
qed

lemma message_step_used:
  assumes "qualifying_messages E seen msgs s = (ok, s')"
  shows "deposit_used E s a \<le> deposit_used E s' a \<and> (deposit_used E s a \<le> 100 \<longrightarrow> deposit_used E s' a \<le> 100) \<and>
    confirm_used E s a \<le> confirm_used E s' a \<and> (confirm_used E s a \<le> 10 \<longrightarrow> confirm_used E s' a \<le> 10)"
  using assms
proof (induction msgs arbitrary: seen s)
  case (Cons m msgs)
  show ?case
  proof (cases rule: message_step[of E s m seen msgs])
    case (go t)
    have "deposit_used E t a \<le> deposit_used E s' a \<and> (deposit_used E t a \<le> 100 \<longrightarrow> deposit_used E s' a \<le> 100) \<and>
      confirm_used E t a \<le> confirm_used E s' a \<and> (confirm_used E t a \<le> 10 \<longrightarrow> confirm_used E s' a \<le> 10)"
      using Cons.prems go(4) by (intro Cons.IH) simp
    moreover have "deposit_used E s a \<le> 100 \<longrightarrow> deposit_used E t a \<le> 100" "confirm_used E s a \<le> 10 \<longrightarrow> confirm_used E t a \<le> 10"
      using go(2,6,7) by (auto simp: quota_left_def)
    ultimately show ?thesis using go(6,7) by (auto intro: le_trans[OF le_add1])
  next
    case (stop t)
    with Cons.prems show ?thesis by auto
  qed
qed simp

definition free_transaction :: "env \<Rightarrow> bridge_msg list \<Rightarrow> 'b bridge_state \<Rightarrow> bool" where
  "free_transaction E msgs s \<longleftrightarrow> msgs \<noteq> [] \<and> list_all (deserves_exemption E s) msgs \<and> distinct (confirmed_ids msgs) \<and>
     within_quota E msgs s"

lemma exemption_spec:
  assumes "qualifiesForFeeExemption E msgs s = (ok, s')"
  shows "ok \<longleftrightarrow> free_transaction E msgs s" "counted s s'"
    and "ok \<Longrightarrow> deposit_used E s' a = deposit_used E s a + attestations E a msgs"
    and "ok \<Longrightarrow> confirm_used E s' a = confirm_used E s a + confirmations E a msgs"
proof -
  have "(ok \<longleftrightarrow> free_transaction E msgs s) \<and> counted s s' \<and>
    (ok \<longrightarrow> deposit_used E s' a = deposit_used E s a + attestations E a msgs) \<and>
    (ok \<longrightarrow> confirm_used E s' a = confirm_used E s a + confirmations E a msgs)"
  proof (cases "msgs = []")
    case False
    with assms have "qualifying_messages E [] msgs s = (ok, s')" by (simp add: qualifiesForFeeExemption_def)
    from qualifying_messages_spec[OF this] False show ?thesis by (auto simp: free_transaction_def list_all_iff)
  qed (use assms in \<open>auto simp: qualifiesForFeeExemption_def free_transaction_def\<close>)
  then show "ok \<longleftrightarrow> free_transaction E msgs s" "counted s s'"
    "ok \<Longrightarrow> deposit_used E s' a = deposit_used E s a + attestations E a msgs"
    "ok \<Longrightarrow> confirm_used E s' a = confirm_used E s a + confirmations E a msgs" by blast+
qed

text \<open>
  C31: The decorator waives the fee exactly for the transactions that deserve it: there is at least one
  message, every message is a vote of a bonded validator that the bridge would accept or count as a
  harmless repetition, or a confirmation that its signer may give; no registration is confirmed twice;
  and the quotas of all signers hold the whole transaction. Such a transaction goes straight to the rest
  of the chain; any other passes the three fee decorators in order. Nothing but the quota counters
  changes before that.
\<close>

theorem free_transactions_are_exact:
  "\<exists>s1. counted s s1 \<and>
     fee_exemption_AnteHandle E minGasPrice consumeGasForTxSize deductFee msgs next0 (s, c) =
       (if free_transaction E msgs s then next0 (s1, c)
        else minGasPrice (consumeGasForTxSize (deductFee next0)) (s1, c))"
proof -
  obtain ok s1 where ok: "qualifiesForFeeExemption E msgs s = (ok, s1)" by force
  show ?thesis
    by (rule exI[of _ s1]) (use exemption_spec(1,2)[OF ok] in \<open>simp add: fee_exemption_AnteHandle_def ok\<close>)
qed

section \<open>Free rides in a block\<close>

text \<open>
  The transactions of a block. Each brings its messages and what delivering it does: nothing when a later
  decorator refuses it, and otherwise the steps of its messages, which are rolled back together when one
  of them fails, while the counters the decorator has written stay.
\<close>

fun message_op :: "'b bridge_op \<Rightarrow> bool" where
  "message_op OpBeginBlock = False"
| "message_op OpEndBlock = False"
| "message_op _ = True"

fun run_ops :: "env \<Rightarrow> 'b bank_ops \<Rightarrow> 'b bridge_op list \<Rightarrow> 'b bridge_chain \<Rightarrow> 'b bridge_chain res" where
  "run_ops E bk [] c = Inr c"
| "run_ops E bk (oper # opers) c = rbind (bridge_exec E bk oper c) (run_ops E bk opers)"

fun run_block ::
    "env \<Rightarrow> 'b bank_ops \<Rightarrow> (bridge_msg list \<times> 'b bridge_op list option) list \<Rightarrow> 'b bridge_chain \<Rightarrow>
     bridge_msg list \<times> 'b bridge_chain" where
  "run_block E bk [] c = ([], c)"
| "run_block E bk ((msgs, None) # txs) c = run_block E bk txs c"
| "run_block E bk ((msgs, Some opers) # txs) (s, ok) =
     (let (free, s1) = qualifiesForFeeExemption E msgs s;
          c2 = (case run_ops E bk opers (s1, ok) of Inl e \<Rightarrow> (s1, ok) | Inr c \<Rightarrow> c);
          (rest, c3) = run_block E bk txs c2
      in ((if free then msgs else []) @ rest, c3))"

lemma bridge_exec_counters:
  assumes "bridge_exec E bk oper (s, ok) = Inr (s', ok')" "message_op oper"
  shows "FreeDepositCounter s' = FreeDepositCounter s \<and> FreeNameConfirmCounter s' = FreeNameConfirmCounter s"
proof (cases oper)
  case (OpAttestDeposit msg)
  with assms(1) have run: "AttestDeposit E bk msg s = Inr s'" by (auto simp: rbind_eq_Inr)
  show ?thesis
  proof (cases "s' = s")
    case False
    show ?thesis by (rule AttestDeposit_effect[OF run False]) simp
  qed simp
next
  case (OpSubmitName msg)
  with assms(1) have run: "SubmitNameRegistration E bk msg s = Inr s'" by (auto simp: rbind_eq_Inr)
  show ?thesis
  proof (cases "s' = s")
    case False
    show ?thesis by (rule SubmitNameRegistration_effect[OF run False]) simp
  qed simp
next
  case (OpConfirmName msg)
  with assms(1) have "ConfirmName E msg s = Inr s'" by (auto simp: rbind_eq_Inr)
  from ConfirmName_frame(7,8)[OF this] show ?thesis by simp
next
  case (OpBridgeOut msg)
  with assms(1) have run: "BridgeOut E bk msg s = Inr s'" by (auto simp: rbind_eq_Inr)
  show ?thesis by (rule BridgeOut_Inr[OF run]) simp
next
  case (OpAttestPayout msg)
  with assms(1) have "AttestWithdrawalPayout E msg s = Inr s'" by (auto simp: rbind_eq_Inr)
  from AttestWithdrawalPayout_effect[OF this] show ?thesis by simp
next
  case (OpUpdateParams auth a p)
  with assms(1) show ?thesis by (auto simp: rbind_eq_Inr bridge_UpdateParams_def)
qed (use assms in auto)

lemma run_ops_counters:
  "run_ops E bk opers (s, ok) = Inr (s', ok') \<Longrightarrow> list_all message_op opers \<Longrightarrow>
     FreeDepositCounter s' = FreeDepositCounter s \<and> FreeNameConfirmCounter s' = FreeNameConfirmCounter s"
proof (induction opers arbitrary: s ok)
  case (Cons oper opers)
  from Cons.prems(1) obtain t ok1 where "bridge_exec E bk oper (s, ok) = Inr (t, ok1)" "run_ops E bk opers (t, ok1) = Inr (s', ok')"
    by (auto simp: rbind_eq_Inr)
  with Cons bridge_exec_counters[of E bk oper s ok t ok1] show ?case by simp
qed simp

definition block_of_messages :: "(bridge_msg list \<times> 'b bridge_op list option) list \<Rightarrow> bool" where
  "block_of_messages txs \<longleftrightarrow> list_all (\<lambda>(msgs, opers). case opers of None \<Rightarrow> True | Some os \<Rightarrow> list_all message_op os) txs"

lemma run_block_used:
  assumes "run_block E bk txs (s, ok) = (free, (s', ok'))" "block_of_messages txs"
    and "deposit_used E s a \<le> 100" "confirm_used E s a \<le> 10"
  shows "deposit_used E s a + attestations E a free \<le> deposit_used E s' a \<and> deposit_used E s' a \<le> 100 \<and>
    confirm_used E s a + confirmations E a free \<le> confirm_used E s' a \<and> confirm_used E s' a \<le> 10"
  using assms
proof (induction txs arbitrary: s ok free)
  case (Cons tx txs)
  obtain msgs opers where tx: "tx = (msgs, opers)" by force
  have blk: "block_of_messages txs" using Cons.prems(2) by (simp add: block_of_messages_def)
  show ?case
  proof (cases opers)
    case None
    with Cons.IH[of s ok free] Cons.prems blk tx show ?thesis by simp
  next
    case (Some os)
    obtain q s1 where q: "qualifiesForFeeExemption E msgs s = (q, s1)" by force
    define c2 where "c2 = (case run_ops E bk os (s1, ok) of Inl e \<Rightarrow> (s1, ok) | Inr c \<Rightarrow> c)"
    obtain s2 ok2 where c2: "c2 = (s2, ok2)" by force
    obtain rest where r: "run_block E bk txs (s2, ok2) = (rest, (s', ok'))" and free: "free = (if q then msgs else []) @ rest"
      using Cons.prems(1) unfolding tx Some run_block.simps q Let_def
      by (auto simp: c2_def[symmetric] c2 split: prod.splits)
    have "list_all message_op os" using Cons.prems(2) by (simp add: block_of_messages_def tx Some)
    then have cnt: "deposit_used E s2 a = deposit_used E s1 a" "confirm_used E s2 a = confirm_used E s1 a"
      using run_ops_counters[of E bk os s1 ok s2 ok2] c2 unfolding c2_def by (auto split: sum.splits)
    have step: "deposit_used E s a + attestations E a (if q then msgs else []) \<le> deposit_used E s1 a \<and> deposit_used E s1 a \<le> 100 \<and>
      confirm_used E s a + confirmations E a (if q then msgs else []) \<le> confirm_used E s1 a \<and> confirm_used E s1 a \<le> 10"
    proof (cases "msgs = []")
      case False
      then have "qualifying_messages E [] msgs s = (q, s1)" using q by (simp add: qualifiesForFeeExemption_def)
      from message_step_used[OF this] exemption_spec(3,4)[OF q] Cons.prems(3,4) show ?thesis by simp
    qed (use q Cons.prems(3,4) in \<open>auto simp: qualifiesForFeeExemption_def\<close>)
    with Cons.IH[OF r blk] cnt show ?thesis by (simp add: free)
  qed
qed simp

text \<open>
  C32: Free rides are bounded per block. Whatever transactions a block brings, whichever of them fail, and
  however their messages interleave, the transactions that paid no fee hold at most 100 attestations of
  any one validator and 10 confirmations of any one account, when no counter is dated to this block
  before it starts.
\<close>

theorem free_rides_are_bounded:
  assumes "run_block E bk txs (s, ok) = (free, c')" "block_of_messages txs"
    and "\<And>a k. kv_get (FreeDepositCounter s) a = Some k \<Longrightarrow> fc_Height k \<noteq> BlockHeight E"
    and "\<And>a k. kv_get (FreeNameConfirmCounter s) a = Some k \<Longrightarrow> fc_Height k \<noteq> BlockHeight E"
  shows "attestations E a free \<le> 100 \<and> confirmations E a free \<le> 10"
proof -
  have "deposit_used E s a = 0" "confirm_used E s a = 0"
    using assms(3,4) by (auto simp: used_quota_def split: option.splits)
  moreover obtain s' ok' where "c' = (s', ok')" by force
  ultimately show ?thesis using run_block_used[of E bk txs s ok free s' ok' a] assms(1,2) by simp
qed

lemma free_rides_are_bounded_witness:
  "\<exists>free c'. run_block strict_env fakeBank
       [([MsgAttestDeposit (demo_deposit ''v1'')], Some [OpAttestDeposit (demo_deposit ''v1'')])]
       (start_bridge demo_params empty_ledger, None) = (free, c') \<and>
     free = [MsgAttestDeposit (demo_deposit ''v1'')] \<and> attestations strict_env ''v1'' free \<le> 100 \<and>
     confirmations strict_env ''v1'' free \<le> 10"
proof -
  let ?s = "start_bridge demo_params empty_ledger" and ?m = "MsgAttestDeposit (demo_deposit ''v1'')"
  let ?txs = "[([?m], Some [OpAttestDeposit (demo_deposit ''v1'')])]"
  have acc: "AccAddressFromBech32 strict_env = Some" by (simp add: strict_env_def demo_bridge_env_def plain_env_def)
  obtain q s1 where q: "qualifiesForFeeExemption strict_env [?m] ?s = (q, s1)" by force
  have "ValidateDepositAcceptance strict_env (demo_deposit ''v1'') ?s = Inr ()"
    by (simp add: ValidateDepositAcceptance_def demo_deposit_def demo_params_def bridge_DefaultParams_def CheckSteemBlock_def
        lookupDepositByTxid_def strict_codec_def)
  then have "free_transaction strict_env [?m] ?s"
    by (simp add: free_transaction_def bonded_attester_def acc demo_deposit_def is_bonded_def plain_validator_def tolerable_def
        within_quota_def used_quota_def)
  with exemption_spec(1)[OF q] have q1: "q" by simp
  obtain free c' where r: "run_block strict_env fakeBank ?txs (?s, None) = (free, c')" by (rule prod.exhaust)
  then have "free = [?m]" using q q1 by (auto split: prod.splits)
  moreover have "attestations strict_env ''v1'' free \<le> 100 \<and> confirmations strict_env ''v1'' free \<le> 10"
    by (rule free_rides_are_bounded[OF r]) (simp_all add: block_of_messages_def)
  ultimately show ?thesis using r by blast
qed

section \<open>Validators and their names\<close>

text \<open>
  The staking message server as the gate sees it: \<open>desc\<close> reads the moniker and the details of a
  validator. Creating a validator stores the description it was given; editing replaces the fields that
  are not the sentinel.
\<close>

definition staking_server_ok ::
    "env \<Rightarrow> (validator_msg \<Rightarrow> 'v \<Rightarrow> 'v res) \<Rightarrow> (validator_msg \<Rightarrow> 'v \<Rightarrow> 'v res) \<Rightarrow>
     ('v \<Rightarrow> bytes \<Rightarrow> (string \<times> string) option) \<Rightarrow> bool" where
  "staking_server_ok E create edit desc \<longleftrightarrow>
     (\<forall>msg st st' a. create msg st = Inr st' \<longrightarrow> ValAddressFromBech32 E (vm_ValidatorAddress msg) = Some a \<longrightarrow>
        desc st' = (desc st)(a \<mapsto> (vm_Moniker msg, vm_Details msg))) \<and>
     (\<forall>msg st st' a. edit msg st = Inr st' \<longrightarrow> ValAddressFromBech32 E (vm_ValidatorAddress msg) = Some a \<longrightarrow>
        (\<exists>mo de. desc st a = Some (mo, de) \<and>
           desc st' = (desc st)(a \<mapsto> (if vm_Moniker msg = DoNotModifyDesc then mo else vm_Moniker msg,
                                  if vm_Details msg = DoNotModifyDesc then de else vm_Details msg))))"

definition keeper_sees :: "env \<Rightarrow> ('v \<Rightarrow> bytes \<Rightarrow> (string \<times> string) option) \<Rightarrow> 'v \<Rightarrow> bool" where
  "keeper_sees E desc st \<longleftrightarrow> (\<forall>a. map_option (\<lambda>v. (v_moniker v, v_details v)) (GetValidator E a) = desc st a)"

definition name_service_on :: "'b bridge_state \<Rightarrow> bool" where
  "name_service_on s \<longleftrightarrow> (\<exists>p. b_Params s = Some p \<and> NameServiceEnabled p)"

text \<open>The account \<open>a\<close> owns the name its description claims.\<close>

definition owns_name :: "env \<Rightarrow> 'b bridge_state \<Rightarrow> bytes \<Rightarrow> string \<Rightarrow> string \<Rightarrow> bool" where
  "owns_name E s a moniker details \<longleftrightarrow>
     (\<exists>ident nr. ParseValidatorIdentity E moniker details = Inr ident \<and>
        kv_get (ActiveName s) (SteemUsername ident) = Some nr \<and> StringToBytes E (nr_Address nr) = Some a)"

lemma eligibility_iff:
  assumes "name_service_on s"
  shows "ValidateValidatorCreationEligibility E s a mo de = Inr () \<longleftrightarrow> owns_name E s a mo de"
  using assms by (auto simp: name_service_on_def ValidateValidatorCreationEligibility_def owns_name_def rbind_eq_Inr)

lemma unauthorized_ok [simp]: "unauthorized r = Inr u \<longleftrightarrow> r = Inr u"
  by (cases r) (simp_all add: unauthorized_def)

lemma checked:
  "checkCreate E bound s msg = Inr () \<longleftrightarrow> bound \<and> (\<exists>a. ValAddressFromBech32 E (vm_ValidatorAddress msg) = Some a \<and>
     ValidateValidatorCreationEligibility E s a (vm_Moniker msg) (vm_Details msg) = Inr ())"
  "checkEdit E bound s msg = Inr () \<longleftrightarrow> bound \<and> (\<exists>a. ValAddressFromBech32 E (vm_ValidatorAddress msg) = Some a \<and>
     ValidateValidatorEdit E s a (vm_Moniker msg) (vm_Details msg) = Inr ())"
  by (auto simp: checkCreate_def checkEdit_def rbind_eq_Inr)

text \<open>
  C33: While the name service is on, a validator is created or renamed only under a Steem name that its
  operator's account owns: whatever the gated staking server accepts, the description it stores parses
  as an identity whose name is actively linked to the operator; an edit that touches neither field
  leaves every description as it was.
\<close>

theorem validators_own_their_names:
  assumes "name_service_on s" "staking_server_ok E create edit desc" "keeper_sees E desc st"
    and "gated_CreateValidator E bound s create msg st = Inr st' \<or> gated_EditValidator E bound s edit msg st = Inr st'"
  shows "desc st' = desc st \<or>
    (\<exists>a mo de. ValAddressFromBech32 E (vm_ValidatorAddress msg) = Some a \<and> desc st' = (desc st)(a \<mapsto> (mo, de)) \<and>
       owns_name E s a mo de)"
  using assms(4)
proof
  assume "gated_CreateValidator E bound s create msg st = Inr st'"
  then obtain a where "ValAddressFromBech32 E (vm_ValidatorAddress msg) = Some a" "create msg st = Inr st'"
    "owns_name E s a (vm_Moniker msg) (vm_Details msg)"
    by (auto simp: gated_CreateValidator_def rbind_eq_Inr checked eligibility_iff[OF assms(1)])
  with assms(2) show ?thesis unfolding staking_server_ok_def by blast
next
  assume "gated_EditValidator E bound s edit msg st = Inr st'"
  then obtain a where a: "ValAddressFromBech32 E (vm_ValidatorAddress msg) = Some a" "edit msg st = Inr st'"
    "ValidateValidatorEdit E s a (vm_Moniker msg) (vm_Details msg) = Inr ()"
    by (auto simp: gated_EditValidator_def rbind_eq_Inr checked)
  with assms(2) obtain mo de where d: "desc st a = Some (mo, de)"
    "desc st' = (desc st)(a \<mapsto> (if vm_Moniker msg = DoNotModifyDesc then mo else vm_Moniker msg,
                            if vm_Details msg = DoNotModifyDesc then de else vm_Details msg))"
    unfolding staking_server_ok_def by metis
  show ?thesis
  proof (cases "vm_Moniker msg = DoNotModifyDesc \<and> vm_Details msg = DoNotModifyDesc")
    case True
    with d show ?thesis by (intro disjI1) (auto simp: fun_eq_iff)
  next
    case False
    obtain v where v: "GetValidator E a = Some v" "v_moniker v = mo" "v_details v = de"
      using assms(3)[unfolded keeper_sees_def, THEN spec, of a] d(1) by (cases "GetValidator E a") auto
    have "owns_name E s a (if vm_Moniker msg = DoNotModifyDesc then mo else vm_Moniker msg)
        (if vm_Details msg = DoNotModifyDesc then de else vm_Details msg)"
      using a(3) False v by (auto simp: ValidateValidatorEdit_def eligibility_iff[OF assms(1)] split: if_splits)
    with a(1) d(2) show ?thesis by blast
  qed
qed

text \<open>A table of descriptions as a staking server, and a state in which \<open>alice\<close> is linked to \<open>v1\<close>.\<close>

definition table_create :: "validator_msg \<Rightarrow> (bytes \<Rightarrow> (string \<times> string) option) \<Rightarrow> (bytes \<Rightarrow> (string \<times> string) option) res" where
  "table_create msg t =
     (case t (vm_ValidatorAddress msg) of
        Some d \<Rightarrow> Inl ErrInvalidRequest
      | None \<Rightarrow> Inr (t(vm_ValidatorAddress msg \<mapsto> (vm_Moniker msg, vm_Details msg))))"

definition table_edit :: "validator_msg \<Rightarrow> (bytes \<Rightarrow> (string \<times> string) option) \<Rightarrow> (bytes \<Rightarrow> (string \<times> string) option) res" where
  "table_edit msg t =
     (case t (vm_ValidatorAddress msg) of
        None \<Rightarrow> Inl ErrInvalidRequest
      | Some (mo, de) \<Rightarrow> Inr (t(vm_ValidatorAddress msg \<mapsto>
          (if vm_Moniker msg = DoNotModifyDesc then mo else vm_Moniker msg,
           if vm_Details msg = DoNotModifyDesc then de else vm_Details msg))))"

definition keyed_env :: env where
  "keyed_env = strict_env\<lparr>base58_Decode := (\<lambda>_. replicate 37 (CHR ''k'')), GetValidator := (\<lambda>_. None)\<rparr>"

definition linked_state :: "ledger bridge_state" where
  "linked_state = (start_bridge demo_params empty_ledger)
     \<lparr>ActiveName := [(''alice'', \<lparr>nr_SteemAccount = ''alice'', nr_Address = ''v1'', nr_RegistrationId = 0, nr_LinkedAt = 3\<rparr>)]\<rparr>"

definition alice_msg :: validator_msg where
  "alice_msg = \<lparr>vm_ValidatorAddress = ''v1'', vm_Moniker = ''alice'', vm_Details = ''owner=STMa;active=STMb;posting=STMc''\<rparr>"

lemma keyed_env_simps [simp]:
  "StringToBytes keyed_env = strict_codec" "ValAddressFromBech32 keyed_env = Some" "GetValidator keyed_env a = None"
  "base58_Decode keyed_env b = replicate 37 (CHR ''k'')"
  by (simp_all add: keyed_env_def)

lemma plain_part:
  assumes "\<forall>c\<in>set (k @ v). visible c" "CHR ''='' \<notin> set k" "k \<notin> set seen"
  shows "identity_part (k @ CHR ''='' # v) (ident, seen) =
    (if k = ''owner'' then Inr (ident\<lparr>OwnerPubkey := v\<rparr>, k # seen)
     else if k = ''active'' then Inr (ident\<lparr>ActivePubkey := v\<rparr>, k # seen)
     else if k = ''posting'' then Inr (ident\<lparr>PostingPubkey := v\<rparr>, k # seen)
     else Inl ErrInvalidRequest)"
proof -
  have "visible (CHR ''='')" by (simp add: visible_def)
  then have t: "TrimSpace (k @ CHR ''='' # v) = k @ CHR ''='' # v" "TrimSpace k = k" "TrimSpace v = v"
    using assms(1) by (intro TrimSpace_all_visible; auto)+
  have "Cut (CHR ''='') (k @ CHR ''='' # v) = Some (k, v)" using assms(2) by (induction k) auto
  with t assms(3) show ?thesis by (auto simp: identity_part_def Let_def)
qed

lemma keyed_parse:
  "ParseValidatorIdentity keyed_env ''alice'' ''owner=STMa;active=STMb;posting=STMc'' =
     Inr \<lparr>SteemUsername = ''alice'', OwnerPubkey = ''STMa'', ActivePubkey = ''STMb'', PostingPubkey = ''STMc''\<rparr>"
proof -
  have sp: "Split (CHR '';'') ''owner=STMa;active=STMb;posting=STMc'' = [''owner=STMa'', ''active=STMb'', ''posting=STMc'']"
    by simp
  have tr: "TrimSpace ''alice'' = ''alice''" by (rule TrimSpace_all_visible) (simp add: visible_def)
  note part = plain_part[where k = "''owner''" and v = "''STMa''"] plain_part[where k = "''active''" and v = "''STMb''"]
    plain_part[where k = "''posting''" and v = "''STMc''"]
  show ?thesis
    by (simp add: ParseValidatorIdentity_def sp tr part[simplified] visible_def identity_Validate_def ValidateSteemPublicKey_def)
qed

lemma validators_own_their_names_witness:
  "\<exists>st'. gated_CreateValidator keyed_env True linked_state table_create alice_msg (\<lambda>_. None) = Inr st' \<and>
     (st' = (\<lambda>_. None) \<or>
      (\<exists>a mo de. ValAddressFromBech32 keyed_env (vm_ValidatorAddress alice_msg) = Some a \<and> st' = [a \<mapsto> (mo, de)] \<and>
         owns_name keyed_env linked_state a mo de))"
proof -
  let ?st' = "[''v1'' \<mapsto> (''alice'', ''owner=STMa;active=STMb;posting=STMc'')]"
  have on: "name_service_on linked_state" by (simp add: name_service_on_def linked_state_def demo_params_def)
  have srv: "staking_server_ok keyed_env table_create table_edit (\<lambda>st. st)"
    by (auto simp: staking_server_ok_def table_create_def table_edit_def split: option.splits)
  have sees: "keeper_sees keyed_env (\<lambda>st. st) (\<lambda>_. None)" by (simp add: keeper_sees_def)
  have run: "gated_CreateValidator keyed_env True linked_state table_create alice_msg (\<lambda>_. None) = Inr ?st'"
    by (simp add: gated_CreateValidator_def checkCreate_def unauthorized_def ValidateValidatorCreationEligibility_def alice_msg_def
        keyed_parse linked_state_def demo_params_def kv_get_Cons strict_codec_def table_create_def)
  show ?thesis
    using validators_own_their_names[OF on srv sees disjI1, OF run] run by blast
qed

end
