(* ===== verification/Go_Time.thy ===== *)
theory Go_Time
  imports Go_Strings
begin

text \<open>
  The part of Go's \<open>time\<close> package that the Steem side of the oracle uses: parsing the fixed layout
  \<open>2006-01-02T15:04:05\<close> into an instant, and ordering instants. An instant is the number of
  nanoseconds since the Unix epoch. The parser is the one of \<open>time.Parse\<close>, including its two
  liberties: the hour may have a single digit, and a fraction may follow the seconds although the
  layout has none.
\<close>

section \<open>The Gregorian calendar\<close>

type_synonym instant = int

definition nanosecond :: int where "nanosecond = 1"
definition Second :: int where "Second = 1000000000"
definition Minute :: int where "Minute = 60 * Second"
definition Hour :: int where "Hour = 60 * Minute"

lemmas duration_defs = nanosecond_def Second_def Minute_def Hour_def

definition isLeap :: "nat \<Rightarrow> bool" where
  "isLeap y \<longleftrightarrow> 4 dvd y \<and> (\<not> 100 dvd y \<or> 400 dvd y)"

definition daysIn :: "nat \<Rightarrow> nat \<Rightarrow> nat" where
  "daysIn m y =
     (if m = 2 then (if isLeap y then 29 else 28)
      else if m \<in> {4, 6, 9, 11} then 30 else 31)"

text \<open>Days between the first of January of the year 0 and the first of January of year \<open>y\<close>.\<close>

definition daysBeforeYear :: "nat \<Rightarrow> nat" where
  "daysBeforeYear y = 365 * y + (y + 3) div 4 - (y + 99) div 100 + (y + 399) div 400"

definition daysBeforeMonth :: "nat \<Rightarrow> nat \<Rightarrow> nat" where
  "daysBeforeMonth y m = sum_list (map (\<lambda>k. daysIn k y) [1..<m])"

text \<open>\<open>time.Date\<close> for a date in range, in UTC; 719528 days separate year 0 from the Unix epoch.\<close>

definition Date :: "nat \<Rightarrow> nat \<Rightarrow> nat \<Rightarrow> nat \<Rightarrow> nat \<Rightarrow> nat \<Rightarrow> nat \<Rightarrow> instant" where
  "Date y m d h mi s ns =
     ((int (daysBeforeYear y + daysBeforeMonth y m + (d - 1)) - 719528) * 86400
       + int (h * 3600 + mi * 60 + s)) * Second + int ns"

definition Unix :: "instant \<Rightarrow> int" where
  "Unix t = t div Second"

definition Before :: "instant \<Rightarrow> instant \<Rightarrow> bool" where
  "Before t u \<longleftrightarrow> t < u"

section \<open>Parsing\<close>

definition digit_val :: "char \<Rightarrow> nat" where
  "digit_val c = of_char c - 48"

text \<open>\<open>getnum\<close>: a two-digit number, or a one-digit one where the width is not fixed.\<close>

fun getnum :: "bool \<Rightarrow> string \<Rightarrow> (nat \<times> string) option" where
  "getnum fixed [] = None"
| "getnum fixed [a] = (if is_digit a \<and> \<not> fixed then Some (digit_val a, []) else None)"
| "getnum fixed (a # b # s) =
     (if \<not> is_digit a then None
      else if is_digit b then Some (digit_val a * 10 + digit_val b, s)
      else if fixed then None else Some (digit_val a, b # s))"

text \<open>The four digits of the year.\<close>

fun getyear :: "string \<Rightarrow> (nat \<times> string) option" where
  "getyear (a # b # c # d # s) =
     (if is_digit a \<and> is_digit b \<and> is_digit c \<and> is_digit d
      then Some (digits_val 0 [a, b, c, d], s) else None)"
| "getyear _ = None"

definition skip_char :: "char \<Rightarrow> string \<Rightarrow> string option" where
  "skip_char c s = CutPrefix [c] s"

text \<open>
  A fraction after the seconds: a period or comma, at least one digit, and every digit that
  follows, of which the first nine count.
\<close>

definition getfraction :: "string \<Rightarrow> nat \<times> string" where
  "getfraction s =
     (case s of
        p # d # _ \<Rightarrow>
          if p \<in> {CHR ''.'', CHR '',''} \<and> is_digit d
          then (let ds = takeWhile is_digit (tl s); ns = take 9 ds in
                (digits_val 0 ns * 10 ^ (9 - length ns), dropWhile is_digit (tl s)))
          else (0, s)
      | _ \<Rightarrow> (0, s))"

text \<open>\<open>time.Parse(TimeLayout, s)\<close>, \<open>None\<close> where it returns an error.\<close>

definition parse_date :: "string \<Rightarrow> ((nat \<times> nat \<times> nat) \<times> string) option" where
  "parse_date s =
     Option.bind (getyear s) (\<lambda>(y, s).
     Option.bind (skip_char (CHR ''-'') s) (\<lambda>s.
     Option.bind (getnum True s) (\<lambda>(m, s).
     if m < 1 \<or> 12 < m then None else
     Option.bind (skip_char (CHR ''-'') s) (\<lambda>s.
     Option.bind (getnum True s) (\<lambda>(d, s). Some ((y, m, d), s))))))"

definition parse_clock :: "string \<Rightarrow> ((nat \<times> nat \<times> nat \<times> nat) \<times> string) option" where
  "parse_clock s =
     Option.bind (getnum False s) (\<lambda>(h, s).
     if 24 \<le> h then None else
     Option.bind (skip_char (CHR '':'') s) (\<lambda>s.
     Option.bind (getnum True s) (\<lambda>(mi, s).
     if 60 \<le> mi then None else
     Option.bind (skip_char (CHR '':'') s) (\<lambda>s.
     Option.bind (getnum True s) (\<lambda>(sec, s).
     if 60 \<le> sec then None else
     let (ns, s) = getfraction s in Some ((h, mi, sec, ns), s))))))"

definition time_Parse :: "string \<Rightarrow> instant option" where
  "time_Parse s =
     Option.bind (parse_date s) (\<lambda>((y, m, d), s).
     Option.bind (skip_char (CHR ''T'') s) (\<lambda>s.
     Option.bind (parse_clock s) (\<lambda>((h, mi, sec, ns), s).
     if s \<noteq> [] then None
     else if d < 1 \<or> daysIn m y < d then None
     else Some (Date y m d h mi sec ns))))"

lemmas time_eval =
  time_Parse_def parse_date_def parse_clock_def skip_char_def getfraction_def is_digit_def
  digit_val_def Date_def daysBeforeYear_def daysBeforeMonth_def daysIn_def Second_def

section \<open>Formatting\<close>

text \<open>The verb \<open>%0<w>d\<close> of a natural number.\<close>

definition padn :: "nat \<Rightarrow> nat \<Rightarrow> string" where
  "padn w n = (let d = FormatUint n in replicate (w - length d) (CHR ''0'') @ d)"

lemma padn_val: "digits_val 0 (padn w n) = n"
  by (simp add: padn_def Let_def digits_val_zeros digits_val_FormatUint)

lemma length_padn: "n < 10 ^ w \<Longrightarrow> 0 < w \<Longrightarrow> length (padn w n) = w"
  using length_FormatUint_le[of n w] by (simp add: padn_def Let_def)

lemma padn_digits: "c \<in> set (padn w n) \<Longrightarrow> is_digit c"
  by (auto simp: padn_def Let_def is_digit_def dest: FormatUint_digits[unfolded is_digit_def])

text \<open>
  \<open>t.UTC().Format(TimeLayout)\<close> for instants of the years 0 to 9999: the year of a day number is
  estimated from the mean length of a year and corrected by one, the month found by subtraction.
\<close>

definition year_of_day :: "nat \<Rightarrow> nat" where
  "year_of_day d =
     (let y = (400 * d) div 146097 in
      if daysBeforeYear (y + 1) \<le> d then y + 1 else if d < daysBeforeYear y then y - 1 else y)"

fun split_months :: "nat \<Rightarrow> nat list \<Rightarrow> nat \<Rightarrow> nat \<times> nat" where
  "split_months y [] d = (12, d)"
| "split_months y (m # ms) d = (if d < daysIn m y then (m, d) else split_months y ms (d - daysIn m y))"

definition format_date :: "nat \<Rightarrow> string" where
  "format_date n =
     (let y = year_of_day n; (m, d) = split_months y [1..<13] (n - daysBeforeYear y) in
      padn 4 y @ ''-'' @ padn 2 m @ ''-'' @ padn 2 (d + 1))"

definition format_clock :: "nat \<Rightarrow> string" where
  "format_clock s = padn 2 (s div 3600) @ '':'' @ padn 2 (s div 60 mod 60) @ '':'' @ padn 2 (s mod 60)"

definition time_Format :: "instant \<Rightarrow> string" where
  "time_Format t = format_date (nat (Unix t div 86400 + 719528)) @ ''T'' @ format_clock (nat (Unix t mod 86400))"

end
