(* ===== verification/Steem_Encoding.thy ===== *)
theory Steem_Encoding
  imports Go_Time "HOL-Library.Signed_Division"
begin

text \<open>
  The binary encoding of Steem transactions (\<open>oracle/go/steemtx/encoding.go\<close>): the writer's
  primitives, assets and their text form, authorities. A writer method appends bytes to a buffer,
  so its model returns the bytes it appends, or the error it returns (after which no caller uses
  the buffer). The interface \<open>prefix_code\<close> states what makes a sequence of such writes
  unambiguous, and every primitive is shown to satisfy it.
\<close>

unbundle bit_operations_syntax

type_synonym u8 = "8 word"
type_synonym u16 = "16 word"

datatype tx_error =
    ErrBadAsset | ErrUnknownSymbol | ErrBadDecimals | ErrBadDigits | ErrRange
  | ErrBadTime | ErrKeyPrefix | ErrKeyLength | ErrKeyChecksum | ErrUnsupportedOperation
  | ErrTxPanic

type_synonym 'a tres = "tx_error + 'a"

section \<open>Writer\<close>

definition byte_char :: "u8 \<Rightarrow> char" where
  "byte_char b = char_of (unat b)"

text \<open>\<open>binary.LittleEndian\<close>: the low \<open>k\<close> bytes, lowest first.\<close>

fun put_le :: "nat \<Rightarrow> nat \<Rightarrow> bytes" where
  "put_le 0 v = []"
| "put_le (Suc k) v = char_of v # put_le k (v div 256)"

definition U8 :: "u8 \<Rightarrow> bytes" where "U8 v = [byte_char v]"
definition U16 :: "u16 \<Rightarrow> bytes" where "U16 v = put_le 2 (unat v)"
definition U32 :: "u32 \<Rightarrow> bytes" where "U32 v = put_le 4 (unat v)"

text \<open>\<open>uint64(v)\<close> of an \<open>int64\<close> is its two's complement.\<close>

definition I64 :: "int \<Rightarrow> bytes" where "I64 v = put_le 8 (nat (v mod 2 ^ 64))"

function Varint :: "u32 \<Rightarrow> bytes" where
  "Varint v =
     (if v \<ge> 0x80 then byte_char (ucast v OR 0x80) # Varint (drop_bit 7 v) else [byte_char (ucast v)])"
  by pat_completeness auto
termination
proof (relation "measure unat")
  fix v :: u32
  assume "0x80 \<le> v"
  then have "128 \<le> unat v" by (simp add: word_le_nat_alt)
  then show "(drop_bit 7 v, v) \<in> measure unat"
    by (simp add: drop_bit_eq_div unat_div_distrib)
qed simp

declare Varint.simps [simp del]

definition Str :: "string \<Rightarrow> bytes" where
  "Str s = Varint (of_nat (length s)) @ s"

definition Time :: "string \<Rightarrow> bytes tres" where
  "Time s =
     rbind (from_option ErrBadTime (time_Parse s)) (\<lambda>t. Inr (U32 (word_of_int (Unix t))))"

section \<open>Unambiguous writes\<close>

text \<open>
  \<open>writes a x\<close> says that writing \<open>a\<close> appends \<open>x\<close>, \<open>content a\<close> is what a reader learns of
  \<open>a\<close>. The law is that whatever follows in the buffer, two equal buffers agree on the content and
  on the rest: no write is a prefix of a different one.
\<close>

locale prefix_code =
  fixes writes :: "'a \<Rightarrow> bytes \<Rightarrow> bool"
    and content :: "'a \<Rightarrow> 'c"
  assumes unambiguous:
    "writes a x \<Longrightarrow> writes b y \<Longrightarrow> x @ r = y @ s \<Longrightarrow> content a = content b \<and> r = s"
begin

lemma content_eq: "writes a x \<Longrightarrow> writes b x \<Longrightarrow> content a = content b"
  using unambiguous[of a x b x "[]" "[]"] by simp

lemma many:
  assumes "list_all2 writes as xs" and "list_all2 writes bs ys" and "length as = length bs"
    and "concat xs @ r = concat ys @ s"
  shows "map content as = map content bs \<and> r = s"
  using assms
proof (induction as xs arbitrary: bs ys rule: list_all2_induct)
  case Nil
  then show ?case by simp
next
  case (Cons a as x xs)
  then obtain b bs' y ys' where b: "bs = b # bs'" "ys = y # ys'" "writes b y" "list_all2 writes bs' ys'"
    by (cases bs; cases ys) auto
  have "content a = content b \<and> concat xs @ r = concat ys' @ s"
    using unambiguous[OF Cons.hyps(1) b(3)] Cons.prems(3) b(2) by simp
  with Cons.IH[OF b(4)] Cons.prems(2) b(1) show ?case by simp
qed

end

lemma char_of_inject: "m < 256 \<Longrightarrow> n < 256 \<Longrightarrow> char_of m = (char_of n :: char) \<longleftrightarrow> m = (n :: nat)"
  by (metis mod_less of_char_of)

lemma byte_char_inject [simp]: "byte_char a = byte_char b \<longleftrightarrow> a = b"
  using unsigned_less[of a, where 'a = nat] unsigned_less[of b, where 'a = nat]
  by (simp add: byte_char_def char_of_inject word_unat_eq_iff)

lemma length_put_le [simp]: "length (put_le k v) = k"
  by (induction k v rule: put_le.induct) auto

lemma put_le_inject: "u < 256 ^ k \<Longrightarrow> v < 256 ^ k \<Longrightarrow> put_le k u = put_le k v \<Longrightarrow> u = v"
proof (induction k u arbitrary: v rule: put_le.induct)
  case (2 k u)
  from "2.prems"(3) have c: "char_of u = (char_of v :: char)" "put_le k (u div 256) = put_le k (v div 256)"
    by simp_all
  have "u div 256 < 256 ^ k" "v div 256 < 256 ^ k"
    using "2.prems"(1,2) by (simp_all add: less_mult_imp_div_less mult.commute)
  with "2.IH"[OF _ _ c(2)] have "u div 256 = v div 256" by blast
  moreover have "u mod 256 = v mod 256" using c(1) by (metis of_char_of)
  ultimately show ?case by (metis div_mult_mod_eq)
qed simp

lemma prefix_fixed:
  assumes "\<And>a x. writes a x \<Longrightarrow> length x = n"
    and "\<And>a b x. writes a x \<Longrightarrow> writes b x \<Longrightarrow> content a = content b"
  shows "prefix_code writes content"
proof
  fix a b x y r s
  assume w: "writes a x" "writes b y" and eq: "x @ r = y @ (s :: bytes)"
  with assms(1)[OF w(1)] assms(1)[OF w(2)] have "x = y \<and> r = s" by simp
  with assms(2) w show "content a = content b \<and> r = s" by blast
qed

interpretation u16: prefix_code "\<lambda>v x. x = U16 v" id
proof (rule prefix_fixed)
  fix a b :: u16 and x
  assume "x = U16 a" "x = U16 b"
  then show "id a = id b"
    using put_le_inject[of "unat a" 2 "unat b"] unsigned_less[of a, where 'a = nat]
      unsigned_less[of b, where 'a = nat]
    by (simp add: U16_def word_unat_eq_iff)
qed (simp add: U16_def)

interpretation u32: prefix_code "\<lambda>v x. x = U32 v" id
proof (rule prefix_fixed)
  fix a b :: u32 and x
  assume "x = U32 a" "x = U32 b"
  then show "id a = id b"
    using put_le_inject[of "unat a" 4 "unat b"] unsigned_less[of a, where 'a = nat]
      unsigned_less[of b, where 'a = nat]
    by (simp add: U32_def word_unat_eq_iff)
qed (simp add: U32_def)

lemma bit_0x80: "bit (0x80 :: u8) n \<longleftrightarrow> n = 7"
  using bit_exp_iff[of 7 n, where 'a = u8] by (auto simp: possible_bit_word)

lemma varint_low_bits:
  fixes u v :: u32
  assumes "drop_bit 7 u = drop_bit 7 v" and "(ucast u :: u8) OR 0x80 = ucast v OR 0x80"
  shows "u = v"
proof (rule bit_word_eqI)
  fix n
  assume n: "n < LENGTH(32)"
  show "bit u n = bit v n"
  proof (cases "n < 7")
    case True
    have "bit ((ucast u :: u8) OR 0x80) n = bit ((ucast v :: u8) OR 0x80) n" using assms(2) by simp
    then have "bit (ucast u :: u8) n = bit (ucast v :: u8) n"
      unfolding bit_or_iff bit_0x80 using True by auto
    with True show ?thesis by (simp add: bit_simps)
  next
    case False
    have "bit (drop_bit 7 u) (n - 7) = bit (drop_bit 7 v) (n - 7)" using assms(1) by simp
    with False show ?thesis by (simp add: bit_simps)
  qed
qed

text \<open>The last byte of a varint, and only the last, has its high bit clear.\<close>

lemma varint_more: "bit ((ucast v :: u8) OR 0x80) 7"
  by (simp add: bit_simps bit_0x80)

lemma varint_last:
  fixes v :: u32
  assumes "\<not> v \<ge> 0x80"
  shows "\<not> bit (ucast v :: u8) 7"
proof -
  have "v < 2 ^ 7" using assms by simp
  then have "take_bit 7 v = v"
    by (simp add: take_bit_eq_mod word_unat_eq_iff unat_mod_distrib word_less_nat_alt)
  then have "\<not> bit v 7" by (metis bit_take_bit_iff less_irrefl)
  then show ?thesis by (simp add: bit_simps)
qed

lemma varint_last_inject:
  fixes u v :: u32
  assumes "\<not> u \<ge> 0x80" and "\<not> v \<ge> 0x80" and "(ucast u :: u8) = ucast v"
  shows "u = v"
proof -
  have "unat u < 128" "unat v < 128" using assms(1,2) by (simp_all add: word_le_nat_alt not_le)
  moreover have "unat (ucast u :: u8) = unat (ucast v :: u8)" using assms(3) by simp
  ultimately show ?thesis by (simp add: unsigned_ucast_eq take_bit_eq_mod word_unat_eq_iff)
qed

lemma Varint_unambiguous: "Varint u @ r = Varint v @ s \<Longrightarrow> u = v \<and> r = s"
proof (induction u arbitrary: v rule: Varint.induct)
  case (1 u)
  have neq: "(ucast a :: u8) OR 0x80 \<noteq> ucast b" if "\<not> b \<ge> 0x80" for a b :: u32
    using varint_more[of a] varint_last[OF that] by metis
  show ?case
  proof (cases "u \<ge> 0x80"; cases "v \<ge> 0x80")
    assume g: "u \<ge> 0x80" "v \<ge> 0x80"
    with "1.prems" have "(ucast u :: u8) OR 0x80 = ucast v OR 0x80"
      and t: "Varint (drop_bit 7 u) @ r = Varint (drop_bit 7 v) @ s"
      by (simp_all add: Varint.simps[of u] Varint.simps[of v])
    with "1.IH"[OF g(1) t] varint_low_bits show ?thesis by blast
  next
    assume g: "u \<ge> 0x80" "\<not> v \<ge> 0x80"
    with "1.prems" neq[OF g(2), of u] show ?thesis
      by (simp add: Varint.simps[of u] Varint.simps[of v])
  next
    assume g: "\<not> u \<ge> 0x80" "v \<ge> 0x80"
    with "1.prems" neq[OF g(1), of v] show ?thesis
      by (simp add: Varint.simps[of u] Varint.simps[of v])
  next
    assume g: "\<not> u \<ge> 0x80" "\<not> v \<ge> 0x80"
    with "1.prems" varint_last_inject[OF g] show ?thesis
      by (simp add: Varint.simps[of u] Varint.simps[of v])
  qed
qed

interpretation varint: prefix_code "\<lambda>v x. x = Varint v" id
  by unfold_locales (auto dest: Varint_unambiguous)

text \<open>The length of a string is written modulo \<open>2 ^ 32\<close>; below that a string is unambiguous.\<close>

definition short :: "'a list \<Rightarrow> bool" where
  "short s \<longleftrightarrow> length s < 2 ^ 32"

lemma unat_short: "short s \<Longrightarrow> unat (of_nat (length s) :: u32) = length s"
  by (simp add: unat_of_nat short_def)

lemma short_length_inject:
  "short s \<Longrightarrow> short t \<Longrightarrow> (of_nat (length s) :: u32) = of_nat (length t) \<Longrightarrow> length s = length t"
  by (metis unat_short)

interpretation str: prefix_code "\<lambda>s x. short s \<and> x = Str s" id
proof
  fix a b x y r s
  assume a: "short a \<and> x = Str a" and b: "short b \<and> y = Str b" and eq: "x @ r = y @ s"
  then have "Varint (of_nat (length a)) @ (a @ r) = Varint (of_nat (length b)) @ (b @ s)"
    by (simp add: Str_def)
  then have "(of_nat (length a) :: u32) = of_nat (length b)" and t: "a @ r = b @ s"
    by (auto dest: Varint_unambiguous)
  with a b short_length_inject have "length a = length b" by blast
  with t show "id a = id b \<and> r = s" by simp
qed

section \<open>Assets\<close>

record asset =
  as_Amount :: int \<comment> \<open>an \<open>int64\<close>\<close>
  as_Precision :: u8
  as_Symbol :: string

definition precisions :: "string \<Rightarrow> u8 option" where
  "precisions s =
     (if s = ''STEEM'' then Some 3 else if s = ''SBD'' then Some 3
      else if s = ''VESTS'' then Some 6 else None)"

definition ParseAsset :: "string \<Rightarrow> asset tres" where
  "ParseAsset s =
     (case Fields s of
        [amount, symbol] \<Rightarrow>
          (case precisions symbol of
             None \<Rightarrow> Inl ErrUnknownSymbol
           | Some prec \<Rightarrow>
             (case Cut (CHR ''.'') amount of
                None \<Rightarrow> Inl ErrBadDecimals
              | Some (whole, frac) \<Rightarrow>
                if length frac \<noteq> unat prec \<or> whole = [] \<or> HasPrefix whole ''-'' \<or> HasPrefix whole ''+''
                then Inl ErrBadDecimals
                else if \<not> list_all is_digit (whole @ frac) then Inl ErrBadDigits
                else if 2 ^ 63 \<le> digits_val 0 (whole @ frac) then Inl ErrRange
                else Inr \<lparr>as_Amount = int (digits_val 0 (whole @ frac)), as_Precision = prec,
                          as_Symbol = symbol\<rparr>))
      | _ \<Rightarrow> Inl ErrBadAsset)"

definition wrap64 :: "int \<Rightarrow> int" where
  "wrap64 x = (x + 2 ^ 63) mod 2 ^ 64 - 2 ^ 63"

definition asset_unit :: "u8 \<Rightarrow> int" where
  "asset_unit prec = ((\<lambda>p. wrap64 (p * 10)) ^^ unat prec) 1"

text \<open>The verbs \<open>%d\<close> and \<open>%0*d\<close> of a signed integer: the sign counts towards the width.\<close>

definition FormatInt :: "int \<Rightarrow> string" where
  "FormatInt i = (if i < 0 then CHR ''-'' # FormatUint (nat (- i)) else FormatUint (nat i))"

definition padi :: "nat \<Rightarrow> int \<Rightarrow> string" where
  "padi w i = (if i < 0 then CHR ''-'' # padn (w - 1) (nat (- i)) else padn w (nat i))"

definition asset_String :: "asset \<Rightarrow> string tres" where
  "asset_String a =
     (let p = asset_unit (as_Precision a) in
      if p = 0 then Inl ErrTxPanic
      else Inr (FormatInt (as_Amount a sdiv p) @ ''.'' @ padi (unat (as_Precision a)) (as_Amount a smod p)
                @ '' '' @ as_Symbol a))"

definition FormatMilli :: "u64 \<Rightarrow> string \<Rightarrow> string" where
  "FormatMilli milli symbol =
     FormatUint (unat milli div 1000) @ ''.'' @ padn 3 (unat milli mod 1000) @ '' '' @ symbol"

text \<open>\<open>copy(sym[:], a.Symbol)\<close> into seven zero bytes.\<close>

definition Asset :: "asset \<Rightarrow> bytes" where
  "Asset a =
     I64 (as_Amount a) @ U8 (as_Precision a)
       @ take 7 (as_Symbol a) @ replicate (7 - length (as_Symbol a)) (char_of (0 :: nat))"

text \<open>The assets Steem has: what \<open>ParseAsset\<close> can return.\<close>

definition asset_ok :: "asset \<Rightarrow> bool" where
  "asset_ok a \<longleftrightarrow> 0 \<le> as_Amount a \<and> as_Amount a < 2 ^ 63 \<and> precisions (as_Symbol a) = Some (as_Precision a)"

lemma ParseAsset_ok: "ParseAsset s = Inr a \<Longrightarrow> asset_ok a"
  by (auto simp: ParseAsset_def asset_ok_def split: list.splits option.splits if_splits prod.splits)

lemma precisions_cases:
  assumes "precisions s = Some p"
  obtains "s = ''STEEM''" "p = 3" | "s = ''SBD''" "p = 3" | "s = ''VESTS''" "p = 6"
  using assms by (auto simp: precisions_def split: if_splits)

lemma asset_unit_values: "asset_unit 3 = 1000" "asset_unit 6 = 1000000"
  by code_simp+

text \<open>The canonical text of an amount is parsed back.\<close>

lemma digit_visible: "is_digit c \<Longrightarrow> visible c"
  by (simp add: is_digit_def visible_def)

lemma digits_no_prefix: "\<forall>c \<in> set s. is_digit c \<Longrightarrow> \<not> is_digit d \<Longrightarrow> \<not> HasPrefix s [d]"
  by (cases s) (auto simp: HasPrefix_def)

lemma digits_val_acc: "digits_val acc s = acc * 10 ^ length s + digits_val 0 s"
proof (induction s arbitrary: acc)
  case (Cons c s)
  show ?case
    using Cons[of "10 * acc + (of_char c - 48)"] Cons[of "of_char c - 48"] by (simp add: algebra_simps)
qed simp

lemma FormatUint_ne [simp]: "FormatUint n \<noteq> []"
  by (subst FormatUint.simps) simp

lemma symbol_visible: "precisions s = Some p \<Longrightarrow> s \<noteq> [] \<and> (\<forall>c \<in> set s. visible c) \<and> 0 < unat p"
  by (auto simp: visible_def elim!: precisions_cases)

lemma ParseAsset_canonical:
  assumes p: "precisions symbol = Some p" and f: "f < 10 ^ unat p" and n: "n * 10 ^ unat p + f < 2 ^ 63"
  shows "ParseAsset (FormatUint n @ ''.'' @ padn (unat p) f @ '' '' @ symbol)
    = Inr \<lparr>as_Amount = int (n * 10 ^ unat p + f), as_Precision = p, as_Symbol = symbol\<rparr>"
proof -
  let ?w = "FormatUint n" and ?f = "padn (unat p) f"
  have dig: "\<forall>c \<in> set ?w. is_digit c" "\<forall>c \<in> set ?f. is_digit c"
    using FormatUint_digits padn_digits by blast+
  have len: "length ?f = unat p" using length_padn[OF f] symbol_visible[OF p] by simp
  have dot: "CHR ''.'' \<notin> set ?w" using dig(1) by (auto simp: is_digit_def)
  have "\<forall>c \<in> set (?w @ ''.'' @ ?f). visible c"
    using dig by (auto simp: digit_visible visible_def[of "CHR ''.''"])
  then have "Fields ((?w @ ''.'' @ ?f) @ CHR '' '' # symbol) = [?w @ ''.'' @ ?f, symbol]"
    using symbol_visible[OF p] by (intro Fields_two) auto
  moreover have "Cut (CHR ''.'') (?w @ ''.'' @ ?f) = Some (?w, ?f)"
    using Cut_append[OF dot] by simp
  moreover have "digits_val 0 (?w @ ?f) = n * 10 ^ unat p + f"
    by (simp add: digits_val_append digits_val_FormatUint digits_val_acc[of n] padn_val len)
  moreover have "\<not> HasPrefix ?w ''-''" "\<not> HasPrefix ?w ''+''"
    using digits_no_prefix[OF dig(1)] by (auto simp: is_digit_def)
  ultimately show ?thesis
    using p n len dig by (simp add: ParseAsset_def list_all_iff ball_Un)
qed

lemma sdiv_nat: "int n sdiv int q = int (n div q)" "int n smod int q = int (n mod q)"
proof -
  show d: "int n sdiv int q = int (n div q)"
    by (cases "n = 0"; cases "q = 0") (simp_all add: signed_divide_int_def zdiv_int)
  show "int n smod int q = int (n mod q)"
    by (cases "n = 0") (simp_all add: signed_modulo_int_def zmod_int)
qed

lemma asset_String_eq:
  assumes "asset_unit p = int (10 ^ unat p)"
  shows "asset_String \<lparr>as_Amount = int n, as_Precision = p, as_Symbol = symbol\<rparr> =
    Inr (FormatUint (n div 10 ^ unat p) @ ''.'' @ padn (unat p) (n mod 10 ^ unat p) @ '' '' @ symbol)"
  unfolding asset_String_def Let_def asset.simps assms sdiv_nat FormatInt_def padi_def by simp

lemma asset_String_parses:
  assumes "asset_ok a"
  shows "\<exists>s. asset_String a = Inr s \<and> ParseAsset s = Inr a"
proof -
  obtain n p symbol where a: "a = \<lparr>as_Amount = int n, as_Precision = p, as_Symbol = symbol\<rparr>"
    using assms by (cases a) (auto simp: asset_ok_def elim: nonneg_int_cases)
  have p: "precisions symbol = Some p" and n: "n < 2 ^ 63" using assms a by (simp_all add: asset_ok_def)
  have "asset_unit p = int (10 ^ unat p)"
    using p by (rule precisions_cases) (simp_all add: asset_unit_values)
  from asset_String_eq[OF this] a have "asset_String a = Inr
      (FormatUint (n div 10 ^ unat p) @ ''.'' @ padn (unat p) (n mod 10 ^ unat p) @ '' '' @ symbol)"
    by simp
  moreover have "ParseAsset (FormatUint (n div 10 ^ unat p) @ ''.'' @ padn (unat p) (n mod 10 ^ unat p)
      @ '' '' @ symbol) = Inr a"
    unfolding a using n
    by (subst ParseAsset_canonical[OF p]) (simp_all only: div_mult_mod_eq mod_less_divisor zero_less_power
        zero_less_numeral)
  ultimately show ?thesis by blast
qed

lemma FormatMilli_parses:
  assumes "symbol = ''STEEM'' \<or> symbol = ''SBD''" and "unat m < 2 ^ 63"
  shows "ParseAsset (FormatMilli m symbol)
    = Inr \<lparr>as_Amount = int (unat m), as_Precision = 3, as_Symbol = symbol\<rparr>"
  using ParseAsset_canonical[of symbol 3 "unat m mod 1000" "unat m div 1000"] assms
  by (auto simp: FormatMilli_def precisions_def)

interpretation asset: prefix_code "\<lambda>a x. asset_ok a \<and> x = Asset a" id
proof (rule prefix_fixed)
  fix a :: asset and x
  assume "asset_ok a \<and> x = Asset a"
  then show "length x = 16"
    by (auto simp: Asset_def asset_ok_def I64_def U8_def elim: precisions_cases)
next
  fix a b :: asset and x
  assume a: "asset_ok a \<and> x = Asset a" and b: "asset_ok b \<and> x = Asset b"
  have "I64 (as_Amount a) = I64 (as_Amount b)"
    and p: "as_Precision a = as_Precision b"
    and y: "take 7 (as_Symbol a) @ replicate (7 - length (as_Symbol a)) (char_of (0 :: nat))
      = take 7 (as_Symbol b) @ replicate (7 - length (as_Symbol b)) (char_of (0 :: nat))"
    using a b by (auto simp: Asset_def I64_def U8_def)
  then have "as_Amount a = as_Amount b"
    using put_le_inject[of "nat (as_Amount a mod 2 ^ 64)" 8 "nat (as_Amount b mod 2 ^ 64)"] a b
    by (simp add: I64_def asset_ok_def nat_less_iff eq_nat_nat_iff)
  moreover have "as_Symbol a = as_Symbol b"
    using a b y by (auto simp: asset_ok_def elim!: precisions_cases)
  ultimately show "id a = id b" using p by (simp add: asset.equality)
qed

text \<open>
  Amounts survive their text form. Every asset of Steem (a non-negative \<open>int64\<close> amount, the
  precision of its symbol) is printed to a string from which \<open>ParseAsset\<close> reads exactly that asset
  back, and for the three-decimal symbols \<open>FormatMilli\<close>, which prints the payouts, gives that same
  string.
\<close>

theorem amounts_round_trip:
  assumes "asset_ok a"
  shows "\<exists>s. asset_String a = Inr s \<and> ParseAsset s = Inr a
    \<and> (as_Precision a = 3 \<longrightarrow> FormatMilli (word_of_int (as_Amount a)) (as_Symbol a) = s)"
proof -
  obtain n p symbol where a: "a = \<lparr>as_Amount = int n, as_Precision = p, as_Symbol = symbol\<rparr>"
    using assms by (cases a) (auto simp: asset_ok_def elim: nonneg_int_cases)
  have p: "precisions symbol = Some p" and n: "n < 2 ^ 63" using assms a by (simp_all add: asset_ok_def)
  have u: "asset_unit p = int (10 ^ unat p)"
    using p by (rule precisions_cases) (simp_all add: asset_unit_values)
  have "unat (word_of_nat n :: u64) = n" using n by (simp add: unat_of_nat)
  then have "p = 3 \<Longrightarrow> asset_String a = Inr (FormatMilli (word_of_int (as_Amount a)) symbol)"
    using asset_String_eq[OF u, of n symbol] a by (simp add: FormatMilli_def)
  with asset_String_parses[OF assms] a show ?thesis by auto
qed

theorem amounts_round_trip_witness:
  "\<exists>s. asset_String \<lparr>as_Amount = 12500, as_Precision = 3, as_Symbol = ''SBD''\<rparr> = Inr s
     \<and> ParseAsset s = Inr \<lparr>as_Amount = 12500, as_Precision = 3, as_Symbol = ''SBD''\<rparr>"
  using amounts_round_trip[of "\<lparr>as_Amount = 12500, as_Precision = 3, as_Symbol = ''SBD''\<rparr>"]
  by (auto simp: asset_ok_def precisions_def)

end
