(* ===== verification/Steem_Tx.thy ===== *)
theory Steem_Tx
  imports Steem_Encoding
begin

text \<open>
  Authorities, operations and transactions of \<open>oracle/go/steemtx\<close> (\<open>encoding.go\<close>, \<open>tx.go\<close>,
  \<open>keys.go\<close>, \<open>sign.go\<close>), and the main fact about their encoding: what validators sign
  determines the reference block, the expiry and every operation. The base58, hash and
  signature-recovery functions are fields of a record; JSON and the curve arithmetic behind
  \<open>Sign\<close> are not modelled.
\<close>

section \<open>Keys and signatures\<close>

record crypto_env =
  c_base58Decode :: "string \<Rightarrow> bytes"
  c_base58Encode :: "bytes \<Rightarrow> string"
  c_ripemd160 :: "bytes \<Rightarrow> bytes"
  c_sha256 :: "bytes \<Rightarrow> bytes"
  c_RecoverCompact :: "bytes \<Rightarrow> bytes \<Rightarrow> bytes option"
    \<comment> \<open>signature and digest to the compressed public key\<close>

definition DecodePublicKey :: "crypto_env \<Rightarrow> string \<Rightarrow> bytes tres" where
  "DecodePublicKey c s =
     (if \<not> HasPrefix s ''STM'' then Inl ErrKeyPrefix
      else let raw = c_base58Decode c (drop 3 s) in
        if length raw \<noteq> 37 then Inl ErrKeyLength
        else if take 4 (c_ripemd160 c (take 33 raw)) \<noteq> drop 33 raw then Inl ErrKeyChecksum
        else Inr (take 33 raw))"

definition EncodePublicKey :: "crypto_env \<Rightarrow> bytes \<Rightarrow> string" where
  "EncodePublicKey c key = ''STM'' @ c_base58Encode c (key @ take 4 (c_ripemd160 c key))"

definition high_bit :: "char \<Rightarrow> bool" where
  "high_bit c \<longleftrightarrow> 128 \<le> (of_char c :: nat)"

definition isCanonical :: "bytes \<Rightarrow> bool" where
  "isCanonical rs \<longleftrightarrow>
     \<not> high_bit (rs ! 0) \<and> \<not> (rs ! 0 = char_of (0 :: nat) \<and> \<not> high_bit (rs ! 1)) \<and>
     \<not> high_bit (rs ! 32) \<and> \<not> (rs ! 32 = char_of (0 :: nat) \<and> \<not> high_bit (rs ! 33))"

definition hex_val :: "char \<Rightarrow> nat" where
  "hex_val c =
     (if is_digit c then of_char c - 48
      else if 97 \<le> (of_char c :: nat) then of_char c - 87 else of_char c - 55)"

text \<open>\<open>hex.DecodeString\<close>: an even number of hexadecimal digits of either case.\<close>

fun DecodeString :: "string \<Rightarrow> bytes option" where
  "DecodeString [] = Some []"
| "DecodeString [a] = None"
| "DecodeString (a # b # s) =
     (if is_hex a \<and> is_hex b
      then map_option ((#) (char_of (16 * hex_val a + hex_val b))) (DecodeString s) else None)"

definition RecoverSigner :: "crypto_env \<Rightarrow> bytes \<Rightarrow> string \<Rightarrow> string option" where
  "RecoverSigner c digest sigHex =
     (case DecodeString sigHex of
        None \<Rightarrow> None
      | Some sig \<Rightarrow>
        if length sig \<noteq> 65 then None
        else if \<not> isCanonical (drop 1 sig) then None
        else map_option (EncodePublicKey c) (c_RecoverCompact c sig digest))"

section \<open>Authorities\<close>

record account_auth =
  aa_Name :: string
  aa_Weight :: u16

record key_auth =
  ka_Key :: string
  ka_Weight :: u16

record authority =
  au_WeightThreshold :: u32
  au_AccountAuths :: "account_auth list"
  au_KeyAuths :: "key_auth list"

text \<open>
  \<open>Sorted\<close> orders the members by the bytes of their names. (Go's \<open>sort.Slice\<close> fixes no order
  between equal names; the chain has none, and the results below that use it assume none.)
\<close>

definition Sorted :: "authority \<Rightarrow> authority" where
  "Sorted a = a\<lparr>au_AccountAuths := sort_key aa_Name (au_AccountAuths a)\<rparr>"

definition Total :: "authority \<Rightarrow> u32" where
  "Total a = sum_list (map (ucast \<circ> aa_Weight) (au_AccountAuths a))
           + sum_list (map (ucast \<circ> ka_Weight) (au_KeyAuths a))"

definition WeightOf :: "authority \<Rightarrow> string \<Rightarrow> u16" where
  "WeightOf a name =
     (case find (\<lambda>x. aa_Name x = name) (au_AccountAuths a) of None \<Rightarrow> 0 | Some x \<Rightarrow> aa_Weight x)"

text \<open>A loop that writes one element after the other and stops at the first error.\<close>

fun write_each :: "('a \<Rightarrow> bytes tres) \<Rightarrow> 'a list \<Rightarrow> bytes tres" where
  "write_each f [] = Inr []"
| "write_each f (x # xs) = rbind (f x) (\<lambda>b. rbind (write_each f xs) (\<lambda>bs. Inr (b @ bs)))"

definition write_account_auth :: "account_auth \<Rightarrow> bytes" where
  "write_account_auth x = Str (aa_Name x) @ U16 (aa_Weight x)"

definition write_key_auth :: "crypto_env \<Rightarrow> key_auth \<Rightarrow> bytes tres" where
  "write_key_auth c x = rbind (DecodePublicKey c (ka_Key x)) (\<lambda>pk. Inr (pk @ U16 (ka_Weight x)))"

definition Authority :: "crypto_env \<Rightarrow> authority \<Rightarrow> bytes tres" where
  "Authority c a =
     rbind (write_each (write_key_auth c) (au_KeyAuths a)) (\<lambda>keys.
     Inr (U32 (au_WeightThreshold a)
       @ Varint (of_nat (length (au_AccountAuths a)))
       @ concat (map write_account_auth (au_AccountAuths a))
       @ Varint (of_nat (length (au_KeyAuths a))) @ keys))"

definition Equal :: "crypto_env \<Rightarrow> authority \<Rightarrow> authority \<Rightarrow> bool" where
  "Equal c a b \<longleftrightarrow>
     (case (Authority c a, Authority c b) of (Inr x, Inr y) \<Rightarrow> x = y | _ \<Rightarrow> False)"

definition optAuthority :: "crypto_env \<Rightarrow> authority option \<Rightarrow> bytes tres" where
  "optAuthority c a =
     (case a of None \<Rightarrow> Inr (U8 0) | Some a \<Rightarrow> rbind (Authority c a) (\<lambda>x. Inr (U8 1 @ x)))"

section \<open>Operations\<close>

record transfer =
  tr_From :: string
  tr_To :: string
  tr_Amount :: string
  tr_Memo :: string

record transfer_to_vesting =
  tv_From :: string
  tv_To :: string
  tv_Amount :: string

record withdraw_vesting =
  wv_Account :: string
  wv_VestingShares :: string

record account_update =
  u_Account :: string
  u_Owner :: "authority option"
  u_Active :: "authority option"
  u_Posting :: "authority option"
  u_MemoKey :: string
  u_JSONMetadata :: string

record custom_json =
  cj_RequiredAuths :: "string list"
  cj_RequiredPostingAuths :: "string list"
  cj_ID :: string
  cj_JSON :: string

record change_recovery_account =
  cr_AccountToRecover :: string
  cr_NewRecoveryAccount :: string

record account_update2 =
  u2_Account :: string
  u2_Owner :: "authority option"
  u2_Active :: "authority option"
  u2_Posting :: "authority option"
  u2_MemoKey :: string
  u2_JSONMetadata :: string
  u2_PostingJSONMetadata :: string

text \<open>The dynamic type of \<open>Operation.Value\<close>; \<open>OpOther\<close> is any type without a case.\<close>

datatype op_value =
    OpTransfer transfer
  | OpTransferToVesting transfer_to_vesting
  | OpWithdrawVesting withdraw_vesting
  | OpAccountUpdate account_update
  | OpCustomJSON custom_json
  | OpChangeRecoveryAccount change_recovery_account
  | OpAccountUpdate2 account_update2
  | OpOther

record operation =
  op_Type :: string
  op_Value :: op_value

definition write_amount :: "string \<Rightarrow> bytes tres" where
  "write_amount s = rbind (ParseAsset s) (\<lambda>a. Inr (Asset a))"

definition write_names :: "string list \<Rightarrow> bytes" where
  "write_names names = Varint (of_nat (length names)) @ concat (map Str names)"

definition write_memo_key2 :: "crypto_env \<Rightarrow> string \<Rightarrow> bytes tres" where
  "write_memo_key2 c key =
     (if key = [] then Inr (U8 0) else rbind (DecodePublicKey c key) (\<lambda>pk. Inr (U8 1 @ pk)))"

fun Operation :: "crypto_env \<Rightarrow> op_value \<Rightarrow> bytes tres" where
  "Operation c (OpTransfer v) =
     rbind (write_amount (tr_Amount v)) (\<lambda>a.
     Inr (Varint 2 @ Str (tr_From v) @ Str (tr_To v) @ a @ Str (tr_Memo v)))"
| "Operation c (OpTransferToVesting v) =
     rbind (write_amount (tv_Amount v)) (\<lambda>a. Inr (Varint 3 @ Str (tv_From v) @ Str (tv_To v) @ a))"
| "Operation c (OpWithdrawVesting v) =
     rbind (write_amount (wv_VestingShares v)) (\<lambda>a. Inr (Varint 4 @ Str (wv_Account v) @ a))"
| "Operation c (OpAccountUpdate v) =
     rbind (write_each (optAuthority c) [u_Owner v, u_Active v, u_Posting v]) (\<lambda>auths.
     rbind (DecodePublicKey c (u_MemoKey v)) (\<lambda>pk.
     Inr (Varint 10 @ Str (u_Account v) @ auths @ pk @ Str (u_JSONMetadata v))))"
| "Operation c (OpCustomJSON v) =
     Inr (Varint 18 @ write_names (cj_RequiredAuths v) @ write_names (cj_RequiredPostingAuths v)
       @ Str (cj_ID v) @ Str (cj_JSON v))"
| "Operation c (OpChangeRecoveryAccount v) =
     Inr (Varint 26 @ Str (cr_AccountToRecover v) @ Str (cr_NewRecoveryAccount v) @ Varint 0)"
| "Operation c (OpAccountUpdate2 v) =
     rbind (write_each (optAuthority c) [u2_Owner v, u2_Active v, u2_Posting v]) (\<lambda>auths.
     rbind (write_memo_key2 c (u2_MemoKey v)) (\<lambda>mk.
     Inr (Varint 43 @ Str (u2_Account v) @ auths @ mk @ Str (u2_JSONMetadata v)
       @ Str (u2_PostingJSONMetadata v) @ Varint 0)))"
| "Operation c OpOther = Inl ErrUnsupportedOperation"

section \<open>Transactions\<close>

record transaction =
  tx_RefBlockNum :: u16
  tx_RefBlockPrefix :: u32
  tx_Expiration :: string
  tx_Operations :: "operation list"
  tx_Signatures :: "string list"

definition ChainID :: bytes where
  "ChainID = replicate 32 (char_of (0 :: nat))"

definition Serialize :: "crypto_env \<Rightarrow> transaction \<Rightarrow> bytes tres" where
  "Serialize c tx =
     rbind (Time (tx_Expiration tx)) (\<lambda>t.
     rbind (write_each (Operation c \<circ> op_Value) (tx_Operations tx)) (\<lambda>ops.
     Inr (U16 (tx_RefBlockNum tx) @ U32 (tx_RefBlockPrefix tx) @ t
       @ Varint (of_nat (length (tx_Operations tx))) @ ops @ Varint 0)))"

definition Digest :: "crypto_env \<Rightarrow> transaction \<Rightarrow> bytes tres" where
  "Digest c tx = rbind (Serialize c tx) (\<lambda>b. Inr (c_sha256 c (ChainID @ b)))"

definition ID :: "crypto_env \<Rightarrow> transaction \<Rightarrow> string tres" where
  "ID c tx = rbind (Serialize c tx) (\<lambda>b. Inr (EncodeToString (take 20 (c_sha256 c b))))"

section \<open>The encoding is unambiguous\<close>

text \<open>
  What the bytes of an operation say: amounts as assets, keys as key bytes. (The text of an amount
  or of a key is not part of it: \<open>1.000 STEEM\<close> may be written with more spaces.)
\<close>

type_synonym auth_content = "u32 \<times> account_auth list \<times> (bytes tres \<times> u16) list"

definition authority_content :: "crypto_env \<Rightarrow> authority \<Rightarrow> auth_content" where
  "authority_content c a =
     (au_WeightThreshold a, au_AccountAuths a,
      map (\<lambda>k. (DecodePublicKey c (ka_Key k), ka_Weight k)) (au_KeyAuths a))"

datatype signed_op =
    CTransfer string string "asset tres" string
  | CTransferToVesting string string "asset tres"
  | CWithdrawVesting string "asset tres"
  | CAccountUpdate string "auth_content option list" "bytes tres" string
  | CCustomJSON "string list" "string list" string string
  | CChangeRecoveryAccount string string
  | CAccountUpdate2 string "auth_content option list" "bytes tres option" string string
  | COther

fun op_content :: "crypto_env \<Rightarrow> op_value \<Rightarrow> signed_op" where
  "op_content c (OpTransfer v) = CTransfer (tr_From v) (tr_To v) (ParseAsset (tr_Amount v)) (tr_Memo v)"
| "op_content c (OpTransferToVesting v) =
     CTransferToVesting (tv_From v) (tv_To v) (ParseAsset (tv_Amount v))"
| "op_content c (OpWithdrawVesting v) = CWithdrawVesting (wv_Account v) (ParseAsset (wv_VestingShares v))"
| "op_content c (OpAccountUpdate v) =
     CAccountUpdate (u_Account v) (map (map_option (authority_content c)) [u_Owner v, u_Active v, u_Posting v])
       (DecodePublicKey c (u_MemoKey v)) (u_JSONMetadata v)"
| "op_content c (OpCustomJSON v) =
     CCustomJSON (cj_RequiredAuths v) (cj_RequiredPostingAuths v) (cj_ID v) (cj_JSON v)"
| "op_content c (OpChangeRecoveryAccount v) =
     CChangeRecoveryAccount (cr_AccountToRecover v) (cr_NewRecoveryAccount v)"
| "op_content c (OpAccountUpdate2 v) =
     CAccountUpdate2 (u2_Account v) (map (map_option (authority_content c)) [u2_Owner v, u2_Active v, u2_Posting v])
       (if u2_MemoKey v = [] then None else Some (DecodePublicKey c (u2_MemoKey v)))
       (u2_JSONMetadata v) (u2_PostingJSONMetadata v)"
| "op_content c OpOther = COther"

text \<open>A buffer of less than \<open>2 ^ 32\<close> bytes holds only lengths that fit the varint.\<close>

named_theorems peel \<open>cancelling a write at the front of two equal buffers\<close>

definition fits :: "bytes \<Rightarrow> bool" where
  "fits x \<longleftrightarrow> length x < 4294967296"

lemma fits_append: "fits (x @ y) \<Longrightarrow> fits x \<and> fits y"
  by (simp add: fits_def)

lemma fits_Str: "fits (Str s) \<Longrightarrow> short s"
  by (simp add: fits_def Str_def short_def)

lemma peel_U16 [peel]: "U16 a @ r = U16 b @ s \<longleftrightarrow> a = b \<and> r = s"
  by (auto dest: u16.unambiguous[OF refl refl])

lemma peel_U32 [peel]: "U32 a @ r = U32 b @ s \<longleftrightarrow> a = b \<and> r = s"
  by (auto dest: u32.unambiguous[OF refl refl])

lemma peel_Varint [peel]: "Varint a @ r = Varint b @ s \<longleftrightarrow> a = b \<and> r = s"
  by (auto dest: varint.unambiguous[OF refl refl])

lemma peel_Str [peel]: "fits (Str a) \<Longrightarrow> fits (Str b) \<Longrightarrow> Str a @ r = Str b @ s \<longleftrightarrow> a = b \<and> r = s"
  using str.unambiguous[of a "Str a" b "Str b" r s] by (auto simp: fits_Str)

lemma DecodePublicKey_length: "DecodePublicKey c s = Inr pk \<Longrightarrow> length pk = 33"
  by (auto simp: DecodePublicKey_def Let_def split: if_splits)

lemma write_each_list:
  "write_each f as = Inr x \<longleftrightarrow> (\<exists>xs. list_all2 (\<lambda>a y. f a = Inr y) as xs \<and> x = concat xs)"
proof (induction as arbitrary: x)
  case (Cons a as)
  show ?case by (simp add: rbind_eq_Inr Cons list_all2_Cons1) (metis concat.simps(2))
qed auto

lemma list_all2_both:
  "list_all2 P as xs \<Longrightarrow> \<forall>y \<in> set xs. Q y \<Longrightarrow> list_all2 (\<lambda>a y. P a y \<and> Q y) as xs"
  by (induction rule: list_all2_induct) auto

lemma fits_concat: "fits (concat xs) \<Longrightarrow> y \<in> set xs \<Longrightarrow> fits y"
  by (induction xs) (auto dest: fits_append)

lemma concat_count:
  "list_all2 (\<lambda>a y. y \<noteq> []) as xs \<Longrightarrow> length as \<le> length (concat xs)"
  by (induction rule: list_all2_induct) (auto simp: Suc_le_eq neq_Nil_conv)

text \<open>
  Counted lists of unambiguous writes are unambiguous: the count is a varint of the length, and
  each element takes at least a byte, so the count fits when the buffer does.
\<close>

lemma counted_unambiguous:
  assumes code: "prefix_code (\<lambda>a y. f a = Inr y \<and> fits y) content"
    and ne: "\<And>a y. f a = Inr y \<Longrightarrow> y \<noteq> []"
    and x: "write_each f as = Inr x" "fits x" and y: "write_each f bs = Inr y" "fits y"
    and eq: "Varint (of_nat (length as)) @ x @ r = Varint (of_nat (length bs)) @ y @ s"
  shows "map content as = map content bs \<and> r = s"
proof -
  obtain xs where xs: "list_all2 (\<lambda>a y. f a = Inr y) as xs" "x = concat xs"
    using x(1) by (auto simp: write_each_list)
  obtain ys where ys: "list_all2 (\<lambda>a y. f a = Inr y) bs ys" "y = concat ys"
    using y(1) by (auto simp: write_each_list)
  have "length as \<le> length x"
    unfolding xs(2) by (rule concat_count, rule list_all2_mono[OF xs(1)], erule ne)
  moreover have "length bs \<le> length y"
    unfolding ys(2) by (rule concat_count, rule list_all2_mono[OF ys(1)], erule ne)
  ultimately have "short as" "short bs" using x(2) y(2) by (simp_all add: fits_def short_def)
  moreover have "(of_nat (length as) :: u32) = of_nat (length bs) \<and> x @ r = y @ s"
    using eq unfolding peel_Varint .
  ultimately have len: "length as = length bs" and rest: "concat xs @ r = concat ys @ s"
    using short_length_inject[of as bs] xs(2) ys(2) by blast+
  have "list_all2 (\<lambda>a y. f a = Inr y \<and> fits y) as xs" "list_all2 (\<lambda>a y. f a = Inr y \<and> fits y) bs ys"
    using list_all2_both[OF xs(1), of fits] list_all2_both[OF ys(1), of fits]
      fits_concat[OF x(2)[unfolded xs(2)]] fits_concat[OF y(2)[unfolded ys(2)]] by simp_all
  from prefix_code.many[OF code this len rest] show ?thesis .
qed

lemma Varint_ne [simp]: "Varint v \<noteq> []"
  by (subst Varint.simps) simp

lemma Str_ne [simp]: "Str s \<noteq> []"
  by (simp add: Str_def)

lemma write_each_total: "write_each (\<lambda>a. Inr (f a)) as = Inr (concat (map f as))"
  by (induction as) simp_all

interpretation account_auth: prefix_code "\<lambda>a x. Inr (write_account_auth a) = (Inr x :: bytes tres) \<and> fits x" id
proof
  fix a b :: account_auth and x y r s
  assume "Inr (write_account_auth a) = (Inr x :: bytes tres) \<and> fits x"
    "Inr (write_account_auth b) = (Inr y :: bytes tres) \<and> fits y" "x @ r = y @ s"
  then show "id a = id b \<and> r = s"
    by (auto simp: write_account_auth_def peel dest!: fits_append intro: account_auth.equality)
qed

interpretation key_auth: prefix_code "\<lambda>k x. write_key_auth c k = Inr x \<and> fits x"
    "\<lambda>k. (DecodePublicKey c (ka_Key k), ka_Weight k)" for c
proof
  fix a b :: key_auth and x y r s
  assume a: "write_key_auth c a = Inr x \<and> fits x" and b: "write_key_auth c b = Inr y \<and> fits y"
    and eq: "x @ r = y @ s"
  then obtain k l where k: "DecodePublicKey c (ka_Key a) = Inr k" "x = k @ U16 (ka_Weight a)"
    and l: "DecodePublicKey c (ka_Key b) = Inr l" "y = l @ U16 (ka_Weight b)"
    by (auto simp: write_key_auth_def rbind_eq_Inr)
  have "length k = length l" using k(1) l(1) by (simp add: DecodePublicKey_length)
  with eq k l show "(DecodePublicKey c (ka_Key a), ka_Weight a) = (DecodePublicKey c (ka_Key b), ka_Weight b) \<and> r = s"
    by (simp add: peel)
qed

interpretation authority: prefix_code "\<lambda>a x. Authority c a = Inr x \<and> fits x" "authority_content c" for c
proof
  fix a b :: authority and x y r s
  assume a: "Authority c a = Inr x \<and> fits x" and b: "Authority c b = Inr y \<and> fits y"
    and eq: "x @ r = y @ s"
  let ?acc = "\<lambda>a. concat (map write_account_auth (au_AccountAuths a))"
  let ?rest = "\<lambda>a keys r. Varint (of_nat (length (au_KeyAuths a))) @ keys @ r"
  obtain k where k: "write_each (write_key_auth c) (au_KeyAuths a) = Inr k"
      "x = U32 (au_WeightThreshold a) @ Varint (of_nat (length (au_AccountAuths a))) @ ?acc a
        @ Varint (of_nat (length (au_KeyAuths a))) @ k"
    using a by (auto simp: Authority_def rbind_eq_Inr)
  obtain l where l: "write_each (write_key_auth c) (au_KeyAuths b) = Inr l"
      "y = U32 (au_WeightThreshold b) @ Varint (of_nat (length (au_AccountAuths b))) @ ?acc b
        @ Varint (of_nat (length (au_KeyAuths b))) @ l"
    using b by (auto simp: Authority_def rbind_eq_Inr)
  have f: "fits (?acc a)" "fits (?acc b)" "fits k" "fits l"
    using a b k(2) l(2) by (auto dest!: fits_append)
  have t: "au_WeightThreshold a = au_WeightThreshold b"
    and e: "Varint (of_nat (length (au_AccountAuths a))) @ ?acc a @ ?rest a k r
      = Varint (of_nat (length (au_AccountAuths b))) @ ?acc b @ ?rest b l s"
    using eq k(2) l(2) by (simp_all add: peel_U32)
  have "map id (au_AccountAuths a) = map id (au_AccountAuths b) \<and> ?rest a k r = ?rest b l s"
    by (rule counted_unambiguous[OF account_auth.prefix_code_axioms _ write_each_total f(1)
        write_each_total f(2) e]) (auto simp: write_account_auth_def)
  then have acc: "au_AccountAuths a = au_AccountAuths b" and e2: "?rest a k r = ?rest b l s"
    by simp_all
  have "map (\<lambda>k. (DecodePublicKey c (ka_Key k), ka_Weight k)) (au_KeyAuths a)
      = map (\<lambda>k. (DecodePublicKey c (ka_Key k), ka_Weight k)) (au_KeyAuths b) \<and> r = s"
    by (rule counted_unambiguous[OF key_auth.prefix_code_axioms _ k(1) f(3) l(1) f(4) e2])
      (auto simp: write_key_auth_def rbind_eq_Inr dest: DecodePublicKey_length)
  with t acc show "authority_content c a = authority_content c b \<and> r = s"
    by (simp add: authority_content_def)
qed

lemma peel_U8 [peel]: "U8 a @ r = U8 b @ s \<longleftrightarrow> a = b \<and> r = s"
  by (simp add: U8_def)

interpretation opt_authority: prefix_code "\<lambda>a x. optAuthority c a = Inr x \<and> fits x"
    "map_option (authority_content c)" for c
proof
  fix a b :: "authority option" and x y r s
  assume a: "optAuthority c a = Inr x \<and> fits x" and b: "optAuthority c b = Inr y \<and> fits y"
    and eq: "x @ r = y @ s"
  show "map_option (authority_content c) a = map_option (authority_content c) b \<and> r = s"
  proof (cases a; cases b)
    fix a' b'
    assume s: "a = Some a'" "b = Some b'"
    with a b obtain u v where u: "Authority c a' = Inr u" "x = U8 1 @ u" "fits u"
      and v: "Authority c b' = Inr v" "y = U8 1 @ v" "fits v"
      by (auto simp: optAuthority_def rbind_eq_Inr dest: fits_append)
    with eq have "u @ r = v @ s" by (simp add: peel_U8)
    with authority.unambiguous[of c a' u b' v r s] u v s show ?thesis by simp
  qed (use a b eq in \<open>auto simp: optAuthority_def rbind_eq_Inr peel_U8\<close>)
qed

interpretation opt_authorities: prefix_code
    "\<lambda>as x. length as = 3 \<and> write_each (optAuthority c) as = Inr x \<and> fits x"
    "map (map_option (authority_content c))" for c
proof
  fix a b :: "authority option list" and x y r s
  assume a: "length a = 3 \<and> write_each (optAuthority c) a = Inr x \<and> fits x"
    and b: "length b = 3 \<and> write_each (optAuthority c) b = Inr y \<and> fits y" and eq: "x @ r = y @ s"
  obtain xs where xs: "list_all2 (\<lambda>a y. optAuthority c a = Inr y) a xs" "x = concat xs"
    using a by (auto simp: write_each_list)
  obtain ys where ys: "list_all2 (\<lambda>a y. optAuthority c a = Inr y) b ys" "y = concat ys"
    using b by (auto simp: write_each_list)
  have f: "\<forall>z \<in> set xs. fits z" "\<forall>z \<in> set ys. fits z"
    using a b xs(2) ys(2) by (auto intro: fits_concat)
  show "map (map_option (authority_content c)) a = map (map_option (authority_content c)) b \<and> r = s"
    by (rule opt_authority.many[OF list_all2_both[OF xs(1) f(1)] list_all2_both[OF ys(1) f(2)]])
      (use a b eq xs ys in simp_all)
qed

interpretation str_each: prefix_code "\<lambda>a x. Inr (Str a) = (Inr x :: bytes tres) \<and> fits x" id
  by unfold_locales (auto simp: peel)

interpretation names: prefix_code "\<lambda>as x. x = write_names as \<and> fits x" id
proof
  fix a b :: "string list" and x y r s
  assume a: "x = write_names a \<and> fits x" and b: "y = write_names b \<and> fits y" and eq: "x @ r = y @ s"
  have f: "fits (concat (map Str a))" "fits (concat (map Str b))"
    using a b by (auto simp: write_names_def dest!: fits_append)
  have e: "Varint (of_nat (length a)) @ concat (map Str a) @ r = Varint (of_nat (length b)) @ concat (map Str b) @ s"
    using a b eq by (simp add: write_names_def)
  have "map id a = map id b \<and> r = s"
    by (rule counted_unambiguous[OF str_each.prefix_code_axioms _ write_each_total f(1) write_each_total f(2) e])
      auto
  then show "id a = id b \<and> r = s" by simp
qed

interpretation amount: prefix_code "\<lambda>t x. write_amount t = Inr x" ParseAsset
proof
  fix a b x y r s
  assume "write_amount a = Inr x" "write_amount b = Inr y" and eq: "x @ r = y @ s"
  then obtain u v where u: "ParseAsset a = Inr u" "x = Asset u" and v: "ParseAsset b = Inr v" "y = Asset v"
    by (auto simp: write_amount_def rbind_eq_Inr)
  with ParseAsset_ok have "asset_ok u" "asset_ok v" by blast+
  with asset.unambiguous[of u x v y r s] u v eq show "ParseAsset a = ParseAsset b \<and> r = s" by simp
qed

interpretation public_key: prefix_code "\<lambda>k x. DecodePublicKey c k = Inr x" "DecodePublicKey c" for c
  by (rule prefix_fixed) (auto dest: DecodePublicKey_length)

interpretation memo_key2: prefix_code "\<lambda>k x. write_memo_key2 c k = Inr x"
    "\<lambda>k. if k = [] then None else Some (DecodePublicKey c k)" for c
proof
  fix a b :: string and x y r s
  assume a: "write_memo_key2 c a = Inr x" and b: "write_memo_key2 c b = Inr y" and eq: "x @ r = y @ s"
  show "(if a = [] then None else Some (DecodePublicKey c a))
      = (if b = [] then None else Some (DecodePublicKey c b)) \<and> r = s"
  proof (cases "a = []"; cases "b = []")
    assume n: "a \<noteq> []" "b \<noteq> []"
    with a b obtain u v where "DecodePublicKey c a = Inr u" "x = U8 1 @ u"
        "DecodePublicKey c b = Inr v" "y = U8 1 @ v"
      by (auto simp: write_memo_key2_def rbind_eq_Inr)
    with public_key.unambiguous[of c a u b v r s] eq n show ?thesis by (simp add: peel_U8)
  qed (use a b eq in \<open>auto simp: write_memo_key2_def rbind_eq_Inr peel_U8\<close>)
qed

text \<open>One lemma per kind of operation, then the operation as a whole: its number comes first.\<close>

fun op_number :: "op_value \<Rightarrow> u32" where
  "op_number (OpTransfer v) = 2"
| "op_number (OpTransferToVesting v) = 3"
| "op_number (OpWithdrawVesting v) = 4"
| "op_number (OpAccountUpdate v) = 10"
| "op_number (OpCustomJSON v) = 18"
| "op_number (OpChangeRecoveryAccount v) = 26"
| "op_number (OpAccountUpdate2 v) = 43"
| "op_number OpOther = 0"

lemma Operation_number: "Operation c v = Inr x \<Longrightarrow> \<exists>body. x = Varint (op_number v) @ body"
  by (cases v) (auto simp: rbind_eq_Inr)

lemma unambiguous_transfer:
  assumes "Operation c (OpTransfer v) = Inr x" "fits x" "Operation c (OpTransfer w) = Inr y" "fits y"
    and "x @ r = y @ s"
  shows "op_content c (OpTransfer v) = op_content c (OpTransfer w) \<and> r = s"
proof -
  obtain a b where a: "write_amount (tr_Amount v) = Inr a" "x = Varint 2 @ Str (tr_From v) @ Str (tr_To v) @ a @ Str (tr_Memo v)"
    and b: "write_amount (tr_Amount w) = Inr b" "y = Varint 2 @ Str (tr_From w) @ Str (tr_To w) @ b @ Str (tr_Memo w)"
    using assms(1,3) by (auto simp: rbind_eq_Inr)
  have f: "fits (Str (tr_From v))" "fits (Str (tr_To v))" "fits (Str (tr_Memo v))"
    "fits (Str (tr_From w))" "fits (Str (tr_To w))" "fits (Str (tr_Memo w))"
    using assms(2,4) a b by (auto dest!: fits_append)
  have "tr_From v = tr_From w" "tr_To v = tr_To w" and e: "a @ Str (tr_Memo v) @ r = b @ Str (tr_Memo w) @ s"
    using assms(5) a b f by (simp_all add: peel)
  with amount.unambiguous[OF a(1) b(1) e] f show ?thesis by (simp add: peel)
qed

lemma unambiguous_vesting:
  assumes "Operation c (OpTransferToVesting v) = Inr x" "fits x" "Operation c (OpTransferToVesting w) = Inr y" "fits y"
    and "x @ r = y @ s"
  shows "op_content c (OpTransferToVesting v) = op_content c (OpTransferToVesting w) \<and> r = s"
proof -
  obtain a b where a: "write_amount (tv_Amount v) = Inr a" "x = Varint 3 @ Str (tv_From v) @ Str (tv_To v) @ a"
    and b: "write_amount (tv_Amount w) = Inr b" "y = Varint 3 @ Str (tv_From w) @ Str (tv_To w) @ b"
    using assms(1,3) by (auto simp: rbind_eq_Inr)
  have f: "fits (Str (tv_From v))" "fits (Str (tv_To v))" "fits (Str (tv_From w))" "fits (Str (tv_To w))"
    using assms(2,4) a b by (auto dest!: fits_append)
  have "tv_From v = tv_From w" "tv_To v = tv_To w" and e: "a @ r = b @ s"
    using assms(5) a b f by (simp_all add: peel)
  with amount.unambiguous[OF a(1) b(1) e] show ?thesis by simp
qed

lemma unambiguous_withdraw:
  assumes "Operation c (OpWithdrawVesting v) = Inr x" "fits x" "Operation c (OpWithdrawVesting w) = Inr y" "fits y"
    and "x @ r = y @ s"
  shows "op_content c (OpWithdrawVesting v) = op_content c (OpWithdrawVesting w) \<and> r = s"
proof -
  obtain a b where a: "write_amount (wv_VestingShares v) = Inr a" "x = Varint 4 @ Str (wv_Account v) @ a"
    and b: "write_amount (wv_VestingShares w) = Inr b" "y = Varint 4 @ Str (wv_Account w) @ b"
    using assms(1,3) by (auto simp: rbind_eq_Inr)
  have f: "fits (Str (wv_Account v))" "fits (Str (wv_Account w))"
    using assms(2,4) a b by (auto dest!: fits_append)
  have "wv_Account v = wv_Account w" and e: "a @ r = b @ s"
    using assms(5) a b f by (simp_all add: peel)
  with amount.unambiguous[OF a(1) b(1) e] show ?thesis by simp
qed

lemma unambiguous_update:
  assumes "Operation c (OpAccountUpdate v) = Inr x" "fits x" "Operation c (OpAccountUpdate w) = Inr y" "fits y"
    and "x @ r = y @ s"
  shows "op_content c (OpAccountUpdate v) = op_content c (OpAccountUpdate w) \<and> r = s"
proof -
  let ?as = "\<lambda>v. [u_Owner v, u_Active v, u_Posting v]"
  obtain a k where a: "write_each (optAuthority c) (?as v) = Inr a" "DecodePublicKey c (u_MemoKey v) = Inr k"
      "x = Varint 10 @ Str (u_Account v) @ a @ k @ Str (u_JSONMetadata v)"
    using assms(1) by (auto simp: rbind_eq_Inr simp del: write_each.simps)
  obtain b l where b: "write_each (optAuthority c) (?as w) = Inr b" "DecodePublicKey c (u_MemoKey w) = Inr l"
      "y = Varint 10 @ Str (u_Account w) @ b @ l @ Str (u_JSONMetadata w)"
    using assms(3) by (auto simp: rbind_eq_Inr simp del: write_each.simps)
  have f: "fits (Str (u_Account v))" "fits a" "fits (Str (u_JSONMetadata v))"
    "fits (Str (u_Account w))" "fits b" "fits (Str (u_JSONMetadata w))"
    using assms(2,4) a(3) b(3) by (auto dest!: fits_append)
  have n: "u_Account v = u_Account w"
    and e: "a @ k @ Str (u_JSONMetadata v) @ r = b @ l @ Str (u_JSONMetadata w) @ s"
    using assms(5) a(3) b(3) f by (simp_all add: peel)
  have au: "map (map_option (authority_content c)) (?as v) = map (map_option (authority_content c)) (?as w)"
    and e2: "k @ Str (u_JSONMetadata v) @ r = l @ Str (u_JSONMetadata w) @ s"
    using opt_authorities.unambiguous[OF _ _ e, of "?as v" c "?as w"] a(1) b(1) f by simp_all
  from public_key.unambiguous[OF a(2) b(2) e2] n au f show ?thesis by (simp add: peel)
qed

lemma unambiguous_custom:
  assumes "Operation c (OpCustomJSON v) = Inr x" "fits x" "Operation c (OpCustomJSON w) = Inr y" "fits y"
    and "x @ r = y @ s"
  shows "op_content c (OpCustomJSON v) = op_content c (OpCustomJSON w) \<and> r = s"
proof -
  let ?tail = "\<lambda>v r. Str (cj_ID v) @ Str (cj_JSON v) @ r"
  have f: "fits (write_names (cj_RequiredAuths v))" "fits (write_names (cj_RequiredPostingAuths v))"
    "fits (Str (cj_ID v))" "fits (Str (cj_JSON v))"
    "fits (write_names (cj_RequiredAuths w))" "fits (write_names (cj_RequiredPostingAuths w))"
    "fits (Str (cj_ID w))" "fits (Str (cj_JSON w))"
    using assms(1-4) by (auto dest!: fits_append)
  have e: "write_names (cj_RequiredAuths v) @ write_names (cj_RequiredPostingAuths v) @ ?tail v r
      = write_names (cj_RequiredAuths w) @ write_names (cj_RequiredPostingAuths w) @ ?tail w s"
    using assms(1,3,5) by (auto simp: peel)
  from names.unambiguous[OF conjI[OF refl f(1)] conjI[OF refl f(5)] e]
  have a: "cj_RequiredAuths v = cj_RequiredAuths w"
    and e2: "write_names (cj_RequiredPostingAuths v) @ ?tail v r = write_names (cj_RequiredPostingAuths w) @ ?tail w s"
    by simp_all
  from names.unambiguous[OF conjI[OF refl f(2)] conjI[OF refl f(6)] e2] a f show ?thesis
    by (simp add: peel)
qed

lemma unambiguous_recovery:
  assumes "Operation c (OpChangeRecoveryAccount v) = Inr x" "fits x"
    "Operation c (OpChangeRecoveryAccount w) = Inr y" "fits y" and "x @ r = y @ s"
  shows "op_content c (OpChangeRecoveryAccount v) = op_content c (OpChangeRecoveryAccount w) \<and> r = s"
proof -
  have f: "fits (Str (cr_AccountToRecover v))" "fits (Str (cr_NewRecoveryAccount v))"
    "fits (Str (cr_AccountToRecover w))" "fits (Str (cr_NewRecoveryAccount w))"
    using assms(1-4) by (auto dest!: fits_append)
  then show ?thesis using assms(1,3,5) by (auto simp: peel)
qed

lemma unambiguous_update2:
  assumes "Operation c (OpAccountUpdate2 v) = Inr x" "fits x" "Operation c (OpAccountUpdate2 w) = Inr y" "fits y"
    and "x @ r = y @ s"
  shows "op_content c (OpAccountUpdate2 v) = op_content c (OpAccountUpdate2 w) \<and> r = s"
proof -
  let ?as = "\<lambda>v. [u2_Owner v, u2_Active v, u2_Posting v]"
  let ?tail = "\<lambda>v r. Str (u2_JSONMetadata v) @ Str (u2_PostingJSONMetadata v) @ Varint 0 @ r"
  obtain a k where a: "write_each (optAuthority c) (?as v) = Inr a" "write_memo_key2 c (u2_MemoKey v) = Inr k"
      "x = Varint 43 @ Str (u2_Account v) @ a @ k @ ?tail v []"
    using assms(1) by (auto simp: rbind_eq_Inr simp del: write_each.simps)
  obtain b l where b: "write_each (optAuthority c) (?as w) = Inr b" "write_memo_key2 c (u2_MemoKey w) = Inr l"
      "y = Varint 43 @ Str (u2_Account w) @ b @ l @ ?tail w []"
    using assms(3) by (auto simp: rbind_eq_Inr simp del: write_each.simps)
  have f: "fits (Str (u2_Account v))" "fits a" "fits (Str (u2_JSONMetadata v))" "fits (Str (u2_PostingJSONMetadata v))"
    "fits (Str (u2_Account w))" "fits b" "fits (Str (u2_JSONMetadata w))" "fits (Str (u2_PostingJSONMetadata w))"
    using assms(2,4) a(3) b(3) by (auto dest!: fits_append)
  have n: "u2_Account v = u2_Account w" and e: "a @ k @ ?tail v r = b @ l @ ?tail w s"
    using assms(5) a(3) b(3) f by (simp_all add: peel)
  have au: "map (map_option (authority_content c)) (?as v) = map (map_option (authority_content c)) (?as w)"
    and e2: "k @ ?tail v r = l @ ?tail w s"
    using opt_authorities.unambiguous[OF _ _ e, of "?as v" c "?as w"] a(1) b(1) f by simp_all
  from memo_key2.unambiguous[OF a(2) b(2) e2] n au f show ?thesis by (simp add: peel)
qed

interpretation operation: prefix_code "\<lambda>v x. Operation c v = Inr x \<and> fits x" "op_content c" for c
proof
  fix v w x y r s
  assume v: "Operation c v = Inr x \<and> fits x" and w: "Operation c w = Inr y \<and> fits y" and eq: "x @ r = y @ s"
  obtain p q where "x = Varint (op_number v) @ p" "y = Varint (op_number w) @ q"
    using v w Operation_number by blast
  with eq have n: "op_number v = op_number w" by (simp add: peel_Varint)
  show "op_content c v = op_content c w \<and> r = s"
  proof (cases v)
    case (OpTransfer v')
    with n obtain w' where "w = OpTransfer w'" by (cases w) simp_all
    with OpTransfer v w unambiguous_transfer[OF _ _ _ _ eq] show ?thesis by blast
  next
    case (OpTransferToVesting v')
    with n obtain w' where "w = OpTransferToVesting w'" by (cases w) simp_all
    with OpTransferToVesting v w unambiguous_vesting[OF _ _ _ _ eq] show ?thesis by blast
  next
    case (OpWithdrawVesting v')
    with n obtain w' where "w = OpWithdrawVesting w'" by (cases w) simp_all
    with OpWithdrawVesting v w unambiguous_withdraw[OF _ _ _ _ eq] show ?thesis by blast
  next
    case (OpAccountUpdate v')
    with n obtain w' where "w = OpAccountUpdate w'" by (cases w) simp_all
    with OpAccountUpdate v w unambiguous_update[OF _ _ _ _ eq] show ?thesis by blast
  next
    case (OpCustomJSON v')
    with n obtain w' where "w = OpCustomJSON w'" by (cases w) simp_all
    with OpCustomJSON v w unambiguous_custom[OF _ _ _ _ eq] show ?thesis by blast
  next
    case (OpChangeRecoveryAccount v')
    with n obtain w' where "w = OpChangeRecoveryAccount w'" by (cases w) simp_all
    with OpChangeRecoveryAccount v w unambiguous_recovery[OF _ _ _ _ eq] show ?thesis by blast
  next
    case (OpAccountUpdate2 v')
    with n obtain w' where "w = OpAccountUpdate2 w'" by (cases w) simp_all
    with OpAccountUpdate2 v w unambiguous_update2[OF _ _ _ _ eq] show ?thesis by blast
  next
    case OpOther
    with v show ?thesis by simp
  qed
qed

interpretation operations: prefix_code "\<lambda>p x. (Operation c \<circ> op_Value) p = Inr x \<and> fits x" "op_content c \<circ> op_Value" for c
  using operation.unambiguous by unfold_locales (metis comp_apply)

lemma Operation_ne: "Operation c v = Inr x \<Longrightarrow> x \<noteq> []"
  using Operation_number[of c v x] by auto

lemma Time_Inr: "Time s = Inr x \<longleftrightarrow> (\<exists>t. time_Parse s = Some t \<and> x = U32 (word_of_int (Unix t)))"
  by (auto simp: Time_def rbind_eq_Inr)

text \<open>\<open>Equal\<close> compares encodings, and so the members, the threshold and the decoded keys.\<close>

lemma Equal_content:
  assumes "Equal c a b" and "Authority c a = Inr x" and "fits x"
  shows "authority_content c a = authority_content c b"
  using assms authority.content_eq[of c a x b] by (auto simp: Equal_def split: sum.splits)


definition demo_crypto :: crypto_env where
  "demo_crypto = \<lparr>c_base58Decode = (\<lambda>s. s), c_base58Encode = (\<lambda>s. s), c_ripemd160 = (\<lambda>s. s),
     c_sha256 = (\<lambda>s. s), c_RecoverCompact = (\<lambda>sig d. None)\<rparr>"

definition demo_tx :: "string \<Rightarrow> transaction" where
  "demo_tx amount = \<lparr>tx_RefBlockNum = 7, tx_RefBlockPrefix = 9, tx_Expiration = ''2026-01-01T00:58:00'',
     tx_Operations = [\<lparr>op_Type = ''transfer'',
       op_Value = OpTransfer \<lparr>tr_From = ''svm.bank'', tr_To = ''alice'', tr_Amount = amount, tr_Memo = ''hi''\<rparr>\<rparr>],
     tx_Signatures = []\<rparr>"

lemma demo_amounts:
  "ParseAsset ''1.000 STEEM'' = Inr \<lparr>as_Amount = 1000, as_Precision = 3, as_Symbol = ''STEEM''\<rparr>"
  "ParseAsset ''1.000  STEEM '' = Inr \<lparr>as_Amount = 1000, as_Precision = 3, as_Symbol = ''STEEM''\<rparr>"
proof -
  have "Fields ''1.000 STEEM'' = [''1.000'', ''STEEM'']" "Fields ''1.000  STEEM '' = [''1.000'', ''STEEM'']"
    using Fields_two[of "''1.000''" "''STEEM''"]
      fields_loop_visible[of "''1.000''" "[]" "''  STEEM ''"] fields_loop_visible[of "''STEEM''" "[]" "'' ''"]
    by (simp_all add: visible_def Fields_def fields_loop_space fields_loop_Nil)
  then show "ParseAsset ''1.000 STEEM'' = Inr \<lparr>as_Amount = 1000, as_Precision = 3, as_Symbol = ''STEEM''\<rparr>"
    "ParseAsset ''1.000  STEEM '' = Inr \<lparr>as_Amount = 1000, as_Precision = 3, as_Symbol = ''STEEM''\<rparr>"
    by (simp_all add: ParseAsset_def precisions_def HasPrefix_def is_digit_def)
qed

lemma demo_tx_bytes:
  "\<exists>x. Serialize demo_crypto (demo_tx ''1.000 STEEM'') = Inr x
     \<and> Serialize demo_crypto (demo_tx ''1.000  STEEM '') = Inr x \<and> fits x"
proof -
  have t: "time_Parse ''2026-01-01T00:58:00'' = Some 1767229080000000000"
    by (simp add: time_eval)
  have len: "length (Str ''svm.bank'') = 9" "length (Str ''alice'') = 6" "length (Str ''hi'') = 3"
    by (simp_all add: Str_def Varint.simps)
  show ?thesis
    by (simp add: Serialize_def demo_tx_def t Time_def demo_amounts write_amount_def fits_def len U16_def U32_def
        Asset_def I64_def U8_def Varint.simps)
qed


end
