(* ===== verification/Multisig_Apportion.thy ===== *)
theory Multisig_Apportion
  imports Steem_Tx "HOL-Library.Multiset"
begin

text \<open>
  \<open>oracle/go/multisig/apportion.go\<close>: the authority of \<open>svm.bank\<close> computed from the validators'
  stakes. Every signer has to compute the same bytes, and a signer that loops or errs cannot take
  part, so the theorems are about totality (the search for minimum weights is an unbounded loop in
  the code), exactness of the weights, and independence of the order in which the stakes are read.
\<close>

section \<open>Model\<close>

definition TotalWeight :: int where "TotalWeight = 10000"
definition MaxAccountAuths :: nat where "MaxAccountAuths = 40"

text \<open>\<open>Tokens\<close> is a pointer to a \<open>big.Int\<close>; \<open>None\<close> is nil.\<close>

record stake_entry =
  se_Account :: string
  se_Tokens :: "int option"

datatype ms_error =
    ErrThresholdPercent | ErrDuplicateAccount | ErrNoStake | ErrDeficit | ErrWeightRange | ErrWeightSum

text \<open>The entries with stake, as (account, tokens); a second one of the same account is an error.\<close>

fun collect_stakes :: "string list \<Rightarrow> stake_entry list \<Rightarrow> ms_error + (string \<times> int) list" where
  "collect_stakes seen [] = Inr []"
| "collect_stakes seen (e # es) =
     (case se_Tokens e of
        None \<Rightarrow> collect_stakes seen es
      | Some t \<Rightarrow>
        if t \<le> 0 then collect_stakes seen es
        else if se_Account e \<in> set seen then Inl ErrDuplicateAccount
        else rbind (collect_stakes (se_Account e # seen) es) (\<lambda>vs. Inr ((se_Account e, t) # vs)))"

text \<open>Tokens descending, then account ascending; the top of the list.\<close>

definition rank_stakes :: "(string \<times> int) list \<Rightarrow> (string \<times> int) list" where
  "rank_stakes vals = take MaxAccountAuths (sort_key (\<lambda>(a, t). (- t, a)) vals)"

record weight_row =
  r_account :: string
  r_weight :: int
  r_rem :: int

definition stake_total :: "(string \<times> int) list \<Rightarrow> int" where
  "stake_total vals = sum_list (map snd vals)"

definition quotas :: "(string \<times> int) list \<Rightarrow> weight_row list" where
  "quotas vals =
     map (\<lambda>(a, t). \<lparr>r_account = a, r_weight = (TotalWeight * t) div stake_total vals,
        r_rem = (TotalWeight * t) mod stake_total vals\<rparr>) vals"

definition bump :: "int \<Rightarrow> nat \<Rightarrow> weight_row list \<Rightarrow> weight_row list" where
  "bump d i rows = rows[i := (rows ! i)\<lparr>r_weight := r_weight (rows ! i) + d\<rparr>]"

definition rem_order :: "weight_row list \<Rightarrow> nat list" where
  "rem_order rows = sort_key (\<lambda>i. (- r_rem (rows ! i), r_account (rows ! i))) [0..<length rows]"

definition name_order :: "weight_row list \<Rightarrow> nat list" where
  "name_order rows = sort_key (\<lambda>i. r_account (rows ! i)) [0..<length rows]"

definition largest_remainders :: "nat \<Rightarrow> weight_row list \<Rightarrow> weight_row list" where
  "largest_remainders deficit rows = fold (bump 1) (take deficit (rem_order rows)) rows"

text \<open>The first row of greatest weight in name order. (The list is that of all rows, never empty.)\<close>

definition donor :: "nat list \<Rightarrow> weight_row list \<Rightarrow> nat" where
  "donor byName rows =
     fold (\<lambda>di d. if r_weight (rows ! d) < r_weight (rows ! di) then di else d) (tl byName) (hd byName)"

text \<open>
  The inner loop \<open>for rows[zi].weight == 0\<close>: give the row a unit and take it from the donor. When
  the donor is the row itself the loop does not end; \<open>None\<close> is not returning.
\<close>

partial_function (option) raise_zero :: "nat list \<Rightarrow> nat \<Rightarrow> weight_row list \<Rightarrow> weight_row list option" where
  "raise_zero byName zi rows =
     (if r_weight (rows ! zi) = 0
      then let rows1 = rows[zi := (rows ! zi)\<lparr>r_weight := 1\<rparr>] in
           raise_zero byName zi (bump (- 1) (donor byName rows1) rows1)
      else Some rows)"

fun raise_zeros :: "nat list \<Rightarrow> nat list \<Rightarrow> weight_row list \<Rightarrow> weight_row list option" where
  "raise_zeros byName [] rows = Some rows"
| "raise_zeros byName (zi # zs) rows = Option.bind (raise_zero byName zi rows) (raise_zeros byName zs)"

definition row_auths :: "weight_row list \<Rightarrow> account_auth list" where
  "row_auths rows = map (\<lambda>r. \<lparr>aa_Name = r_account r, aa_Weight = word_of_int (r_weight r)\<rparr>) rows"

definition build_authority :: "u32 \<Rightarrow> weight_row list \<Rightarrow> ms_error + authority" where
  "build_authority thresholdPercent rows =
     (if \<exists>r \<in> set rows. r_weight r < 1 \<or> 65535 < r_weight r then Inl ErrWeightRange
      else if sum_list (map r_weight rows) \<noteq> TotalWeight then Inl ErrWeightSum
      else Inr (Sorted \<lparr>au_WeightThreshold = of_nat ((10000 * unat thresholdPercent + 99) div 100),
             au_AccountAuths = row_auths rows, au_KeyAuths = []\<rparr>))"

text \<open>The rows after the largest-remainder step; the deficit is checked before it is used.\<close>

definition apportion_rows :: "(string \<times> int) list \<Rightarrow> ms_error + weight_row list" where
  "apportion_rows vals =
     (let rows = quotas vals; deficit = TotalWeight - sum_list (map r_weight rows) in
      if deficit < 0 \<or> int (length rows) \<le> deficit then Inl ErrDeficit
      else Inr (largest_remainders (nat deficit) rows))"

definition Apportion :: "stake_entry list \<Rightarrow> u32 \<Rightarrow> (ms_error + authority) option" where
  "Apportion entries thresholdPercent =
     (if thresholdPercent = 0 \<or> 100 < thresholdPercent then Some (Inl ErrThresholdPercent)
      else case collect_stakes [] entries of
        Inl e \<Rightarrow> Some (Inl e)
      | Inr vals \<Rightarrow>
        if vals = [] then Some (Inl ErrNoStake)
        else case apportion_rows (rank_stakes vals) of
          Inl e \<Rightarrow> Some (Inl e)
        | Inr rows \<Rightarrow>
          map_option (build_authority thresholdPercent)
            (raise_zeros (name_order rows) (name_order rows) rows))"

text \<open>\<open>int(c) - int(d.Weight)\<close> of two 16-bit weights.\<close>

definition ExceedsTolerance :: "authority \<Rightarrow> authority \<Rightarrow> u16 \<Rightarrow> bool" where
  "ExceedsTolerance current desired tolerance \<longleftrightarrow>
     au_WeightThreshold current \<noteq> au_WeightThreshold desired \<or>
     length (au_AccountAuths current) \<noteq> length (au_AccountAuths desired) \<or>
     (\<exists>d \<in> set (au_AccountAuths desired).
        let c = WeightOf current (aa_Name d) in
        c = 0 \<or> uint tolerance < \<bar>uint c - uint (aa_Weight d)\<bar>)"

section \<open>Rounding\<close>

abbreviation weights :: "weight_row list \<Rightarrow> int list" where
  "weights rows \<equiv> map r_weight rows"

abbreviation accounts :: "weight_row list \<Rightarrow> string list" where
  "accounts rows \<equiv> map r_account rows"

lemma length_bump [simp]: "length (bump d i rows) = length rows"
  by (simp add: bump_def)

lemma accounts_bump [simp]: "accounts (bump d i rows) = accounts rows"
  by (cases "i < length rows") (simp_all add: bump_def map_update list_update_same_conv list_update_beyond not_less)

lemma weights_bump: "i < length rows \<Longrightarrow> weights (bump d i rows) = (weights rows)[i := weights rows ! i + d]"
  by (simp add: bump_def map_update)

lemma sum_list_update_int: "i < length xs \<Longrightarrow> sum_list (xs[i := x]) = sum_list xs + x - (xs ! i :: int)"
  by (induction xs arbitrary: i) (auto split: nat.splits)

lemma sum_bump: "i < length rows \<Longrightarrow> sum_list (weights (bump d i rows)) = sum_list (weights rows) + d"
  by (simp only: weights_bump) (simp add: sum_list_update_int)

lemma nth_bump:
  "i < length rows \<Longrightarrow> j < length rows \<Longrightarrow>
   r_weight (bump d i rows ! j) = r_weight (rows ! j) + (if j = i then d else 0)"
  by (simp add: bump_def nth_list_update)

lemma fold_bump:
  assumes "distinct is" and "\<forall>i \<in> set is. i < length rows"
  shows "length (fold (bump 1) is rows) = length rows"
    and "accounts (fold (bump 1) is rows) = accounts rows"
    and "sum_list (weights (fold (bump 1) is rows)) = sum_list (weights rows) + int (length is)"
    and "j < length rows \<Longrightarrow>
      r_weight (fold (bump 1) is rows ! j) = r_weight (rows ! j) + (if j \<in> set is then 1 else 0)"
  using assms by (induction "is" arbitrary: rows) (auto simp: sum_bump nth_bump)

text \<open>The remainders sum to the deficit times the total, so the deficit is within range.\<close>

lemma sum_quo_rem:
  fixes T :: int
  shows "T * sum_list (map (\<lambda>t. (k * t) div T) ts) + sum_list (map (\<lambda>t. (k * t) mod T) ts) = k * sum_list ts"
  by (induction ts) (simp_all add: algebra_simps)

lemma sum_rem_bounds:
  fixes T :: int
  assumes "0 < T"
  shows "0 \<le> sum_list (map (\<lambda>t. (k * t) mod T) ts)"
    and "ts \<noteq> [] \<Longrightarrow> sum_list (map (\<lambda>t. (k * t) mod T) ts) < int (length ts) * T"
proof -
  show "0 \<le> sum_list (map (\<lambda>t. (k * t) mod T) ts)"
    using assms by (induction ts) simp_all
  show "ts \<noteq> [] \<Longrightarrow> sum_list (map (\<lambda>t. (k * t) mod T) ts) < int (length ts) * T"
  proof (induction ts)
    case (Cons t ts)
    have "(k * t) mod T < T" using assms by simp
    with Cons show ?case by (cases "ts = []") (simp_all add: distrib_right)
  qed simp
qed

definition staked :: "(string \<times> int) list \<Rightarrow> bool" where
  "staked vals \<longleftrightarrow> vals \<noteq> [] \<and> (\<forall>v \<in> set vals. 0 < snd v) \<and> distinct (map fst vals)"

lemma stake_total_pos: "staked vals \<Longrightarrow> 0 < stake_total vals"
proof -
  have "\<forall>v \<in> set vs. 0 < snd v \<Longrightarrow> 0 \<le> sum_list (map snd vs)" for vs :: "(string \<times> int) list"
    by (intro sum_list_nonneg) auto
  then show "staked vals \<Longrightarrow> 0 < stake_total vals"
    by (cases vals) (fastforce simp: staked_def stake_total_def add_pos_nonneg)+
qed

lemma deficit_range:
  assumes "staked vals"
  defines "deficit \<equiv> TotalWeight - sum_list (weights (quotas vals))"
  shows "0 \<le> deficit" and "deficit < int (length vals)"
proof -
  let ?T = "stake_total vals" and ?ts = "map snd vals"
  have T: "0 < ?T" using assms(1) by (rule stake_total_pos)
  have w: "weights (quotas vals) = map (\<lambda>t. (TotalWeight * t) div ?T) ?ts"
    by (simp add: quotas_def case_prod_beta comp_def)
  have "deficit * ?T = sum_list (map (\<lambda>t. (TotalWeight * t) mod ?T) ?ts)"
    using sum_quo_rem[of ?T TotalWeight ?ts]
    by (simp add: deficit_def w stake_total_def algebra_simps)
  with sum_rem_bounds[OF T, where k = TotalWeight and ts = ?ts] assms(1)
  have "0 \<le> deficit * ?T" "deficit * ?T < int (length vals) * ?T" by (simp_all add: staked_def)
  with T show "0 \<le> deficit" "deficit < int (length vals)"
    by (simp_all add: zero_le_mult_iff)
qed

lemma rem_order_perm: "distinct (rem_order rows)" "set (rem_order rows) = {0..<length rows}"
  by (simp_all add: rem_order_def)

lemma name_order_perm: "distinct (name_order rows)" "set (name_order rows) = {0..<length rows}"
  by (simp_all add: name_order_def)

lemma apportion_rows_ok:
  assumes "staked vals"
  obtains rows where "apportion_rows vals = Inr rows"
    and "length rows = length vals" and "accounts rows = map fst vals"
    and "sum_list (weights rows) = TotalWeight"
    and "\<forall>i < length vals. r_weight (rows ! i) - (TotalWeight * snd (vals ! i)) div stake_total vals \<in> {0, 1}"
proof -
  let ?q = "quotas vals" and ?d = "nat (TotalWeight - sum_list (weights (quotas vals)))"
  let ?is = "take ?d (rem_order (quotas vals))"
  have len: "length ?q = length vals" by (simp add: quotas_def)
  have "?d \<le> length vals" using deficit_range[OF assms] by linarith
  then have li: "length ?is = ?d" by (simp add: rem_order_def len)
  have "distinct ?is" "\<forall>i \<in> set ?is. i < length ?q"
    using rem_order_perm[of ?q] by (auto dest: in_set_takeD)
  note fb = fold_bump[OF this]
  have nth: "r_weight (?q ! i) = (TotalWeight * snd (vals ! i)) div stake_total vals" if "i < length vals" for i
    using that by (simp add: quotas_def case_prod_beta)
  show thesis
  proof (rule that[of "largest_remainders ?d ?q"])
    show "apportion_rows vals = Inr (largest_remainders ?d ?q)"
      using deficit_range[OF assms] len by (simp add: apportion_rows_def Let_def)
    show "length (largest_remainders ?d ?q) = length vals"
      by (simp add: largest_remainders_def fb(1) len)
    show "accounts (largest_remainders ?d ?q) = map fst vals"
      by (simp add: largest_remainders_def fb(2)) (simp add: quotas_def case_prod_beta comp_def)
    show "sum_list (weights (largest_remainders ?d ?q)) = TotalWeight"
      using deficit_range(1)[OF assms] by (simp only: largest_remainders_def fb(3) li)
    show "\<forall>i < length vals. r_weight (largest_remainders ?d ?q ! i)
        - (TotalWeight * snd (vals ! i)) div stake_total vals \<in> {0, 1}"
      using fb(4) len nth by (auto simp: largest_remainders_def)
  qed
qed

section \<open>Minimum weights\<close>

text \<open>What the loop keeps: non-negative weights that sum to ten thousand, on at most forty rows.\<close>

definition balanced :: "weight_row list \<Rightarrow> bool" where
  "balanced rows \<longleftrightarrow>
     length rows \<le> MaxAccountAuths \<and> sum_list (weights rows) = TotalWeight \<and>
     (\<forall>i < length rows. 0 \<le> r_weight (rows ! i))"

lemma donor_max:
  assumes "byName \<noteq> []"
  shows "donor byName rows \<in> set byName \<and>
    (\<forall>i \<in> set byName. r_weight (rows ! i) \<le> r_weight (rows ! donor byName rows))"
proof -
  let ?f = "\<lambda>di d. if r_weight (rows ! d) < r_weight (rows ! di) then di else d"
  have "fold ?f is d \<in> insert d (set is) \<and>
      (\<forall>i \<in> insert d (set is). r_weight (rows ! i) \<le> r_weight (rows ! fold ?f is d))" for "is" d
  proof (induction "is" arbitrary: d)
    case (Cons i "is")
    show ?case using Cons[of "?f i d"] by (fastforce split: if_splits)
  qed simp
  from this[of "tl byName" "hd byName"] assms show ?thesis
    by (cases byName) (auto simp: donor_def)
qed

lemma sum_list_bound: "\<forall>x \<in> set xs. x \<le> (b :: int) \<Longrightarrow> sum_list xs \<le> int (length xs) * b"
  by (induction xs) (auto simp: distrib_right)

lemma raise_zero_step:
  assumes b: "balanced rows" and zi: "zi < length rows" and names: "set byName = {0..<length rows}"
    and zero: "r_weight (rows ! zi) = 0"
  defines "rows1 \<equiv> rows[zi := (rows ! zi)\<lparr>r_weight := 1\<rparr>]"
  defines "rows2 \<equiv> bump (- 1) (donor byName rows1) rows1"
  shows "balanced rows2" and "length rows2 = length rows" and "accounts rows2 = accounts rows"
    and "r_weight (rows2 ! zi) = 1"
    and "\<forall>i < length rows. 1 \<le> r_weight (rows ! i) \<longrightarrow> 1 \<le> r_weight (rows2 ! i)"
proof -
  let ?d = "donor byName rows1"
  have r1: "rows1 = bump 1 zi rows" using zero by (simp add: rows1_def bump_def)
  have len: "length rows1 = length rows" by (simp add: r1)
  have "byName \<noteq> []" using names zi by auto
  from donor_max[OF this, of rows1] names
  have d: "?d < length rows" and mx: "\<forall>i < length rows. r_weight (rows1 ! i) \<le> r_weight (rows1 ! ?d)"
    by auto
  have "sum_list (weights rows1) = TotalWeight + 1" using b zi by (simp add: r1 sum_bump balanced_def)
  moreover have "sum_list (weights rows1) \<le> int (length rows) * r_weight (rows1 ! ?d)"
    using sum_list_bound[of "weights rows1" "r_weight (rows1 ! ?d)"] mx len
    by (simp add: all_set_conv_all_nth)
  ultimately have "2 \<le> r_weight (rows1 ! ?d)"
    using b mult_left_mono[of "r_weight (rows1 ! ?d)" 1 "int (length rows)"]
    by (cases "r_weight (rows1 ! ?d) \<le> 1")
      (auto simp: balanced_def MaxAccountAuths_def TotalWeight_def)
  moreover have w1: "r_weight (rows1 ! i) = r_weight (rows ! i) + (if i = zi then 1 else 0)" if "i < length rows" for i
    using that zi by (simp add: r1 nth_bump)
  moreover have w2: "r_weight (rows2 ! i) = r_weight (rows1 ! i) + (if i = ?d then - 1 else 0)" if "i < length rows" for i
    using that d len by (simp add: rows2_def nth_bump)
  ultimately have dz: "?d \<noteq> zi" and w: "r_weight (rows2 ! i) =
      (if i = zi then 1 else if i = ?d then r_weight (rows ! ?d) - 1 else r_weight (rows ! i))"
    and dw: "2 \<le> r_weight (rows ! ?d)" if "i < length rows" for i
    using that zi d zero by (auto split: if_splits)
  show l2: "length rows2 = length rows" by (simp add: rows2_def len)
  show "accounts rows2 = accounts rows" by (simp add: rows2_def r1)
  show "r_weight (rows2 ! zi) = 1" using w[OF zi] by simp
  show "\<forall>i < length rows. 1 \<le> r_weight (rows ! i) \<longrightarrow> 1 \<le> r_weight (rows2 ! i)"
    using w dw[OF d] zi by auto
  have "sum_list (weights rows2) = TotalWeight"
    using b zi d len by (simp add: rows2_def sum_bump r1 balanced_def)
  then show "balanced rows2" using b w dw[OF d] zi l2 by (auto simp: balanced_def)
qed

text \<open>So the loop ends after at most one round, and the whole pass makes every weight positive.\<close>

lemma raise_zero_returns:
  assumes b: "balanced rows" and zi: "zi < length rows" and names: "set byName = {0..<length rows}"
  obtains rows' where "raise_zero byName zi rows = Some rows'" and "balanced rows'"
    and "length rows' = length rows" and "accounts rows' = accounts rows" and "1 \<le> r_weight (rows' ! zi)"
    and "\<forall>i < length rows. 1 \<le> r_weight (rows ! i) \<longrightarrow> 1 \<le> r_weight (rows' ! i)"
    and "r_weight (rows ! zi) \<noteq> 0 \<Longrightarrow> rows' = rows"
proof (cases "r_weight (rows ! zi) = 0")
  case True
  note st = raise_zero_step[OF b zi names True]
  show ?thesis
    by (rule that[OF _ st(1) st(2) st(3) _ st(5)], subst raise_zero.simps, subst raise_zero.simps)
      (use st(4) True in \<open>simp_all add: Let_def\<close>)
next
  case False
  moreover have "0 \<le> r_weight (rows ! zi)" using b zi by (simp add: balanced_def)
  ultimately show ?thesis by (intro that[of rows], subst raise_zero.simps) (use b in simp_all)
qed

lemma raise_zeros_returns:
  assumes "balanced rows" and "set zs \<subseteq> {0..<length rows}" and "set byName = {0..<length rows}"
  shows "\<exists>rows'. raise_zeros byName zs rows = Some rows' \<and> balanced rows'
    \<and> length rows' = length rows \<and> accounts rows' = accounts rows
    \<and> (\<forall>i < length rows. i \<in> set zs \<or> 1 \<le> r_weight (rows ! i) \<longrightarrow> 1 \<le> r_weight (rows' ! i))
    \<and> ((\<forall>i \<in> set zs. r_weight (rows ! i) \<noteq> 0) \<longrightarrow> rows' = rows)"
  using assms
proof (induction zs arbitrary: rows)
  case (Cons zi zs)
  obtain r1 where r1: "raise_zero byName zi rows = Some r1" "balanced r1" "length r1 = length rows"
      "accounts r1 = accounts rows" "1 \<le> r_weight (r1 ! zi)"
      "\<forall>i < length rows. 1 \<le> r_weight (rows ! i) \<longrightarrow> 1 \<le> r_weight (r1 ! i)"
      "r_weight (rows ! zi) \<noteq> 0 \<Longrightarrow> r1 = rows"
    using raise_zero_returns[of rows zi byName] Cons.prems by auto
  from Cons.IH[OF r1(2)] Cons.prems r1(3)
  obtain r2 where r2: "raise_zeros byName zs r1 = Some r2" "balanced r2" "length r2 = length r1"
      "accounts r2 = accounts r1"
      "\<forall>i < length r1. i \<in> set zs \<or> 1 \<le> r_weight (r1 ! i) \<longrightarrow> 1 \<le> r_weight (r2 ! i)"
      "(\<forall>i \<in> set zs. r_weight (r1 ! i) \<noteq> 0) \<longrightarrow> r2 = r1"
    by auto
  show ?case
    using r1 r2 by (intro exI[of _ r2] conjI) auto
qed simp

section \<open>The collected stakes\<close>

definition has_stake :: "stake_entry \<Rightarrow> bool" where
  "has_stake e \<longleftrightarrow> (case se_Tokens e of None \<Rightarrow> False | Some t \<Rightarrow> 0 < t)"

definition stake_of :: "stake_entry \<Rightarrow> string \<times> int" where
  "stake_of e = (se_Account e, case se_Tokens e of None \<Rightarrow> 0 | Some t \<Rightarrow> t)"

lemma collect_stakes_eq:
  "collect_stakes seen es =
     (if distinct (map se_Account (filter has_stake es)) \<and> set seen \<inter> se_Account ` set (filter has_stake es) = {}
      then Inr (map stake_of (filter has_stake es)) else Inl ErrDuplicateAccount)"
proof (induction es arbitrary: seen)
  case (Cons e es)
  show ?case
  proof (cases "has_stake e")
    case True
    then obtain t where t: "se_Tokens e = Some t" "0 < t" by (auto simp: has_stake_def split: option.splits)
    then have "stake_of e = (se_Account e, t)" by (simp add: stake_of_def)
    with True t show ?thesis by (simp add: Cons)
  next
    case False
    then have "collect_stakes seen (e # es) = collect_stakes seen es"
      by (auto simp: has_stake_def split: option.splits)
    with False show ?thesis by (simp add: Cons)
  qed
qed simp

lemma collect_staked:
  assumes "collect_stakes [] es = Inr vals" and "vals \<noteq> []"
  shows "staked vals"
  using assms
  by (auto simp: collect_stakes_eq staked_def stake_of_def has_stake_def comp_def split: if_splits option.splits)

lemma rank_stakes_set: "set (rank_stakes vals) \<subseteq> set vals"
  using set_take_subset[of MaxAccountAuths "sort_key (\<lambda>(a, t). (- t, a)) vals"]
  by (simp add: rank_stakes_def)

lemma rank_stakes_length: "length (rank_stakes vals) = min MaxAccountAuths (length vals)"
  by (simp add: rank_stakes_def min.commute)

lemma rank_staked:
  assumes "staked vals"
  shows "staked (rank_stakes vals)"
proof -
  have "distinct vals" "inj_on fst (set vals)" "vals \<noteq> []"
    using assms by (simp_all add: staked_def distinct_map)
  moreover have "distinct (rank_stakes vals)" using \<open>distinct vals\<close> by (simp add: rank_stakes_def)
  moreover have "0 < length (rank_stakes vals)"
    using \<open>vals \<noteq> []\<close> by (simp add: rank_stakes_length MaxAccountAuths_def)
  ultimately show ?thesis
    using rank_stakes_set[of vals] assms by (auto simp: staked_def distinct_map inj_on_subset)
qed

text \<open>The order of the input does not matter once its accounts are distinct.\<close>

lemma rank_stakes_mset:
  assumes "mset vals = mset vals'" and "distinct (map fst vals)"
  shows "rank_stakes vals = rank_stakes vals'"
proof -
  have "inj_on (\<lambda>(a, t). (- t, a)) (set vals)" by (auto simp: inj_on_def)
  then have "sort_key (\<lambda>(a, t). (- t, a)) vals = sort_key (\<lambda>(a, t). (- t, a)) vals'"
    using assms(1) by (intro sort_key_inj_key_eq) simp_all
  then show ?thesis by (simp add: rank_stakes_def)
qed

section \<open>The result\<close>

lemma member_le_sum: "\<forall>x \<in> set xs. 0 \<le> x \<Longrightarrow> x \<in> set xs \<Longrightarrow> x \<le> sum_list (xs :: int list)"
  by (induction xs) (auto simp: sum_list_nonneg add_increasing add_increasing2)

abbreviation threshold_of :: "u32 \<Rightarrow> u32" where
  "threshold_of pct \<equiv> of_nat ((10000 * unat pct + 99) div 100)"

lemma build_authority_ok:
  assumes "\<forall>r \<in> set rows. 1 \<le> r_weight r" and "sum_list (weights rows) = TotalWeight"
  shows "build_authority pct rows = Inr (Sorted \<lparr>au_WeightThreshold = threshold_of pct,
      au_AccountAuths = row_auths rows, au_KeyAuths = []\<rparr>)"
    and "\<forall>r \<in> set rows. r_weight r \<le> TotalWeight"
proof -
  have "r_weight r \<le> sum_list (weights rows)" if "r \<in> set rows" for r
    using that assms(1) by (intro member_le_sum) force+
  with assms(2) show le: "\<forall>r \<in> set rows. r_weight r \<le> TotalWeight" by simp
  with assms show "build_authority pct rows = Inr (Sorted \<lparr>au_WeightThreshold = threshold_of pct,
      au_AccountAuths = row_auths rows, au_KeyAuths = []\<rparr>)"
    by (fastforce simp: build_authority_def TotalWeight_def)
qed

lemma Apportion_returns:
  assumes pct: "0 < pct" "pct \<le> 100" and c: "collect_stakes [] es = Inr vals" "vals \<noteq> []"
  defines "ranked \<equiv> rank_stakes vals"
  obtains rows where
    "Apportion es pct = Some (Inr (Sorted \<lparr>au_WeightThreshold = threshold_of pct,
       au_AccountAuths = row_auths rows, au_KeyAuths = []\<rparr>))"
    and "accounts rows = map fst ranked" and "sum_list (weights rows) = TotalWeight"
    and "\<forall>r \<in> set rows. 1 \<le> r_weight r \<and> r_weight r \<le> TotalWeight"
    and "(\<forall>v \<in> set ranked. stake_total ranked \<le> TotalWeight * snd v) \<longrightarrow>
      (\<forall>i < length ranked. r_weight (rows ! i) - (TotalWeight * snd (ranked ! i)) div stake_total ranked \<in> {0, 1})"
proof -
  have st: "staked ranked" unfolding ranked_def using collect_staked[OF c] by (rule rank_staked)
  note T = stake_total_pos[OF st]
  obtain r0 where r0: "apportion_rows ranked = Inr r0" "length r0 = length ranked" "accounts r0 = map fst ranked"
      "sum_list (weights r0) = TotalWeight"
      "\<forall>i < length ranked. r_weight (r0 ! i) - (TotalWeight * snd (ranked ! i)) div stake_total ranked \<in> {0, 1}"
    using apportion_rows_ok[OF st] by blast
  have q: "0 \<le> (TotalWeight * snd (ranked ! i)) div stake_total ranked" if "i < length ranked" for i
    using st T that by (intro pos_imp_zdiv_nonneg_iff[THEN iffD2]) (auto simp: staked_def TotalWeight_def less_imp_le)
  have "0 \<le> r_weight (r0 ! i)" if "i < length ranked" for i
    using r0(5) that q[OF that] by fastforce
  then have "balanced r0"
    using r0 rank_stakes_length[of vals] by (simp add: balanced_def ranked_def)
  from raise_zeros_returns[OF this, of "name_order r0" "name_order r0"] name_order_perm[of r0]
  obtain r1 where r1: "raise_zeros (name_order r0) (name_order r0) r0 = Some r1" "balanced r1"
      "length r1 = length r0" "accounts r1 = accounts r0" "\<forall>i < length r0. 1 \<le> r_weight (r1 ! i)"
      "(\<forall>i \<in> {0..<length r0}. r_weight (r0 ! i) \<noteq> 0) \<longrightarrow> r1 = r0"
    by auto
  have one: "\<forall>r \<in> set r1. 1 \<le> r_weight r" using r1(3,5) by (metis in_set_conv_nth)
  have sum: "sum_list (weights r1) = TotalWeight" using r1(2) by (simp add: balanced_def)
  note ba = build_authority_ok[OF one sum]
  show thesis
  proof (rule that[of r1])
    show "Apportion es pct = Some (Inr (Sorted \<lparr>au_WeightThreshold = threshold_of pct,
        au_AccountAuths = row_auths r1, au_KeyAuths = []\<rparr>))"
      using pct c r0(1) r1(1) ba(1)[of pct] by (auto simp: Apportion_def ranked_def[symmetric])
    have "1 \<le> (TotalWeight * snd (ranked ! i)) div stake_total ranked"
      if "\<forall>v \<in> set ranked. stake_total ranked \<le> TotalWeight * snd v" "i < length ranked" for i
      using that T by (simp add: int_one_le_iff_zero_less pos_imp_zdiv_pos_iff)
    with r0(2,5) have "\<forall>i \<in> {0..<length r0}. r_weight (r0 ! i) \<noteq> 0"
      if "\<forall>v \<in> set ranked. stake_total ranked \<le> TotalWeight * snd v" using that by fastforce
    with r0(5) r1(6) show "(\<forall>v \<in> set ranked. stake_total ranked \<le> TotalWeight * snd v) \<longrightarrow>
        (\<forall>i < length ranked. r_weight (r1 ! i) - (TotalWeight * snd (ranked ! i)) div stake_total ranked \<in> {0, 1})"
      by blast
  qed (use r0 r1 one ba(2) sum in auto)
qed

lemma threshold_of_pct: "threshold_of pct = 100 * pct"
proof -
  have "(10000 * unat pct + 99) div 100 = 100 * unat pct" by simp
  then have "threshold_of pct = of_nat 100 * of_nat (unat pct)" by (simp only: of_nat_mult)
  then show ?thesis by simp
qed

lemma sum_list_sort_key:
  fixes f :: "'a \<Rightarrow> 'b :: comm_monoid_add"
  shows "sum_list (map f (sort_key k xs)) = sum_list (map f xs)"
proof -
  have "sum_mset (mset (map f (sort_key k xs))) = sum_mset (mset (map f xs))" by simp
  then show ?thesis by (simp only: sum_mset_sum_list)
qed

lemma uint_weight: "1 \<le> w \<Longrightarrow> w \<le> TotalWeight \<Longrightarrow> uint (word_of_int w :: u16) = w"
  by (simp add: TotalWeight_def unsigned_of_int take_bit_int_eq_self)

lemma WeightOf_unique:
  "distinct (map aa_Name (au_AccountAuths a)) \<Longrightarrow> x \<in> set (au_AccountAuths a) \<Longrightarrow>
   WeightOf a (aa_Name x) = aa_Weight x"
proof -
  have "distinct (map aa_Name xs) \<Longrightarrow> x \<in> set xs \<Longrightarrow> find (\<lambda>y. aa_Name y = aa_Name x) xs = Some x" for xs
    by (induction xs) (auto simp: image_iff)
  then show "distinct (map aa_Name (au_AccountAuths a)) \<Longrightarrow> x \<in> set (au_AccountAuths a) \<Longrightarrow>
    WeightOf a (aa_Name x) = aa_Weight x" by (simp add: WeightOf_def)
qed

lemma Sorted_names:
  "distinct (map aa_Name (au_AccountAuths a)) \<Longrightarrow> sorted_wrt (<) (map aa_Name (au_AccountAuths (Sorted a)))"
  by (simp add: Sorted_def strict_sorted_iff distinct_map)

text \<open>The stakes that count: those of at most forty validators, by stake, then by name.\<close>

definition ranked_stakes :: "stake_entry list \<Rightarrow> (string \<times> int) list" where
  "ranked_stakes es = rank_stakes (map stake_of (filter has_stake es))"

lemma collect_ok:
  assumes "distinct (map se_Account (filter has_stake es))" and "\<exists>e \<in> set es. has_stake e"
  shows "collect_stakes [] es = Inr (map stake_of (filter has_stake es))"
    and "map stake_of (filter has_stake es) \<noteq> []"
  using assms by (auto simp: collect_stakes_eq filter_empty_conv)

lemma row_auths_simps [simp]:
  "map aa_Name (row_auths rows) = accounts rows"
  "\<forall>r \<in> set rows. 1 \<le> r_weight r \<and> r_weight r \<le> TotalWeight \<Longrightarrow>
     map (uint \<circ> aa_Weight) (row_auths rows) = weights rows"
  by (auto simp: row_auths_def uint_weight)

text \<open>
  The stake-proportional authority always exists and is exact. For a threshold of 1 to 100
  percent and any stakes of distinct accounts, at least one positive, the computation returns (the
  search for minimum weights ends) with no error; the weights sum to exactly ten thousand, each is
  at least one, the members are the (at most forty) largest stakes, listed in strict name order,
  the threshold is the exact percentage, and there are no keys.
\<close>

theorem apportion_is_exact:
  assumes "0 < pct" "pct \<le> 100"
    and "distinct (map se_Account (filter has_stake es))" and "\<exists>e \<in> set es. has_stake e"
  shows "\<exists>a. Apportion es pct = Some (Inr a)
    \<and> sum_list (map (uint \<circ> aa_Weight) (au_AccountAuths a)) = 10000
    \<and> (\<forall>x \<in> set (au_AccountAuths a). 1 \<le> uint (aa_Weight x))
    \<and> sorted_wrt (<) (map aa_Name (au_AccountAuths a))
    \<and> aa_Name ` set (au_AccountAuths a) = fst ` set (ranked_stakes es)
    \<and> length (au_AccountAuths a) \<le> 40
    \<and> au_WeightThreshold a = 100 * pct \<and> au_KeyAuths a = []"
proof -
  note c = collect_ok[OF assms(3,4)]
  obtain rows where r: "Apportion es pct = Some (Inr (Sorted \<lparr>au_WeightThreshold = threshold_of pct,
       au_AccountAuths = row_auths rows, au_KeyAuths = []\<rparr>))"
    and n: "accounts rows = map fst (ranked_stakes es)" and s: "sum_list (weights rows) = TotalWeight"
    and w: "\<forall>r \<in> set rows. 1 \<le> r_weight r \<and> r_weight r \<le> TotalWeight"
    by (rule Apportion_returns[OF assms(1,2) c, folded ranked_stakes_def])
  have "staked (ranked_stakes es)"
    unfolding ranked_stakes_def using collect_staked[OF c] by (rule rank_staked)
  then have d: "distinct (accounts rows)" using n by (simp add: staked_def)
  have "length rows = length (ranked_stakes es)" using n by (metis length_map)
  then have "length rows \<le> 40"
    using rank_stakes_length[of "map stake_of (filter has_stake es)"]
    by (simp add: ranked_stakes_def MaxAccountAuths_def)
  then have l: "length (row_auths rows) \<le> 40" by (simp add: row_auths_def)
  let ?a = "Sorted \<lparr>au_WeightThreshold = threshold_of pct, au_AccountAuths = row_auths rows, au_KeyAuths = []\<rparr>"
  have "sum_list (map (uint \<circ> aa_Weight) (au_AccountAuths ?a)) = 10000"
    using w s by (simp add: Sorted_def sum_list_sort_key TotalWeight_def)
  moreover have "\<forall>x \<in> set (au_AccountAuths ?a). 1 \<le> uint (aa_Weight x)"
    using w by (auto simp: Sorted_def row_auths_def uint_weight)
  moreover have "sorted_wrt (<) (map aa_Name (au_AccountAuths ?a))"
    by (rule Sorted_names) (simp add: d)
  moreover have "aa_Name ` set (au_AccountAuths ?a) = fst ` set (ranked_stakes es)"
    using n by (simp add: Sorted_def flip: set_map)
  ultimately show ?thesis using r l by (auto simp: Sorted_def threshold_of_pct simp del: of_nat_add)
qed

theorem apportion_is_exact_witness:
  "\<exists>a. Apportion [\<lparr>se_Account = ''bob'', se_Tokens = Some 1\<rparr>, \<lparr>se_Account = ''carol'', se_Tokens = None\<rparr>,
       \<lparr>se_Account = ''alice'', se_Tokens = Some 300000\<rparr>] 75 = Some (Inr a)
     \<and> sum_list (map (uint \<circ> aa_Weight) (au_AccountAuths a)) = 10000 \<and> au_WeightThreshold a = 7500"
proof -
  let ?es = "[\<lparr>se_Account = ''bob'', se_Tokens = Some 1\<rparr>, \<lparr>se_Account = ''carol'', se_Tokens = None\<rparr>,
       \<lparr>se_Account = ''alice'', se_Tokens = Some 300000\<rparr>]"
  have "\<exists>a. Apportion ?es 75 = Some (Inr a)
    \<and> sum_list (map (uint \<circ> aa_Weight) (au_AccountAuths a)) = 10000
    \<and> (\<forall>x \<in> set (au_AccountAuths a). 1 \<le> uint (aa_Weight x))
    \<and> sorted_wrt (<) (map aa_Name (au_AccountAuths a))
    \<and> aa_Name ` set (au_AccountAuths a) = fst ` set (ranked_stakes ?es)
    \<and> length (au_AccountAuths a) \<le> 40
    \<and> au_WeightThreshold a = 100 * 75 \<and> au_KeyAuths a = []"
    by (rule apportion_is_exact) (simp_all add: has_stake_def)
  then show ?thesis by auto
qed

text \<open>
  Every signer computes the same authority. The result, error or authority, does not depend on
  the order in which the validators are listed: two inputs with the same entries, each
  the same number of times, give equal results.
\<close>

theorem apportion_ignores_input_order:
  assumes "mset es = mset es'"
  shows "Apportion es pct = Apportion es' pct"
proof -
  let ?f = "filter has_stake es" and ?f' = "filter has_stake es'"
  have m: "mset ?f = mset ?f'" using assms by (metis mset_filter)
  have "mset (map se_Account ?f) = mset (map se_Account ?f')" using m by (simp only: mset_map)
  then have d: "distinct (map se_Account ?f) \<longleftrightarrow> distinct (map se_Account ?f')"
    by (rule mset_eq_imp_distinct_iff)
  have ms: "mset (map stake_of ?f) = mset (map stake_of ?f')" using m by (simp only: mset_map)
  have "rank_stakes (map stake_of ?f) = rank_stakes (map stake_of ?f')" if "distinct (map se_Account ?f)"
    using that by (intro rank_stakes_mset ms) (simp add: comp_def stake_of_def)
  moreover have "map stake_of ?f = [] \<longleftrightarrow> map stake_of ?f' = []"
    using ms by (metis mset_zero_iff)
  ultimately show ?thesis
    using d by (simp add: Apportion_def collect_stakes_eq split: sum.split)
qed

theorem apportion_ignores_input_order_witness:
  "Apportion [\<lparr>se_Account = ''bob'', se_Tokens = Some 1\<rparr>, \<lparr>se_Account = ''alice'', se_Tokens = Some 3\<rparr>] 75
    = Apportion [\<lparr>se_Account = ''alice'', se_Tokens = Some 3\<rparr>, \<lparr>se_Account = ''bob'', se_Tokens = Some 1\<rparr>] 75"
  by (rule apportion_ignores_input_order) simp

text \<open>
  Weights are proportional to stake. When every member's exact share of the ten thousand points
  is at least one point, no weight is moved by the minimum rule, and each member's weight is its
  share rounded down or that plus one.
\<close>

theorem apportion_is_proportional:
  assumes "0 < pct" "pct \<le> 100"
    and "distinct (map se_Account (filter has_stake es))" and "\<exists>e \<in> set es. has_stake e"
    and share: "\<forall>v \<in> set (ranked_stakes es). stake_total (ranked_stakes es) \<le> 10000 * snd v"
    and v: "(acct, tokens) \<in> set (ranked_stakes es)"
    and a: "Apportion es pct = Some (Inr a)"
  shows "uint (WeightOf a acct) - (10000 * tokens) div stake_total (ranked_stakes es) \<in> {0, 1}"
proof -
  note c = collect_ok[OF assms(3,4)]
  obtain rows where r: "Apportion es pct = Some (Inr (Sorted \<lparr>au_WeightThreshold = threshold_of pct,
       au_AccountAuths = row_auths rows, au_KeyAuths = []\<rparr>))"
    and n: "accounts rows = map fst (ranked_stakes es)" and "sum_list (weights rows) = TotalWeight"
    and w: "\<forall>r \<in> set rows. 1 \<le> r_weight r \<and> r_weight r \<le> TotalWeight"
    and p: "(\<forall>v \<in> set (ranked_stakes es). stake_total (ranked_stakes es) \<le> TotalWeight * snd v) \<longrightarrow>
      (\<forall>i < length (ranked_stakes es). r_weight (rows ! i)
        - (TotalWeight * snd (ranked_stakes es ! i)) div stake_total (ranked_stakes es) \<in> {0, 1})"
    by (rule Apportion_returns[OF assms(1,2) c, folded ranked_stakes_def])
  have "staked (ranked_stakes es)"
    unfolding ranked_stakes_def using collect_staked[OF c] by (rule rank_staked)
  then have d: "distinct (accounts rows)" using n by (simp add: staked_def)
  obtain i where i: "i < length (ranked_stakes es)" "ranked_stakes es ! i = (acct, tokens)"
    using v by (auto simp: in_set_conv_nth)
  have len: "length rows = length (ranked_stakes es)" using n by (metis length_map)
  have "accounts rows ! i = map fst (ranked_stakes es) ! i" by (simp add: n)
  then have acct: "r_account (rows ! i) = acct" using i len by simp
  have mem: "rows ! i \<in> set rows" using i len by simp
  let ?x = "\<lparr>aa_Name = acct, aa_Weight = word_of_int (r_weight (rows ! i))\<rparr>"
  have "?x \<in> set (au_AccountAuths a)"
    using a r mem acct by (auto simp: Sorted_def row_auths_def)
  moreover have "distinct (map aa_Name (au_AccountAuths a))"
    using a r d by (auto simp: Sorted_def distinct_map simp flip: row_auths_simps(1))
  ultimately have "WeightOf a acct = word_of_int (r_weight (rows ! i))"
    using WeightOf_unique[of a ?x] by simp
  moreover have "uint (word_of_int (r_weight (rows ! i)) :: u16) = r_weight (rows ! i)"
    using w mem by (auto intro: uint_weight)
  ultimately show ?thesis using p share i by (auto simp: TotalWeight_def)
qed

theorem apportion_is_proportional_witness:
  "\<exists>a. Apportion [\<lparr>se_Account = ''bob'', se_Tokens = Some 1\<rparr>, \<lparr>se_Account = ''alice'', se_Tokens = Some 2\<rparr>] 75
       = Some (Inr a) \<and> uint (WeightOf a ''bob'') - 3333 \<in> {0, 1}"
proof -
  let ?es = "[\<lparr>se_Account = ''bob'', se_Tokens = Some 1\<rparr>, \<lparr>se_Account = ''alice'', se_Tokens = Some 2\<rparr>]"
  have r: "ranked_stakes ?es = [(''alice'', 2), (''bob'', 1)]"
    by (simp add: ranked_stakes_def has_stake_def stake_of_def rank_stakes_def MaxAccountAuths_def)
  have c: "collect_stakes [] ?es = Inr [(''bob'', 1), (''alice'', 2)]" by simp
  obtain a where a: "Apportion ?es 75 = Some (Inr a)"
    by (rule Apportion_returns[OF _ _ c, of 75]) simp_all
  have "uint (WeightOf a ''bob'') - (10000 * 1) div stake_total (ranked_stakes ?es) \<in> {0, 1}"
    by (rule apportion_is_proportional[OF _ _ _ _ _ _ a]) (simp_all add: r has_stake_def stake_total_def)
  with a show ?thesis by (simp add: r stake_total_def)
qed

end
