(* ===== verification/Multisig_Chain.thy ===== *)
theory Multisig_Chain
  imports Multisig_Apportion
begin

text \<open>
  What the signer of \<open>svm.bank\<close> reads and remembers: payout links (\<open>multisig/chain.go\<close>), the
  index of the bank's account history (\<open>multisig/chain.go\<close>), and the write-ahead journal of the
  signer's own approvals (\<open>multisig/journal.go\<close>). History entries are modelled after their JSON
  has been decoded; a node is a function from the requested sequence to a page.
\<close>

section \<open>Payout links\<close>

definition PayoutLinkID :: string where
  "PayoutLinkID = ''svm-withdrawal''"

definition link_prefix :: string where
  \<open>link_prefix = ''{"withdrawal_id":"''\<close>

definition link_suffix :: string where
  \<open>link_suffix = ''"}''\<close>

definition PayoutLinkJSON :: "u64 \<Rightarrow> string" where
  "PayoutLinkJSON i = link_prefix @ FormatUint (unat i) @ link_suffix"

text \<open>
  \<open>payoutLinkRe\<close>, anchored at both ends: the prefix, digits without a superfluous leading zero, the
  suffix. The result is the submatch of the digits.
\<close>

definition payoutLinkRe :: "string \<Rightarrow> string option" where
  "payoutLinkRe s =
     Option.bind (CutPrefix link_prefix s) (\<lambda>r.
     let ds = takeWhile is_digit r in
     if ds \<noteq> [] \<and> (hd ds = CHR ''0'' \<longrightarrow> length ds = 1) \<and> dropWhile is_digit r = link_suffix
     then Some ds else None)"

definition ParsePayoutLink :: "custom_json \<Rightarrow> string \<Rightarrow> u64 option" where
  "ParsePayoutLink c bank =
     (if cj_ID c \<noteq> PayoutLinkID \<or> cj_RequiredAuths c \<noteq> [bank] \<or> cj_RequiredPostingAuths c \<noteq> [] then None
      else case payoutLinkRe (cj_JSON c) of
        None \<Rightarrow> None
      | Some ds \<Rightarrow> if digits_val 0 ds < 2 ^ 64 then Some (of_nat (digits_val 0 ds)) else None)"

definition PayoutOps :: "string \<Rightarrow> string \<Rightarrow> string \<Rightarrow> string \<Rightarrow> u64 \<Rightarrow> operation list" where
  "PayoutOps bank to amount memo i =
     [\<lparr>op_Type = ''transfer'',
       op_Value = OpTransfer \<lparr>tr_From = bank, tr_To = to, tr_Amount = amount, tr_Memo = memo\<rparr>\<rparr>,
      \<lparr>op_Type = ''custom_json'',
       op_Value = OpCustomJSON \<lparr>cj_RequiredAuths = [bank], cj_RequiredPostingAuths = [],
         cj_ID = PayoutLinkID, cj_JSON = PayoutLinkJSON i\<rparr>\<rparr>]"

definition PayoutOf :: "transaction \<Rightarrow> string \<Rightarrow> (transfer \<times> u64) option" where
  "PayoutOf tx bank =
     (case map op_Value (tx_Operations tx) of
        [OpTransfer t, OpCustomJSON c] \<Rightarrow> map_option (\<lambda>i. (t, i)) (ParsePayoutLink c bank)
      | _ \<Rightarrow> None)"

lemma digits_span:
  assumes "\<forall>c \<in> set ds. is_digit c" and "\<not> is_digit x"
  shows "takeWhile is_digit (ds @ x # r) = ds" "dropWhile is_digit (ds @ x # r) = x # r"
  using assms by (induction ds) auto

lemma FormatUint_hd: "hd (FormatUint n) = CHR ''0'' \<Longrightarrow> length (FormatUint n) = 1"
proof (induction n rule: FormatUint.induct)
  case (1 n)
  show ?case
  proof (cases "n < 10")
    case True
    then show ?thesis by (subst FormatUint.simps) simp
  next
    case False
    have ne: "FormatUint (n div 10) \<noteq> []" by simp
    have "hd (FormatUint (n div 10)) = CHR ''0''"
      using "1.prems" False ne by (subst (asm) FormatUint.simps) simp
    with 1(1)[OF False] have "length (FormatUint (n div 10)) = 1" by simp
    with \<open>hd (FormatUint (n div 10)) = CHR ''0''\<close> have "FormatUint (n div 10) = ''0''"
      by (cases "FormatUint (n div 10)") auto
    then have "n div 10 = 0" using digits_val_FormatUint[of "n div 10"] by simp
    with False show ?thesis by simp
  qed
qed

lemma link_suffix_quote:
  obtains x r where "link_suffix = x # r" and "\<not> is_digit x"
  by (rule that[of "CHR 0x22" "''}''"]) (simp_all add: link_suffix_def is_digit_def)

lemma payoutLinkRe_JSON: "payoutLinkRe (PayoutLinkJSON i) = Some (FormatUint (unat i))"
proof -
  obtain x r where x: "link_suffix = x # r" "\<not> is_digit x" by (rule link_suffix_quote)
  have "\<forall>c \<in> set (FormatUint (unat i)). is_digit c" using FormatUint_digits by blast
  note sp = digits_span[OF this x(2), of r]
  show ?thesis using FormatUint_hd[of "unat i"] sp x(1) by (simp add: payoutLinkRe_def PayoutLinkJSON_def Let_def)
qed

text \<open>A payout that the signer builds is recognised, with its transfer and its withdrawal.\<close>

lemma PayoutOf_PayoutOps:
  assumes "tx_Operations tx = PayoutOps bank to amount memo i"
  shows "PayoutOf tx bank = Some (\<lparr>tr_From = bank, tr_To = to, tr_Amount = amount, tr_Memo = memo\<rparr>, i)"
proof -
  have "unat i < 2 ^ 64" using unsigned_less[of i, where 'a = nat] by simp
  then show ?thesis
    using assms by (simp add: PayoutOf_def PayoutOps_def ParsePayoutLink_def payoutLinkRe_JSON digits_val_FormatUint)
qed

section \<open>The history index\<close>

text \<open>
  A decoded operation of the account history; \<open>HistAccountUpdate a b\<close> is either kind of account
  update of \<open>a\<close>, and \<open>b\<close> says whether it sets the owner authority.
\<close>

datatype history_op = HistCustomJSON custom_json | HistAccountUpdate string bool | HistOther

record history_entry =
  he_TrxID :: string
  he_Timestamp :: string
  he_Op :: history_op

type_synonym history_item = "u64 \<times> history_entry"

record history_index =
  h_NextSeq :: u64
  h_Paid :: "(string, string) kv"
  h_Executed :: "(string, string) kv"
  h_LastOwnerChange :: string

definition keepExecuted :: int where "keepExecuted = 96 * Hour"

definition zeroTxID :: string where
  "zeroTxID = ''0000000000000000000000000000000000000000''"

definition IsPaid :: "history_index \<Rightarrow> u64 \<Rightarrow> bool" where
  "IsPaid h i \<longleftrightarrow> kv_get (h_Paid h) (FormatUint (unat i)) \<noteq> None"

definition apply_executed :: "history_entry \<Rightarrow> history_index \<Rightarrow> history_index" where
  "apply_executed e h =
     (if he_TrxID e \<noteq> [] \<and> he_TrxID e \<noteq> zeroTxID
      then h\<lparr>h_Executed := kv_set (he_TrxID e) (he_Timestamp e) (h_Executed h)\<rparr> else h)"

definition apply_entry :: "string \<Rightarrow> history_entry \<Rightarrow> history_index \<Rightarrow> history_index" where
  "apply_entry account e h0 =
     (let h = apply_executed e h0 in
      case he_Op e of
        HistCustomJSON c \<Rightarrow>
          (case ParsePayoutLink c account of
             Some i \<Rightarrow> h\<lparr>h_Paid := kv_set (FormatUint (unat i)) (he_TrxID e) (h_Paid h)\<rparr>
           | None \<Rightarrow> h)
      | HistAccountUpdate a owner \<Rightarrow>
          if a = account \<and> owner then h\<lparr>h_LastOwnerChange := he_Timestamp e\<rparr> else h
      | HistOther \<Rightarrow> h)"

fun applyPage :: "string \<Rightarrow> history_item list \<Rightarrow> history_index \<Rightarrow> bool \<times> history_index" where
  "applyPage account [] h = (False, h)"
| "applyPage account ((sq, e) # page) h =
     (if sq < h_NextSeq h then applyPage account page h
      else let h1 = apply_entry account e h;
               h2 = (if h_NextSeq h1 < sq + 1 then h1\<lparr>h_NextSeq := sq + 1\<rparr> else h1)
           in (True, snd (applyPage account page h2)))"

definition pruneExecuted :: "instant \<Rightarrow> history_index \<Rightarrow> history_index" where
  "pruneExecuted now h =
     h\<lparr>h_Executed := filter (\<lambda>(i, ts).
         case time_Parse ts of Some t \<Rightarrow> \<not> Before t (now - keepExecuted) | None \<Rightarrow> True) (h_Executed h)\<rparr>"

text \<open>
  \<open>node start\<close> is the page the node returns for a requested sequence. \<open>sync_gap\<close> is the loop
  that pages forward; it returns the index as it stands with the error, if a request failed, and
  \<open>None\<close> if it never returns.
\<close>

partial_function (option) sync_gap ::
  "(u64 \<Rightarrow> 'e + history_item list) \<Rightarrow> string \<Rightarrow> u64 \<Rightarrow> history_index \<Rightarrow> ('e option \<times> history_index) option" where
  "sync_gap node account oldest h =
     (if h_NextSeq h < oldest
      then (case node (h_NextSeq h + 100) of
              Inl e \<Rightarrow> Some (Some e, h)
            | Inr page \<Rightarrow>
              if fst (applyPage account page h)
              then sync_gap node account oldest (snd (applyPage account page h))
              else Some (None, snd (applyPage account page h)))
      else Some (None, h))"

definition Sync ::
  "(u64 \<Rightarrow> 'e + history_item list) \<Rightarrow> string \<Rightarrow> u32 \<Rightarrow> instant \<Rightarrow> history_index
   \<Rightarrow> ('e option \<times> history_index) option" where
  "Sync node account headBlock now h =
     (case node (max (ucast headBlock) (h_NextSeq h + 100)) of
        Inl e \<Rightarrow> Some (Some e, h)
      | Inr [] \<Rightarrow> Some (None, pruneExecuted now h)
      | Inr (it # its) \<Rightarrow>
        Option.bind (sync_gap node account (fold (\<lambda>i m. min m (fst i)) (it # its) (fst it)) h) (\<lambda>(e, h1).
        case e of
          Some e \<Rightarrow> Some (Some e, h1)
        | None \<Rightarrow> Some (None, pruneExecuted now (snd (applyPage account (it # its) h1)))))"

section \<open>The approval journal\<close>

record journal_entry =
  je_Subject :: string
  je_Expiration :: string

type_synonym approval_journal = "(string, journal_entry) kv"

definition PayoutSubject :: "u64 \<Rightarrow> string" where
  "PayoutSubject i = ''withdrawal:'' @ FormatUint (unat i)"

definition SubjectOf :: "transaction \<Rightarrow> string" where
  "SubjectOf tx =
     (case map op_Value (tx_Operations tx) of
        [OpTransfer t, _] \<Rightarrow>
          (case PayoutOf tx (tr_From t) of Some (_, i) \<Rightarrow> PayoutSubject i | None \<Rightarrow> [])
      | [OpAccountUpdate u] \<Rightarrow> ''account_update:'' @ u_Account u
      | _ \<Rightarrow> [])"

definition PruneAfter :: int where "PruneAfter = 72 * Hour"

definition Record :: "string \<Rightarrow> transaction \<Rightarrow> approval_journal \<Rightarrow> approval_journal" where
  "Record i tx j = kv_set i \<lparr>je_Subject = SubjectOf tx, je_Expiration = tx_Expiration tx\<rparr> j"

text \<open>An expiration that does not parse counts as unexpired.\<close>

definition unexpired :: "instant \<Rightarrow> string \<Rightarrow> bool" where
  "unexpired now s \<longleftrightarrow> (case time_Parse s of None \<Rightarrow> True | Some t \<Rightarrow> Before now t)"

definition Conflicts :: "approval_journal option \<Rightarrow> string \<Rightarrow> string \<Rightarrow> instant \<Rightarrow> bool" where
  "Conflicts j subject i now \<longleftrightarrow>
     (case j of
        None \<Rightarrow> False
      | Some approvals \<Rightarrow> subject \<noteq> [] \<and>
          (\<exists>(pid, e) \<in> set approvals. pid \<noteq> i \<and> je_Subject e = subject \<and> unexpired now (je_Expiration e)))"

definition journal_Prune :: "instant \<Rightarrow> approval_journal \<Rightarrow> approval_journal" where
  "journal_Prune now j =
     filter (\<lambda>(i, e). case time_Parse (je_Expiration e) of
        Some t \<Rightarrow> \<not> Before t (now - PruneAfter) | None \<Rightarrow> True) j"

text \<open>
  The invariant of the journal: of the approvals with one subject, at most one can still execute.
  It survives the passing of time, pruning, and every recording that \<open>Conflicts\<close> allowed.
\<close>

definition one_live :: "instant \<Rightarrow> approval_journal \<Rightarrow> bool" where
  "one_live now j \<longleftrightarrow>
     (\<forall>p e q f. (p, e) \<in> set j \<longrightarrow> (q, f) \<in> set j \<longrightarrow>
        je_Subject e \<noteq> [] \<longrightarrow> je_Subject f = je_Subject e \<longrightarrow>
        unexpired now (je_Expiration e) \<longrightarrow> unexpired now (je_Expiration f) \<longrightarrow> p = q)"

lemma one_liveD:
  "one_live now j \<Longrightarrow> (p, e) \<in> set j \<Longrightarrow> (q, f) \<in> set j \<Longrightarrow> je_Subject e \<noteq> [] \<Longrightarrow>
   je_Subject f = je_Subject e \<Longrightarrow> unexpired now (je_Expiration e) \<Longrightarrow> unexpired now (je_Expiration f) \<Longrightarrow> p = q"
  unfolding one_live_def by metis

lemma unexpired_mono: "now \<le> later \<Longrightarrow> unexpired later s \<Longrightarrow> unexpired now s"
  by (auto simp: unexpired_def Before_def split: option.splits)

lemma one_liveI:
  assumes "\<And>p e q f. (p, e) \<in> set j \<Longrightarrow> (q, f) \<in> set j \<Longrightarrow> je_Subject e \<noteq> [] \<Longrightarrow>
     je_Subject f = je_Subject e \<Longrightarrow> unexpired now (je_Expiration e) \<Longrightarrow> unexpired now (je_Expiration f) \<Longrightarrow> p = q"
  shows "one_live now j"
  unfolding one_live_def using assms by metis

lemma one_live_later:
  assumes "one_live now j" and "now \<le> later"
  shows "one_live later j"
proof (rule one_liveI)
  fix p e q f
  assume "(p, e) \<in> set j" "(q, f) \<in> set j" "je_Subject e \<noteq> []" "je_Subject f = je_Subject e"
    "unexpired later (je_Expiration e)" "unexpired later (je_Expiration f)"
  then show "p = q" by (intro one_liveD[OF assms(1), of p e q f] unexpired_mono[OF assms(2)])
qed

lemma one_live_subset:
  assumes "one_live now j" and "set j' \<subseteq> set j"
  shows "one_live now j'"
proof (rule one_liveI)
  fix p e q f
  assume "(p, e) \<in> set j'" "(q, f) \<in> set j'" "je_Subject e \<noteq> []" "je_Subject f = je_Subject e"
    "unexpired now (je_Expiration e)" "unexpired now (je_Expiration f)"
  then show "p = q" by (intro one_liveD[OF assms(1), of p e q f] subsetD[OF assms(2)])
qed

lemma one_live_Prune: "one_live now j \<Longrightarrow> one_live now (journal_Prune late j)"
  by (erule one_live_subset) (auto simp: journal_Prune_def)

lemma set_kv_set_wf: "kv_wf m \<Longrightarrow> (a, b) \<in> set (kv_set k v m) \<longleftrightarrow> (if a = k then b = v else (a, b) \<in> set m)"
  by (simp add: kv_wf_get_iff[symmetric] eq_commute)

lemma one_live_Record:
  assumes "one_live now j" and "kv_wf j" and free: "\<not> Conflicts (Some j) (SubjectOf tx) i now"
  shows "one_live now (Record i tx j)"
proof -
  have no: "p = i" if "(p, e) \<in> set j" "je_Subject e = SubjectOf tx" "SubjectOf tx \<noteq> []"
      "unexpired now (je_Expiration e)" for p e
    using free that by (auto simp: Conflicts_def)
  let ?new = "\<lparr>je_Subject = SubjectOf tx, je_Expiration = tx_Expiration tx\<rparr>"
  have mem: "(p, e) \<in> set (Record i tx j) \<longleftrightarrow> (if p = i then e = ?new else (p, e) \<in> set j)" for p e
    unfolding Record_def by (rule set_kv_set_wf[OF assms(2)])
  show ?thesis
  proof (rule one_liveI)
    fix p e q f
    assume m: "(p, e) \<in> set (Record i tx j)" "(q, f) \<in> set (Record i tx j)"
      and s: "je_Subject e \<noteq> []" "je_Subject f = je_Subject e"
      and u: "unexpired now (je_Expiration e)" "unexpired now (je_Expiration f)"
    consider "p = i" "q = i" | "p = i" "q \<noteq> i" | "p \<noteq> i" "q = i" | "p \<noteq> i" "q \<noteq> i" by blast
    then show "p = q"
    proof cases
      case 2
      with m s u have "(q, f) \<in> set j" "je_Subject f = SubjectOf tx" "SubjectOf tx \<noteq> []" by (simp_all add: mem)
      with no u 2 show ?thesis by blast
    next
      case 3
      with m s u have "(p, e) \<in> set j" "je_Subject e = SubjectOf tx" "SubjectOf tx \<noteq> []" by (simp_all add: mem)
      with no u 3 show ?thesis by blast
    next
      case 4
      with m have "(p, e) \<in> set j" "(q, f) \<in> set j" by (simp_all add: mem)
      with one_liveD[OF assms(1)] s u show ?thesis by blast
    qed simp
  qed
qed

lemma kv_wf_Prune: "kv_wf j \<Longrightarrow> kv_wf (journal_Prune now j)"
  by (simp add: journal_Prune_def kv_wf_filter)

lemma kv_wf_Record: "kv_wf j \<Longrightarrow> kv_wf (Record i tx j)"
  by (simp add: Record_def)

section \<open>The history index is complete\<close>

text \<open>
  What the node's documentation promises: for a start of at least the page limit it returns the
  entries from one hundred before that sequence up to it, and a start beyond the newest entry is
  the newest entry.
\<close>

definition node_page :: "history_entry list \<Rightarrow> nat \<Rightarrow> history_item list" where
  "node_page hist start =
     (let newest = min start (length hist - 1) in
      map (\<lambda>i. (of_nat i, hist ! i)) [newest - 100..<min (newest + 1) (length hist)])"

definition honest_node :: "history_entry list \<Rightarrow> (u64 \<Rightarrow> 'e + history_item list) \<Rightarrow> bool" where
  "honest_node hist node \<longleftrightarrow> (\<forall>start \<ge> 100. node start = Inr (node_page hist (unat start)))"

text \<open>The index holds every payout among the first \<open>n\<close> entries and continues at the \<open>n\<close>-th.\<close>

definition indexed :: "string \<Rightarrow> history_entry list \<Rightarrow> nat \<Rightarrow> history_index \<Rightarrow> bool" where
  "indexed account hist n h \<longleftrightarrow>
     n \<le> length hist \<and> h_NextSeq h = of_nat n \<and>
     (\<forall>i < n. \<forall>c w. he_Op (hist ! i) = HistCustomJSON c \<longrightarrow> ParsePayoutLink c account = Some w \<longrightarrow> IsPaid h w)"

lemma apply_entry_keeps [simp]: "h_NextSeq (apply_entry account e h) = h_NextSeq h"
  by (auto simp: apply_entry_def apply_executed_def Let_def split: history_op.splits option.splits)

lemma apply_entry_paid: "IsPaid h w \<Longrightarrow> IsPaid (apply_entry account e h) w"
  by (auto simp: apply_entry_def apply_executed_def Let_def IsPaid_def split: history_op.splits option.splits)

lemma apply_entry_pays:
  "he_Op e = HistCustomJSON c \<Longrightarrow> ParsePayoutLink c account = Some w \<Longrightarrow> IsPaid (apply_entry account e h) w"
  by (auto simp: apply_entry_def apply_executed_def Let_def IsPaid_def)

lemma indexed_next:
  assumes "indexed account hist n h" and "n < length hist" and "length hist < 2 ^ 63"
  shows "indexed account hist (Suc n) (apply_entry account (hist ! n) h\<lparr>h_NextSeq := of_nat n + 1\<rparr>)"
proof -
  have "IsPaid (h\<lparr>h_NextSeq := k\<rparr>) w = IsPaid h w" for h k w by (simp add: IsPaid_def)
  with assms show ?thesis
    by (auto simp: indexed_def less_Suc_eq add.commute intro: apply_entry_paid apply_entry_pays)
qed

lemma of_nat_less_u64:
  "a < 2 ^ 63 \<Longrightarrow> b < 2 ^ 63 \<Longrightarrow> (of_nat a :: u64) < of_nat b \<longleftrightarrow> a < b"
  by (simp add: word_less_nat_alt unat_of_nat)

text \<open>Applying a run of consecutive entries that starts at or before the next one.\<close>

lemma applyPage_run:
  assumes "indexed account hist n h" and "a \<le> n" and "b \<le> length hist" and "length hist < 2 ^ 62"
  shows "indexed account hist (max n b) (snd (applyPage account (map (\<lambda>i. (of_nat i, hist ! i)) [a..<b]) h))"
    and "fst (applyPage account (map (\<lambda>i. (of_nat i, hist ! i)) [a..<b]) h) \<longleftrightarrow> n < b"
proof -
  let ?items = "\<lambda>a. map (\<lambda>i. (of_nat i, hist ! i)) [a..<b] :: history_item list"
  have "indexed account hist (max n b) (snd (applyPage account (?items a) h))
      \<and> (fst (applyPage account (?items a) h) \<longleftrightarrow> n < b)"
    using assms(1,2)
  proof (induction "b - a" arbitrary: a n h)
    case 0
    then have "max n b = n" "[a..<b] = []" by simp_all
    with 0 show ?case by simp
  next
    case (Suc k)
    then have ab: "a < b" by simp
    then have it: "?items a = (of_nat a, hist ! a) # ?items (Suc a)" by (simp add: upt_conv_Cons)
    have nb: "n < 2 ^ 63" "a < 2 ^ 63" "a + 1 < 2 ^ 63"
      using Suc.prems assms(3,4) ab by (auto simp: indexed_def)
    have nx: "h_NextSeq h = of_nat n" using Suc.prems by (simp add: indexed_def)
    show ?case
    proof (cases "a < n")
      case True
      then have "(of_nat a :: u64) < h_NextSeq h" using nb nx by (simp add: of_nat_less_u64)
      with Suc.hyps(1)[of "Suc a" n h] Suc.hyps(2) Suc.prems True it show ?thesis by simp
    next
      case False
      with Suc.prems have an: "a = n" by simp
      have less: "h_NextSeq h < of_nat a + 1"
        using of_nat_less_u64[of n "a + 1"] nb nx an by (simp add: add.commute)
      have "indexed account hist (Suc n) (apply_entry account (hist ! n) h\<lparr>h_NextSeq := of_nat n + 1\<rparr>)"
        using Suc.prems assms(3,4) ab an by (intro indexed_next) auto
      from Suc.hyps(1)[OF _ this, of "Suc a"] Suc.hyps(2) an it less nx ab
      show ?thesis by (simp add: max_def)
    qed
  qed
  then show "indexed account hist (max n b) (snd (applyPage account (?items a) h))"
    "fst (applyPage account (?items a) h) \<longleftrightarrow> n < b" by blast+
qed

lemma unat_small: "n < 2 ^ 62 \<Longrightarrow> unat (of_nat n :: u64) = n"
  "n < 2 ^ 62 \<Longrightarrow> unat (of_nat n + 100 :: u64) = n + 100"
proof -
  show "n < 2 ^ 62 \<Longrightarrow> unat (of_nat n :: u64) = n" by (simp add: unat_of_nat)
  have "unat (of_nat (n + 100) :: u64) = n + 100" if "n < 2 ^ 62" using that by (simp only: unat_of_nat) simp
  then show "n < 2 ^ 62 \<Longrightarrow> unat (of_nat n + 100 :: u64) = n + 100" by simp
qed

lemma sync_gap_complete:
  assumes "honest_node hist node" and "length hist < 2 ^ 62" and "k + 101 \<le> length hist"
    and "indexed account hist n h"
  shows "\<exists>h' n'. sync_gap node account (of_nat k) h = Some (None, h') \<and> indexed account hist n' h' \<and> k \<le> n'"
  using assms(4)
proof (induction "k - n" arbitrary: n h rule: less_induct)
  case less
  have n: "n < 2 ^ 62" "h_NextSeq h = of_nat n" using less.prems assms(2) by (auto simp: indexed_def)
  show ?case
  proof (cases "n < k")
    case False
    then have "\<not> h_NextSeq h < of_nat k" using n assms(2,3) of_nat_less_u64[of n k] by simp
    with less.prems False show ?thesis by (subst sync_gap.simps) auto
  next
    case True
    then have lt: "h_NextSeq h < of_nat k" using n assms(2,3) of_nat_less_u64[of n k] by simp
    have st: "unat (h_NextSeq h + 100) = n + 100" using n unat_small(2) by simp
    then have "100 \<le> h_NextSeq h + 100" by (simp add: word_le_nat_alt)
    with assms(1) st have nd: "node (h_NextSeq h + 100) = Inr (node_page hist (n + 100))"
      by (simp add: honest_node_def)
    have "min (n + 100) (length hist - 1) = n + 100" "min (n + 100 + 1) (length hist) = n + 101"
      using True assms(3) by linarith+
    then have pg: "node_page hist (n + 100) = map (\<lambda>i. (of_nat i, hist ! i)) [n..<n + 101]"
      by (simp only: node_page_def Let_def) simp
    have run: "indexed account hist (n + 101) (snd (applyPage account (node_page hist (n + 100)) h))"
        "fst (applyPage account (node_page hist (n + 100)) h)"
      unfolding pg using applyPage_run[OF less.prems, of n "n + 101"] True assms(2,3)
      by (simp_all add: max_def)
    from less.hyps[OF _ run(1)] True
    have "\<exists>h' n'. sync_gap node account (of_nat k) (snd (applyPage account (node_page hist (n + 100)) h))
        = Some (None, h') \<and> indexed account hist n' h' \<and> k \<le> n'" by simp
    with lt nd run(2) show ?thesis by (subst sync_gap.simps) simp
  qed
qed

lemma fold_min: "\<forall>i \<in> set its. m \<le> fst i \<Longrightarrow> fold (\<lambda>i m. min m (fst i)) its m = (m :: u64)"
  by (induction its) (auto simp: min_absorb1)

lemma indexed_prune: "indexed account hist n h \<Longrightarrow> indexed account hist n (pruneExecuted now h)"
  by (simp add: indexed_def pruneExecuted_def IsPaid_def)

text \<open>
  C29: synchronising the history finds every payout. From an index that holds every payout before
  its position, one \<open>Sync\<close> against a node that answers as documented (and whose head block number
  is at least the number of history entries) returns without error, has read to the end of the
  history, and knows every withdrawal that a payout link of the bank's history names: such a
  withdrawal is never paid a second time. The paging loop always ends.
\<close>

theorem sync_finds_every_payout:
  assumes node: "honest_node hist node" and size: "length hist < 2 ^ 62" "length hist \<le> unat headBlock"
    and h: "indexed account hist n h"
  shows "\<exists>h'. Sync node account headBlock now h = Some (None, h') \<and> indexed account hist (length hist) h'"
proof -
  let ?N = "length hist" and ?start = "max (ucast headBlock) (h_NextSeq h + 100) :: u64"
  have n: "n \<le> ?N" "h_NextSeq h = of_nat n" using h by (auto simp: indexed_def)
  have st: "unat (h_NextSeq h + 100) = n + 100" using n size(1) unat_small(2) by simp
  have uc: "unat (ucast headBlock :: u64) = unat headBlock" 
    using unsigned_less[of headBlock, where 'a = nat] by (simp add: unsigned_ucast_eq take_bit_nat_eq_self_iff)
  have big: "100 \<le> ?start" using st by (auto simp: max_def word_le_nat_alt)
  have "?N \<le> unat ?start" using size(2) uc by (auto simp: max_def word_le_nat_alt)
  then have "min (unat ?start) (?N - 1) = ?N - 1" "min (?N - 1 + 1) ?N = ?N" by linarith+
  then have pg: "node_page hist (unat ?start) = map (\<lambda>i. (of_nat i, hist ! i)) [?N - 1 - 100..<?N]"
    by (simp only: node_page_def Let_def)
  have nd: "node ?start = Inr (map (\<lambda>i. (of_nat i, hist ! i)) [?N - 1 - 100..<?N])"
    using node big pg by (simp add: honest_node_def)
  show ?thesis
  proof (cases "hist = []")
    case True
    with nd n h indexed_prune[OF h] show ?thesis by (simp add: Sync_def)
  next
    case False
    define k where "k = ?N - 1 - 100"
    let ?its = "map (\<lambda>i. (of_nat i, hist ! i)) [k..<?N] :: history_item list"
    have ne: "?its = (of_nat k, hist ! k) # map (\<lambda>i. (of_nat i, hist ! i)) [Suc k..<?N]"
      using False by (simp add: k_def upt_conv_Cons)
    have "\<forall>i \<in> set ?its. (of_nat k :: u64) \<le> fst i"
      using size(1) by (auto simp: word_le_nat_alt unat_small)
    then have old: "fold (\<lambda>i m. min m (fst i)) ?its (of_nat k) = (of_nat k :: u64)" by (rule fold_min)
    have "\<exists>h' n'. sync_gap node account (of_nat k) h = Some (None, h') \<and> indexed account hist n' h' \<and> k \<le> n'"
    proof (cases "k = 0")
      case True
      with h show ?thesis by (subst sync_gap.simps) auto
    next
      case False
      with sync_gap_complete[OF node size(1) _ h, of k] show ?thesis by (simp add: k_def)
    qed
    then obtain h' n' where g: "sync_gap node account (of_nat k) h = Some (None, h')"
        "indexed account hist n' h'" "k \<le> n'" by blast
    have "indexed account hist (max n' ?N) (snd (applyPage account ?its h'))"
      using g size(1) by (intro applyPage_run) simp_all
    then have "indexed account hist ?N (pruneExecuted now (snd (applyPage account ?its h')))"
      using g(2) by (simp add: indexed_prune indexed_def[of account hist n'] max_def)
    moreover have nd': "node ?start = Inr ?its" using nd by (simp only: k_def)
    have "Sync node account headBlock now h = Some (None, pruneExecuted now (snd (applyPage account ?its h')))"
      unfolding Sync_def nd' ne using g(1) old[unfolded ne] by (simp del: applyPage.simps)
    ultimately show ?thesis by blast
  qed
qed

definition demo_history_payout :: "u64 \<Rightarrow> history_entry" where
  "demo_history_payout i = \<lparr>he_TrxID = ''ab'', he_Timestamp = ''2026-01-01T00:00:00'',
     he_Op = HistCustomJSON \<lparr>cj_RequiredAuths = [''svm.bank''], cj_RequiredPostingAuths = [],
       cj_ID = PayoutLinkID, cj_JSON = PayoutLinkJSON i\<rparr>\<rparr>"

definition empty_index :: history_index where
  "empty_index = \<lparr>h_NextSeq = 0, h_Paid = [], h_Executed = [], h_LastOwnerChange = []\<rparr>"

theorem sync_finds_every_payout_witness:
  "\<exists>h'. Sync (\<lambda>start. Inr (node_page [demo_history_payout 4, demo_history_payout 9] (unat start)) :: unit + history_item list)
       ''svm.bank'' 1000 0 empty_index = Some (None, h')
     \<and> indexed ''svm.bank'' [demo_history_payout 4, demo_history_payout 9] 2 h'"
proof -
  have "indexed ''svm.bank'' [demo_history_payout 4, demo_history_payout 9] 0 empty_index"
    by (simp add: indexed_def empty_index_def)
  moreover have two: "2 = length [demo_history_payout 4, demo_history_payout 9]" by simp
  ultimately show ?thesis
    unfolding two by (intro sync_finds_every_payout) (simp_all add: honest_node_def)
qed

end
