(* ===== verification/Relayer_Scan.thy ===== *)
theory Relayer_Scan
  imports Bridge_Ante Multisig_Chain
begin

text \<open>
  What the relayer reads off a Steem block (\<open>oracle/go/relayer/steem.go\<close>) and the messages it makes of
  it (\<open>router.go\<close>): amounts, transfers to the gateway, payouts by the gateway, and the intent of a
  memo. Blocks are modelled after their JSON has been decoded; an operation of another type, or one that
  does not decode, is \<open>SteemOtherOp\<close>. An error of the relayer is its message.
\<close>

section \<open>Blocks\<close>

datatype steem_op = SteemTransferOp transfer | SteemCustomJSONOp custom_json | SteemOtherOp

record steem_tx =
  stx_TransactionId :: string
  stx_Operations :: "steem_op list"

record steem_block =
  sb_BlockID :: string
  sb_Timestamp :: string
  sb_TransactionIds :: "string list"
  sb_Transactions :: "steem_tx list"

record scanned_transfer =
  t_Txid :: string
  t_OpIndex :: u32
  t_SteemBlock :: u64
  t_SteemTimestamp :: string
  t_From :: string
  t_AmountMillisteem :: u64
  t_Memo :: string
  t_Asset :: bridge_asset

record payout =
  po_WithdrawalID :: u64
  po_Txid :: string
  po_OpIndex :: u32
  po_SteemBlock :: u64
  po_SteemTimestamp :: string
  po_Destination :: string
  po_Memo :: string
  po_AmountMillisteem :: u64
  po_Asset :: bridge_asset

section \<open>Amounts\<close>

text \<open>The digit loop: a character that is no digit, or a result beyond \<open>2 ^ 63 / 10\<close>, ends it.\<close>

fun milli_digits :: "u64 \<Rightarrow> string \<Rightarrow> u64 option" where
  "milli_digits result [] = Some result"
| "milli_digits result (ch # digits) =
     (if \<not> is_digit ch then None
      else if result > 922337203685477580 then None
      else milli_digits (result * 10 + of_nat (of_char ch - 48)) digits)"

definition ParseSteemAmount :: "string \<Rightarrow> string \<Rightarrow> u64 option" where
  "ParseSteemAmount amount symbol =
     (case Split (CHR '' '') (TrimSpace amount) of
        [value, sym0] \<Rightarrow>
          if sym0 \<noteq> symbol then None
          else
            let (intPart, fracPart) = (case Cut (CHR ''.'') value of None \<Rightarrow> (value, '''') | Some p \<Rightarrow> p)
            in if intPart = '''' \<or> length fracPart > 3 then None
               else milli_digits 0 (intPart @ fracPart @ replicate (3 - length fracPart) (CHR ''0''))
      | _ \<Rightarrow> None)"

text \<open>The STEEM symbol first; an empty SBD symbol turns SBD off.\<close>

definition bridged_amount :: "string \<Rightarrow> string \<Rightarrow> string \<Rightarrow> (u64 \<times> bridge_asset) option" where
  "bridged_amount amount steemSymbol sbdSymbol =
     (case ParseSteemAmount amount steemSymbol of
        Some a \<Rightarrow> Some (a, BRIDGE_ASSET_STEEM)
      | None \<Rightarrow>
          if sbdSymbol \<noteq> '''' then map_option (\<lambda>a. (a, BRIDGE_ASSET_SBD)) (ParseSteemAmount amount sbdSymbol)
          else None)"

section \<open>Transfers and payouts of a block\<close>

definition block_txid :: "steem_block \<Rightarrow> nat \<Rightarrow> steem_tx \<Rightarrow> string" where
  "block_txid block txNum tx =
     (if stx_TransactionId tx = '''' \<and> txNum < length (sb_TransactionIds block) then sb_TransactionIds block ! txNum
      else stx_TransactionId tx)"

definition extract_transfer ::
    "u64 \<Rightarrow> steem_block \<Rightarrow> string \<Rightarrow> string \<Rightarrow> string \<Rightarrow> string \<Rightarrow> nat \<times> steem_op \<Rightarrow> scanned_transfer option" where
  "extract_transfer blockNum block gateway steemSymbol sbdSymbol txid iop =
     (case snd iop of
        SteemTransferOp x \<Rightarrow>
          if tr_To x \<noteq> gateway \<or> tr_From x = gateway then None
          else map_option (\<lambda>(amount, asset).
            \<lparr>t_Txid = txid, t_OpIndex = of_nat (fst iop), t_SteemBlock = blockNum, t_SteemTimestamp = sb_Timestamp block,
             t_From = tr_From x, t_AmountMillisteem = amount, t_Memo = tr_Memo x, t_Asset = asset\<rparr>)
            (bridged_amount (tr_Amount x) steemSymbol sbdSymbol)
      | _ \<Rightarrow> None)"

definition ExtractGatewayTransfers ::
    "u64 \<Rightarrow> steem_block \<Rightarrow> string \<Rightarrow> string \<Rightarrow> string \<Rightarrow> scanned_transfer list" where
  "ExtractGatewayTransfers blockNum block gateway steemSymbol sbdSymbol =
     concat (map (\<lambda>(txNum, tx).
        let txid = block_txid block txNum tx in
        if txid = '''' then []
        else List.map_filter (extract_transfer blockNum block gateway steemSymbol sbdSymbol txid)
               (enumerate 0 (stx_Operations tx)))
       (enumerate 0 (sb_Transactions block)))"

definition extract_payout ::
    "u64 \<Rightarrow> steem_block \<Rightarrow> string \<Rightarrow> string \<Rightarrow> string \<Rightarrow> nat \<times> steem_tx \<Rightarrow> payout option" where
  "extract_payout blockNum block gateway steemSymbol sbdSymbol itx =
     (let txid = block_txid block (fst itx) (snd itx) in
      if txid = '''' then None
      else case stx_Operations (snd itx) of
        [SteemTransferOp x, SteemCustomJSONOp c] \<Rightarrow>
          if tr_From x \<noteq> gateway then None
          else Option.bind (ParsePayoutLink c gateway) (\<lambda>withdrawalID.
               map_option (\<lambda>(amount, asset).
                 \<lparr>po_WithdrawalID = withdrawalID, po_Txid = txid, po_OpIndex = 0, po_SteemBlock = blockNum,
                  po_SteemTimestamp = sb_Timestamp block, po_Destination = tr_To x, po_Memo = tr_Memo x,
                  po_AmountMillisteem = amount, po_Asset = asset\<rparr>)
               (bridged_amount (tr_Amount x) steemSymbol sbdSymbol))
      | _ \<Rightarrow> None)"

definition ExtractGatewayPayouts :: "u64 \<Rightarrow> steem_block \<Rightarrow> string \<Rightarrow> string \<Rightarrow> string \<Rightarrow> payout list" where
  "ExtractGatewayPayouts blockNum block gateway steemSymbol sbdSymbol =
     List.map_filter (extract_payout blockNum block gateway steemSymbol sbdSymbol) (enumerate 0 (sb_Transactions block))"

section \<open>Routing\<close>

datatype memo_intent = IntentDeposit | IntentRegister

definition RouteMemo :: "string \<Rightarrow> memo_intent" where
  "RouteMemo memo =
     (let trimmed = TrimSpace memo in
      if trimmed = ''svm-register'' \<or> HasPrefix trimmed ''svm-register '' \<or> HasPrefix trimmed (''svm-register'' @ [CHR 0x09])
      then IntentRegister else IntentDeposit)"

definition BuildMsg :: "scanned_transfer \<Rightarrow> memo_intent \<Rightarrow> string \<Rightarrow> string \<Rightarrow> bridge_msg" where
  "BuildMsg t intent0 validator gateway =
     (let intent = (if t_Asset t = BRIDGE_ASSET_SBD then IntentDeposit else intent0) in
      case intent of
        IntentRegister \<Rightarrow>
          MsgSubmitNameRegistration
            \<lparr>sn_Validator = validator, sn_Txid = t_Txid t, sn_OpIndex = t_OpIndex t, sn_SteemBlock = t_SteemBlock t,
             sn_SteemTimestamp = t_SteemTimestamp t, sn_SteemAccount = t_From t, sn_GatewayAccount = gateway,
             sn_AmountMillisteem = t_AmountMillisteem t, sn_Memo = t_Memo t\<rparr>
      | IntentDeposit \<Rightarrow>
          MsgAttestDeposit
            \<lparr>ad_Validator = validator, ad_Txid = t_Txid t, ad_OpIndex = t_OpIndex t, ad_SteemBlock = t_SteemBlock t,
             ad_SteemTimestamp = t_SteemTimestamp t, ad_SteemSender = t_From t, ad_GatewayAccount = gateway,
             ad_AmountMillisteem = t_AmountMillisteem t, ad_Memo = t_Memo t, ad_Asset = t_Asset t\<rparr>)"

definition comparePayout :: "payout \<Rightarrow> withdrawal \<Rightarrow> bool \<times> string" where
  "comparePayout p w =
     (if po_Destination p \<noteq> w_DestinationSteemAccount w then (False, ''recipient differs'')
      else if po_Memo p \<noteq> w_Memo w then (False, ''memo differs'')
      else if po_AmountMillisteem p \<noteq> w_AmountMillisteem w then (False, ''amount differs'')
      else if po_Asset p \<noteq> w_Asset w then (False, ''asset differs'')
      else (True, ''''))"

definition payoutMsg :: "payout \<Rightarrow> string \<Rightarrow> msg_attest_payout" where
  "payoutMsg p validator =
     \<lparr>ap_Validator = validator, ap_WithdrawalId = po_WithdrawalID p, ap_SteemBlock = po_SteemBlock p,
      ap_SteemTimestamp = po_SteemTimestamp p, ap_SteemTxid = po_Txid p, ap_OpIndex = po_OpIndex p,
      ap_AmountMillisteem = po_AmountMillisteem p, ap_Asset = po_Asset p,
      ap_DestinationSteemAccount = po_Destination p, ap_Memo = po_Memo p\<rparr>"

section \<open>Amounts are read exactly\<close>

lemma digits_val_ge: "n \<le> digits_val n s"
proof (induction n s rule: digits_val.induct)
  case (2 n c cs)
  have "n \<le> 10 * n + (of_char c - 48)" by simp
  with 2 show ?case unfolding digits_val.simps by (rule le_trans[rotated])
qed simp

lemma milli_digits_spec:
  assumes "list_all is_digit s"
  shows "milli_digits r s = (if s = [] \<or> digits_val (unat r) (butlast s) \<le> 922337203685477580
    then Some (of_nat (digits_val (unat r) s)) else None)"
  using assms
proof (induction s arbitrary: r)
  case (Cons c s)
  let ?d = "of_char c - 48 :: nat"
  have d: "?d < 10" using Cons.prems by (auto simp: is_digit_def)
  show ?case
  proof (cases "r > 922337203685477580")
    case True
    then have "922337203685477580 < unat r" by (simp add: word_less_nat_alt)
    with digits_val_ge[of "unat r" "butlast (c # s)"]
    have "922337203685477580 < digits_val (unat r) (butlast (c # s))" by (rule less_le_trans[rotated])
    with True Cons.prems show ?thesis by simp
  next
    case False
    then have r: "unat r \<le> 922337203685477580" by (simp add: word_less_nat_alt not_less)
    then have "unat r * 10 + ?d < 2 ^ 64" using d by simp
    moreover have "r * 10 + of_nat ?d = of_nat (unat r * 10 + ?d)" by (simp only: of_nat_add of_nat_mult word_of_nat_eq_iff unat_of_nat) simp
    ultimately have u: "unat (r * 10 + of_nat ?d) = 10 * unat r + ?d"
      by (simp only: unat_of_nat) (simp add: take_bit_nat_eq_self)
    have le: "digits_val (unat r) [] \<le> 922337203685477580" using r by simp
    show ?thesis
    proof (cases "s = []")
      case True
      with False Cons.prems r show ?thesis by simp
    next
      case sne: False
      with Cons.IH[of "r * 10 + of_nat ?d"] Cons.prems False u show ?thesis by simp
    qed
  qed
qed simp

lemma milli_digits_value:
  assumes "list_all is_digit s" "milli_digits r s = Some x"
  shows "unat x = digits_val (unat r) s"
proof (cases "s = []")
  case False
  with assms milli_digits_spec[OF assms(1), of r]
  have x: "x = of_nat (digits_val (unat r) s)" and b: "digits_val (unat r) (butlast s) \<le> 922337203685477580"
    by (auto split: if_splits)
  obtain t c where s: "s = t @ [c]" using False by (cases s rule: rev_exhaust) auto
  have "(of_char c - 48 :: nat) < 10" using assms(1) s by (auto simp: is_digit_def)
  then have "digits_val (unat r) s < 2 ^ 64" using b s by (simp add: digits_val_append)
  then show ?thesis by (simp add: x unat_of_nat)
qed (use assms in simp)

lemma milli_digits_only: "milli_digits r s = Some x \<Longrightarrow> list_all is_digit s"
  by (induction r s rule: milli_digits.induct) (auto split: if_splits)

definition plain_symbol :: "string \<Rightarrow> bool" where
  "plain_symbol symbol \<longleftrightarrow> symbol \<noteq> '''' \<and> (\<forall>c\<in>set symbol. visible c)"

lemma ParseSteemAmount_FormatMilli:
  assumes "plain_symbol symbol"
  shows "ParseSteemAmount (FormatMilli m symbol) symbol' =
    (if symbol' = symbol \<and> unat m div 10 \<le> 922337203685477580 then Some m else None)"
proof -
  let ?w = "FormatUint (unat m div 1000)" and ?f = "padn 3 (unat m mod 1000)"
  have dig: "\<forall>c \<in> set ?w. is_digit c" "\<forall>c \<in> set ?f. is_digit c"
    using FormatUint_digits padn_digits by blast+
  have len: "length ?f = 3" by (rule length_padn) simp_all
  have nosp: "CHR '' '' \<notin> set (?w @ ''.'' @ ?f)" "CHR '' '' \<notin> set symbol" "CHR ''.'' \<notin> set ?w"
    using dig assms by (auto simp: is_digit_def plain_symbol_def visible_def)
  have "visible (hd (FormatMilli m symbol))"
    using dig(1) by (simp add: FormatMilli_def hd_append digit_visible)
  moreover have "visible (last (FormatMilli m symbol))"
    using assms by (simp add: FormatMilli_def plain_symbol_def)
  ultimately have "TrimSpace (FormatMilli m symbol) = (?w @ ''.'' @ ?f) @ [CHR '' ''] @ symbol"
    by (subst TrimSpace_visible) (simp_all add: FormatMilli_def)
  then have sp: "Split (CHR '' '') (TrimSpace (FormatMilli m symbol)) = [?w @ ''.'' @ ?f, symbol]"
    using Split_append_sep[OF nosp(1), of symbol] nosp(2) by (simp add: Split_no_sep)
  have cut: "Cut (CHR ''.'') (?w @ ''.'' @ ?f) = Some (?w, ?f)" using Cut_append[OF nosp(3)] by simp
  have all: "list_all is_digit (?w @ ?f)" using dig by (auto simp: list_all_iff)
  have val: "digits_val 0 (?w @ ?f) = unat m"
    by (simp add: digits_val_append digits_val_FormatUint digits_val_acc[of "unat m div 1000"] padn_val len)
  obtain t c where t: "?w @ ?f = t @ [c]" using len by (cases "?w @ ?f" rule: rev_exhaust) auto
  have c: "(of_char c - 48 :: nat) < 10" using all unfolding t by (auto simp: is_digit_def)
  have "digits_val 0 t = unat m div 10" using val c unfolding t by (simp add: digits_val_append)
  then have "milli_digits 0 (?w @ ?f) = (if unat m div 10 \<le> 922337203685477580 then Some m else None)"
    using milli_digits_spec[OF all, of 0] val t by (simp add: t)
  with sp cut len show ?thesis by (simp add: ParseSteemAmount_def)
qed

text \<open>
  C36: The relayer reads amounts exactly. What the signers print for a payout it reads back to the last
  digit, under no other symbol, up to \<open>9223372036854775809\<close> millisteem; beyond that it reads nothing,
  and never a number that has wrapped around.
\<close>

theorem relayer_reads_amounts_exactly:
  assumes "plain_symbol symbol"
  shows "ParseSteemAmount (FormatMilli m symbol) symbol' =
    (if symbol' = symbol \<and> m \<le> 9223372036854775809 then Some m else None)"
proof -
  have "unat m div 10 \<le> 922337203685477580 \<longleftrightarrow> m \<le> 9223372036854775809" by (simp add: word_le_nat_alt) linarith
  then show ?thesis by (simp add: ParseSteemAmount_FormatMilli[OF assms])
qed

lemma relayer_reads_amounts_exactly_witness:
  "ParseSteemAmount (FormatMilli 70561 ''STEEM'') ''STEEM'' = Some 70561"
  using relayer_reads_amounts_exactly[of "''STEEM''" 70561 "''STEEM''"] by (simp add: plain_symbol_def visible_def)

section \<open>Payouts are recognised\<close>

text \<open>An operation of a signed transaction as a Steem node reports it.\<close>

fun steem_op_of :: "op_value \<Rightarrow> steem_op" where
  "steem_op_of (OpTransfer x) = SteemTransferOp x"
| "steem_op_of (OpCustomJSON c) = SteemCustomJSONOp c"
| "steem_op_of _ = SteemOtherOp"

definition asset_symbol :: "string \<Rightarrow> string \<Rightarrow> bridge_asset \<Rightarrow> string" where
  "asset_symbol steemSymbol sbdSymbol a = (if a = BRIDGE_ASSET_SBD then sbdSymbol else steemSymbol)"

definition symbols_ok :: "string \<Rightarrow> string \<Rightarrow> bool" where
  "symbols_ok steemSymbol sbdSymbol \<longleftrightarrow> plain_symbol steemSymbol \<and> plain_symbol sbdSymbol \<and> steemSymbol \<noteq> sbdSymbol"

lemma bridged_amount_FormatMilli:
  assumes "symbols_ok steemSymbol sbdSymbol" "m \<le> 9223372036854775809" "a = BRIDGE_ASSET_STEEM \<or> a = BRIDGE_ASSET_SBD"
  shows "bridged_amount (FormatMilli m (asset_symbol steemSymbol sbdSymbol a)) steemSymbol sbdSymbol =
    Some (m, a)"
proof -
  have "unat m div 10 \<le> 922337203685477580" using assms(2) by (simp add: word_le_nat_alt)
  with assms(1) show ?thesis
    using assms(3) by (auto simp: bridged_amount_def asset_symbol_def symbols_ok_def ParseSteemAmount_FormatMilli plain_symbol_def
        BRIDGE_ASSET_STEEM_def BRIDGE_ASSET_SBD_def)
qed

lemma PayoutOf_shape:
  assumes "PayoutOf tx account = Some (x, i)"
  obtains c where "map op_Value (tx_Operations tx) = [OpTransfer x, OpCustomJSON c]" "ParsePayoutLink c account = Some i"
  using assms by (auto simp: PayoutOf_def split: list.splits op_value.splits)

lemma payout_extracted:
  assumes "PayoutOf tx gateway = Some (\<lparr>tr_From = gateway, tr_To = dest, tr_Amount = FormatMilli m (asset_symbol steemSymbol sbdSymbol a),
      tr_Memo = memo\<rparr>, i)"
    and "stx_Operations stx = map (steem_op_of \<circ> op_Value) (tx_Operations tx)"
    and "symbols_ok steemSymbol sbdSymbol" "m \<le> 9223372036854775809" "a = BRIDGE_ASSET_STEEM \<or> a = BRIDGE_ASSET_SBD"
      "block_txid block k stx \<noteq> ''''"
  shows "extract_payout num block gateway steemSymbol sbdSymbol (k, stx) =
    Some \<lparr>po_WithdrawalID = i, po_Txid = block_txid block k stx, po_OpIndex = 0, po_SteemBlock = num,
      po_SteemTimestamp = sb_Timestamp block, po_Destination = dest, po_Memo = memo, po_AmountMillisteem = m, po_Asset = a\<rparr>"
proof -
  obtain c where c: "map op_Value (tx_Operations tx) = [OpTransfer \<lparr>tr_From = gateway, tr_To = dest,
      tr_Amount = FormatMilli m (asset_symbol steemSymbol sbdSymbol a), tr_Memo = memo\<rparr>, OpCustomJSON c]"
    "ParsePayoutLink c gateway = Some i"
    by (rule PayoutOf_shape[OF assms(1)])
  have "stx_Operations stx = map steem_op_of (map op_Value (tx_Operations tx))" using assms(2) by simp
  with c assms(6) bridged_amount_FormatMilli[OF assms(3-5)] show ?thesis by (simp add: extract_payout_def)
qed

lemma payout_matches:
  assumes "comparePayout p w = (True, why)"
  shows "payoutMatches w (payoutMsg p v)"
  using assms by (auto simp: comparePayout_def payoutMatches_def payoutMsg_def split: if_splits)

end
