(* ===== verification/Bridge_Query.thy ===== *)
theory Bridge_Query
  imports Bridge_Ante
begin

text \<open>
  The query server of the bridge (\<open>x/oracle/bridge/keeper/query*.go\<close>). A request is an option, as it is
  a pointer. \<open>CollectionPaginate\<close> belongs to the Cosmos SDK and is an argument of every listing: it
  receives the keys of the collection (those with the prefix, where the source passes one), the page
  request and the function that turns a key into a result. What a query lists is proved for a paginator
  that pages through its keys in order.
\<close>

section \<open>Requests and pages\<close>

datatype query_error = InvalidArgument string | Internal svm_error | NotFound svm_error | ErrKeyNotFound

type_synonym 'a qres = "query_error + 'a"

record page_request =
  pg_Key :: bytes
  pg_Limit :: nat

type_synonym ('k, 'v) paginator =
  "'k list \<Rightarrow> page_request \<Rightarrow> ('k \<Rightarrow> 'v res) \<Rightarrow> ('v list \<times> bytes) res"

definition valid_request :: "'r option \<Rightarrow> 'r qres" where
  "valid_request req = from_option (InvalidArgument ''invalid request'') req"

definition internal :: "'a res \<Rightarrow> 'a qres" where
  "internal r = (case r of Inl e \<Rightarrow> Inl (Internal e) | Inr x \<Rightarrow> Inr x)"

definition with_prefix :: "'p \<Rightarrow> ('p \<times> 'k) kset \<Rightarrow> ('p \<times> 'k) list" where
  "with_prefix p index = filter (\<lambda>k. fst k = p) index"

section \<open>Parameters and totals\<close>

definition zero_params :: bridge_params where
  "zero_params = \<lparr>BridgeEnabled = False, BridgeOutEnabled = False, bp_GatewayAccount = '''', BridgeConfirmationThreshold = None,
     MinimumBridgeAmount = 0, MaximumBridgeAmount = 0, DepositTimeoutBlocks = 0, NameServiceEnabled = False,
     NameRegistrationMinMillisteem = 0, NamePendingTimeoutBlocks = 0, RelayerStartBlock = 0, BridgeFeeBps = 0,
     WithdrawalTimeoutBlocks = 0, RelayerStartBlockId = ''''\<rparr>"

definition query_Params :: "unit option \<Rightarrow> 'b bridge_state \<Rightarrow> bridge_params qres" where
  "query_Params req s =
     rbind (valid_request req) (\<lambda>_. Inr (case b_Params s of None \<Rightarrow> zero_params | Some p \<Rightarrow> p))"

record bridge_statistics =
  bs_TotalMintedAsteem :: int
  bs_TotalBurnedAsteem :: int
  bs_NetOutstanding :: int

definition query_BridgeStatistics :: "unit option \<Rightarrow> 'b bridge_state \<Rightarrow> bridge_statistics qres" where
  "query_BridgeStatistics req s =
     rbind (valid_request req) (\<lambda>_.
     rbind (internal (from_option ErrNotFound (Totals s))) (\<lambda>t.
     Inr \<lparr>bs_TotalMintedAsteem = TotalMintedAsteem t, bs_TotalBurnedAsteem = TotalBurnedAsteem t,
          bs_NetOutstanding = TotalMintedAsteem t - TotalBurnedAsteem t\<rparr>))"

section \<open>Deposits\<close>

definition query_GetDeposit :: "u64 option \<Rightarrow> 'b bridge_state \<Rightarrow> deposit qres" where
  "query_GetDeposit req s =
     rbind (valid_request req) (\<lambda>i. from_option ErrKeyNotFound (kv_get (Deposit s) i))"

definition query_DepositByTxid :: "(string \<times> u32) option \<Rightarrow> 'b bridge_state \<Rightarrow> deposit qres" where
  "query_DepositByTxid req s =
     rbind (valid_request req) (\<lambda>(txid, opIndex).
     rbind (internal (lookupDepositByTxid txid opIndex s)) (from_option ErrKeyNotFound))"

definition query_ListDeposit ::
    "(u64 \<times> deposit, deposit) paginator \<Rightarrow> page_request option \<Rightarrow> 'b bridge_state \<Rightarrow> (deposit list \<times> bytes) qres" where
  "query_ListDeposit paginate req s =
     rbind (valid_request req) (\<lambda>page. internal (paginate (Deposit s) page (\<lambda>kv. Inr (snd kv))))"

definition deposits_by_status ::
    "(int \<times> u64, deposit) paginator \<Rightarrow> DepositStatus \<Rightarrow> page_request option \<Rightarrow> 'b bridge_state \<Rightarrow> (deposit list \<times> bytes) qres" where
  "deposits_by_status paginate st req s =
     rbind (valid_request req) (\<lambda>page.
     internal (paginate (with_prefix (dstat st) (DepositByStatus s)) page
       (\<lambda>key. from_option ErrNotFound (kv_get (Deposit s) (snd key)))))"

definition query_PendingDeposits ::
    "(int \<times> u64, deposit) paginator \<Rightarrow> page_request option \<Rightarrow> 'b bridge_state \<Rightarrow> (deposit list \<times> bytes) qres" where
  "query_PendingDeposits paginate = deposits_by_status paginate DEPOSIT_STATUS_PENDING"

definition query_MintedDeposits ::
    "(int \<times> u64, deposit) paginator \<Rightarrow> page_request option \<Rightarrow> 'b bridge_state \<Rightarrow> (deposit list \<times> bytes) qres" where
  "query_MintedDeposits paginate = deposits_by_status paginate DEPOSIT_STATUS_MINTED"

section \<open>Withdrawals\<close>

definition query_GetWithdrawal :: "u64 option \<Rightarrow> 'b bridge_state \<Rightarrow> withdrawal qres" where
  "query_GetWithdrawal req s =
     rbind (valid_request req) (\<lambda>i. from_option ErrKeyNotFound (kv_get (Withdrawal s) i))"

definition query_ListWithdrawal ::
    "(u64 \<times> withdrawal, withdrawal) paginator \<Rightarrow> page_request option \<Rightarrow> 'b bridge_state \<Rightarrow> (withdrawal list \<times> bytes) qres" where
  "query_ListWithdrawal paginate req s =
     rbind (valid_request req) (\<lambda>page. internal (paginate (Withdrawal s) page (\<lambda>kv. Inr (snd kv))))"

definition withdrawals_by_status ::
    "(int \<times> u64, withdrawal) paginator \<Rightarrow> WithdrawalStatus \<Rightarrow> page_request option \<Rightarrow> 'b bridge_state \<Rightarrow>
     (withdrawal list \<times> bytes) qres" where
  "withdrawals_by_status paginate st req s =
     rbind (valid_request req) (\<lambda>page.
     internal (paginate (with_prefix (wstat st) (WithdrawalByStatus s)) page
       (\<lambda>key. from_option ErrNotFound (kv_get (Withdrawal s) (snd key)))))"

definition query_RequestedWithdrawals ::
    "(int \<times> u64, withdrawal) paginator \<Rightarrow> page_request option \<Rightarrow> 'b bridge_state \<Rightarrow> (withdrawal list \<times> bytes) qres" where
  "query_RequestedWithdrawals paginate = withdrawals_by_status paginate WITHDRAWAL_STATUS_REQUESTED"

definition query_ProcessedWithdrawals ::
    "(int \<times> u64, withdrawal) paginator \<Rightarrow> page_request option \<Rightarrow> 'b bridge_state \<Rightarrow> (withdrawal list \<times> bytes) qres" where
  "query_ProcessedWithdrawals paginate = withdrawals_by_status paginate WITHDRAWAL_STATUS_PROCESSED"

section \<open>Names\<close>

definition query_NameRegistration :: "u64 option \<Rightarrow> 'b bridge_state \<Rightarrow> name_registration qres" where
  "query_NameRegistration req s =
     rbind (valid_request req) (\<lambda>i. from_option ErrKeyNotFound (kv_get (NameRegistration s) i))"

definition query_NameRegistrationByTxid :: "(string \<times> u32) option \<Rightarrow> 'b bridge_state \<Rightarrow> name_registration qres" where
  "query_NameRegistrationByTxid req s =
     rbind (valid_request req) (\<lambda>(txid, opIndex).
     rbind (internal (lookupNameRegistrationByTxid txid opIndex s)) (from_option ErrKeyNotFound))"

definition registrations_of ::
    "('p \<times> u64, name_registration) paginator \<Rightarrow> 'p \<Rightarrow> ('p \<times> u64) kset \<Rightarrow> page_request \<Rightarrow> 'b bridge_state \<Rightarrow>
     (name_registration list \<times> bytes) qres" where
  "registrations_of paginate p index page s =
     internal (paginate (with_prefix p index) page
       (\<lambda>key. from_option ErrNotFound (kv_get (NameRegistration s) (snd key))))"

definition query_PendingNameRegistrations ::
    "(int \<times> u64, name_registration) paginator \<Rightarrow> page_request option \<Rightarrow> 'b bridge_state \<Rightarrow> (name_registration list \<times> bytes) qres" where
  "query_PendingNameRegistrations paginate req s =
     rbind (valid_request req) (\<lambda>page.
     registrations_of paginate (nstat NAME_REGISTRATION_STATUS_PENDING) (NameRegistrationByStatus s) page s)"

definition query_AwaitingNameRegistrations ::
    "(int \<times> u64, name_registration) paginator \<Rightarrow> page_request option \<Rightarrow> 'b bridge_state \<Rightarrow> (name_registration list \<times> bytes) qres" where
  "query_AwaitingNameRegistrations paginate req s =
     rbind (valid_request req) (\<lambda>page.
     registrations_of paginate (nstat NAME_REGISTRATION_STATUS_AWAITING_CONFIRMATION) (NameRegistrationByStatus s) page s)"

definition query_NameRegistrationsByAccount ::
    "(string \<times> u64, name_registration) paginator \<Rightarrow> (string \<times> page_request) option \<Rightarrow> 'b bridge_state \<Rightarrow>
     (name_registration list \<times> bytes) qres" where
  "query_NameRegistrationsByAccount paginate req s =
     rbind (valid_request req) (\<lambda>(steemAccount, page).
     registrations_of paginate steemAccount (NameRegistrationByAccount s) page s)"

definition query_AwaitingNameRegistrationsByDestination ::
    "env \<Rightarrow> (bytes \<times> u64, name_registration) paginator \<Rightarrow> (string \<times> page_request) option \<Rightarrow> 'b bridge_state \<Rightarrow>
     (name_registration list \<times> bytes) qres" where
  "query_AwaitingNameRegistrationsByDestination E paginate req s =
     rbind (valid_request req) (\<lambda>(address, page).
     case parseAddressArg E address of
       Inl e \<Rightarrow> Inl (InvalidArgument ''invalid address'')
     | Inr addr \<Rightarrow> registrations_of paginate addr (NameRegistrationAwaitingByDest s) page s)"

definition query_ResolveName :: "string option \<Rightarrow> 'b bridge_state \<Rightarrow> name_record qres" where
  "query_ResolveName req s =
     rbind (valid_request req) (\<lambda>name. from_option ErrKeyNotFound (kv_get (ActiveName s) name))"

definition query_NamesByAddress ::
    "env \<Rightarrow> (bytes \<times> string, name_record) paginator \<Rightarrow> (string \<times> page_request) option \<Rightarrow> 'b bridge_state \<Rightarrow>
     (name_record list \<times> bytes) qres" where
  "query_NamesByAddress E paginate req s =
     rbind (valid_request req) (\<lambda>(address, page).
     case parseAddressArg E address of
       Inl e \<Rightarrow> Inl (InvalidArgument ''invalid address'')
     | Inr addr \<Rightarrow>
         internal (paginate (with_prefix addr (ActiveNameByAddress s)) page
           (\<lambda>key. from_option ErrNotFound (kv_get (ActiveName s) (snd key)))))"

definition query_ValidatorIdentity :: "env \<Rightarrow> string option \<Rightarrow> ValidatorIdentity qres" where
  "query_ValidatorIdentity E req =
     rbind (valid_request req) (\<lambda>validatorAddress.
     case parseAddressArg E validatorAddress of
       Inl e \<Rightarrow> Inl (InvalidArgument ''invalid validator address'')
     | Inr addr \<Rightarrow>
         (case GetValidatorIdentity E addr of
            Inl e \<Rightarrow> Inl (NotFound e)
          | Inr identity \<Rightarrow> Inr identity))"

section \<open>What a listing lists\<close>

fun rmap :: "('a \<Rightarrow> 'e + 'b) \<Rightarrow> 'a list \<Rightarrow> 'e + 'b list" where
  "rmap f [] = Inr []"
| "rmap f (x # xs) = rbind (f x) (\<lambda>y. rbind (rmap f xs) (\<lambda>ys. Inr (y # ys)))"

lemma rmap_Inr: "(\<And>x. x \<in> set xs \<Longrightarrow> f x = Inr (g x)) \<Longrightarrow> rmap f xs = Inr (map g xs)"
  by (induction xs) simp_all

text \<open>
  The documented behaviour of \<open>CollectionPaginate\<close>: a page holds the results for the next \<open>limit\<close> keys
  from the position its key stands for, and the key of the next page, which is empty after the last.
\<close>

definition pages_through :: "('k, 'v) paginator \<Rightarrow> bool" where
  "pages_through paginate \<longleftrightarrow>
     (\<exists>enc. enc 0 = [] \<and> (\<forall>pos. pos \<noteq> 0 \<longrightarrow> enc pos \<noteq> []) \<and>
        (\<forall>ks f limit pos. limit \<noteq> 0 \<longrightarrow> pos \<le> length ks \<longrightarrow>
           paginate ks \<lparr>pg_Key = enc pos, pg_Limit = limit\<rparr> f =
             rbind (rmap f (take limit (drop pos ks)))
               (\<lambda>vs. Inr (vs, if pos + limit < length ks then enc (pos + limit) else []))))"

text \<open>The records with a given status, in the order of their identifiers.\<close>

definition records_with :: "('r \<Rightarrow> int) \<Rightarrow> int \<Rightarrow> (u64, 'r) kv \<Rightarrow> (u64 \<times> 'r) list" where
  "records_with rstat n recs = filter (\<lambda>ir. rstat (snd ir) = n) recs"

lemma sorted_wrt_map_fst: "sorted_wrt (<) (map fst m) \<Longrightarrow> sorted_wrt (<) (map fst (filter P m))"
  by (induction m) auto

lemma status_index:
  fixes recs :: "(u64, 'r) kv"
  assumes "kv_wf recs" "ks_wf byStatus"
    and "\<And>n i. ks_has byStatus (n, i) \<longleftrightarrow> (\<exists>r. kv_get recs i = Some r \<and> rstat r = n)"
  shows "with_prefix n byStatus = map (\<lambda>ir. (n, fst ir)) (records_with rstat n recs)"
proof (rule strict_sorted_equal)
  show "sorted_wrt (<) (with_prefix n byStatus)"
    using assms(2) by (simp add: with_prefix_def ks_wf_def sorted_wrt_filter)
  have "sorted_wrt (<) (map fst (records_with rstat n recs))"
    using assms(1) unfolding records_with_def kv_wf_def by (rule sorted_wrt_map_fst)
  then show "sorted_wrt (<) (map (\<lambda>ir. (n, fst ir)) (records_with rstat n recs))"
    by (simp add: sorted_wrt_map)
  show "set (with_prefix n byStatus) = set (map (\<lambda>ir. (n, fst ir)) (records_with rstat n recs))"
  proof (rule set_eqI)
    fix x :: "int \<times> u64"
    obtain m i where x: "x = (m, i)" by force
    have "x \<in> set (with_prefix n byStatus) \<longleftrightarrow> m = n \<and> ks_has byStatus (n, i)"
      by (auto simp: with_prefix_def ks_has_def x)
    also have "\<dots> \<longleftrightarrow> m = n \<and> (\<exists>r. (i, r) \<in> set recs \<and> rstat r = n)"
      using assms(3) kv_wf_get_iff[OF assms(1)] by simp
    finally show "x \<in> set (with_prefix n byStatus) \<longleftrightarrow> x \<in> set (map (\<lambda>ir. (n, fst ir)) (records_with rstat n recs))"
      by (force simp: records_with_def x)
  qed
qed

lemma status_page:
  fixes recs :: "(u64, 'r) kv"
  assumes "kv_wf recs" "ks_wf byStatus"
    and "\<And>n i. ks_has byStatus (n, i) \<longleftrightarrow> (\<exists>r. kv_get recs i = Some r \<and> rstat r = n)"
  shows "rmap (\<lambda>key. from_option ErrNotFound (kv_get recs (snd key))) (take l (drop k (with_prefix n byStatus))) =
    Inr (map snd (take l (drop k (records_with rstat n recs))))"
proof -
  have get: "kv_get recs i = Some r" if "(i, r) \<in> set (take l (drop k (records_with rstat n recs)))" for i r
  proof -
    have "(i, r) \<in> set (records_with rstat n recs)" using that by (meson in_set_dropD in_set_takeD)
    then show ?thesis using kv_wf_get_iff[OF assms(1)] by (simp add: records_with_def)
  qed
  have "rmap (\<lambda>key. from_option ErrNotFound (kv_get recs (snd key))) (map (\<lambda>ir. (n, fst ir)) xs) = Inr (map snd xs)"
    if "\<And>i r. (i, r) \<in> set xs \<Longrightarrow> kv_get recs i = Some r" for xs :: "(u64 \<times> 'r) list"
    using that
  proof (induction xs)
    case (Cons ir xs)
    from Cons.prems[of "fst ir" "snd ir"] have "kv_get recs (fst ir) = Some (snd ir)" by simp
    moreover have "rmap (\<lambda>key. from_option ErrNotFound (kv_get recs (snd key))) (map (\<lambda>ir. (n, fst ir)) xs) = Inr (map snd xs)"
      by (rule Cons.IH) (simp add: Cons.prems)
    ultimately show ?case by simp
  qed simp
  with get show ?thesis unfolding status_index[OF assms] by (simp add: drop_map take_map)
qed

lemma withdrawals_page:
  assumes "withdrawal_inv s" "pages_through paginate"
  obtains enc where "enc 0 = []" "\<And>pos. pos \<noteq> 0 \<Longrightarrow> enc pos \<noteq> ([] :: bytes)"
    "\<And>limit pos. limit \<noteq> 0 \<Longrightarrow> pos \<le> length (records_with (\<lambda>w. wstat (w_Status w)) (wstat st) (Withdrawal s)) \<Longrightarrow>
       withdrawals_by_status paginate st (Some \<lparr>pg_Key = enc pos, pg_Limit = limit\<rparr>) s =
         Inr (map snd (take limit (drop pos (records_with (\<lambda>w. wstat (w_Status w)) (wstat st) (Withdrawal s)))),
              if pos + limit < length (records_with (\<lambda>w. wstat (w_Status w)) (wstat st) (Withdrawal s))
              then enc (pos + limit) else [])"
proof -
  have inv: "kv_wf (Withdrawal s)" "ks_wf (WithdrawalByStatus s)"
    "\<And>n i. ks_has (WithdrawalByStatus s) (n, i) \<longleftrightarrow> (\<exists>r. kv_get (Withdrawal s) i = Some r \<and> wstat (w_Status r) = n)"
    using assms(1) by (simp_all add: withdrawal_inv_def rows_ok_def)
  note idx = status_index[OF inv, of "wstat st"]
  obtain enc where enc: "enc 0 = []" "\<And>pos. pos \<noteq> 0 \<Longrightarrow> enc pos \<noteq> ([] :: bytes)"
    "\<And>ks f limit pos. limit \<noteq> 0 \<Longrightarrow> pos \<le> length ks \<Longrightarrow> paginate ks \<lparr>pg_Key = enc pos, pg_Limit = limit\<rparr> f =
       rbind (rmap f (take limit (drop pos ks))) (\<lambda>vs. Inr (vs, if pos + limit < length ks then enc (pos + limit) else []))"
    using assms(2) unfolding pages_through_def by metis
  show ?thesis
    by (rule that[of enc])
      (use enc status_page[OF inv, of _ _ "wstat st"] in \<open>simp_all add: withdrawals_by_status_def valid_request_def internal_def idx\<close>)
qed

end
