(* ===== verification/Multisig_View.thy ===== *)
theory Multisig_View
  imports Multisig_Chain
begin

text \<open>
  Ballots (\<open>multisig/ballot.go\<close>) and the view every signer derives from them (\<open>multisig/view.go\<close>):
  which proposals are genuine, how the current members voted, the status of each, and the
  signatures with which a ready one is executed. A Go map is a store in key order; where the code
  ranges over a map the result does not depend on the order, except for ties in \<open>dropOldest\<close>, which
  the model breaks by key. The JSON forms are not modelled; the size of an encoded ballot is an
  argument of \<open>ballot_Prune\<close>.
\<close>

section \<open>Ballots\<close>

record stored_proposal =
  sp_T :: string
  sp_Tx :: transaction
  sp_C :: string

record vote =
  vt_A :: int
  vt_S :: string
  vt_X :: string

record ballot =
  bl_Props :: "(string, stored_proposal) kv"
  bl_Votes :: "(string, vote) kv"

definition maxBallotBytes :: nat where "maxBallotBytes = 40 * 1024"

definition parsed_before :: "instant \<Rightarrow> string \<Rightarrow> bool" where
  "parsed_before t s \<longleftrightarrow> (case time_Parse s of Some u \<Rightarrow> Before u t | None \<Rightarrow> False)"

text \<open>The closure \<open>consider\<close>: (ID, expiry, whether it is a proposal) of the oldest so far.\<close>

definition consider_oldest ::
  "instant \<Rightarrow> string \<Rightarrow> string \<Rightarrow> bool \<Rightarrow> string \<times> instant \<times> bool \<Rightarrow> string \<times> instant \<times> bool" where
  "consider_oldest now i x isProp oldest =
     (case time_Parse x of
        None \<Rightarrow> oldest
      | Some t \<Rightarrow>
        if \<not> Before t now then oldest
        else if fst oldest = [] \<or> Before t (fst (snd oldest)) then (i, t, isProp) else oldest)"

definition oldest_entry :: "instant \<Rightarrow> ballot \<Rightarrow> string \<times> instant \<times> bool" where
  "oldest_entry now b =
     fold (\<lambda>(i, v). consider_oldest now i (vt_X v) False) (bl_Votes b)
       (fold (\<lambda>(i, p). consider_oldest now i (tx_Expiration (sp_Tx p)) True) (bl_Props b) ([], 0, False))"

definition dropOldest :: "instant \<Rightarrow> ballot \<Rightarrow> bool \<times> ballot" where
  "dropOldest now b =
     (let (i, t, isProp) = oldest_entry now b in
      if i = [] then (False, b)
      else if isProp then (True, b\<lparr>bl_Props := kv_remove i (bl_Props b)\<rparr>)
      else (True, b\<lparr>bl_Votes := kv_remove i (bl_Votes b)\<rparr>))"

definition drop_expired :: "instant \<Rightarrow> ballot \<Rightarrow> ballot" where
  "drop_expired now b =
     (let late = now - PruneAfter in
      b\<lparr>bl_Props := filter (\<lambda>(i, p). \<not> parsed_before late (tx_Expiration (sp_Tx p))) (bl_Props b),
        bl_Votes := filter (\<lambda>(i, v). \<not> parsed_before late (vt_X v)) (bl_Votes b)\<rparr>)"

text \<open>Whatever is dropped is an entry of the ballot, so the size-driven loop ends.\<close>

definition from_ballot :: "instant \<Rightarrow> ballot \<Rightarrow> string \<times> instant \<times> bool \<Rightarrow> bool" where
  "from_ballot now b e \<longleftrightarrow> fst e = [] \<or>
     (Before (fst (snd e)) now \<and>
      (if snd (snd e)
       then \<exists>p. (fst e, p) \<in> set (bl_Props b) \<and> time_Parse (tx_Expiration (sp_Tx p)) = Some (fst (snd e))
       else \<exists>v. (fst e, v) \<in> set (bl_Votes b) \<and> time_Parse (vt_X v) = Some (fst (snd e))))"

lemma from_ballot_consider:
  assumes "from_ballot now b old"
    and "isProp \<Longrightarrow> \<exists>p. (i, p) \<in> set (bl_Props b) \<and> tx_Expiration (sp_Tx p) = x"
    and "\<not> isProp \<Longrightarrow> \<exists>v. (i, v) \<in> set (bl_Votes b) \<and> vt_X v = x"
  shows "from_ballot now b (consider_oldest now i x isProp old)"
  using assms by (auto simp: from_ballot_def consider_oldest_def split: option.splits if_splits)

lemma fold_invariant:
  assumes "P s" and "\<And>x s. x \<in> set xs \<Longrightarrow> P s \<Longrightarrow> P (f x s)"
  shows "P (fold f xs s)"
  using assms by (induction xs arbitrary: s) auto

lemma oldest_from_ballot: "from_ballot now b (oldest_entry now b)"
proof -
  have "from_ballot now b (fold (\<lambda>(i, p). consider_oldest now i (tx_Expiration (sp_Tx p)) True) (bl_Props b) ([], 0, False))"
  proof (rule fold_invariant[where P = "from_ballot now b"])
    show "from_ballot now b ([], 0, False)" by (simp add: from_ballot_def)
    fix x old
    assume "x \<in> set (bl_Props b)" "from_ballot now b old"
    then show "from_ballot now b ((case x of (i, p) \<Rightarrow> consider_oldest now i (tx_Expiration (sp_Tx p)) True) old)"
      by (auto intro!: from_ballot_consider split: prod.split)
  qed
  then show ?thesis unfolding oldest_entry_def
  proof (rule fold_invariant[where P = "from_ballot now b"])
    fix x old
    assume "x \<in> set (bl_Votes b)" "from_ballot now b old"
    then show "from_ballot now b ((case x of (i, v) \<Rightarrow> consider_oldest now i (vt_X v) False) old)"
      by (auto intro!: from_ballot_consider split: prod.split)
  qed
qed

lemma kv_remove_shorter: "(k, v) \<in> set m \<Longrightarrow> length (kv_remove k m) < length m"
  unfolding kv_remove_def by (rule length_filter_less) auto

definition entries :: "ballot \<Rightarrow> nat" where
  "entries b = length (bl_Props b) + length (bl_Votes b)"

lemma dropOldest_shrinks: "fst (dropOldest now b) \<Longrightarrow> entries (snd (dropOldest now b)) < entries b"
  using oldest_from_ballot[of now b]
  by (auto simp: dropOldest_def from_ballot_def entries_def split: prod.splits if_splits dest!: kv_remove_shorter)

text \<open>\<open>encoded b\<close> is the length of the encoded ballot, \<open>None\<close> if encoding fails.\<close>

function shrink :: "(ballot \<Rightarrow> nat option) \<Rightarrow> instant \<Rightarrow> ballot \<Rightarrow> ballot" where
  "shrink encoded now b =
     (case encoded b of
        None \<Rightarrow> b
      | Some n \<Rightarrow>
        if n \<le> maxBallotBytes then b
        else if fst (dropOldest now b) then shrink encoded now (snd (dropOldest now b)) else b)"
  by pat_completeness auto
termination
  by (relation "measure (\<lambda>(encoded, now, b). entries b)") (auto simp: dropOldest_shrinks)

declare shrink.simps [simp del]

definition ballot_Prune :: "(ballot \<Rightarrow> nat option) \<Rightarrow> instant \<Rightarrow> ballot \<Rightarrow> ballot" where
  "ballot_Prune encoded now b = shrink encoded now (drop_expired now b)"

text \<open>What pruning never touches: the entries that are not expired.\<close>

definition live_kept :: "instant \<Rightarrow> ballot \<Rightarrow> ballot \<Rightarrow> bool" where
  "live_kept now b c \<longleftrightarrow>
     set (bl_Props c) \<subseteq> set (bl_Props b) \<and> set (bl_Votes c) \<subseteq> set (bl_Votes b) \<and>
     (\<forall>(i, p) \<in> set (bl_Props b). \<not> parsed_before now (tx_Expiration (sp_Tx p)) \<longrightarrow> (i, p) \<in> set (bl_Props c)) \<and>
     (\<forall>(i, v) \<in> set (bl_Votes b). \<not> parsed_before now (vt_X v) \<longrightarrow> (i, v) \<in> set (bl_Votes c))"

definition ballot_wf :: "ballot \<Rightarrow> bool" where
  "ballot_wf b \<longleftrightarrow> kv_wf (bl_Props b) \<and> kv_wf (bl_Votes b)"

lemma live_kept_refl: "live_kept now b b"
  by (auto simp: live_kept_def)

lemma live_kept_trans: "live_kept now b c \<Longrightarrow> live_kept now c d \<Longrightarrow> live_kept now b d"
  by (fastforce simp: live_kept_def)

lemma kv_wf_unique: "kv_wf m \<Longrightarrow> (k, v) \<in> set m \<Longrightarrow> (k, w) \<in> set m \<Longrightarrow> v = w"
  by (metis kv_wf_get_iff option.inject)

lemma dropOldest_keeps:
  assumes "ballot_wf b"
  shows "ballot_wf (snd (dropOldest now b))" and "live_kept now b (snd (dropOldest now b))"
proof -
  obtain i t isProp where o: "oldest_entry now b = (i, t, isProp)" by (metis prod_cases3)
  note fb = oldest_from_ballot[of now b, unfolded o]
  show "ballot_wf (snd (dropOldest now b))"
    using assms by (simp add: dropOldest_def o ballot_wf_def)
  consider "i = []" | "i \<noteq> []" "isProp" | "i \<noteq> []" "\<not> isProp" by blast
  then show "live_kept now b (snd (dropOldest now b))"
  proof cases
    case 1
    then show ?thesis by (simp add: dropOldest_def o live_kept_refl)
  next
    case 2
    then obtain p where p: "(i, p) \<in> set (bl_Props b)" "parsed_before now (tx_Expiration (sp_Tx p))"
      using fb by (auto simp: from_ballot_def parsed_before_def)
    have "q = p" if "(i, q) \<in> set (bl_Props b)" for q
      using kv_wf_unique[OF _ that p(1)] assms by (simp add: ballot_wf_def)
    then have "\<forall>(j, q) \<in> set (bl_Props b). \<not> parsed_before now (tx_Expiration (sp_Tx q)) \<longrightarrow> j \<noteq> i"
      using p(2) by auto
    with 2 show ?thesis by (auto simp: dropOldest_def o live_kept_def kv_remove_def)
  next
    case 3
    then obtain v where v: "(i, v) \<in> set (bl_Votes b)" "parsed_before now (vt_X v)"
      using fb by (auto simp: from_ballot_def parsed_before_def)
    have "w = v" if "(i, w) \<in> set (bl_Votes b)" for w
      using kv_wf_unique[OF _ that v(1)] assms by (simp add: ballot_wf_def)
    then have "\<forall>(j, w) \<in> set (bl_Votes b). \<not> parsed_before now (vt_X w) \<longrightarrow> j \<noteq> i"
      using v(2) by auto
    with 3 show ?thesis by (auto simp: dropOldest_def o live_kept_def kv_remove_def)
  qed
qed

lemma drop_expired_keeps:
  "ballot_wf b \<Longrightarrow> ballot_wf (drop_expired now b)"
  "live_kept now b (drop_expired now b)"
  by (auto simp: ballot_wf_def drop_expired_def Let_def kv_wf_filter live_kept_def parsed_before_def
      Before_def PruneAfter_def duration_defs split: option.splits)

text \<open>An expired entry is found: \<open>dropOldest\<close> gives up only when nothing is expired.\<close>

definition named :: "ballot \<Rightarrow> bool" where
  "named b \<longleftrightarrow> [] \<notin> fst ` set (bl_Props b) \<and> [] \<notin> fst ` set (bl_Votes b)"

definition all_live :: "instant \<Rightarrow> ballot \<Rightarrow> bool" where
  "all_live now b \<longleftrightarrow>
     (\<forall>(i, p) \<in> set (bl_Props b). \<not> parsed_before now (tx_Expiration (sp_Tx p))) \<and>
     (\<forall>(i, v) \<in> set (bl_Votes b). \<not> parsed_before now (vt_X v))"

lemma consider_found:
  "i \<noteq> [] \<Longrightarrow> fst old \<noteq> [] \<or> parsed_before now x \<Longrightarrow> fst (consider_oldest now i x isProp old) \<noteq> []"
  by (auto simp: consider_oldest_def parsed_before_def split: option.splits)

lemma fold_found:
  assumes "\<forall>(i, v) \<in> set m. i \<noteq> []" and "fst old \<noteq> [] \<or> (\<exists>(i, v) \<in> set m. parsed_before now (f v))"
  shows "fst (fold (\<lambda>(i, v). consider_oldest now i (f v) isProp) m old) \<noteq> []"
  using assms
proof (induction m arbitrary: old)
  case (Cons e m)
  obtain i v where e: "e = (i, v)" by force
  have "fst (consider_oldest now i (f v) isProp old) \<noteq> [] \<or> (\<exists>(i, v) \<in> set m. parsed_before now (f v))"
    using Cons.prems e consider_found[of i old now "f v" isProp] by auto
  from Cons.IH[OF _ this] Cons.prems(1) e show ?case by auto
qed simp

lemma dropOldest_gives_up: "named b \<Longrightarrow> \<not> fst (dropOldest now b) \<Longrightarrow> all_live now b"
proof (rule ccontr)
  assume n: "named b" and "\<not> fst (dropOldest now b)" and al: "\<not> all_live now b"
  then have o: "fst (oldest_entry now b) = []" by (auto simp: dropOldest_def split: prod.splits if_splits)
  have np: "\<forall>(i, v) \<in> set (bl_Props b). i \<noteq> []" "\<forall>(i, v) \<in> set (bl_Votes b). i \<noteq> []"
    using n by (force simp: named_def)+
  have "fst (fold (\<lambda>(i, p). consider_oldest now i (tx_Expiration (sp_Tx p)) True) (bl_Props b) ([], 0, False)) \<noteq> []
      \<or> (\<exists>(i, v) \<in> set (bl_Votes b). parsed_before now (vt_X v))"
    using al fold_found[OF np(1), of "([], 0, False)" now "\<lambda>p. tx_Expiration (sp_Tx p)" True]
    by (auto simp: all_live_def)
  from fold_found[OF np(2) this, of False] o show False by (simp add: oldest_entry_def)
qed

lemma named_kept: "live_kept now b c \<Longrightarrow> named b \<Longrightarrow> named c"
  unfolding live_kept_def named_def by (elim conjE) (meson image_mono in_mono)

abbreviation settled_size :: "(ballot \<Rightarrow> nat option) \<Rightarrow> instant \<Rightarrow> ballot \<Rightarrow> bool" where
  "settled_size encoded now c \<equiv>
     encoded c = None \<or> all_live now c \<or> (\<exists>n \<le> maxBallotBytes. encoded c = Some n)"

lemma shrink_keeps:
  assumes "ballot_wf b"
  shows "live_kept now b (shrink encoded now b) \<and> (named b \<longrightarrow> settled_size encoded now (shrink encoded now b))"
  using assms
proof (induction encoded now b rule: shrink.induct)
  case (1 encoded now b)
  note d = dropOldest_keeps[OF "1.prems", of now]
  let ?next = "snd (dropOldest now b)"
  show ?case
  proof (cases "\<exists>n. encoded b = Some n \<and> \<not> n \<le> maxBallotBytes \<and> fst (dropOldest now b)")
    case True
    then obtain n where n: "encoded b = Some n" "\<not> n \<le> maxBallotBytes" "fst (dropOldest now b)" by blast
    from n have "shrink encoded now b = shrink encoded now ?next" by (subst shrink.simps) simp
    with "1.IH"[OF n d(1)] named_kept[OF d(2)] live_kept_trans[OF d(2)] show ?thesis by simp
  next
    case False
    then have "shrink encoded now b = b" by (subst shrink.simps) (auto split: option.split)
    moreover have "settled_size encoded now b" if "named b"
      using False dropOldest_gives_up[OF that, of now] by (cases "encoded b") auto
    ultimately show ?thesis by (simp add: live_kept_refl)
  qed
qed

text \<open>
  Pruning a ballot keeps what still matters. The loop that drops the oldest entries while the
  ballot is too large ends, never invents an entry and never removes a proposal or a vote that has
  not expired; and when it stops, the ballot fits the limit, or every entry left in it is unexpired
  (or encoding it failed).
\<close>

theorem pruning_keeps_live_entries:
  assumes "ballot_wf b"
  shows "live_kept now b (ballot_Prune encoded now b)
    \<and> (named b \<longrightarrow> encoded (ballot_Prune encoded now b) = None \<or> all_live now (ballot_Prune encoded now b)
         \<or> (\<exists>n \<le> maxBallotBytes. encoded (ballot_Prune encoded now b) = Some n))"
proof -
  note k = drop_expired_keeps(2)[of now b]
  from shrink_keeps[OF drop_expired_keeps(1)[OF assms], of now now encoded] named_kept[OF k] live_kept_trans[OF k]
  show ?thesis unfolding ballot_Prune_def by blast
qed

definition demo_ballot :: ballot where
  "demo_ballot = \<lparr>bl_Props = [(''p1'', \<lparr>sp_T = [], sp_Tx = demo_tx ''1.000 STEEM'', sp_C = []\<rparr>)],
     bl_Votes = [(''p1'', \<lparr>vt_A = 1, vt_S = [], vt_X = ''2025-01-01T00:00:00''\<rparr>),
                 (''p2'', \<lparr>vt_A = 0, vt_S = [], vt_X = ''2027-01-01T00:00:00''\<rparr>)]\<rparr>"

theorem pruning_keeps_live_entries_witness:
  "live_kept 1767225600000000000 demo_ballot
     (ballot_Prune (\<lambda>b. Some (20000 * length (bl_Votes b))) 1767225600000000000 demo_ballot)"
  using pruning_keeps_live_entries[of demo_ballot 1767225600000000000 "\<lambda>b. Some (20000 * length (bl_Votes b))"]
  by (simp add: ballot_wf_def demo_ballot_def kv_wf_def)

section \<open>Proposals and their votes\<close>

datatype prop_status = Open | Ready | Rejected | Expired | Executed

record vote_info =
  vi_Approve :: bool
  vi_Sig :: string
  vi_Valid :: bool

record ms_proposal =
  pr_ID :: string
  pr_Creator :: string
  pr_Title :: string
  pr_Created :: string
  pr_Tx :: transaction
  pr_Digest :: bytes
  pr_Expiration :: instant
  pr_Owner :: bool
  pr_Votes :: "(string, vote_info) kv"
  pr_Approve :: u32
  pr_Deny :: u32
  pr_Status :: prop_status

definition Live :: "ms_proposal \<Rightarrow> bool" where
  "Live p \<longleftrightarrow> pr_Status p = Open \<or> pr_Status p = Ready"

record steem_account =
  ac_Name :: string
  ac_Owner :: authority
  ac_Active :: authority
  ac_Posting :: authority
  ac_MemoKey :: string
  ac_JSONMetadata :: string
  ac_PostingJSONMetadata :: string
  ac_Balance :: string
  ac_SBDBalance :: string

record ms_view =
  v_Now :: instant
  v_Bank :: steem_account
  v_Members :: "(string, steem_account) kv"
  v_History :: history_index
  v_Proposal :: "ms_proposal list"

definition bank_authority :: "steem_account \<Rightarrow> ms_proposal \<Rightarrow> authority" where
  "bank_authority bank p = (if pr_Owner p then ac_Owner bank else ac_Active bank)"

definition IsMember :: "steem_account \<Rightarrow> string \<Rightarrow> bool" where
  "IsMember bank name \<longleftrightarrow> 0 < WeightOf (ac_Owner bank) name"

fun op_needs_owner :: "op_value \<Rightarrow> bool" where
  "op_needs_owner (OpAccountUpdate u) \<longleftrightarrow> u_Owner u \<noteq> None"
| "op_needs_owner (OpAccountUpdate2 u) \<longleftrightarrow> u2_Owner u \<noteq> None"
| "op_needs_owner (OpChangeRecoveryAccount u) \<longleftrightarrow> True"
| "op_needs_owner _ \<longleftrightarrow> False"

definition needsOwner :: "transaction \<Rightarrow> bool" where
  "needsOwner tx \<longleftrightarrow> (\<exists>p \<in> set (tx_Operations tx). op_needs_owner (op_Value p))"

text \<open>The account an operation acts on; empty where no case of the switch sets it.\<close>

fun op_account :: "op_value \<Rightarrow> string" where
  "op_account (OpTransfer v) = tr_From v"
| "op_account (OpTransferToVesting v) = tv_From v"
| "op_account (OpWithdrawVesting v) = wv_Account v"
| "op_account (OpAccountUpdate v) = u_Account v"
| "op_account (OpAccountUpdate2 v) = u2_Account v"
| "op_account (OpChangeRecoveryAccount v) = cr_AccountToRecover v"
| "op_account (OpCustomJSON v) =
     (case (cj_RequiredAuths v, cj_RequiredPostingAuths v) of ([a], []) \<Rightarrow> a | _ \<Rightarrow> [])"
| "op_account OpOther = []"

definition targetsBank :: "transaction \<Rightarrow> string \<Rightarrow> bool" where
  "targetsBank tx bank \<longleftrightarrow>
     tx_Operations tx \<noteq> [] \<and> (\<forall>p \<in> set (tx_Operations tx). op_account (op_Value p) = bank)"

definition keySatisfies :: "authority \<Rightarrow> string \<Rightarrow> bool" where
  "keySatisfies active pub \<longleftrightarrow>
     (\<exists>k \<in> set (au_KeyAuths active). ka_Key k = pub \<and> au_WeightThreshold active \<le> ucast (ka_Weight k))"

text \<open>A stored proposal that passes the checks, as a proposal without votes.\<close>

definition check_proposal ::
  "crypto_env \<Rightarrow> steem_account \<Rightarrow> string \<Rightarrow> string \<Rightarrow> stored_proposal \<Rightarrow> ms_proposal option" where
  "check_proposal c bank creator i sp =
     (case (ID c (sp_Tx sp), Digest c (sp_Tx sp), time_Parse (tx_Expiration (sp_Tx sp))) of
        (Inr gotID, Inr digest, Some t) \<Rightarrow>
          if gotID = i \<and> targetsBank (sp_Tx sp) (ac_Name bank)
          then Some \<lparr>pr_ID = i, pr_Creator = creator, pr_Title = sp_T sp, pr_Created = sp_C sp,
                     pr_Tx = sp_Tx sp, pr_Digest = digest, pr_Expiration = t,
                     pr_Owner = needsOwner (sp_Tx sp), pr_Votes = [], pr_Approve = 0, pr_Deny = 0,
                     pr_Status = Open\<rparr>
          else None
      | _ \<Rightarrow> None)"

definition add_proposal :: "ms_proposal \<Rightarrow> (string, ms_proposal) kv \<Rightarrow> (string, ms_proposal) kv" where
  "add_proposal p byID =
     (case kv_get byID (pr_ID p) of
        Some prev \<Rightarrow>
          if pr_Created prev < pr_Created p \<or> pr_Created prev = pr_Created p \<and> pr_Creator prev < pr_Creator p
          then byID else kv_set (pr_ID p) p byID
      | None \<Rightarrow> kv_set (pr_ID p) p byID)"

definition collect_proposals ::
  "crypto_env \<Rightarrow> steem_account \<Rightarrow> (string, ballot) kv \<Rightarrow> (string, ms_proposal) kv" where
  "collect_proposals c bank ballots =
     fold (\<lambda>(creator, b) byID.
        if IsMember bank creator
        then fold (\<lambda>(i, sp) byID.
               case check_proposal c bank creator i sp of None \<Rightarrow> byID | Some p \<Rightarrow> add_proposal p byID)
             (bl_Props b) byID
        else byID) ballots []"

text \<open>One voter's ballot counted towards a proposal.\<close>

definition valid_approval :: "crypto_env \<Rightarrow> (string, steem_account) kv \<Rightarrow> ms_proposal \<Rightarrow> string \<Rightarrow> vote \<Rightarrow> bool" where
  "valid_approval c members p voter vote \<longleftrightarrow>
     (case RecoverSigner c (pr_Digest p) (vt_S vote) of
        None \<Rightarrow> False
      | Some pub \<Rightarrow> (case kv_get members voter of None \<Rightarrow> False | Some a \<Rightarrow> keySatisfies (ac_Active a) pub))"

definition tally_vote ::
  "crypto_env \<Rightarrow> authority \<Rightarrow> (string, steem_account) kv \<Rightarrow> string \<times> ballot \<Rightarrow> ms_proposal \<Rightarrow> ms_proposal" where
  "tally_vote c auth members vb p =
     (let (voter, b) = vb; w = ucast (WeightOf auth voter) :: u32 in
      if w = 0 then p
      else case kv_get (bl_Votes b) (pr_ID p) of
        None \<Rightarrow> p
      | Some vote \<Rightarrow>
        if vt_A vote = 1
        then (let ok = valid_approval c members p voter vote in
              p\<lparr>pr_Votes := kv_set voter \<lparr>vi_Approve = True, vi_Sig = vt_S vote, vi_Valid = ok\<rparr> (pr_Votes p),
                pr_Approve := pr_Approve p + (if ok then w else 0)\<rparr>)
        else p\<lparr>pr_Votes := kv_set voter \<lparr>vi_Approve = False, vi_Sig = vt_S vote, vi_Valid = True\<rparr> (pr_Votes p),
               pr_Deny := pr_Deny p + w\<rparr>)"

definition status_of :: "instant \<Rightarrow> history_index \<Rightarrow> authority \<Rightarrow> ms_proposal \<Rightarrow> prop_status" where
  "status_of now hist auth p =
     (if (case kv_get (h_Executed hist) (pr_ID p) of Some ts \<Rightarrow> ts \<noteq> [] | None \<Rightarrow> False) then Executed
      else if \<not> Before now (pr_Expiration p) then Expired
      else if au_WeightThreshold auth \<le> Total auth \<and> Total auth - au_WeightThreshold auth < pr_Deny p then Rejected
      else if au_WeightThreshold auth \<le> pr_Approve p then Ready
      else Open)"

definition tally_proposal ::
  "crypto_env \<Rightarrow> instant \<Rightarrow> steem_account \<Rightarrow> (string, steem_account) kv \<Rightarrow> (string, ballot) kv
   \<Rightarrow> history_index \<Rightarrow> ms_proposal \<Rightarrow> ms_proposal" where
  "tally_proposal c now bank members ballots hist p0 =
     (let auth = bank_authority bank p0; p = fold (tally_vote c auth members) ballots p0 in
      p\<lparr>pr_Status := status_of now hist auth p\<rparr>)"

definition BuildView ::
  "crypto_env \<Rightarrow> instant \<Rightarrow> steem_account \<Rightarrow> (string, steem_account) kv \<Rightarrow> (string, ballot) kv
   \<Rightarrow> history_index \<Rightarrow> ms_view" where
  "BuildView c now bank members ballots hist =
     \<lparr>v_Now = now, v_Bank = bank, v_Members = members, v_History = hist,
      v_Proposal = sort_key (\<lambda>p. (pr_Created p, pr_ID p))
        (map (tally_proposal c now bank members ballots hist \<circ> snd) (collect_proposals c bank ballots))\<rparr>"

text \<open>\<open>MinimalSignatures\<close>; the empty list is nil.\<close>

fun collect_sigs :: "u32 \<Rightarrow> (string, vote_info) kv \<Rightarrow> account_auth list \<Rightarrow> string list \<times> u32 \<Rightarrow> string list \<times> u32" where
  "collect_sigs threshold votes [] (sigs, w) = (sigs, w)"
| "collect_sigs threshold votes (a # as) (sigs, w) =
     (if threshold \<le> w then (sigs, w)
      else case kv_get votes (aa_Name a) of
        Some vi \<Rightarrow>
          if vi_Approve vi \<and> vi_Valid vi
          then collect_sigs threshold votes as (sigs @ [vi_Sig vi], w + ucast (aa_Weight a))
          else collect_sigs threshold votes as (sigs, w)
      | None \<Rightarrow> collect_sigs threshold votes as (sigs, w))"

definition MinimalSignatures :: "steem_account \<Rightarrow> ms_proposal \<Rightarrow> string list" where
  "MinimalSignatures bank p =
     (let auth = Sorted (bank_authority bank p);
          (sigs, w) = collect_sigs (au_WeightThreshold auth) (pr_Votes p) (au_AccountAuths auth) ([], 0)
      in if w < au_WeightThreshold auth then [] else sigs)"

definition SortedMembers :: "steem_account \<Rightarrow> string list" where
  "SortedMembers bank = map aa_Name (au_AccountAuths (Sorted (ac_Owner bank)))"

section \<open>The tally\<close>

definition approved :: "(string, vote_info) kv \<Rightarrow> string \<Rightarrow> bool" where
  "approved votes n \<longleftrightarrow> (case kv_get votes n of Some vi \<Rightarrow> vi_Approve vi \<and> vi_Valid vi | None \<Rightarrow> False)"

abbreviation weight32 :: "authority \<Rightarrow> string \<Rightarrow> u32" where
  "weight32 auth n \<equiv> ucast (WeightOf auth n)"

lemma finite_approved: "finite {n. approved votes n}"
proof (rule finite_subset)
  show "{n. approved votes n} \<subseteq> fst ` set votes"
    by (auto simp: approved_def kv_get_def dest!: map_of_SomeD split: option.splits intro: rev_image_eqI)
qed simp

text \<open>
  The approving weight is the sum of the weights of the voters whose approval counts, each of them
  a member whose signature was checked.
\<close>

definition tallied ::
  "crypto_env \<Rightarrow> authority \<Rightarrow> (string, steem_account) kv \<Rightarrow> ms_proposal \<Rightarrow> bool" where
  "tallied c auth members p \<longleftrightarrow>
     pr_Approve p = (\<Sum>n | approved (pr_Votes p) n. weight32 auth n) \<and>
     (\<forall>n vi. kv_get (pr_Votes p) n = Some vi \<longrightarrow>
        weight32 auth n \<noteq> 0 \<and>
        (vi_Approve vi \<and> vi_Valid vi \<longrightarrow>
          (\<exists>pub a. RecoverSigner c (pr_Digest p) (vi_Sig vi) = Some pub \<and> kv_get members n = Some a \<and>
             keySatisfies (ac_Active a) pub)))"

lemma approved_set:
  "approved (kv_set n vi votes) m \<longleftrightarrow> (if m = n then vi_Approve vi \<and> vi_Valid vi else approved votes m)"
  by (simp add: approved_def)

lemma sum_approved_set:
  assumes "kv_get votes n = None"
  shows "(\<Sum>m | approved (kv_set n vi votes) m. f m) =
    (\<Sum>m | approved votes m. f m) + (if vi_Approve vi \<and> vi_Valid vi then f n else (0 :: u32))"
proof -
  have n: "n \<notin> {m. approved votes m}" using assms by (simp add: approved_def)
  have "{m. approved (kv_set n vi votes) m} =
      (if vi_Approve vi \<and> vi_Valid vi then insert n {m. approved votes m} else {m. approved votes m})"
    using n by (auto simp: approved_set)
  with n finite_approved[of votes] show ?thesis by simp
qed

lemma tally_vote_other: "pr_Digest (tally_vote c auth members vb p) = pr_Digest p"
    "pr_ID (tally_vote c auth members vb p) = pr_ID p" "pr_Owner (tally_vote c auth members vb p) = pr_Owner p"
    "pr_Tx (tally_vote c auth members vb p) = pr_Tx p"
    "pr_Expiration (tally_vote c auth members vb p) = pr_Expiration p"
    "n \<noteq> fst vb \<Longrightarrow> kv_get (pr_Votes (tally_vote c auth members vb p)) n = kv_get (pr_Votes p) n"
  by (auto simp: tally_vote_def Let_def split: prod.splits option.splits)

lemma tally_vote_tallied:
  assumes "tallied c auth members p" and "kv_get (pr_Votes p) (fst vb) = None"
  shows "tallied c auth members (tally_vote c auth members vb p)"
proof -
  obtain voter b where vb: "vb = (voter, b)" by force
  show ?thesis
  proof (cases "weight32 auth voter = 0 \<or> kv_get (bl_Votes b) (pr_ID p) = None")
    case True
    then have "tally_vote c auth members vb p = p" by (auto simp: tally_vote_def vb Let_def)
    with assms show ?thesis by simp
  next
    case False
    then obtain v where v: "kv_get (bl_Votes b) (pr_ID p) = Some v" and w: "weight32 auth voter \<noteq> 0" by auto
    have none: "kv_get (pr_Votes p) voter = None" using assms(2) vb by simp
    show ?thesis
      using assms(1) v w
      by (auto simp: tallied_def tally_vote_def vb Let_def sum_approved_set[OF none] valid_approval_def
          split: option.splits if_splits)
  qed
qed

lemma tally_fold_frame:
  "pr_Owner (fold (tally_vote c auth members) bs p) = pr_Owner p"
  "pr_Digest (fold (tally_vote c auth members) bs p) = pr_Digest p"
  "pr_Tx (fold (tally_vote c auth members) bs p) = pr_Tx p"
  "pr_ID (fold (tally_vote c auth members) bs p) = pr_ID p"
  "pr_Expiration (fold (tally_vote c auth members) bs p) = pr_Expiration p"
  by (induction bs arbitrary: p) (simp_all add: tally_vote_other)

lemma tally_fold:
  assumes "tallied c auth members p" and "distinct (map fst bs)" and "\<forall>v \<in> fst ` set bs. kv_get (pr_Votes p) v = None"
  shows "tallied c auth members (fold (tally_vote c auth members) bs p)"
  using assms
proof (induction bs arbitrary: p)
  case (Cons vb bs)
  have t: "tallied c auth members (tally_vote c auth members vb p)"
    using Cons.prems by (intro tally_vote_tallied) simp_all
  have "\<forall>v \<in> fst ` set bs. kv_get (pr_Votes (tally_vote c auth members vb p)) v = None"
  proof
    fix v assume v: "v \<in> fst ` set bs"
    moreover have "fst vb \<notin> fst ` set bs" using Cons.prems(2) by simp
    ultimately have "v \<noteq> fst vb" by metis
    moreover have "kv_get (pr_Votes p) v = None" using Cons.prems(3) v by (metis insertCI list.simps(15) image_insert)
    ultimately show "kv_get (pr_Votes (tally_vote c auth members vb p)) v = None"
      by (simp add: tally_vote_other(6))
  qed
  with Cons.IH[OF t] Cons.prems(2) show ?case by simp
qed simp

text \<open>Every proposal of the view is a checked one, tallied.\<close>

definition genuine :: "crypto_env \<Rightarrow> steem_account \<Rightarrow> ms_proposal \<Rightarrow> bool" where
  "genuine c bank p \<longleftrightarrow>
     ID c (pr_Tx p) = Inr (pr_ID p) \<and> Digest c (pr_Tx p) = Inr (pr_Digest p) \<and>
     targetsBank (pr_Tx p) (ac_Name bank) \<and>
     time_Parse (tx_Expiration (pr_Tx p)) = Some (pr_Expiration p) \<and>
     pr_Owner p = needsOwner (pr_Tx p)"

lemma check_proposal_genuine:
  "check_proposal c bank creator i sp = Some p \<Longrightarrow>
   genuine c bank p \<and> pr_ID p = i \<and> pr_Votes p = [] \<and> pr_Approve p = 0 \<and> pr_Deny p = 0"
  by (auto simp: check_proposal_def genuine_def split: sum.splits option.splits if_splits)

definition collected :: "crypto_env \<Rightarrow> steem_account \<Rightarrow> (string, ms_proposal) kv \<Rightarrow> bool" where
  "collected c bank byID \<longleftrightarrow>
     kv_wf byID \<and> (\<forall>(i, p) \<in> set byID. pr_ID p = i \<and> genuine c bank p \<and> pr_Votes p = [] \<and> pr_Approve p = 0)"

lemma collected_add:
  assumes "collected c bank byID" and "genuine c bank p" "pr_Votes p = []" "pr_Approve p = 0"
  shows "collected c bank (add_proposal p byID)"
proof -
  have "collected c bank (kv_set (pr_ID p) p byID)"
    using assms set_kv_set_wf[of byID] by (auto simp: collected_def split: if_splits)
  with assms(1) show ?thesis by (auto simp: add_proposal_def split: option.splits)
qed

lemma collect_proposals_ok: "collected c bank (collect_proposals c bank ballots)"
  unfolding collect_proposals_def
proof (rule fold_invariant[where P = "collected c bank"])
  show "collected c bank []" by (simp add: collected_def)
  fix cb :: "string \<times> ballot" and byID
  assume "collected c bank byID"
  obtain creator b where cb: "cb = (creator, b)" by force
  have "collected c bank (fold (\<lambda>(i, sp) byID.
      case check_proposal c bank creator i sp of None \<Rightarrow> byID | Some p \<Rightarrow> add_proposal p byID) (bl_Props b) byID)"
    using \<open>collected c bank byID\<close>
    by (rule fold_invariant[where P = "collected c bank"])
      (auto split: option.splits intro!: collected_add dest!: check_proposal_genuine)
  with \<open>collected c bank byID\<close>
  show "collected c bank ((case cb of (creator, b) \<Rightarrow> \<lambda>byID. if IsMember bank creator then fold (\<lambda>(i, sp) byID.
      case check_proposal c bank creator i sp of None \<Rightarrow> byID | Some p \<Rightarrow> add_proposal p byID) (bl_Props b) byID
      else byID) byID)"
    by (simp add: cb)
qed

lemma view_proposal:
  assumes "p \<in> set (v_Proposal (BuildView c now bank members ballots hist))" and "kv_wf ballots"
  shows "genuine c bank p" and "tallied c (bank_authority bank p) members p"
    and "pr_Status p = status_of now hist (bank_authority bank p) (p\<lparr>pr_Status := s\<rparr>)"
proof -
  obtain i q where q: "(i, q) \<in> set (collect_proposals c bank ballots)"
    and p: "p = tally_proposal c now bank members ballots hist q"
    using assms(1) by (auto simp: BuildView_def)
  have g: "genuine c bank q" "pr_Votes q = []" "pr_Approve q = 0"
    using q collect_proposals_ok[of c bank ballots] by (auto simp: collected_def)
  let ?auth = "bank_authority bank q"
  let ?t = "fold (tally_vote c ?auth members) ballots q"
  have au: "bank_authority bank p = ?auth"
    by (simp add: p tally_proposal_def Let_def bank_authority_def tally_fold_frame)
  show "genuine c bank p"
    using g(1) by (simp add: genuine_def p tally_proposal_def Let_def tally_fold_frame)
  have "tallied c ?auth members q" using g by (simp add: tallied_def approved_def)
  then have "tallied c ?auth members ?t"
    using kv_wf_distinct[OF assms(2)] g by (intro tally_fold) simp_all
  then show "tallied c (bank_authority bank p) members p"
    unfolding au by (simp add: tallied_def p tally_proposal_def Let_def)
  show "pr_Status p = status_of now hist (bank_authority bank p) (p\<lparr>pr_Status := s\<rparr>)"
    unfolding au by (simp add: p tally_proposal_def Let_def status_of_def)
qed

section \<open>The signatures of a ready proposal\<close>

abbreviation total32 :: "account_auth list \<Rightarrow> u32" where
  "total32 as \<equiv> sum_list (map (\<lambda>a. ucast (aa_Weight a)) as)"

definition sig_of :: "(string, vote_info) kv \<Rightarrow> account_auth \<Rightarrow> string" where
  "sig_of votes a = (case kv_get votes (aa_Name a) of Some vi \<Rightarrow> vi_Sig vi | None \<Rightarrow> [])"

abbreviation approvers :: "(string, vote_info) kv \<Rightarrow> account_auth list \<Rightarrow> account_auth list" where
  "approvers votes as \<equiv> filter (\<lambda>a. approved votes (aa_Name a)) as"

lemma collect_sigs_spec:
  "\<exists>k \<le> length (approvers votes as).
     collect_sigs threshold votes as (sigs, w) =
       (sigs @ map (sig_of votes) (take k (approvers votes as)), w + total32 (take k (approvers votes as)))
     \<and> (\<forall>j < k. \<not> threshold \<le> w + total32 (take j (approvers votes as)))
     \<and> (threshold \<le> w + total32 (take k (approvers votes as)) \<or> k = length (approvers votes as))"
proof (induction as arbitrary: sigs w)
  case (Cons a as)
  show ?case
  proof (cases "threshold \<le> w")
    case True
    then show ?thesis by (intro exI[of _ 0]) simp
  next
    case low: False
    show ?thesis
    proof (cases "approved votes (aa_Name a)")
      case True
      then obtain vi where vi: "kv_get votes (aa_Name a) = Some vi" "vi_Approve vi" "vi_Valid vi"
        by (auto simp: approved_def split: option.splits)
      obtain k where k: "k \<le> length (approvers votes as)"
          "collect_sigs threshold votes as (sigs @ [vi_Sig vi], w + ucast (aa_Weight a)) =
             ((sigs @ [vi_Sig vi]) @ map (sig_of votes) (take k (approvers votes as)),
              (w + ucast (aa_Weight a)) + total32 (take k (approvers votes as)))"
          "\<forall>j < k. \<not> threshold \<le> (w + ucast (aa_Weight a)) + total32 (take j (approvers votes as))"
          "threshold \<le> (w + ucast (aa_Weight a)) + total32 (take k (approvers votes as))
             \<or> k = length (approvers votes as)"
        using Cons[of "sigs @ [vi_Sig vi]" "w + ucast (aa_Weight a)"] by blast
      show ?thesis
      proof (intro exI[of _ "Suc k"] conjI allI impI)
        fix j assume "j < Suc k"
        then show "\<not> threshold \<le> w + total32 (take j (approvers votes (a # as)))"
          using low True k(3) by (cases j) (simp_all add: add.assoc)
      qed (use low True vi k in \<open>simp_all add: sig_of_def add.assoc\<close>)
    next
      case False
      then have "collect_sigs threshold votes (a # as) (sigs, w) = collect_sigs threshold votes as (sigs, w)"
        using low by (auto simp: approved_def split: option.splits)
      with Cons[of sigs w] False show ?thesis by simp
    qed
  qed
qed simp

text \<open>Weights are 16 bits wide, so sums over at most \<open>2 ^ 16\<close> members do not overflow 32 bits.\<close>

lemma total32_exact:
  "length as \<le> 65536 \<Longrightarrow> unat (total32 as) = sum_list (map (\<lambda>a. unat (aa_Weight a)) as)
     \<and> sum_list (map (\<lambda>a. unat (aa_Weight a)) as) \<le> length as * 65535"
proof (induction as)
  case (Cons a as)
  have w: "unat (aa_Weight a) \<le> 65535" using unsigned_less[of "aa_Weight a", where 'a = nat] by simp
  have u: "unat (ucast (aa_Weight a) :: u32) = unat (aa_Weight a)"
    using w by (simp add: unsigned_ucast_eq take_bit_nat_eq_self_iff)
  let ?s = "sum_list (map (\<lambda>a. unat (aa_Weight a)) as)"
  have ih: "unat (total32 as) = ?s" "?s \<le> length as * 65535" using Cons by simp_all
  have "unat (aa_Weight a) + ?s < 2 ^ 32" using w ih(2) Cons.prems by simp
  then show ?case using ih w u by (simp add: unat_word_ariths(1) u)
qed simp

text \<open>The approving weight of a tallied proposal is that of the authority's approving members.\<close>

lemma WeightOf_member: "weight32 auth n \<noteq> 0 \<Longrightarrow> n \<in> aa_Name ` set (au_AccountAuths auth)"
  by (auto simp: WeightOf_def find_Some_iff split: option.splits)

lemma tallied_total:
  assumes "tallied c auth members p" and d: "distinct (map aa_Name (au_AccountAuths auth))"
    and m: "set as = set (au_AccountAuths auth)" "distinct (map aa_Name as)"
  shows "pr_Approve p = total32 (approvers (pr_Votes p) as)"
proof -
  let ?F = "approvers (pr_Votes p) as"
  have dF: "distinct (map aa_Name ?F)" using m(2) by (simp add: distinct_map_filter)
  have "approved (pr_Votes p) n \<Longrightarrow> weight32 auth n \<noteq> 0" for n
    using assms(1) by (auto simp: tallied_def approved_def split: option.splits)
  then have eq: "{n. approved (pr_Votes p) n} = set (map aa_Name ?F)"
    using WeightOf_member m(1) by fastforce
  have "total32 ?F = sum_list (map (weight32 auth) (map aa_Name ?F))"
    using m(1) WeightOf_unique[OF d] by (auto intro!: arg_cong[where f = sum_list])
  also have "\<dots> = (\<Sum>n \<in> set (map aa_Name ?F). weight32 auth n)"
    by (rule sum_list_distinct_conv_sum_set[OF dF])
  finally show ?thesis using assms(1) eq by (simp add: tallied_def)
qed

text \<open>
  C30: a ready proposal carries exactly enough signatures. When the view shows a proposal as ready,
  the signatures chosen for it come from distinct members of the authority it needs, each recovers
  (over the digest of that very transaction) to a key that meets its member's active authority, the
  members' weights reach the threshold, and without the last of them they do not: Steem refuses
  unnecessary signatures as well as missing ones.
\<close>

theorem ready_proposals_have_exactly_enough_signatures:
  assumes p: "p \<in> set (v_Proposal (BuildView c now bank members ballots hist))" and "kv_wf ballots"
    and ready: "pr_Status p = Ready"
    and d: "distinct (map aa_Name (au_AccountAuths (bank_authority bank p)))"
    and len: "length (au_AccountAuths (bank_authority bank p)) \<le> 40"
    and pos: "0 < au_WeightThreshold (bank_authority bank p)"
  shows "\<exists>signers. MinimalSignatures bank p = map (sig_of (pr_Votes p)) signers \<and> distinct signers
    \<and> signers \<noteq> [] \<and> set signers \<subseteq> set (au_AccountAuths (bank_authority bank p))
    \<and> unat (au_WeightThreshold (bank_authority bank p)) \<le> sum_list (map (\<lambda>a. unat (aa_Weight a)) signers)
    \<and> sum_list (map (\<lambda>a. unat (aa_Weight a)) (butlast signers)) < unat (au_WeightThreshold (bank_authority bank p))
    \<and> (\<forall>a \<in> set signers. \<exists>pub m. Digest c (pr_Tx p) = Inr (pr_Digest p)
         \<and> RecoverSigner c (pr_Digest p) (sig_of (pr_Votes p) a) = Some pub
         \<and> kv_get members (aa_Name a) = Some m \<and> keySatisfies (ac_Active m) pub)"
proof -
  let ?auth = "bank_authority bank p" and ?as = "au_AccountAuths (Sorted (bank_authority bank p))"
  let ?th = "au_WeightThreshold ?auth" and ?F = "approvers (pr_Votes p) ?as"
  note v = view_proposal[OF p assms(2)]
  have th: "?th \<le> pr_Approve p"
    using v(3)[of Open] ready by (simp add: status_of_def split: if_splits)
  have as: "set ?as = set (au_AccountAuths ?auth)" "distinct (map aa_Name ?as)"
    using Sorted_names[OF d] by (simp_all add: Sorted_def strict_sorted_iff)
  note tot = tallied_total[OF v(2) d as]
  obtain k where k: "k \<le> length ?F"
      "collect_sigs ?th (pr_Votes p) ?as ([], 0) = (map (sig_of (pr_Votes p)) (take k ?F), total32 (take k ?F))"
      "\<forall>j < k. \<not> ?th \<le> total32 (take j ?F)" "?th \<le> total32 (take k ?F) \<or> k = length ?F"
    using collect_sigs_spec[of "pr_Votes p" ?as ?th "[]" 0] by auto
  let ?S = "take k ?F"
  have reach: "?th \<le> total32 ?S" using k(4) th tot by auto
  have k0: "0 < k" using reach pos by (cases k) auto
  have lF: "length ?F \<le> 40" using len length_filter_le[of _ ?as] by (metis Sorted_def le_trans
        authority.select_convs(2) authority.surjective authority.update_convs(2) length_sort)
  have ms: "MinimalSignatures bank p = map (sig_of (pr_Votes p)) ?S"
    using k(2) leD[OF reach] by (simp add: MinimalSignatures_def Let_def Sorted_def)
  have "distinct ?as" using as(2) by (simp add: distinct_map)
  then have dS: "distinct ?S" by simp
  have sub: "set ?S \<subseteq> set (au_AccountAuths ?auth)"
    using as(1) set_take_subset[of k ?F] by auto
  have exact: "unat (total32 (take j ?F)) = sum_list (map (\<lambda>a. unat (aa_Weight a)) (take j ?F))" for j
    using total32_exact[of "take j ?F"] lF by simp
  have full: "unat ?th \<le> sum_list (map (\<lambda>a. unat (aa_Weight a)) ?S)"
    using reach exact[of k] by (simp add: word_le_nat_alt)
  have "\<not> ?th \<le> total32 (take (k - 1) ?F)" using k(3) k0 by simp
  then have short: "sum_list (map (\<lambda>a. unat (aa_Weight a)) (butlast ?S)) < unat ?th"
    using exact[of "k - 1"] k(1) by (simp add: word_le_nat_alt butlast_take)
  have sigs: "\<forall>a \<in> set ?S. \<exists>pub m. Digest c (pr_Tx p) = Inr (pr_Digest p)
         \<and> RecoverSigner c (pr_Digest p) (sig_of (pr_Votes p) a) = Some pub
         \<and> kv_get members (aa_Name a) = Some m \<and> keySatisfies (ac_Active m) pub"
  proof
    fix a assume "a \<in> set ?S"
    from in_set_takeD[OF this] have "approved (pr_Votes p) (aa_Name a)" by simp
    then obtain vi where "kv_get (pr_Votes p) (aa_Name a) = Some vi" "vi_Approve vi" "vi_Valid vi"
      by (auto simp: approved_def split: option.splits)
    with v(1,2) show "\<exists>pub m. Digest c (pr_Tx p) = Inr (pr_Digest p)
         \<and> RecoverSigner c (pr_Digest p) (sig_of (pr_Votes p) a) = Some pub
         \<and> kv_get members (aa_Name a) = Some m \<and> keySatisfies (ac_Active m) pub"
      by (auto simp: tallied_def genuine_def sig_of_def)
  qed
  have "?S \<noteq> []" using k0 k(1) by auto
  with ms dS sub full short sigs show ?thesis by blast
qed

text \<open>A view with one ready proposal: a single member holds the authority and has signed.\<close>

definition demo_signing :: crypto_env where
  "demo_signing = \<lparr>c_base58Decode = (\<lambda>s. s), c_base58Encode = (\<lambda>s. s), c_ripemd160 = (\<lambda>s. s),
     c_sha256 = (\<lambda>s. ''x''), c_RecoverCompact = (\<lambda>sig d. Some ''K'')\<rparr>"

definition demo_auth :: authority where
  "demo_auth = \<lparr>au_WeightThreshold = 10, au_AccountAuths = [\<lparr>aa_Name = ''alice'', aa_Weight = 10\<rparr>], au_KeyAuths = []\<rparr>"

definition demo_account :: "string \<Rightarrow> authority \<Rightarrow> steem_account" where
  "demo_account name auth = \<lparr>ac_Name = name, ac_Owner = auth, ac_Active = auth, ac_Posting = auth,
     ac_MemoKey = [], ac_JSONMetadata = [], ac_PostingJSONMetadata = [],
     ac_Balance = ''100.000 STEEM'', ac_SBDBalance = ''0.000 SBD''\<rparr>"

definition demo_members :: "(string, steem_account) kv" where
  "demo_members = [(''alice'', demo_account ''alice''
     \<lparr>au_WeightThreshold = 1, au_AccountAuths = [], au_KeyAuths = [\<lparr>ka_Key = ''STMKK'', ka_Weight = 1\<rparr>]\<rparr>)]"

definition demo_sig :: string where "demo_sig = replicate 130 (CHR ''1'')"

definition signed_ballots :: "transaction \<Rightarrow> (string, ballot) kv" where
  "signed_ballots tx = [(''alice'',
     \<lparr>bl_Props = [(''78'', \<lparr>sp_T = [], sp_Tx = tx, sp_C = []\<rparr>)],
      bl_Votes = [(''78'', \<lparr>vt_A = 1, vt_S = demo_sig, vt_X = ''2026-01-01T00:58:00''\<rparr>)]\<rparr>)]"

abbreviation demo_ballots :: "(string, ballot) kv" where
  "demo_ballots \<equiv> signed_ballots (demo_tx ''1.000 STEEM'')"

lemma demo_serializes: "\<exists>x. Serialize c (demo_tx ''1.000 STEEM'') = Inr x"
  by (simp add: Serialize_def demo_tx_def Time_def write_amount_def demo_amounts time_eval)

lemma demo_sig_recovers: "RecoverSigner demo_signing d demo_sig = Some ''STMKK''"
proof -
  have z: "char_of (0 :: nat) = CHR 0x00" by code_simp
  have "char_of (17 :: nat) = CHR 0x11" by code_simp
  then have "DecodeString (replicate (2 * n) (CHR ''1'')) = Some (replicate n (CHR 0x11))" for n
    by (induction n) (simp_all add: is_hex_def is_hex_lower_def is_digit_def hex_val_def)
  from this[of 65] have "DecodeString demo_sig = Some (replicate 65 (CHR 0x11))" by (simp add: demo_sig_def)
  moreover have "isCanonical (drop 1 (replicate 65 (CHR 0x11)))"
    by (simp add: isCanonical_def high_bit_def z)
  ultimately show ?thesis by (simp add: RecoverSigner_def EncodePublicKey_def demo_signing_def)
qed

definition demo_view :: ms_view where
  "demo_view = BuildView demo_signing 1767225600000000000 (demo_account ''svm.bank'' demo_auth) demo_members
     demo_ballots empty_index"

definition demo_proposal :: ms_proposal where
  "demo_proposal = \<lparr>pr_ID = ''78'', pr_Creator = ''alice'', pr_Title = [], pr_Created = [],
     pr_Tx = demo_tx ''1.000 STEEM'', pr_Digest = ''x'', pr_Expiration = 1767229080000000000,
     pr_Owner = False, pr_Votes = [(''alice'', \<lparr>vi_Approve = True, vi_Sig = demo_sig, vi_Valid = True\<rparr>)],
     pr_Approve = 10, pr_Deny = 0, pr_Status = Ready\<rparr>"

lemma demo_ids:
  assumes "Serialize demo_signing tx = Inr x"
  shows "ID demo_signing tx = Inr ''78''" "Digest demo_signing tx = Inr ''x''"
proof -
  have sha: "c_sha256 demo_signing y = ''x''" for y by (simp add: demo_signing_def)
  have "char_of (120 :: nat) = CHR ''x''" "char_of (55 :: nat) = CHR ''7''" "char_of (56 :: nat) = CHR ''8''"
    by code_simp+
  then show "ID demo_signing tx = Inr ''78''" "Digest demo_signing tx = Inr ''x''"
    by (simp_all add: ID_def Digest_def assms sha EncodeToString_def digit_char_def)
qed

text \<open>Any serializable transaction of the bank that the one member has proposed and signed is ready.\<close>

lemma signed_view:
  assumes "Serialize demo_signing tx = Inr x" "time_Parse (tx_Expiration tx) = Some 1767229080000000000"
    and "targetsBank tx ''svm.bank''" "\<not> needsOwner tx"
  shows "v_Proposal (BuildView demo_signing 1767225600000000000 (demo_account ''svm.bank'' demo_auth) demo_members
     (signed_ballots tx) empty_index) = [demo_proposal\<lparr>pr_Tx := tx\<rparr>]"
proof -
  have "collect_proposals demo_signing (demo_account ''svm.bank'' demo_auth) (signed_ballots tx) =
     [(''78'', demo_proposal\<lparr>pr_Tx := tx, pr_Votes := [], pr_Approve := 0, pr_Status := Open\<rparr>)]"
    using assms(2-4) demo_ids[OF assms(1)]
    by (simp add: collect_proposals_def signed_ballots_def IsMember_def WeightOf_def demo_account_def demo_auth_def
        check_proposal_def add_proposal_def demo_proposal_def)
  then show ?thesis
    unfolding BuildView_def
    by (simp add: tally_proposal_def signed_ballots_def tally_vote_def
      demo_proposal_def bank_authority_def demo_account_def demo_auth_def WeightOf_def kv_get_Cons
      valid_approval_def demo_sig_recovers demo_members_def keySatisfies_def status_of_def empty_index_def
      Before_def Total_def)
qed

lemma demo_view_proposal: "v_Proposal demo_view = [demo_proposal]"
proof -
  obtain x where "Serialize demo_signing (demo_tx ''1.000 STEEM'') = Inr x" using demo_serializes by blast
  moreover have "time_Parse (tx_Expiration (demo_tx ''1.000 STEEM'')) = Some 1767229080000000000"
    by (simp add: demo_tx_def time_eval)
  moreover have "targetsBank (demo_tx ''1.000 STEEM'') ''svm.bank''" "\<not> needsOwner (demo_tx ''1.000 STEEM'')"
    by (simp_all add: targetsBank_def needsOwner_def demo_tx_def)
  moreover have "demo_proposal\<lparr>pr_Tx := demo_tx ''1.000 STEEM''\<rparr> = demo_proposal" by (simp add: demo_proposal_def)
  ultimately show ?thesis using signed_view by (simp add: demo_view_def)
qed

theorem ready_proposals_have_exactly_enough_signatures_witness:
  "\<exists>signers. MinimalSignatures (demo_account ''svm.bank'' demo_auth) demo_proposal
       = map (sig_of (pr_Votes demo_proposal)) signers \<and> signers \<noteq> []"
proof -
  have "\<exists>signers. MinimalSignatures (demo_account ''svm.bank'' demo_auth) demo_proposal
      = map (sig_of (pr_Votes demo_proposal)) signers \<and> distinct signers \<and> signers \<noteq> []
    \<and> set signers \<subseteq> set (au_AccountAuths (bank_authority (demo_account ''svm.bank'' demo_auth) demo_proposal))
    \<and> unat (au_WeightThreshold (bank_authority (demo_account ''svm.bank'' demo_auth) demo_proposal))
        \<le> sum_list (map (\<lambda>a. unat (aa_Weight a)) signers)
    \<and> sum_list (map (\<lambda>a. unat (aa_Weight a)) (butlast signers))
        < unat (au_WeightThreshold (bank_authority (demo_account ''svm.bank'' demo_auth) demo_proposal))
    \<and> (\<forall>a \<in> set signers. \<exists>pub m. Digest demo_signing (pr_Tx demo_proposal) = Inr (pr_Digest demo_proposal)
         \<and> RecoverSigner demo_signing (pr_Digest demo_proposal) (sig_of (pr_Votes demo_proposal) a) = Some pub
         \<and> kv_get demo_members (aa_Name a) = Some m \<and> keySatisfies (ac_Active m) pub)"
  proof (rule ready_proposals_have_exactly_enough_signatures)
    show "demo_proposal \<in> set (v_Proposal (BuildView demo_signing 1767225600000000000
        (demo_account ''svm.bank'' demo_auth) demo_members demo_ballots empty_index))"
      using demo_view_proposal by (simp add: demo_view_def)
  qed (simp_all add: signed_ballots_def kv_wf_def demo_proposal_def bank_authority_def demo_account_def demo_auth_def)
  then show ?thesis by blast
qed

end
