(* ===== verification/Multisig_Policy.thy ===== *)
theory Multisig_Policy
  imports Multisig_View
begin

text \<open>
  The deterministic policy of a signer (\<open>multisig/policy.go\<close>): its verdict on a proposal and the
  transactions it wants to propose itself. The SVM node is a record of the two reads the policy
  makes; reasons, which are only logged, are dropped. A positive \<open>SnapshotEvery\<close> is assumed
  where the code divides by it (the default is 1000).
\<close>

section \<open>State\<close>

datatype decision = Abstain | Approve | Deny

record svm_withdrawal =
  sw_ID :: u64
  sw_Destination :: string
  sw_AmountMilli :: u64
  sw_Symbol :: string
  sw_Memo :: string
  sw_CreatedAt :: u64
  sw_Status :: string

record ms_config =
  cf_BankAccount :: string
  cf_ThresholdPercent :: u32
  cf_ReweightTolerance :: u16
  cf_PayoutMarginBlocks :: u64
  cf_SnapshotEvery :: int
  cf_SnapshotMaxAge :: int
  cf_SnapshotLag :: int
  cf_OwnerCooldown :: int
  cf_FallbackDelay :: int
  cf_MaxPerTxMilli :: "(string, u64) kv"

definition DefaultConfig :: ms_config where
  "DefaultConfig = \<lparr>cf_BankAccount = ''svm.bank'', cf_ThresholdPercent = 75, cf_ReweightTolerance = 50,
     cf_PayoutMarginBlocks = 14400, cf_SnapshotEvery = 1000, cf_SnapshotMaxAge = 3000,
     cf_SnapshotLag = 10, cf_OwnerCooldown = Hour, cf_FallbackDelay = 120 * Second,
     cf_MaxPerTxMilli = []\<rparr>"

record svm_state =
  st_Height :: int
  st_Timeout :: u64
  st_Requested :: "(u64, svm_withdrawal) kv"

text \<open>A failed read is \<open>Inl\<close>; a withdrawal that does not exist is \<open>Inr None\<close>.\<close>

record svm_api =
  svm_Withdrawal :: "u64 \<Rightarrow> string + svm_withdrawal option"
  svm_ValidatorStakes :: "int \<Rightarrow> string + stake_entry list"

record policy =
  pc_Cfg :: ms_config
  pc_SVM :: svm_api
  pc_Self :: string
  pc_Journal :: "approval_journal option"
  pc_cache :: "(int, authority) kv"

section \<open>The desired authority\<close>

text \<open>\<open>Apportion\<close> always returns, so the branch for not returning is never taken.\<close>

definition run_apportion :: "stake_entry list \<Rightarrow> u32 \<Rightarrow> authority option" where
  "run_apportion stakes pct =
     (case Apportion stakes pct of Some (Inr a) \<Rightarrow> Some a | Some (Inl e) \<Rightarrow> None | None \<Rightarrow> None)"

lemma Apportion_total: "Apportion es pct \<noteq> None"
proof (cases "pct = 0 \<or> 100 < pct")
  case False
  then have pct: "0 < pct" "pct \<le> 100" by (auto simp: word_neq_0_conv)
  show ?thesis
  proof (cases "collect_stakes [] es")
    case (Inr vals)
    show ?thesis
    proof (cases "vals = []")
      case False
      show ?thesis by (rule Apportion_returns[OF pct Inr False]) simp
    qed (use Inr in \<open>simp add: Apportion_def\<close>)
  qed (simp add: Apportion_def)
qed (auto simp: Apportion_def)

definition DesiredAt :: "policy \<Rightarrow> int \<Rightarrow> authority option \<times> policy" where
  "DesiredAt p height =
     (case kv_get (pc_cache p) height of
        Some a \<Rightarrow> (Some a, p)
      | None \<Rightarrow>
        (case svm_ValidatorStakes (pc_SVM p) height of
           Inl e \<Rightarrow> (None, p)
         | Inr stakes \<Rightarrow>
           (case run_apportion stakes (cf_ThresholdPercent (pc_Cfg p)) of
              None \<Rightarrow> (None, p)
            | Some a \<Rightarrow>
              (Some a, p\<lparr>pc_cache := kv_set height a (if 16 < length (pc_cache p) then [] else pc_cache p)\<rparr>))))"

definition Checkpoint :: "policy \<Rightarrow> int \<Rightarrow> int" where
  "Checkpoint p tip =
     (let s = tip - cf_SnapshotLag (pc_Cfg p) in
      if s \<le> 0 then 0 else s - s smod cf_SnapshotEvery (pc_Cfg p))"

section \<open>Reviewing a payout\<close>

definition find_withdrawal :: "policy \<Rightarrow> svm_state \<Rightarrow> u64 \<Rightarrow> decision + svm_withdrawal" where
  "find_withdrawal p st i =
     (case kv_get (st_Requested st) i of
        Some w \<Rightarrow> Inr w
      | None \<Rightarrow>
        (case svm_Withdrawal (pc_SVM p) i of
           Inl e \<Rightarrow> Inl Abstain
         | Inr None \<Rightarrow> Inl Abstain
         | Inr (Some w) \<Rightarrow> if sw_Status w \<noteq> ''REQUESTED'' then Inl Deny else Inr w))"

definition past_margin :: "policy \<Rightarrow> svm_state \<Rightarrow> svm_withdrawal \<Rightarrow> bool" where
  "past_margin p st w \<longleftrightarrow>
     sw_CreatedAt w + st_Timeout st < word_of_int (st_Height st) + cf_PayoutMarginBlocks (pc_Cfg p)"

definition payoutFacts :: "policy \<Rightarrow> transfer \<Rightarrow> u64 \<Rightarrow> ms_view \<Rightarrow> svm_state \<Rightarrow> decision" where
  "payoutFacts p t i v st =
     (if tr_From t \<noteq> cf_BankAccount (pc_Cfg p) then Deny
      else if IsPaid (v_History v) i then Deny
      else case find_withdrawal p st i of
        Inl d \<Rightarrow> d
      | Inr w \<Rightarrow>
        if tr_To t \<noteq> sw_Destination w then Deny
        else if tr_Amount t \<noteq> FormatMilli (sw_AmountMilli w) (sw_Symbol w) then Deny
        else if tr_Memo t \<noteq> sw_Memo w then Deny
        else if past_margin p st w then Deny
        else Approve)"

definition symbolOf :: "string \<Rightarrow> string" where
  "symbolOf amount = (case ParseAsset amount of Inr a \<Rightarrow> as_Symbol a | Inl e \<Rightarrow> [])"

definition over_cap :: "policy \<Rightarrow> string \<Rightarrow> bool" where
  "over_cap p amount \<longleftrightarrow>
     (case kv_get (cf_MaxPerTxMilli (pc_Cfg p)) (symbolOf amount) of
        None \<Rightarrow> False
      | Some limit \<Rightarrow> 0 < limit \<and>
          (case ParseAsset amount of Inl e \<Rightarrow> False | Inr a \<Rightarrow> limit < word_of_int (as_Amount a)))"

definition voted_approve :: "(string, vote) kv \<Rightarrow> string \<Rightarrow> bool" where
  "voted_approve votes i \<longleftrightarrow> (case kv_get votes i of Some v \<Rightarrow> vt_A v = 1 | None \<Rightarrow> False)"

text \<open>
  The loop over the proposals for the same withdrawal: \<open>None\<close> where it returns early because this
  signer approved another that can still execute, else the ID of the earliest correct live one.
\<close>

fun earliest_payout ::
  "policy \<Rightarrow> ms_view \<Rightarrow> svm_state \<Rightarrow> (string, vote) kv \<Rightarrow> string \<Rightarrow> u64 \<Rightarrow> ms_proposal list \<Rightarrow> string
   \<Rightarrow> string option" where
  "earliest_payout p v st myVotes propID i [] earliest = Some earliest"
| "earliest_payout p v st myVotes propID i (q # qs) earliest =
     (case PayoutOf (pr_Tx q) (cf_BankAccount (pc_Cfg p)) of
        None \<Rightarrow> earliest_payout p v st myVotes propID i qs earliest
      | Some (qt, qid) \<Rightarrow>
        if qid \<noteq> i then earliest_payout p v st myVotes propID i qs earliest
        else if pr_ID q \<noteq> propID \<and> pr_Status q \<noteq> Expired \<and> voted_approve myVotes (pr_ID q) then None
        else earliest_payout p v st myVotes propID i qs
               (if earliest = [] \<and> Live q \<and> payoutFacts p qt qid v st = Approve then pr_ID q else earliest))"

definition reviewTransfer ::
  "policy \<Rightarrow> ms_proposal \<Rightarrow> transfer \<Rightarrow> u64 \<Rightarrow> ms_view \<Rightarrow> svm_state \<Rightarrow> (string, vote) kv \<Rightarrow> decision" where
  "reviewTransfer p prop t i v st myVotes =
     (case payoutFacts p t i v st of
        Approve \<Rightarrow>
          if over_cap p (tr_Amount t) then Abstain
          else if Conflicts (pc_Journal p) (SubjectOf (pr_Tx prop)) (pr_ID prop) (v_Now v) then Abstain
          else if earliest_payout p v st myVotes (pr_ID prop) i (v_Proposal v) [] = Some (pr_ID prop)
          then Approve else Abstain
      | d \<Rightarrow> d)"

section \<open>Reviewing a validator-set change\<close>

text \<open>The leftmost match of \<open>@svm:(\d+)\<close>: its digits.\<close>

fun snapshotRe :: "string \<Rightarrow> string option" where
  "snapshotRe [] = None"
| "snapshotRe (c # s) =
     (case CutPrefix ''@svm:'' (c # s) of
        Some r \<Rightarrow> (case takeWhile is_digit r of [] \<Rightarrow> snapshotRe s | ds \<Rightarrow> Some ds)
      | None \<Rightarrow> snapshotRe s)"

definition first_op_is_update :: "transaction \<Rightarrow> bool" where
  "first_op_is_update tx \<longleftrightarrow>
     (case tx_Operations tx of p # _ \<Rightarrow> (case op_Value p of OpAccountUpdate u \<Rightarrow> True | _ \<Rightarrow> False) | [] \<Rightarrow> False)"

definition approved_other_update :: "ms_view \<Rightarrow> (string, vote) kv \<Rightarrow> string \<Rightarrow> bool" where
  "approved_other_update v myVotes propID \<longleftrightarrow>
     (\<exists>q \<in> set (v_Proposal v). pr_ID q \<noteq> propID \<and> pr_Status q \<noteq> Expired \<and> pr_Status q \<noteq> Executed
        \<and> first_op_is_update (pr_Tx q) \<and> voted_approve myVotes (pr_ID q))"

definition snapshot_ok :: "policy \<Rightarrow> svm_state \<Rightarrow> nat \<Rightarrow> bool" where
  "snapshot_ok p st s \<longleftrightarrow>
     s < 2 ^ 63 \<and> 0 < s \<and> int s smod cf_SnapshotEvery (pc_Cfg p) = 0
     \<and> st_Height st - int s \<le> cf_SnapshotMaxAge (pc_Cfg p)"

definition update_matches :: "crypto_env \<Rightarrow> policy \<Rightarrow> ms_view \<Rightarrow> account_update \<Rightarrow> authority \<Rightarrow> bool" where
  "update_matches c p v u desired \<longleftrightarrow>
     (case (u_Owner u, u_Active u, u_Posting u) of
        (Some ow, Some ac, Some po) \<Rightarrow> Equal c ow desired \<and> Equal c ac desired \<and> Equal c po desired
      | _ \<Rightarrow> False)
     \<and> u_MemoKey u = ac_MemoKey (v_Bank v)
     \<and> (u_JSONMetadata u = [] \<or> u_JSONMetadata u = ac_JSONMetadata (v_Bank v))
     \<and> ExceedsTolerance (ac_Owner (v_Bank v)) desired (cf_ReweightTolerance (pc_Cfg p))"

definition reviewAccountUpdate ::
  "crypto_env \<Rightarrow> policy \<Rightarrow> ms_proposal \<Rightarrow> account_update \<Rightarrow> ms_view \<Rightarrow> svm_state \<Rightarrow> (string, vote) kv
   \<Rightarrow> decision \<times> policy" where
  "reviewAccountUpdate c p prop u v st myVotes =
     (if u_Account u \<noteq> cf_BankAccount (pc_Cfg p) then (Deny, p)
      else if u_Owner u = None \<or> u_Active u = None \<or> u_Posting u = None then (Deny, p)
      else case snapshotRe (pr_Title prop) of
        None \<Rightarrow> (Deny, p)
      | Some ds \<Rightarrow>
        let s = digits_val 0 ds in
        if \<not> snapshot_ok p st s then (Deny, p)
        else if st_Height st < int s then (Abstain, p)
        else case DesiredAt p (int s) of
          (None, p1) \<Rightarrow> (Abstain, p1)
        | (Some desired, p1) \<Rightarrow>
          if \<not> update_matches c p v u desired then (Deny, p1)
          else if Conflicts (pc_Journal p) (SubjectOf (pr_Tx prop)) (pr_ID prop) (v_Now v) then (Abstain, p1)
          else if approved_other_update v myVotes (pr_ID prop) then (Abstain, p1)
          else (Approve, p1))"

definition Review ::
  "crypto_env \<Rightarrow> policy \<Rightarrow> ms_proposal \<Rightarrow> ms_view \<Rightarrow> svm_state \<Rightarrow> (string, vote) kv \<Rightarrow> decision \<times> policy" where
  "Review c p prop v st myVotes =
     (case PayoutOf (pr_Tx prop) (cf_BankAccount (pc_Cfg p)) of
        Some (t, i) \<Rightarrow> (reviewTransfer p prop t i v st myVotes, p)
      | None \<Rightarrow>
        (case map op_Value (tx_Operations (pr_Tx prop)) of
           [OpTransfer t] \<Rightarrow> (Deny, p)
         | [OpAccountUpdate u] \<Rightarrow> reviewAccountUpdate c p prop u v st myVotes
         | [OpTransferToVesting x] \<Rightarrow> (Abstain, p)
         | [OpWithdrawVesting x] \<Rightarrow> (Abstain, p)
         | [OpChangeRecoveryAccount x] \<Rightarrow> (Abstain, p)
         | _ \<Rightarrow> (Deny, p)))"

section \<open>Intents\<close>

record intent =
  it_Key :: string
  it_Title :: string
  it_Ops :: "operation list"

fun index_of :: "string \<Rightarrow> string list \<Rightarrow> nat option" where
  "index_of s [] = None"
| "index_of s (m # ms) = (if m = s then Some 0 else map_option Suc (index_of s ms))"

definition rankOf :: "string list \<Rightarrow> string \<Rightarrow> int \<Rightarrow> int" where
  "rankOf members self designated =
     (case index_of self members of
        None \<Rightarrow> - 1
      | Some i \<Rightarrow> (let n = int (length members) in ((int i - designated) smod n + n) smod n))"

text \<open>The closure \<open>due\<close>: notes when the key was first seen and whether this member's turn has come.\<close>

definition due ::
  "policy \<Rightarrow> string list \<Rightarrow> instant \<Rightarrow> string \<Rightarrow> int \<Rightarrow> (string, instant) kv \<Rightarrow> bool \<times> (string, instant) kv" where
  "due p members now key designated firstSeen =
     (let fs = (if kv_get firstSeen key = None then kv_set key now firstSeen else firstSeen);
          rank = rankOf members (pc_Self p) designated;
          since = (case kv_get fs key of Some t \<Rightarrow> t | None \<Rightarrow> now)
      in (rank = 0 \<or> rank * cf_FallbackDelay (pc_Cfg p) \<le> now - since, fs))"

definition payout_key :: "u64 \<Rightarrow> string" where
  "payout_key i = ''w:'' @ FormatUint (unat i)"

definition sole_op_is_update :: "transaction \<Rightarrow> bool" where
  "sole_op_is_update tx \<longleftrightarrow> first_op_is_update tx \<and> length (tx_Operations tx) = 1"

definition live_payouts :: "policy \<Rightarrow> ms_view \<Rightarrow> u64 list" where
  "live_payouts p v =
     List.map_filter (\<lambda>q. if Live q then map_option snd (PayoutOf (pr_Tx q) (cf_BankAccount (pc_Cfg p))) else None)
       (v_Proposal v)"

definition live_update :: "ms_view \<Rightarrow> bool" where
  "live_update v \<longleftrightarrow> (\<exists>q \<in> set (v_Proposal v). Live q \<and> sole_op_is_update (pr_Tx q))"

definition bank_balance :: "ms_view \<Rightarrow> (string, u64) kv" where
  "bank_balance v =
     fold (\<lambda>s m. case ParseAsset s of Inr a \<Rightarrow> kv_set (as_Symbol a) (word_of_int (as_Amount a)) m | Inl e \<Rightarrow> m)
       [ac_Balance (v_Bank v), ac_SBDBalance (v_Bank v)] []"

definition balance_of :: "(string, u64) kv \<Rightarrow> string \<Rightarrow> u64" where
  "balance_of m s = (case kv_get m s of Some b \<Rightarrow> b | None \<Rightarrow> 0)"

definition payout_intent :: "policy \<Rightarrow> u64 \<Rightarrow> svm_withdrawal \<Rightarrow> intent" where
  "payout_intent p i w =
     (let amount = FormatMilli (sw_AmountMilli w) (sw_Symbol w) in
      \<lparr>it_Key = payout_key i,
       it_Title = ''Withdrawal '' @ FormatUint (unat i) @ '': '' @ amount @ '' to @'' @ sw_Destination w,
       it_Ops = PayoutOps (cf_BankAccount (pc_Cfg p)) (sw_Destination w) amount (sw_Memo w) i\<rparr>)"

text \<open>The guards of the loop over the requested withdrawals, before the turn of this member.\<close>

definition payable :: "policy \<Rightarrow> ms_view \<Rightarrow> svm_state \<Rightarrow> (string, u64) kv \<Rightarrow> u64 \<Rightarrow> svm_withdrawal \<Rightarrow> bool" where
  "payable p v st balance i w \<longleftrightarrow>
     i \<notin> set (live_payouts p v) \<and> \<not> IsPaid (v_History v) i
     \<and> \<not> Conflicts (pc_Journal p) (PayoutSubject i) [] (v_Now v)
     \<and> \<not> past_margin p st w
     \<and> (case kv_get (cf_MaxPerTxMilli (pc_Cfg p)) (sw_Symbol w) of
          Some limit \<Rightarrow> \<not> (0 < limit \<and> limit < sw_AmountMilli w) | None \<Rightarrow> True)
     \<and> sw_AmountMilli w \<le> balance_of balance (sw_Symbol w)"

definition step_payout ::
  "policy \<Rightarrow> ms_view \<Rightarrow> svm_state \<Rightarrow> string list \<Rightarrow> instant \<Rightarrow> u64 \<times> svm_withdrawal
   \<Rightarrow> (string, instant) kv \<times> (string, u64) kv \<times> intent list
   \<Rightarrow> (string, instant) kv \<times> (string, u64) kv \<times> intent list" where
  "step_payout p v st members now iw s =
     (let (i, w) = iw; (firstSeen, balance, out) = s in
      if \<not> payable p v st balance i w then s
      else let (ok, fs) = due p members now (payout_key i) (int (unat i mod length members)) firstSeen in
        if \<not> ok then (fs, balance, out)
        else (fs, kv_set (sw_Symbol w) (balance_of balance (sw_Symbol w) - sw_AmountMilli w) balance,
              out @ [payout_intent p i w]))"

definition cooled :: "policy \<Rightarrow> ms_view \<Rightarrow> bool" where
  "cooled p v \<longleftrightarrow>
     (let last = h_LastOwnerChange (v_History v) in
      last = [] \<or> (case time_Parse last of Some t \<Rightarrow> \<not> v_Now v - t < cf_OwnerCooldown (pc_Cfg p) | None \<Rightarrow> True))"

definition update_intent :: "policy \<Rightarrow> ms_view \<Rightarrow> int \<Rightarrow> authority \<Rightarrow> intent" where
  "update_intent p v s d =
     \<lparr>it_Key = ''v:'' @ FormatInt s, it_Title = ''Validator set @svm:'' @ FormatInt s,
      it_Ops = [\<lparr>op_Type = ''account_update'',
        op_Value = OpAccountUpdate \<lparr>u_Account = cf_BankAccount (pc_Cfg p), u_Owner = Some d, u_Active = Some d,
          u_Posting = Some d, u_MemoKey = ac_MemoKey (v_Bank v), u_JSONMetadata = []\<rparr>\<rparr>]\<rparr>"

text \<open>The last part of \<open>Intents\<close>; the flag is its error result.\<close>

definition propose_update ::
  "policy \<Rightarrow> ms_view \<Rightarrow> svm_state \<Rightarrow> string list \<Rightarrow> instant \<Rightarrow> (string, instant) kv
   \<Rightarrow> intent list \<times> bool \<times> (string, instant) kv \<times> policy" where
  "propose_update p v st members now firstSeen =
     (let s = Checkpoint p (st_Height st) in
      if live_update v \<or> Conflicts (pc_Journal p) (''account_update:'' @ cf_BankAccount (pc_Cfg p)) [] (v_Now v)
         \<or> \<not> cooled p v \<or> \<not> 0 < s
      then ([], False, firstSeen, p)
      else case DesiredAt p s of
        (None, p1) \<Rightarrow> ([], True, firstSeen, p1)
      | (Some d, p1) \<Rightarrow>
        if \<not> ExceedsTolerance (ac_Owner (v_Bank v)) d (cf_ReweightTolerance (pc_Cfg p))
        then ([], False, firstSeen, p1)
        else let (ok, fs) = due p members now (''v:'' @ FormatInt s)
                   ((s sdiv cf_SnapshotEvery (pc_Cfg p)) smod int (length members)) firstSeen in
          (if ok then [update_intent p v s d] else [], False, fs, p1))"

definition Intents ::
  "policy \<Rightarrow> ms_view \<Rightarrow> svm_state \<Rightarrow> (string, instant) kv \<Rightarrow> instant
   \<Rightarrow> intent list \<times> bool \<times> (string, instant) kv \<times> policy" where
  "Intents p v st firstSeen now =
     (let members = SortedMembers (v_Bank v) in
      if members = [] \<or> rankOf members (pc_Self p) 0 < 0 then ([], False, firstSeen, p)
      else
        let fs0 = fold (\<lambda>i. kv_remove (payout_key i)) (live_payouts p v) firstSeen;
            (fs1, balance, out) =
              fold (step_payout p v st members now) (st_Requested st) (fs0, bank_balance v, []);
            (upd, err, fs2, p1) = propose_update p v st members now fs1
        in (out @ upd, err, fs2, p1))"

section \<open>What an approval means\<close>

text \<open>The cache holds what the computation at that height gives.\<close>

definition desired_authority :: "policy \<Rightarrow> int \<Rightarrow> authority \<Rightarrow> bool" where
  "desired_authority p h a \<longleftrightarrow>
     (\<exists>stakes. svm_ValidatorStakes (pc_SVM p) h = Inr stakes
        \<and> Apportion stakes (cf_ThresholdPercent (pc_Cfg p)) = Some (Inr a))"

definition cache_ok :: "policy \<Rightarrow> bool" where
  "cache_ok p \<longleftrightarrow> (\<forall>h a. kv_get (pc_cache p) h = Some a \<longrightarrow> desired_authority p h a)"

lemma run_apportion_Some: "run_apportion stakes pct = Some a \<longleftrightarrow> Apportion stakes pct = Some (Inr a)"
  by (auto simp: run_apportion_def split: option.splits sum.splits)

lemma DesiredAt_correct:
  assumes "cache_ok p"
  shows "fst (DesiredAt p h) = Some a \<Longrightarrow> desired_authority p h a"
    and "cache_ok (snd (DesiredAt p h))"
proof -
  show "fst (DesiredAt p h) = Some a \<Longrightarrow> desired_authority p h a"
    using assms by (auto simp: DesiredAt_def cache_ok_def desired_authority_def run_apportion_Some
        split: option.splits sum.splits)
  have frame: "desired_authority (p\<lparr>pc_cache := m\<rparr>) h a = desired_authority p h a" for m h a
    by (simp add: desired_authority_def)
  show "cache_ok (snd (DesiredAt p h))"
  proof (cases "\<exists>stakes a. kv_get (pc_cache p) h = None \<and> svm_ValidatorStakes (pc_SVM p) h = Inr stakes
      \<and> run_apportion stakes (cf_ThresholdPercent (pc_Cfg p)) = Some a")
    case True
    then obtain stakes a where s: "kv_get (pc_cache p) h = None" "svm_ValidatorStakes (pc_SVM p) h = Inr stakes"
        "run_apportion stakes (cf_ThresholdPercent (pc_Cfg p)) = Some a" by blast
    then have "desired_authority p h a" by (auto simp: desired_authority_def run_apportion_Some)
    with s assms show ?thesis by (auto simp: DesiredAt_def cache_ok_def frame)
  next
    case False
    then have "snd (DesiredAt p h) = p" by (auto simp: DesiredAt_def split: option.splits sum.splits)
    with assms show ?thesis by simp
  qed
qed

definition payout_owed :: "policy \<Rightarrow> ms_view \<Rightarrow> svm_state \<Rightarrow> transaction \<Rightarrow> bool" where
  "payout_owed p v st tx \<longleftrightarrow>
     (\<exists>t i w. PayoutOf tx (cf_BankAccount (pc_Cfg p)) = Some (t, i)
        \<and> find_withdrawal p st i = Inr w \<and> \<not> IsPaid (v_History v) i \<and> \<not> past_margin p st w
        \<and> t = \<lparr>tr_From = cf_BankAccount (pc_Cfg p), tr_To = sw_Destination w,
               tr_Amount = FormatMilli (sw_AmountMilli w) (sw_Symbol w), tr_Memo = sw_Memo w\<rparr>)"

definition update_due :: "crypto_env \<Rightarrow> policy \<Rightarrow> ms_view \<Rightarrow> svm_state \<Rightarrow> transaction \<Rightarrow> bool" where
  "update_due c p v st tx \<longleftrightarrow>
     (\<exists>u s a. map op_Value (tx_Operations tx) = [OpAccountUpdate u] \<and> u_Account u = cf_BankAccount (pc_Cfg p)
        \<and> snapshot_ok p st s \<and> int s \<le> st_Height st \<and> desired_authority p (int s) a \<and> update_matches c p v u a)"

lemma payoutFacts_Approve:
  assumes "payoutFacts p t i v st = Approve"
  obtains w where "find_withdrawal p st i = Inr w" "\<not> IsPaid (v_History v) i" "\<not> past_margin p st w"
    "t = \<lparr>tr_From = cf_BankAccount (pc_Cfg p), tr_To = sw_Destination w,
          tr_Amount = FormatMilli (sw_AmountMilli w) (sw_Symbol w), tr_Memo = sw_Memo w\<rparr>"
proof -
  have nf: "find_withdrawal p st i \<noteq> Inl Approve"
    by (auto simp: find_withdrawal_def split: option.splits sum.splits)
  from assms nf obtain w where "find_withdrawal p st i = Inr w" "\<not> IsPaid (v_History v) i" "\<not> past_margin p st w"
      "tr_From t = cf_BankAccount (pc_Cfg p)" "tr_To t = sw_Destination w"
      "tr_Amount t = FormatMilli (sw_AmountMilli w) (sw_Symbol w)" "tr_Memo t = sw_Memo w"
    by (auto simp: payoutFacts_def split: if_splits sum.splits)
  then show thesis by (intro that[of w]) simp_all
qed

lemma reviewTransfer_Approve:
  "reviewTransfer p prop t i v st votes = Approve \<Longrightarrow> payoutFacts p t i v st = Approve"
  by (auto simp: reviewTransfer_def split: decision.splits)

lemma reviewAccountUpdate_Approve:
  assumes "fst (reviewAccountUpdate c p prop u v st votes) = Approve" and "cache_ok p"
  shows "\<exists>s a. u_Account u = cf_BankAccount (pc_Cfg p) \<and> snapshot_ok p st s \<and> int s \<le> st_Height st
    \<and> desired_authority p (int s) a \<and> update_matches c p v u a"
proof -
  obtain ds where ds: "snapshotRe (pr_Title prop) = Some ds"
    using assms(1) by (cases "snapshotRe (pr_Title prop)") (auto simp: reviewAccountUpdate_def split: if_splits)
  let ?s = "digits_val 0 ds"
  obtain r p1 where r: "DesiredAt p (int ?s) = (r, p1)" by force
  have "u_Account u = cf_BankAccount (pc_Cfg p)" "snapshot_ok p st ?s" "int ?s \<le> st_Height st"
      "\<exists>a. r = Some a \<and> update_matches c p v u a"
    using assms(1) ds r by (auto simp: reviewAccountUpdate_def Let_def split: if_splits option.splits)
  with DesiredAt_correct(1)[OF assms(2), of "int ?s"] r show ?thesis by (metis fst_conv)
qed


text \<open>A policy that approves the payout of withdrawal 7.\<close>

definition demo_withdrawal :: svm_withdrawal where
  "demo_withdrawal = \<lparr>sw_ID = 7, sw_Destination = ''alice'', sw_AmountMilli = 1000, sw_Symbol = ''STEEM'',
     sw_Memo = ''hi'', sw_CreatedAt = 50, sw_Status = ''REQUESTED''\<rparr>"

definition demo_policy :: policy where
  "demo_policy = \<lparr>pc_Cfg = DefaultConfig,
     pc_SVM = \<lparr>svm_Withdrawal = (\<lambda>i. Inr None), svm_ValidatorStakes = (\<lambda>h. Inr [])\<rparr>,
     pc_Self = ''alice'', pc_Journal = Some [], pc_cache = []\<rparr>"

definition demo_state :: svm_state where
  "demo_state = \<lparr>st_Height = 100, st_Timeout = 100000, st_Requested = [(7, demo_withdrawal)]\<rparr>"

definition demo_payout_tx :: transaction where
  "demo_payout_tx = \<lparr>tx_RefBlockNum = 7, tx_RefBlockPrefix = 9, tx_Expiration = ''2026-01-01T00:58:00'',
     tx_Operations = PayoutOps ''svm.bank'' ''alice'' (FormatMilli 1000 ''STEEM'') ''hi'' 7, tx_Signatures = []\<rparr>"

definition demo_open :: ms_proposal where
  "demo_open = demo_proposal\<lparr>pr_Tx := demo_payout_tx, pr_Status := Open\<rparr>"

definition demo_payout_view :: ms_view where
  "demo_payout_view = \<lparr>v_Now = 1767225600000000000, v_Bank = demo_account ''svm.bank'' demo_auth,
     v_Members = demo_members, v_History = empty_index, v_Proposal = [demo_open]\<rparr>"

lemma demo_approves: "fst (Review c demo_policy demo_open demo_payout_view demo_state []) = Approve"
proof -
  have po: "PayoutOf demo_payout_tx ''svm.bank'' = Some (\<lparr>tr_From = ''svm.bank'', tr_To = ''alice'',
      tr_Amount = FormatMilli 1000 ''STEEM'', tr_Memo = ''hi''\<rparr>, 7)"
    by (rule PayoutOf_PayoutOps) (simp add: demo_payout_tx_def)
  have b: "cf_BankAccount (pc_Cfg demo_policy) = ''svm.bank''"
    by (simp add: demo_policy_def DefaultConfig_def)
  have facts: "payoutFacts demo_policy \<lparr>tr_From = ''svm.bank'', tr_To = ''alice'',
      tr_Amount = FormatMilli 1000 ''STEEM'', tr_Memo = ''hi''\<rparr> 7 demo_payout_view demo_state = Approve"
    by (simp add: payoutFacts_def b find_withdrawal_def demo_state_def kv_get_Cons demo_withdrawal_def past_margin_def
        IsPaid_def demo_payout_view_def empty_index_def demo_policy_def DefaultConfig_def)
  have tx: "pr_Tx demo_open = demo_payout_tx" "pr_ID demo_open = ''78''" "Live demo_open"
    "v_Proposal demo_payout_view = [demo_open]"
    by (simp_all add: demo_open_def demo_proposal_def Live_def demo_payout_view_def)
  have "Conflicts (pc_Journal demo_policy) s i t = False" "over_cap demo_policy a = False" for s i t a
    by (simp_all add: Conflicts_def demo_policy_def over_cap_def DefaultConfig_def)
  then show ?thesis
    by (simp add: Review_def b tx po reviewTransfer_def facts voted_approve_def)
qed


end
