(* ===== verification/Multisig_Svm.thy ===== *)
theory Multisig_Svm
  imports Bridge_Query Multisig_Policy
begin

text \<open>
  What the signer of \<open>svm.bank\<close> reads from the SteemVM chain (\<open>multisig/svmquery.go\<close>): the interface
  \<open>SVM\<close> over the queries of the bridge and of the staking module. The bridge queries are the ones of
  \<open>Bridge_Query\<close> on a state of the chain; the staking queries and the paginators are arguments. An error
  that arrives over the wire is its message.
\<close>

fun Contains :: "string \<Rightarrow> string \<Rightarrow> bool" where
  "Contains [] sub = (sub = [])"
| "Contains (c # s) sub = (HasPrefix (c # s) sub \<or> Contains s sub)"

definition isKeyNotFound :: "string \<Rightarrow> bool" where
  "isKeyNotFound err = Contains err ''key not found''"

section \<open>Withdrawals\<close>

text \<open>\<open>strings.TrimPrefix(w.Status.String(), "WITHDRAWAL_STATUS_")\<close>\<close>

fun status_text :: "WithdrawalStatus \<Rightarrow> string" where
  "status_text WITHDRAWAL_STATUS_REQUESTED = ''REQUESTED''"
| "status_text WITHDRAWAL_STATUS_PROCESSED = ''PROCESSED''"
| "status_text WITHDRAWAL_STATUS_REFUNDED = ''REFUNDED''"

definition toWithdrawal :: "withdrawal \<Rightarrow> svm_withdrawal" where
  "toWithdrawal w =
     \<lparr>sw_ID = w_Id w, sw_Destination = w_DestinationSteemAccount w, sw_AmountMilli = w_AmountMillisteem w,
      sw_Symbol = (if w_Asset w = BRIDGE_ASSET_SBD then ''SBD'' else ''STEEM''), sw_Memo = w_Memo w,
      sw_CreatedAt = w_CreatedAt w, sw_Status = status_text (w_Status w)\<rparr>"

text \<open>The paging loop; \<open>query\<close> answers one page.\<close>

partial_function (option) requested_loop ::
    "(page_request \<Rightarrow> string + (withdrawal list \<times> bytes)) \<Rightarrow> bytes \<Rightarrow> svm_withdrawal list \<Rightarrow>
     (string + svm_withdrawal list) option" where
  "requested_loop query key out =
     (case query \<lparr>pg_Key = key, pg_Limit = 200\<rparr> of
        Inl err \<Rightarrow> Some (Inl err)
      | Inr (ws, nextKey) \<Rightarrow>
          if nextKey = [] then Some (Inr (out @ map toWithdrawal ws))
          else requested_loop query nextKey (out @ map toWithdrawal ws))"

definition svm_RequestedWithdrawals ::
    "(page_request \<Rightarrow> string + (withdrawal list \<times> bytes)) \<Rightarrow> (string + svm_withdrawal list) option" where
  "svm_RequestedWithdrawals query = requested_loop query [] []"

definition svm_query_Withdrawal :: "(u64 \<Rightarrow> string + withdrawal) \<Rightarrow> u64 \<Rightarrow> string + svm_withdrawal option" where
  "svm_query_Withdrawal query i =
     (case query i of
        Inl err \<Rightarrow> if isKeyNotFound err then Inr None else Inl err
      | Inr w \<Rightarrow> Inr (Some (toWithdrawal w)))"

section \<open>Validators\<close>

definition ownerOfName :: "env \<Rightarrow> (string \<Rightarrow> string + name_record) \<Rightarrow> string \<Rightarrow> string + bytes option" where
  "ownerOfName E query name =
     (case query name of
        Inl err \<Rightarrow> if isKeyNotFound err then Inr None else Inl err
      | Inr nr \<Rightarrow> Inr (AccAddressFromBech32 E (nr_Address nr)))"

record staking_validator =
  sv_Jailed :: bool
  sv_Tokens :: int
  sv_Moniker :: string
  sv_OperatorAddress :: string

text \<open>One validator of a page: its stake counts when its moniker is an active link owned by its operator.\<close>

definition validator_stake :: "env \<Rightarrow> (string \<Rightarrow> string + name_record) \<Rightarrow> staking_validator \<Rightarrow> string + stake_entry option" where
  "validator_stake E query val =
     (let name = TrimSpace (sv_Moniker val) in
      if sv_Jailed val \<or> \<not> 0 < sv_Tokens val then Inr None
      else if name = '''' then Inr None
      else case ValAddressFromBech32 E (sv_OperatorAddress val) of
        None \<Rightarrow> Inr None
      | Some oper \<Rightarrow>
          rbind (ownerOfName E query name) (\<lambda>owner.
          if owner \<noteq> Some oper then Inr None
          else Inr (Some \<lparr>se_Account = name, se_Tokens = Some (sv_Tokens val)\<rparr>)))"

fun stakes_of_page :: "env \<Rightarrow> (string \<Rightarrow> string + name_record) \<Rightarrow> staking_validator list \<Rightarrow> string + stake_entry list" where
  "stakes_of_page E query [] = Inr []"
| "stakes_of_page E query (val # vals) =
     rbind (validator_stake E query val) (\<lambda>e.
     rbind (stakes_of_page E query vals) (\<lambda>es. Inr (case e of None \<Rightarrow> es | Some x \<Rightarrow> x # es)))"

partial_function (option) stakes_loop ::
    "env \<Rightarrow> (page_request \<Rightarrow> string + (staking_validator list \<times> bytes)) \<Rightarrow> (string \<Rightarrow> string + name_record) \<Rightarrow>
     bytes \<Rightarrow> stake_entry list \<Rightarrow> (string + stake_entry list) option" where
  "stakes_loop E validators names key out =
     (case validators \<lparr>pg_Key = key, pg_Limit = 200\<rparr> of
        Inl err \<Rightarrow> Some (Inl err)
      | Inr (vals, nextKey) \<Rightarrow>
          (case stakes_of_page E names vals of
             Inl err \<Rightarrow> Some (Inl err)
           | Inr es \<Rightarrow>
               if nextKey = [] then Some (Inr (out @ es))
               else stakes_loop E validators names nextKey (out @ es)))"

definition svm_query_ValidatorStakes ::
    "env \<Rightarrow> (page_request \<Rightarrow> string + (staking_validator list \<times> bytes)) \<Rightarrow> (string \<Rightarrow> string + name_record) \<Rightarrow>
     (string + stake_entry list) option" where
  "svm_query_ValidatorStakes E validators names = stakes_loop E validators names [] []"

definition svm_SelfSteemAccount ::
    "env \<Rightarrow> string + staking_validator \<Rightarrow> (string \<Rightarrow> string + name_record) \<Rightarrow> bytes \<Rightarrow> string + string" where
  "svm_SelfSteemAccount E self names operator =
     (case self of
        Inl err \<Rightarrow> Inl (''this oracle's key is not a validator operator: '' @ err)
      | Inr val \<Rightarrow>
          let name = TrimSpace (sv_Moniker val) in
          rbind (ownerOfName E names name) (\<lambda>owner.
          if owner \<noteq> Some operator
          then Inl (''validator moniker '' @ name @ '' is not an ACTIVE Steem name link owned by this operator'')
          else Inr name))"

section \<open>The loops end and miss nothing\<close>

text \<open>A query as the signer sees it over the wire.\<close>

fun query_text :: "query_error \<Rightarrow> string" where
  "query_text (InvalidArgument m) = ''rpc error: code = InvalidArgument desc = '' @ m"
| "query_text (Internal e) = ''rpc error: code = Internal''"
| "query_text (NotFound e) = ''rpc error: code = NotFound''"
| "query_text ErrKeyNotFound = ''key not found''"

definition wire :: "'a qres \<Rightarrow> string + 'a" where
  "wire r = (case r of Inl e \<Rightarrow> Inl (query_text e) | Inr x \<Rightarrow> Inr x)"

definition requested_records :: "'b bridge_state \<Rightarrow> (u64 \<times> withdrawal) list" where
  "requested_records s = filter (\<lambda>iw. w_Status (snd iw) = WITHDRAWAL_STATUS_REQUESTED) (Withdrawal s)"

lemma requested_loop_pages:
  assumes page: "\<And>pos. pos \<le> length xs \<Longrightarrow> query \<lparr>pg_Key = enc pos, pg_Limit = 200\<rparr> =
      Inr (map snd (take 200 (drop pos xs)), if pos + 200 < length xs then enc (pos + 200) else [])"
    and enc: "\<And>pos. pos \<noteq> 0 \<Longrightarrow> enc pos \<noteq> []" and pos: "pos \<le> length xs"
  shows "requested_loop query (enc pos) out = Some (Inr (out @ map (toWithdrawal \<circ> snd) (drop pos xs)))"
  using pos
proof (induction "length xs - pos" arbitrary: pos out rule: less_induct)
  case less
  show ?case
  proof (cases "pos + 200 < length xs")
    case True
    let ?page = "map (toWithdrawal \<circ> snd) (take 200 (drop pos xs))"
    have "requested_loop query (enc pos) out = requested_loop query (enc (pos + 200)) (out @ ?page)"
      by (subst requested_loop.simps) (simp add: page[OF less.prems] True enc)
    moreover have "requested_loop query (enc (pos + 200)) (out @ ?page) =
        Some (Inr ((out @ ?page) @ map (toWithdrawal \<circ> snd) (drop (pos + 200) xs)))"
      using True by (intro less.hyps) simp_all
    moreover have "?page @ map (toWithdrawal \<circ> snd) (drop (pos + 200) xs) = map (toWithdrawal \<circ> snd) (drop pos xs)"
      using append_take_drop_id[of 200 "drop pos xs"] by (simp add: add.commute flip: map_append)
    ultimately show ?thesis by simp
  next
    case False
    then show ?thesis by (subst requested_loop.simps) (simp add: page[OF less.prems])
  qed
qed

text \<open>
  The signer sees every withdrawal that waits for its payout, and no other. On a chain whose tables
  are well formed, with a paginator that pages through its keys, the paging loop ends and returns the
  requested withdrawals in the order of their identifiers, however many pages there are.
\<close>

theorem requested_withdrawals_are_complete:
  assumes "withdrawal_inv s" "pages_through paginate"
  shows "svm_RequestedWithdrawals (\<lambda>page. wire (query_RequestedWithdrawals paginate (Some page) s)) =
    Some (Inr (map (toWithdrawal \<circ> snd) (requested_records s)))"
proof -
  let ?xs = "records_with (\<lambda>w. wstat (w_Status w)) (wstat WITHDRAWAL_STATUS_REQUESTED) (Withdrawal s)"
  obtain enc where enc: "enc 0 = []" "\<And>pos. pos \<noteq> 0 \<Longrightarrow> enc pos \<noteq> ([] :: bytes)"
    "\<And>limit pos. limit \<noteq> 0 \<Longrightarrow> pos \<le> length ?xs \<Longrightarrow>
       withdrawals_by_status paginate WITHDRAWAL_STATUS_REQUESTED (Some \<lparr>pg_Key = enc pos, pg_Limit = limit\<rparr>) s =
         Inr (map snd (take limit (drop pos ?xs)), if pos + limit < length ?xs then enc (pos + limit) else [])"
    by (rule withdrawals_page[OF assms, of WITHDRAWAL_STATUS_REQUESTED]) (rule that; assumption)
  have "requested_loop (\<lambda>page. wire (query_RequestedWithdrawals paginate (Some page) s)) (enc 0) [] =
      Some (Inr ([] @ map (toWithdrawal \<circ> snd) (drop 0 ?xs)))"
    by (rule requested_loop_pages) (simp_all add: enc(2,3) query_RequestedWithdrawals_def wire_def)
  moreover have "?xs = requested_records s" by (simp only: records_with_def requested_records_def wstat_inject)
  ultimately show ?thesis by (simp add: svm_RequestedWithdrawals_def enc(1))
qed

text \<open>A paginator whose keys are as long as the position they stand for.\<close>

definition unary_pages :: "('k, 'v) paginator" where
  "unary_pages ks page f =
     (let pos = length (pg_Key page); l = pg_Limit page in
      rbind (rmap f (take l (drop pos ks)))
        (\<lambda>vs. Inr (vs, if pos + l < length ks then replicate (pos + l) (CHR ''k'') else [])))"

lemma unary_pages_through: "pages_through unary_pages"
  unfolding pages_through_def unary_pages_def
  by (rule exI[where x = "\<lambda>n. replicate n (CHR ''k'')"]) (simp add: Let_def)

lemma requested_withdrawals_are_complete_witness:
  "\<exists>s. bridge_reaches fakeBank (bridge_env_ok strict_codec Some) 2 (s, None) \<and> Withdrawal s \<noteq> [] \<and>
     svm_RequestedWithdrawals (\<lambda>page. wire (query_RequestedWithdrawals unary_pages (Some page) s)) =
       Some (Inr (map (toWithdrawal \<circ> snd) (requested_records s)))"
proof -
  obtain s i where s: "bridge_reaches fakeBank (bridge_env_ok strict_codec Some) 2 (s, None)" "kv_get (Withdrawal s) i \<noteq> None"
    using demo_reaches by blast
  have "bridge_ok strict_codec Some s" using reachable_ok[OF s(1)] by simp
  note inv = bridge_okD(5)[OF this]
  have "Withdrawal s \<noteq> []" using s(2) by auto
  with s(1) requested_withdrawals_are_complete[OF inv unary_pages_through] show ?thesis by blast
qed

text \<open>The stakes of the linked validators, page after page, and whom they count.\<close>

lemma stakes_of_page_append:
  "stakes_of_page E names (xs @ ys) =
     rbind (stakes_of_page E names xs) (\<lambda>a. rbind (stakes_of_page E names ys) (\<lambda>b. Inr (a @ b)))"
proof (induction xs)
  case Nil
  show ?case by (cases "stakes_of_page E names ys") simp_all
next
  case (Cons v xs)
  then show ?case
    by (cases "validator_stake E names v"; cases "stakes_of_page E names xs"; cases "stakes_of_page E names ys") (auto split: option.splits)
qed

lemma stakes_loop_pages:
  assumes page: "\<And>pos. pos \<le> length xs \<Longrightarrow> validators \<lparr>pg_Key = enc pos, pg_Limit = 200\<rparr> =
      Inr (take 200 (drop pos xs), if pos + 200 < length xs then enc (pos + 200) else [])"
    and enc: "\<And>pos. pos \<noteq> 0 \<Longrightarrow> enc pos \<noteq> []" and pos: "pos \<le> length xs"
  shows "stakes_loop E validators names (enc pos) out =
    Some (rbind (stakes_of_page E names (drop pos xs)) (\<lambda>es. Inr (out @ es)))"
  using pos
proof (induction "length xs - pos" arbitrary: pos out rule: less_induct)
  case less
  show ?case
  proof (cases "pos + 200 < length xs")
    case True
    have split: "drop pos xs = take 200 (drop pos xs) @ drop (pos + 200) xs"
      using append_take_drop_id[of 200 "drop pos xs"] by (simp add: add.commute)
    show ?thesis
    proof (cases "stakes_of_page E names (take 200 (drop pos xs))")
      case (Inl e)
      then show ?thesis
        by (subst stakes_loop.simps, subst split) (simp add: page[OF less.prems] stakes_of_page_append)
    next
      case (Inr es)
      have "stakes_loop E validators names (enc pos) out = stakes_loop E validators names (enc (pos + 200)) (out @ es)"
        by (subst stakes_loop.simps) (simp add: page[OF less.prems] True enc Inr)
      also have "\<dots> = Some (rbind (stakes_of_page E names (drop (pos + 200) xs)) (\<lambda>fs. Inr ((out @ es) @ fs)))"
        using True by (intro less.hyps) simp_all
      also have "\<dots> = Some (rbind (stakes_of_page E names (drop pos xs)) (\<lambda>fs. Inr (out @ fs)))"
        unfolding arg_cong[OF split, of "stakes_of_page E names"]
        by (cases "stakes_of_page E names (drop (pos + 200) xs)") (simp_all add: stakes_of_page_append Inr)
      finally show ?thesis .
    qed
  next
    case False
    then show ?thesis
      by (subst stakes_loop.simps, cases "stakes_of_page E names (drop pos xs)") (simp_all add: page[OF less.prems])
  qed
qed

text \<open>A validator counts when it is not jailed, has stake, and its moniker is a name its operator owns.\<close>

definition linked_stake :: "env \<Rightarrow> 'b bridge_state \<Rightarrow> staking_validator \<Rightarrow> stake_entry option" where
  "linked_stake E s val =
     (case (kv_get (ActiveName s) (TrimSpace (sv_Moniker val)), ValAddressFromBech32 E (sv_OperatorAddress val)) of
        (Some nr, Some oper) \<Rightarrow>
          if \<not> sv_Jailed val \<and> 0 < sv_Tokens val \<and> TrimSpace (sv_Moniker val) \<noteq> '''' \<and>
             AccAddressFromBech32 E (nr_Address nr) = Some oper
          then Some \<lparr>se_Account = TrimSpace (sv_Moniker val), se_Tokens = Some (sv_Tokens val)\<rparr> else None
      | _ \<Rightarrow> None)"

abbreviation resolve :: "'b bridge_state \<Rightarrow> string \<Rightarrow> string + name_record" where
  "resolve s name \<equiv> wire (query_ResolveName (Some name) s)"

lemma key_not_found: "isKeyNotFound ''key not found''"
  by (simp add: isKeyNotFound_def HasPrefix_def)

lemma stake_resolved: "validator_stake E (resolve s) val = Inr (linked_stake E s val)"
  by (auto simp: validator_stake_def linked_stake_def ownerOfName_def wire_def query_ResolveName_def valid_request_def from_option_def
      key_not_found Let_def split: option.splits)

lemma stakes_of_resolved: "stakes_of_page E (resolve s) vals = Inr (List.map_filter (linked_stake E s) vals)"
  by (induction vals) (simp_all add: stake_resolved map_filter_simps split: option.splits)

lemma linked_stake_Some:
  assumes "linked_stake E s val = Some e"
  obtains nr oper where "kv_get (ActiveName s) (se_Account e) = Some nr"
    "ValAddressFromBech32 E (sv_OperatorAddress val) = Some oper" "AccAddressFromBech32 E (nr_Address nr) = Some oper"
  using assms by (auto simp: linked_stake_def split: option.splits if_splits)

lemma in_map_filter: "y \<in> set (List.map_filter f xs) \<longleftrightarrow> (\<exists>x\<in>set xs. f x = Some y)"
  by (induction xs) (auto simp: map_filter_simps split: option.splits)

lemma linked_accounts_distinct:
  assumes "distinct (map (\<lambda>v. ValAddressFromBech32 E (sv_OperatorAddress v)) vals)"
  shows "distinct (map se_Account (List.map_filter (linked_stake E s) vals))"
  using assms
proof (induction vals)
  case (Cons v vals)
  have IH: "distinct (map se_Account (List.map_filter (linked_stake E s) vals))" using Cons by simp
  show ?case
  proof (cases "linked_stake E s v")
    case (Some e)
    have "se_Account e \<noteq> se_Account f" if f: "f \<in> set (List.map_filter (linked_stake E s) vals)" for f
    proof
      assume eq: "se_Account e = se_Account f"
      obtain u where u: "u \<in> set vals" "linked_stake E s u = Some f" using f by (auto simp: in_map_filter)
      obtain nr oper where 1: "kv_get (ActiveName s) (se_Account e) = Some nr"
        "ValAddressFromBech32 E (sv_OperatorAddress v) = Some oper" "AccAddressFromBech32 E (nr_Address nr) = Some oper"
        by (rule linked_stake_Some[OF Some])
      obtain nr' oper' where 2: "kv_get (ActiveName s) (se_Account f) = Some nr'"
        "ValAddressFromBech32 E (sv_OperatorAddress u) = Some oper'" "AccAddressFromBech32 E (nr_Address nr') = Some oper'"
        by (rule linked_stake_Some[OF u(2)])
      from 1 2 eq have "ValAddressFromBech32 E (sv_OperatorAddress v) = ValAddressFromBech32 E (sv_OperatorAddress u)" by simp
      with Cons.prems u(1) show False by force
    qed
    with IH Some show ?thesis by (auto simp: map_filter_simps)
  qed (use IH in \<open>simp add: map_filter_simps\<close>)
qed (simp add: map_filter_simps)

text \<open>
  The stakes that decide the authority of the bank are exactly those of the validators that are not
  jailed and own the Steem name in their moniker, in the order the staking module lists them. The paging
  loop ends on every list, and no Steem account is counted twice when the operators are distinct.
\<close>

theorem stakes_belong_to_linked_validators:
  assumes "enc 0 = []" "\<And>pos. pos \<noteq> 0 \<Longrightarrow> enc pos \<noteq> []"
    and "\<And>pos. pos \<le> length vals \<Longrightarrow> validators \<lparr>pg_Key = enc pos, pg_Limit = 200\<rparr> =
      Inr (take 200 (drop pos vals), if pos + 200 < length vals then enc (pos + 200) else [])"
  shows "svm_query_ValidatorStakes E validators (\<lambda>name. wire (query_ResolveName (Some name) s)) =
      Some (Inr (List.map_filter (linked_stake E s) vals)) \<and>
    (distinct (map (\<lambda>v. ValAddressFromBech32 E (sv_OperatorAddress v)) vals) \<longrightarrow>
      distinct (map se_Account (List.map_filter (linked_stake E s) vals)))"
proof -
  have "stakes_loop E validators (resolve s) (enc 0) [] =
      Some (rbind (stakes_of_page E (resolve s) (drop 0 vals)) (\<lambda>es. Inr ([] @ es)))"
    by (rule stakes_loop_pages[OF assms(3,2)]) simp_all
  then have "svm_query_ValidatorStakes E validators (resolve s) = Some (Inr (List.map_filter (linked_stake E s) vals))"
    by (simp add: svm_query_ValidatorStakes_def assms(1) stakes_of_resolved)
  with linked_accounts_distinct show ?thesis by blast
qed

definition demo_validator :: "string \<Rightarrow> string \<Rightarrow> staking_validator" where
  "demo_validator oper name = \<lparr>sv_Jailed = False, sv_Tokens = 5, sv_Moniker = name, sv_OperatorAddress = oper\<rparr>"

lemma stakes_belong_to_linked_validators_witness:
  "svm_query_ValidatorStakes keyed_env
     (\<lambda>page. Inr (drop (length (pg_Key page)) [demo_validator ''v1'' ''alice'', demo_validator ''v2'' ''alice''], []))
     (\<lambda>name. wire (query_ResolveName (Some name) linked_state)) =
   Some (Inr [\<lparr>se_Account = ''alice'', se_Tokens = Some 5\<rparr>])"
proof -
  let ?vs = "[demo_validator ''v1'' ''alice'', demo_validator ''v2'' ''alice'']"
  have tr: "TrimSpace ''alice'' = ''alice''" by (rule TrimSpace_all_visible) (simp add: visible_def)
  have acc: "AccAddressFromBech32 keyed_env = Some"
    by (simp add: keyed_env_def strict_env_def demo_bridge_env_def plain_env_def)
  have "List.map_filter (linked_stake keyed_env linked_state) ?vs = [\<lparr>se_Account = ''alice'', se_Tokens = Some 5\<rparr>]"
    by (simp add: map_filter_simps linked_stake_def demo_validator_def tr acc linked_state_def kv_get_Cons)
  with stakes_belong_to_linked_validators[of "\<lambda>n. replicate n (CHR ''k'')" ?vs
      "\<lambda>page. Inr (drop (length (pg_Key page)) ?vs, [])" keyed_env linked_state]
  show ?thesis by simp
qed

end
