(* ===== verification/Relayer.thy ===== *)
theory Relayer
  imports Relayer_Scan Multisig_Svm
begin

text \<open>
  The relayer's poll cycle (\<open>oracle/go/relayer/relayer.go\<close>) with the scan cursor (\<open>state.go\<close>,
  \<open>anchor.go\<close>), the duty gate (\<open>validatorgate.go\<close>) and the broadcast (\<open>broadcast.go\<close>). What a cycle
  learns from outside is the record \<open>cycle_io\<close>: the replies of the Steem node, the replies of the
  SteemVM node to queries, the fate of a broadcast, and whether the state file could be written. Logging
  is not modelled. An error is its message.
\<close>

section \<open>The duty gate\<close>

record duty_status =
  ds_Jailed :: bool
  ds_Bonded :: bool
  ds_Status :: string

datatype lookup_error = LookupNotFound string | LookupFailed string

definition validatorCanSubmit :: "duty_status \<Rightarrow> bool \<times> string" where
  "validatorCanSubmit v =
     (if ds_Jailed v then (False, ''validator is jailed'')
      else if \<not> ds_Bonded v then (False, ''validator is not bonded ('' @ ds_Status v @ '')'')
      else (True, ''''))"

definition queryValidatorCanSubmit :: "lookup_error + duty_status \<Rightarrow> bool \<times> string \<times> string option" where
  "queryValidatorCanSubmit resp =
     (case resp of
        Inl (LookupNotFound e) \<Rightarrow> (False, ''not a validator'', None)
      | Inl (LookupFailed e) \<Rightarrow> (False, ''validator lookup failed: '' @ e, Some e)
      | Inr v \<Rightarrow> (case validatorCanSubmit v of (ok, reason) \<Rightarrow> (ok, reason, None)))"

section \<open>Broadcast\<close>

text \<open>
  The node's part in a broadcast: preparing, signing and encoding, the hash of the encoded transaction,
  the reply to \<open>BroadcastTxSync\<close> (the code and the hash), and what polling for the transaction sees
  until the deadline: nothing yet, the code it was executed with, or a cancelled context.
\<close>

datatype poll = NotYet | Executed nat | Cancelled string

record 'm node_io =
  nd_Build :: "'m list \<Rightarrow> u64 \<Rightarrow> string \<Rightarrow> string + bytes"
  nd_Hash :: "bytes \<Rightarrow> string"
  nd_BroadcastTxSync :: "bytes \<Rightarrow> string + (nat \<times> string \<times> string)"
  nd_Polls :: "string \<Rightarrow> poll list"

definition gasPerMsg :: u64 where "gasPerMsg = 400000"
definition gasBase :: u64 where "gasBase = 200000"
definition MaxMsgsPerTx :: nat where "MaxMsgsPerTx = 50"

fun await :: "string \<Rightarrow> poll list \<Rightarrow> string + unit" where
  "await txHash [] = Inl (''attestation tx '' @ txHash @ '' not observed in a block'')"
| "await txHash (NotYet # ps) = await txHash ps"
| "await txHash (Cancelled e # ps) = Inl e"
| "await txHash (Executed code # ps) =
     (if code \<noteq> 0 then Inl (''attestation tx '' @ txHash @ '' failed in block'') else Inr ())"

definition waitForDelivery :: "'m node_io \<Rightarrow> string \<Rightarrow> string + unit" where
  "waitForDelivery nd txHash =
     (if odd (length txHash) \<or> \<not> list_all is_hex txHash then Inl (''invalid tx hash '' @ txHash)
      else await txHash (nd_Polls nd txHash))"

definition broadcastTx :: "'m node_io \<Rightarrow> 'm list \<Rightarrow> u64 \<Rightarrow> string \<Rightarrow> string + string" where
  "broadcastTx nd msgs gas gasPrices =
     rbind (nd_Build nd msgs gas gasPrices) (\<lambda>txBytes.
     case nd_BroadcastTxSync nd txBytes of
       Inl err \<Rightarrow>
         if Contains err ''already seen''
         then rbind (waitForDelivery nd (nd_Hash nd txBytes)) (\<lambda>_. Inr (nd_Hash nd txBytes))
         else Inl (''broadcasting tx: '' @ err)
     | Inr (code, txHash, rawLog) \<Rightarrow>
         if code \<noteq> 0 then Inl (''tx rejected: '' @ rawLog)
         else rbind (waitForDelivery nd txHash) (\<lambda>_. Inr txHash))"

definition BroadcastAttestations :: "bridge_msg node_io \<Rightarrow> bridge_msg list \<Rightarrow> string + string" where
  "BroadcastAttestations nd msgs =
     (if msgs = [] then Inr ''''
      else if length msgs > MaxMsgsPerTx then Inl ''too many messages in one tx''
      else broadcastTx nd msgs (gasBase + gasPerMsg * of_nat (length msgs)) '''')"

section \<open>Steem and the cursor\<close>

record relayer_config =
  rc_SteemSymbol :: string
  rc_SbdSymbol :: string
  rc_MaxBlocksPerPoll :: u64
  rc_StartBlock :: u64

record cycle_io =
  io_Params :: "string + bridge_params"
  io_Validator :: "lookup_error + duty_status"
  io_LastIrreversible :: "string + u64"
  io_GetBlock :: "u64 \<Rightarrow> string + steem_block option"
  io_DepositByTxid :: "string \<Rightarrow> u32 \<Rightarrow> string + deposit"
  io_NameRegistrationByTxid :: "string \<Rightarrow> u32 \<Rightarrow> string + name_registration"
  io_GetWithdrawal :: "u64 \<Rightarrow> string + withdrawal"
  io_Node :: "bridge_msg node_io"
  io_SaveState :: "u64 \<Rightarrow> string option"

definition LastIrreversibleBlock :: "cycle_io \<Rightarrow> string + u64" where
  "LastIrreversibleBlock io =
     rbind (io_LastIrreversible io) (\<lambda>n.
     if n = 0 then Inl ''steem rpc: zero last irreversible block'' else Inr n)"

definition BlockID :: "cycle_io \<Rightarrow> u64 \<Rightarrow> string + string" where
  "BlockID io num =
     rbind (io_GetBlock io num) (\<lambda>block.
     case block of
       None \<Rightarrow> Inl ''steem rpc returned no data''
     | Some b \<Rightarrow> if sb_BlockID b = '''' then Inl ''steem rpc returned no data'' else Inr (sb_BlockID b))"

text \<open>The numbers \<open>from..to\<close>; the largest number of the type does not occur.\<close>

fun fetch_blocks :: "cycle_io \<Rightarrow> u64 list \<Rightarrow> string + (u64 \<times> steem_block) list" where
  "fetch_blocks io [] = Inr []"
| "fetch_blocks io (num # nums) =
     rbind (io_GetBlock io num) (\<lambda>block.
     case block of
       None \<Rightarrow> Inl ''steem rpc returned no data for irreversible block''
     | Some b \<Rightarrow> rbind (fetch_blocks io nums) (\<lambda>bs. Inr ((num, b) # bs)))"

definition block_range :: "u64 \<Rightarrow> u64 \<Rightarrow> u64 list" where
  "block_range from to = map of_nat [unat from..<Suc (unat to)]"

definition FetchBlocks :: "cycle_io \<Rightarrow> u64 \<Rightarrow> u64 \<Rightarrow> string + (u64 \<times> steem_block) list" where
  "FetchBlocks io from to = (if from > to then Inr [] else fetch_blocks io (block_range from to))"

definition anchor_verify :: "cycle_io \<Rightarrow> string \<Rightarrow> u64 \<Rightarrow> string \<Rightarrow> string + string" where
  "anchor_verify io verifiedID block ident =
     (if ident = '''' \<or> ident = verifiedID then Inr verifiedID
      else case BlockID io block of
        Inl err \<Rightarrow> Inl (''steem anchor: fetching block: '' @ err)
      | Inr got \<Rightarrow> if got \<noteq> ident then Inl ''steem anchor mismatch'' else Inr ident)"

definition anchoredCursor :: "u64 \<Rightarrow> u64 \<Rightarrow> u64" where
  "anchoredCursor cursor chainStart =
     (if chainStart > 0 \<and> cursor < chainStart - 1 then chainStart - 1 else cursor)"

definition initialCursor :: "u64 \<Rightarrow> u64 \<Rightarrow> u64 \<Rightarrow> u64" where
  "initialCursor localStart chainStart lib =
     (if localStart > 0 then localStart - 1 else if chainStart > 0 then chainStart - 1 else lib)"

section \<open>One cycle\<close>

definition hasConfirmation :: "confirmation list \<Rightarrow> string \<Rightarrow> bool" where
  "hasConfirmation cs valoperAddr = list_ex (\<lambda>c. c_ValidatorAddress c = valoperAddr) cs"

definition ignoreNotFound :: "string \<Rightarrow> string option" where
  "ignoreNotFound err = (if Contains err ''not found'' \<or> Contains err ''NotFound'' then None else Some err)"

definition alreadyAttested :: "cycle_io \<Rightarrow> scanned_transfer \<Rightarrow> memo_intent \<Rightarrow> string \<Rightarrow> string + bool" where
  "alreadyAttested io t intent valoperAddr =
     (case intent of
        IntentRegister \<Rightarrow>
          (case io_NameRegistrationByTxid io (t_Txid t) (t_OpIndex t) of
             Inl err \<Rightarrow> (case ignoreNotFound err of None \<Rightarrow> Inr False | Some e \<Rightarrow> Inl e)
           | Inr r \<Rightarrow>
               if n_Status r \<noteq> NAME_REGISTRATION_STATUS_PENDING then Inr True
               else Inr (hasConfirmation (n_ValidatorConfirmations r) valoperAddr))
      | IntentDeposit \<Rightarrow>
          (case io_DepositByTxid io (t_Txid t) (t_OpIndex t) of
             Inl err \<Rightarrow> (case ignoreNotFound err of None \<Rightarrow> Inr False | Some e \<Rightarrow> Inl e)
           | Inr d \<Rightarrow>
               if d_Status d \<noteq> DEPOSIT_STATUS_PENDING then Inr True
               else Inr (hasConfirmation (d_ValidatorConfirmations d) valoperAddr)))"

definition payoutMatchesWithdrawal :: "cycle_io \<Rightarrow> payout \<Rightarrow> string + (bool \<times> string)" where
  "payoutMatchesWithdrawal io p =
     (case io_GetWithdrawal io (po_WithdrawalID p) of
        Inl err \<Rightarrow> if Contains err ''key not found'' then Inr (False, ''no such withdrawal'') else Inl err
      | Inr w \<Rightarrow> Inr (comparePayout p w))"

text \<open>The signer's own name, as an account and as an operator, and the parameters of this cycle.\<close>

record cycle_env =
  ce_Env :: env
  ce_Cfg :: relayer_config
  ce_Signer :: string
  ce_Valoper :: string

fun transfer_messages :: "cycle_env \<Rightarrow> cycle_io \<Rightarrow> bridge_params \<Rightarrow> scanned_transfer list \<Rightarrow> string + bridge_msg list" where
  "transfer_messages C io params [] = Inr []"
| "transfer_messages C io params (t # ts) =
     (let intent = RouteMemo (t_Memo t) in
      if intent = IntentRegister \<and> \<not> NameServiceEnabled params then transfer_messages C io params ts
      else if intent = IntentDeposit \<and> \<not> BridgeEnabled params then transfer_messages C io params ts
      else if DeriveDestination (ce_Env C) (t_Memo t) = None then transfer_messages C io params ts
      else
        rbind (alreadyAttested io t intent (ce_Valoper C)) (\<lambda>attested.
        if attested then transfer_messages C io params ts
        else rbind (transfer_messages C io params ts) (\<lambda>msgs. Inr (BuildMsg t intent (ce_Signer C) GatewayAccount # msgs))))"

fun payout_messages :: "cycle_env \<Rightarrow> cycle_io \<Rightarrow> payout list \<Rightarrow> string + bridge_msg list" where
  "payout_messages C io [] = Inr []"
| "payout_messages C io (p # ps) =
     rbind (payoutMatchesWithdrawal io p) (\<lambda>(matches, why).
     if \<not> matches then payout_messages C io ps
     else rbind (payout_messages C io ps) (\<lambda>msgs. Inr (MsgAttestWithdrawalPayout (payoutMsg p (ce_Signer C)) # msgs)))"

definition block_messages :: "cycle_env \<Rightarrow> cycle_io \<Rightarrow> bridge_params \<Rightarrow> u64 \<times> steem_block \<Rightarrow> string + bridge_msg list" where
  "block_messages C io params nb =
     (let steemSymbol = rc_SteemSymbol (ce_Cfg C); sbdSymbol = rc_SbdSymbol (ce_Cfg C) in
      rbind (transfer_messages C io params (ExtractGatewayTransfers (fst nb) (snd nb) GatewayAccount steemSymbol sbdSymbol)) (\<lambda>ts.
      rbind (if BridgeOutEnabled params
             then payout_messages C io (ExtractGatewayPayouts (fst nb) (snd nb) GatewayAccount steemSymbol sbdSymbol)
             else Inr []) (\<lambda>ps.
      Inr (ts @ ps))))"

fun scan_blocks ::
    "cycle_env \<Rightarrow> cycle_io \<Rightarrow> bridge_params \<Rightarrow> (u64 \<times> steem_block) list \<Rightarrow> bridge_msg list \<Rightarrow> u64 \<Rightarrow>
     string + (bridge_msg list \<times> u64)" where
  "scan_blocks C io params [] msgs lastFullBlock = Inr (msgs, lastFullBlock)"
| "scan_blocks C io params (nb # nbs) msgs lastFullBlock =
     rbind (block_messages C io params nb) (\<lambda>blockMsgs.
     if length msgs + length blockMsgs > MaxMsgsPerTx then Inr (msgs, lastFullBlock)
     else scan_blocks C io params nbs (msgs @ blockMsgs) (fst nb))"

text \<open>The cursor in memory, the cursor in the state file, and the anchor verified by this process.\<close>

record relayer =
  r_LastScannedBlock :: u64
  r_Saved :: u64
  r_VerifiedID :: string

definition move_cursor :: "cycle_io \<Rightarrow> u64 \<Rightarrow> relayer \<Rightarrow> string option \<times> relayer" where
  "move_cursor io c rs =
     (case io_SaveState io c of
        None \<Rightarrow> (None, rs\<lparr>r_LastScannedBlock := c, r_Saved := c\<rparr>)
      | Some err \<Rightarrow> (Some err, rs\<lparr>r_LastScannedBlock := c\<rparr>))"

text \<open>From the cursor to the end of the cycle.\<close>

definition scan_cycle :: "cycle_env \<Rightarrow> cycle_io \<Rightarrow> bridge_params \<Rightarrow> u64 \<Rightarrow> relayer \<Rightarrow> string option \<times> relayer" where
  "scan_cycle C io params lib rs =
     (let cursor = r_LastScannedBlock rs;
          from = cursor + 1;
          to = min lib (cursor + rc_MaxBlocksPerPoll (ce_Cfg C)) in
      if from > to then (None, rs)
      else case
        rbind (FetchBlocks io from to) (\<lambda>blocks.
        rbind (scan_blocks C io params blocks [] cursor) (\<lambda>(msgs, lastFullBlock).
        rbind (BroadcastAttestations (io_Node io) msgs) (\<lambda>_.
        Inr lastFullBlock))) of
        Inl err \<Rightarrow> (Some err, rs)
      | Inr lastFullBlock \<Rightarrow> if lastFullBlock \<noteq> cursor then move_cursor io lastFullBlock rs else (None, rs))"

definition cursor_cycle :: "cycle_env \<Rightarrow> cycle_io \<Rightarrow> bridge_params \<Rightarrow> relayer \<Rightarrow> string option \<times> relayer" where
  "cursor_cycle C io params rs =
     (let chainStart = RelayerStartBlock params; cursor = r_LastScannedBlock rs in
      case LastIrreversibleBlock io of
        Inl err \<Rightarrow> (Some err, rs)
      | Inr lib \<Rightarrow>
          if cursor = 0 then move_cursor io (anchoredCursor (initialCursor (rc_StartBlock (ce_Cfg C)) chainStart lib) chainStart) rs
          else if anchoredCursor cursor chainStart \<noteq> cursor then move_cursor io (anchoredCursor cursor chainStart) rs
          else scan_cycle C io params lib rs)"

definition runCycle :: "cycle_env \<Rightarrow> cycle_io \<Rightarrow> relayer \<Rightarrow> string option \<times> relayer" where
  "runCycle C io rs =
     (case io_Params io of
        Inl err \<Rightarrow> (Some err, rs)
      | Inr params \<Rightarrow>
          if \<not> BridgeEnabled params \<and> \<not> NameServiceEnabled params then (None, rs)
          else if \<not> fst (queryValidatorCanSubmit (io_Validator io)) then (None, rs)
          else case anchor_verify io (r_VerifiedID rs) (RelayerStartBlock params) (RelayerStartBlockId params) of
            Inl err \<Rightarrow> (Some err, rs)
          | Inr verified \<Rightarrow> cursor_cycle C io params (rs\<lparr>r_VerifiedID := verified\<rparr>))"

section \<open>No transfer is skipped\<close>

text \<open>The messages went into a block and were executed.\<close>

definition delivered :: "bridge_msg node_io \<Rightarrow> bridge_msg list \<Rightarrow> bool" where
  "delivered nd msgs \<longleftrightarrow>
     (\<exists>txBytes txHash. nd_Build nd msgs (gasBase + gasPerMsg * of_nat (length msgs)) '''' = Inr txBytes \<and>
        (txHash = nd_Hash nd txBytes \<or> (\<exists>rawLog. nd_BroadcastTxSync nd txBytes = Inr (0, txHash, rawLog))) \<and>
        Executed 0 \<in> set (nd_Polls nd txHash))"

lemma await_executed: "await h ps = Inr () \<Longrightarrow> Executed 0 \<in> set ps"
  by (induction h ps rule: await.induct) (auto split: if_splits)

lemma waited: "waitForDelivery nd h = Inr () \<Longrightarrow> Executed 0 \<in> set (nd_Polls nd h)"
  by (auto simp: waitForDelivery_def dest: await_executed split: if_splits)

lemma broadcast_delivered:
  assumes "BroadcastAttestations nd msgs = Inr h" "msgs \<noteq> []"
  shows "delivered nd msgs" "length msgs \<le> MaxMsgsPerTx"
proof -
  show "length msgs \<le> MaxMsgsPerTx" using assms by (auto simp: BroadcastAttestations_def split: if_splits)
  have "broadcastTx nd msgs (gasBase + gasPerMsg * of_nat (length msgs)) '''' = Inr h"
    using assms by (auto simp: BroadcastAttestations_def split: if_splits)
  then obtain txBytes where b: "nd_Build nd msgs (gasBase + gasPerMsg * of_nat (length msgs)) '''' = Inr txBytes"
    "(case nd_BroadcastTxSync nd txBytes of
       Inl err \<Rightarrow> if Contains err ''already seen''
         then rbind (waitForDelivery nd (nd_Hash nd txBytes)) (\<lambda>_. Inr (nd_Hash nd txBytes))
         else Inl (''broadcasting tx: '' @ err)
     | Inr (code, txHash, rawLog) \<Rightarrow> if code \<noteq> 0 then Inl (''tx rejected: '' @ rawLog)
         else rbind (waitForDelivery nd txHash) (\<lambda>_. Inr txHash)) = Inr h"
    by (auto simp: broadcastTx_def rbind_eq_Inr)
  then show "delivered nd msgs"
    unfolding delivered_def
    by (cases "nd_BroadcastTxSync nd txBytes") (auto simp: rbind_eq_Inr dest!: waited split: if_splits)
qed

text \<open>
  Block \<open>n\<close> was dealt with in a cycle: the block was there, and every message it called for went into a
  transaction that was executed.
\<close>

definition handled :: "cycle_env \<Rightarrow> cycle_io \<Rightarrow> u64 \<Rightarrow> bool" where
  "handled C io n \<longleftrightarrow>
     (\<exists>params block blockMsgs msgs. io_Params io = Inr params \<and> io_GetBlock io n = Inr (Some block) \<and>
        block_messages C io params (n, block) = Inr blockMsgs \<and> set blockMsgs \<subseteq> set msgs \<and>
        (msgs = [] \<or> delivered (io_Node io) msgs))"

lemma fetched:
  assumes "fetch_blocks io nums = Inr bs"
  shows "map fst bs = nums" "\<And>n b. (n, b) \<in> set bs \<Longrightarrow> io_GetBlock io n = Inr (Some b)"
  using assms
  by (induction io nums arbitrary: bs rule: fetch_blocks.induct) (auto simp: rbind_eq_Inr split: option.splits)

lemma scanned:
  assumes "scan_blocks C io params nbs msgs0 last0 = Inr (msgs, lastFull)"
  shows "\<exists>xs ys. nbs = xs @ ys \<and> set msgs0 \<subseteq> set msgs \<and> lastFull = last (last0 # map fst xs) \<and>
    (\<forall>nb\<in>set xs. \<exists>bm. block_messages C io params nb = Inr bm \<and> set bm \<subseteq> set msgs)"
  using assms
proof (induction nbs arbitrary: msgs0 last0)
  case Nil
  then show ?case by (intro exI[where x = "[]"]) simp
next
  case (Cons nb nbs)
  from Cons.prems obtain bm where bm: "block_messages C io params nb = Inr bm"
    "(if length msgs0 + length bm > MaxMsgsPerTx then Inr (msgs0, last0)
      else scan_blocks C io params nbs (msgs0 @ bm) (fst nb)) = Inr (msgs, lastFull)"
    by (auto simp: rbind_eq_Inr)
  show ?case
  proof (cases "length msgs0 + length bm > MaxMsgsPerTx")
    case True
    with bm show ?thesis by (intro exI[where x = "[]"] exI[where x = "nb # nbs"]) simp
  next
    case False
    with bm(2) obtain xs ys where xs: "nbs = xs @ ys" "set (msgs0 @ bm) \<subseteq> set msgs" "lastFull = last (fst nb # map fst xs)"
      "\<forall>nb\<in>set xs. \<exists>bm. block_messages C io params nb = Inr bm \<and> set bm \<subseteq> set msgs"
      using Cons.IH[of "msgs0 @ bm" "fst nb"] by auto
    with bm(1) show ?thesis by (intro exI[where x = "nb # xs"] exI[where x = ys]) auto
  qed
qed

lemma block_range_nth: "i < length (block_range from to) \<Longrightarrow> block_range from to ! i = of_nat (unat from + i)"
  unfolding block_range_def length_map length_upt
  by (subst nth_map) (simp_all add: nth_upt del: upt_Suc)

lemma unat_of_small_nat: "k < 2 ^ 64 \<Longrightarrow> unat (of_nat k :: u64) = k"
  by (simp add: unat_of_nat take_bit_nat_eq_self)

text \<open>What a scan that moves the cursor has done.\<close>

lemma scan_cycle_handles:
  assumes "scan_cycle C io params lib rs = (err, rs')" "io_Params io = Inr params" "r_LastScannedBlock rs \<noteq> - 1"
  shows "r_LastScannedBlock rs \<le> r_LastScannedBlock rs'" "r_LastScannedBlock rs' = r_LastScannedBlock rs \<or> r_LastScannedBlock rs' \<le> lib"
    "r_Saved rs' = r_Saved rs \<or> r_Saved rs' = r_LastScannedBlock rs'"
    "\<And>n. r_LastScannedBlock rs < n \<Longrightarrow> n \<le> r_LastScannedBlock rs' \<Longrightarrow> handled C io n"
proof -
  let ?c = "r_LastScannedBlock rs" and ?to = "min lib (r_LastScannedBlock rs + rc_MaxBlocksPerPoll (ce_Cfg C))"
  have "?c \<le> r_LastScannedBlock rs' \<and> (r_LastScannedBlock rs' = ?c \<or> r_LastScannedBlock rs' \<le> lib) \<and>
    (r_Saved rs' = r_Saved rs \<or> r_Saved rs' = r_LastScannedBlock rs') \<and>
    (\<forall>n. ?c < n \<longrightarrow> n \<le> r_LastScannedBlock rs' \<longrightarrow> handled C io n)"
  proof (cases "rs' = rs")
    case False
    with assms(1) obtain msgs h lastFull bs where fr: "\<not> ?c + 1 > ?to" and bs: "FetchBlocks io (?c + 1) ?to = Inr bs"
      and sc: "scan_blocks C io params bs [] ?c = Inr (msgs, lastFull)" and br: "BroadcastAttestations (io_Node io) msgs = Inr h"
      and mv: "lastFull \<noteq> ?c" "move_cursor io lastFull rs = (err, rs')"
      by (auto simp: scan_cycle_def Let_def rbind_eq_Inr split: if_splits sum.splits prod.splits)
    have cur: "r_LastScannedBlock rs' = lastFull" "r_Saved rs' = r_Saved rs \<or> r_Saved rs' = lastFull"
      using mv(2) by (auto simp: move_cursor_def split: option.splits)
    have nums: "fetch_blocks io (block_range (?c + 1) ?to) = Inr bs" using bs fr by (simp add: FetchBlocks_def)
    note f = fetched[OF nums]
    obtain xs ys where xs: "bs = xs @ ys" "lastFull = last (?c # map fst xs)"
      "\<forall>nb\<in>set xs. \<exists>bm. block_messages C io params nb = Inr bm \<and> set bm \<subseteq> set msgs"
      using scanned[OF sc] by auto
    have ne: "xs \<noteq> []" using xs(2) mv(1) by auto
    have "1 + ?c \<noteq> 0" using assms(3) add_eq_0_iff[of 1 ?c] by auto
    then have u1: "unat (?c + 1) = Suc (unat ?c)" by (simp add: unatSuc[OF \<open>1 + ?c \<noteq> 0\<close>] add.commute[of ?c])
    let ?k = "length xs"
    have len: "?k \<le> length (block_range (?c + 1) ?to)" using f(1) xs(1) by (metis length_append length_map le_add1)
    have fst_nth: "fst (xs ! i) = of_nat (Suc (unat ?c) + i)" if "i < ?k" for i
    proof -
      have "fst (xs ! i) = map fst bs ! i" using that xs(1) by (simp add: nth_append)
      also have "\<dots> = of_nat (Suc (unat ?c) + i)" using block_range_nth[of i "?c + 1" ?to] that len f(1) u1 by simp
      finally show ?thesis .
    qed
    have top: "Suc (unat ?c) + i \<le> unat ?to" if "i < ?k" for i
      using that len u1 by (simp add: block_range_def del: upt_Suc)
    have small: "unat (of_nat (Suc (unat ?c) + i) :: u64) = Suc (unat ?c) + i" if "i < ?k" for i
    proof -
      have "Suc (unat ?c) + i < 2 ^ 64" using top[OF that] unsigned_less[of ?to, where 'a = nat] by simp
      then show ?thesis by (rule unat_of_small_nat)
    qed
    have lf: "lastFull = fst (xs ! (?k - 1))" using xs(2) ne by (simp add: last_map last_conv_nth)
    have ulf: "unat lastFull = unat ?c + ?k"
    proof -
      have "?k - 1 < ?k" using ne by simp
      from small[OF this] fst_nth[OF this] lf ne show ?thesis by (simp del: of_nat_Suc of_nat_add)
    qed
    have "handled C io n" if "?c < n" "n \<le> lastFull" for n
    proof -
      let ?i = "unat n - Suc (unat ?c)"
      have i: "?i < ?k" "unat n = Suc (unat ?c) + ?i"
        using that ulf by (auto simp: word_less_nat_alt word_le_nat_alt)
      have "fst (xs ! ?i) = of_nat (unat n)" using fst_nth[OF i(1)] unfolding i(2)[symmetric] .
      then have n: "fst (xs ! ?i) = n" by simp
      obtain b where b: "xs ! ?i = (n, b)" using n by (cases "xs ! ?i") auto
      have mem: "(n, b) \<in> set xs" using b i(1) by (metis nth_mem)
      obtain bm where "block_messages C io params (n, b) = Inr bm" "set bm \<subseteq> set msgs" using xs(3) mem by blast
      moreover have "io_GetBlock io n = Inr (Some b)" using f(2) mem xs(1) by simp
      moreover have "msgs = [] \<or> delivered (io_Node io) msgs" using broadcast_delivered(1)[OF br] by blast
      ultimately show ?thesis unfolding handled_def using assms(2) by blast
    qed
    moreover have "?c \<le> lastFull" using ulf by (simp add: word_le_nat_alt)
    moreover have "lastFull \<le> lib"
      using top[of "?k - 1"] ne ulf by (simp add: word_le_nat_alt min_def split: if_splits)
    ultimately show ?thesis using cur by simp
  qed (auto dest: leD)
  then show "?c \<le> r_LastScannedBlock rs'" "r_LastScannedBlock rs' = ?c \<or> r_LastScannedBlock rs' \<le> lib"
    "r_Saved rs' = r_Saved rs \<or> r_Saved rs' = r_LastScannedBlock rs'"
    "\<And>n. ?c < n \<Longrightarrow> n \<le> r_LastScannedBlock rs' \<Longrightarrow> handled C io n" by blast+
qed

text \<open>
  The life of a relayer: it starts without a state file, runs one cycle after the other, and may be
  restarted at any time, which leaves it with the saved cursor. The list holds the outside worlds of the
  cycles so far; the number is where its cursor was last put without scanning, on the first run or
  because it lay before the chain's anchor.
\<close>

definition repositions :: "cycle_io \<Rightarrow> relayer \<Rightarrow> relayer \<Rightarrow> bool" where
  "repositions io rs rs' \<longleftrightarrow> r_LastScannedBlock rs' \<noteq> r_LastScannedBlock rs \<and>
     (\<exists>p. io_Params io = Inr p \<and>
        (r_LastScannedBlock rs = 0 \<or> anchoredCursor (r_LastScannedBlock rs) (RelayerStartBlock p) \<noteq> r_LastScannedBlock rs))"

definition new_relayer :: relayer where
  "new_relayer = \<lparr>r_LastScannedBlock = 0, r_Saved = 0, r_VerifiedID = ''''\<rparr>"

inductive relayer_run :: "cycle_env \<Rightarrow> cycle_io list \<Rightarrow> u64 \<Rightarrow> relayer \<Rightarrow> bool" for C where
  start: "relayer_run C [] 0 new_relayer"
| cycle: "relayer_run C ios base rs \<Longrightarrow> runCycle C io rs = (err, rs') \<Longrightarrow>
    relayer_run C (io # ios) (if repositions io rs rs' then r_LastScannedBlock rs' else base) rs'"
| restart: "relayer_run C ios base rs \<Longrightarrow>
    relayer_run C ios base (rs\<lparr>r_LastScannedBlock := r_Saved rs, r_VerifiedID := ''''\<rparr>)"

inductive_cases relayer_run_ConsE: "relayer_run C (io # ios) base rs"

lemma move_cursor_effect:
  assumes "move_cursor io c rs = (err, rs')"
  shows "r_LastScannedBlock rs' = c" "r_Saved rs' = r_Saved rs \<or> r_Saved rs' = c"
  using assms by (auto simp: move_cursor_def split: option.splits)

lemma runCycle_cases:
  assumes "runCycle C io rs = (err, rs')"
  obtains (idle) "r_LastScannedBlock rs' = r_LastScannedBlock rs" "r_Saved rs' = r_Saved rs"
  | (first) p lib where "io_Params io = Inr p" "LastIrreversibleBlock io = Inr lib" "r_LastScannedBlock rs = 0"
      "r_LastScannedBlock rs' = anchoredCursor (initialCursor (rc_StartBlock (ce_Cfg C)) (RelayerStartBlock p) lib) (RelayerStartBlock p)"
      "r_Saved rs' = r_Saved rs \<or> r_Saved rs' = r_LastScannedBlock rs'"
  | (jump) p where "io_Params io = Inr p" "r_LastScannedBlock rs' = anchoredCursor (r_LastScannedBlock rs) (RelayerStartBlock p)"
      "r_LastScannedBlock rs' \<noteq> r_LastScannedBlock rs" "r_Saved rs' = r_Saved rs \<or> r_Saved rs' = r_LastScannedBlock rs'"
  | (scan) p lib rs1 where "io_Params io = Inr p" "LastIrreversibleBlock io = Inr lib" "r_LastScannedBlock rs \<noteq> 0"
      "anchoredCursor (r_LastScannedBlock rs) (RelayerStartBlock p) = r_LastScannedBlock rs"
      "r_LastScannedBlock rs1 = r_LastScannedBlock rs" "r_Saved rs1 = r_Saved rs" "scan_cycle C io p lib rs1 = (err, rs')"
proof (cases "io_Params io")
  case (Inl e)
  with assms show thesis by (intro idle) (simp_all add: runCycle_def)
next
  case (Inr p)
  note pars = Inr
  show thesis
  proof (cases "anchor_verify io (r_VerifiedID rs) (RelayerStartBlock p) (RelayerStartBlockId p)")
    case (Inl e)
    with assms pars show thesis by (intro idle) (auto simp: runCycle_def split: if_splits)
  next
    case (Inr v)
    let ?rs1 = "rs\<lparr>r_VerifiedID := v\<rparr>"
    show thesis
    proof (cases "\<not> BridgeEnabled p \<and> \<not> NameServiceEnabled p \<or> \<not> fst (queryValidatorCanSubmit (io_Validator io))")
      case True
      with assms pars show thesis by (intro idle) (auto simp: runCycle_def split: if_splits)
    next
      case False
      then have cur: "cursor_cycle C io p ?rs1 = (err, rs')" using assms pars Inr by (auto simp: runCycle_def split: if_splits)
      show thesis
      proof (cases "LastIrreversibleBlock io")
        case (Inl e)
        with cur show thesis by (intro idle) (auto simp: cursor_cycle_def)
      next
        case (Inr lib)
        let ?a = "anchoredCursor (r_LastScannedBlock rs) (RelayerStartBlock p)"
        consider "r_LastScannedBlock rs = 0" | "r_LastScannedBlock rs \<noteq> 0" "?a \<noteq> r_LastScannedBlock rs"
          | "r_LastScannedBlock rs \<noteq> 0" "?a = r_LastScannedBlock rs" by blast
        then show thesis
        proof cases
          case 1
          then have "move_cursor io (anchoredCursor (initialCursor (rc_StartBlock (ce_Cfg C)) (RelayerStartBlock p) lib) (RelayerStartBlock p))
              ?rs1 = (err, rs')" using cur Inr by (simp add: cursor_cycle_def Let_def)
          from move_cursor_effect[OF this] 1 Inr pars show thesis by (intro first) auto
        next
          case 2
          then have "move_cursor io ?a ?rs1 = (err, rs')" using cur Inr by (simp add: cursor_cycle_def Let_def)
          from move_cursor_effect[OF this] 2 pars show thesis by (intro jump) auto
        next
          case 3
          then have "scan_cycle C io p lib ?rs1 = (err, rs')" using cur Inr by (simp add: cursor_cycle_def Let_def)
          with 3 Inr pars show thesis by (intro scan[of p lib ?rs1]) simp_all
        qed
      qed
    qed
  qed
qed

definition steem_numbers_ok :: "cycle_io \<Rightarrow> bool" where
  "steem_numbers_ok io \<longleftrightarrow> io_LastIrreversible io \<noteq> Inr (- 1)"

lemma lib_small: "LastIrreversibleBlock io = Inr lib \<Longrightarrow> steem_numbers_ok io \<Longrightarrow> lib \<noteq> - 1"
  by (auto simp: LastIrreversibleBlock_def steem_numbers_ok_def rbind_eq_Inr split: if_splits)

lemma pred_small: "(x :: u64) > 0 \<Longrightarrow> x - 1 \<noteq> - 1"
  by auto

lemma anchored_small: "c \<noteq> - 1 \<Longrightarrow> anchoredCursor c a \<noteq> - 1"
  using pred_small[of a] by (simp add: anchoredCursor_def)

lemma initial_small: "lib \<noteq> - 1 \<Longrightarrow> initialCursor l a lib \<noteq> - 1"
  using pred_small[of l] pred_small[of a] by (simp add: initialCursor_def)

lemma anchored_ge: "c \<le> anchoredCursor c a"
  by (auto simp: anchoredCursor_def)

lemma relayer_run_inv:
  assumes "relayer_run C ios base rs" "\<forall>io\<in>set ios. steem_numbers_ok io"
  shows "r_Saved rs \<le> r_LastScannedBlock rs \<and> r_LastScannedBlock rs \<noteq> - 1 \<and>
    (\<forall>n. base < n \<longrightarrow> n \<le> r_LastScannedBlock rs \<longrightarrow> (\<exists>io\<in>set ios. handled C io n))"
  using assms
proof (induction rule: relayer_run.induct)
  case start
  show ?case by (auto simp: new_relayer_def)
next
  case (cycle ios base rs io err rs')
  then have IH: "r_Saved rs \<le> r_LastScannedBlock rs" "r_LastScannedBlock rs \<noteq> - 1"
    "\<And>n. base < n \<Longrightarrow> n \<le> r_LastScannedBlock rs \<Longrightarrow> \<exists>io\<in>set ios. handled C io n" by simp_all
  from cycle.hyps(2) show ?case
  proof (cases rule: runCycle_cases)
    case idle
    then have "\<not> repositions io rs rs'" by (simp add: repositions_def)
    with idle IH show ?thesis by auto
  next
    case (first p lib)
    have "r_LastScannedBlock rs' \<noteq> - 1"
      using first(2,4) lib_small[of io lib] initial_small anchored_small cycle.prems by simp
    moreover have "repositions io rs rs' \<or> r_LastScannedBlock rs' = 0" using first by (simp add: repositions_def)
    ultimately show ?thesis using IH(1) first(3,5) by auto
  next
    case (jump p)
    have "repositions io rs rs'" using jump by (simp add: repositions_def)
    moreover have "r_Saved rs' \<le> r_LastScannedBlock rs'"
      using jump(2,4) IH(1) anchored_ge[of "r_LastScannedBlock rs" "RelayerStartBlock p"] by auto
    ultimately show ?thesis using jump(2) anchored_small[OF IH(2)] by (auto dest: leD)
  next
    case (scan p lib rs1)
    have "\<not> repositions io rs rs'" using scan(1,3,4) by (simp add: repositions_def)
    have c1: "r_LastScannedBlock rs1 \<noteq> - 1" using scan(5) IH(2) by simp
    note h = scan_cycle_handles[OF scan(7,1) c1]
    have "\<exists>io'\<in>set (io # ios). handled C io' n" if "base < n" "n \<le> r_LastScannedBlock rs'" for n
      using that IH(3)[of n] h(4)[of n] scan(5) by (cases "n \<le> r_LastScannedBlock rs") auto
    moreover have "r_LastScannedBlock rs' \<noteq> - 1"
      using h(2) scan(2,5) IH(2) lib_small[of io lib] cycle.prems word_n1_ge by (auto dest: antisym)
    moreover have "r_Saved rs' \<le> r_LastScannedBlock rs'" using h(1,3) IH(1) scan(5,6) by auto
    ultimately show ?thesis using \<open>\<not> repositions io rs rs'\<close> by simp
  qed
next
  case (restart ios base rs)
  then have IH: "r_Saved rs \<le> r_LastScannedBlock rs" "r_LastScannedBlock rs \<noteq> - 1"
    "\<And>n. base < n \<Longrightarrow> n \<le> r_LastScannedBlock rs \<Longrightarrow> \<exists>io\<in>set ios. handled C io n" by simp_all
  have "r_Saved rs \<noteq> - 1" using IH(1,2) word_n1_ge by (auto dest: antisym)
  with IH show ?case by (auto dest: order_trans)
qed

text \<open>
  C26: No transfer is skipped. However its cycles go, through failed queries, failed broadcasts, failed
  writes of the state file and restarts, every Steem block between the point the relayer last started
  from and its cursor has been read in full in some cycle, and every attestation that block called for
  went into a transaction that was executed in a block of the chain. Restarting never loses a block.
\<close>

theorem no_transfer_is_skipped:
  assumes "relayer_run C ios base rs" "\<forall>io\<in>set ios. steem_numbers_ok io"
    and "base < n" "n \<le> r_LastScannedBlock rs"
  shows "\<exists>io\<in>set ios. handled C io n"
  using relayer_run_inv[OF assms(1,2)] assms(3,4) by blast

text \<open>A relayer that starts at block 5 and scans quiet blocks, two at a time.\<close>

definition quiet_block :: steem_block where
  "quiet_block = \<lparr>sb_BlockID = ''id'', sb_Timestamp = ''2026-01-01T00:00:00'', sb_TransactionIds = [], sb_Transactions = []\<rparr>"

definition deaf_node :: "'m node_io" where
  "deaf_node = \<lparr>nd_Build = (\<lambda>_ _ _. Inl ''no node''), nd_Hash = (\<lambda>b. b), nd_BroadcastTxSync = (\<lambda>_. Inl ''no node''), nd_Polls = (\<lambda>_. [])\<rparr>"

definition quiet_io :: cycle_io where
  "quiet_io = \<lparr>io_Params = Inr demo_params, io_Validator = Inr \<lparr>ds_Jailed = False, ds_Bonded = True, ds_Status = ''bonded''\<rparr>,
     io_LastIrreversible = Inr 10, io_GetBlock = (\<lambda>_. Inr (Some quiet_block)),
     io_DepositByTxid = (\<lambda>_ _. Inl ''key not found''), io_NameRegistrationByTxid = (\<lambda>_ _. Inl ''key not found''),
     io_GetWithdrawal = (\<lambda>_. Inl ''key not found''), io_Node = deaf_node, io_SaveState = (\<lambda>_. None)\<rparr>"

definition demo_cycle_env :: cycle_env where
  "demo_cycle_env = \<lparr>ce_Env = strict_env, ce_Cfg = \<lparr>rc_SteemSymbol = ''STEEM'', rc_SbdSymbol = ''SBD'', rc_MaxBlocksPerPoll = 2,
     rc_StartBlock = 5\<rparr>, ce_Signer = ''v1'', ce_Valoper = ''v1''\<rparr>"

lemma quiet_io_simps [simp]:
  "io_Params quiet_io = Inr demo_params" "io_LastIrreversible quiet_io = Inr 10" "io_GetBlock quiet_io n = Inr (Some quiet_block)"
  "io_SaveState quiet_io n = None" "io_Node quiet_io = deaf_node" "queryValidatorCanSubmit (io_Validator quiet_io) = (True, '''', None)"
  by (simp_all add: quiet_io_def queryValidatorCanSubmit_def validatorCanSubmit_def)

lemma demo_cycle_env_simps [simp]:
  "rc_MaxBlocksPerPoll (ce_Cfg demo_cycle_env) = 2" "rc_StartBlock (ce_Cfg demo_cycle_env) = 5"
  by (simp_all add: demo_cycle_env_def)

lemmas cycle_simps = runCycle_def cursor_cycle_def scan_cycle_def FetchBlocks_def block_range_def anchor_verify_def
  LastIrreversibleBlock_def anchoredCursor_def initialCursor_def move_cursor_def demo_params_def bridge_DefaultParams_def

lemma quiet_messages: "block_messages demo_cycle_env quiet_io p (n, quiet_block) = Inr []"
  by (simp add: block_messages_def ExtractGatewayTransfers_def ExtractGatewayPayouts_def quiet_block_def map_filter_simps)

lemma quiet_first: "runCycle demo_cycle_env quiet_io new_relayer = (None, \<lparr>r_LastScannedBlock = 4, r_Saved = 4, r_VerifiedID = ''''\<rparr>)"
  by (simp add: cycle_simps new_relayer_def)

lemma quiet_fetch: "FetchBlocks quiet_io 5 6 = Inr [(5, quiet_block), (6, quiet_block)]"
  by (simp add: FetchBlocks_def block_range_def upt_rec)

lemma quiet_second:
  "runCycle demo_cycle_env quiet_io \<lparr>r_LastScannedBlock = 4, r_Saved = 4, r_VerifiedID = ''''\<rparr> =
     (None, \<lparr>r_LastScannedBlock = 6, r_Saved = 6, r_VerifiedID = ''''\<rparr>)"
proof -
  let ?rs = "\<lparr>r_LastScannedBlock = 4, r_Saved = 4, r_VerifiedID = ''''\<rparr>"
  have sc: "scan_blocks demo_cycle_env quiet_io demo_params [(5, quiet_block), (6, quiet_block)] [] 4 = Inr ([], 6)"
    by (simp add: quiet_messages MaxMsgsPerTx_def)
  have "scan_cycle demo_cycle_env quiet_io demo_params 10 ?rs = (None, \<lparr>r_LastScannedBlock = 6, r_Saved = 6, r_VerifiedID = ''''\<rparr>)"
    by (simp add: scan_cycle_def quiet_fetch sc BroadcastAttestations_def move_cursor_def min_def del: scan_blocks.simps)
  moreover have "runCycle demo_cycle_env quiet_io ?rs = scan_cycle demo_cycle_env quiet_io demo_params 10 ?rs"
    by (simp add: runCycle_def cursor_cycle_def anchor_verify_def LastIrreversibleBlock_def anchoredCursor_def
        demo_params_def bridge_DefaultParams_def)
  ultimately show ?thesis by simp
qed

lemma no_transfer_is_skipped_witness:
  "\<exists>ios rs. relayer_run demo_cycle_env ios 4 rs \<and> r_LastScannedBlock rs = 6 \<and> (\<exists>io\<in>set ios. handled demo_cycle_env io 5)"
proof -
  let ?r1 = "\<lparr>r_LastScannedBlock = 4, r_Saved = 4, r_VerifiedID = ''''\<rparr>" and ?r2 = "\<lparr>r_LastScannedBlock = 6, r_Saved = 6, r_VerifiedID = ''''\<rparr>"
  have "repositions quiet_io new_relayer ?r1" by (simp add: repositions_def new_relayer_def)
  then have 1: "relayer_run demo_cycle_env [quiet_io] 4 ?r1"
    using relayer_run.cycle[OF relayer_run.start quiet_first] by simp
  have "\<not> repositions quiet_io ?r1 ?r2"
    by (simp add: repositions_def anchoredCursor_def demo_params_def bridge_DefaultParams_def)
  then have 2: "relayer_run demo_cycle_env [quiet_io, quiet_io] 4 ?r2"
    using relayer_run.cycle[OF 1 quiet_second] by simp
  have "\<exists>io\<in>set [quiet_io, quiet_io]. handled demo_cycle_env io 5"
    by (rule no_transfer_is_skipped[OF 2]) (simp_all add: steem_numbers_ok_def)
  with 2 show ?thesis by (intro exI[where x = "[quiet_io, quiet_io]"] exI[where x = ?r2]) simp
qed

section \<open>A crowded block stops the relayer\<close>

text \<open>A cycle that moves a cursor at or above the anchor has scanned the next block and broadcast its messages.\<close>

lemma advanced_scan:
  assumes "runCycle C io rs = (err, rs')" "io_Params io = Inr p" "r_LastScannedBlock rs \<noteq> 0"
    and "anchoredCursor (r_LastScannedBlock rs) (RelayerStartBlock p) = r_LastScannedBlock rs"
    and "io_GetBlock io (r_LastScannedBlock rs + 1) = Inr (Some block)" "r_LastScannedBlock rs' \<noteq> r_LastScannedBlock rs"
  shows "\<exists>bs msgs lastFull h rest. bs = (r_LastScannedBlock rs + 1, block) # rest \<and>
    scan_blocks C io p bs [] (r_LastScannedBlock rs) = Inr (msgs, lastFull) \<and> lastFull \<noteq> r_LastScannedBlock rs \<and>
    BroadcastAttestations (io_Node io) msgs = Inr h"
proof -
  from assms(1,6) have "\<exists>lib rs1. r_LastScannedBlock rs1 = r_LastScannedBlock rs \<and> scan_cycle C io p lib rs1 = (err, rs')"
    by (cases rule: runCycle_cases) (use assms(2,3,4) in auto)
  then obtain lib rs1 where rs1: "r_LastScannedBlock rs1 = r_LastScannedBlock rs" "scan_cycle C io p lib rs1 = (err, rs')" by blast
  let ?c = "r_LastScannedBlock rs" and ?to = "min lib (r_LastScannedBlock rs + rc_MaxBlocksPerPoll (ce_Cfg C))"
  have ne: "rs' \<noteq> rs1" using rs1(1) assms(6) by auto
  obtain bs ms lastFull h where b: "\<not> ?c + 1 > ?to" "FetchBlocks io (?c + 1) ?to = Inr bs"
    "scan_blocks C io p bs [] ?c = Inr (ms, lastFull)" "lastFull \<noteq> ?c" "BroadcastAttestations (io_Node io) ms = Inr h"
    using rs1(2) ne unfolding scan_cycle_def Let_def rs1(1)
    by (auto simp: rbind_eq_Inr split: if_splits sum.splits prod.splits)
  have f: "fetch_blocks io (block_range (?c + 1) ?to) = Inr bs" using b(1,2) by (simp add: FetchBlocks_def)
  have le: "unat (?c + 1) < Suc (unat ?to)" using b(1) by (simp add: word_le_nat_alt not_less less_Suc_eq_le)
  obtain nums where "block_range (?c + 1) ?to = (?c + 1) # nums"
    unfolding block_range_def upt_conv_Cons[OF le] by simp
  with f obtain rest where "bs = (?c + 1, block) # rest"
    using assms(5) by (auto simp: rbind_eq_Inr split: option.splits)
  with b(3-5) show ?thesis by blast
qed

text \<open>
  C39: A block that calls for more than fifty attestations is never passed. Such a block does not fit into
  one transaction, and the cycle only ever advances by whole blocks: while the next block calls for
  fifty-one messages or more, every cycle leaves the cursor where it is, whatever the nodes answer.
\<close>

theorem crowded_block_stops_the_relayer:
  assumes "runCycle C io rs = (err, rs')" "io_Params io = Inr p" "r_LastScannedBlock rs \<noteq> 0"
    and "anchoredCursor (r_LastScannedBlock rs) (RelayerStartBlock p) = r_LastScannedBlock rs"
    and "io_GetBlock io (r_LastScannedBlock rs + 1) = Inr (Some block)"
    and "block_messages C io p (r_LastScannedBlock rs + 1, block) = Inr msgs" "length msgs > MaxMsgsPerTx"
  shows "r_LastScannedBlock rs' = r_LastScannedBlock rs"
proof (rule ccontr)
  assume "r_LastScannedBlock rs' \<noteq> r_LastScannedBlock rs"
  from advanced_scan[OF assms(1-5) this] assms(6,7) show False by auto
qed

text \<open>Fifty-one small deposits in one Steem transaction.\<close>

definition crowded_block :: steem_block where
  "crowded_block = quiet_block\<lparr>sb_Transactions := [\<lparr>stx_TransactionId = ''t1'', stx_Operations =
     replicate 51 (SteemTransferOp \<lparr>tr_From = ''alice'', tr_To = GatewayAccount, tr_Amount = FormatMilli 1000 ''STEEM'', tr_Memo = ''bob''\<rparr>)\<rparr>]\<rparr>"

definition crowded_io :: cycle_io where
  "crowded_io = quiet_io\<lparr>io_GetBlock := (\<lambda>_. Inr (Some crowded_block))\<rparr>"

lemma length_map_filter: "(\<And>x. x \<in> set xs \<Longrightarrow> f x \<noteq> None) \<Longrightarrow> length (List.map_filter f xs) = length xs"
  by (induction xs) (auto simp: map_filter_simps split: option.splits)

lemma demo_amount: "bridged_amount (FormatMilli 1000 ''STEEM'') ''STEEM'' ''SBD'' = Some (1000, BRIDGE_ASSET_STEEM)"
  using bridged_amount_FormatMilli[of "''STEEM''" "''SBD''" 1000 BRIDGE_ASSET_STEEM]
  by (simp add: symbols_ok_def plain_symbol_def visible_def asset_symbol_def BRIDGE_ASSET_STEEM_def BRIDGE_ASSET_SBD_def)

lemma crowded_transfers:
  "length (ExtractGatewayTransfers n crowded_block GatewayAccount ''STEEM'' ''SBD'') = 51"
  "\<And>t. t \<in> set (ExtractGatewayTransfers n crowded_block GatewayAccount ''STEEM'' ''SBD'') \<Longrightarrow> t_Memo t = ''bob''"
proof -
  let ?x = "\<lparr>tr_From = ''alice'', tr_To = GatewayAccount, tr_Amount = FormatMilli 1000 ''STEEM'', tr_Memo = ''bob''\<rparr>"
  let ?f = "extract_transfer n crowded_block GatewayAccount ''STEEM'' ''SBD'' ''t1''"
  have ops: "snd io = SteemTransferOp ?x" if "io \<in> set (enumerate 0 (replicate 51 (SteemTransferOp ?x)))" for io
    using that by (auto simp: in_set_enumerate_eq)
  have f: "\<exists>t. ?f io = Some t \<and> t_Memo t = ''bob''" if "io \<in> set (enumerate 0 (replicate 51 (SteemTransferOp ?x)))" for io
    using ops[OF that] demo_amount by (simp add: extract_transfer_def GatewayAccount_def)
  have ts: "ExtractGatewayTransfers n crowded_block GatewayAccount ''STEEM'' ''SBD'' =
      List.map_filter ?f (enumerate 0 (replicate 51 (SteemTransferOp ?x)))"
    by (simp add: ExtractGatewayTransfers_def crowded_block_def block_txid_def Let_def)
  show "length (ExtractGatewayTransfers n crowded_block GatewayAccount ''STEEM'' ''SBD'') = 51"
    unfolding ts using f by (subst length_map_filter) fastforce+
  show "t_Memo t = ''bob''" if "t \<in> set (ExtractGatewayTransfers n crowded_block GatewayAccount ''STEEM'' ''SBD'')" for t
    using that f unfolding ts in_map_filter by fastforce
qed

lemma bob_is_a_deposit: "RouteMemo ''bob'' = IntentDeposit"
proof -
  have "TrimSpace ''bob'' = ''bob''" by (rule TrimSpace_all_visible) (simp add: visible_def)
  then show ?thesis by (simp add: RouteMemo_def HasPrefix_def)
qed

lemma deposits_called_for:
  assumes "\<And>t. t \<in> set ts \<Longrightarrow> t_Memo t = ''bob''"
  shows "transfer_messages demo_cycle_env crowded_io demo_params ts = Inr (map (\<lambda>t. BuildMsg t IntentDeposit ''v1'' GatewayAccount) ts)"
  using assms
proof (induction ts)
  case (Cons t ts)
  have "ce_Env demo_cycle_env = strict_env" "ce_Signer demo_cycle_env = ''v1''" by (simp_all add: demo_cycle_env_def)
  moreover have "alreadyAttested crowded_io t IntentDeposit v = Inr False" for v
    by (simp add: alreadyAttested_def crowded_io_def quiet_io_def ignoreNotFound_def HasPrefix_def)
  ultimately show ?case using Cons bob_is_a_deposit by (simp add: demo_params_def)
qed simp

lemma no_payout: "length (stx_Operations (snd itx)) \<noteq> 2 \<Longrightarrow> extract_payout n block gateway steemSymbol sbdSymbol itx = None"
  by (auto simp: extract_payout_def Let_def split: list.splits steem_op.splits)

lemma crowded_messages: "\<exists>msgs. block_messages demo_cycle_env crowded_io demo_params (n, crowded_block) = Inr msgs \<and> length msgs = 51"
proof -
  have syms: "rc_SteemSymbol (ce_Cfg demo_cycle_env) = ''STEEM''" "rc_SbdSymbol (ce_Cfg demo_cycle_env) = ''SBD''"
    by (simp_all add: demo_cycle_env_def)
  have "ExtractGatewayPayouts n crowded_block GatewayAccount ''STEEM'' ''SBD'' = []"
    by (simp add: ExtractGatewayPayouts_def crowded_block_def no_payout map_filter_simps)
  then show ?thesis
    using deposits_called_for[OF crowded_transfers(2)[of _ n]] crowded_transfers(1)[of n]
    by (simp add: block_messages_def syms Let_def)
qed

lemma crowded_block_stops_the_relayer_witness:
  "\<exists>err rs'. runCycle demo_cycle_env crowded_io \<lparr>r_LastScannedBlock = 4, r_Saved = 4, r_VerifiedID = ''''\<rparr> = (err, rs') \<and>
     r_LastScannedBlock rs' = 4"
proof -
  let ?rs = "\<lparr>r_LastScannedBlock = 4, r_Saved = 4, r_VerifiedID = ''''\<rparr>"
  obtain msgs where m: "block_messages demo_cycle_env crowded_io demo_params (4 + 1, crowded_block) = Inr msgs" "length msgs = 51"
    using crowded_messages by blast
  obtain err rs' where r: "runCycle demo_cycle_env crowded_io ?rs = (err, rs')" by force
  have "r_LastScannedBlock rs' = r_LastScannedBlock ?rs"
    by (rule crowded_block_stops_the_relayer[OF r, where p = demo_params and block = crowded_block and msgs = msgs])
      (use m in \<open>simp_all add: crowded_io_def anchoredCursor_def demo_params_def bridge_DefaultParams_def MaxMsgsPerTx_def\<close>)
  with r show ?thesis by auto
qed

end
