(* ===== verification/Feeder_Cycle.thy ===== *)
theory Feeder_Cycle
  imports Price_Feeder Relayer
begin

text \<open>
  The price feeder's part of the poll loop: the price sources (\<open>oracle/go/relayer/pricesource.go\<close>,
  \<open>coingecko.go\<close> and the market queries of \<open>steem.go\<close>), the paid broadcast (\<open>broadcast.go\<close>) and the cycle
  that commits and reveals once per vote period (\<open>runPriceFeederCycle\<close> of \<open>relayer.go\<close>). The decoded HTTP
  and RPC replies are inputs; a failed request or an undecodable reply is an error text.
\<close>

section \<open>Price sources\<close>

text \<open>\<open>parseAssetAmountDec\<close>: an amount such as \<open>0.250 SBD\<close> as a decimal.\<close>

definition parseAssetAmountDec :: "env \<Rightarrow> string \<Rightarrow> string \<Rightarrow> dec option" where
  "parseAssetAmountDec E amount symbol =
     (let parts = Fields (TrimSpace amount) in
      if length parts \<noteq> 2 \<or> parts ! 1 \<noteq> symbol then None else DecFromStr E (parts ! 0))"

definition GetTicker :: "env \<Rightarrow> string + string \<Rightarrow> string + dec" where
  "GetTicker E reply =
     rbind reply (\<lambda>latest. from_option (''steem rpc: invalid ticker latest price '' @ latest) (DecFromStr E (TrimSpace latest)))"

definition GetFeedHistory :: "env \<Rightarrow> string + (string \<times> string) \<Rightarrow> string + dec" where
  "GetFeedHistory E reply =
     rbind reply (\<lambda>(baseText, quoteText).
     rbind (from_option (''steem rpc: invalid feed history base '' @ baseText) (parseAssetAmountDec E baseText ''SBD'')) (\<lambda>base.
     rbind (from_option (''steem rpc: invalid feed history quote '' @ quoteText) (parseAssetAmountDec E quoteText ''STEEM'')) (\<lambda>quote.
     if quote = 0 then Inl ''steem rpc: feed history quote is zero'' else Inr (DecQuo E base quote))))"

text \<open>
  CoinMarketCap answers with a list of entries per symbol, each with a price text per currency; CoinGecko
  with a price text per coin and currency. A symbol without a readable price is left out.
\<close>

definition cmc_price :: "env \<Rightarrow> (string, (string, string) kv list) kv \<Rightarrow> string \<Rightarrow> dec option" where
  "cmc_price E parsed symbol =
     (case kv_get parsed symbol of
        None \<Rightarrow> None
      | Some [] \<Rightarrow> None
      | Some (entry # _) \<Rightarrow> (case kv_get entry ''USD'' of None \<Rightarrow> None | Some price \<Rightarrow> DecFromStr E price))"

definition add_prices :: "(string \<Rightarrow> dec option) \<Rightarrow> string list \<Rightarrow> (string, dec) kv" where
  "add_prices price symbols =
     fold (\<lambda>symbol out. case price symbol of None \<Rightarrow> out | Some p \<Rightarrow> kv_set symbol p out) symbols []"

definition cmc_FetchUSDPrices ::
    "env \<Rightarrow> (string list \<Rightarrow> string + (string, (string, string) kv list) kv) \<Rightarrow> string list \<Rightarrow> string + (string, dec) kv" where
  "cmc_FetchUSDPrices E get symbols =
     (if symbols = [] then Inr []
      else rbind (get symbols) (\<lambda>parsed. Inr (add_prices (cmc_price E parsed) symbols)))"

definition coinGeckoIDs :: "string \<Rightarrow> string option" where
  "coinGeckoIDs symbol =
     (if symbol = ''STEEM'' then Some ''steem'' else if symbol = ''SBD'' then Some ''steem-dollars'' else None)"

definition gecko_price :: "env \<Rightarrow> (string, (string, string) kv) kv \<Rightarrow> string \<Rightarrow> dec option" where
  "gecko_price E parsed symbol =
     (case coinGeckoIDs symbol of
        None \<Rightarrow> None
      | Some i \<Rightarrow>
          (case kv_get parsed i of
             None \<Rightarrow> None
           | Some coin \<Rightarrow> (case kv_get coin ''usd'' of None \<Rightarrow> None | Some price \<Rightarrow> DecFromStr E price)))"

definition gecko_FetchUSDPrices ::
    "env \<Rightarrow> (string list \<Rightarrow> string + (string, (string, string) kv) kv) \<Rightarrow> string list \<Rightarrow> string + (string, dec) kv" where
  "gecko_FetchUSDPrices E get symbols =
     (let ids = List.map_filter coinGeckoIDs symbols in
      if ids = [] then Inr []
      else rbind (get ids) (\<lambda>parsed. Inr (add_prices (gecko_price E parsed) symbols)))"

text \<open>The composite source: an external client, and the two market replies of the Steem node, if configured.\<close>

record price_source =
  External :: "(string list \<Rightarrow> string + (string, dec) kv) option"
  Steem :: "((string + dec) \<times> (string + dec)) option"

definition put_price :: "string \<Rightarrow> dec option \<Rightarrow> (string, dec option) kv \<Rightarrow> (string, dec option) kv" where
  "put_price pair price out = (case price of None \<Rightarrow> out | Some p \<Rightarrow> kv_set pair (Some p) out)"

definition ok_price :: "string + dec \<Rightarrow> dec option" where
  "ok_price r = (case r of Inl _ \<Rightarrow> None | Inr p \<Rightarrow> Some p)"

definition external_prices ::
    "(string list \<Rightarrow> string + (string, dec) kv) option \<Rightarrow> string list \<Rightarrow> (string, dec option) kv" where
  "external_prices ext pairs =
     (let steem = ''STEEM/USD_External'' \<in> set pairs; sbd = ''SBD/USD_External'' \<in> set pairs in
      case ext of
        None \<Rightarrow> []
      | Some FetchUSDPrices \<Rightarrow>
          if \<not> steem \<and> \<not> sbd then []
          else case FetchUSDPrices ((if steem then [''STEEM''] else []) @ (if sbd then [''SBD''] else [])) of
            Inl _ \<Rightarrow> []
          | Inr prices \<Rightarrow>
              put_price ''SBD/USD_External'' (if sbd then kv_get prices ''SBD'' else None)
                (put_price ''STEEM/USD_External'' (if steem then kv_get prices ''STEEM'' else None) []))"

definition FetchPrices :: "price_source \<Rightarrow> string list \<Rightarrow> (string, dec option) kv res" where
  "FetchPrices src pairs =
     (let out = external_prices (External src) pairs in
      case Steem src of
        None \<Rightarrow> Inr out
      | Some (ticker, feed) \<Rightarrow>
          Inr (put_price ''Price_Feed'' (if ''Price_Feed'' \<in> set pairs then ok_price feed else None)
            (put_price ''STEEM/SBD_Internal'' (if ''STEEM/SBD_Internal'' \<in> set pairs then ok_price ticker else None) out)))"

section \<open>One cycle of the feeder\<close>

definition priceFeedGasPerMsg :: u64 where "priceFeedGasPerMsg = 250000"

definition BroadcastPriceFeedMsgs :: "feeder_msg node_io \<Rightarrow> feeder_msg list \<Rightarrow> string \<Rightarrow> string + string" where
  "BroadcastPriceFeedMsgs nd msgs gasPrices =
     (if msgs = [] then Inr ''''
      else if gasPrices = '''' then Inl ''price feed txs are not fee-exempt: ORACLE_GAS_PRICES must be set''
      else broadcastTx nd msgs (priceFeedGasPerMsg * of_nat (length msgs)) gasPrices)"

text \<open>What a cycle learns from outside: queries, node status, the disk, the source, random bytes, the broadcast.\<close>

record feeder_io =
  fi_Params :: "string + price_params"
  fi_Height :: "string + int"
  fi_Validator :: "lookup_error + duty_status"
  fi_LoadError :: "string option"
  fi_Source :: "(string list \<Rightarrow> (string, dec option) kv res) option"
  fi_Rand :: "bytes res"
  fi_Node :: "feeder_msg node_io"
  fi_SaveError :: "FeederState \<Rightarrow> string option"

text \<open>
  The feeder's memory: the last period it acted in, why it is idle, and the state file. \<open>fd_Sent\<close> is no
  part of the program: it records the transactions that were delivered.
\<close>

record feeder =
  fd_LastHandledPeriod :: u64
  fd_IdleReason :: string
  fd_File :: FeederState
  fd_Sent :: "feeder_msg list list"

definition feeder_broadcast ::
    "feeder_io \<Rightarrow> string \<Rightarrow> u64 \<Rightarrow> feeder_msg list \<Rightarrow> FeederState \<Rightarrow> feeder \<Rightarrow> string option \<times> feeder" where
  "feeder_broadcast io gasPrices period msgs newState fd =
     (if msgs = [] then (None, fd\<lparr>fd_LastHandledPeriod := period\<rparr>)
      else case BroadcastPriceFeedMsgs (fi_Node io) msgs gasPrices of
        Inl err \<Rightarrow> (Some (''broadcasting price feed messages: '' @ err), fd)
      | Inr txHash \<Rightarrow>
          let fd1 = fd\<lparr>fd_Sent := fd_Sent fd @ [msgs]\<rparr> in
          (case fi_SaveError io newState of
             Some err \<Rightarrow> (Some (''saving price feeder state: '' @ err), fd1)
           | None \<Rightarrow> (None, fd1\<lparr>fd_File := newState, fd_LastHandledPeriod := period\<rparr>)))"

definition feeder_act ::
    "env \<Rightarrow> string \<Rightarrow> string \<Rightarrow> feeder_io \<Rightarrow> price_params \<Rightarrow> u64 \<Rightarrow> feeder \<Rightarrow> string option \<times> feeder" where
  "feeder_act E valStr gasPrices io params period fd =
     (case queryValidatorCanSubmit (fi_Validator io) of
        (canSubmit, reason, lookupErr) \<Rightarrow>
          if \<not> canSubmit
          then (None, fd\<lparr>fd_IdleReason := reason,
                  fd_LastHandledPeriod := (if lookupErr = None then period else fd_LastHandledPeriod fd)\<rparr>)
          else
            let fd1 = fd\<lparr>fd_IdleReason := ''''\<rparr> in
            case fi_LoadError io of
              Some err \<Rightarrow> (Some (''cannot load price feeder state: '' @ err), fd1)
            | None \<Rightarrow>
                (case Feeder_Step E valStr (fi_Source io) (fi_Rand io) period (Whitelist params) (fd_File fd) of
                   (msgs, newState, _) \<Rightarrow> feeder_broadcast io gasPrices period msgs newState fd1))"

definition runPriceFeederCycle :: "env \<Rightarrow> string \<Rightarrow> string \<Rightarrow> feeder_io \<Rightarrow> feeder \<Rightarrow> string option \<times> feeder" where
  "runPriceFeederCycle E valStr gasPrices io fd =
     (case fi_Params io of
        Inl err \<Rightarrow> (Some (''querying oracledata params: '' @ err), fd)
      | Inr params \<Rightarrow>
          if VotePeriod params = 0 then (Some ''oracledata vote period is zero'', fd)
          else case fi_Height io of
            Inl err \<Rightarrow> (Some (''querying node status: '' @ err), fd)
          | Inr height \<Rightarrow>
              let period = word_of_int height div VotePeriod params in
              if period = fd_LastHandledPeriod fd then (None, fd)
              else feeder_act E valStr gasPrices io params period fd)"

text \<open>The period a cycle acts in, when it gets that far.\<close>

definition feeder_period :: "feeder_io \<Rightarrow> u64 option" where
  "feeder_period io =
     (case (fi_Params io, fi_Height io) of
        (Inr params, Inr height) \<Rightarrow> if VotePeriod params = 0 then None else Some (word_of_int height div VotePeriod params)
      | _ \<Rightarrow> None)"

definition feeder_run :: "env \<Rightarrow> string \<Rightarrow> string \<Rightarrow> feeder_io list \<Rightarrow> feeder \<Rightarrow> feeder" where
  "feeder_run E valStr gasPrices ios fd = fold (\<lambda>io fd. snd (runPriceFeederCycle E valStr gasPrices io fd)) ios fd"

section \<open>The sources answer only what was asked\<close>

text \<open>A map of prices for pairs of \<open>A\<close>.\<close>

definition prices_within :: "string set \<Rightarrow> (string, dec option) kv \<Rightarrow> bool" where
  "prices_within A out \<longleftrightarrow> kv_wf out \<and> fst ` set out \<subseteq> A"

lemma prices_within_Nil [simp]: "prices_within A []"
  by (simp add: prices_within_def kv_wf_def)

lemma put_price_within: "prices_within A out \<Longrightarrow> prices_within A (put_price q (if q \<in> A then x else None) out)"
  by (simp add: prices_within_def put_price_def fst_kv_set split: option.splits if_splits)

lemma external_within: "prices_within (set pairs) (external_prices ext pairs)"
proof (cases ext)
  case (Some fetch)
  let ?syms = "(if ''STEEM/USD_External'' \<in> set pairs then [''STEEM''] else []) @ (if ''SBD/USD_External'' \<in> set pairs then [''SBD''] else [])"
  show ?thesis
  proof (cases "fetch ?syms")
    case (Inr prices)
    then show ?thesis by (simp only: external_prices_def Some Let_def Inr option.case sum.case) (simp only: put_price_within prices_within_Nil split: if_split, simp)
  qed (simp add: external_prices_def Some Let_def)
qed (simp add: external_prices_def Let_def)

text \<open>Whatever the services reply, the feeder gets a rate at most for the pairs it asked for, one per pair.\<close>

lemma FetchPrices_within:
  assumes "FetchPrices src pairs = Inr rates"
  shows "prices_within (set pairs) rates"
proof (cases "Steem src")
  case None
  with assms external_within[of pairs "External src"] show ?thesis by (simp add: FetchPrices_def)
next
  case (Some tf)
  obtain ticker feed where "tf = (ticker, feed)" by force
  with Some assms have r: "rates = put_price ''Price_Feed'' (if ''Price_Feed'' \<in> set pairs then ok_price feed else None)
      (put_price ''STEEM/SBD_Internal'' (if ''STEEM/SBD_Internal'' \<in> set pairs then ok_price ticker else None)
        (external_prices (External src) pairs))"
    by (simp add: FetchPrices_def)
  show ?thesis unfolding r by (intro put_price_within external_within)
qed

section \<open>A saved commitment is revealed\<close>

lemma cycle_stays:
  assumes "feeder_period io \<noteq> Some (fd_LastHandledPeriod fd) \<Longrightarrow> feeder_period io = None"
  shows "snd (runPriceFeederCycle E v gp io fd) = fd"
  using assms by (auto simp: runPriceFeederCycle_def feeder_period_def Let_def split: sum.splits if_splits)

lemma run_stays:
  "\<forall>io\<in>set ios. feeder_period io = None \<or> feeder_period io = Some (fd_LastHandledPeriod fd) \<Longrightarrow> feeder_run E v gp ios fd = fd"
proof (induction ios)
  case (Cons io ios)
  then show ?case using cycle_stays[of io fd E v gp] by (auto simp: feeder_run_def)
qed (simp add: feeder_run_def)

lemma cycle_acts:
  assumes "feeder_period io = Some N" "fd_LastHandledPeriod fd \<noteq> N"
  obtains params where "fi_Params io = Inr params" "runPriceFeederCycle E v gp io fd = feeder_act E v gp io params N fd"
  using assms by (auto simp: feeder_period_def runPriceFeederCycle_def Let_def split: sum.splits if_splits)

lemma rates_text_ne: "us \<noteq> [] \<Longrightarrow> BuildExchangeRatesString E us \<noteq> ''''"
  by (cases us; cases "tl us") (auto simp: BuildExchangeRatesString_def)

lemma step_prevote:
  assumes "Feeder_Step E v src rand period wl prev = (msgs, st, err)" "FeedPrevote m \<in> set msgs"
  shows "fs_ExchangeRates st \<noteq> '''' \<and> PrevotePeriod st = period \<and> m = BuildPrevoteMsg E v (fs_ExchangeRates st) (fs_Salt st)"
  using assms rates_text_ne
  by (auto simp: Feeder_Step_def Let_def split: option.splits sum.splits if_splits)

lemma step_reveals:
  assumes "fs_ExchangeRates prev \<noteq> ''''" "PrevotePeriod prev + 1 = period"
  shows "FeedVote (BuildVoteMsg v (fs_Salt prev) (fs_ExchangeRates prev)) \<in> set (fst (Feeder_Step E v src rand period wl prev))"
  using assms by (auto simp: Feeder_Step_def Let_def split: option.splits sum.splits)

lemma broadcast_done:
  assumes "feeder_broadcast io gp period msgs st fd = (None, fd')" "msgs \<noteq> []"
  shows "fd_File fd' = st \<and> fd_LastHandledPeriod fd' = period \<and> fd_Sent fd' = fd_Sent fd @ [msgs]"
  using assms by (auto simp: feeder_broadcast_def Let_def split: sum.splits option.splits)


text \<open>A node that takes every transaction, and a validator on duty with a price for one pair.\<close>

definition willing_node :: "'m node_io" where
  "willing_node = \<lparr>nd_Build = (\<lambda>_ _ _. Inr ''tx''), nd_Hash = (\<lambda>_. ''ab''), nd_BroadcastTxSync = (\<lambda>_. Inr (0, ''ab'', '''')),
     nd_Polls = (\<lambda>_. [NotYet, Executed 0])\<rparr>"

definition demo_feeder_io :: "int \<Rightarrow> feeder_io" where
  "demo_feeder_io h = \<lparr>fi_Params = Inr price_DefaultParams, fi_Height = Inr h,
     fi_Validator = Inr \<lparr>ds_Jailed = False, ds_Bonded = True, ds_Status = ''bonded''\<rparr>, fi_LoadError = None,
     fi_Source = Some (FetchPrices \<lparr>External = None, Steem = Some (Inl ''down'', Inr 3)\<rparr>), fi_Rand = Inr ''x'',
     fi_Node = willing_node, fi_SaveError = (\<lambda>_. None)\<rparr>"

definition new_feeder :: feeder where
  "new_feeder = \<lparr>fd_LastHandledPeriod = 0, fd_IdleReason = '''', fd_File = empty_feeder, fd_Sent = []\<rparr>"

lemma willing: "BroadcastPriceFeedMsgs willing_node msgs ''1asteem'' \<noteq> Inl e"
  by (simp add: BroadcastPriceFeedMsgs_def broadcastTx_def waitForDelivery_def willing_node_def is_hex_def is_hex_lower_def)

lemma demo_feeder_simps:
  "feeder_period (demo_feeder_io 600) = Some 1" "feeder_period (demo_feeder_io 1200) = Some (1 + 1)"
  "fst (queryValidatorCanSubmit (fi_Validator (demo_feeder_io h)))"
  by (simp_all add: feeder_period_def demo_feeder_io_def price_DefaultParams_def queryValidatorCanSubmit_def validatorCanSubmit_def)

lemma demo_feeder_fetch:
  "FetchPrices \<lparr>External = None, Steem = Some (Inl ''down'', Inr 3)\<rparr> (Whitelist price_DefaultParams) = Inr [(''Price_Feed'', Some 3)]"
  by (simp add: FetchPrices_def external_prices_def put_price_def ok_price_def price_DefaultParams_def)

lemma demo_feeder_step:
  "Feeder_Step (plain_env [] 0) ''v'' (fi_Source (demo_feeder_io h)) (Inr ''x'') n (Whitelist price_DefaultParams) prev =
     ((if fs_ExchangeRates prev \<noteq> '''' \<and> PrevotePeriod prev + 1 = n then [FeedVote (BuildVoteMsg ''v'' (fs_Salt prev) (fs_ExchangeRates prev))] else [])
        @ [FeedPrevote (BuildPrevoteMsg (plain_env [] 0) ''v'' (BuildExchangeRatesString (plain_env [] 0) [(''Price_Feed'', 3)]) (EncodeToString ''x''))],
      \<lparr>PrevotePeriod = n, fs_Salt = EncodeToString ''x'', fs_ExchangeRates = BuildExchangeRatesString (plain_env [] 0) [(''Price_Feed'', 3)]\<rparr>, None)"
proof -
  have "''Price_Feed'' \<in> set (Whitelist price_DefaultParams)" by (simp add: price_DefaultParams_def)
  then show ?thesis
    by (simp add: Feeder_Step_def demo_feeder_io_def demo_feeder_fetch NewSalt_def Let_def)
qed

lemma demo_feeder_cycle:
  assumes "feeder_period (demo_feeder_io h) = Some n" "fd_LastHandledPeriod fd \<noteq> n"
  shows "\<exists>fd' msgs. runPriceFeederCycle (plain_env [] 0) ''v'' ''1asteem'' (demo_feeder_io h) fd = (None, fd') \<and>
    fd_Sent fd' = fd_Sent fd @ [msgs] \<and> (\<exists>m. FeedPrevote m \<in> set msgs) \<and> fd_LastHandledPeriod fd' = n"
proof -
  let ?E = "plain_env [] 0"
  have io: "fi_Params (demo_feeder_io h) = Inr price_DefaultParams" "fi_LoadError (demo_feeder_io h) = None" "fi_Rand (demo_feeder_io h) = Inr ''x''"
    "fi_SaveError (demo_feeder_io h) st = None" "fi_Node (demo_feeder_io h) = willing_node" for st
    by (simp_all add: demo_feeder_io_def)
  have w: "\<exists>t. BroadcastPriceFeedMsgs willing_node msgs ''1asteem'' = Inr t" for msgs
    using willing by (metis sum.exhaust)
  obtain p where p: "fi_Params (demo_feeder_io h) = Inr p"
    "runPriceFeederCycle ?E ''v'' ''1asteem'' (demo_feeder_io h) fd = feeder_act ?E ''v'' ''1asteem'' (demo_feeder_io h) p n fd"
    by (rule cycle_acts[OF assms])
  obtain reason err where q: "queryValidatorCanSubmit (fi_Validator (demo_feeder_io h)) = (True, reason, err)"
    using demo_feeder_simps(3)[of h] by (metis prod.collapse)
  have pp: "p = price_DefaultParams" using p(1) io(1) by simp
  obtain msgs st where m: "Feeder_Step ?E ''v'' (fi_Source (demo_feeder_io h)) (Inr ''x'') n (Whitelist price_DefaultParams) (fd_File fd) = (msgs, st, None)"
    "msgs \<noteq> []" "\<exists>m. FeedPrevote m \<in> set msgs"
    using demo_feeder_step[of h n "fd_File fd"] by simp
  obtain t where "BroadcastPriceFeedMsgs willing_node msgs ''1asteem'' = Inr t" using w by blast
  then show ?thesis using m by (auto simp: p(2) pp feeder_act_def q io m(1) feeder_broadcast_def Let_def)
qed


section \<open>A refused reveal\<close>

text \<open>
  A reveal and the next commitment travel in one transaction. While the node refuses whatever contains the
  reveal (its prevote was executed in a later period than the feeder assumed, say), no cycle of the period
  commits to new rates either: the saved state does not change and nothing is delivered.
\<close>

theorem refused_reveal_blocks_the_feeder:
  assumes "fs_ExchangeRates (fd_File fd) \<noteq> ''''" "PrevotePeriod (fd_File fd) + 1 = N"
    and "\<forall>io\<in>set ios. feeder_period io = None \<or> feeder_period io = Some N"
    and "\<forall>io\<in>set ios. \<forall>msgs. FeedVote (BuildVoteMsg v (fs_Salt (fd_File fd)) (fs_ExchangeRates (fd_File fd))) \<in> set msgs \<longrightarrow>
      (\<exists>e. BroadcastPriceFeedMsgs (fi_Node io) msgs gp = Inl e)"
  shows "fd_File (feeder_run E v gp ios fd) = fd_File fd \<and> fd_Sent (feeder_run E v gp ios fd) = fd_Sent fd"
  using assms
proof (induction ios arbitrary: fd)
  case (Cons io ios)
  let ?fd1 = "snd (runPriceFeederCycle E v gp io fd)"
  have keep: "fd_File ?fd1 = fd_File fd \<and> fd_Sent ?fd1 = fd_Sent fd"
  proof (cases "feeder_period io = Some N \<and> fd_LastHandledPeriod fd \<noteq> N")
    case False
    then have "?fd1 = fd" by (intro cycle_stays) (use Cons.prems(3) in auto)
    then show ?thesis by simp
  next
    case True
    then obtain params where act: "runPriceFeederCycle E v gp io fd = feeder_act E v gp io params N fd"
      using cycle_acts[of io N fd E v gp] by blast
    obtain ms st err where st: "Feeder_Step E v (fi_Source io) (fi_Rand io) N (Whitelist params) (fd_File fd) = (ms, st, err)"
      by (metis prod_cases3)
    have "FeedVote (BuildVoteMsg v (fs_Salt (fd_File fd)) (fs_ExchangeRates (fd_File fd))) \<in> set ms"
      using step_reveals[OF Cons.prems(1,2), of v E "fi_Source io" "fi_Rand io" "Whitelist params"] st by simp
    then obtain e where "BroadcastPriceFeedMsgs (fi_Node io) ms gp = Inl e" "ms \<noteq> []" using Cons.prems(4) by fastforce
    then show ?thesis
      unfolding act by (simp add: feeder_act_def st feeder_broadcast_def Let_def split: prod.splits option.splits)
  qed
  with Cons.IH[of ?fd1] Cons.prems show ?case by (simp add: feeder_run_def)
qed (simp add: feeder_run_def)

end
