(* ===== verification/Evm_Precompiles.thy ===== *)
theory Evm_Precompiles
  imports Bridge_Query Price_Feed
begin

text \<open>
  The two precompiled contracts (\<open>precompiles/steembridge\<close>, \<open>precompiles/oracledata\<close>) through which EVM
  accounts and contracts reach the bridge and the price feed, and the EVM policy of \<open>app/evm_policy.go\<close>.
  Decoding of the call data and encoding of the results belong to go-ethereum: \<open>decode\<close> stands for
  \<open>SetupABI\<close>, arguments arrive as decoded values, and results are the values that are packed. A
  precompile call that fails is reverted by the EVM.
\<close>

section \<open>Values and logs\<close>

text \<open>A decoded argument; a nil \<open>*big.Int\<close> is \<open>AbiBig None\<close>.\<close>

datatype abi_value = AbiString string | AbiUint64 u64 | AbiBig "int option" | AbiAddress bytes

datatype evm_output =
    OutBool bool
  | OutLink bytes u64 u64
  | OutNames "string list"
  | OutIds "u64 list"
  | OutPrice int int int
  | OutPrices "string list" "int list" "int list"

datatype evm_log =
    NameConfirmedLog bytes u64 string
  | BridgeOutRequestedLog bytes string int string u64

datatype precompile_error = CallError string | KeeperError svm_error

type_synonym 'a pres = "precompile_error + 'a"

definition keeper :: "'a res \<Rightarrow> 'a pres" where
  "keeper r = (case r of Inl e \<Rightarrow> Inl (KeeperError e) | Inr x \<Rightarrow> Inr x)"

definition expect_args :: "nat \<Rightarrow> abi_value list \<Rightarrow> unit pres" where
  "expect_args n args = guard_err (length args = n) (CallError ''invalid number of arguments'')"

fun as_string :: "string \<Rightarrow> abi_value \<Rightarrow> string pres" where
  "as_string err (AbiString x) = Inr x"
| "as_string err _ = Inl (CallError err)"

fun as_uint64 :: "string \<Rightarrow> abi_value \<Rightarrow> u64 pres" where
  "as_uint64 err (AbiUint64 x) = Inr x"
| "as_uint64 err _ = Inl (CallError err)"

fun as_big :: "string \<Rightarrow> abi_value \<Rightarrow> int pres" where
  "as_big err (AbiBig (Some x)) = Inr x"
| "as_big err _ = Inl (CallError err)"

fun as_address :: "string \<Rightarrow> abi_value \<Rightarrow> bytes pres" where
  "as_address err (AbiAddress x) = Inr x"
| "as_address err _ = Inl (CallError err)"

text \<open>\<open>common.BytesToAddress\<close>: the last twenty bytes, padded on the left.\<close>

definition BytesToAddress :: "bytes \<Rightarrow> bytes" where
  "BytesToAddress b = replicate (20 - length b) (CHR 0x00) @ drop (length b - 20) b"

definition zero_address :: bytes where "zero_address = replicate 20 (CHR 0x00)"

section \<open>The bridge precompile\<close>

definition precompile_ConfirmName ::
    "env \<Rightarrow> bytes \<Rightarrow> abi_value list \<Rightarrow> 'b bridge_state \<Rightarrow> (evm_output \<times> evm_log list \<times> 'b bridge_state) pres" where
  "precompile_ConfirmName E caller args s =
     rbind (expect_args 1 args) (\<lambda>_.
     rbind (as_uint64 ''invalid registration id'' (args ! 0)) (\<lambda>registrationID.
     rbind (from_option (CallError ''failed to convert caller address'') (BytesToString E caller)) (\<lambda>confirmer.
     rbind (keeper (ConfirmName E \<lparr>cn_Confirmer = confirmer, cn_RegistrationId = registrationID\<rparr> s)) (\<lambda>s1.
     rbind (keeper (from_option ErrNotFound (kv_get (NameRegistration s1) registrationID))) (\<lambda>registration.
     Inr (OutBool True, [NameConfirmedLog caller registrationID (n_SteemAccount registration)], s1))))))"

definition precompile_BridgeOut ::
    "env \<Rightarrow> 'b bank_ops \<Rightarrow> bytes \<Rightarrow> abi_value list \<Rightarrow> 'b bridge_state \<Rightarrow> (evm_output \<times> evm_log list \<times> 'b bridge_state) pres" where
  "precompile_BridgeOut E bk caller args s =
     rbind (expect_args 3 args) (\<lambda>_.
     rbind (as_string ''invalid destination steem account'' (args ! 0)) (\<lambda>destination.
     rbind (as_big ''invalid amount'' (args ! 1)) (\<lambda>amount.
     rbind (guard_err (0 < amount) (CallError ''amount must be positive'')) (\<lambda>_.
     rbind (as_string ''invalid memo'' (args ! 2)) (\<lambda>memo.
     rbind (from_option (CallError ''failed to convert caller address'') (BytesToString E caller)) (\<lambda>sender.
     let withdrawalID = WithdrawalSeq s in
     rbind (keeper (BridgeOut E bk \<lparr>bo_Sender = sender, bo_DestinationSteemAccount = destination, bo_AmountAsteem = Some amount,
        bo_Asset = 0, bo_Memo = memo\<rparr> s)) (\<lambda>s1.
     Inr (OutBool True, [BridgeOutRequestedLog caller destination amount memo withdrawalID], s1))))))))"

definition precompile_ResolveName :: "env \<Rightarrow> abi_value list \<Rightarrow> 'b bridge_state \<Rightarrow> evm_output pres" where
  "precompile_ResolveName E args s =
     rbind (expect_args 1 args) (\<lambda>_.
     rbind (as_string ''invalid steem account'' (args ! 0)) (\<lambda>steemAccount.
     case kv_get (ActiveName s) steemAccount of
       None \<Rightarrow> Inr (OutLink zero_address 0 0)
     | Some record \<Rightarrow>
         rbind (keeper (from_option ErrInvalidAddress (StringToBytes E (nr_Address record)))) (\<lambda>addrBytes.
         Inr (OutLink (BytesToAddress addrBytes) (nr_RegistrationId record) (nr_LinkedAt record)))))"

definition precompile_NamesOf :: "abi_value list \<Rightarrow> 'b bridge_state \<Rightarrow> evm_output pres" where
  "precompile_NamesOf args s =
     rbind (expect_args 1 args) (\<lambda>_.
     rbind (as_address ''invalid owner address'' (args ! 0)) (\<lambda>owner.
     Inr (OutNames (map snd (with_prefix owner (ActiveNameByAddress s))))))"

definition precompile_AwaitingRegistrationIds :: "abi_value list \<Rightarrow> 'b bridge_state \<Rightarrow> evm_output pres" where
  "precompile_AwaitingRegistrationIds args s =
     rbind (expect_args 1 args) (\<lambda>_.
     rbind (as_address ''invalid destination address'' (args ! 0)) (\<lambda>destination.
     Inr (OutIds (map snd (with_prefix destination (NameRegistrationAwaitingByDest s))))))"

definition bridge_IsTransaction :: "string \<Rightarrow> bool" where
  "bridge_IsTransaction name \<longleftrightarrow> name = ''confirmName'' \<or> name = ''bridgeOut''"

definition read_only :: "evm_output pres \<Rightarrow> 'b bridge_state \<Rightarrow> (evm_output \<times> evm_log list \<times> 'b bridge_state) pres" where
  "read_only r s = rbind r (\<lambda>out. Inr (out, [], s))"

definition bridge_Execute ::
    "env \<Rightarrow> 'b bank_ops \<Rightarrow> ((string \<Rightarrow> bool) \<Rightarrow> string + (string \<times> abi_value list)) \<Rightarrow> bytes \<Rightarrow> 'b bridge_state \<Rightarrow>
     (evm_output \<times> evm_log list \<times> 'b bridge_state) pres" where
  "bridge_Execute E bk decode caller s =
     (case decode bridge_IsTransaction of
        Inl err \<Rightarrow> Inl (CallError err)
      | Inr (name, args) \<Rightarrow>
          if name = ''confirmName'' then precompile_ConfirmName E caller args s
          else if name = ''bridgeOut'' then precompile_BridgeOut E bk caller args s
          else if name = ''resolveName'' then read_only (precompile_ResolveName E args s) s
          else if name = ''namesOf'' then read_only (precompile_NamesOf args s) s
          else if name = ''awaitingRegistrationIds'' then read_only (precompile_AwaitingRegistrationIds args s) s
          else Inl (CallError (''unknown method: '' @ name)))"

section \<open>The price precompile\<close>

text \<open>\<open>LegacyDec.BigInt\<close> of a nil rate is nil, and packing it panics.\<close>

definition rate_mantissa :: "exchange_rate \<Rightarrow> int pres" where
  "rate_mantissa r = from_option (KeeperError ErrPanic) (er_Rate r)"

definition GetPrice :: "abi_value list \<Rightarrow> price_state \<Rightarrow> evm_output pres" where
  "GetPrice args s =
     rbind (expect_args 1 args) (\<lambda>_.
     rbind (as_string ''invalid pair'' (args ! 0)) (\<lambda>pair.
     case kv_get (ExchangeRate s) pair of
       None \<Rightarrow> Inr (OutPrice 0 0 0)
     | Some rate \<Rightarrow> rbind (rate_mantissa rate) (\<lambda>m. Inr (OutPrice m (uint (UpdateEpoch rate)) (UpdateTime rate)))))"

definition GetPrices :: "abi_value list \<Rightarrow> price_state \<Rightarrow> evm_output pres" where
  "GetPrices args s =
     rbind (expect_args 0 args) (\<lambda>_.
     rbind (rmap (rate_mantissa \<circ> snd) (ExchangeRate s)) (\<lambda>rates.
     Inr (OutPrices (map fst (ExchangeRate s)) rates (map (UpdateTime \<circ> snd) (ExchangeRate s)))))"

definition price_Execute ::
    "((string \<Rightarrow> bool) \<Rightarrow> string + (string \<times> abi_value list)) \<Rightarrow> price_state \<Rightarrow> evm_output pres" where
  "price_Execute decode s =
     (case decode (\<lambda>_. False) of
        Inl err \<Rightarrow> Inl (CallError err)
      | Inr (name, args) \<Rightarrow>
          if name = ''getPrice'' then GetPrice args s
          else if name = ''getPrices'' then GetPrices args s
          else Inl (CallError (''unknown method: '' @ name)))"

section \<open>The EVM policy\<close>

record feemarket_params =
  MinGasPrice :: "dec option"
  BaseFee :: "dec option"

record evm_params =
  ActiveStaticPrecompiles :: "string list"

definition EVMGasFloor :: dec where "EVMGasFloor = 1000000000 * dec_one"

definition StakingPrecompileAddress :: string where
  "StakingPrecompileAddress = ''0x0000000000000000000000000000000000000800''"

definition below_gas_floor :: "dec option \<Rightarrow> bool" where
  "below_gas_floor d \<longleftrightarrow> (case d of None \<Rightarrow> True | Some x \<Rightarrow> x < EVMGasFloor)"

definition applyEVMPolicy ::
    "feemarket_params \<Rightarrow> evm_params \<Rightarrow> feemarket_params \<times> bool \<times> evm_params \<times> bool" where
  "applyEVMPolicy fm evm =
     (let low = below_gas_floor (MinGasPrice fm);
          fm1 = (if low then fm\<lparr>MinGasPrice := Some EVMGasFloor\<rparr> else fm);
          low2 = below_gas_floor (BaseFee fm1);
          fm2 = (if low2 then fm1\<lparr>BaseFee := Some EVMGasFloor\<rparr> else fm1)
      in if StakingPrecompileAddress \<in> set (ActiveStaticPrecompiles evm) then (fm2, low \<or> low2, evm, False)
         else (fm2, low \<or> low2,
               evm\<lparr>ActiveStaticPrecompiles := sort (ActiveStaticPrecompiles evm @ [StakingPrecompileAddress])\<rparr>, True))"

text \<open>The policy only raises what is too low, keeps what governance set higher, and changes nothing the second time.\<close>

lemma applyEVMPolicy_fixpoint:
  assumes "applyEVMPolicy fm evm = (fm', fc, evm', ec)"
  shows "applyEVMPolicy fm' evm' = (fm', False, evm', False)" "\<not> below_gas_floor (MinGasPrice fm')" "\<not> below_gas_floor (BaseFee fm')"
    and "\<not> below_gas_floor (MinGasPrice fm) \<Longrightarrow> MinGasPrice fm' = MinGasPrice fm"
    and "set (ActiveStaticPrecompiles evm') = insert StakingPrecompileAddress (set (ActiveStaticPrecompiles evm))"
  using assms by (auto simp: applyEVMPolicy_def Let_def below_gas_floor_def split: if_splits option.splits)

text \<open>\<open>enforceEVMPolicy\<close> over the two keepers of \<open>cosmos/evm\<close>, whose state is \<open>'k\<close>.\<close>

record 'k evm_keepers =
  fm_GetParams :: "'k \<Rightarrow> feemarket_params"
  fm_SetParams :: "feemarket_params \<Rightarrow> 'k \<Rightarrow> string + 'k"
  evm_GetParams :: "'k \<Rightarrow> evm_params"
  evm_SetParams :: "evm_params \<Rightarrow> 'k \<Rightarrow> string + 'k"

definition enforceEVMPolicy :: "'k evm_keepers \<Rightarrow> 'k \<Rightarrow> string + 'k" where
  "enforceEVMPolicy K k =
     (let (fm, fmChanged, evm, evmChanged) = applyEVMPolicy (fm_GetParams K k) (evm_GetParams K k) in
      rbind (if fmChanged then fm_SetParams K fm k else Inr k) (\<lambda>k1.
      if evmChanged then evm_SetParams K evm k1 else Inr k1))"

lemma applyEVMPolicy_unchanged:
  assumes "applyEVMPolicy fm evm = (fm', fc, evm', ec)"
  shows "\<not> fc \<Longrightarrow> fm' = fm" "\<not> ec \<Longrightarrow> evm' = evm"
  using assms by (auto simp: applyEVMPolicy_def Let_def split: if_splits)

text \<open>With keepers that store what they are given, the upgrade establishes the policy, and a second run changes nothing.\<close>

lemma enforceEVMPolicy_establishes:
  assumes fm: "\<And>p k k'. fm_SetParams K p k = Inr k' \<Longrightarrow> fm_GetParams K k' = p \<and> evm_GetParams K k' = evm_GetParams K k"
    and evm: "\<And>p k k'. evm_SetParams K p k = Inr k' \<Longrightarrow> evm_GetParams K k' = p \<and> fm_GetParams K k' = fm_GetParams K k"
    and run: "enforceEVMPolicy K k = Inr k'"
  shows "enforceEVMPolicy K k' = Inr k'" "\<not> below_gas_floor (MinGasPrice (fm_GetParams K k'))" "\<not> below_gas_floor (BaseFee (fm_GetParams K k'))"
    "StakingPrecompileAddress \<in> set (ActiveStaticPrecompiles (evm_GetParams K k'))"
proof -
  obtain f fc e ec where p: "applyEVMPolicy (fm_GetParams K k) (evm_GetParams K k) = (f, fc, e, ec)" by (metis prod_cases4)
  obtain k1 where k1: "(if fc then fm_SetParams K f k else Inr k) = Inr k1" "(if ec then evm_SetParams K e k1 else Inr k1) = Inr k'"
    using run p by (auto simp: enforceEVMPolicy_def rbind_eq_Inr)
  have one: "fm_GetParams K k1 = f" "evm_GetParams K k1 = evm_GetParams K k"
    using k1(1) fm applyEVMPolicy_unchanged(1)[OF p] by (cases fc; force)+
  have two: "fm_GetParams K k' = f" "evm_GetParams K k' = e"
    using k1(2) evm one applyEVMPolicy_unchanged(2)[OF p] by (cases ec; force)+
  note fix_point = applyEVMPolicy_fixpoint[OF p]
  show "enforceEVMPolicy K k' = Inr k'" by (simp add: enforceEVMPolicy_def two fix_point(1))
  show "\<not> below_gas_floor (MinGasPrice (fm_GetParams K k'))" "\<not> below_gas_floor (BaseFee (fm_GetParams K k'))"
    "StakingPrecompileAddress \<in> set (ActiveStaticPrecompiles (evm_GetParams K k'))"
    using fix_point(2,3,5) by (simp_all add: two)
qed

section \<open>An EVM call is a message of its caller\<close>

text \<open>The message that a transaction of the precompile amounts to, signed by the caller.\<close>

inductive caller_op :: "env \<Rightarrow> bytes \<Rightarrow> 'b bridge_op \<Rightarrow> bool" for E caller where
  "BytesToString E caller = Some a \<Longrightarrow> cn_Confirmer msg = a \<Longrightarrow> caller_op E caller (OpConfirmName msg)"
| "BytesToString E caller = Some a \<Longrightarrow> bo_Sender msg = a \<Longrightarrow> bo_Asset msg = BRIDGE_ASSET_STEEM \<Longrightarrow> caller_op E caller (OpBridgeOut msg)"

lemma keeper_Inr [simp]: "keeper r = Inr x \<longleftrightarrow> r = Inr x"
  by (simp add: keeper_def split: sum.splits)

lemma withdrawal_opened:
  assumes "BridgeOut E bk msg s = Inr s'"
  shows "\<exists>w. kv_get (Withdrawal s') (WithdrawalSeq s) = Some w \<and> w_Sender w = bo_Sender msg \<and>
    w_DestinationSteemAccount w = bo_DestinationSteemAccount msg \<and> w_Memo w = bo_Memo msg \<and> w_Status w = WITHDRAWAL_STATUS_REQUESTED"
proof -
  obtain amount net fee b t where "s' = openWithdrawal E msg amount net fee (s\<lparr>bank := b, Totals := t\<rparr>)"
    by (rule BridgeOut_Inr[OF assms])
  then show ?thesis by (simp add: newWithdrawal_def)
qed



section \<open>Names as contracts see them\<close>

lemma in_with_prefix: "x \<in> set (map snd (with_prefix p index)) \<longleftrightarrow> ks_has index (p, x)"
  by (force simp: with_prefix_def ks_has_def)

lemma BytesToAddress_full: "length b = 20 \<Longrightarrow> BytesToAddress b = b"
  by (simp add: BytesToAddress_def)

text \<open>
  The two name queries are inverse to each other: a contract that lists the names of an address gets exactly
  those that resolve to it, provided that linked addresses have the twenty bytes of an EVM address. The zero
  address stands for a name without a link.
\<close>

theorem evm_names_agree:
  assumes "name_inv codec s" "StringToBytes E = codec" "\<And>a b. codec a = Some b \<Longrightarrow> length b = 20" "owner \<noteq> zero_address"
    and "precompile_NamesOf [AbiAddress owner] s = Inr (OutNames names)"
  shows "name \<in> set names \<longleftrightarrow> (\<exists>i t. precompile_ResolveName E [AbiString name] s = Inr (OutLink owner i t))"
proof -
  have links: "links_ok codec (NameRegistration s) (ActiveName s) (ActiveNameByAddress s)" using assms(1) by (simp add: name_inv_def)
  have "names = map snd (with_prefix owner (ActiveNameByAddress s))"
    using assms(5) by (simp add: precompile_NamesOf_def expect_args_def)
  then have "name \<in> set names \<longleftrightarrow> (\<exists>rec. kv_get (ActiveName s) name = Some rec \<and> codec (nr_Address rec) = Some owner)"
    by (simp only: in_with_prefix links_okD(3)[OF links])
  also have "\<dots> \<longleftrightarrow> (\<exists>i t. precompile_ResolveName E [AbiString name] s = Inr (OutLink owner i t))"
  proof (cases "kv_get (ActiveName s) name")
    case None
    with assms(4) show ?thesis by (simp add: precompile_ResolveName_def expect_args_def)
  next
    case (Some rec)
    then obtain b where b: "codec (nr_Address rec) = Some b" using links_okD(1)[OF links Some] by blast
    have "BytesToAddress b = b" using assms(3)[OF b] by (rule BytesToAddress_full)
    with Some b assms(2) show ?thesis by (auto simp: precompile_ResolveName_def expect_args_def keeper_def)
  qed
  finally show ?thesis .
qed

end
