(* ===== verification/Multisig_Signer.thy ===== *)
theory Multisig_Signer
  imports Multisig_Policy
begin

text \<open>
  One pass of the signer (\<open>multisig/signer.go\<close>) over a view: vote on live proposals, propose due
  intents, write the journal, publish, execute ready proposals. Node and file access are not
  modelled: what a pass reads is its argument, what it publishes or broadcasts its result, and
  \<open>steemtx.Sign\<close> is a function that may fail.
\<close>

section \<open>Transactions from the head block\<close>

record dynamic_props =
  dp_HeadBlockNumber :: u32
  dp_HeadBlockID :: string
  dp_Time :: string
  dp_TotalVestingShares :: string
  dp_TotalVestingFundSteem :: string

fun get_le :: "bytes \<Rightarrow> nat" where
  "get_le [] = 0"
| "get_le (b # bs) = of_char b + 256 * get_le bs"

definition NewTransaction :: "dynamic_props \<Rightarrow> operation list \<Rightarrow> int \<Rightarrow> transaction option" where
  "NewTransaction d ops ttl =
     (case (DecodeString (dp_HeadBlockID d), time_Parse (dp_Time d)) of
        (Some i, Some head) \<Rightarrow>
          if length i < 8 then None
          else Some \<lparr>tx_RefBlockNum = ucast (dp_HeadBlockNumber d AND 0xffff),
                     tx_RefBlockPrefix = of_nat (get_le (take 4 (drop 4 i))),
                     tx_Expiration = time_Format (head + ttl), tx_Operations = ops, tx_Signatures = []\<rparr>
      | _ \<Rightarrow> None)"

section \<open>Voting and proposing\<close>

record signer_config =
  sc_Propose :: bool
  sc_DryRun :: bool
  sc_Sign :: "bytes \<Rightarrow> string option"
  sc_RankDelay :: int

text \<open>
  What a pass accumulates. The journal is the one the policy consults (\<open>s.journal\<close> and
  \<open>policy.Journal\<close> are the same object), so an approval recorded earlier in a pass counts for the
  reviews that follow.
\<close>

record ms_pass =
  ps_policy :: policy
  ps_newVotes :: "(string, vote) kv"
  ps_newProps :: "(string, stored_proposal) kv"
  ps_working :: "(string, vote) kv"

definition add_vote :: "string \<Rightarrow> vote \<Rightarrow> ms_pass \<Rightarrow> ms_pass" where
  "add_vote i v s = s\<lparr>ps_newVotes := kv_set i v (ps_newVotes s), ps_working := kv_set i v (ps_working s)\<rparr>"

definition record_approval :: "signer_config \<Rightarrow> string \<Rightarrow> transaction \<Rightarrow> ms_pass \<Rightarrow> ms_pass" where
  "record_approval cfg i tx s =
     (if sc_DryRun cfg then s
      else s\<lparr>ps_policy := (ps_policy s)\<lparr>pc_Journal := map_option (Record i tx) (pc_Journal (ps_policy s))\<rparr>\<rparr>)"

definition already_voted :: "string \<Rightarrow> (string, vote) kv \<Rightarrow> ms_proposal \<Rightarrow> bool" where
  "already_voted self myVotes p \<longleftrightarrow>
     (case kv_get myVotes (pr_ID p) of
        None \<Rightarrow> False
      | Some mv \<Rightarrow> vt_A mv = 0 \<or>
          (case kv_get (pr_Votes p) self of Some vi \<Rightarrow> vi_Valid vi | None \<Rightarrow> False))"

text \<open>The body of the loop over the proposals; the flag is an error return (signing failed).\<close>

definition vote_on ::
  "crypto_env \<Rightarrow> signer_config \<Rightarrow> ms_view \<Rightarrow> svm_state \<Rightarrow> (string, vote) kv \<Rightarrow> ms_proposal \<Rightarrow> ms_pass
   \<Rightarrow> bool \<times> ms_pass" where
  "vote_on c cfg v st myVotes p s =
     (if \<not> Live p \<or> already_voted (pc_Self (ps_policy s)) myVotes p then (False, s)
      else let (d, pol) = Review c (ps_policy s) p v st (ps_working s); s1 = s\<lparr>ps_policy := pol\<rparr> in
        case d of
          Approve \<Rightarrow>
            (case sc_Sign cfg (pr_Digest p) of
               None \<Rightarrow> (True, s1)
             | Some sig \<Rightarrow>
               (False, record_approval cfg (pr_ID p) (pr_Tx p)
                  (add_vote (pr_ID p) \<lparr>vt_A = 1, vt_S = sig, vt_X = tx_Expiration (pr_Tx p)\<rparr> s1)))
        | Deny \<Rightarrow> (False, add_vote (pr_ID p) \<lparr>vt_A = 0, vt_S = [], vt_X = tx_Expiration (pr_Tx p)\<rparr> s1)
        | Abstain \<Rightarrow> (False, s1))"

fun until_error :: "('a \<Rightarrow> 's \<Rightarrow> bool \<times> 's) \<Rightarrow> 'a list \<Rightarrow> 's \<Rightarrow> bool \<times> 's" where
  "until_error f [] s = (False, s)"
| "until_error f (x # xs) s = (let (err, s1) = f x s in if err then (True, s1) else until_error f xs s1)"

definition propose_ttl :: int where "propose_ttl = 58 * Minute"

definition propose_intent ::
  "crypto_env \<Rightarrow> signer_config \<Rightarrow> dynamic_props \<Rightarrow> intent \<Rightarrow> ms_pass \<Rightarrow> bool \<times> ms_pass" where
  "propose_intent c cfg d it s =
     (case NewTransaction d (it_Ops it) propose_ttl of
        None \<Rightarrow> (True, s)
      | Some tx \<Rightarrow>
        (case (ID c tx, Digest c tx) of
           (Inr i, Inr digest) \<Rightarrow>
             (case sc_Sign cfg digest of
                None \<Rightarrow> (True, s)
              | Some sig \<Rightarrow>
                (False, record_approval cfg i tx
                   (add_vote i \<lparr>vt_A = 1, vt_S = sig, vt_X = tx_Expiration tx\<rparr>
                     (s\<lparr>ps_newProps := kv_set i \<lparr>sp_T = it_Title it, sp_Tx = tx, sp_C = dp_Time d\<rparr> (ps_newProps s)\<rparr>))))
         | _ \<Rightarrow> (True, s)))"

text \<open>
  \<open>voteAndPropose\<close>: \<open>wall\<close> is the local clock that \<open>Intents\<close> reads, \<open>saved\<close> says whether the
  journal could be written to disk. The result is the error flag, the policy (with its journal),
  the clock of the intents, and what is handed to \<open>publish\<close>: nothing, if no vote or proposal is
  new, in a dry run, or when the journal was not saved.
\<close>

definition prune_policy :: "instant \<Rightarrow> policy \<Rightarrow> policy" where
  "prune_policy now p = p\<lparr>pc_Journal := map_option (journal_Prune now) (pc_Journal p)\<rparr>"

definition finish_pass ::
  "signer_config \<Rightarrow> bool \<Rightarrow> instant \<Rightarrow> (string, instant) kv \<Rightarrow> ms_pass
   \<Rightarrow> bool \<times> policy \<times> (string, instant) kv \<times> ((string, vote) kv \<times> (string, stored_proposal) kv) option" where
  "finish_pass cfg saved now firstSeen s =
     (let pol = prune_policy now (ps_policy s);
          fs = (if 1000 < length firstSeen then [] else firstSeen) in
      if ps_newVotes s = [] \<and> ps_newProps s = [] \<or> sc_DryRun cfg then (False, pol, fs, None)
      else if \<not> saved then (True, pol, fs, None)
      else (False, pol, fs, Some (ps_newVotes s, ps_newProps s)))"

definition propose_all ::
  "crypto_env \<Rightarrow> signer_config \<Rightarrow> ms_view \<Rightarrow> svm_state \<Rightarrow> dynamic_props \<Rightarrow> instant \<Rightarrow> (string, instant) kv
   \<Rightarrow> ms_pass \<Rightarrow> bool \<times> (string, instant) kv \<times> ms_pass" where
  "propose_all c cfg v st d wall firstSeen s =
     (if \<not> sc_Propose cfg then (False, firstSeen, s)
      else let (its, err, fs, pol) = Intents (ps_policy s) v st firstSeen wall;
               (bad, s1) = until_error (propose_intent c cfg d) its (s\<lparr>ps_policy := pol\<rparr>)
           in (bad, fs, s1))"

definition voteAndPropose ::
  "crypto_env \<Rightarrow> signer_config \<Rightarrow> bool \<Rightarrow> instant \<Rightarrow> policy \<Rightarrow> (string, instant) kv \<Rightarrow> ms_view \<Rightarrow> svm_state
   \<Rightarrow> dynamic_props \<Rightarrow> ballot
   \<Rightarrow> bool \<times> policy \<times> (string, instant) kv \<times> ((string, vote) kv \<times> (string, stored_proposal) kv) option" where
  "voteAndPropose c cfg saved wall pol firstSeen v st d mine =
     (let s0 = \<lparr>ps_policy = pol, ps_newVotes = [], ps_newProps = [], ps_working = bl_Votes mine\<rparr>;
          (bad, s1) = until_error (vote_on c cfg v st (bl_Votes mine)) (v_Proposal v) s0 in
      if bad then (True, ps_policy s1, firstSeen, None)
      else let (bad2, fs, s2) = propose_all c cfg v st d wall firstSeen s1 in
        if bad2 then (True, ps_policy s2, fs, None)
        else finish_pass cfg saved (v_Now v) fs s2)"

text \<open>The ballot that \<open>publish\<close> writes, from the one it has just read back.\<close>

definition publish_ballot ::
  "(ballot \<Rightarrow> nat option) \<Rightarrow> instant \<Rightarrow> (string, vote) kv \<Rightarrow> (string, stored_proposal) kv \<Rightarrow> ballot \<Rightarrow> ballot" where
  "publish_ballot encoded now votes props b =
     ballot_Prune encoded now
       (b\<lparr>bl_Votes := fold (\<lambda>(i, v). kv_set i v) votes (bl_Votes b),
          bl_Props := fold (\<lambda>(i, p). kv_set i p) props (bl_Props b)\<rparr>)"

section \<open>Executing\<close>

text \<open>
  The body of \<open>execute\<close> for one proposal: the transaction to broadcast, if any, and the table of
  when a proposal was first seen ready. \<open>wall\<close> is the local clock.
\<close>

definition execute_one ::
  "crypto_env \<Rightarrow> signer_config \<Rightarrow> ms_view \<Rightarrow> svm_state \<Rightarrow> ballot \<Rightarrow> instant \<Rightarrow> ms_proposal
   \<Rightarrow> (string, instant) kv \<times> policy \<Rightarrow> transaction option \<times> (string, instant) kv \<times> policy" where
  "execute_one c cfg v st mine wall p s =
     (let (readySince, pol) = s in
      if pr_Status p \<noteq> Ready then (None, kv_remove (pr_ID p) readySince, pol)
      else
        let rs = (if kv_get readySince (pr_ID p) = None then kv_set (pr_ID p) wall readySince else readySince);
            since = (case kv_get rs (pr_ID p) of Some t \<Rightarrow> t | None \<Rightarrow> wall);
            members = SortedMembers (v_Bank v);
            rank = rankOf members (pc_Self pol) 0;
            wait = (if pr_Creator p \<noteq> pc_Self pol
                    then sc_RankDelay cfg * ((if rank < 0 then int (length members) else rank) + 1) else 0)
        in if pr_Expiration p - 30 * Second - wall \<le> 0 \<or> wall - since < wait then (None, rs, pol)
           else let (d, pol1) = Review c pol p v st (kv_remove (pr_ID p) (bl_Votes mine));
                    sigs = MinimalSignatures (v_Bank v) p
                in if d \<noteq> Approve \<or> sigs = [] \<or> sc_DryRun cfg then (None, rs, pol1)
                   else (Some ((pr_Tx p)\<lparr>tx_Signatures := sigs\<rparr>), rs, pol1))"

section \<open>The journal invariant\<close>

definition journal_ok :: "instant \<Rightarrow> approval_journal option \<Rightarrow> bool" where
  "journal_ok now j \<longleftrightarrow> (\<exists>a. j = Some a \<and> kv_wf a \<and> one_live now a \<and> [] \<notin> fst ` set a)"

lemma journal_ok_later: "journal_ok now j \<Longrightarrow> now \<le> later \<Longrightarrow> journal_ok later j"
  by (auto simp: journal_ok_def intro: one_live_later)

lemma journal_ok_Record:
  assumes "journal_ok now j" and "i \<noteq> []" and "\<not> Conflicts j (SubjectOf tx) i now"
  shows "journal_ok now (map_option (Record i tx) j)"
proof -
  obtain a where a: "j = Some a" "kv_wf a" "one_live now a" "[] \<notin> fst ` set a"
    using assms(1) by (auto simp: journal_ok_def)
  have "[] \<notin> fst ` set (Record i tx a)"
    using a(4) assms(2) by (simp add: Record_def fst_kv_set)
  with a one_live_Record[OF a(3,2)] assms(3) show ?thesis
    by (simp add: journal_ok_def kv_wf_Record)
qed

lemma journal_ok_Prune: "journal_ok now j \<Longrightarrow> journal_ok now (map_option (journal_Prune late) j)"
proof -
  assume "journal_ok now j"
  then obtain a where a: "j = Some a" "kv_wf a" "one_live now a" "[] \<notin> fst ` set a"
    by (auto simp: journal_ok_def)
  have "set (journal_Prune late a) \<subseteq> set a" by (simp add: journal_Prune_def)
  then have "[] \<notin> fst ` set (journal_Prune late a)" using a(4) by blast
  with a show ?thesis by (simp add: journal_ok_def kv_wf_Prune one_live_Prune)
qed

text \<open>A review changes nothing but the cache of computed authorities.\<close>

definition same_but_cache :: "policy \<Rightarrow> policy \<Rightarrow> bool" where
  "same_but_cache p q \<longleftrightarrow>
     pc_Cfg q = pc_Cfg p \<and> pc_SVM q = pc_SVM p \<and> pc_Self q = pc_Self p \<and> pc_Journal q = pc_Journal p"

lemma same_but_cache_refl [simp]: "same_but_cache p p"
  by (simp add: same_but_cache_def)

lemma DesiredAt_frame: "same_but_cache p (snd (DesiredAt p h))"
  by (auto simp: DesiredAt_def same_but_cache_def split: option.splits sum.splits)

lemma Review_frame: "same_but_cache p (snd (Review c p prop v st votes))"
  using DesiredAt_frame[of p]
  by (auto simp: Review_def reviewAccountUpdate_def Let_def split: option.splits prod.splits list.splits
      op_value.splits) (metis snd_conv)+

lemma Review_approves_free:
  "fst (Review c p prop v st votes) = Approve \<Longrightarrow>
   \<not> Conflicts (pc_Journal p) (SubjectOf (pr_Tx prop)) (pr_ID prop) (v_Now v)"
  by (auto simp: Review_def reviewTransfer_def reviewAccountUpdate_def Let_def
      split: option.splits prod.splits list.splits op_value.splits decision.splits if_splits)

text \<open>The loop over the proposals keeps the invariant: it records only what the review left free.\<close>

abbreviation pass_journal :: "ms_pass \<Rightarrow> approval_journal option" where
  "pass_journal s \<equiv> pc_Journal (ps_policy s)"

lemma record_approval_journal:
  "pass_journal (record_approval cfg i tx s) =
     (if sc_DryRun cfg then pass_journal s else map_option (Record i tx) (pass_journal s))"
  by (simp add: record_approval_def)

lemma add_vote_journal [simp]: "ps_policy (add_vote i v s) = ps_policy s"
  by (simp add: add_vote_def)

lemma vote_on_journal:
  assumes "journal_ok (v_Now v) (pass_journal s)" and "pr_ID p \<noteq> []"
  shows "journal_ok (v_Now v) (pass_journal (snd (vote_on c cfg v st my p s)))"
proof -
  let ?r = "Review c (ps_policy s) p v st (ps_working s)"
  have same: "pc_Journal (snd ?r) = pass_journal s"
    using Review_frame[of "ps_policy s" c p v st "ps_working s"] by (simp add: same_but_cache_def)
  show ?thesis
  proof (cases "fst ?r = Approve")
    case True
    note free = Review_approves_free[OF True]
    show ?thesis
      using assms same journal_ok_Record[OF assms free] True
      by (auto simp: vote_on_def Let_def record_approval_journal split: prod.splits option.splits)
  next
    case False
    with assms same show ?thesis
      by (auto simp: vote_on_def Let_def split: prod.splits decision.splits)
  qed
qed

lemma until_error_invariant:
  assumes "P s" and "\<And>x s. x \<in> set xs \<Longrightarrow> P s \<Longrightarrow> P (snd (f x s))"
  shows "P (snd (until_error f xs s))"
  using assms
proof (induction xs arbitrary: s)
  case (Cons x xs)
  have "P (snd (f x s))" using Cons.prems by simp
  with Cons.IH[of "snd (f x s)"] Cons.prems(2) show ?case
    by (auto simp: Let_def case_prod_beta)
qed simp

section \<open>Intents do not conflict\<close>

fun intent_subject :: "intent \<Rightarrow> string" where
  "intent_subject it = SubjectOf \<lparr>tx_RefBlockNum = 0, tx_RefBlockPrefix = 0, tx_Expiration = [],
     tx_Operations = it_Ops it, tx_Signatures = []\<rparr>"

lemma SubjectOf_ops: "tx_Operations tx = tx_Operations ty \<Longrightarrow> SubjectOf tx = SubjectOf ty"
proof -
  assume ops: "tx_Operations tx = tx_Operations ty"
  then have "PayoutOf tx = PayoutOf ty" by (intro ext) (simp add: PayoutOf_def)
  with ops show ?thesis by (simp only: SubjectOf_def)
qed

lemma SubjectOf_payout: "tx_Operations tx = PayoutOps bank to amount memo i \<Longrightarrow> SubjectOf tx = PayoutSubject i"
  using PayoutOf_PayoutOps[of tx bank to amount memo i] by (simp add: SubjectOf_def PayoutOps_def)

lemma subject_payout_intent: "intent_subject (payout_intent p i w) = PayoutSubject i"
  by (simp add: payout_intent_def Let_def SubjectOf_payout)

lemma subject_update_intent:
  "intent_subject (update_intent p v s d) = ''account_update:'' @ cf_BankAccount (pc_Cfg p)"
  by (simp add: update_intent_def SubjectOf_def)

lemma PayoutSubject_inject: "PayoutSubject i = PayoutSubject j \<longleftrightarrow> i = j"
  by (simp add: PayoutSubject_def word_unat_eq_iff)

lemma step_payout_intents:
  "\<exists>xs. set xs \<subseteq> set reqs \<and> (distinct (map fst reqs) \<longrightarrow> distinct (map fst xs)) \<and>
     snd (snd (fold (step_payout p v st members now) reqs s)) = snd (snd s) @ map (\<lambda>(i, w). payout_intent p i w) xs \<and>
     (\<forall>(i, w) \<in> set xs. \<not> Conflicts (pc_Journal p) (PayoutSubject i) [] (v_Now v))"
proof (induction reqs arbitrary: s)
  case (Cons iw reqs)
  obtain i w where iw: "iw = (i, w)" by force
  let ?s = "step_payout p v st members now iw s"
  obtain xs where xs: "set xs \<subseteq> set reqs" "distinct (map fst reqs) \<longrightarrow> distinct (map fst xs)"
      "snd (snd (fold (step_payout p v st members now) reqs ?s)) = snd (snd ?s) @ map (\<lambda>(i, w). payout_intent p i w) xs"
      "\<forall>(i, w) \<in> set xs. \<not> Conflicts (pc_Journal p) (PayoutSubject i) [] (v_Now v)"
    using Cons.IH[of ?s] by blast
  consider "snd (snd ?s) = snd (snd s)"
    | "snd (snd ?s) = snd (snd s) @ [payout_intent p i w]" "\<not> Conflicts (pc_Journal p) (PayoutSubject i) [] (v_Now v)"
  proof (cases "payable p v st (fst (snd s)) i w")
    case True
    moreover have "\<not> Conflicts (pc_Journal p) (PayoutSubject i) [] (v_Now v)"
      using True by (simp add: payable_def)
    ultimately show ?thesis
      using that
      by (cases "fst (due p members now (payout_key i) (int (unat i mod length members)) (fst s))")
        (simp_all add: step_payout_def iw Let_def case_prod_beta)
  qed (use that in \<open>simp add: step_payout_def iw Let_def case_prod_beta\<close>)
  then show ?case
  proof cases
    case 1
    with xs show ?thesis by (intro exI[of _ xs]) auto
  next
    case 2
    have "i \<notin> fst ` set reqs \<Longrightarrow> i \<notin> fst ` set xs" using xs(1) by auto
    with 2 xs iw show ?thesis by (intro exI[of _ "(i, w) # xs"]) auto
  qed
qed simp

lemma propose_update_free:
  "\<forall>it \<in> set (fst (propose_update p v st members now fs)).
     intent_subject it = ''account_update:'' @ cf_BankAccount (pc_Cfg p)
     \<and> \<not> Conflicts (pc_Journal p) (intent_subject it) [] (v_Now v)"
  "length (fst (propose_update p v st members now fs)) \<le> 1"
  "same_but_cache p (snd (snd (snd (propose_update p v st members now fs))))"
  using DesiredAt_frame[of p "Checkpoint p (st_Height st)"] subject_update_intent[of p v]
  by (auto simp: propose_update_def Let_def case_prod_beta simp del: intent_subject.simps split: option.split)

lemma Intents_free:
  assumes "kv_wf (st_Requested st)" and "Intents p v st fs now = (its, err, fs', p')"
  shows "distinct (map intent_subject its)"
    and "\<forall>it \<in> set its. \<not> Conflicts (pc_Journal p) (intent_subject it) [] (v_Now v)"
    and "same_but_cache p p'"
proof -
  let ?m = "SortedMembers (v_Bank v)"
  let ?f = "fold (step_payout p v st ?m now) (st_Requested st)
      (fold (\<lambda>i. kv_remove (payout_key i)) (live_payouts p v) fs, bank_balance v, [])"
  let ?u = "propose_update p v st ?m now (fst ?f)"
  have "distinct (map intent_subject its)
    \<and> (\<forall>it \<in> set its. \<not> Conflicts (pc_Journal p) (intent_subject it) [] (v_Now v)) \<and> same_but_cache p p'"
  proof (cases "?m = [] \<or> rankOf ?m (pc_Self p) 0 < 0")
    case True
    with assms(2) show ?thesis by (auto simp: Intents_def)
  next
    case False
    have its: "its = snd (snd ?f) @ fst ?u" and p': "p' = snd (snd (snd ?u))"
      using assms(2) False by (simp_all add: Intents_def Let_def case_prod_beta)
    obtain xs where xs: "distinct (map fst xs)" "snd (snd ?f) = map (\<lambda>(i, w). payout_intent p i w) xs"
        "\<forall>(i, w) \<in> set xs. \<not> Conflicts (pc_Journal p) (PayoutSubject i) [] (v_Now v)"
      using step_payout_intents[where reqs = "st_Requested st" and p = p and v = v and st = st and members = ?m and now = now
          and s = "(fold (\<lambda>i. kv_remove (payout_key i)) (live_payouts p v) fs, bank_balance v, [])"]
        kv_wf_distinct[OF assms(1)] by auto
    have sub: "map intent_subject (snd (snd ?f)) = map (PayoutSubject \<circ> fst) xs"
      unfolding xs(2) by (simp add: subject_payout_intent case_prod_beta del: intent_subject.simps)
    have "inj_on PayoutSubject (set (map fst xs))" by (simp add: inj_on_def PayoutSubject_inject)
    then have "distinct (map PayoutSubject (map fst xs))" using xs(1) by (simp only: distinct_map)
    then have d1: "distinct (map intent_subject (snd (snd ?f)))" unfolding sub by simp
    note u = propose_update_free[of p v st ?m now "fst ?f"]
    have d2: "distinct (map intent_subject (fst ?u))"
      using u(2) by (cases "fst ?u") (simp_all del: intent_subject.simps)
    have "intent_subject ` set (snd (snd ?f)) \<inter> intent_subject ` set (fst ?u) = {}"
    proof -
      have "intent_subject ` set (snd (snd ?f)) \<subseteq> range PayoutSubject"
        using arg_cong[OF sub, of set] unfolding set_map image_comp[symmetric] by blast
      moreover have "intent_subject ` set (fst ?u) \<subseteq> {''account_update:'' @ cf_BankAccount (pc_Cfg p)}"
        using u(1) by (intro image_subsetI) blast
      ultimately have "intent_subject ` set (snd (snd ?f)) \<inter> intent_subject ` set (fst ?u)
          \<subseteq> range PayoutSubject \<inter> {''account_update:'' @ cf_BankAccount (pc_Cfg p)}" by (rule Int_mono)
      also have "\<dots> = {}" by (auto simp: PayoutSubject_def)
      finally show ?thesis by (rule subset_empty[THEN iffD1])
    qed
    with d1 d2 have "distinct (map intent_subject its)"
      unfolding its map_append distinct_append set_map by (intro conjI)
    moreover have "\<forall>it \<in> set its. \<not> Conflicts (pc_Journal p) (intent_subject it) [] (v_Now v)"
    proof
      fix it assume "it \<in> set its"
      then consider "it \<in> set (snd (snd ?f))" | "it \<in> set (fst ?u)" unfolding its set_append by blast
      then show "\<not> Conflicts (pc_Journal p) (intent_subject it) [] (v_Now v)"
      proof cases
        case 1
        then obtain i w where "it = payout_intent p i w" "(i, w) \<in> set xs" unfolding xs(2) by auto
        then show ?thesis using xs(3) unfolding \<open>it = payout_intent p i w\<close> subject_payout_intent by blast
      qed (use u(1) in blast)
    qed
    ultimately show ?thesis using u(3) p' by simp
  qed
  then show "distinct (map intent_subject its)"
    "\<forall>it \<in> set its. \<not> Conflicts (pc_Journal p) (intent_subject it) [] (v_Now v)" "same_but_cache p p'"
    by blast+
qed

text \<open>Proposing the intents, one after the other, keeps the invariant.\<close>

lemma ID_nonempty: "ID c tx = Inr i \<Longrightarrow> \<forall>x. c_sha256 c x \<noteq> [] \<Longrightarrow> i \<noteq> []"
  by (auto simp: ID_def rbind_eq_Inr EncodeToString_def)

lemma Conflicts_any: "journal_ok now j \<Longrightarrow> Conflicts j sub i now \<Longrightarrow> Conflicts j sub [] now"
proof -
  assume ok: "journal_ok now j" and "Conflicts j sub i now"
  then obtain a pid e where a: "j = Some a" "[] \<notin> fst ` set a" and e: "(pid, e) \<in> set a" "je_Subject e = sub"
      "unexpired now (je_Expiration e)" "sub \<noteq> []"
    by (auto simp: journal_ok_def Conflicts_def)
  have "pid \<noteq> []" using a(2) e(1) by (metis fst_conv image_eqI)
  with a(1) e show ?thesis by (auto simp: Conflicts_def)
qed

lemma Conflicts_Record:
  assumes "Conflicts (map_option (Record i tx) j) sub [] now" and "sub \<noteq> SubjectOf tx" and "journal_ok now j"
  shows "Conflicts j sub [] now"
proof -
  obtain a where a: "j = Some a" "kv_wf a" using assms(3) by (auto simp: journal_ok_def)
  from assms(1) a(1) obtain pid e where e: "(pid, e) \<in> set (Record i tx a)" "pid \<noteq> []" "je_Subject e = sub"
      "unexpired now (je_Expiration e)" "sub \<noteq> []"
    by (auto simp: Conflicts_def)
  have "pid \<noteq> i" "(pid, e) \<in> set a"
    using e(1,3) assms(2) set_kv_set_wf[OF a(2), of pid e i] by (auto simp: Record_def split: if_splits)
  with e a(1) show ?thesis by (auto simp: Conflicts_def)
qed

lemma propose_intent_journal:
  assumes ok: "journal_ok now (pass_journal s)" and sha: "\<forall>x. c_sha256 c x \<noteq> []"
    and free: "\<not> Conflicts (pass_journal s) (intent_subject it) [] now"
  shows "journal_ok now (pass_journal (snd (propose_intent c cfg d it s)))"
    and "sub \<noteq> intent_subject it \<Longrightarrow> \<not> Conflicts (pass_journal s) sub [] now \<Longrightarrow>
      \<not> Conflicts (pass_journal (snd (propose_intent c cfg d it s))) sub [] now"
proof -
  let ?s = "snd (propose_intent c cfg d it s)"
  consider "pass_journal ?s = pass_journal s"
    | i tx where "tx_Operations tx = it_Ops it" "i \<noteq> []" "pass_journal ?s = map_option (Record i tx) (pass_journal s)"
  proof (cases "NewTransaction d (it_Ops it) propose_ttl")
    case (Some tx)
    then have ops: "tx_Operations tx = it_Ops it" by (auto simp: NewTransaction_def split: option.splits if_splits)
    show ?thesis
    proof (cases "\<exists>i dg sig. ID c tx = Inr i \<and> Digest c tx = Inr dg \<and> sc_Sign cfg dg = Some sig \<and> \<not> sc_DryRun cfg")
      case True
      then obtain i dg sig where r: "ID c tx = Inr i" "Digest c tx = Inr dg" "sc_Sign cfg dg = Some sig" "\<not> sc_DryRun cfg"
        by blast
      show ?thesis
        by (rule that(2)[OF ops ID_nonempty[OF r(1) sha]])
          (simp add: propose_intent_def Some r record_approval_journal)
    next
      case False
      then show ?thesis
        by (intro that(1)) (auto simp: propose_intent_def Some record_approval_journal split: sum.split option.split)
    qed
  qed (use that(1) in \<open>simp add: propose_intent_def\<close>)
  note cs = this
  from cs show "journal_ok now (pass_journal ?s)"
  proof cases
    case (2 i tx)
    have "SubjectOf tx = intent_subject it" using 2(1) by (auto intro!: SubjectOf_ops)
    with free Conflicts_any[OF ok] have "\<not> Conflicts (pass_journal s) (SubjectOf tx) i now" by metis
    from journal_ok_Record[OF ok 2(2) this] 2(3) show ?thesis by simp
  qed (use ok in simp)
  assume sub: "sub \<noteq> intent_subject it" "\<not> Conflicts (pass_journal s) sub [] now"
  from cs show "\<not> Conflicts (pass_journal ?s) sub [] now"
  proof cases
    case (2 i tx)
    have "SubjectOf tx = intent_subject it" using 2(1) by (auto intro!: SubjectOf_ops)
    with sub Conflicts_Record[OF _ _ ok, of i tx sub] 2(3) show ?thesis by metis
  qed (use sub in simp)
qed

lemma propose_loop_journal:
  assumes "journal_ok now (pass_journal s)" and "\<forall>x. c_sha256 c x \<noteq> []"
    and "distinct (map intent_subject its)"
    and "\<forall>it \<in> set its. \<not> Conflicts (pass_journal s) (intent_subject it) [] now"
  shows "journal_ok now (pass_journal (snd (until_error (propose_intent c cfg d) its s)))"
  using assms(1,3,4)
proof (induction its arbitrary: s)
  case (Cons it its)
  let ?s = "snd (propose_intent c cfg d it s)"
  have free: "\<not> Conflicts (pass_journal s) (intent_subject it) [] now" using Cons.prems(3) by (meson list.set_intros(1))
  note step = propose_intent_journal[OF Cons.prems(1) assms(2) free]
  have "\<forall>jt \<in> set its. \<not> Conflicts (pass_journal ?s) (intent_subject jt) [] now"
  proof
    fix jt assume jt: "jt \<in> set its"
    then have "intent_subject jt \<noteq> intent_subject it"
      using Cons.prems(2) by (metis distinct.simps(2) image_eqI list.set_map list.simps(9))
    with step(2) Cons.prems(3) jt show "\<not> Conflicts (pass_journal ?s) (intent_subject jt) [] now"
      by (meson list.set_intros(2))
  qed
  from Cons.IH[OF step(1) _ this] Cons.prems(2) step(1) show ?case
    by (simp add: Let_def case_prod_beta del: intent_subject.simps)
qed simp

lemma voteAndPropose_journal:
  assumes ok: "journal_ok (v_Now v) (pc_Journal pol)" and sha: "\<forall>x. c_sha256 c x \<noteq> []"
    and ids: "\<forall>p \<in> set (v_Proposal v). pr_ID p \<noteq> []" and req: "kv_wf (st_Requested st)"
    and run: "voteAndPropose c cfg saved wall pol fs v st d mine = (err, pol', fs', out)"
  shows "journal_ok (v_Now v) (pc_Journal pol')"
proof -
  let ?s0 = "\<lparr>ps_policy = pol, ps_newVotes = [], ps_newProps = [], ps_working = bl_Votes mine\<rparr>"
  let ?l = "until_error (vote_on c cfg v st (bl_Votes mine)) (v_Proposal v) ?s0"
  have j1: "journal_ok (v_Now v) (pass_journal (snd ?l))"
    by (rule until_error_invariant[where P = "\<lambda>s. journal_ok (v_Now v) (pass_journal s)"])
      (use ok ids vote_on_journal in auto)
  let ?pr = "propose_all c cfg v st d wall fs (snd ?l)"
  have j2: "journal_ok (v_Now v) (pass_journal (snd (snd ?pr)))"
  proof (cases "sc_Propose cfg")
    case True
    obtain its e fs1 p1 where it: "Intents (ps_policy (snd ?l)) v st fs wall = (its, e, fs1, p1)"
      by (metis prod_cases4)
    note fr = Intents_free[OF req it]
    have same: "pc_Journal p1 = pass_journal (snd ?l)" using fr(3) by (simp add: same_but_cache_def)
    have "journal_ok (v_Now v) (pass_journal (snd (until_error (propose_intent c cfg d) its ((snd ?l)\<lparr>ps_policy := p1\<rparr>))))"
      by (rule propose_loop_journal) (use j1 sha fr same in \<open>simp_all del: intent_subject.simps\<close>)
    with True it show ?thesis by (simp add: propose_all_def Let_def case_prod_beta)
  qed (simp add: propose_all_def j1)
  have "journal_ok (v_Now v) (pc_Journal pol')" if "finish_pass cfg saved (v_Now v) (fst (snd ?pr)) (snd (snd ?pr)) = (err, pol', fs', out)"
    using that journal_ok_Prune[OF j2, of "v_Now v"]
    by (auto simp: finish_pass_def prune_policy_def Let_def split: if_splits)
  with run j1 j2 show ?thesis
    by (auto simp: voteAndPropose_def Let_def case_prod_beta split: if_splits)
qed

section \<open>Runs of the signer\<close>

text \<open>
  The life of a signer: it starts with an empty journal, makes passes at non-decreasing Steem head
  times, each over any ballots, members, history and SVM state, and may be restarted at any time,
  when it reads back the journal last saved. \<open>disk\<close> is that saved journal: a pass that publishes
  has saved it first.
\<close>

inductive signer_runs :: "crypto_env \<Rightarrow> signer_config \<Rightarrow> instant \<Rightarrow> policy \<Rightarrow> approval_journal \<Rightarrow> bool"
  for c cfg where
  runs_start: "pc_Journal p = Some [] \<Longrightarrow> signer_runs c cfg now p []"
| runs_pass:
    "signer_runs c cfg now p disk \<Longrightarrow> now \<le> t \<Longrightarrow> kv_wf ballots \<Longrightarrow> kv_wf (st_Requested st) \<Longrightarrow>
     voteAndPropose c cfg saved wall p fs (BuildView c t bank members ballots hist) st d mine = (err, p', fs', out) \<Longrightarrow>
     disk' = (case (out, pc_Journal p') of (Some x, Some j) \<Rightarrow> j | _ \<Rightarrow> disk) \<Longrightarrow>
     signer_runs c cfg t p' disk'"
| runs_restart:
    "signer_runs c cfg now p disk \<Longrightarrow> signer_runs c cfg now (p\<lparr>pc_Journal := Some disk, pc_cache := []\<rparr>) disk"

lemma view_ids:
  assumes "kv_wf ballots" and "\<forall>x. c_sha256 c x \<noteq> []"
  shows "\<forall>p \<in> set (v_Proposal (BuildView c t bank members ballots hist)). pr_ID p \<noteq> []"
proof
  fix p assume "p \<in> set (v_Proposal (BuildView c t bank members ballots hist))"
  from view_proposal(1)[OF this assms(1)] have "ID c (pr_Tx p) = Inr (pr_ID p)" by (simp add: genuine_def)
  then show "pr_ID p \<noteq> []" using assms(2) by (rule ID_nonempty)
qed

lemma signer_runs_ok:
  assumes "signer_runs c cfg now p disk" and sha: "\<forall>x. c_sha256 c x \<noteq> []"
  shows "journal_ok now (pc_Journal p) \<and> journal_ok now (Some disk)"
  using assms(1)
proof (induction rule: signer_runs.induct)
  case (runs_start p now)
  then show ?case by (simp add: journal_ok_def one_live_def)
next
  case (runs_pass now p disk t ballots st saved wall fs bank members hist d mine err p' fs' out disk')
  let ?v = "BuildView c t bank members ballots hist"
  have t: "v_Now ?v = t" by (simp add: BuildView_def)
  have "journal_ok t (pc_Journal p')"
    using voteAndPropose_journal[OF _ sha view_ids[OF runs_pass.hyps(3) sha] runs_pass.hyps(4,5)]
      runs_pass.IH journal_ok_later[OF _ runs_pass.hyps(2)] unfolding t by blast
  moreover have "journal_ok t (Some disk)" using runs_pass.IH journal_ok_later[OF _ runs_pass.hyps(2)] by blast
  ultimately show ?case using runs_pass.hyps(6) by (auto split: option.splits)
next
  case (runs_restart now p disk)
  then show ?case by simp
qed


text \<open>A run in which the only member proposes the payout of withdrawal 7.\<close>

definition demo_cfg :: signer_config where
  "demo_cfg = \<lparr>sc_Propose = True, sc_DryRun = False, sc_Sign = (\<lambda>d. Some demo_sig), sc_RankDelay = 0\<rparr>"

definition demo_props :: dynamic_props where
  "demo_props = \<lparr>dp_HeadBlockNumber = 5, dp_HeadBlockID = ''1111111111111111'', dp_Time = ''2026-01-01T00:00:00'',
     dp_TotalVestingShares = ''0.000000 VESTS'', dp_TotalVestingFundSteem = ''0.000 STEEM''\<rparr>"

abbreviation demo_empty_view :: ms_view where
  "demo_empty_view \<equiv>
     BuildView demo_signing 1767225600000000000 (demo_account ''svm.bank'' demo_auth) demo_members [] empty_index"

lemma demo_no_proposals: "v_Proposal demo_empty_view = []"
  by (simp add: BuildView_def collect_proposals_def)

lemma demo_balance: "balance_of (bank_balance demo_empty_view) ''STEEM'' = 100000"
proof -
  have a: "ParseAsset ''100.000 STEEM'' = Inr \<lparr>as_Amount = 100000, as_Precision = 3, as_Symbol = ''STEEM''\<rparr>"
    "ParseAsset ''0.000 SBD'' = Inr \<lparr>as_Amount = 0, as_Precision = 3, as_Symbol = ''SBD''\<rparr>"
    using Fields_two[of "''100.000''" "''STEEM''"] Fields_two[of "''0.000''" "''SBD''"]
    by (simp_all add: visible_def ParseAsset_def precisions_def HasPrefix_def is_digit_def)
  show ?thesis
    by (simp add: bank_balance_def BuildView_def demo_account_def a balance_of_def kv_get_Cons)
qed

lemma demo_intents:
  "\<exists>fs. Intents demo_policy demo_empty_view demo_state [] 0 = ([payout_intent demo_policy 7 demo_withdrawal], False, fs, demo_policy)"
proof -
  have m: "SortedMembers (v_Bank demo_empty_view) = [''alice'']"
    by (simp add: SortedMembers_def BuildView_def demo_account_def demo_auth_def Sorted_def)
  have r: "rankOf [''alice''] (pc_Self demo_policy) 0 = 0"
    by (simp add: rankOf_def demo_policy_def Let_def signed_modulo_int_def)
  have live: "live_payouts demo_policy demo_empty_view = []"
    by (simp add: live_payouts_def demo_no_proposals map_filter_def)
  have hist: "v_History demo_empty_view = empty_index" by (simp add: BuildView_def)
  have pay: "payable demo_policy demo_empty_view demo_state (bank_balance demo_empty_view) 7 demo_withdrawal"
    using demo_balance live hist
    by (simp add: payable_def IsPaid_def Conflicts_def past_margin_def demo_policy_def
        DefaultConfig_def demo_state_def demo_withdrawal_def empty_index_def)
  have u: "propose_update demo_policy demo_empty_view demo_state [''alice''] 0 fs = ([], False, fs, demo_policy)" for fs
    by (simp add: propose_update_def Checkpoint_def demo_policy_def DefaultConfig_def demo_state_def Let_def
        signed_modulo_int_def)
  have "fst (due demo_policy [''alice''] 0 (payout_key 7) 0 fs)" for fs
    by (simp add: due_def Let_def r)
  with m r pay u live show ?thesis
    by (simp add: Intents_def Let_def case_prod_beta demo_state_def step_payout_def)
qed

lemma demo_new_tx:
  "\<exists>tx. NewTransaction demo_props (it_Ops it) propose_ttl = Some tx \<and> tx_Operations tx = it_Ops it
     \<and> tx_Expiration tx = ''2026-01-01T00:58:00''"
proof -
  have "char_of (17 :: nat) = CHR 0x11" by code_simp
  then have i: "DecodeString ''1111111111111111'' = Some (replicate 8 (CHR 0x11))"
    by (simp add: is_hex_def is_hex_lower_def is_digit_def hex_val_def numeral_eq_Suc)
  have t: "time_Parse ''2026-01-01T00:00:00'' = Some 1767225600000000000" by (simp add: time_eval)
  have d: "digit_char 0 = CHR ''0''" "digit_char (Suc 0) = CHR ''1''" "digit_char 2 = CHR ''2''" "digit_char 5 = CHR ''5''"
    "digit_char 6 = CHR ''6''" "digit_char 8 = CHR ''8''" by code_simp+
  have f: "time_Format (1767225600000000000 + propose_ttl) = ''2026-01-01T00:58:00''"
    by (simp add: time_Format_def format_date_def format_clock_def year_of_day_def daysBeforeYear_def Unix_def
        propose_ttl_def duration_defs daysIn_def padn_def FormatUint.simps d upt_rec)
  show ?thesis by (simp add: NewTransaction_def demo_props_def i t f del: DecodeString.simps)
qed

lemma demo_payout_ids:
  assumes "tx_Operations tx = it_Ops (payout_intent demo_policy 7 demo_withdrawal)"
    and "tx_Expiration tx = ''2026-01-01T00:58:00''"
  shows "ID demo_signing tx = Inr ''78''" and "Digest demo_signing tx = Inr ''x''"
proof -
  have "ParseAsset (FormatMilli 1000 ''STEEM'') = Inr \<lparr>as_Amount = 1000, as_Precision = 3, as_Symbol = ''STEEM''\<rparr>"
    using FormatMilli_parses[of "''STEEM''" 1000] by simp
  then have "\<exists>x. Serialize demo_signing tx = Inr x"
    using assms by (simp add: Serialize_def Time_def time_eval payout_intent_def PayoutOps_def write_amount_def
        demo_withdrawal_def Let_def)
  then obtain x where x: "Serialize demo_signing tx = Inr x" by blast
  have sha: "c_sha256 demo_signing y = ''x''" for y by (simp add: demo_signing_def)
  have "char_of (55 :: nat) = CHR ''7''" "char_of (56 :: nat) = CHR ''8''" by code_simp+
  then show "ID demo_signing tx = Inr ''78''" "Digest demo_signing tx = Inr ''x''"
    by (simp_all add: ID_def Digest_def x sha EncodeToString_def digit_char_def)
qed

definition demo_entry :: journal_entry where
  "demo_entry = \<lparr>je_Subject = PayoutSubject 7, je_Expiration = ''2026-01-01T00:58:00''\<rparr>"

lemma demo_pass:
  "\<exists>fs out. voteAndPropose demo_signing demo_cfg True 0 demo_policy [] demo_empty_view demo_state demo_props
       \<lparr>bl_Props = [], bl_Votes = []\<rparr>
     = (False, demo_policy\<lparr>pc_Journal := Some [(''78'', demo_entry)]\<rparr>, fs, Some out)"
proof -
  let ?it = "payout_intent demo_policy 7 demo_withdrawal"
  obtain fs where its: "Intents demo_policy demo_empty_view demo_state [] 0 = ([?it], False, fs, demo_policy)"
    using demo_intents by blast
  obtain tx where tx: "NewTransaction demo_props (it_Ops ?it) propose_ttl = Some tx" "tx_Operations tx = it_Ops ?it"
      "tx_Expiration tx = ''2026-01-01T00:58:00''"
    using demo_new_tx[of ?it] by blast
  have sub: "SubjectOf tx = PayoutSubject 7"
    using tx(2) by (auto simp: payout_intent_def Let_def intro: SubjectOf_payout)
  have now: "v_Now demo_empty_view = 1767225600000000000" by (simp add: BuildView_def)
  have j: "pc_Journal demo_policy = Some []" by (simp add: demo_policy_def)
  have cfg: "sc_Propose demo_cfg" "\<not> sc_DryRun demo_cfg" "sc_Sign demo_cfg dg = Some demo_sig" for dg
    by (simp_all add: demo_cfg_def)
  have "journal_Prune 1767225600000000000 [(''78'', demo_entry)] = [(''78'', demo_entry)]"
    by (simp add: journal_Prune_def demo_entry_def time_eval Before_def PruneAfter_def Hour_def Minute_def)
  then show ?thesis
    using its tx sub demo_payout_ids[OF tx(2,3)] now j
    by (simp add: voteAndPropose_def demo_no_proposals propose_all_def cfg propose_intent_def
        record_approval_def add_vote_def finish_pass_def prune_policy_def Record_def demo_entry_def)
qed

lemma demo_run:
  "signer_runs demo_signing demo_cfg 1767225600000000000
     (demo_policy\<lparr>pc_Journal := Some [(''78'', demo_entry)]\<rparr>) [(''78'', demo_entry)]"
proof -
  obtain fs out where pass: "voteAndPropose demo_signing demo_cfg True 0 demo_policy [] demo_empty_view demo_state demo_props
       \<lparr>bl_Props = [], bl_Votes = []\<rparr>
     = (False, demo_policy\<lparr>pc_Journal := Some [(''78'', demo_entry)]\<rparr>, fs, Some out)"
    using demo_pass by (elim exE)
  have "signer_runs demo_signing demo_cfg 1767225600000000000 demo_policy []"
    by (rule runs_start) (simp add: demo_policy_def)
  then show ?thesis
    by (rule runs_pass[OF _ order_refl _ _ pass]) (simp_all add: demo_state_def kv_wf_def)
qed


end
