(* ===== verification/Relayer_Chain.thy ===== *)
theory Relayer_Chain
  imports Relayer
begin

text \<open>
  The relayer, the signers and the chain together: the node that answers the relayer's queries is the
  chain that judges its transactions, and the withdrawals the signers pay are the ones the chain recorded.
\<close>

section \<open>A node that answers from the chain\<close>

definition answers :: "'b bridge_state \<Rightarrow> cycle_io \<Rightarrow> bool" where
  "answers s io \<longleftrightarrow>
     io_Params io = wire (query_Params (Some ()) s) \<and>
     (\<forall>txid i. io_DepositByTxid io txid i = wire (query_DepositByTxid (Some (txid, i)) s)) \<and>
     (\<forall>txid i. io_NameRegistrationByTxid io txid i = wire (query_NameRegistrationByTxid (Some (txid, i)) s)) \<and>
     (\<forall>i. io_GetWithdrawal io i = wire (query_GetWithdrawal (Some i) s))"

lemma answers_params: "answers s io \<Longrightarrow> b_Params s = Some p \<Longrightarrow> io_Params io = Inr p"
  by (simp add: answers_def query_Params_def valid_request_def wire_def)

lemma answers_withdrawal: "answers s io \<Longrightarrow> io_GetWithdrawal io i = Inr w \<Longrightarrow> kv_get (Withdrawal s) i = Some w"
  by (auto simp: answers_def query_GetWithdrawal_def valid_request_def wire_def from_option_def split: option.splits)

lemma deposit_lookup:
  assumes "deposit_inv s"
  shows "\<exists>r. lookupDepositByTxid txid i s = Inr r"
proof (cases "kv_get (DepositByTxid s) (txid, i)")
  case (Some j)
  then obtain d where "kv_get (Deposit s) j = Some d" using assms unfolding deposit_inv_def table_ok_def by blast
  with Some show ?thesis by (simp add: lookupDepositByTxid_def)
qed (simp add: lookupDepositByTxid_def)

lemma name_lookup:
  assumes "name_inv codec s"
  shows "\<exists>r. lookupNameRegistrationByTxid txid i s = Inr r"
proof (cases "kv_get (NameRegistrationByTxid s) (txid, i)")
  case (Some j)
  then obtain d where "kv_get (NameRegistration s) j = Some d" using assms unfolding name_inv_def table_ok_def by blast
  with Some show ?thesis by (simp add: lookupNameRegistrationByTxid_def)
qed (simp add: lookupNameRegistrationByTxid_def)

lemma tolerable_simps [simp]: "tolerable (Inr ())" "tolerable (Inl e) \<longleftrightarrow> IsBenignAttestationError e"
  by (simp_all add: tolerable_def)

lemma benign [simp]:
  "IsBenignAttestationError ErrDepositAlreadyMinted" "IsBenignAttestationError ErrRegistrationAlreadyResolved"
  "IsBenignAttestationError ErrDuplicateConfirmation" "IsBenignAttestationError ErrWithdrawalAlreadyProcessed"
  "IsBenignAttestationError ErrWithdrawalAlreadyRefunded" "IsBenignAttestationError ErrDuplicateWithdrawalConfirmation"
  "\<not> IsBenignAttestationError ErrRegistrationBelowMinimum" "\<not> IsBenignAttestationError ErrBridgeDisabled"
  by (simp_all add: IsBenignAttestationError_def)

lemma guard_err_if: "guard_err b e = (if b then Inr () else Inl e)"
  by (simp add: guard_err_def)

lemma deposit_tolerable:
  assumes "b_Params s = Some p" "BridgeEnabled p" "ad_GatewayAccount m = GatewayAccount"
    "CheckSteemBlock p (ad_SteemBlock m) = Inr ()" "StringToBytes E (ad_Validator m) = Some a" "deposit_inv s"
  shows "tolerable (ValidateDepositAcceptance E m s)"
proof -
  obtain r where "lookupDepositByTxid (ad_Txid m) (ad_OpIndex m) s = Inr r" using deposit_lookup[OF assms(6)] by blast
  with assms show ?thesis by (auto simp: ValidateDepositAcceptance_def guard_err_if split: option.splits)
qed

lemma registration_tolerable:
  assumes "b_Params s = Some p" "NameServiceEnabled p" "sn_GatewayAccount m = GatewayAccount"
    "\<not> sn_AmountMillisteem m < NameRegistrationMinMillisteem p"
    "CheckSteemBlock p (sn_SteemBlock m) = Inr ()" "StringToBytes E (sn_Validator m) = Some a" "name_inv codec s"
  shows "tolerable (ValidateNameRegistrationAcceptance E m s)"
proof -
  obtain r where "lookupNameRegistrationByTxid (sn_Txid m) (sn_OpIndex m) s = Inr r" using name_lookup[OF assms(7)] by blast
  with assms show ?thesis by (auto simp: ValidateNameRegistrationAcceptance_def guard_err_if split: option.splits)
qed

lemma payout_tolerable:
  assumes "b_Params s = Some p" "BridgeOutEnabled p" "CheckSteemBlock p (ap_SteemBlock m) = Inr ()"
    "StringToBytes E (ap_Validator m) = Some a" "kv_get (Withdrawal s) (ap_WithdrawalId m) = Some w" "payoutMatches w m"
  shows "tolerable (ValidateWithdrawalProcessedAcceptance E m s)"
  using assms by (simp add: ValidateWithdrawalProcessedAcceptance_def guard_err_if)

section \<open>Where the messages come from\<close>

lemma transfer_message_cases:
  assumes "transfer_messages C io p ts = Inr msgs" "m \<in> set msgs"
  obtains t where "t \<in> set ts" "m = BuildMsg t (RouteMemo (t_Memo t)) (ce_Signer C) GatewayAccount"
    "RouteMemo (t_Memo t) = IntentRegister \<Longrightarrow> NameServiceEnabled p" "RouteMemo (t_Memo t) = IntentDeposit \<Longrightarrow> BridgeEnabled p"
proof -
  have "\<exists>t\<in>set ts. m = BuildMsg t (RouteMemo (t_Memo t)) (ce_Signer C) GatewayAccount \<and>
      (RouteMemo (t_Memo t) = IntentRegister \<longrightarrow> NameServiceEnabled p) \<and> (RouteMemo (t_Memo t) = IntentDeposit \<longrightarrow> BridgeEnabled p)"
    using assms
    by (induction C io p ts arbitrary: msgs rule: transfer_messages.induct)
      (auto simp: Let_def rbind_eq_Inr split: if_splits, blast+)
  then show thesis using that by blast
qed

lemma payout_message_cases:
  assumes "payout_messages C io ps = Inr msgs" "m \<in> set msgs"
  obtains q w where "q \<in> set ps" "m = MsgAttestWithdrawalPayout (payoutMsg q (ce_Signer C))"
    "io_GetWithdrawal io (po_WithdrawalID q) = Inr w" "fst (comparePayout q w)"
proof -
  have "\<exists>q\<in>set ps. m = MsgAttestWithdrawalPayout (payoutMsg q (ce_Signer C)) \<and>
      (\<exists>w. io_GetWithdrawal io (po_WithdrawalID q) = Inr w \<and> fst (comparePayout q w))"
    using assms
  proof (induction ps arbitrary: msgs)
    case (Cons q ps)
    from Cons.prems(1) obtain mat why where mw: "payoutMatchesWithdrawal io q = Inr (mat, why)"
      "(if \<not> mat then payout_messages C io ps
        else rbind (payout_messages C io ps) (\<lambda>msgs. Inr (MsgAttestWithdrawalPayout (payoutMsg q (ce_Signer C)) # msgs))) = Inr msgs"
      by (auto simp: rbind_eq_Inr)
    have w: "\<exists>w. io_GetWithdrawal io (po_WithdrawalID q) = Inr w \<and> fst (comparePayout q w)" if "mat"
      using mw(1) that by (auto simp: payoutMatchesWithdrawal_def split: sum.splits if_splits)
    show ?case
    proof (cases "mat \<and> m = MsgAttestWithdrawalPayout (payoutMsg q (ce_Signer C))")
      case True
      with w show ?thesis by (intro bexI[where x = q]) simp_all
    next
      case False
      then obtain msgs' where "payout_messages C io ps = Inr msgs'" "m \<in> set msgs'"
        using mw(2) Cons.prems(2) by (auto simp: rbind_eq_Inr split: if_splits)
      with Cons.IH[of msgs'] show ?thesis by simp
    qed
  qed simp
  then show thesis using that by blast
qed

lemma extracted_number:
  "extract_transfer n b g x y txid iop = Some t \<Longrightarrow> t_SteemBlock t = n"
  by (cases "snd iop") (auto simp: extract_transfer_def split: if_splits)

lemma extracted_payout_number:
  assumes "extract_payout n b g x y itx = Some q"
  shows "po_SteemBlock q = n \<and> (po_Asset q = BRIDGE_ASSET_STEEM \<or> po_Asset q = BRIDGE_ASSET_SBD)"
proof -
  obtain v c where ops: "stx_Operations (snd itx) = [SteemTransferOp v, SteemCustomJSONOp c]"
    using assms by (auto simp: extract_payout_def Let_def split: if_split_asm list.split_asm steem_op.split_asm)
  obtain amount asset where "bridged_amount (tr_Amount v) x y = Some (amount, asset)" "po_SteemBlock q = n" "po_Asset q = asset"
    using assms ops by (auto simp: extract_payout_def Let_def bind_eq_Some_conv split: if_split_asm)
  then show ?thesis by (auto simp: bridged_amount_def split: option.split_asm if_split_asm)
qed

lemma transfer_block: "t \<in> set (ExtractGatewayTransfers n b g x y) \<Longrightarrow> t_SteemBlock t = n"
  by (auto simp: ExtractGatewayTransfers_def Let_def in_map_filter dest: extracted_number split: if_splits)

lemma payout_block: "q \<in> set (ExtractGatewayPayouts n b g x y) \<Longrightarrow> po_SteemBlock q = n"
  by (auto simp: ExtractGatewayPayouts_def in_map_filter dest: extracted_payout_number)

section \<open>The relayer's transactions are free\<close>

text \<open>
  Transfers the chain refuses although the relayer attests them: a name registration below the minimum,
  and an SBD transfer with a registration memo, which becomes a deposit, while the bridge is off.
\<close>

definition poisonous :: "bridge_params \<Rightarrow> scanned_transfer \<Rightarrow> bool" where
  "poisonous p t \<longleftrightarrow> RouteMemo (t_Memo t) = IntentRegister \<and>
     (if t_Asset t = BRIDGE_ASSET_SBD then \<not> BridgeEnabled p else t_AmountMillisteem t < NameRegistrationMinMillisteem p)"

abbreviation transfers_of :: "cycle_env \<Rightarrow> u64 \<times> steem_block \<Rightarrow> scanned_transfer list" where
  "transfers_of C nb \<equiv> ExtractGatewayTransfers (fst nb) (snd nb) GatewayAccount (rc_SteemSymbol (ce_Cfg C)) (rc_SbdSymbol (ce_Cfg C))"

text \<open>The signer is a bonded validator that the chain knows by the name the relayer uses.\<close>

definition on_duty :: "cycle_env \<Rightarrow> bytes \<Rightarrow> bool" where
  "on_duty C a \<longleftrightarrow> AccAddressFromBech32 (ce_Env C) (ce_Signer C) = Some a \<and> StringToBytes (ce_Env C) (ce_Signer C) = Some a \<and>
     is_bonded (ce_Env C) a"

lemma block_message_deserves:
  assumes ans: "answers s io" and pars: "b_Params s = Some p" and inv: "deposit_inv s" "name_inv codec s" and duty: "on_duty C a"
    and blk: "CheckSteemBlock p (fst nb) = Inr ()" and pure: "\<forall>t\<in>set (transfers_of C nb). \<not> poisonous p t"
    and msgs: "block_messages C io p nb = Inr msgs" "m \<in> set msgs"
  shows "deserves_exemption (ce_Env C) s m \<and> attester (ce_Env C) m = Some a \<and> confirmer (ce_Env C) m = None \<and> confirmed_ids [m] = []"
proof -
  let ?E = "ce_Env C"
  have sgn: "AccAddressFromBech32 ?E (ce_Signer C) = Some a" "StringToBytes ?E (ce_Signer C) = Some a" "is_bonded ?E a"
    using duty by (simp_all add: on_duty_def)
  from msgs(1) obtain ts ps where ts: "transfer_messages C io p (transfers_of C nb) = Inr ts"
    "(if BridgeOutEnabled p then payout_messages C io (ExtractGatewayPayouts (fst nb) (snd nb) GatewayAccount
        (rc_SteemSymbol (ce_Cfg C)) (rc_SbdSymbol (ce_Cfg C))) else Inr []) = Inr ps" "msgs = ts @ ps"
    by (auto simp: block_messages_def Let_def rbind_eq_Inr)
  consider "m \<in> set ts" | "m \<in> set ps" using msgs(2) ts(3) by auto
  then show ?thesis
  proof cases
    case 1
    obtain t where t: "t \<in> set (transfers_of C nb)" "m = BuildMsg t (RouteMemo (t_Memo t)) (ce_Signer C) GatewayAccount"
      "RouteMemo (t_Memo t) = IntentRegister \<Longrightarrow> NameServiceEnabled p" "RouteMemo (t_Memo t) = IntentDeposit \<Longrightarrow> BridgeEnabled p"
      using transfer_message_cases[OF ts(1) 1] by blast
    have num: "t_SteemBlock t = fst nb" using transfer_block[OF t(1)] .
    have np: "\<not> poisonous p t" using pure t(1) by blast
    show ?thesis
    proof (cases "RouteMemo (t_Memo t) = IntentRegister \<and> t_Asset t \<noteq> BRIDGE_ASSET_SBD")
      case True
      then obtain d where m: "m = MsgSubmitNameRegistration d" and d: "sn_Validator d = ce_Signer C" "sn_GatewayAccount d = GatewayAccount"
        "sn_SteemBlock d = fst nb" "\<not> sn_AmountMillisteem d < NameRegistrationMinMillisteem p"
        using t(2) num np by (simp add: BuildMsg_def poisonous_def)
      have "tolerable (ValidateNameRegistrationAcceptance ?E d s)"
        using registration_tolerable[OF pars t(3) d(2) d(4) _ _ inv(2), of ?E a] True d blk sgn by simp
      with m d sgn show ?thesis by (simp add: bonded_attester_def)
    next
      case False
      then obtain d where m: "m = MsgAttestDeposit d" and d: "ad_Validator d = ce_Signer C" "ad_GatewayAccount d = GatewayAccount"
        "ad_SteemBlock d = fst nb"
        using t(2) num by (cases "RouteMemo (t_Memo t)") (auto simp: BuildMsg_def)
      have "BridgeEnabled p" using False t(4) np by (cases "RouteMemo (t_Memo t)") (auto simp: poisonous_def)
      then have "tolerable (ValidateDepositAcceptance ?E d s)"
        using deposit_tolerable[OF pars _ d(2) _ _ inv(1), of ?E a] d blk sgn by simp
      with m d sgn show ?thesis by (simp add: bonded_attester_def)
    qed
  next
    case 2
    then have out: "BridgeOutEnabled p" using ts(2) by (auto split: if_splits)
    obtain q w where q: "q \<in> set (ExtractGatewayPayouts (fst nb) (snd nb) GatewayAccount (rc_SteemSymbol (ce_Cfg C)) (rc_SbdSymbol (ce_Cfg C)))"
      "m = MsgAttestWithdrawalPayout (payoutMsg q (ce_Signer C))" "io_GetWithdrawal io (po_WithdrawalID q) = Inr w" "fst (comparePayout q w)"
      using payout_message_cases[of C io _ ps m] ts(2) out 2 by (metis (no_types, lifting))
    have "payoutMatches w (payoutMsg q (ce_Signer C))"
      using payout_matches[of q w "snd (comparePayout q w)"] q(4) by (metis prod.collapse)
    then have "tolerable (ValidateWithdrawalProcessedAcceptance ?E (payoutMsg q (ce_Signer C)) s)"
      using payout_tolerable[OF pars out, of "payoutMsg q (ce_Signer C)" ?E a w] blk sgn answers_withdrawal[OF ans q(3)] payout_block[OF q(1)]
      by (simp add: payoutMsg_def)
    with q(2) sgn show ?thesis by (simp add: bonded_attester_def payoutMsg_def)
  qed
qed

lemma scan_collects:
  assumes "scan_blocks C io p nbs msgs0 last0 = Inr (msgs, lastFull)"
  shows "(length msgs0 \<le> MaxMsgsPerTx \<longrightarrow> length msgs \<le> MaxMsgsPerTx) \<and>
    (\<forall>m\<in>set msgs. m \<in> set msgs0 \<or> (\<exists>nb\<in>set nbs. \<exists>bm. block_messages C io p nb = Inr bm \<and> m \<in> set bm))"
  using assms
proof (induction nbs arbitrary: msgs0 last0)
  case (Cons nb nbs)
  from Cons.prems obtain bm where bm: "block_messages C io p nb = Inr bm"
    "(if length msgs0 + length bm > MaxMsgsPerTx then Inr (msgs0, last0)
      else scan_blocks C io p nbs (msgs0 @ bm) (fst nb)) = Inr (msgs, lastFull)"
    by (auto simp: rbind_eq_Inr)
  show ?case
  proof (cases "length msgs0 + length bm > MaxMsgsPerTx")
    case False
    with Cons.IH[of "msgs0 @ bm" "fst nb"] bm show ?thesis by auto
  qed (use bm in auto)
qed simp

lemma scanned_above_anchor:
  assumes "anchoredCursor c (RelayerStartBlock p) = c" "c \<noteq> - 1" "FetchBlocks io (c + 1) to = Inr bs" "nb \<in> set bs"
  shows "CheckSteemBlock p (fst nb) = Inr ()"
proof -
  have "fst nb \<in> set (map fst bs)" using assms(4) by simp
  moreover have "map fst bs = [] \<or> map fst bs = block_range (c + 1) to"
    using assms(3) fetched(1)[of io "block_range (c + 1) to" bs] by (auto simp: FetchBlocks_def split: if_splits)
  ultimately have "fst nb \<in> set (block_range (c + 1) to)" by (metis empty_iff list.set(1))
  then obtain k where k: "fst nb = of_nat k" "unat (c + 1) \<le> k" "k \<le> unat to" by (auto simp: block_range_def)
  have "k < 2 ^ 64" using k(3) unsigned_less[of to, where 'a = nat] by simp
  then have "unat (fst nb) = k" using k(1) unat_of_small_nat by simp
  with k(2) have ge: "c + 1 \<le> fst nb" by (simp add: word_le_nat_alt)
  have "RelayerStartBlock p \<le> c + 1" if "RelayerStartBlock p > 0"
  proof -
    have "RelayerStartBlock p - 1 \<le> c" using assms(1) that by (auto simp: anchoredCursor_def not_less split: if_splits)
    moreover have "unat (RelayerStartBlock p - 1) = unat (RelayerStartBlock p) - 1"
      using that by (simp add: unat_minus_one)
    moreover have "unat (c + 1) = Suc (unat c)"
      using assms(2) add_eq_0_iff[of 1 c] unatSuc[of c] by (auto simp: add.commute)
    ultimately show ?thesis by (simp add: word_le_nat_alt)
  qed
  then have "RelayerStartBlock p \<le> fst nb" using ge by (cases "RelayerStartBlock p = 0") (auto simp: word_gt_0 intro: order_trans)
  then show ?thesis by (simp add: CheckSteemBlock_def not_less)
qed

text \<open>
  C27: What the relayer broadcasts costs it nothing. When its node answers from the state of the chain,
  the signer is a bonded validator that has used at most half of its quota, and no scanned transfer is
  one the chain would refuse, then the transaction of a cycle, over however many blocks, deposits,
  registrations and payouts, qualifies for the fee exemption as a whole.
\<close>

theorem relayer_transactions_are_free:
  assumes "answers s io" "b_Params s = Some p" "deposit_inv s" "name_inv codec s" "on_duty C a"
    and "deposit_used (ce_Env C) s a \<le> 50"
    and "anchoredCursor c (RelayerStartBlock p) = c" "c \<noteq> - 1" "FetchBlocks io (c + 1) to = Inr bs"
    and "scan_blocks C io p bs [] c = Inr (msgs, lastFull)" "msgs \<noteq> []"
    and "\<forall>nb\<in>set bs. \<forall>t\<in>set (ExtractGatewayTransfers (fst nb) (snd nb) GatewayAccount (rc_SteemSymbol (ce_Cfg C)) (rc_SbdSymbol (ce_Cfg C))).
      \<not> poisonous p t"
  shows "free_transaction (ce_Env C) msgs s"
proof -
  let ?E = "ce_Env C"
  note col = scan_collects[OF assms(10)]
  have each: "deserves_exemption ?E s m \<and> attester ?E m = Some a \<and> confirmer ?E m = None \<and> confirmed_ids [m] = []"
    if m: "m \<in> set msgs" for m
  proof -
    obtain nb bm where nb: "nb \<in> set bs" "block_messages C io p nb = Inr bm" "m \<in> set bm" using col m by auto
    have "\<forall>t\<in>set (transfers_of C nb). \<not> poisonous p t" using assms(12) nb(1) by blast
    from block_message_deserves[OF assms(1-5) scanned_above_anchor[OF assms(7-9) nb(1)] this nb(2,3)] show ?thesis .
  qed
  have ids: "confirmed_ids xs = []" if "\<forall>m\<in>set xs. confirmed_ids [m] = []" for xs
    using that
  proof (induction xs)
    case (Cons m xs)
    then show ?case by (cases m) auto
  qed simp
  have len: "length msgs \<le> 50" using col by (simp add: MaxMsgsPerTx_def)
  have at: "attestations ?E a msgs \<le> 50"
    unfolding attestations_def by (rule order_trans[OF length_filter_le len])
  have only: "attestations ?E x msgs = 0" if "x \<noteq> a" for x
    unfolding attestations_def using each that by (subst filter_False) auto
  have cf: "confirmations ?E x msgs = 0" for x using each unfolding confirmations_def by (subst filter_False) auto
  have "within_quota ?E msgs s"
    unfolding within_quota_def
  proof (intro conjI allI impI)
    fix x assume ne: "attestations ?E x msgs \<noteq> 0"
    have "x = a" using only[of x] ne by blast
    with at assms(6) show "deposit_used ?E s x + attestations ?E x msgs \<le> 100" by simp
  qed (simp add: cf)
  moreover have "confirmed_ids msgs = []" by (rule ids) (use each in blast)
  ultimately show ?thesis using each assms(11) by (simp add: free_transaction_def list_all_iff)
qed

text \<open>The chain in its first block, a node that answers from it, and a Steem block with one transfer.\<close>

definition answering_io :: "'b bridge_state \<Rightarrow> steem_block \<Rightarrow> cycle_io" where
  "answering_io s block = quiet_io\<lparr>io_Params := wire (query_Params (Some ()) s), io_GetBlock := (\<lambda>_. Inr (Some block)),
     io_DepositByTxid := (\<lambda>txid i. wire (query_DepositByTxid (Some (txid, i)) s)),
     io_NameRegistrationByTxid := (\<lambda>txid i. wire (query_NameRegistrationByTxid (Some (txid, i)) s)),
     io_GetWithdrawal := (\<lambda>i. wire (query_GetWithdrawal (Some i) s))\<rparr>"

lemma answering [simp]: "answers s (answering_io s block)" "io_GetBlock (answering_io s block) n = Inr (Some block)"
  "io_Node (answering_io s block) = deaf_node"
  by (simp_all add: answers_def answering_io_def)

definition demo_transfer :: "string \<Rightarrow> transfer" where
  "demo_transfer memo = \<lparr>tr_From = ''alice'', tr_To = GatewayAccount, tr_Amount = FormatMilli 1000 ''STEEM'', tr_Memo = memo\<rparr>"

definition one_transfer_block :: "string \<Rightarrow> steem_block" where
  "one_transfer_block memo = quiet_block\<lparr>sb_Transactions :=
     [\<lparr>stx_TransactionId = ''t1'', stx_Operations = [SteemTransferOp (demo_transfer memo)]\<rparr>]\<rparr>"

definition scanned_demo :: "string \<Rightarrow> u64 \<Rightarrow> scanned_transfer" where
  "scanned_demo memo n = \<lparr>t_Txid = ''t1'', t_OpIndex = 0, t_SteemBlock = n, t_SteemTimestamp = sb_Timestamp quiet_block, t_From = ''alice'',
     t_AmountMillisteem = 1000, t_Memo = memo, t_Asset = BRIDGE_ASSET_STEEM\<rparr>"

lemma scanned_demo_parts [simp]:
  "t_Memo (scanned_demo memo n) = memo" "t_Asset (scanned_demo memo n) = BRIDGE_ASSET_STEEM" "t_AmountMillisteem (scanned_demo memo n) = 1000"
  by (simp_all add: scanned_demo_def)

lemma one_transfer:
  "ExtractGatewayTransfers n (one_transfer_block memo) GatewayAccount ''STEEM'' ''SBD'' = [scanned_demo memo n]"
  "ExtractGatewayPayouts n (one_transfer_block memo) GatewayAccount ''STEEM'' ''SBD'' = []"
  using demo_amount
  by (simp_all add: ExtractGatewayTransfers_def ExtractGatewayPayouts_def one_transfer_block_def block_txid_def Let_def no_payout
      map_filter_simps extract_transfer_def demo_transfer_def scanned_demo_def GatewayAccount_def)

lemma demo_env_parts [simp]:
  "rc_SteemSymbol (ce_Cfg demo_cycle_env) = ''STEEM''" "rc_SbdSymbol (ce_Cfg demo_cycle_env) = ''SBD''"
  "ce_Env demo_cycle_env = strict_env" "ce_Signer demo_cycle_env = ''v1''" "ce_Valoper demo_cycle_env = ''v1''"
  by (simp_all add: demo_cycle_env_def)

lemma strict_accounts [simp]: "AccAddressFromBech32 strict_env = Some"
  by (simp add: strict_env_def demo_bridge_env_def plain_env_def)

lemma nothing_attested: "alreadyAttested (answering_io (start_bridge p b) block) t what v = Inr False"
  by (cases what) (simp_all add: alreadyAttested_def answering_io_def wire_def query_DepositByTxid_def query_NameRegistrationByTxid_def
      lookupDepositByTxid_def
      lookupNameRegistrationByTxid_def internal_def start_bridge_def valid_request_def ignoreNotFound_def HasPrefix_def from_option_def)

lemma relayer_transactions_are_free_witness:
  "free_transaction strict_env [BuildMsg (scanned_demo ''bob'' 5) IntentDeposit ''v1'' GatewayAccount] (start_bridge demo_params empty_ledger)"
proof -
  let ?s = "start_bridge demo_params empty_ledger" and ?b = "one_transfer_block ''bob''"
  let ?io = "answering_io ?s ?b" and ?m = "BuildMsg (scanned_demo ''bob'' 5) IntentDeposit ''v1'' GatewayAccount"
  have inv: "deposit_inv ?s" "name_inv strict_codec ?s"
    by (simp_all add: start_name_inv) (simp add: deposit_inv_def start_bridge_def)
  have duty: "on_duty demo_cycle_env ''v1''"
    by (simp add: on_duty_def is_bonded_def plain_validator_def strict_codec_def)
  have f: "FetchBlocks ?io (4 + 1) 5 = Inr [(5, ?b)]"
    by (simp add: FetchBlocks_def block_range_def)
  have sc: "scan_blocks demo_cycle_env ?io demo_params [(5, ?b)] [] 4 = Inr ([?m], 5)"
    by (simp add: block_messages_def one_transfer nothing_attested bob_is_a_deposit MaxMsgsPerTx_def demo_params_def)
  have pure: "\<not> poisonous q (scanned_demo ''bob'' 5)" for q by (simp add: poisonous_def bob_is_a_deposit)
  have "free_transaction (ce_Env demo_cycle_env) [?m] ?s"
    by (rule relayer_transactions_are_free[OF _ _ inv duty _ _ _ f sc])
      (simp_all add: pure one_transfer start_bridge_def used_quota_def anchoredCursor_def demo_params_def bridge_DefaultParams_def)
  then show ?thesis by simp
qed

section \<open>Refused transfers stop the relayer\<close>

lemma transfer_message_sent:
  assumes "transfer_messages C io p ts = Inr msgs" "t \<in> set ts" "DeriveDestination (ce_Env C) (t_Memo t) \<noteq> None"
    and "RouteMemo (t_Memo t) = IntentRegister" "NameServiceEnabled p"
    and "alreadyAttested io t IntentRegister (ce_Valoper C) = Inr False"
  shows "BuildMsg t IntentRegister (ce_Signer C) GatewayAccount \<in> set msgs"
  using assms(1,2)
proof (induction ts arbitrary: msgs)
  case (Cons u ts)
  show ?case
  proof (cases "u = t")
    case True
    with Cons.prems(1) assms(3-6) show ?thesis by (auto simp: Let_def rbind_eq_Inr)
  next
    case False
    then have t: "t \<in> set ts" using Cons.prems(2) by simp
    have "\<exists>ms. transfer_messages C io p ts = Inr ms \<and> set ms \<subseteq> set msgs"
      using Cons.prems(1) by (auto simp: Let_def rbind_eq_Inr split: if_splits)
    with Cons.IH[OF _ t] show ?thesis by blast
  qed
qed simp

lemma poison_is_refused:
  assumes "b_Params s = Some p" "poisonous p t" "NameServiceEnabled p"
  shows "\<not> deserves_exemption E s (BuildMsg t IntentRegister v GatewayAccount)"
  using assms by (auto simp: poisonous_def BuildMsg_def ValidateDepositAcceptance_def ValidateNameRegistrationAcceptance_def
      guard_err_if split: if_splits)

text \<open>
  C38: One transfer that the chain refuses stops the relayer. If the next block holds a name registration
  below the minimum, or an SBD transfer with a registration memo while the bridge is off, the whole
  transaction loses its exemption; a node that refuses transactions that neither pay nor are exempt
  refuses it, and the cycle leaves the cursor before that block. The next cycle is in the same position.
\<close>

theorem refused_transfer_stops_the_relayer:
  assumes "runCycle C io rs = (err, rs')" "answers s io" "b_Params s = Some p" "NameServiceEnabled p"
    and "\<And>msgs. msgs \<noteq> [] \<Longrightarrow> \<not> free_transaction (ce_Env C) msgs s \<Longrightarrow> \<exists>e. BroadcastAttestations (io_Node io) msgs = Inl e"
    and "r_LastScannedBlock rs \<noteq> 0" "anchoredCursor (r_LastScannedBlock rs) (RelayerStartBlock p) = r_LastScannedBlock rs"
    and "io_GetBlock io (r_LastScannedBlock rs + 1) = Inr (Some block)"
    and "t \<in> set (ExtractGatewayTransfers (r_LastScannedBlock rs + 1) block GatewayAccount (rc_SteemSymbol (ce_Cfg C)) (rc_SbdSymbol (ce_Cfg C)))"
    and "poisonous p t" "DeriveDestination (ce_Env C) (t_Memo t) \<noteq> None"
    and "alreadyAttested io t IntentRegister (ce_Valoper C) = Inr False"
  shows "r_LastScannedBlock rs' = r_LastScannedBlock rs"
proof (rule ccontr)
  assume moved: "r_LastScannedBlock rs' \<noteq> r_LastScannedBlock rs"
  let ?c = "r_LastScannedBlock rs"
  have pars: "io_Params io = Inr p" by (rule answers_params[OF assms(2,3)])
  obtain bs msgs lastFull h rest where b: "bs = (?c + 1, block) # rest" "scan_blocks C io p bs [] ?c = Inr (msgs, lastFull)"
    "lastFull \<noteq> ?c" "BroadcastAttestations (io_Node io) msgs = Inr h"
    using advanced_scan[OF assms(1) pars assms(6,7,8) moved] by blast
  obtain bm where bm: "block_messages C io p (?c + 1, block) = Inr bm"
    "scan_blocks C io p rest bm (?c + 1) = Inr (msgs, lastFull)"
    using b(1-3) by (auto simp: rbind_eq_Inr split: if_splits)
  have sub: "set bm \<subseteq> set msgs" using scanned[OF bm(2)] by blast
  obtain ts where "transfer_messages C io p (transfers_of C (?c + 1, block)) = Inr ts" "set ts \<subseteq> set bm"
    using bm(1) by (auto simp: block_messages_def Let_def rbind_eq_Inr)
  moreover have "RouteMemo (t_Memo t) = IntentRegister" using assms(10) by (simp add: poisonous_def)
  ultimately have m: "BuildMsg t IntentRegister (ce_Signer C) GatewayAccount \<in> set msgs"
    using transfer_message_sent[of C io p _ ts t] assms(4,9,11,12) sub by auto
  then have "\<not> free_transaction (ce_Env C) msgs s"
    using poison_is_refused[OF assms(3,10,4)] by (auto simp: free_transaction_def list_all_iff)
  with assms(5)[of msgs] m b(4) show False by (cases msgs) auto
qed

text \<open>A chain whose minimum is two STEEM, and a registration that pays one.\<close>

definition dear_params :: bridge_params where
  "dear_params = demo_params\<lparr>NameRegistrationMinMillisteem := 2000\<rparr>"

lemma register_memo: "RouteMemo ''svm-register'' = IntentRegister"
proof -
  have "TrimSpace ''svm-register'' = ''svm-register''" by (rule TrimSpace_all_visible) (simp add: visible_def)
  then show ?thesis by (simp add: RouteMemo_def)
qed

lemma deaf_broadcast: "msgs \<noteq> [] \<Longrightarrow> \<exists>e. BroadcastAttestations deaf_node msgs = Inl e"
  by (simp add: BroadcastAttestations_def broadcastTx_def deaf_node_def)

lemma refused_transfer_stops_the_relayer_witness:
  "\<exists>err rs'. runCycle demo_cycle_env (answering_io (start_bridge dear_params empty_ledger) (one_transfer_block ''svm-register''))
       \<lparr>r_LastScannedBlock = 4, r_Saved = 4, r_VerifiedID = ''''\<rparr> = (err, rs') \<and> r_LastScannedBlock rs' = 4"
proof -
  let ?s = "start_bridge dear_params empty_ledger" and ?rs = "\<lparr>r_LastScannedBlock = 4, r_Saved = 4, r_VerifiedID = ''''\<rparr>"
  let ?b = "one_transfer_block ''svm-register''"
  obtain err rs' where r: "runCycle demo_cycle_env (answering_io ?s ?b) ?rs = (err, rs')" by force
  have new: "alreadyAttested (answering_io ?s ?b) (scanned_demo ''svm-register'' 5) IntentRegister (ce_Valoper demo_cycle_env) = Inr False"
    by (rule nothing_attested)
  have "r_LastScannedBlock rs' = r_LastScannedBlock ?rs"
    by (rule refused_transfer_stops_the_relayer[OF r answering(1), where p = dear_params and block = ?b and t = "scanned_demo ''svm-register'' 5",
          OF _ _ _ _ _ _ _ _ _ new])
      (simp_all add: one_transfer deaf_broadcast poisonous_def register_memo DeriveDestination_def Let_def start_bridge_def
        anchoredCursor_def dear_params_def demo_params_def bridge_DefaultParams_def BRIDGE_ASSET_STEEM_def BRIDGE_ASSET_SBD_def)
  with r show ?thesis by auto
qed

end
