(* ===== verification/Payout_Path.thy ===== *)
theory Payout_Path
  imports Relayer_Chain
begin

text \<open>
  The path of a withdrawal across the three programs: the chain records it (\<open>x/oracle/bridge\<close>), the
  signers of the bank pay it on Steem (\<open>oracle/go/multisig\<close>), and the relayers report the payment back
  (\<open>oracle/go/relayer\<close>). The chain moves on between these moments.
\<close>

section \<open>Time passes on the chain\<close>

inductive bridge_leads ::
    "'b bank_ops \<Rightarrow> (env \<Rightarrow> bool) \<Rightarrow> 'b bridge_chain \<Rightarrow> nat \<Rightarrow> 'b bridge_chain \<Rightarrow> bool" for bk good c where
  now: "bridge_leads bk good c 0 c"
| later: "bridge_leads bk good c k c1 \<Longrightarrow> good E \<Longrightarrow> bridge_exec E bk oper c1 = Inr c2 \<Longrightarrow> bridge_leads bk good c (Suc k) c2"

lemma leads_reaches:
  "bridge_leads bk good c k c' \<Longrightarrow> bridge_reaches bk good n c \<Longrightarrow> bridge_reaches bk good (n + k) c'"
  by (induction rule: bridge_leads.induct) (auto intro: bridge_reaches.step)

lemma leads_settled:
  assumes "bridge_leads bk (bridge_env_ok codec valdec) c k c'" "bridge_reaches bk (bridge_env_ok codec valdec) n c" "n + k < 2 ^ 64"
  shows "settled (fst c) (fst c')"
  using assms
proof (induction rule: bridge_leads.induct)
  case (later k c1 E oper c2)
  have r: "bridge_reaches bk (bridge_env_ok codec valdec) (n + k) c1" by (rule leads_reaches[OF later(1,5)])
  have lt: "n + k < 2 ^ 64" using later(6) by simp
  obtain s1 ok1 s2 ok2 where c: "c1 = (s1, ok1)" "c2 = (s2, ok2)" by (metis surj_pair)
  have "settled s1 s2"
    using bridge_exec_settled[OF later(2), of s1 "n + k" bk oper ok1 s2 ok2] reachable_ok[OF r lt] later(3) c by simp
  with later.IH[OF later(5) lt] show ?case using settled_trans[of "fst c" s1 s2] c by simp
qed simp

text \<open>A recorded withdrawal keeps its terms for ever.\<close>

lemma leads_terms:
  assumes "bridge_leads bk (bridge_env_ok codec valdec) (s, ok) k (s', ok')" "bridge_reaches bk (bridge_env_ok codec valdec) n (s, ok)"
    and "n + k < 2 ^ 64" "kv_get (Withdrawal s) i = Some w"
  obtains w' where "kv_get (Withdrawal s') i = Some w'" "terms w' = terms w"
  using leads_settled[OF assms(1-3)] assms(4) that unfolding settled_def settled_withdrawals_def fst_conv by blast

section \<open>The signers read the chain\<close>

text \<open>The signer's list of requested withdrawals and its lookups come from the bridge state \<open>s\<close>.\<close>

definition reads_withdrawals :: "'b bridge_state \<Rightarrow> policy \<Rightarrow> svm_state \<Rightarrow> bool" where
  "reads_withdrawals s pol st \<longleftrightarrow>
     (\<forall>i sw. kv_get (st_Requested st) i = Some sw \<longrightarrow> (\<exists>w. kv_get (Withdrawal s) i = Some w \<and> sw = toWithdrawal w)) \<and>
     svm_Withdrawal (pc_SVM pol) = svm_query_Withdrawal (\<lambda>i. wire (query_GetWithdrawal (Some i) s))"

lemma found_on_chain:
  assumes "reads_withdrawals s pol st" "find_withdrawal pol st i = Inr sw"
  obtains w where "kv_get (Withdrawal s) i = Some w" "sw = toWithdrawal w"
proof (cases "kv_get (st_Requested st) i")
  case (Some sw')
  with assms that show ?thesis by (auto simp: reads_withdrawals_def find_withdrawal_def)
next
  case None
  with assms have "svm_query_Withdrawal (\<lambda>i. wire (query_GetWithdrawal (Some i) s)) i = Inr (Some sw)"
    by (auto simp: reads_withdrawals_def find_withdrawal_def split: sum.splits option.splits if_splits)
  with that show ?thesis
    by (auto simp: svm_query_Withdrawal_def wire_def query_GetWithdrawal_def valid_request_def from_option_def
        split: sum.splits option.splits if_splits)
qed

definition known_asset :: "bridge_asset \<Rightarrow> bool" where
  "known_asset a \<longleftrightarrow> a = BRIDGE_ASSET_STEEM \<or> a = BRIDGE_ASSET_SBD"

lemma toWithdrawal_symbol: "known_asset (w_Asset w) \<Longrightarrow> sw_Symbol (toWithdrawal w) = asset_symbol ''STEEM'' ''SBD'' (w_Asset w)"
  by (auto simp: known_asset_def toWithdrawal_def asset_symbol_def BRIDGE_ASSET_STEEM_def BRIDGE_ASSET_SBD_def)

lemma main_symbols: "symbols_ok ''STEEM'' ''SBD''"
  by (simp add: symbols_ok_def plain_symbol_def visible_def)

section \<open>Signed payouts are reported\<close>

lemma payout_message_sent:
  assumes "payout_messages C io ps = Inr msgs" "q \<in> set ps" "io_GetWithdrawal io (po_WithdrawalID q) = Inr w" "comparePayout q w = (True, why)"
  shows "MsgAttestWithdrawalPayout (payoutMsg q (ce_Signer C)) \<in> set msgs"
  using assms(1,2)
proof (induction ps arbitrary: msgs)
  case (Cons u ps)
  have m: "payoutMatchesWithdrawal io q = Inr (True, why)" by (simp add: payoutMatchesWithdrawal_def assms(3,4))
  show ?case
  proof (cases "u = q")
    case True
    with Cons.prems(1) m show ?thesis by (auto simp: rbind_eq_Inr)
  next
    case False
    then have q: "q \<in> set ps" using Cons.prems(2) by simp
    have "\<exists>ms. payout_messages C io ps = Inr ms \<and> set ms \<subseteq> set msgs"
      using Cons.prems(1) by (auto simp: rbind_eq_Inr split: if_splits)
    with Cons.IH[OF _ q] show ?thesis by blast
  qed
qed simp


section \<open>A withdrawal in an unknown asset\<close>

lemma opened_withdrawal:
  assumes "BridgeOut E bk msg s = Inr s'"
  obtains w where "kv_get (Withdrawal s') (WithdrawalSeq s) = Some w" "w_Asset w = bo_Asset msg" "w_Status w = WITHDRAWAL_STATUS_REQUESTED"
    "w_DestinationSteemAccount w = bo_DestinationSteemAccount msg" "w_CreatedAt w = BlockHeight E"
    "\<And>amount. bo_AmountAsteem msg = Some amount \<Longrightarrow> MillisteemToAsteem (w_AmountMillisteem w) \<le> amount"
proof -
  from assms show thesis
  proof (rule BridgeOut_Inr)
    fix p amount gross net fee t b
    assume a: "bo_AmountAsteem msg = Some amount" "amount = MillisteemToAsteem gross" "ApplyBridgeFee gross (BridgeFeeBps p) = (net, fee)"
      "s' = openWithdrawal E msg amount net fee (s\<lparr>bank := b, Totals := Some (add_burned (bo_Asset msg) (MillisteemToAsteem net) t)\<rparr>)"
    have "unat net \<le> unat gross" using ApplyBridgeFee_sum[of gross "BridgeFeeBps p"] a(3) by simp
    then have "uint net \<le> uint gross" by (simp add: word_le_nat_alt[symmetric] word_le_def[symmetric])
    then have "MillisteemToAsteem net \<le> MillisteemToAsteem gross" by (simp add: MillisteemToAsteem_def MillisteemToAsteemFactor_def)
    with a show thesis by (intro that[of "newWithdrawal E msg (WithdrawalSeq s) amount net fee"]) (simp_all add: newWithdrawal_def)
  qed
qed

lemma transfers_are_no_payouts: "BuildMsg t kind v g \<noteq> MsgAttestWithdrawalPayout d"
  by (simp add: BuildMsg_def Let_def split: memo_intent.splits)

lemma reported_asset:
  assumes "answers s io" "block_messages C io p nb = Inr msgs" "MsgAttestWithdrawalPayout d \<in> set msgs"
  obtains w where "kv_get (Withdrawal s) (ap_WithdrawalId d) = Some w" "known_asset (w_Asset w)"
proof -
  let ?ps = "ExtractGatewayPayouts (fst nb) (snd nb) GatewayAccount (rc_SteemSymbol (ce_Cfg C)) (rc_SbdSymbol (ce_Cfg C))"
  from assms(2) obtain ts ps where m: "transfer_messages C io p (transfers_of C nb) = Inr ts"
    "(if BridgeOutEnabled p then payout_messages C io ?ps else Inr []) = Inr ps" "msgs = ts @ ps"
    by (auto simp: block_messages_def Let_def rbind_eq_Inr)
  have "MsgAttestWithdrawalPayout d \<notin> set ts"
  proof
    assume "MsgAttestWithdrawalPayout d \<in> set ts"
    from transfer_message_cases[OF m(1) this] transfers_are_no_payouts show False by metis
  qed
  with assms(3) m(3) have d: "MsgAttestWithdrawalPayout d \<in> set ps" by simp
  then have "payout_messages C io ?ps = Inr ps" using m(2) by (auto split: if_splits)
  then obtain q w where q: "q \<in> set ?ps" "d = payoutMsg q (ce_Signer C)" "io_GetWithdrawal io (po_WithdrawalID q) = Inr w"
    "fst (comparePayout q w)"
    by (rule payout_message_cases[OF _ d]) auto
  have "po_Asset q = BRIDGE_ASSET_STEEM \<or> po_Asset q = BRIDGE_ASSET_SBD"
    using q(1) by (auto simp: ExtractGatewayPayouts_def in_map_filter dest: extracted_payout_number)
  moreover have "po_Asset q = w_Asset w" using q(4) by (auto simp: comparePayout_def split: if_splits)
  ultimately show thesis
    using that[of w] answers_withdrawal[OF assms(1) q(3)] q(2) by (simp add: payoutMsg_def known_asset_def)
qed

text \<open>
  C40: A bridge-out in an asset that is neither STEEM nor SBD is accepted, and its payment is never confirmed.
  The handler does not check the asset. It takes and records the coins of the chain's own denomination, and the signers read
  the record as an ordinary withdrawal of STEEM; yet in every later state, whatever appears on Steem, no
  relayer attests a payout for it, because a payout is only ever read as STEEM or SBD and the record's asset
  is neither. The relayers can therefore never settle it as paid, and it stays open for the refund even
  when the signers have paid it.
\<close>

theorem unknown_asset_is_never_confirmed:
  assumes reach: "bridge_reaches bk (bridge_env_ok codec valdec) n (s, ok)" "bridge_env_ok codec valdec E"
    and out: "BridgeOut E bk msg s = Inr s1" "\<not> known_asset (bo_Asset msg)"
    and later: "bridge_leads bk (bridge_env_ok codec valdec) (s1, ok) k (s', ok')" "n + 1 + k < 2 ^ 64"
    and rel: "answers s' io" "block_messages C io p nb = Inr msgs"
  shows "\<exists>w. kv_get (Withdrawal s') (WithdrawalSeq s) = Some w \<and> sw_Symbol (toWithdrawal w) = ''STEEM'' \<and>
    DenomForAsset (w_Asset w) = DefaultBondDenom \<and>
    (\<forall>d. MsgAttestWithdrawalPayout d \<in> set msgs \<longrightarrow> ap_WithdrawalId d \<noteq> WithdrawalSeq s)"
proof -
  have ex: "bridge_exec E bk (OpBridgeOut msg) (s, ok) = Inr (s1, ok)" by (simp add: out(1))
  have r1: "bridge_reaches bk (bridge_env_ok codec valdec) (n + 1) (s1, ok)"
    using bridge_reaches.step[OF reach ex] by simp
  obtain w where w: "kv_get (Withdrawal s1) (WithdrawalSeq s) = Some w" "w_Asset w = bo_Asset msg"
    by (rule opened_withdrawal[OF out(1)])
  obtain w' where w': "kv_get (Withdrawal s') (WithdrawalSeq s) = Some w'" "terms w' = terms w"
    by (rule leads_terms[OF later(1) r1 later(2) w(1)])
  have asset: "\<not> known_asset (w_Asset w')" using w'(2) w(2) out(2) by (simp add: terms_def)
  have "ap_WithdrawalId d \<noteq> WithdrawalSeq s" if d: "MsgAttestWithdrawalPayout d \<in> set msgs" for d
  proof
    assume "ap_WithdrawalId d = WithdrawalSeq s"
    with reported_asset[OF rel d] w'(1) asset show False by auto
  qed
  with w'(1) asset show ?thesis
    by (auto simp: known_asset_def toWithdrawal_def DenomForAsset_def)
qed

section \<open>A withdrawal from request to report\<close>

text \<open>The chain after one deposit and one bridge-out of one coin in the asset \<open>a\<close>.\<close>

definition coin_out :: "bridge_asset \<Rightarrow> msg_bridge_out" where
  "coin_out a = demo_out\<lparr>bo_Asset := a\<rparr>"

lemma coin_out_accepted:
  assumes "a \<noteq> BRIDGE_ASSET_SBD" "bank s = demo_ledger" "b_Params s = Some demo_params"
    "Totals s = Some (add_minted BRIDGE_ASSET_STEEM 10000000000000000000 zero_totals)"
  shows "\<exists>s'. BridgeOut strict_env fakeBank (coin_out a) s = Inr s'"
proof -
  have "outstanding a t = outstanding BRIDGE_ASSET_STEEM t" "DenomForAsset a = DenomForAsset BRIDGE_ASSET_STEEM"
    "add_burned a x t = add_burned BRIDGE_ASSET_STEEM x t" for t x
    using assms(1) by (simp_all add: outstanding_def DenomForAsset_def add_burned_def BRIDGE_ASSET_STEEM_def BRIDGE_ASSET_SBD_def)
  with assms(2-4) show ?thesis by (simp add: coin_out_def strict_codec_def demo_out_simps)
qed

lemma coin_out_reached:
  assumes "a \<noteq> BRIDGE_ASSET_SBD"
  obtains s s1 where "bridge_reaches fakeBank (bridge_env_ok strict_codec Some) 1 (s, None)" "b_Params s = Some demo_params"
    "BridgeOut strict_env fakeBank (coin_out a) s = Inr s1" "bridge_reaches fakeBank (bridge_env_ok strict_codec Some) 2 (s1, None)"
proof -
  let ?R = "bridge_reaches fakeBank (bridge_env_ok strict_codec Some)"
  obtain s where s: "AttestDeposit strict_env fakeBank (demo_deposit ''v1'') (start_bridge demo_params empty_ledger) = Inr s"
    "bank s = demo_ledger" "Totals s = Some (add_minted BRIDGE_ASSET_STEEM 10000000000000000000 zero_totals)"
    "b_Params s = Some demo_params"
    using demo_strict_deposit by blast
  obtain s1 where s1: "BridgeOut strict_env fakeBank (coin_out a) s = Inr s1" using coin_out_accepted[OF assms s(2,4,3)] by blast
  have "?R 0 (start_bridge demo_params empty_ledger, None)" by (rule bridge_reaches.start[OF demo_params_valid])
  then have r: "?R (Suc 0) (s, None)"
    by (rule bridge_reaches.step[where good = "bridge_env_ok strict_codec Some" and oper = "OpAttestDeposit (demo_deposit ''v1'')", OF _ strict_env_ok]) (simp add: s(1))
  then have "?R (Suc (Suc 0)) (s1, None)"
    by (rule bridge_reaches.step[where good = "bridge_env_ok strict_codec Some" and oper = "OpBridgeOut (coin_out a)", OF _ strict_env_ok]) (simp add: s1)
  with r show thesis by (intro that[OF _ s(4) s1]) (simp_all add: numeral_2_eq_2)
qed

lemma answering_payouts: "\<exists>ms. payout_messages C (answering_io s block) ps = Inr ms"
proof (induction ps)
  case (Cons q ps)
  have "\<exists>r. payoutMatchesWithdrawal (answering_io s block) q = Inr r"
    by (auto simp: payoutMatchesWithdrawal_def answering_io_def wire_def query_GetWithdrawal_def valid_request_def from_option_def HasPrefix_def
        split: option.splits)
  with Cons show ?case by (auto simp: split: prod.splits)
qed simp

lemma unknown_asset_is_never_confirmed_witness:
  "\<exists>s s1 msgs w. BridgeOut strict_env fakeBank (coin_out 7) s = Inr s1 \<and>
     block_messages demo_cycle_env (answering_io s1 quiet_block) demo_params (5, quiet_block) = Inr msgs \<and>
     kv_get (Withdrawal s1) (WithdrawalSeq s) = Some w \<and> sw_Symbol (toWithdrawal w) = ''STEEM''"
proof -
  have "(7 :: bridge_asset) \<noteq> BRIDGE_ASSET_SBD" "\<not> known_asset (bo_Asset (coin_out 7))"
    by (simp_all add: BRIDGE_ASSET_SBD_def BRIDGE_ASSET_STEEM_def known_asset_def coin_out_def)
  note a = this
  obtain s s1 where s: "bridge_reaches fakeBank (bridge_env_ok strict_codec Some) 1 (s, None)"
    "BridgeOut strict_env fakeBank (coin_out 7) s = Inr s1"
    by (rule coin_out_reached[OF a(1)])
  have m: "block_messages demo_cycle_env (answering_io s1 quiet_block) demo_params (5, quiet_block) = Inr []"
    by (simp add: block_messages_def ExtractGatewayTransfers_def ExtractGatewayPayouts_def quiet_block_def map_filter_simps)
  have "\<exists>w. kv_get (Withdrawal s1) (WithdrawalSeq s) = Some w \<and> sw_Symbol (toWithdrawal w) = ''STEEM'' \<and>
    DenomForAsset (w_Asset w) = DefaultBondDenom \<and>
    (\<forall>d. MsgAttestWithdrawalPayout d \<in> set [] \<longrightarrow> ap_WithdrawalId d \<noteq> WithdrawalSeq s)"
    by (rule unknown_asset_is_never_confirmed[OF s(1) strict_env_ok s(2) a(2) bridge_leads.now _ answering(1) m]) simp
  with s(2) m show ?thesis by blast
qed

text \<open>A signer that has read the request \<open>w\<close>, and its open proposal of the payout.\<close>

definition payout_policy :: "'b bridge_state \<Rightarrow> policy" where
  "payout_policy s = demo_policy\<lparr>pc_SVM := \<lparr>svm_Withdrawal = svm_query_Withdrawal (\<lambda>i. wire (query_GetWithdrawal (Some i) s)),
     svm_ValidatorStakes = (\<lambda>h. Inr [])\<rparr>\<rparr>"

definition payout_tx :: "u64 \<Rightarrow> withdrawal \<Rightarrow> transaction" where
  "payout_tx i w = demo_payout_tx\<lparr>tx_Operations := PayoutOps GatewayAccount (w_DestinationSteemAccount w)
     (FormatMilli (w_AmountMillisteem w) (sw_Symbol (toWithdrawal w))) (w_Memo w) i\<rparr>"

definition payout_proposal :: "u64 \<Rightarrow> withdrawal \<Rightarrow> ms_proposal" where
  "payout_proposal i w = demo_open\<lparr>pr_Tx := payout_tx i w\<rparr>"

definition payout_view :: "u64 \<Rightarrow> withdrawal \<Rightarrow> ms_view" where
  "payout_view i w = demo_payout_view\<lparr>v_Proposal := [payout_proposal i w]\<rparr>"

definition payout_state :: "u64 \<Rightarrow> withdrawal \<Rightarrow> svm_state" where
  "payout_state i w = demo_state\<lparr>st_Requested := [(i, toWithdrawal w)]\<rparr>"

lemma payout_parts:
  "cf_BankAccount (pc_Cfg (payout_policy s)) = GatewayAccount" "pr_Tx (payout_proposal i w) = payout_tx i w"
  "PayoutOf (payout_tx i w) GatewayAccount = Some (\<lparr>tr_From = GatewayAccount, tr_To = w_DestinationSteemAccount w,
     tr_Amount = FormatMilli (w_AmountMillisteem w) (sw_Symbol (toWithdrawal w)), tr_Memo = w_Memo w\<rparr>, i)"
proof -
  show "PayoutOf (payout_tx i w) GatewayAccount = Some (\<lparr>tr_From = GatewayAccount, tr_To = w_DestinationSteemAccount w,
     tr_Amount = FormatMilli (w_AmountMillisteem w) (sw_Symbol (toWithdrawal w)), tr_Memo = w_Memo w\<rparr>, i)"
    by (rule PayoutOf_PayoutOps) (simp add: payout_tx_def)
qed (simp_all add: payout_policy_def demo_policy_def DefaultConfig_def GatewayAccount_def payout_proposal_def)

lemma payout_approved:
  assumes "w_CreatedAt w = 10"
  shows "fst (Review c (payout_policy s) (payout_proposal i w) (payout_view i w) (payout_state i w) []) = Approve"
proof -
  note p = payout_parts(1)[of s] payout_parts(2,3)[of i w]
  have facts: "payoutFacts (payout_policy s) \<lparr>tr_From = GatewayAccount, tr_To = w_DestinationSteemAccount w,
      tr_Amount = FormatMilli (w_AmountMillisteem w) (sw_Symbol (toWithdrawal w)), tr_Memo = w_Memo w\<rparr> i (payout_view i w) (payout_state i w) = Approve"
    using assms by (simp add: payoutFacts_def p find_withdrawal_def payout_state_def kv_get_Cons past_margin_def IsPaid_def payout_view_def
        demo_payout_view_def empty_index_def payout_policy_def demo_policy_def demo_state_def DefaultConfig_def GatewayAccount_def)
      (simp add: toWithdrawal_def)
  have tx: "pr_ID (payout_proposal i w) = ''78''" "Live (payout_proposal i w)" "v_Proposal (payout_view i w) = [payout_proposal i w]"
    by (simp_all add: payout_proposal_def demo_open_def demo_proposal_def Live_def payout_view_def)
  have "Conflicts (pc_Journal (payout_policy s)) a b t = False" "over_cap (payout_policy s) b = False" for a b t
    by (simp_all add: Conflicts_def payout_policy_def demo_policy_def over_cap_def DefaultConfig_def)
  then show ?thesis by (simp add: Review_def p tx reviewTransfer_def facts voted_approve_def)
qed

definition payout_block_of :: "u64 \<Rightarrow> withdrawal \<Rightarrow> steem_block" where
  "payout_block_of i w = quiet_block\<lparr>sb_Transactions :=
     [\<lparr>stx_TransactionId = ''t1'', stx_Operations = map (steem_op_of \<circ> op_Value) (tx_Operations (payout_tx i w))\<rparr>]\<rparr>"

lemma payout_block_messages:
  "\<exists>msgs. block_messages demo_cycle_env (answering_io s block) demo_params (num, payout_block_of i w) = Inr msgs"
proof -
  have "ExtractGatewayTransfers num (payout_block_of i w) GatewayAccount ''STEEM'' ''SBD'' = []"
    by (simp add: ExtractGatewayTransfers_def payout_block_of_def block_txid_def payout_tx_def PayoutOps_def map_filter_simps
        extract_transfer_def)
  moreover obtain ms where "payout_messages demo_cycle_env (answering_io s block)
      (ExtractGatewayPayouts num (payout_block_of i w) GatewayAccount ''STEEM'' ''SBD'') = Inr ms"
    using answering_payouts by blast
  ultimately show ?thesis by (simp add: block_messages_def)
qed


end
