(* ===== verification/Multisig_Pass.thy ===== *)
theory Multisig_Pass
  imports Multisig_Signer Payout_Path
begin

text \<open>
  A whole pass of the signer (\<open>Init\<close>, \<open>Pass\<close>, \<open>publish\<close> and \<open>execute\<close> of \<open>multisig/signer.go\<close>) against the
  Steem node and the chain. The replies of both and the local clock, read once, are the record \<open>signer_io\<close>;
  \<open>'r\<close> is the rest of an account's metadata, which \<open>publish\<close> carries over untouched.
\<close>

section \<open>Starting\<close>

record signer =
  sg_policy :: policy
  sg_hist :: history_index
  sg_firstSeen :: "(string, instant) kv"
  sg_readySince :: "(string, instant) kv"

record 'r signer_io =
  si_Props :: "string + dynamic_props"
  si_History :: "u64 \<Rightarrow> string + history_item list"
  si_Accounts :: "string list \<Rightarrow> string + steem_account list"
  si_ParseMetadata :: "string \<Rightarrow> ('r \<times> ballot) option"
  si_EncodeMetadata :: "'r \<Rightarrow> ballot \<Rightarrow> string option"
  si_Height :: "string + int"
  si_Timeout :: "string + u64"
  si_Requested :: "string + svm_withdrawal list"
  si_Saved :: bool
  si_Clock :: instant

text \<open>\<open>Init\<close>: the lock and the two files are read by the caller; \<open>pub\<close> is the public key of the configured key.\<close>

definition signer_Init ::
    "string \<Rightarrow> ms_config \<Rightarrow> svm_api \<Rightarrow> string + string \<Rightarrow> (string list \<Rightarrow> string + steem_account list) \<Rightarrow>
     string + history_index \<Rightarrow> string + approval_journal \<Rightarrow> string + signer" where
  "signer_Init pub cfg svm selfAccount getAccounts loadHistory loadJournal =
     rbind selfAccount (\<lambda>self.
     rbind (getAccounts [self]) (\<lambda>accts.
     case accts of
       [a] \<Rightarrow>
         if list_ex (\<lambda>k. ka_Key k = pub) (au_KeyAuths (ac_Owner a))
         then Inl ''refusing to run: the configured key is an OWNER key''
         else if \<not> keySatisfies (ac_Active a) pub then Inl ''the configured key does not satisfy the active authority''
         else
           rbind loadHistory (\<lambda>hist.
           rbind loadJournal (\<lambda>journal.
           Inr \<lparr>sg_policy = \<lparr>pc_Cfg = cfg, pc_SVM = svm, pc_Self = self, pc_Journal = Some journal, pc_cache = []\<rparr>,
                sg_hist = hist, sg_firstSeen = [], sg_readySince = []\<rparr>))
     | _ \<Rightarrow> Inl (''steem account '' @ self @ '' not found'')))"

section \<open>Publishing and executing\<close>

text \<open>The transaction \<open>publish\<close> broadcasts; \<open>None\<close> is an error before that.\<close>

definition publish ::
    "crypto_env \<Rightarrow> signer_config \<Rightarrow> (ballot \<Rightarrow> nat option) \<Rightarrow> 'r signer_io \<Rightarrow> string \<Rightarrow> dynamic_props \<Rightarrow> instant \<Rightarrow>
     (string, vote) kv \<Rightarrow> (string, stored_proposal) kv \<Rightarrow> transaction option" where
  "publish c cfg encoded io self d now votes props =
     (case si_Accounts io [self] of
        Inr [a] \<Rightarrow>
          Option.bind (si_ParseMetadata io (ac_PostingJSONMetadata a)) (\<lambda>(raw, ballot).
          Option.bind (si_EncodeMetadata io raw (publish_ballot encoded now votes props ballot)) (\<lambda>posting.
          Option.bind (NewTransaction d [\<lparr>op_Type = ''account_update2'', op_Value = OpAccountUpdate2
             \<lparr>u2_Account = self, u2_Owner = None, u2_Active = None, u2_Posting = None, u2_MemoKey = '''', u2_JSONMetadata = '''',
              u2_PostingJSONMetadata = posting\<rparr>\<rparr>] (5 * Minute)) (\<lambda>tx.
          case Digest c tx of
            Inl _ \<Rightarrow> None
          | Inr digest \<Rightarrow> map_option (\<lambda>sig. tx\<lparr>tx_Signatures := [sig]\<rparr>) (sc_Sign cfg digest))))
      | _ \<Rightarrow> None)"

fun execute_all ::
    "crypto_env \<Rightarrow> signer_config \<Rightarrow> ms_view \<Rightarrow> svm_state \<Rightarrow> ballot \<Rightarrow> instant \<Rightarrow> ms_proposal list \<Rightarrow>
     (string, instant) kv \<times> policy \<Rightarrow> transaction list \<times> (string, instant) kv \<times> policy" where
  "execute_all c cfg v st mine wall [] s = ([], s)"
| "execute_all c cfg v st mine wall (p # ps) s =
     (let (tx, s1) = execute_one c cfg v st mine wall p s;
          (txs, s2) = execute_all c cfg v st mine wall ps s1
      in ((case tx of None \<Rightarrow> txs | Some t \<Rightarrow> t # txs), s2))"

section \<open>A pass\<close>

text \<open>What a pass hands to the Steem node: its own publication and the transactions it executes.\<close>

record pass_result =
  pa_Error :: "string option"
  pa_Published :: "transaction option"
  pa_Executed :: "transaction list"
  pa_Signer :: signer

definition stopped :: "string \<Rightarrow> signer \<Rightarrow> pass_result" where
  "stopped err sg = \<lparr>pa_Error = Some err, pa_Published = None, pa_Executed = [], pa_Signer = sg\<rparr>"

definition load_members ::
    "'r signer_io \<Rightarrow> steem_account \<Rightarrow> string + ((string, steem_account) kv \<times> (string, ballot) kv)" where
  "load_members io bankAcct =
     (let memberNames = SortedMembers bankAcct in
      rbind (if memberNames = [] then Inr [] else si_Accounts io memberNames) (\<lambda>macc.
      Inr (fold (\<lambda>a. kv_set (ac_Name a) a) macc [],
           fold (\<lambda>a ballots. case si_ParseMetadata io (ac_PostingJSONMetadata a) of
              None \<Rightarrow> ballots | Some (_, b) \<Rightarrow> kv_set (ac_Name a) b ballots) macc [])))"

definition in_context :: "string \<Rightarrow> string + 'a \<Rightarrow> string + 'a" where
  "in_context what r = (case r of Inl err \<Rightarrow> Inl (what @ err) | Inr x \<Rightarrow> Inr x)"

lemma in_context_Inr [simp]: "in_context what r = Inr x \<longleftrightarrow> r = Inr x"
  by (simp add: in_context_def split: sum.splits)

definition load_state :: "'r signer_io \<Rightarrow> string + svm_state" where
  "load_state io =
     rbind (in_context ''svm height: '' (si_Height io)) (\<lambda>height.
     rbind (in_context ''svm params: '' (si_Timeout io)) (\<lambda>timeout.
     rbind (in_context ''svm withdrawals: '' (si_Requested io)) (\<lambda>reqs.
     Inr \<lparr>st_Height = height, st_Timeout = timeout, st_Requested = fold (\<lambda>w. kv_set (sw_ID w) w) reqs []\<rparr>)))"

definition empty_ballot :: ballot where "empty_ballot = \<lparr>bl_Props = [], bl_Votes = []\<rparr>"

definition act ::
    "crypto_env \<Rightarrow> signer_config \<Rightarrow> bool \<Rightarrow> (ballot \<Rightarrow> nat option) \<Rightarrow> 'r signer_io \<Rightarrow> dynamic_props \<Rightarrow> ms_view \<Rightarrow> svm_state \<Rightarrow> ballot \<Rightarrow>
     signer \<Rightarrow> pass_result" where
  "act c cfg exec encoded io d v st mine sg =
     (let pol = sg_policy sg;
          (err, pol1, fs1, out) =
            (if IsMember (v_Bank v) (pc_Self pol)
             then voteAndPropose c cfg (si_Saved io) (si_Clock io) pol (sg_firstSeen sg) v st d mine
             else (False, pol, sg_firstSeen sg, None));
          published = (case out of None \<Rightarrow> None | Some (votes, props) \<Rightarrow> publish c cfg encoded io (pc_Self pol) d (v_Now v) votes props);
          (txs, rs, pol2) =
            (if exec then execute_all c cfg v st mine (si_Clock io) (v_Proposal v) (sg_readySince sg, pol1) else ([], sg_readySince sg, pol1))
      in \<lparr>pa_Error = None, pa_Published = published, pa_Executed = txs,
          pa_Signer = sg\<lparr>sg_policy := pol2, sg_firstSeen := fs1, sg_readySince := rs\<rparr>\<rparr>)"

definition pass_loaded ::
    "crypto_env \<Rightarrow> signer_config \<Rightarrow> bool \<Rightarrow> (ballot \<Rightarrow> nat option) \<Rightarrow> 'r signer_io \<Rightarrow> dynamic_props \<Rightarrow> instant \<Rightarrow> signer \<Rightarrow> pass_result" where
  "pass_loaded c cfg exec encoded io d now sg =
     (case si_Accounts io [cf_BankAccount (pc_Cfg (sg_policy sg))] of
        Inr [bankAcct] \<Rightarrow>
          (case load_members io bankAcct of
             Inl err \<Rightarrow> stopped (''loading members: '' @ err) sg
           | Inr (members, ballots) \<Rightarrow>
               let view = BuildView c now bankAcct members ballots (sg_hist sg);
                   mine = (case kv_get ballots (pc_Self (sg_policy sg)) of None \<Rightarrow> empty_ballot | Some b \<Rightarrow> b) in
               (case load_state io of
                  Inl err \<Rightarrow> stopped err sg
                | Inr st \<Rightarrow> act c cfg exec encoded io d view st mine sg))
      | _ \<Rightarrow> stopped (''loading '' @ cf_BankAccount (pc_Cfg (sg_policy sg))) sg)"

text \<open>The only loop that may not end is the paging of \<open>Sync\<close>; a pass that does not return is \<open>None\<close>.\<close>

definition Pass ::
    "crypto_env \<Rightarrow> signer_config \<Rightarrow> bool \<Rightarrow> (ballot \<Rightarrow> nat option) \<Rightarrow> 'r signer_io \<Rightarrow> signer \<Rightarrow> pass_result option" where
  "Pass c cfg exec encoded io sg =
     (case si_Props io of
        Inl err \<Rightarrow> Some (stopped (''dynamic props: '' @ err) sg)
      | Inr d \<Rightarrow>
          (case time_Parse (dp_Time d) of
             None \<Rightarrow> Some (stopped ''parsing time'' sg)
           | Some now \<Rightarrow>
               Option.bind (Sync (si_History io) (cf_BankAccount (pc_Cfg (sg_policy sg))) (dp_HeadBlockNumber d) now (sg_hist sg)) (\<lambda>(e, h).
               Some (case e of
                 Some err \<Rightarrow> stopped (''history: '' @ err) (sg\<lparr>sg_hist := h\<rparr>)
               | None \<Rightarrow> pass_loaded c cfg exec encoded io d now (sg\<lparr>sg_hist := h\<rparr>)))))"

section \<open>What a pass keeps\<close>

text \<open>A pass never changes the configuration, the chain it reads, or who it is.\<close>

definition same_sources :: "policy \<Rightarrow> policy \<Rightarrow> bool" where
  "same_sources p q \<longleftrightarrow> pc_Cfg q = pc_Cfg p \<and> pc_SVM q = pc_SVM p \<and> pc_Self q = pc_Self p"

lemma same_sources_refl [simp]: "same_sources p p"
  by (simp add: same_sources_def)

lemma same_sources_trans: "same_sources p q \<Longrightarrow> same_sources q r \<Longrightarrow> same_sources p r"
  by (simp add: same_sources_def)

lemma same_but_cache_sources: "same_but_cache p q \<Longrightarrow> same_sources p q"
  by (simp add: same_but_cache_def same_sources_def)

lemma record_approval_sources: "same_sources p (ps_policy s) \<Longrightarrow> same_sources p (ps_policy (record_approval cfg i tx s))"
  by (simp add: record_approval_def same_sources_def)

lemma vote_on_sources:
  assumes "same_sources p0 (ps_policy s)"
  shows "same_sources p0 (ps_policy (snd (vote_on c cfg v st my p s)))"
proof -
  obtain d pol where r: "Review c (ps_policy s) p v st (ps_working s) = (d, pol)" by force
  have "same_sources p0 pol"
    using same_but_cache_sources[OF Review_frame[of "ps_policy s" c p v st "ps_working s"]] r assms
    by (auto intro: same_sources_trans)
  then show ?thesis
    using assms r by (auto simp: vote_on_def Let_def split: decision.splits option.splits intro!: record_approval_sources)
qed

lemma propose_intent_sources:
  "same_sources p0 (ps_policy s) \<Longrightarrow> same_sources p0 (ps_policy (snd (propose_intent c cfg d it s)))"
  by (auto simp: propose_intent_def split: option.splits sum.splits intro!: record_approval_sources)

lemma voteAndPropose_sources:
  assumes req: "kv_wf (st_Requested st)" and run: "voteAndPropose c cfg saved wall pol fs v st d mine = (err, pol', fs', out)"
  shows "same_sources pol pol'"
proof -
  let ?s0 = "\<lparr>ps_policy = pol, ps_newVotes = [], ps_newProps = [], ps_working = bl_Votes mine\<rparr>"
  let ?l = "until_error (vote_on c cfg v st (bl_Votes mine)) (v_Proposal v) ?s0"
  have j1: "same_sources pol (ps_policy (snd ?l))"
    by (rule until_error_invariant[where P = "\<lambda>s. same_sources pol (ps_policy s)"]) (simp_all add: vote_on_sources)
  let ?pr = "propose_all c cfg v st d wall fs (snd ?l)"
  have j2: "same_sources pol (ps_policy (snd (snd ?pr)))"
  proof (cases "sc_Propose cfg")
    case True
    obtain its e fs1 p1 where it: "Intents (ps_policy (snd ?l)) v st fs wall = (its, e, fs1, p1)"
      by (metis prod_cases4)
    have "same_sources pol p1"
      using same_but_cache_sources[OF Intents_free(3)[OF req it]] j1 by (blast intro: same_sources_trans)
    then have "same_sources pol (ps_policy (snd (until_error (propose_intent c cfg d) its ((snd ?l)\<lparr>ps_policy := p1\<rparr>))))"
      by (intro until_error_invariant[where P = "\<lambda>s. same_sources pol (ps_policy s)"]) (simp_all add: propose_intent_sources)
    with True it show ?thesis by (simp add: propose_all_def Let_def case_prod_beta)
  qed (simp add: propose_all_def j1)
  have "same_sources pol pol'" if "finish_pass cfg saved (v_Now v) (fst (snd ?pr)) (snd (snd ?pr)) = (err, pol', fs', out)"
    using that j2 by (auto simp: finish_pass_def prune_policy_def Let_def same_sources_def split: if_splits)
  with run j1 j2 show ?thesis
    by (auto simp: voteAndPropose_def Let_def case_prod_beta split: if_splits)
qed

section \<open>What a pass executes\<close>

lemma execute_one_reviews:
  assumes "execute_one c cfg v st mine wall p (rs, pol) = (tx, rs', pol')"
  shows "same_sources pol pol' \<and> (\<forall>t. tx = Some t \<longrightarrow> pr_Status p = Ready \<and> tx_Operations t = tx_Operations (pr_Tx p) \<and>
    tx_Signatures t = MinimalSignatures (v_Bank v) p \<and> tx_Signatures t \<noteq> [] \<and>
    (\<exists>votes. fst (Review c pol p v st votes) = Approve))"
proof -
  let ?votes = "kv_remove (pr_ID p) (bl_Votes mine)"
  obtain d pol1 where r: "Review c pol p v st ?votes = (d, pol1)" by force
  have "same_sources pol pol1" using same_but_cache_sources[OF Review_frame[of pol c p v st ?votes]] r by simp
  then show ?thesis
    using assms r by (auto simp: execute_one_def Let_def split: if_splits intro!: exI[of _ ?votes])
qed

lemma execute_all_reviews:
  assumes "execute_all c cfg v st mine wall ps (rs, pol) = (txs, s')" "t \<in> set txs"
  obtains p pol' votes where "p \<in> set ps" "same_sources pol pol'" "pr_Status p = Ready" "tx_Operations t = tx_Operations (pr_Tx p)"
    "tx_Signatures t = MinimalSignatures (v_Bank v) p" "fst (Review c pol' p v st votes) = Approve"
proof -
  have "\<exists>p\<in>set ps. \<exists>pol' votes. same_sources pol pol' \<and> pr_Status p = Ready \<and> tx_Operations t = tx_Operations (pr_Tx p) \<and>
    tx_Signatures t = MinimalSignatures (v_Bank v) p \<and> fst (Review c pol' p v st votes) = Approve"
    using assms
  proof (induction ps arbitrary: rs pol txs s')
    case (Cons p ps)
    obtain tx rs1 pol1 where one: "execute_one c cfg v st mine wall p (rs, pol) = (tx, rs1, pol1)" by (metis prod_cases3)
    obtain txs2 s2 where rest: "execute_all c cfg v st mine wall ps (rs1, pol1) = (txs2, s2)" by (metis surj_pair)
    note rev = execute_one_reviews[OF one]
    have txs: "txs = (case tx of None \<Rightarrow> txs2 | Some t \<Rightarrow> t # txs2)" using Cons.prems(1) one rest by (simp add: Let_def)
    show ?case
    proof (cases "tx = Some t")
      case True
      with rev show ?thesis by (intro bexI[of _ p] exI[of _ pol]) auto
    next
      case False
      then have "t \<in> set txs2" using Cons.prems(2) txs by (auto split: option.splits)
      from Cons.IH[OF rest this] rev show ?thesis by (meson list.set_intros(2) same_sources_trans)
    qed
  qed simp
  then show thesis using that by blast
qed

section \<open>Executed payouts are owed\<close>

lemma fold_requested:
  "kv_get (fold (\<lambda>w. kv_set (sw_ID w) w) reqs m) i = Some sw \<Longrightarrow> sw \<in> set reqs \<and> sw_ID sw = i \<or> kv_get m i = Some sw"
proof (induction reqs arbitrary: m)
  case (Cons w reqs)
  from Cons.IH[of "kv_set (sw_ID w) w m"] Cons.prems show ?case by (cases "i = sw_ID w") auto
qed simp

lemma fold_requested_wf: "kv_wf m \<Longrightarrow> kv_wf (fold (\<lambda>w. kv_set (sw_ID w) w) reqs m)"
  by (induction reqs arbitrary: m) simp_all

lemma status_text_requested: "status_text x = ''REQUESTED'' \<longleftrightarrow> x = WITHDRAWAL_STATUS_REQUESTED"
  by (cases x) simp_all

lemma requested_lookup:
  assumes "withdrawal_inv s" "iw \<in> set (requested_records s)"
  shows "kv_get (Withdrawal s) (w_Id (snd iw)) = Some (snd iw)" "w_Status (snd iw) = WITHDRAWAL_STATUS_REQUESTED"
proof -
  have rows: "rows_ok w_Id (\<lambda>w. wstat (w_Status w)) (WithdrawalSeq s) (Withdrawal s) (WithdrawalByStatus s)"
    using assms(1) by (simp add: withdrawal_inv_def)
  obtain i w where iw: "iw = (i, w)" "(i, w) \<in> set (Withdrawal s)" "w_Status w = WITHDRAWAL_STATUS_REQUESTED"
    using assms(2) unfolding requested_records_def set_filter by (metis (mono_tags, lifting) mem_Collect_eq prod.collapse)
  have get: "kv_get (Withdrawal s) i = Some w" using iw(2) rows by (simp add: rows_ok_def kv_wf_get_iff)
  moreover have "w_Id w = i" using rows get by (simp add: rows_ok_def)
  ultimately show "kv_get (Withdrawal s) (w_Id (snd iw)) = Some (snd iw)" "w_Status (snd iw) = WITHDRAWAL_STATUS_REQUESTED"
    using iw by simp_all
qed

lemma loaded_requests:
  assumes "withdrawal_inv s" "si_Requested io = Inr (map (toWithdrawal \<circ> snd) (requested_records s))" "load_state io = Inr st"
  shows "kv_wf (st_Requested st)"
    and "kv_get (st_Requested st) i = Some sw \<Longrightarrow>
      \<exists>w. kv_get (Withdrawal s) i = Some w \<and> sw = toWithdrawal w \<and> w_Status w = WITHDRAWAL_STATUS_REQUESTED"
proof -
  have st: "st_Requested st = fold (\<lambda>w. kv_set (sw_ID w) w) (map (toWithdrawal \<circ> snd) (requested_records s)) []"
    using assms(2,3) by (auto simp: load_state_def rbind_eq_Inr)
  show "kv_wf (st_Requested st)" unfolding st by (rule fold_requested_wf) (simp add: kv_wf_def)
  assume "kv_get (st_Requested st) i = Some sw"
  then have "sw \<in> set (map (toWithdrawal \<circ> snd) (requested_records s))" "sw_ID sw = i"
    using fold_requested[of "map (toWithdrawal \<circ> snd) (requested_records s)" "[]" i sw] by (auto simp: st)
  then obtain iw where iw: "iw \<in> set (requested_records s)" "sw = toWithdrawal (snd iw)" "w_Id (snd iw) = i"
    by (auto simp: toWithdrawal_def)
  from requested_lookup[OF assms(1) iw(1)] iw(2,3)
  show "\<exists>w. kv_get (Withdrawal s) i = Some w \<and> sw = toWithdrawal w \<and> w_Status w = WITHDRAWAL_STATUS_REQUESTED" by auto
qed

lemma found_requested:
  assumes inv: "withdrawal_inv s" and req: "si_Requested io = Inr (map (toWithdrawal \<circ> snd) (requested_records s))" "load_state io = Inr st"
    and svm: "svm_Withdrawal (pc_SVM pol) = svm_query_Withdrawal (\<lambda>i. wire (query_GetWithdrawal (Some i) s))"
    and found: "find_withdrawal pol st i = Inr sw"
  obtains w where "kv_get (Withdrawal s) i = Some w" "sw = toWithdrawal w" "w_Status w = WITHDRAWAL_STATUS_REQUESTED"
proof (cases "kv_get (st_Requested st) i")
  case (Some sw')
  with found have "sw' = sw" by (simp add: find_withdrawal_def)
  with loaded_requests(2)[OF inv req, of i sw] Some that show ?thesis by blast
next
  case None
  have reads: "reads_withdrawals s pol st" using loaded_requests(2)[OF inv req] svm by (auto simp: reads_withdrawals_def)
  obtain w where w: "kv_get (Withdrawal s) i = Some w" "sw = toWithdrawal w" by (rule found_on_chain[OF reads found])
  have "sw_Status sw = ''REQUESTED''"
    using found None by (auto simp: find_withdrawal_def split: sum.splits option.splits if_splits)
  then have "w_Status w = WITHDRAWAL_STATUS_REQUESTED" using w(2) status_text_requested[of "w_Status w"] by (simp add: toWithdrawal_def)
  with that w show ?thesis by blast
qed

lemma PayoutOf_operations: "tx_Operations t = tx_Operations u \<Longrightarrow> PayoutOf t b = PayoutOf u b"
  by (simp add: PayoutOf_def)

lemma act_executes:
  assumes run: "act c cfg exec encoded io d v st mine sg = r" and req: "kv_wf (st_Requested st)" and tx: "tx \<in> set (pa_Executed r)"
  obtains p pol' votes where "p \<in> set (v_Proposal v)" "same_sources (sg_policy sg) pol'" "pr_Status p = Ready"
    "tx_Operations tx = tx_Operations (pr_Tx p)" "tx_Signatures tx = MinimalSignatures (v_Bank v) p" "fst (Review c pol' p v st votes) = Approve"
proof -
  let ?vp = "if IsMember (v_Bank v) (pc_Self (sg_policy sg))
     then voteAndPropose c cfg (si_Saved io) (si_Clock io) (sg_policy sg) (sg_firstSeen sg) v st d mine
     else (False, sg_policy sg, sg_firstSeen sg, None)"
  obtain err pol1 fs1 out where vp: "?vp = (err, pol1, fs1, out)" by (metis prod_cases4)
  have same: "same_sources (sg_policy sg) pol1"
  proof (cases "IsMember (v_Bank v) (pc_Self (sg_policy sg))")
    case True
    with vp voteAndPropose_sources[OF req] show ?thesis by simp
  qed (use vp in simp)
  obtain txs s' where ex: "execute_all c cfg v st mine (si_Clock io) (v_Proposal v) (sg_readySince sg, pol1) = (txs, s')"
    by (metis surj_pair)
  have "tx \<in> set txs" using tx run vp ex unfolding act_def Let_def by (auto split: prod.splits if_splits)
  from execute_all_reviews[OF ex this] same that show thesis by (metis same_sources_trans)
qed

lemma pass_acts:
  assumes "Pass c cfg exec encoded io sg = Some r" "pa_Executed r \<noteq> []"
  obtains d v st mine sg1 where "act c cfg exec encoded io d v st mine sg1 = r" "load_state io = Inr st" "sg_policy sg1 = sg_policy sg"
    "v_History v = sg_hist sg1"
proof -
  have no: "r \<noteq> stopped e x" for e x using assms(2) by (auto simp: stopped_def)
  obtain d now h where p: "pass_loaded c cfg exec encoded io d now (sg\<lparr>sg_hist := h\<rparr>) = r"
    using assms(1) no by (fastforce simp: Pass_def bind_eq_Some_conv split: sum.splits option.splits)
  then obtain bankAcct members ballots st where q: "load_state io = Inr st"
    "act c cfg exec encoded io d (BuildView c now bankAcct members ballots h) st
       (case kv_get ballots (pc_Self (sg_policy sg)) of None \<Rightarrow> empty_ballot | Some b \<Rightarrow> b) (sg\<lparr>sg_hist := h\<rparr>) = r"
    using no by (fastforce simp: pass_loaded_def Let_def split: sum.splits list.splits)
  show thesis by (rule that[OF q(2,1)]) (simp_all add: BuildView_def)
qed

lemma act_history: "sg_hist (pa_Signer (act c cfg exec encoded io d v st mine sg)) = sg_hist sg"
  by (simp add: act_def Let_def split: prod.splits)


text \<open>A pass of a signer outside the validator set: the one member has proposed and signed the payout of \<open>w\<close>.\<close>

definition onlooker :: "'b bridge_state \<Rightarrow> signer" where
  "onlooker s = \<lparr>sg_policy = payout_policy s\<lparr>pc_Self := ''zoe''\<rparr>, sg_hist = empty_index, sg_firstSeen = [], sg_readySince = []\<rparr>"

definition onlooker_io :: "'b bridge_state \<Rightarrow> transaction \<Rightarrow> unit signer_io" where
  "onlooker_io s tx = \<lparr>si_Props = Inr demo_props, si_History = (\<lambda>_. Inr []),
     si_Accounts = (\<lambda>names. Inr (if names = [''svm.bank''] then [demo_account ''svm.bank'' demo_auth] else map snd demo_members)),
     si_ParseMetadata = (\<lambda>_. Some ((), snd (hd (signed_ballots tx)))), si_EncodeMetadata = (\<lambda>_ _. None),
     si_Height = Inr 100, si_Timeout = Inr 100000,
     si_Requested = Inr (map (toWithdrawal \<circ> snd) (requested_records s)), si_Saved = True, si_Clock = 1767225600000000000\<rparr>"

abbreviation onlooker_view :: "transaction \<Rightarrow> ms_view" where
  "onlooker_view tx \<equiv>
     BuildView demo_signing 1767225600000000000 (demo_account ''svm.bank'' demo_auth) demo_members (signed_ballots tx) empty_index"

lemma onlooker_sees:
  assumes "w_AmountMillisteem w \<le> 1000"
  shows "v_Proposal (onlooker_view (payout_tx i w)) = [demo_proposal\<lparr>pr_Tx := payout_tx i w\<rparr>]"
proof -
  have "unat (w_AmountMillisteem w) \<le> 1000" using assms by (simp add: word_le_nat_alt)
  then have "unat (w_AmountMillisteem w) < 2 ^ 63" by simp
  then have "\<exists>a. ParseAsset (FormatMilli (w_AmountMillisteem w) (sw_Symbol (toWithdrawal w))) = Inr a"
    using FormatMilli_parses[of "sw_Symbol (toWithdrawal w)" "w_AmountMillisteem w"] by (auto simp: toWithdrawal_def)
  then have "\<exists>x. Serialize demo_signing (payout_tx i w) = Inr x"
    by (auto simp: Serialize_def Time_def time_eval payout_tx_def demo_payout_tx_def PayoutOps_def write_amount_def Let_def)
  then obtain x where x: "Serialize demo_signing (payout_tx i w) = Inr x" by blast
  have "time_Parse (tx_Expiration (payout_tx i w)) = Some 1767229080000000000" by (simp add: payout_tx_def demo_payout_tx_def time_eval)
  moreover have "targetsBank (payout_tx i w) ''svm.bank''" "\<not> needsOwner (payout_tx i w)"
    by (simp_all add: targetsBank_def needsOwner_def payout_tx_def PayoutOps_def GatewayAccount_def)
  ultimately show ?thesis by (rule signed_view[OF x])
qed

definition onlooker_state :: "'b bridge_state \<Rightarrow> svm_state" where
  "onlooker_state s = \<lparr>st_Height = 100, st_Timeout = 100000,
     st_Requested = fold (\<lambda>w. kv_set (sw_ID w) w) (map (toWithdrawal \<circ> snd) (requested_records s)) []\<rparr>"

lemma onlooker_loads: "load_state (onlooker_io s tx) = Inr (onlooker_state s)"
  by (simp add: load_state_def in_context_def onlooker_io_def onlooker_state_def)

lemma onlooker_finds:
  assumes "withdrawal_inv s" "kv_get (Withdrawal s) i = Some w" "w_Status w = WITHDRAWAL_STATUS_REQUESTED"
  shows "find_withdrawal (sg_policy (onlooker s)) (onlooker_state s) i = Inr (toWithdrawal w)"
proof (cases "kv_get (st_Requested (onlooker_state s)) i")
  case (Some sw)
  have "si_Requested (onlooker_io s demo_payout_tx) = Inr (map (toWithdrawal \<circ> snd) (requested_records s))"
    by (simp add: onlooker_io_def)
  from loaded_requests(2)[OF assms(1) this onlooker_loads Some] assms(2) Some show ?thesis by (auto simp: find_withdrawal_def)
next
  case None
  then show ?thesis
    using assms(2,3) by (simp add: find_withdrawal_def onlooker_def payout_policy_def svm_query_Withdrawal_def wire_def
        query_GetWithdrawal_def valid_request_def from_option_def toWithdrawal_def)
qed

lemma onlooker_approves:
  assumes find: "find_withdrawal (sg_policy (onlooker s)) (onlooker_state s) i = Inr (toWithdrawal w)" and "w_CreatedAt w = 10"
    and v: "v_Proposal v = [p]" "v_History v = empty_index" and p: "pr_Tx p = payout_tx i w" "pr_ID p = ''78''" "Live p"
  shows "fst (Review c (sg_policy (onlooker s)) p v (onlooker_state s) []) = Approve"
proof -
  let ?pol = "sg_policy (onlooker s)" and ?st = "onlooker_state s"
  let ?t = "\<lparr>tr_From = GatewayAccount, tr_To = w_DestinationSteemAccount w,
      tr_Amount = FormatMilli (w_AmountMillisteem w) (sw_Symbol (toWithdrawal w)), tr_Memo = w_Memo w\<rparr>"
  have b: "cf_BankAccount (pc_Cfg ?pol) = GatewayAccount"
    by (simp add: onlooker_def payout_policy_def demo_policy_def DefaultConfig_def GatewayAccount_def)
  have margin: "\<not> past_margin ?pol ?st (toWithdrawal w)"
    using assms(2) by (simp add: past_margin_def onlooker_def payout_policy_def demo_policy_def DefaultConfig_def onlooker_state_def
        toWithdrawal_def)
  have facts: "payoutFacts ?pol ?t i v ?st = Approve"
    using margin by (simp add: payoutFacts_def b find IsPaid_def v(2) empty_index_def) (simp add: toWithdrawal_def)
  have "Conflicts (pc_Journal ?pol) x y t = False" "over_cap ?pol x = False" for x y t
    by (simp_all add: Conflicts_def onlooker_def payout_policy_def demo_policy_def over_cap_def DefaultConfig_def)
  then show ?thesis by (simp add: Review_def b p v(1) payout_parts(3) reviewTransfer_def facts voted_approve_def)
qed

lemma onlooker_pass:
  assumes inv: "withdrawal_inv s" "kv_get (Withdrawal s) i = Some w" "w_Status w = WITHDRAWAL_STATUS_REQUESTED" "w_CreatedAt w = 10"
    and small: "w_AmountMillisteem w \<le> 1000"
  shows "\<exists>r. Pass demo_signing demo_cfg True (\<lambda>b. None) (onlooker_io s (payout_tx i w)) (onlooker s) = Some r \<and>
    pa_Executed r = [(payout_tx i w)\<lparr>tx_Signatures := [demo_sig]\<rparr>]"
proof -
  let ?tx = "payout_tx i w" and ?p = "demo_proposal\<lparr>pr_Tx := payout_tx i w\<rparr>"
  let ?v = "onlooker_view ?tx" and ?pol = "sg_policy (onlooker s)" and ?st = "onlooker_state s"
  have bank: "v_Bank ?v = demo_account ''svm.bank'' demo_auth" "v_History ?v = empty_index" by (simp_all add: BuildView_def)
  note props = onlooker_sees[OF small, of i]
  have "Live ?p" "pr_ID ?p = ''78''" "pr_Tx ?p = ?tx" by (simp_all add: demo_proposal_def Live_def)
  then have ok: "fst (Review demo_signing ?pol ?p ?v ?st []) = Approve"
    using onlooker_approves[OF onlooker_finds[OF inv(1-3)] inv(4) props bank(2)] by simp
  have sigs: "MinimalSignatures (v_Bank ?v) ?p = [demo_sig]"
    unfolding bank(1) by (simp add: MinimalSignatures_def demo_proposal_def bank_authority_def demo_account_def demo_auth_def kv_get_Cons
        Sorted_def Let_def)
  have fields: "pr_Status ?p = Ready" "pr_ID ?p = ''78''" "pr_Expiration ?p = 1767229080000000000" "pr_Tx ?p = ?tx"
    by (simp_all add: demo_proposal_def)
  have cfg: "sc_RankDelay demo_cfg = 0" "\<not> sc_DryRun demo_cfg" by (simp_all add: demo_cfg_def)
  have one: "fst (execute_one demo_signing demo_cfg ?v ?st empty_ballot 1767225600000000000 ?p ([], ?pol)) =
      Some (?tx\<lparr>tx_Signatures := [demo_sig]\<rparr>)"
    using ok sigs by (simp add: execute_one_def fields cfg empty_ballot_def Second_def kv_remove_def case_prod_beta Let_def kv_get_Cons)
  have "\<not> IsMember (v_Bank ?v) ''zoe''" unfolding bank(1) by (simp add: IsMember_def WeightOf_def demo_account_def demo_auth_def)
  then have act: "pa_Executed (act demo_signing demo_cfg True (\<lambda>b. None) (onlooker_io s ?tx) demo_props ?v ?st empty_ballot (onlooker s)) =
      [?tx\<lparr>tx_Signatures := [demo_sig]\<rparr>]"
    using one props by (simp add: act_def Let_def case_prod_beta onlooker_def onlooker_io_def)
  have b: "cf_BankAccount (pc_Cfg ?pol) = ''svm.bank''"
    by (simp add: onlooker_def payout_policy_def demo_policy_def DefaultConfig_def)
  have members: "load_members (onlooker_io s ?tx) (demo_account ''svm.bank'' demo_auth) = Inr (demo_members, signed_ballots ?tx)"
    by (simp add: load_members_def onlooker_io_def SortedMembers_def Sorted_def demo_account_def demo_auth_def demo_members_def
        signed_ballots_def Let_def)
  have loads: "si_Accounts (onlooker_io s ?tx) [''svm.bank''] = Inr [demo_account ''svm.bank'' demo_auth]"
    "si_Props (onlooker_io s ?tx) = Inr demo_props" "si_History (onlooker_io s ?tx) q = Inr []"
    "sg_hist (onlooker s) = empty_index" "kv_get (signed_ballots ?tx) (pc_Self ?pol) = None" for q
    by (simp_all add: onlooker_io_def onlooker_def signed_ballots_def kv_get_Cons)
  have "pass_loaded demo_signing demo_cfg True (\<lambda>b. None) (onlooker_io s ?tx) demo_props 1767225600000000000 (onlooker s) =
      act demo_signing demo_cfg True (\<lambda>b. None) (onlooker_io s ?tx) demo_props ?v ?st empty_ballot (onlooker s)"
    by (simp add: pass_loaded_def b loads members onlooker_loads)
  moreover have "Pass demo_signing demo_cfg True (\<lambda>b. None) (onlooker_io s ?tx) (onlooker s) =
      Some (pass_loaded demo_signing demo_cfg True (\<lambda>b. None) (onlooker_io s ?tx) demo_props 1767225600000000000 (onlooker s))"
  proof -
    have "time_Parse (dp_Time demo_props) = Some 1767225600000000000" by (simp add: demo_props_def time_eval)
    moreover have "pruneExecuted now empty_index = empty_index" for now by (simp add: pruneExecuted_def empty_index_def)
    ultimately have "Pass demo_signing demo_cfg True (\<lambda>b. None) (onlooker_io s ?tx) (onlooker s) = Some (pass_loaded demo_signing demo_cfg
        True (\<lambda>b. None) (onlooker_io s ?tx) demo_props 1767225600000000000 ((onlooker s)\<lparr>sg_hist := sg_hist (onlooker s)\<rparr>))"
      by (simp add: Pass_def loads Sync_def)
    then show ?thesis by simp
  qed
  ultimately show ?thesis using act by simp
qed


end
